(* ===== verification/Prelude.thy ===== *)
theory Prelude
  imports Main "HOL-Library.Word" "HOL-Library.Monad_Syntax"
begin

text \<open>
  What every component shares.

  A C function that touches state is a function \<open>'s \<Rightarrow> ('a \<times> 's) option\<close>: it returns its
  value and the new state, and \<open>None\<close> stands for undefined behaviour (a null or dangling
  pointer, an index outside its array) and for a loop that does not end. Code is written with
  the \<open>do\<close> notation of the option monad. \<open>wp m Q\<close> says that \<open>m\<close> returns and that its value
  and state satisfy \<open>Q\<close>, so it is total correctness; the lemmas below are its calculus.
\<close>

type_synonym u64 = "64 word"
type_synonym u32 = "32 word"

named_theorems wp_intro \<open>total-correctness rules of operations, in introduction form\<close>
named_theorems frame \<open>which parts of the state an operation leaves alone\<close>

subsection \<open>Total correctness of option-valued state transformers\<close>

definition wp :: "('a \<times> 's) option \<Rightarrow> ('a \<Rightarrow> 's \<Rightarrow> bool) \<Rightarrow> bool" where
  "wp m Q \<longleftrightarrow> (case m of None \<Rightarrow> False | Some (a, s) \<Rightarrow> Q a s)"

lemma wp_Some [simp]: "wp (Some (a, s)) Q = Q a s"
  by (simp add: wp_def)

lemma wp_Some_pair: "wp (Some p) Q = Q (fst p) (snd p)"
  by (cases p) simp

lemma wp_None [simp]: "wp None Q = False"
  by (simp add: wp_def)

lemma wp_bind [simp]: "wp (Option.bind m g) Q = wp m (\<lambda>a s. wp (g (a, s)) Q)"
  by (cases m) (auto simp: wp_def split: prod.splits)

lemma wp_if [simp]: "wp (if b then m else n) Q = (if b then wp m Q else wp n Q)"
  by simp

lemma wp_conseq: "wp m P \<Longrightarrow> (\<And>a s. P a s \<Longrightarrow> Q a s) \<Longrightarrow> wp m Q"
  by (auto simp: wp_def split: option.splits)

lemma wp_conj: "wp m P \<Longrightarrow> wp m Q \<Longrightarrow> wp m (\<lambda>a s. P a s \<and> Q a s)"
  by (auto simp: wp_def split: option.splits)

lemma wp_bindI: "wp m P \<Longrightarrow> (\<And>a s. P a s \<Longrightarrow> wp (g (a, s)) Q) \<Longrightarrow> wp (Option.bind m g) Q"
  by (auto intro: wp_conseq)

lemma wp_prod [simp]: "wp (case p of (a, b) \<Rightarrow> g a b) Q = wp (g (fst p) (snd p)) Q"
  by (simp add: case_prod_unfold)

text \<open>Rules that take a program apart step by step without rewriting it.\<close>

lemma wp_step: "wp m P \<Longrightarrow> (\<And>a s. P a s \<Longrightarrow> wp (g a s) Q) \<Longrightarrow> wp (Option.bind m (\<lambda>(a, s). g a s)) Q"
  by (auto intro: wp_conseq)

lemma wp_get: "m = Some a \<Longrightarrow> wp (g a) Q \<Longrightarrow> wp (Option.bind m g) Q"
  by simp

lemma wp_run: "m = Some (a, s) \<Longrightarrow> wp (g a s) Q \<Longrightarrow> wp (Option.bind m (\<lambda>(a, s). g a s)) Q"
  by simp

lemma wp_branch: "(b \<Longrightarrow> wp m Q) \<Longrightarrow> (\<not> b \<Longrightarrow> wp n Q) \<Longrightarrow> wp (if b then m else n) Q"
  by simp

lemma wp_sum: "(\<And>a. r = Inl a \<Longrightarrow> wp (f a) Q) \<Longrightarrow> (\<And>b. r = Inr b \<Longrightarrow> wp (h b) Q) \<Longrightarrow>
    wp (case r of Inl a \<Rightarrow> f a | Inr b \<Rightarrow> h b) Q"
  by (cases r) auto

lemma wp_opt: "(r = None \<Longrightarrow> wp m Q) \<Longrightarrow> (\<And>a. r = Some a \<Longrightarrow> wp (f a) Q) \<Longrightarrow>
    wp (case r of None \<Rightarrow> m | Some a \<Rightarrow> f a) Q"
  by (cases r) auto

lemma wp_done: "Q a s \<Longrightarrow> wp (Some (a, s)) Q"
  by simp

lemma wp_iff: "wp m Q \<longleftrightarrow> (\<exists>a s. m = Some (a, s) \<and> Q a s)"
  by (cases m) (auto simp: wp_def split: prod.splits)

lemma wpD: "wp m Q \<Longrightarrow> m = Some (a, s) \<Longrightarrow> Q a s"
  by simp

lemma wpE: "wp m Q \<Longrightarrow> (\<And>a s. m = Some (a, s) \<Longrightarrow> Q a s \<Longrightarrow> R) \<Longrightarrow> R"
  by (auto simp: wp_iff)

subsection \<open>Loops\<close>

text \<open>
  A loop is a body that returns \<open>Inl a\<close> to go on with the loop variables \<open>a\<close> or \<open>Inr b\<close> to
  leave with the result \<open>b\<close>. \<open>loop n\<close> runs it at most \<open>n\<close> times and is \<open>None\<close> when it has
  not left by then: that a loop ends is what \<open>wp\<close> of it says. \<open>foreach\<close> runs the body over a
  list, the elements in order.
\<close>

fun loop :: "nat \<Rightarrow> ('a \<Rightarrow> 's \<Rightarrow> (('a + 'b) \<times> 's) option) \<Rightarrow> 'a \<Rightarrow> 's \<Rightarrow> ('b \<times> 's) option" where
  "loop 0 body a s = None"
| "loop (Suc n) body a s = do {
     (r, s) \<leftarrow> body a s;
     case r of Inl a \<Rightarrow> loop n body a s | Inr b \<Rightarrow> Some (b, s) }"

fun foreach :: "('x \<Rightarrow> 'a \<Rightarrow> 's \<Rightarrow> (('a + 'b) \<times> 's) option) \<Rightarrow> 'x list \<Rightarrow> 'a \<Rightarrow> 's \<Rightarrow> (('a + 'b) \<times> 's) option" where
  "foreach body [] a s = Some (Inl a, s)"
| "foreach body (x # xs) a s = do {
     (r, s) \<leftarrow> body x a s;
     case r of Inl a \<Rightarrow> foreach body xs a s | Inr b \<Rightarrow> Some (Inr b, s) }"

fun each :: "('x \<Rightarrow> 's \<Rightarrow> (unit \<times> 's) option) \<Rightarrow> 'x list \<Rightarrow> 's \<Rightarrow> (unit \<times> 's) option" where
  "each body [] s = Some ((), s)"
| "each body (x # xs) s = do { (_, s) \<leftarrow> body x s; each body xs s }"

lemma wp_case_sum [simp]:
  "wp (case r of Inl a \<Rightarrow> f a | Inr b \<Rightarrow> g b) Q \<longleftrightarrow>
     (\<forall>a. r = Inl a \<longrightarrow> wp (f a) Q) \<and> (\<forall>b. r = Inr b \<longrightarrow> wp (g b) Q)"
  by (cases r) auto

text \<open>The invariant rule: \<open>m\<close> is a measure that bounds the number of iterations.\<close>

lemma wp_loop:
  assumes "I a s" "m a s < n"
    and "\<And>a s. I a s \<Longrightarrow> wp (body a s) (\<lambda>r s'. case r of Inl a' \<Rightarrow> I a' s' \<and> m a' s' < m a s | Inr b \<Rightarrow> Q b s')"
  shows "wp (loop n body a s) Q"
  using assms(1,2)
proof (induction n arbitrary: a s)
  case 0
  then show ?case by simp
next
  case (Suc n)
  show ?case
    using assms(3) [OF Suc.prems(1)] Suc.IH Suc.prems(2)
    by (fastforce elim!: wp_conseq split: sum.splits)
qed

lemma wp_foreach:
  assumes "I xs a s"
    and "\<And>x xs a s. I (x # xs) a s \<Longrightarrow> wp (body x a s) (\<lambda>r s'. case r of Inl a' \<Rightarrow> I xs a' s' | Inr b \<Rightarrow> Q (Inr b) s')"
    and "\<And>a s. I [] a s \<Longrightarrow> Q (Inl a) s"
  shows "wp (foreach body xs a s) Q"
  using assms(1)
proof (induction xs arbitrary: a s)
  case Nil
  then show ?case using assms(3) by simp
next
  case (Cons x xs)
  show ?case
    using assms(2) [OF Cons.prems] Cons.IH by (fastforce elim!: wp_conseq split: sum.splits)
qed

lemma wp_each:
  assumes "I xs s"
    and "\<And>x xs s. I (x # xs) s \<Longrightarrow> wp (body x s) (\<lambda>_ s'. I xs s')"
    and "\<And>s. I [] s \<Longrightarrow> Q () s"
  shows "wp (each body xs s) Q"
  using assms(1)
proof (induction xs arbitrary: s)
  case Nil
  then show ?case using assms(3) by simp
next
  case (Cons x xs)
  show ?case using assms(2) [OF Cons.prems] Cons.IH by (auto elim!: wp_conseq)
qed

subsection \<open>Array access and update\<close>

text \<open>A read of \<open>a[i]\<close>: \<open>None\<close> outside the array.\<close>

definition at_index :: "'a list \<Rightarrow> nat \<Rightarrow> 'a option" where
  "at_index xs i = (if i < length xs then Some (xs ! i) else None)"

lemma at_index_Some [simp]: "i < length xs \<Longrightarrow> at_index xs i = Some (xs ! i)"
  by (simp add: at_index_def)

lemma at_index_None [simp]: "\<not> i < length xs \<Longrightarrow> at_index xs i = None"
  by (simp add: at_index_def)

lemma at_index_eq_Some_conv: "at_index xs i = Some x \<longleftrightarrow> i < length xs \<and> xs ! i = x"
  by (auto simp: at_index_def)

text \<open>
  The walk of a linked list of addresses into a heap \<open>m\<close>: the first that satisfies \<open>P\<close>. A
  dangling address that is reached is undefined.
\<close>

fun find_at :: "('a \<rightharpoonup> 'b) \<Rightarrow> ('b \<Rightarrow> bool) \<Rightarrow> 'a list \<Rightarrow> 'a option option" where
  "find_at m P [] = Some None"
| "find_at m P (x # xs) = do { r \<leftarrow> m x; if P r then Some (Some x) else find_at m P xs }"

lemma find_at_None: "find_at m P xs = Some None \<longleftrightarrow> (\<forall>x \<in> set xs. \<exists>r. m x = Some r \<and> \<not> P r)"
  by (induction xs) (auto split: bind_splits)

lemma find_at_Some: "find_at m P xs = Some (Some x) \<Longrightarrow> x \<in> set xs \<and> (\<exists>r. m x = Some r \<and> P r)"
  by (induction xs) (auto split: bind_splits if_splits)

lemma find_at_defined: "\<forall>x \<in> set xs. m x \<noteq> None \<Longrightarrow> \<exists>r. find_at m P xs = Some r"
  by (induction xs) auto

subsection \<open>Counting in an array\<close>

definition count_if :: "('a \<Rightarrow> bool) \<Rightarrow> 'a list \<Rightarrow> nat" where
  "count_if P xs = length (filter P xs)"

lemma count_if_Nil [simp]: "count_if P [] = 0"
  by (simp add: count_if_def)

lemma count_if_Cons [simp]: "count_if P (x # xs) = (if P x then 1 else 0) + count_if P xs"
  by (simp add: count_if_def)

lemma count_if_append [simp]: "count_if P (xs @ ys) = count_if P xs + count_if P ys"
  by (simp add: count_if_def)

lemma count_if_le_length: "count_if P xs \<le> length xs"
  by (simp add: count_if_def)

lemma count_if_pos: "i < length xs \<Longrightarrow> P (xs ! i) \<Longrightarrow> 0 < count_if P xs"
  unfolding count_if_def by (metis filter_empty_conv length_greater_0_conv nth_mem)

lemma count_if_replicate: "count_if P (replicate n x) = (if P x then n else 0)"
  by (induction n) auto

lemma count_if_update:
  assumes "i < length xs"
  shows "count_if P (xs[i := y]) + (if P (xs ! i) then 1 else 0) = count_if P xs + (if P y then 1 else 0)"
  using assms
proof (induction xs arbitrary: i)
  case Nil
  then show ?case by simp
next
  case (Cons x xs)
  then show ?case by (cases i) auto
qed

lemma count_if_update_same:
  "i < length xs \<Longrightarrow> P (xs ! i) = P y \<Longrightarrow> count_if P (xs[i := y]) = count_if P xs"
  using count_if_update [of i xs P y] by (auto split: if_splits)

lemma count_if_update_drop:
  "i < length xs \<Longrightarrow> P (xs ! i) \<Longrightarrow> \<not> P y \<Longrightarrow> Suc (count_if P (xs[i := y])) = count_if P xs"
  using count_if_update [of i xs P y] by simp

lemma count_if_update_add:
  "i < length xs \<Longrightarrow> \<not> P (xs ! i) \<Longrightarrow> P y \<Longrightarrow> count_if P (xs[i := y]) = Suc (count_if P xs)"
  using count_if_update [of i xs P y] by simp

end
