(* ===== verification/Env.thy ===== *)
theory Env
  imports Prelude
begin

text \<open>
  The boundary of the program: what it asks of the GPU driver, the operating system, the C
  allocator and the Python callbacks, none of which are under \<open>src/\<close>.

  The environment is a parameter. \<open>drv E h c\<close> is its answer to the call \<open>c\<close> after the
  calls \<open>h\<close> (the latest first), an arbitrary function: a theorem that quantifies over \<open>E\<close> holds
  for every behaviour of the driver, failures included. The state of a component records the
  calls made so far (\<open>hist\<close>), so what the program did to the device is itself a value that
  theorems speak about: \<open>live_handles\<close> and \<open>mappings\<close> read the physical allocations and the
  mappings off a history.

  The build configuration (the preprocessor symbols \<open>AIMDO_XPU\<close>, \<open>_WIN32\<close>, \<open>AIMDO_CUDA\<close>,
  \<open>__HIP_PLATFORM_AMD__\<close>) is the Boolean part of the same record, so that each \<open>#if\<close> of the
  source is an \<open>if\<close> of the model.
\<close>

subsection \<open>Calls and answers\<close>

datatype call =
    GetTick
  | MemGetInfo
  | NvmlMemoryInfo
  | ReadMemInfo
  | DxcoreQuery bool            \<comment> \<open>memory budget of the local (\<open>True\<close>) or non-local segment\<close>
  | WddmQuery bool              \<comment> \<open>DXGI video memory info, the same two segments\<close>
  | CtxSynchronize
  | MemCreate u64 int           \<comment> \<open>bytes, device\<close>
  | MemMap u64 u64 u64          \<comment> \<open>address, bytes, handle\<close>
  | MemSetAccess u64 u64 int
  | MemUnmap u64 u64
  | MemRelease u64
  | AddressReserve u64 u64      \<comment> \<open>bytes, alignment\<close>
  | AddressFree u64 u64
  | UnmapWorkaround u64 u64
  | MemAlloc u64
  | MemFree u64
  | MemAllocAsync u64 u64       \<comment> \<open>bytes, stream\<close>
  | MemFreeAsync u64 u64
  | GetCurrentDevice
  | HostAlloc                   \<comment> \<open>\<open>malloc\<close>, \<open>calloc\<close>, \<open>realloc\<close>: a nonzero code is \<open>NULL\<close>\<close>
  | Pageout nat u64 u64         \<comment> \<open>the owner's writeback callback: VBAR, offset, bytes\<close>
  | TryLock nat
  | RegisterConsumerQueue u64 int
  | RetireTokenCurrent u64 int
  | RetireSnapshot
  | CopyResidencyPoll bool
  | HostReserve u64             \<comment> \<open>host address space: reserve, commit, decommit, release\<close>
  | HostCommit u64 u64
  | HostDecommit u64 u64
  | HostRelease u64 u64
  | HostTouch u64 u64 u64       \<comment> \<open>a worker writes the first byte of each page: address, pages, page size\<close>
  | SyncCreate                  \<comment> \<open>a mutex, a condition variable or an event object of the system\<close>
  | ThreadCreate
  | WorkerProgress              \<comment> \<open>how many jobs the decommit worker finished meanwhile\<close>
  | MemHostRegister u64 u64
  | MemHostUnregister u64
  | FileIo bool u64 u64 u64 u64 \<comment> \<open>write, file, offset, buffer, bytes\<close>
  | FileAdvise u64 u64 u64
  | MemcpyHtoD u64 u64 u64 u64  \<comment> \<open>destination, source, bytes, stream\<close>
  | MemcpyDtoH u64 u64 u64 u64
  | EventCreate
  | EventRecord u64 u64         \<comment> \<open>event, and the stream (elsewhere than XPU) or the buffer\<close>
  | EventSynchronize u64
  | EventDestroy u64
  | MemAllocHost u64
  | MemFreeHost u64
  | UrDeviceAlloc u64 u64 u64 u64 \<comment> \<open>context, device, pool, bytes\<close>
  | UrFree u64 u64
  | UrDeviceIndex u64
  | UrTorchCaller               \<comment> \<open>the return addresses on the caller's stack\<close>
  | UrEnqueue u64 bool          \<comment> \<open>a copy or fill on a queue; whether it blocks\<close>
  | UrEventRetain u64
  | UrEventRelease u64
  | UrEventWait u64
  | UrEventStatus u64
  | UrQueueRetain u64
  | UrQueueRelease u64
  | UrQueueFinish u64
  | UrPhysicalMemCreate u64 u64 u64
  | Getenv nat                  \<comment> \<open>an environment variable: 1 when it is set\<close>
  | FindModule nat              \<comment> \<open>a loaded module or its image range, 0 if there is none\<close>
  | LookupSymbol u64 nat        \<comment> \<open>an entry point of a module, 0 if it has none\<close>
  | Detour nat nat              \<comment> \<open>a step of a detour transaction: begin, attach, detach, commit, abort; the entry point\<close>

datatype resp = Resp (r_rc: int) (r_val: u64) (r_val2: u64) (r_vals: "u64 list")

type_synonym driver = "call list \<Rightarrow> call \<Rightarrow> resp"

abbreviation CUDA_SUCCESS :: int where "CUDA_SUCCESS \<equiv> 0"
abbreviation CUDA_ERROR_OUT_OF_MEMORY :: int where "CUDA_ERROR_OUT_OF_MEMORY \<equiv> 2"
abbreviation CUDA_ERROR_UNKNOWN :: int where "CUDA_ERROR_UNKNOWN \<equiv> 999"

record env =
  is_xpu :: bool
  is_win :: bool
  is_cuda :: bool
  is_hip :: bool
  async_reclaim :: bool         \<comment> \<open>\<open>vbar_async_reclaim_enabled()\<close>\<close>
  stream_reclaim :: bool        \<comment> \<open>not \<open>aimdo_stream_reclaim_disabled()\<close>\<close>
  page_size :: u64              \<comment> \<open>\<open>hostbuf_page_size()\<close>\<close>
  reserve_granularity :: u64    \<comment> \<open>\<open>hostbuf_reserve_granularity()\<close>\<close>
  drv :: driver

definition winxpu :: "env \<Rightarrow> bool" where
  "winxpu E \<longleftrightarrow> is_xpu E \<and> is_win E"

record base =
  hist :: "call list"

text \<open>One call: its answer, and the call on the history.\<close>

definition ask :: "env \<Rightarrow> call \<Rightarrow> 'z base_scheme \<Rightarrow> (resp \<times> 'z base_scheme) option" where
  "ask E c s = Some (drv E (hist s) c, s\<lparr>hist := c # hist s\<rparr>)"

text \<open>\<open>CHECK_CU(x)\<close>: the call, and whether it succeeded (the failure is logged).\<close>

definition check_cu :: "env \<Rightarrow> call \<Rightarrow> 'z base_scheme \<Rightarrow> (bool \<times> 'z base_scheme) option" where
  "check_cu E c s = do { (r, s) \<leftarrow> ask E c s; Some (r_rc r = CUDA_SUCCESS, s) }"

lemma wp_ask [simp]: "wp (ask E c s) Q = Q (drv E (hist s) c) (s\<lparr>hist := c # hist s\<rparr>)"
  by (simp add: ask_def)

lemma wp_check_cu [simp]:
  "wp (check_cu E c s) Q = Q (r_rc (drv E (hist s) c) = 0) (s\<lparr>hist := c # hist s\<rparr>)"
  by (simp add: check_cu_def)

subsection \<open>The device as the history determines it\<close>

text \<open>\<open>ok_call E h c\<close>: the call \<open>c\<close> after \<open>h\<close> succeeded.\<close>

definition ok_call :: "env \<Rightarrow> call list \<Rightarrow> call \<Rightarrow> bool" where
  "ok_call E h c \<longleftrightarrow> r_rc (drv E h c) = CUDA_SUCCESS"

text \<open>The physical allocations created and not yet released.\<close>

fun live_handles :: "env \<Rightarrow> call list \<Rightarrow> u64 set" where
  "live_handles E [] = {}"
| "live_handles E (MemCreate n d # h) =
     (if ok_call E h (MemCreate n d) then insert (r_val (drv E h (MemCreate n d))) (live_handles E h)
      else live_handles E h)"
| "live_handles E (MemRelease x # h) =
     (if ok_call E h (MemRelease x) then live_handles E h - {x} else live_handles E h)"
| "live_handles E (c # h) = live_handles E h"

text \<open>
  What is mapped, from the address a mapping starts at to its size and allocation. An unmap
  removes the mappings that start in its range.
\<close>

fun mappings :: "env \<Rightarrow> call list \<Rightarrow> (u64 \<rightharpoonup> u64 \<times> u64)" where
  "mappings E [] = Map.empty"
| "mappings E (MemMap a n x # h) =
     (if ok_call E h (MemMap a n x) then (mappings E h)(a \<mapsto> (n, x)) else mappings E h)"
| "mappings E (MemUnmap a n # h) =
     (if ok_call E h (MemUnmap a n) then (\<lambda>x. if x - a < n then None else mappings E h x) else mappings E h)"
| "mappings E (c # h) = mappings E h"

text \<open>
  Documented behaviour of \<open>cuMemCreate\<close> and its HIP and Level Zero counterparts: a successful
  call returns a handle that is not null and that no live allocation has.
\<close>

definition create_fresh :: "env \<Rightarrow> bool" where
  "create_fresh E \<longleftrightarrow> (\<forall>h n d. ok_call E h (MemCreate n d) \<longrightarrow>
     r_val (drv E h (MemCreate n d)) \<noteq> 0 \<and> r_val (drv E h (MemCreate n d)) \<notin> live_handles E h)"

text \<open>The converse calls succeed: what clean-up paths need to leave nothing behind.\<close>

definition undo_succeeds :: "env \<Rightarrow> bool" where
  "undo_succeeds E \<longleftrightarrow> (\<forall>h a n x. ok_call E h (MemUnmap a n) \<and> ok_call E h (MemRelease x))"

text \<open>Calls that only read, and calls that change neither physical allocations nor mappings.\<close>

fun is_query :: "call \<Rightarrow> bool" where
  "is_query GetTick = True"
| "is_query MemGetInfo = True"
| "is_query NvmlMemoryInfo = True"
| "is_query ReadMemInfo = True"
| "is_query (DxcoreQuery b) = True"
| "is_query (WddmQuery b) = True"
| "is_query _ = False"

fun harmless :: "call \<Rightarrow> bool" where
  "harmless (MemCreate n d) = False"
| "harmless (MemMap a n x) = False"
| "harmless (MemUnmap a n) = False"
| "harmless (MemRelease x) = False"
| "harmless _ = True"

lemma is_query_harmless: "is_query c \<Longrightarrow> harmless c"
  by (cases c) auto

lemma live_handles_harmless [simp]: "harmless c \<Longrightarrow> live_handles E (c # h) = live_handles E h"
  by (cases c) auto

lemma mappings_harmless [simp]: "harmless c \<Longrightarrow> mappings E (c # h) = mappings E h"
  by (cases c) auto

text \<open>\<open>asked_only P h h'\<close>: from the history \<open>h\<close> to \<open>h'\<close> only calls that satisfy \<open>P\<close> were made.\<close>

definition asked_only :: "(call \<Rightarrow> bool) \<Rightarrow> call list \<Rightarrow> call list \<Rightarrow> bool" where
  "asked_only P h h' \<longleftrightarrow> (\<exists>cs. h' = cs @ h \<and> list_all P cs)"

lemma asked_only_refl [simp]: "asked_only P h h"
  by (simp add: asked_only_def)

lemma asked_only_Cons [simp]: "P c \<Longrightarrow> asked_only P h (c # h)"
  unfolding asked_only_def by (rule exI [of _ "[c]"]) simp

lemma asked_only_step [simp]:
  assumes "P c" "asked_only P h h'"
  shows "asked_only P h (c # h')"
proof -
  from assms obtain cs where "h' = cs @ h" "list_all P cs" by (auto simp: asked_only_def)
  with assms show ?thesis unfolding asked_only_def by (intro exI [of _ "c # cs"]) simp
qed

lemma asked_only_uncons: "asked_only P (c # h) h' \<Longrightarrow> P c \<Longrightarrow> asked_only P h h'"
  by (auto simp: asked_only_def)

lemma asked_only_trans: "asked_only P h h' \<Longrightarrow> asked_only P h' h'' \<Longrightarrow> asked_only P h h''"
  by (auto simp: asked_only_def)

lemma asked_only_mono: "asked_only P h h' \<Longrightarrow> (\<And>c. P c \<Longrightarrow> Q c) \<Longrightarrow> asked_only Q h h'"
  by (auto simp: asked_only_def list_all_iff)

lemma asked_only_harmless:
  assumes "asked_only harmless h h'"
  shows "live_handles E h' = live_handles E h" "mappings E h' = mappings E h"
proof -
  from assms obtain cs where h': "h' = cs @ h" and cs: "list_all harmless cs"
    by (auto simp: asked_only_def)
  from cs have "live_handles E (cs @ h) = live_handles E h \<and> mappings E (cs @ h) = mappings E h"
    by (induction cs) auto
  then show "live_handles E h' = live_handles E h" "mappings E h' = mappings E h"
    by (simp_all add: h')
qed

subsection \<open>A concrete driver for the witnesses\<close>

text \<open>
  It succeeds at everything; the handle of a new allocation is one more than the number of
  calls made before it (after \<open>2 ^ 32\<close> calls it is out of memory, so that no handle repeats).
\<close>

definition happy_drv :: driver where
  "happy_drv h c = (case c of
      MemCreate n d \<Rightarrow> if length h < 2 ^ 32 then Resp 0 (of_nat (Suc (length h))) 0 []
          else Resp CUDA_ERROR_OUT_OF_MEMORY 0 0 []
    | AddressReserve n a \<Rightarrow> Resp 0 (2 ^ 40) 0 []
    | MemGetInfo \<Rightarrow> Resp 0 (2 ^ 33) (2 ^ 34) []
    | Pageout v off n \<Rightarrow> Resp 1 0 0 []
    | TryLock n \<Rightarrow> Resp 1 0 0 []
    | RegisterConsumerQueue q d \<Rightarrow> Resp 1 0 0 []
    | RetireTokenCurrent q d \<Rightarrow> Resp 0 1 0 []
    | RetireSnapshot \<Rightarrow> Resp 0 1 0 [100]
    | HostReserve n \<Rightarrow> Resp 0 (2 ^ 44) 0 []
    | FileIo w f off buf n \<Rightarrow> Resp (int (unat n)) 0 0 []
    | EventCreate \<Rightarrow> Resp 0 (of_nat (Suc (length h))) 0 []
    | MemAllocHost n \<Rightarrow> Resp 0 (2 ^ 43 + of_nat (length h) * 2 ^ 27) 0 []
    | UrDeviceAlloc c d p n \<Rightarrow> Resp 0 (2 ^ 46 + of_nat (length h) * 2 ^ 20) 0 []
    | _ \<Rightarrow> Resp 0 0 0 [])"

definition happy_env :: "bool \<Rightarrow> bool \<Rightarrow> env" where
  "happy_env x w = \<lparr>is_xpu = x, is_win = w, is_cuda = False, is_hip = False,
     async_reclaim = True, stream_reclaim = True, page_size = 4096, reserve_granularity = 65536, drv = happy_drv\<rparr>"

text \<open>A driver that refuses every physical allocation and succeeds at the rest.\<close>

definition oom_env :: "bool \<Rightarrow> bool \<Rightarrow> env" where
  "oom_env x w = (happy_env x w)\<lparr>drv := (\<lambda>h c. case c of
      MemCreate n d \<Rightarrow> Resp CUDA_ERROR_OUT_OF_MEMORY 0 0 []
    | _ \<Rightarrow> happy_drv h c)\<rparr>"

lemma happy_env_sel [simp]:
  "is_xpu (happy_env x w) = x" "is_win (happy_env x w) = w" "is_cuda (happy_env x w) = False"
  "is_hip (happy_env x w) = False" "async_reclaim (happy_env x w) = True"
  "stream_reclaim (happy_env x w)" "page_size (happy_env x w) = 4096" "reserve_granularity (happy_env x w) = 65536"
  "drv (happy_env x w) = happy_drv" "winxpu (happy_env x w) = (x \<and> w)"
  by (simp_all add: happy_env_def winxpu_def)

text \<open>Both honour the documented freshness of handles.\<close>

definition issued_handles :: "nat \<Rightarrow> u64 set" where
  "issued_handles n = of_nat ` {k. 0 < k \<and> k \<le> n \<and> k \<le> 2 ^ 32}"

lemma issued_handles_mono: "m \<le> n \<Longrightarrow> x \<in> issued_handles m \<Longrightarrow> x \<in> issued_handles n"
  unfolding issued_handles_def by (erule imageE) (simp add: image_eqI)

lemma issued_handles_new: "n < 2 ^ 32 \<Longrightarrow> of_nat (Suc n) \<in> issued_handles (Suc n)"
  unfolding issued_handles_def by (rule imageI) simp

lemma handles_distinct: "(of_nat j :: u64) = of_nat k \<Longrightarrow> j \<le> 2 ^ 32 \<Longrightarrow> k \<le> 2 ^ 32 \<Longrightarrow> j = k"
  by (drule arg_cong [where f = unat]) (simp add: unat_of_nat)

lemma live_handles_happy: "drv E = happy_drv \<Longrightarrow> live_handles E h \<subseteq> issued_handles (length h)"
proof (induction h)
  case (Cons c h)
  then have IH: "\<And>x. x \<in> live_handles E h \<Longrightarrow> x \<in> issued_handles (Suc (length h))"
    using issued_handles_mono [OF le_SucI [OF order_refl]] by blast
  show ?case
  proof (cases "\<exists>n d. c = MemCreate n d")
    case True
    then obtain n d where c: "c = MemCreate n d" by blast
    show ?thesis
    proof (cases "ok_call E h c")
      case True
      then have l: "length h < 2 ^ 32" and v: "r_val (drv E h c) = of_nat (Suc (length h))"
        using Cons.prems c by (auto simp: ok_call_def happy_drv_def split: if_splits)
      show ?thesis using IH issued_handles_new [OF l] True v c by auto
    qed (use IH c in auto)
  next
    case False
    have "live_handles E (c # h) \<subseteq> live_handles E h" using False by (cases c) auto
    then show ?thesis using IH by auto
  qed
qed simp

lemma create_fresh_happy: "create_fresh (happy_env x w)"
proof -
  have "r_val (drv (happy_env x w) h (MemCreate n d)) \<noteq> 0 \<and>
      r_val (drv (happy_env x w) h (MemCreate n d)) \<notin> live_handles (happy_env x w) h"
    if "ok_call (happy_env x w) h (MemCreate n d)" for h n d
  proof -
    from that have l: "length h < 2 ^ 32" and
      v: "r_val (drv (happy_env x w) h (MemCreate n d)) = of_nat (Suc (length h))"
      by (auto simp: ok_call_def happy_drv_def split: if_splits)
    have "(of_nat (Suc (length h)) :: u64) \<notin> issued_handles (length h)"
    proof
      assume "(of_nat (Suc (length h)) :: u64) \<in> issued_handles (length h)"
      then obtain k where k: "(of_nat (Suc (length h)) :: u64) = of_nat k" "k \<le> length h"
        by (auto simp: issued_handles_def simp del: of_nat_Suc)
      have "Suc (length h) = k" by (rule handles_distinct [OF k(1)]) (use k(2) l in simp_all)
      then show False using k(2) by simp
    qed
    moreover have "(of_nat (Suc (length h)) :: u64) \<noteq> 0"
      using handles_distinct [of "Suc (length h)" 0] l by (auto simp del: of_nat_Suc)
    ultimately show ?thesis
      using live_handles_happy [of "happy_env x w" h] unfolding v by auto
  qed
  then show ?thesis by (auto simp: create_fresh_def)
qed

lemma create_fresh_oom: "create_fresh (oom_env x w)"
  by (simp add: create_fresh_def oom_env_def ok_call_def)

end
