(* ===== verification/Budget.thy ===== *)
theory Budget
  imports Env
begin

text \<open>
  The per-device context (\<open>AimdoContext\<close> of \<open>src/control.h\<close>, its scalar fields) and the memory
  pressure computation: \<open>cuda_budget_deficit\<close> (\<open>src/control.c\<close>), the Windows
  \<open>poll_budget_deficit\<close> (\<open>src-win/shmem-detect.c\<close>), \<open>budget_deficit\<close> and \<open>three_stooges\<close>
  (\<open>src/plat.h\<close>). One state is the context of one device.

  Byte counters are 64-bit words, as in C. A \<open>ssize_t\<close> is an \<open>int\<close>: the code converts each
  unsigned operand before it adds, so a value here is the C value wherever C's is defined
  (signed overflow is undefined in C and would need counters beyond 8 EiB). The name of the
  prevailing method, which is only logged, is left out.
\<close>

record ctx = base +
  device_id :: int
  vram_capacity :: u64
  integrated_ram_headroom :: u64
  extra_vram_headroom :: u64
  malloc_async_clamp :: u64
  total_vram_usage :: u64
  vbar_reclaim_requested :: int
  total_vram_last_check :: u64
  deficit_sync :: int
  control_timestamp_last_check :: u64
  vbars_dirty :: bool
  allocations_dirty :: bool
  integrated_device :: bool
  simple_vram_headroom :: int
  nvml_device :: bool
  g_wddm_adapter :: bool
  g_dxcore_adapter :: bool
  wddm_timestamp_last_check :: u64
  wddm_nonlocal_usage_baseline :: u64
  vbar_lock_depth :: nat
  allocations_lock_depth :: nat

abbreviation VRAM_HEADROOM :: int where "VRAM_HEADROOM \<equiv> 256 * 1024 * 1024"
abbreviation WDDM_BUDGET_HEADROOM :: int where "WDDM_BUDGET_HEADROOM \<equiv> 512 * 1024 * 1024"
abbreviation CUDA_BUDGET_HEADROOM :: int where "CUDA_BUDGET_HEADROOM \<equiv> 192 * 1024 * 1024"
abbreviation NVML_BUDGET_HEADROOM :: int where "NVML_BUDGET_HEADROOM \<equiv> 512 * 1024 * 1024"
abbreviation INTEGRATED_SIMPLE_ONLY_DEFICIT :: int where
  "INTEGRATED_SIMPLE_ONLY_DEFICIT \<equiv> - (2 ^ 60)"

subsection \<open>Locks\<close>

text \<open>
  The allocations lock is a plain pthread mutex or a Windows critical section. A thread that
  locks a pthread mutex it holds never returns (\<open>None\<close>); unlocking a mutex that is not held is
  undefined (\<open>None\<close>). A critical section counts.
\<close>

definition allocations_lock :: "env \<Rightarrow> 'z ctx_scheme \<Rightarrow> (unit \<times> 'z ctx_scheme) option" where
  "allocations_lock E s =
     (if 0 < allocations_lock_depth s \<and> \<not> is_win E then None
      else Some ((), s\<lparr>allocations_lock_depth := Suc (allocations_lock_depth s)\<rparr>))"

definition allocations_unlock :: "env \<Rightarrow> 'z ctx_scheme \<Rightarrow> (unit \<times> 'z ctx_scheme) option" where
  "allocations_unlock E s =
     (if allocations_lock_depth s = 0 then None
      else Some ((), s\<lparr>allocations_lock_depth := allocations_lock_depth s - 1\<rparr>))"

lemma wp_allocations_lock [simp]:
  "wp (allocations_lock E s) Q \<longleftrightarrow>
     (allocations_lock_depth s = 0 \<or> is_win E) \<and>
     Q () (s\<lparr>allocations_lock_depth := Suc (allocations_lock_depth s)\<rparr>)"
  by (auto simp: allocations_lock_def)

lemma wp_allocations_unlock [simp]:
  "wp (allocations_unlock E s) Q \<longleftrightarrow>
     0 < allocations_lock_depth s \<and>
     Q () (s\<lparr>allocations_lock_depth := allocations_lock_depth s - 1\<rparr>)"
  by (auto simp: allocations_unlock_def)

text \<open>The VBAR state lock exists on Windows/XPU only and is a critical section there.\<close>

definition vbar_state_lock :: "env \<Rightarrow> 'z ctx_scheme \<Rightarrow> (unit \<times> 'z ctx_scheme) option" where
  "vbar_state_lock E s =
     Some ((), if winxpu E then s\<lparr>vbar_lock_depth := Suc (vbar_lock_depth s)\<rparr> else s)"

definition vbar_state_try_lock :: "env \<Rightarrow> 'z ctx_scheme \<Rightarrow> (bool \<times> 'z ctx_scheme) option" where
  "vbar_state_try_lock E s =
     (if winxpu E then do {
        (r, s) \<leftarrow> ask E (TryLock 0) s;
        if r_rc r \<noteq> 0 then Some (True, s\<lparr>vbar_lock_depth := Suc (vbar_lock_depth s)\<rparr>)
        else Some (False, s) }
      else Some (True, s))"

definition vbar_state_unlock :: "env \<Rightarrow> 'z ctx_scheme \<Rightarrow> (unit \<times> 'z ctx_scheme) option" where
  "vbar_state_unlock E s =
     (if winxpu E then
        if vbar_lock_depth s = 0 then None
        else Some ((), s\<lparr>vbar_lock_depth := vbar_lock_depth s - 1\<rparr>)
      else Some ((), s))"

lemma wp_vbar_state_lock [simp]:
  "wp (vbar_state_lock E s) Q =
     Q () (if winxpu E then s\<lparr>vbar_lock_depth := Suc (vbar_lock_depth s)\<rparr> else s)"
  by (simp add: vbar_state_lock_def)

lemma wp_vbar_state_unlock [simp]:
  "wp (vbar_state_unlock E s) Q =
     ((winxpu E \<longrightarrow> 0 < vbar_lock_depth s) \<and>
      Q () (if winxpu E then s\<lparr>vbar_lock_depth := vbar_lock_depth s - 1\<rparr> else s))"
  by (auto simp: vbar_state_unlock_def)

subsection \<open>Sampling memory pressure\<close>

text \<open>\<open>calculate_integrated_ram_headroom\<close>: a sixteenth of the memory, between 2 and 8 GiB.\<close>

definition calculate_integrated_ram_headroom :: "u64 \<Rightarrow> u64" where
  "calculate_integrated_ram_headroom total_bytes =
     (let headroom = total_bytes div 16 in
      if headroom < 2 * 2 ^ 30 then 2 * 2 ^ 30
      else if headroom > 8 * 2 ^ 30 then 8 * 2 ^ 30
      else headroom)"

text \<open>
  \<open>read_mem_available_bytes\<close>: the environment finds the \<open>MemAvailable\<close> line of \<open>/proc/meminfo\<close>
  and its value in KiB, or fails.
\<close>

definition read_mem_available_bytes :: "env \<Rightarrow> 'z base_scheme \<Rightarrow> (u64 option \<times> 'z base_scheme) option" where
  "read_mem_available_bytes E s = do {
     (r, s) \<leftarrow> ask E ReadMemInfo s;
     Some (if r_rc r = 0 then Some (r_val r * 1024) else None, s) }"

text \<open>
  Free device memory, from NVML when the device has it and it answers, else from the driver:
  whether NVML answered, and the value.
\<close>

definition device_memory :: "env \<Rightarrow> bool \<Rightarrow> 'z base_scheme \<Rightarrow> ((bool \<times> u64 option) \<times> 'z base_scheme) option" where
  "device_memory E nvml s = do {
     (n, s) \<leftarrow> (if nvml then ask E NvmlMemoryInfo s else Some (Resp 1 0 0 [], s));
     if r_rc n = 0 then Some ((True, Some (r_val n)), s)
     else do {
       (r, s) \<leftarrow> ask E MemGetInfo s;
       Some ((False, if r_rc r = CUDA_SUCCESS then Some (r_val r) else None), s) } }"

definition cuda_budget_deficit :: "env \<Rightarrow> 'z ctx_scheme \<Rightarrow> (bool \<times> 'z ctx_scheme) option" where
  "cuda_budget_deficit E s = do {
     (t, s) \<leftarrow> ask E GetTick s;
     let now = r_val t;
     if now - control_timestamp_last_check s < 2000 then Some (True, s)
     else do {
       let s = s\<lparr>control_timestamp_last_check := now, total_vram_last_check := total_vram_usage s\<rparr>;
       if \<not> is_win E \<and> \<not> is_xpu E \<and> integrated_device s then do {
         (m, s) \<leftarrow> read_mem_available_bytes E s;
         case m of
           None \<Rightarrow> Some (False, s\<lparr>deficit_sync := INTEGRATED_SIMPLE_ONLY_DEFICIT\<rparr>)
         | Some mem_available \<Rightarrow>
             Some (True, s\<lparr>deficit_sync := sint (integrated_ram_headroom s) - sint mem_available\<rparr>) }
       else do {
         ((_, free_vram), s) \<leftarrow> device_memory E (is_win E \<and> is_cuda E \<and> nvml_device s) s;
         case free_vram of
           None \<Rightarrow> Some (False, s)
         | Some free_vram \<Rightarrow> Some (True, s\<lparr>deficit_sync := VRAM_HEADROOM - sint free_vram\<rparr>) } } }"

text \<open>
  The Windows sampler. An answer to a budget query carries the budget in \<open>r_val\<close> and the current
  usage in \<open>r_val2\<close>.
\<close>

definition nonlocal_sample :: "'z ctx_scheme \<Rightarrow> u64 \<Rightarrow> u64 \<times> 'z ctx_scheme" where
  "nonlocal_sample s usage =
     (let s = (if wddm_nonlocal_usage_baseline s = 0
               then s\<lparr>wddm_nonlocal_usage_baseline := usage\<rparr> else s)
      in (if usage > wddm_nonlocal_usage_baseline s then usage - wddm_nonlocal_usage_baseline s
          else 0, s))"

text \<open>The local budget: whether a query answered, and the effective usage, budget and non-local excess.\<close>

record budget_sample =
  effective_usage :: u64
  effective_budget :: u64
  nonlocal_excess :: u64

definition query_adapter ::
  "env \<Rightarrow> (bool \<Rightarrow> call) \<Rightarrow> bool \<Rightarrow> budget_sample \<Rightarrow> 'z ctx_scheme \<Rightarrow> ((bool \<times> budget_sample) \<times> 'z ctx_scheme) option"
where
  "query_adapter E q set_usage b s = do {
     (r, s) \<leftarrow> ask E (q True) s;
     if r_rc r \<noteq> 0 then Some ((False, b), s)
     else do {
       let b = b\<lparr>effective_budget := r_val r\<rparr>;
       let b = (if set_usage then b\<lparr>effective_usage := r_val2 r\<rparr> else b);
       if is_xpu E then do {
         (n, s) \<leftarrow> ask E (q False) s;
         if r_rc n \<noteq> 0 then Some ((True, b), s)
         else do {
           let (x, s) = nonlocal_sample s (r_val2 n);
           Some ((True, b\<lparr>nonlocal_excess := x\<rparr>), s) } }
       else Some ((True, b), s) } }"

text \<open>The headroom asked of the operating system's budget.\<close>

definition wddm_headroom :: "env \<Rightarrow> int \<Rightarrow> u64 \<Rightarrow> u64 \<Rightarrow> int" where
  "wddm_headroom E simple_headroom capacity budget =
     (let h = (if simple_headroom > WDDM_BUDGET_HEADROOM then simple_headroom else WDDM_BUDGET_HEADROOM)
      in if is_xpu E \<and> capacity > budget then
           let os_reserve = sint (capacity - budget)
           in if h > os_reserve then h - os_reserve else 0
         else h)"

definition query_budget :: "env \<Rightarrow> 'z ctx_scheme \<Rightarrow> (budget_sample \<times> 'z ctx_scheme) option" where
  "query_budget E s = do {
     let b = \<lparr>effective_usage = total_vram_usage s, effective_budget = vram_capacity s, nonlocal_excess = 0\<rparr>;
     (q, s) \<leftarrow> (if g_dxcore_adapter s then query_adapter E DxcoreQuery (is_xpu E) b s
                else Some ((False, b), s));
     (q, s) \<leftarrow> (if \<not> fst q \<and> g_wddm_adapter s then query_adapter E WddmQuery True (snd q) s
                else Some (q, s));
     Some (snd q, s) }"

text \<open>The deficit the sample shows: the local budget, and non-local usage once it clears the margin.\<close>

definition budget_sync :: "env \<Rightarrow> int \<Rightarrow> u64 \<Rightarrow> budget_sample \<Rightarrow> int" where
  "budget_sync E simple_headroom capacity b =
     (let d = sint (effective_usage b) + wddm_headroom E simple_headroom capacity (effective_budget b)
              - sint (effective_budget b)
      in if is_xpu E \<and> nonlocal_excess b > word_of_int WDDM_BUDGET_HEADROOM \<and> sint (nonlocal_excess b) > d
         then sint (nonlocal_excess b) else d)"

definition device_headroom :: "env \<Rightarrow> int \<Rightarrow> bool \<Rightarrow> int" where
  "device_headroom E simple_headroom used_nvml =
     (if is_xpu E then
        if simple_headroom > WDDM_BUDGET_HEADROOM then simple_headroom else WDDM_BUDGET_HEADROOM
      else if used_nvml then NVML_BUDGET_HEADROOM else CUDA_BUDGET_HEADROOM div 2)"

definition poll_budget_deficit_win :: "env \<Rightarrow> 'z ctx_scheme \<Rightarrow> (bool \<times> 'z ctx_scheme) option" where
  "poll_budget_deficit_win E s = do {
     (t, s) \<leftarrow> ask E GetTick s;
     let now = r_val t;
     if now - wddm_timestamp_last_check s < 2000 then Some (True, s)
     else do {
       let s = s\<lparr>wddm_timestamp_last_check := now, total_vram_last_check := total_vram_usage s\<rparr>;
       (b, s) \<leftarrow> query_budget E s;
       let s = s\<lparr>deficit_sync := budget_sync E (simple_vram_headroom s) (vram_capacity s) b\<rparr>;
       ((used_nvml, free_vram), s) \<leftarrow> device_memory E (is_cuda E \<and> nvml_device s) s;
       case free_vram of
         None \<Rightarrow> Some (True, s)
       | Some free_vram \<Rightarrow> do {
           let deficit_cuda = device_headroom E (simple_vram_headroom s) used_nvml - sint free_vram;
           Some (True, if deficit_cuda > deficit_sync s then s\<lparr>deficit_sync := deficit_cuda\<rparr> else s) } } }"

definition poll_budget_deficit :: "env \<Rightarrow> 'z ctx_scheme \<Rightarrow> (bool \<times> 'z ctx_scheme) option" where
  "poll_budget_deficit E s = (if is_win E then poll_budget_deficit_win E s else cuda_budget_deficit E s)"

definition aimdo_wddm_force_poll :: "env \<Rightarrow> 'z ctx_scheme \<Rightarrow> (unit \<times> 'z ctx_scheme) option" where
  "aimdo_wddm_force_poll E s =
     Some ((), if is_win E then s\<lparr>wddm_timestamp_last_check := 0\<rparr> else s)"

subsection \<open>The deficit\<close>

definition deficit_simple :: "'z ctx_scheme \<Rightarrow> u64 \<Rightarrow> int" where
  "deficit_simple s bytes =
     sint (total_vram_usage s + bytes) + simple_vram_headroom s - sint (vram_capacity s)"

definition deficit_delta :: "'z ctx_scheme \<Rightarrow> u64 \<Rightarrow> int" where
  "deficit_delta s bytes =
     deficit_sync s + sint (total_vram_usage s) - sint (total_vram_last_check s) + sint bytes"

definition budget_deficit :: "env \<Rightarrow> u64 \<Rightarrow> 'z ctx_scheme \<Rightarrow> (int \<times> 'z ctx_scheme) option" where
  "budget_deficit E bytes s = do {
     (_, s) \<leftarrow> poll_budget_deficit E s;
     Some (max (deficit_simple s bytes) (deficit_delta s bytes) + sint (extra_vram_headroom s), s) }"

subsection \<open>Creating, mapping and opening one allocation\<close>

definition unmap_workaround :: "env \<Rightarrow> u64 \<Rightarrow> u64 \<Rightarrow> 'z base_scheme \<Rightarrow> (unit \<times> 'z base_scheme) option" where
  "unmap_workaround E va n s =
     (if is_hip E \<and> \<not> is_win E then do { (_, s) \<leftarrow> ask E (UnmapWorkaround va n) s; Some ((), s) }
      else Some ((), s))"

text \<open>\<open>three_stooges\<close>: \<open>Inl err\<close>, or \<open>Inr handle\<close> with the bytes accounted.\<close>

definition three_stooges ::
  "env \<Rightarrow> u64 \<Rightarrow> u64 \<Rightarrow> int \<Rightarrow> 'z ctx_scheme \<Rightarrow> ((int + u64) \<times> 'z ctx_scheme) option" where
  "three_stooges E vaddr bytes device s = do {
     (r, s) \<leftarrow> ask E (MemCreate bytes device) s;
     if r_rc r \<noteq> CUDA_SUCCESS then Some (Inl (r_rc r), s)
     else do {
       let h = r_val r;
       (r, s) \<leftarrow> ask E (MemMap vaddr bytes h) s;
       if r_rc r \<noteq> CUDA_SUCCESS then do {
         (_, s) \<leftarrow> check_cu E (MemRelease h) s;
         Some (Inl (r_rc r), s) }
       else do {
         (r, s) \<leftarrow> ask E (MemSetAccess vaddr bytes device) s;
         if r_rc r \<noteq> CUDA_SUCCESS then do {
           (_, s) \<leftarrow> check_cu E (MemUnmap vaddr bytes) s;
           (_, s) \<leftarrow> unmap_workaround E vaddr bytes s;
           (_, s) \<leftarrow> check_cu E (MemRelease h) s;
           Some (Inl (r_rc r), s) }
         else Some (Inr h, s\<lparr>total_vram_usage := total_vram_usage s + bytes\<rparr>) } } }"

subsection \<open>What sampling changes\<close>

text \<open>
  \<open>sampled s s'\<close>: from \<open>s\<close> to \<open>s'\<close> only queries were made and only the pressure sample and
  its time stamps changed. \<open>unsampled\<close> erases those fields, so that everything else is equal
  exactly when the erased states are.
\<close>

definition unsampled :: "'z ctx_scheme \<Rightarrow> 'z ctx_scheme" where
  "unsampled s = s\<lparr>hist := [], deficit_sync := 0, control_timestamp_last_check := 0,
     wddm_timestamp_last_check := 0, total_vram_last_check := 0, wddm_nonlocal_usage_baseline := 0\<rparr>"

definition sampled :: "'z ctx_scheme \<Rightarrow> 'z ctx_scheme \<Rightarrow> bool" where
  "sampled s s' \<longleftrightarrow> asked_only is_query (hist s) (hist s') \<and> unsampled s' = unsampled s"

lemma sampled_refl [simp]: "sampled s s"
  by (simp add: sampled_def)

lemma sampled_trans: "sampled s s' \<Longrightarrow> sampled s' s'' \<Longrightarrow> sampled s s''"
  by (auto simp: sampled_def intro: asked_only_trans)

lemma sampled_ask: "sampled s s' \<Longrightarrow> is_query c \<Longrightarrow> sampled s (s'\<lparr>hist := c # hist s'\<rparr>)"
  by (auto simp: sampled_def unsampled_def intro: asked_only_trans)

lemma sampled_upd [simp]:
  "sampled s (s'\<lparr>deficit_sync := d\<rparr>) = sampled s s'"
  "sampled s (s'\<lparr>wddm_nonlocal_usage_baseline := b\<rparr>) = sampled s s'"
  "sampled s (s'\<lparr>control_timestamp_last_check := t\<rparr>) = sampled s s'"
  "sampled s (s'\<lparr>wddm_timestamp_last_check := t\<rparr>) = sampled s s'"
  "sampled s (s'\<lparr>total_vram_last_check := l\<rparr>) = sampled s s'"
  by (simp_all add: sampled_def unsampled_def)

lemma sampled_fields:
  assumes "sampled s s'"
  shows "total_vram_usage s' = total_vram_usage s" "vram_capacity s' = vram_capacity s"
    "simple_vram_headroom s' = simple_vram_headroom s" "extra_vram_headroom s' = extra_vram_headroom s"
    "integrated_device s' = integrated_device s" "device_id s' = device_id s"
    "vbar_reclaim_requested s' = vbar_reclaim_requested s" "malloc_async_clamp s' = malloc_async_clamp s"
    "vbars_dirty s' = vbars_dirty s" "vbar_lock_depth s' = vbar_lock_depth s"
    "allocations_lock_depth s' = allocations_lock_depth s" "ctx.more s' = ctx.more s"
  using assms by (cases s; cases s'; simp add: sampled_def unsampled_def)+

lemma sampled_hist [simp]:
  "sampled s (s'\<lparr>hist := h\<rparr>) \<longleftrightarrow> asked_only is_query (hist s) h \<and> unsampled s' = unsampled s"
  by (simp add: sampled_def unsampled_def)

lemma unsampled_upd [simp]:
  "unsampled (s\<lparr>deficit_sync := d\<rparr>) = unsampled s"
  "unsampled (s\<lparr>wddm_nonlocal_usage_baseline := b\<rparr>) = unsampled s"
  "unsampled (s\<lparr>control_timestamp_last_check := t\<rparr>) = unsampled s"
  "unsampled (s\<lparr>wddm_timestamp_last_check := t\<rparr>) = unsampled s"
  "unsampled (s\<lparr>total_vram_last_check := l\<rparr>) = unsampled s"
  "unsampled (s\<lparr>hist := h\<rparr>) = unsampled s"
  by (simp_all add: unsampled_def)

lemma sampledD: "sampled s s' \<Longrightarrow> asked_only is_query (hist s) (hist s') \<and> unsampled s' = unsampled s"
  by (simp add: sampled_def)

lemma nonlocal_sample_sampled: "sampled s s' \<Longrightarrow> sampled s (snd (nonlocal_sample s' v))"
  by (simp add: nonlocal_sample_def Let_def)

lemma wp_query_adapter:
  assumes "\<And>b. is_query (q b)"
  shows "wp (query_adapter E q u b s) (\<lambda>_ s'. sampled s s')"
  using assms by (auto simp: query_adapter_def Let_def case_prod_unfold intro!: nonlocal_sample_sampled)

lemma wp_query_budget: "wp (query_budget E s) (\<lambda>_ s'. sampled s s')"
  unfolding query_budget_def Let_def
  by (auto intro!: wp_conseq [OF wp_query_adapter] intro: sampled_trans)

lemma wp_device_memory: "wp (device_memory E n s) (\<lambda>_ s'. \<exists>h. s' = s\<lparr>hist := h\<rparr> \<and> asked_only is_query (hist s) h)"
  by (auto simp: device_memory_def)

lemma wp_cuda_budget_deficit: "wp (cuda_budget_deficit E s) (\<lambda>_ s'. sampled s s')"
  by (auto simp: cuda_budget_deficit_def read_mem_available_bytes_def Let_def intro!: wp_conseq [OF wp_device_memory]
      split: option.splits dest!: asked_only_uncons)

lemma wp_poll_budget_deficit_win: "wp (poll_budget_deficit_win E s) (\<lambda>_ s'. sampled s s')"
  unfolding poll_budget_deficit_win_def Let_def
  by (auto intro!: wp_conseq [OF wp_query_budget] wp_conseq [OF wp_device_memory] split: option.splits
      dest!: sampledD asked_only_uncons intro: asked_only_trans)

lemma wp_poll_budget_deficit: "wp (poll_budget_deficit E s) (\<lambda>_ s'. sampled s s')"
  by (simp add: poll_budget_deficit_def wp_cuda_budget_deficit wp_poll_budget_deficit_win)

lemma wp_budget_deficit:
  "wp (budget_deficit E n s)
     (\<lambda>d s'. sampled s s' \<and>
        d = max (deficit_simple s' n) (deficit_delta s' n) + sint (extra_vram_headroom s'))"
  unfolding budget_deficit_def
  by (auto intro!: wp_conseq [OF wp_poll_budget_deficit])

end
