(* ===== verification/GraphState.thy ===== *)
theory GraphState
  imports Budget
begin

text \<open>
  The data of the allocation graphs (\<open>src/malloc-graph.c\<close>). It comes before the VBARs because
  reclaiming asks whether the active graph has paused synchronization.

  Events live in a heap per graph and refer to each other by address. The two intrusive lists
  that link events through \<open>allocation_previous\<close> (the allocations of a frame, the candidates
  for a rogue handoff) are lists of addresses, first element first, and so are the singly
  linked lists of small ranges. Arrays indexed by page number are functions; the code that
  reads or writes them checks the index. Pages and ranges are addresses of reference objects.
\<close>

datatype event_type =
  EV_SENTINEL | EV_ALLOC | EV_FREE | EV_ALLOC_SMALL | EV_FREE_SMALL | EV_CALL | EV_END

record virtual_page =
  va_span :: nat
  owner_depth :: nat
  vp_allocation :: "nat option"

record small_range =
  sr_offset :: nat
  sr_bytes :: nat
  sr_rogue_ptr :: u64
  sr_owner_depth :: nat
  sr_allocation :: "nat option"

record allocation_state =
  virtual_pages :: "nat \<Rightarrow> virtual_page"
  physical_live :: "nat \<Rightarrow> bool"

record event =
  ev_type :: event_type
  ev_value :: nat
  ev_bytes :: nat
  ev_scope :: "nat option"
  ev_name :: string
  ev_next :: "nat list"
  ev_previous :: "nat option"
  ev_rogue_owned :: bool
  ev_freed_out_of_scope :: bool
  ev_snapshot :: "allocation_state option"
  ev_small_snapshot :: "small_range list"

record graph_frame =
  fr_cursor :: nat
  fr_allocations :: "nat list"
  fr_depth :: nat
  fr_recording :: bool
  fr_broken :: bool
  fr_excluded_allocations :: nat

record malloc_graph =
  mg_base :: "nat option"
  mg_small_base :: "nat option"
  mg_stream :: u64
  mg_device :: int
  mg_owner_thread :: nat
  mg_events :: "nat \<rightharpoonup> event"
  mg_root :: nat
  mg_state :: "graph_frame list"
  mg_rogue_candidates :: "nat list"
  mg_allocations :: allocation_state
  mg_small_ranges :: "small_range list"
  mg_small_unusable :: "small_range list"
  mg_black_holes :: "nat \<Rightarrow> u64"
  mg_va_phys :: "nat \<Rightarrow> int"
  mg_physical_pages :: "nat \<Rightarrow> nat option"
  mg_mapped_pages :: "nat \<Rightarrow> nat option"
  mg_small_physical_pages :: "nat \<Rightarrow> nat option"
  mg_small_mapped_pages :: "nat \<Rightarrow> nat option"
  mg_va_count :: nat
  mg_phys_count :: nat
  mg_small_size :: nat
  mg_small_pages :: nat
  mg_used :: nat
  mg_peak_used :: nat
  mg_rogue_count :: nat
  mg_skipped_root_replays :: nat
  mg_failed :: bool
  mg_complete :: bool
  mg_paused :: bool
  mg_sync_paused :: bool
  mg_assert_breaks :: bool
  mg_handoff_attempted :: bool
  mg_aborted :: bool
  mg_avoid_physical_alias :: bool
  mg_test_page_create_oom_attempts :: nat
  mg_test_destroy_release_stage :: nat
  mg_destroy_terminal :: bool

record gstate = ctx +
  graphs :: "nat \<rightharpoonup> malloc_graph"
  active_graph :: "nat option"
  last_allocation_driver_error :: int
  live_graph_handles :: u64

text \<open>
  \<open>malloc_graph_sync_paused\<close>. On Windows/XPU the graphs are compiled out
  (\<open>src-xpu/stubs.c\<close>) and the answer is no.
\<close>

definition malloc_graph_sync_paused :: "env \<Rightarrow> 'z gstate_scheme \<Rightarrow> bool option" where
  "malloc_graph_sync_paused E s =
     (if winxpu E then Some False
      else case active_graph s of
        None \<Rightarrow> Some False
      | Some g \<Rightarrow> do { mg \<leftarrow> graphs s g; Some (mg_sync_paused mg) })"

text \<open>The active graph is a live one.\<close>

definition graph_ok :: "'z gstate_scheme \<Rightarrow> bool" where
  "graph_ok s \<longleftrightarrow> (\<forall>g. active_graph s = Some g \<longrightarrow> graphs s g \<noteq> None)"

lemma malloc_graph_sync_paused_defined: "graph_ok s \<Longrightarrow> \<exists>b. malloc_graph_sync_paused E s = Some b"
  by (auto simp: malloc_graph_sync_paused_def graph_ok_def split: option.splits)

end
