(* ===== verification/VbarState.thy ===== *)
theory VbarState
  imports GraphState
begin

text \<open>
  VBARs (\<open>src/model-vbar.c\<close>): the page and reservation records, the state, and the step
  relation every VBAR operation is proved to follow.

  A VBAR is an address into \<open>vheap\<close>; \<open>vorder\<close> is the priority list from the lowest to the
  highest priority, the sentinels left out (\<open>VbarList\<close> relates it to the pointers). Counters
  that C keeps in 32 bits (\<open>pin_count\<close>, the holds, \<open>copy_holds\<close>) are natural numbers, and so
  are \<open>serial\<close> and page indices: none wraps before 2^32 simultaneous pins.
\<close>

abbreviation VBAR_PAGE_SIZE :: u64 where "VBAR_PAGE_SIZE \<equiv> 33554432"
abbreviation VBAR_PAGE_BYTES :: int where "VBAR_PAGE_BYTES \<equiv> 33554432"
abbreviation VBAR_CUDA_ERROR_UNKNOWN :: int where "VBAR_CUDA_ERROR_UNKNOWN \<equiv> 999"
abbreviation UINT32_MAX :: nat where "UINT32_MAX \<equiv> 4294967295"

datatype mapping_state = VBAR_MAPPING_UNMAPPED | VBAR_MAPPING_MAPPED | VBAR_MAPPING_UNKNOWN

record resident_page =
  handle :: u64
  pin_count :: nat
  serial :: nat
  retire_tokens :: "u64 list"
  eviction_generation :: u64
  external_consumer_holds :: nat
  capture_holds :: nat
  retire_unknown :: bool
  mapped :: mapping_state
  evicting :: bool

record model_vbar =
  vbar :: u64
  nr_pages :: nat
  watermark :: nat
  watermark_limit :: nat
  device :: int
  resident_count :: u64
  pageout_size :: u64
  pageout_callback :: bool
  identity :: u64
  copy_holds :: nat
  closing :: bool
  residency_map :: "resident_page list"

record vstate = gstate +
  vheap :: "nat \<rightharpoonup> model_vbar"
  vorder :: "nat list"
  vnext :: nat
  vbar_identity_counter :: u64

definition fresh_page :: resident_page where
  "fresh_page = \<lparr>handle = 0, pin_count = 0, serial = 0, retire_tokens = [], eviction_generation = 0,
     external_consumer_holds = 0, capture_holds = 0, retire_unknown = False,
     mapped = VBAR_MAPPING_UNMAPPED, evicting = False\<rparr>"

subsection \<open>Pages\<close>

definition vbar_consumer_held :: "resident_page \<Rightarrow> bool" where
  "vbar_consumer_held rp \<longleftrightarrow> external_consumer_holds rp \<noteq> 0 \<or> capture_holds rp \<noteq> 0"

definition vbar_page_is_mapped :: "env \<Rightarrow> resident_page \<Rightarrow> bool" where
  "vbar_page_is_mapped E rp \<longleftrightarrow> handle rp \<noteq> 0 \<and> (winxpu E \<longrightarrow> mapped rp = VBAR_MAPPING_MAPPED)"

definition vbar_page_cancel_eviction :: "resident_page \<Rightarrow> resident_page" where
  "vbar_page_cancel_eviction rp =
     (if evicting rp then rp\<lparr>evicting := False, eviction_generation := eviction_generation rp + 1\<rparr> else rp)"

definition vbar_retire_reset :: "resident_page \<Rightarrow> resident_page" where
  "vbar_retire_reset rp = rp\<lparr>retire_tokens := [], retire_unknown := False\<rparr>"

definition owned :: "resident_page \<Rightarrow> bool" where
  "owned rp \<longleftrightarrow> handle rp \<noteq> 0"

lemma mapped_owned: "vbar_page_is_mapped E rp \<Longrightarrow> owned rp"
  by (simp add: vbar_page_is_mapped_def owned_def)

lemma vbar_page_is_mapped_fresh [simp]: "\<not> vbar_page_is_mapped E fresh_page" "\<not> owned fresh_page"
  by (simp_all add: vbar_page_is_mapped_def fresh_page_def owned_def)

subsection \<open>Access to the heap\<close>

definition get_page :: "nat \<Rightarrow> nat \<Rightarrow> 'z vstate_scheme \<Rightarrow> resident_page option" where
  "get_page v i s = do { mv \<leftarrow> vheap s v; at_index (residency_map mv) i }"

definition upd_vbar :: "nat \<Rightarrow> (model_vbar \<Rightarrow> model_vbar) \<Rightarrow> 'z vstate_scheme \<Rightarrow> 'z vstate_scheme" where
  "upd_vbar v f s = s\<lparr>vheap := (vheap s)(v := map_option f (vheap s v))\<rparr>"

definition upd_page :: "nat \<Rightarrow> nat \<Rightarrow> (resident_page \<Rightarrow> resident_page) \<Rightarrow> 'z vstate_scheme \<Rightarrow> 'z vstate_scheme" where
  "upd_page v i f = upd_vbar v (\<lambda>mv. mv\<lparr>residency_map := (residency_map mv)[i := f (residency_map mv ! i)]\<rparr>)"

definition page_vaddr :: "model_vbar \<Rightarrow> nat \<Rightarrow> u64" where
  "page_vaddr mv i = vbar mv + of_nat i * VBAR_PAGE_SIZE"

subsection \<open>Page arithmetic\<close>

definition VBAR_GET_PAGE_NR :: "u64 \<Rightarrow> nat" where
  "VBAR_GET_PAGE_NR x = unat (x div VBAR_PAGE_SIZE)"

definition VBAR_GET_PAGE_NR_UP :: "u64 \<Rightarrow> nat" where
  "VBAR_GET_PAGE_NR_UP x = unat ((x + VBAR_PAGE_SIZE - 1) div VBAR_PAGE_SIZE)"

definition vbar_page_count :: "u64 \<Rightarrow> nat option" where
  "vbar_page_count bytes =
     (if bytes > - 1 - (VBAR_PAGE_SIZE - 1) then None
      else Some (unat ((bytes + VBAR_PAGE_SIZE - 1) div VBAR_PAGE_SIZE)))"

text \<open>\<open>sizeof(ModelVBAR)\<close> and \<open>sizeof(ResidentPage)\<close>, which depend on the ABI, are arguments.\<close>

definition vbar_metadata_allocation_size :: "nat \<Rightarrow> nat \<Rightarrow> nat \<Rightarrow> nat option" where
  "vbar_metadata_allocation_size header page n =
     (if n > (2 ^ 64 - 1 - header) div page then None else Some (header + n * page))"

definition vbar_fault_page_range :: "model_vbar \<Rightarrow> u64 \<Rightarrow> u64 \<Rightarrow> (nat \<times> nat) option" where
  "vbar_fault_page_range mv offset bytes =
     (if nr_pages mv > (2 ^ 64 - 1) div 2 ^ 25 then None
      else
        let reserved_size = of_nat (nr_pages mv) * VBAR_PAGE_SIZE in
        if offset > reserved_size \<or> bytes > reserved_size - offset then None
        else case vbar_page_count (offset + bytes) of
            None \<Rightarrow> None
          | Some page_end \<Rightarrow> Some (unat (offset div VBAR_PAGE_SIZE), page_end))"

text \<open>Page counts over the natural numbers: the rounding neither wraps nor loses a page.\<close>

abbreviation PAGE :: nat where "PAGE \<equiv> 33554432"

lemma unat_page_size [simp]: "unat VBAR_PAGE_SIZE = PAGE"
  by simp

lemma vbar_page_count_Some:
  "vbar_page_count b = Some n \<longleftrightarrow> unat b + (PAGE - 1) < 2 ^ 64 \<and> n = (unat b + (PAGE - 1)) div PAGE"
proof -
  have le: "b \<le> - 1 - (VBAR_PAGE_SIZE - 1) \<longleftrightarrow> unat b + (PAGE - 1) < 2 ^ 64"
    by (simp add: word_le_nat_alt) linarith
  have sum: "unat (b + VBAR_PAGE_SIZE - 1) = unat b + (PAGE - 1)" if "unat b + (PAGE - 1) < 2 ^ 64"
  proof -
    have "b + VBAR_PAGE_SIZE - 1 = b + 33554431" by simp
    also have "unat \<dots> = unat b + (PAGE - 1)"
      using that by (subst unat_add_lem [THEN iffD1]) auto
    finally show ?thesis .
  qed
  show ?thesis using le sum by (auto simp: vbar_page_count_def not_le unat_div)
qed

lemma vbar_page_count_le: "vbar_page_count b = Some n \<Longrightarrow> n < 2 ^ 39"
  by (auto simp: vbar_page_count_Some)

lemma reserved_size_nat: "n < 2 ^ 39 \<Longrightarrow> unat (of_nat n * VBAR_PAGE_SIZE :: u64) = n * PAGE"
  by (simp add: unat_word_ariths unat_of_nat)

lemma vbar_fault_page_range_Some:
  "vbar_fault_page_range mv offset b = Some (lo, hi) \<longleftrightarrow>
     nr_pages mv < 2 ^ 39 \<and> unat offset + unat b \<le> nr_pages mv * PAGE \<and>
     lo = unat offset div PAGE \<and> hi = (unat offset + unat b + (PAGE - 1)) div PAGE"
proof (cases "nr_pages mv < 2 ^ 39")
  case False
  then show ?thesis by (simp add: vbar_fault_page_range_def)
next
  case True
  let ?r = "of_nat (nr_pages mv) * VBAR_PAGE_SIZE :: u64"
  have r: "unat ?r = nr_pages mv * PAGE" by (rule reserved_size_nat [OF True])
  have big: "nr_pages mv * PAGE < 2 ^ 64" using True by simp
  have cond: "\<not> (offset > ?r \<or> b > ?r - offset) \<longleftrightarrow> unat offset + unat b \<le> nr_pages mv * PAGE"
  proof (cases "offset \<le> ?r")
    case le: True
    then have "unat (?r - offset) = nr_pages mv * PAGE - unat offset" by (simp add: unat_sub r)
    moreover have "unat offset \<le> nr_pages mv * PAGE" using le r by (simp add: word_le_nat_alt)
    ultimately show ?thesis using le by (auto simp: word_le_nat_alt not_less)
  next
    case False
    then show ?thesis using r by (simp add: word_le_nat_alt not_less)
  qed
  have sum: "unat (offset + b) = unat offset + unat b" if "unat offset + unat b \<le> nr_pages mv * PAGE"
    using that big by (subst unat_add_lem [THEN iffD1]) auto
  have pages: "vbar_page_count (offset + b) = Some ((unat offset + unat b + (PAGE - 1)) div PAGE)"
    if le: "unat offset + unat b \<le> nr_pages mv * PAGE"
    using True le by (simp add: vbar_page_count_Some sum [OF le])
  show ?thesis
    using True cond pages by (auto simp: vbar_fault_page_range_def Let_def unat_div split: option.splits)
qed

lemma vbar_fault_page_range_bounds:
  assumes "vbar_fault_page_range mv offset b = Some (lo, hi)"
  shows "lo \<le> hi" "hi \<le> nr_pages mv"
  using assms by (auto simp: vbar_fault_page_range_Some intro!: div_le_mono less_Suc_eq_le [THEN iffD1])

end
