(* ===== verification/VbarStep.thy ===== *)
theory VbarStep
  imports VbarState
begin

unbundle bit_operations_syntax

text \<open>
  The abstract state machine of the VBARs. A step is quiet (only queries and bookkeeping), or
  changes one page together with the resident count, the byte accounting and the device, or
  changes the policy fields of one VBAR. \<open>P\<close> and \<open>W\<close> say which page and field changes are
  allowed, so that an operation is specified by the smallest relation its steps stay in.
  Every invariant is proved once, over the steps; every operation of \<open>model-vbar.c\<close> that does
  not create or destroy a VBAR is proved to be a sequence of them.
\<close>

subsection \<open>Steps\<close>

definition erase :: "'z vstate_scheme \<Rightarrow> 'z vstate_scheme" where
  "erase s = s\<lparr>hist := [], total_vram_usage := 0, vheap := Map.empty, deficit_sync := 0,
     control_timestamp_last_check := 0, wddm_timestamp_last_check := 0, total_vram_last_check := 0,
     wddm_nonlocal_usage_baseline := 0, vbars_dirty := False, vbar_reclaim_requested := 0,
     vbar_lock_depth := 0, malloc_async_clamp := 0\<rparr>"

definition quiet :: "'z vstate_scheme \<Rightarrow> 'z vstate_scheme \<Rightarrow> bool" where
  "quiet s s' \<longleftrightarrow> asked_only harmless (hist s) (hist s') \<and> total_vram_usage s' = total_vram_usage s \<and>
     vheap s' = vheap s \<and> erase s' = erase s"

text \<open>
  \<open>page_ok\<close>: a pinned or consumer-held page is mapped; a page without a physical allocation is
  unmapped; there is at most one retirement token per queue.
\<close>

definition queue_tag :: "u64 \<Rightarrow> u64" where
  "queue_tag t = t AND 127"

definition page_ok :: "env \<Rightarrow> resident_page \<Rightarrow> bool" where
  "page_ok E rp \<longleftrightarrow>
     (pin_count rp > 0 \<longrightarrow> vbar_page_is_mapped E rp) \<and>
     (vbar_consumer_held rp \<longrightarrow> winxpu E \<and> vbar_page_is_mapped E rp) \<and>
     (winxpu E \<and> handle rp = 0 \<longrightarrow> mapped rp = VBAR_MAPPING_UNMAPPED) \<and>
     length (retire_tokens rp) \<le> 64 \<and> distinct (map queue_tag (retire_tokens rp))"

text \<open>What the change of the page at address \<open>a\<close> does to the device.\<close>

definition dev_change ::
  "env \<Rightarrow> u64 \<Rightarrow> resident_page \<Rightarrow> resident_page \<Rightarrow> call list \<Rightarrow> call list \<Rightarrow> bool" where
  "dev_change E a rp rp' h h' \<longleftrightarrow>
     (create_fresh E \<longrightarrow> (\<forall>x. x \<in> live_handles E h \<and> x \<noteq> handle rp \<longrightarrow> x \<in> live_handles E h')) \<and>
     (handle rp' = handle rp \<and> handle rp \<in> live_handles E h \<longrightarrow> handle rp \<in> live_handles E h') \<and>
     (create_fresh E \<and> owned rp' \<and> handle rp' \<noteq> handle rp \<longrightarrow>
        handle rp' \<in> live_handles E h' \<and> handle rp' \<notin> live_handles E h) \<and>
     (\<forall>x. VBAR_PAGE_SIZE \<le> x - a \<longrightarrow> mappings E h' x = mappings E h x) \<and>
     (vbar_page_is_mapped E rp' \<and>
      (vbar_page_is_mapped E rp \<longrightarrow> mappings E h a = Some (VBAR_PAGE_SIZE, handle rp)) \<longrightarrow>
        mappings E h' a = Some (VBAR_PAGE_SIZE, handle rp'))"

definition bytes_if :: "bool \<Rightarrow> u64" where
  "bytes_if b = (if b then VBAR_PAGE_SIZE else 0)"

definition one_if :: "bool \<Rightarrow> u64" where
  "one_if b = (if b then 1 else 0)"

definition set_vpage :: "env \<Rightarrow> nat \<Rightarrow> resident_page \<Rightarrow> model_vbar \<Rightarrow> model_vbar" where
  "set_vpage E i rp' mv = mv\<lparr>residency_map := (residency_map mv)[i := rp'],
     resident_count := resident_count mv + one_if (vbar_page_is_mapped E rp')
                       - one_if (vbar_page_is_mapped E (residency_map mv ! i))\<rparr>"

definition same_pages :: "model_vbar \<Rightarrow> model_vbar \<Rightarrow> bool" where
  "same_pages mv mv' \<longleftrightarrow> vbar mv' = vbar mv \<and> nr_pages mv' = nr_pages mv \<and>
     residency_map mv' = residency_map mv \<and> resident_count mv' = resident_count mv \<and>
     identity mv' = identity mv \<and> device mv' = device mv \<and> pageout_size mv' = pageout_size mv"

type_synonym page_rel = "nat \<Rightarrow> nat \<Rightarrow> resident_page \<Rightarrow> resident_page \<Rightarrow> bool"
type_synonym field_rel = "nat \<Rightarrow> model_vbar \<Rightarrow> model_vbar \<Rightarrow> bool"

inductive vstep :: "env \<Rightarrow> page_rel \<Rightarrow> field_rel \<Rightarrow> 'z vstate_scheme \<Rightarrow> 'z vstate_scheme \<Rightarrow> bool"
  for E P W where
  quiet: "quiet s s' \<Longrightarrow> vstep E P W s s'"
| page: "\<lbrakk>vheap s v = Some mv; i < length (residency_map mv); rp = residency_map mv ! i;
     page_ok E rp \<longrightarrow> page_ok E rp'; P v i rp rp';
     dev_change E (page_vaddr mv i) rp rp' (hist s) (hist s');
     total_vram_usage s' = total_vram_usage s + bytes_if (owned rp') - bytes_if (owned rp);
     vheap s' = (vheap s)(v \<mapsto> set_vpage E i rp' mv); erase s' = erase s\<rbrakk> \<Longrightarrow> vstep E P W s s'"
| field: "\<lbrakk>vheap s v = Some mv; same_pages mv mv'; watermark mv' \<le> nr_pages mv \<or> watermark mv' = watermark mv;
     W v mv mv'; hist s' = hist s; total_vram_usage s' = total_vram_usage s;
     vheap s' = (vheap s)(v \<mapsto> mv'); erase s' = erase s\<rbrakk> \<Longrightarrow> vstep E P W s s'"

definition vsteps :: "env \<Rightarrow> page_rel \<Rightarrow> field_rel \<Rightarrow> 'z vstate_scheme \<Rightarrow> 'z vstate_scheme \<Rightarrow> bool" where
  "vsteps E P W = (vstep E P W)\<^sup>*\<^sup>*"

lemma vsteps_refl [simp, intro]: "vsteps E P W s s"
  by (simp add: vsteps_def)

lemma vsteps_step: "vstep E P W s s' \<Longrightarrow> vsteps E P W s s'"
  by (auto simp: vsteps_def)

lemma vsteps_trans [trans]: "vsteps E P W s s' \<Longrightarrow> vsteps E P W s' s'' \<Longrightarrow> vsteps E P W s s''"
  unfolding vsteps_def by (rule rtranclp_trans)

lemma vstep_mono:
  assumes "vstep E P W s s'"
    and "\<And>v i rp rp'. P v i rp rp' \<Longrightarrow> P' v i rp rp'" "\<And>v mv mv'. W v mv mv' \<Longrightarrow> W' v mv mv'"
  shows "vstep E P' W' s s'"
  using assms(1)
proof cases
  case quiet
  then show ?thesis by (rule vstep.quiet)
next
  case (page v mv i rp rp')
  then show ?thesis using assms(2) by (intro vstep.page) auto
next
  case (field v mv mv')
  then show ?thesis using assms(3) by (intro vstep.field) auto
qed

lemma vsteps_mono:
  assumes "vsteps E P W s s'"
    and "\<And>v i rp rp'. P v i rp rp' \<Longrightarrow> P' v i rp rp'" "\<And>v mv mv'. W v mv mv' \<Longrightarrow> W' v mv mv'"
  shows "vsteps E P' W' s s'"
  using assms(1) unfolding vsteps_def
  by (rule mono_rtranclp [rule_format, rotated]) (rule vstep_mono [OF _ assms(2,3)])

lemma vsteps_induct [consumes 1, case_names refl step]:
  assumes "vsteps E P W s s'" "Q s"
    and "\<And>t t'. vsteps E P W s t \<Longrightarrow> vstep E P W t t' \<Longrightarrow> Q t \<Longrightarrow> Q t'"
  shows "Q s'"
  using assms(1) unfolding vsteps_def
  by (induction rule: rtranclp_induct) (use assms(2,3) in \<open>auto simp: vsteps_def\<close>)

subsection \<open>Quiet changes\<close>

lemma erase_upd [simp]:
  "erase (s\<lparr>hist := h\<rparr>) = erase s"
  "erase (s\<lparr>total_vram_usage := t\<rparr>) = erase s"
  "erase (s\<lparr>vheap := m\<rparr>) = erase s"
  "erase (s\<lparr>deficit_sync := d\<rparr>) = erase s"
  "erase (s\<lparr>wddm_timestamp_last_check := w\<rparr>) = erase s"
  "erase (s\<lparr>vbars_dirty := b\<rparr>) = erase s"
  "erase (s\<lparr>vbar_reclaim_requested := r\<rparr>) = erase s"
  "erase (s\<lparr>vbar_lock_depth := l\<rparr>) = erase s"
  "erase (s\<lparr>malloc_async_clamp := c\<rparr>) = erase s"
  by (simp_all add: erase_def)

lemma erase_upd_vbar [simp]: "erase (upd_vbar v f s) = erase s" "erase (upd_page v i g s) = erase s"
  by (simp_all add: upd_vbar_def upd_page_def)

lemma erase_eq:
  assumes "erase s' = erase s"
  shows "vorder s' = vorder s" "vnext s' = vnext s" "vbar_identity_counter s' = vbar_identity_counter s"
    "graphs s' = graphs s" "active_graph s' = active_graph s" "vram_capacity s' = vram_capacity s"
    "simple_vram_headroom s' = simple_vram_headroom s" "extra_vram_headroom s' = extra_vram_headroom s"
    "allocations_lock_depth s' = allocations_lock_depth s" "device_id s' = device_id s"
    "integrated_device s' = integrated_device s" "vstate.more s' = vstate.more s"
  using assms by (cases s; cases s'; simp add: erase_def)+

lemma sampled_quiet: "sampled s s' \<Longrightarrow> quiet s s'"
proof -
  assume s: "sampled s s'"
  from s have u: "unsampled s' = unsampled s" and a: "asked_only is_query (hist s) (hist s')"
    by (auto simp: sampled_def)
  from a have "asked_only harmless (hist s) (hist s')"
    by (rule asked_only_mono) (rule is_query_harmless)
  moreover from u have "vheap s' = vheap s \<and> erase s' = erase s"
    by (cases s; cases s'; simp add: unsampled_def erase_def)
  ultimately show ?thesis using sampled_fields [OF s] by (simp add: quiet_def)
qed

lemma quiet_refl [simp]: "quiet s s"
  by (simp add: quiet_def)

lemma quiet_trans: "quiet s s' \<Longrightarrow> quiet s' s'' \<Longrightarrow> quiet s s''"
  by (auto simp: quiet_def intro: asked_only_trans)

lemma quiet_upd [simp]:
  "quiet s (s'\<lparr>vbars_dirty := b\<rparr>) = quiet s s'"
  "quiet s (s'\<lparr>vbar_reclaim_requested := r\<rparr>) = quiet s s'"
  "quiet s (s'\<lparr>vbar_lock_depth := l\<rparr>) = quiet s s'"
  "quiet s (s'\<lparr>malloc_async_clamp := c\<rparr>) = quiet s s'"
  "quiet s (s'\<lparr>wddm_timestamp_last_check := w\<rparr>) = quiet s s'"
  by (simp_all add: quiet_def)

lemma quiet_upd_left [simp]:
  "quiet (s\<lparr>vbars_dirty := b\<rparr>) s' = quiet s s'"
  "quiet (s\<lparr>vbar_reclaim_requested := r\<rparr>) s' = quiet s s'"
  "quiet (s\<lparr>vbar_lock_depth := l\<rparr>) s' = quiet s s'"
  "quiet (s\<lparr>malloc_async_clamp := c\<rparr>) s' = quiet s s'"
  "quiet (s\<lparr>wddm_timestamp_last_check := w\<rparr>) s' = quiet s s'"
  by (simp_all add: quiet_def)

lemma quiet_hist [intro]: "asked_only harmless (hist s) h \<Longrightarrow> quiet s (s\<lparr>hist := h\<rparr>)"
  by (simp add: quiet_def)

lemma quiet_fields:
  assumes "quiet s s'"
  shows "vheap s' = vheap s" "total_vram_usage s' = total_vram_usage s" "erase s' = erase s"
    "live_handles E (hist s') = live_handles E (hist s)" "mappings E (hist s') = mappings E (hist s)"
  using assms asked_only_harmless [of "hist s" "hist s'"] by (auto simp: quiet_def)

lemma vsteps_quiet: "quiet s s' \<Longrightarrow> vsteps E P W s s'"
  by (intro vsteps_step vstep.quiet)

lemma vsteps_quiet_right: "vsteps E P W s s' \<Longrightarrow> quiet s' s'' \<Longrightarrow> vsteps E P W s s''"
  by (blast intro: vsteps_trans vsteps_quiet)

lemma vsteps_quiet_left: "quiet s s' \<Longrightarrow> vsteps E P W s' s'' \<Longrightarrow> vsteps E P W s s''"
  by (blast intro: vsteps_trans vsteps_quiet)

lemma quiet_both:
  assumes "quiet s t" "quiet t s"
  shows "vsteps E P W a s = vsteps E P W a t" "vsteps E P W s a = vsteps E P W t a"
  using assms by (blast intro: vsteps_quiet_right vsteps_quiet_left)+

lemma vsteps_upd [simp]:
  "vsteps E P W s (s'\<lparr>vbars_dirty := b\<rparr>) = vsteps E P W s s'"
  "vsteps E P W s (s'\<lparr>vbar_reclaim_requested := r\<rparr>) = vsteps E P W s s'"
  "vsteps E P W s (s'\<lparr>vbar_lock_depth := l\<rparr>) = vsteps E P W s s'"
  "vsteps E P W s (s'\<lparr>malloc_async_clamp := c\<rparr>) = vsteps E P W s s'"
  "vsteps E P W s (s'\<lparr>wddm_timestamp_last_check := w\<rparr>) = vsteps E P W s s'"
  by (rule quiet_both; simp)+

lemma vsteps_upd_left [simp]:
  "vsteps E P W (s\<lparr>vbars_dirty := b\<rparr>) s' = vsteps E P W s s'"
  "vsteps E P W (s\<lparr>vbar_reclaim_requested := r\<rparr>) s' = vsteps E P W s s'"
  "vsteps E P W (s\<lparr>vbar_lock_depth := l\<rparr>) s' = vsteps E P W s s'"
  "vsteps E P W (s\<lparr>malloc_async_clamp := c\<rparr>) s' = vsteps E P W s s'"
  "vsteps E P W (s\<lparr>wddm_timestamp_last_check := w\<rparr>) s' = vsteps E P W s s'"
  by (rule quiet_both; simp)+

lemma vsteps_ask [intro]: "vsteps E P W s s' \<Longrightarrow> harmless c \<Longrightarrow> vsteps E P W s (s'\<lparr>hist := c # hist s'\<rparr>)"
  by (erule vsteps_quiet_right) (auto simp: quiet_def)

lemma vsteps_ask_left: "harmless c \<Longrightarrow> vsteps E P W (s\<lparr>hist := c # hist s\<rparr>) s' \<Longrightarrow> vsteps E P W s s'"
  by (rule vsteps_quiet_left) (auto simp: quiet_def)

lemma vstep_erase: "vstep E P W s s' \<Longrightarrow> erase s' = erase s"
  by (auto elim!: vstep.cases simp: quiet_def)

lemma vsteps_erase: "vsteps E P W s s' \<Longrightarrow> erase s' = erase s"
  by (induction rule: vsteps_induct) (auto dest: vstep_erase)

lemmas vsteps_fields = erase_eq [OF vsteps_erase]

lemma graph_ok_vsteps: "graph_ok s \<Longrightarrow> vsteps E P W s s' \<Longrightarrow> graph_ok s'"
  using vsteps_fields [of E P W s s'] by (simp add: graph_ok_def)

end
