(* ===== verification/VbarInv.thy ===== *)
theory VbarInv
  imports VbarStep
begin

text \<open>
  The invariants of the VBAR state machine, each proved over the steps of \<open>VbarStep\<close>: the heap
  and the priority list agree, every VBAR is well formed and counts its resident pages
  exactly, the bytes of all physical pages are accounted, and the device holds what the page
  table says.
\<close>

subsection \<open>Well-formed VBARs\<close>

definition vbar_ok :: "env \<Rightarrow> model_vbar \<Rightarrow> bool" where
  "vbar_ok E mv \<longleftrightarrow> length (residency_map mv) = nr_pages mv \<and> nr_pages mv < 2 ^ 39 \<and>
     watermark mv \<le> nr_pages mv \<and>
     resident_count mv = of_nat (count_if (vbar_page_is_mapped E) (residency_map mv)) \<and>
     (\<forall>rp \<in> set (residency_map mv). page_ok E rp)"

definition vinv :: "env \<Rightarrow> 'z vstate_scheme \<Rightarrow> bool" where
  "vinv E s \<longleftrightarrow> distinct (vorder s) \<and> set (vorder s) = dom (vheap s) \<and>
     (\<forall>v \<in> dom (vheap s). v < vnext s) \<and>
     (\<forall>v mv. vheap s v = Some mv \<longrightarrow> vbar_ok E mv) \<and>
     inj_on (\<lambda>v. map_option identity (vheap s v)) (dom (vheap s))"

lemma vinv_vbar: "vinv E s \<Longrightarrow> vheap s v = Some mv \<Longrightarrow> vbar_ok E mv"
  by (simp add: vinv_def)

lemma vinv_order: "vinv E s \<Longrightarrow> v \<in> set (vorder s) \<Longrightarrow> \<exists>mv. vheap s v = Some mv"
  by (auto simp: vinv_def)

lemma vbar_okD:
  assumes "vbar_ok E mv"
  shows "length (residency_map mv) = nr_pages mv" "nr_pages mv < 2 ^ 39" "watermark mv \<le> nr_pages mv"
    "resident_count mv = of_nat (count_if (vbar_page_is_mapped E) (residency_map mv))"
    "i < nr_pages mv \<Longrightarrow> page_ok E (residency_map mv ! i)"
  using assms by (auto simp: vbar_ok_def)

lemma set_vpage_fields [simp]:
  "vbar (set_vpage E i rp mv) = vbar mv" "nr_pages (set_vpage E i rp mv) = nr_pages mv"
  "watermark (set_vpage E i rp mv) = watermark mv"
  "watermark_limit (set_vpage E i rp mv) = watermark_limit mv"
  "device (set_vpage E i rp mv) = device mv" "pageout_size (set_vpage E i rp mv) = pageout_size mv"
  "pageout_callback (set_vpage E i rp mv) = pageout_callback mv"
  "identity (set_vpage E i rp mv) = identity mv" "copy_holds (set_vpage E i rp mv) = copy_holds mv"
  "closing (set_vpage E i rp mv) = closing mv"
  "residency_map (set_vpage E i rp mv) = (residency_map mv)[i := rp]"
  by (simp_all add: set_vpage_def)

lemma vbar_ok_set_vpage:
  assumes "vbar_ok E mv" "i < length (residency_map mv)" "page_ok E (residency_map mv ! i) \<longrightarrow> page_ok E rp"
  shows "vbar_ok E (set_vpage E i rp mv)"
proof -
  let ?old = "residency_map mv ! i"
  have "page_ok E ?old" using assms(1,2) by (auto simp: vbar_ok_def)
  then have "page_ok E rp" using assms(3) by simp
  then have ok: "\<forall>q \<in> set ((residency_map mv)[i := rp]). page_ok E q"
    using assms(1) set_update_subset_insert [of "residency_map mv" i rp] by (auto simp: vbar_ok_def)
  have "count_if (vbar_page_is_mapped E) ((residency_map mv)[i := rp]) + (if vbar_page_is_mapped E ?old then 1 else 0)
      = count_if (vbar_page_is_mapped E) (residency_map mv) + (if vbar_page_is_mapped E rp then 1 else 0)"
    by (rule count_if_update [OF assms(2)])
  then have "(of_nat (count_if (vbar_page_is_mapped E) ((residency_map mv)[i := rp])) :: u64)
      = of_nat (count_if (vbar_page_is_mapped E) (residency_map mv)) + one_if (vbar_page_is_mapped E rp)
        - one_if (vbar_page_is_mapped E ?old)"
    by (auto simp: one_if_def eq_diff_eq add.commute split: if_splits dest!: arg_cong [of _ _ "of_nat :: nat \<Rightarrow> u64"])
  then show ?thesis
    using assms(1) ok by (simp add: vbar_ok_def set_vpage_def)
qed

lemma vstep_identity:
  assumes "vstep E P W s s'"
  shows "map_option identity (vheap s' v) = map_option identity (vheap s v)"
  using assms by cases (auto simp: quiet_def same_pages_def)

lemma vstep_dom: "vstep E P W s s' \<Longrightarrow> dom (vheap s') = dom (vheap s)"
  by (erule vstep.cases) (auto simp: quiet_def dom_def split: if_splits)

lemma vsteps_dom: "vsteps E P W s s' \<Longrightarrow> dom (vheap s') = dom (vheap s)"
  by (induction rule: vsteps_induct) (simp_all add: vstep_dom)

lemma vstep_vbar_ok:
  assumes "vstep E P W s s'" "\<forall>v mv. vheap s v = Some mv \<longrightarrow> vbar_ok E mv" "vheap s' v = Some mv"
  shows "vbar_ok E mv"
  using assms(1)
proof cases
  case quiet
  then show ?thesis using assms(2,3) by (auto simp: quiet_def)
next
  case (page w mw i rp rp')
  then show ?thesis using assms(2,3) vbar_ok_set_vpage [of E mw i rp'] by (auto split: if_splits)
next
  case (field w mw mw')
  then show ?thesis using assms(2,3) by (fastforce simp: vbar_ok_def same_pages_def split: if_splits)
qed

lemma vinv_vstep:
  assumes "vinv E s" "vstep E P W s s'"
  shows "vinv E s'"
proof -
  have "vbar_ok E mv" if "vheap s' v = Some mv" for v mv
    by (rule vstep_vbar_ok [OF assms(2) _ that]) (use assms(1) in \<open>auto simp: vinv_def\<close>)
  then show ?thesis
    using assms(1) vstep_dom [OF assms(2)] vstep_identity [OF assms(2)] erase_eq [OF vstep_erase [OF assms(2)]]
    by (simp add: vinv_def)
qed

lemma vinv_vsteps: "vsteps E P W s s' \<Longrightarrow> vinv E s \<Longrightarrow> vinv E s'"
  by (induction rule: vsteps_induct) (auto intro: vinv_vstep)

subsection \<open>What allowed changes add up to\<close>

text \<open>
  When every change of pages \<open>P\<close> allows is in a preorder \<open>R\<close>, the pages before and after a
  sequence of steps are related by \<open>R\<close>; likewise the fields.
\<close>

lemma vsteps_pages:
  assumes "vsteps E P W s s'" "vheap s v = Some mv"
    and "\<And>i rp. R i rp rp" "\<And>i a b c. R i a b \<Longrightarrow> R i b c \<Longrightarrow> R i a c"
    and "\<And>i rp rp'. P v i rp rp' \<Longrightarrow> R i rp rp'"
  shows "\<exists>mv'. vheap s' v = Some mv' \<and> nr_pages mv' = nr_pages mv \<and> vbar mv' = vbar mv \<and>
    identity mv' = identity mv \<and> device mv' = device mv \<and> pageout_size mv' = pageout_size mv \<and>
    length (residency_map mv') = length (residency_map mv) \<and>
    (\<forall>i < length (residency_map mv). R i (residency_map mv ! i) (residency_map mv' ! i))"
  using assms(1)
proof (induction rule: vsteps_induct)
  case refl
  then show ?case using assms(2,3) by auto
next
  case (step t t')
  then obtain mt where t: "vheap t v = Some mt" "nr_pages mt = nr_pages mv" "vbar mt = vbar mv"
    "identity mt = identity mv" "device mt = device mv" "pageout_size mt = pageout_size mv"
    "length (residency_map mt) = length (residency_map mv)"
    and R: "\<And>i. i < length (residency_map mv) \<Longrightarrow> R i (residency_map mv ! i) (residency_map mt ! i)"
    by auto
  from step(2) show ?case
  proof cases
    case quiet
    then show ?thesis using t R by (auto simp: quiet_def)
  next
    case (page w mw i rp rp')
    show ?thesis
    proof (cases "w = v")
      case True
      then have mt: "mt = mw" using page(1) t(1) by simp
      have "R i (residency_map mv ! i) rp'"
        by (rule assms(4) [OF R]) (use page mt True t(7) assms(5) in \<open>auto\<close>)
      then have "\<forall>j < length (residency_map mv). R j (residency_map mv ! j) (residency_map (set_vpage E i rp' mw) ! j)"
        using R t(7) mt page(2) by (simp add: nth_list_update)
      then show ?thesis using True t mt page(8) by simp
    next
      case False
      then show ?thesis using t R page(8) by simp
    qed
  next
    case (field w mw mw')
    then show ?thesis using t R by (cases "w = v") (auto simp: same_pages_def)
  qed
qed

lemma vsteps_field_rel:
  assumes "vsteps E P W s s'" "vheap s v = Some mv"
    and "\<And>m. F m m" "\<And>a b c. F a b \<Longrightarrow> F b c \<Longrightarrow> F a c"
    and "\<And>m m'. W v m m' \<Longrightarrow> F m m'"
    and "\<And>m i rp. F m (set_vpage E i rp m)"
  shows "\<exists>mv'. vheap s' v = Some mv' \<and> F mv mv'"
  using assms(1)
proof (induction rule: vsteps_induct)
  case refl
  then show ?case using assms(2,3) by auto
next
  case (step t t')
  then obtain mt where t: "vheap t v = Some mt" "F mv mt" by auto
  from step(2) show ?case
  proof cases
    case quiet
    then show ?thesis using t by (auto simp: quiet_def)
  next
    case (page w mw i rp rp')
    then show ?thesis using t assms(4,6) by (cases "w = v") auto
  next
    case (field w mw mw')
    then show ?thesis using t assms(4,5) by (cases "w = v") auto
  qed
qed

text \<open>A property \<open>K\<close> of pages that the steps keep may be used to narrow what they change.\<close>

lemma vsteps_narrow:
  assumes "vsteps E P W s t"
    and "\<And>v mv i. vheap s v = Some mv \<Longrightarrow> i < length (residency_map mv) \<Longrightarrow> K v i (residency_map mv ! i)"
    and "\<And>v i rp rp'. P v i rp rp' \<Longrightarrow> K v i rp \<Longrightarrow> P' v i rp rp' \<and> K v i rp'"
  shows "vsteps E P' W s t"
proof -
  have "vsteps E P' W s t \<and> (\<forall>v mv i. vheap t v = Some mv \<longrightarrow> i < length (residency_map mv) \<longrightarrow>
      K v i (residency_map mv ! i))"
    using assms(1)
  proof (induction rule: vsteps_induct)
    case refl
    then show ?case using assms(2) by auto
  next
    case (step t t')
    from step(2) show ?case
    proof cases
      case quiet
      then show ?thesis using step(3) by (auto intro: vsteps_quiet_right simp: quiet_fields)
    next
      case (page v mv i rp rp')
      then have k: "P' v i rp rp' \<and> K v i rp'" using step(3) assms(3) by auto
      then have "vstep E P' W t t'" by (intro vstep.page [of t v mv i rp E rp']) (use page in auto)
      then show ?thesis
        using page(1,2,3,8) k step(3) by (auto simp: nth_list_update intro: vsteps_trans [OF _ vsteps_step])
    next
      case (field v mv mv')
      have "vstep E P' W t t'" by (rule vstep.field [of t v mv mv']) (use field in auto)
      then show ?thesis
        using field step(3) by (auto simp: same_pages_def intro: vsteps_trans [OF _ vsteps_step])
    qed
  qed
  then show ?thesis by blast
qed

subsection \<open>Byte accounting\<close>

definition owned_pages :: "'z vstate_scheme \<Rightarrow> nat" where
  "owned_pages s = (\<Sum>v\<leftarrow>vorder s. case vheap s v of None \<Rightarrow> 0 | Some mv \<Rightarrow> count_if owned (residency_map mv))"

text \<open>The recorded bytes that belong to other components.\<close>

definition other_bytes :: "'z vstate_scheme \<Rightarrow> u64" where
  "other_bytes s = total_vram_usage s - of_nat (owned_pages s) * VBAR_PAGE_SIZE"

lemma sum_list_update_one:
  fixes f g :: "nat \<Rightarrow> nat"
  assumes "distinct xs" "v \<in> set xs" "\<And>x. x \<noteq> v \<Longrightarrow> g x = f x"
  shows "(\<Sum>x\<leftarrow>xs. g x) + f v = (\<Sum>x\<leftarrow>xs. f x) + g v"
  using assms
proof (induction xs)
  case Nil
  then show ?case by simp
next
  case (Cons x xs)
  show ?case
  proof (cases "x = v")
    case True
    then have "map g xs = map f xs" using Cons.prems by (intro map_cong refl) (metis distinct.simps(2))
    then show ?thesis using True by (simp del: map_eq_conv)
  next
    case False
    then show ?thesis using Cons by simp
  qed
qed

lemma bytes_if_nat: "bytes_if b = of_nat (if b then 1 else 0) * VBAR_PAGE_SIZE"
  by (simp add: bytes_if_def)

lemma other_bytes_vstep:
  assumes "vinv E s" "vstep E P W s s'"
  shows "other_bytes s' = other_bytes s"
  using assms(2)
proof cases
  case quiet
  then show ?thesis by (simp add: other_bytes_def owned_pages_def quiet_fields erase_eq [OF quiet_fields(3)])
next
  case (page v mv i rp rp')
  let ?f = "\<lambda>s v. case vheap s v of None \<Rightarrow> 0 | Some mv \<Rightarrow> count_if owned (residency_map mv)"
  have v: "v \<in> set (vorder s)" "distinct (vorder s)" using assms(1) page(1) by (auto simp: vinv_def)
  have "(\<Sum>x\<leftarrow>vorder s. ?f s' x) + ?f s v = (\<Sum>x\<leftarrow>vorder s. ?f s x) + ?f s' v"
    using v page(8) by (intro sum_list_update_one) auto
  moreover have "?f s' v + (if owned rp then 1 else 0) = ?f s v + (if owned rp' then 1 else 0)"
    using page(1,2,3,8) count_if_update [of i "residency_map mv" owned rp'] by simp
  ultimately have "owned_pages s' + (if owned rp then 1 else 0) = owned_pages s + (if owned rp' then 1 else 0)"
    using erase_eq(1) [OF page(9)] by (simp add: owned_pages_def)
  then have "(of_nat (owned_pages s') + of_nat (if owned rp then 1 else 0) :: u64)
      = of_nat (owned_pages s) + of_nat (if owned rp' then 1 else 0)"
    by (metis of_nat_add)
  then have "(of_nat (owned_pages s') :: u64) = of_nat (owned_pages s) + of_nat (if owned rp' then 1 else 0)
      - of_nat (if owned rp then 1 else 0)"
    by (metis add_diff_cancel_right')
  then show ?thesis
    unfolding other_bytes_def page(7) bytes_if_nat by (simp only: left_diff_distrib distrib_right) simp
next
  case (field v mv mv')
  have "owned_pages s' = owned_pages s"
    using field erase_eq(1) [OF field(8)]
    by (auto simp: owned_pages_def same_pages_def intro!: arg_cong [of _ _ sum_list] map_cong)
  then show ?thesis using field by (simp add: other_bytes_def)
qed

lemma other_bytes_vsteps: "vsteps E P W s s' \<Longrightarrow> vinv E s \<Longrightarrow> other_bytes s' = other_bytes s"
proof (induction rule: vsteps_induct)
  case refl
  then show ?case by simp
next
  case (step t t')
  then show ?case using other_bytes_vstep [OF vinv_vsteps [OF step(1) step.prems(1)] step(2)] by simp
qed

end
