(* ===== verification/VbarRetire.thy ===== *)
theory VbarRetire
  imports VbarInv
begin

unbundle bit_operations_syntax

text \<open>
  Retirement tokens (\<open>vbar_retire_record\<close>, \<open>vbar_retire_complete\<close> of \<open>src/model-vbar.c\<close>).

  A token names a queue in its low seven bits, then a 33-bit fence generation, then the
  incarnation of the queue slot. A page keeps one token per queue that consumed it; it is idle
  when every one of them has completed. The arrays are lists: \<open>retire_tokens\<close> holds the first
  \<open>retire_token_count\<close> entries, \<open>completed\<close> the entries the snapshot filled in.
\<close>

abbreviation RETIRE_MAX_QUEUES :: nat where "RETIRE_MAX_QUEUES \<equiv> 64"

lemma queue_tag_mask: "queue_tag t = t AND mask 7"
  by (simp add: queue_tag_def mask_eq_exp_minus_1)

definition retire_generation :: "u64 \<Rightarrow> u64" where
  "retire_generation stamp = stamp AND mask 33"

definition retire_incarnation :: "u64 \<Rightarrow> u64" where
  "retire_incarnation stamp = drop_bit 33 stamp"

definition retire_stamp :: "u64 \<Rightarrow> u64" where
  "retire_stamp token = drop_bit 7 token"

text \<open>The token of the same queue, if there is one, becomes the larger of the two.\<close>

fun merge_token :: "u64 \<Rightarrow> u64 list \<Rightarrow> u64 list option" where
  "merge_token t [] = None"
| "merge_token t (x # xs) =
     (if queue_tag x = queue_tag t then Some ((if t > x then t else x) # xs)
      else map_option (Cons x) (merge_token t xs))"

definition vbar_retire_record :: "resident_page \<Rightarrow> u64 \<Rightarrow> resident_page" where
  "vbar_retire_record rp token =
     (if token = 0 then rp\<lparr>retire_unknown := True\<rparr>
      else case merge_token token (retire_tokens rp) of
        Some ts \<Rightarrow> rp\<lparr>retire_tokens := ts\<rparr>
      | None \<Rightarrow>
          if length (retire_tokens rp) \<ge> RETIRE_MAX_QUEUES then rp\<lparr>retire_unknown := True\<rparr>
          else rp\<lparr>retire_tokens := retire_tokens rp @ [token]\<rparr>)"

definition token_complete :: "u64 list \<Rightarrow> u64 \<Rightarrow> bool" where
  "token_complete completed token =
     (if queue_tag token = 0 then False
      else
        let queue_index = unat (queue_tag token - 1) in
        if queue_index \<ge> length completed then False
        else retire_incarnation (completed ! queue_index) = retire_incarnation (retire_stamp token) \<and>
             \<not> retire_generation (completed ! queue_index) < retire_generation (retire_stamp token))"

definition vbar_retire_complete :: "resident_page \<Rightarrow> u64 list \<Rightarrow> bool" where
  "vbar_retire_complete rp completed =
     (if retire_unknown rp \<or> vbar_consumer_held rp then False
      else list_all (token_complete completed) (retire_tokens rp))"

subsection \<open>Recording keeps the page well formed\<close>

lemma merge_token_None: "merge_token t xs = None \<longleftrightarrow> queue_tag t \<notin> set (map queue_tag xs)"
  by (induction xs) auto

lemma merge_token_tags: "merge_token t xs = Some ys \<Longrightarrow> map queue_tag ys = map queue_tag xs"
  by (induction xs arbitrary: ys) (auto split: if_splits)

lemma merge_token_length: "merge_token t xs = Some ys \<Longrightarrow> length ys = length xs"
  by (drule merge_token_tags) (metis length_map)

lemma record_fields [simp]:
  "handle (vbar_retire_record rp t) = handle rp" "pin_count (vbar_retire_record rp t) = pin_count rp"
  "serial (vbar_retire_record rp t) = serial rp" "mapped (vbar_retire_record rp t) = mapped rp"
  "external_consumer_holds (vbar_retire_record rp t) = external_consumer_holds rp"
  "capture_holds (vbar_retire_record rp t) = capture_holds rp"
  "evicting (vbar_retire_record rp t) = evicting rp"
  "eviction_generation (vbar_retire_record rp t) = eviction_generation rp"
  by (simp_all add: vbar_retire_record_def split: option.splits)

lemma record_tokens_ok:
  assumes "length (retire_tokens rp) \<le> 64" "distinct (map queue_tag (retire_tokens rp))"
  shows "length (retire_tokens (vbar_retire_record rp t)) \<le> 64 \<and>
    distinct (map queue_tag (retire_tokens (vbar_retire_record rp t)))"
  using assms merge_token_length [of t "retire_tokens rp"] merge_token_tags [of t "retire_tokens rp"]
  by (auto simp: vbar_retire_record_def merge_token_None split: option.splits)

lemma page_ok_record: "page_ok E rp \<Longrightarrow> page_ok E (vbar_retire_record rp t)"
  using record_tokens_ok [of rp t]
  by (simp add: page_ok_def vbar_page_is_mapped_def vbar_consumer_held_def)

lemma cancel_fields [simp]:
  "handle (vbar_page_cancel_eviction rp) = handle rp" "pin_count (vbar_page_cancel_eviction rp) = pin_count rp"
  "serial (vbar_page_cancel_eviction rp) = serial rp" "mapped (vbar_page_cancel_eviction rp) = mapped rp"
  "external_consumer_holds (vbar_page_cancel_eviction rp) = external_consumer_holds rp"
  "capture_holds (vbar_page_cancel_eviction rp) = capture_holds rp"
  "retire_tokens (vbar_page_cancel_eviction rp) = retire_tokens rp"
  "retire_unknown (vbar_page_cancel_eviction rp) = retire_unknown rp"
  "\<not> evicting (vbar_page_cancel_eviction rp)"
  by (simp_all add: vbar_page_cancel_eviction_def)

lemma page_ok_cancel: "page_ok E (vbar_page_cancel_eviction rp) = page_ok E rp"
  by (simp add: page_ok_def vbar_page_is_mapped_def vbar_consumer_held_def)

subsection \<open>Recording forgets no consumer\<close>

lemma generation_mono:
  assumes "x \<le> t" "retire_incarnation (retire_stamp x) = retire_incarnation (retire_stamp t)"
  shows "retire_generation (retire_stamp x) \<le> retire_generation (retire_stamp t)"
proof -
  have gen: "unat (retire_generation (retire_stamp y)) = (unat y div 2 ^ 7) mod 2 ^ 33" for y
    by (simp add: retire_generation_def retire_stamp_def unat_drop_bit_eq drop_bit_eq_div
        flip: take_bit_eq_mask) (simp add: unsigned_take_bit_eq take_bit_eq_mod unat_drop_bit_eq drop_bit_eq_div unat_div unat_mod)
  have inc: "unat (retire_incarnation (retire_stamp y)) = (unat y div 2 ^ 7) div 2 ^ 33" for y
    by (simp add: retire_incarnation_def retire_stamp_def unat_drop_bit_eq drop_bit_eq_div unat_div)
  have "(unat x div 2 ^ 7) div 2 ^ 33 = (unat t div 2 ^ 7) div 2 ^ 33"
    using arg_cong [OF assms(2), of unat] by (simp only: inc)
  moreover have "unat x div 2 ^ 7 \<le> unat t div 2 ^ 7"
    using assms(1) by (intro div_le_mono) (simp add: word_le_nat_alt)
  ultimately have "(unat x div 2 ^ 7) mod 2 ^ 33 \<le> (unat t div 2 ^ 7) mod 2 ^ 33"
    by (metis add_le_cancel_left div_mult_mod_eq)
  then show ?thesis by (simp only: word_le_nat_alt gen)
qed

text \<open>In one incarnation of a queue a later token completes only after an earlier one.\<close>

lemma token_complete_mono:
  assumes "token_complete completed t" "x \<le> t" "queue_tag x = queue_tag t"
    "retire_incarnation (retire_stamp x) = retire_incarnation (retire_stamp t)"
  shows "token_complete completed x"
  using assms generation_mono [OF assms(2,4)]
  by (auto simp: token_complete_def Let_def split: if_splits)

lemma merge_token_complete:
  assumes "merge_token t xs = Some ys" "list_all (token_complete completed) ys"
    "\<forall>x \<in> set xs. queue_tag x = queue_tag t \<longrightarrow>
       retire_incarnation (retire_stamp x) = retire_incarnation (retire_stamp t)"
  shows "token_complete completed t \<and> list_all (token_complete completed) xs"
  using assms
proof (induction xs arbitrary: ys)
  case Nil
  then show ?case by simp
next
  case (Cons x xs)
  show ?case
  proof (cases "queue_tag x = queue_tag t")
    case True
    then show ?thesis
      using Cons.prems by (auto split: if_splits intro: token_complete_mono)
  next
    case False
    then show ?thesis using Cons by auto
  qed
qed

lemma retire_record_complete:
  assumes "vbar_retire_complete (vbar_retire_record rp t) completed"
    "\<forall>x \<in> set (retire_tokens rp). queue_tag x = queue_tag t \<longrightarrow>
       retire_incarnation (retire_stamp x) = retire_incarnation (retire_stamp t)"
  shows "token_complete completed t \<and> vbar_retire_complete rp completed"
proof -
  from assms(1) have t: "t \<noteq> 0" by (auto simp: vbar_retire_complete_def vbar_retire_record_def)
  show ?thesis
  proof (cases "merge_token t (retire_tokens rp)")
    case None
    then show ?thesis using assms(1) t
      by (auto simp: vbar_retire_complete_def vbar_retire_record_def vbar_consumer_held_def split: if_splits)
  next
    case (Some ts)
    then have "list_all (token_complete completed) ts" "\<not> retire_unknown rp" "\<not> vbar_consumer_held rp"
      using assms(1) t
      by (auto simp: vbar_retire_complete_def vbar_retire_record_def vbar_consumer_held_def split: if_splits)
    then show ?thesis using merge_token_complete [OF Some _ assms(2)] by (simp add: vbar_retire_complete_def)
  qed
qed

end
