(* ===== verification/VbarPage.thy ===== *)
theory VbarPage
  imports VbarRetire
begin

text \<open>
  The operations on one page of \<open>src/model-vbar.c\<close>: restoring a mapping, mapping a new physical
  page, and \<open>mod1\<close>, which evicts. Each is one step of the state machine, whatever the driver
  answers.
\<close>

subsection \<open>Operations\<close>

definition vbar_restore_page_mapping ::
  "env \<Rightarrow> nat \<Rightarrow> nat \<Rightarrow> bool \<Rightarrow> 'z vstate_scheme \<Rightarrow> (mapping_state \<times> 'z vstate_scheme) option" where
  "vbar_restore_page_mapping E v page_nr restore_resident_count s = do {
     mv \<leftarrow> vheap s v;
     rp \<leftarrow> at_index (residency_map mv) page_nr;
     let vaddr = page_vaddr mv page_nr;
     if handle rp = 0 then Some (VBAR_MAPPING_UNMAPPED, s)
     else do {
       (ok, s) \<leftarrow> check_cu E (MemMap vaddr VBAR_PAGE_SIZE (handle rp)) s;
       if \<not> ok then Some (VBAR_MAPPING_UNMAPPED, upd_page v page_nr (\<lambda>rp. rp\<lparr>mapped := VBAR_MAPPING_UNMAPPED\<rparr>) s)
       else do {
         let s = upd_page v page_nr (\<lambda>rp. rp\<lparr>mapped := VBAR_MAPPING_UNKNOWN\<rparr>) s;
         (ok, s) \<leftarrow> check_cu E (MemSetAccess vaddr VBAR_PAGE_SIZE (device mv)) s;
         if \<not> ok then do {
           (ok, s) \<leftarrow> check_cu E (MemUnmap vaddr VBAR_PAGE_SIZE) s;
           if ok then Some (VBAR_MAPPING_UNMAPPED, upd_page v page_nr (\<lambda>rp. rp\<lparr>mapped := VBAR_MAPPING_UNMAPPED\<rparr>) s)
           else Some (VBAR_MAPPING_UNKNOWN, upd_page v page_nr (\<lambda>rp. rp\<lparr>retire_unknown := True\<rparr>) s) }
         else do {
           let s = upd_page v page_nr (\<lambda>rp. rp\<lparr>mapped := VBAR_MAPPING_MAPPED\<rparr>) s;
           Some (VBAR_MAPPING_MAPPED,
             if restore_resident_count then upd_vbar v (\<lambda>mv. mv\<lparr>resident_count := resident_count mv + 1\<rparr>) s
             else s) } } } }"

definition add_usage :: "u64 \<Rightarrow> 'z ctx_scheme \<Rightarrow> 'z ctx_scheme" where
  "add_usage n s = s\<lparr>total_vram_usage := total_vram_usage s + n\<rparr>"

definition vbar_map_new_page :: "env \<Rightarrow> nat \<Rightarrow> nat \<Rightarrow> 'z vstate_scheme \<Rightarrow> (int \<times> 'z vstate_scheme) option" where
  "vbar_map_new_page E v page_nr s = do {
     mv \<leftarrow> vheap s v;
     rp \<leftarrow> at_index (residency_map mv) page_nr;
     let vaddr = page_vaddr mv page_nr;
     if handle rp \<noteq> 0 then
       if mapped rp = VBAR_MAPPING_UNKNOWN then Some (VBAR_CUDA_ERROR_UNKNOWN, s)
       else do {
         (m, s) \<leftarrow> vbar_restore_page_mapping E v page_nr False s;
         Some (if m = VBAR_MAPPING_MAPPED then CUDA_SUCCESS else VBAR_CUDA_ERROR_UNKNOWN, s) }
     else do {
       (r, s) \<leftarrow> ask E (MemCreate VBAR_PAGE_SIZE (device mv)) s;
       if r_rc r \<noteq> CUDA_SUCCESS then Some (r_rc r, s)
       else do {
         let h = r_val r;
         let s = upd_page v page_nr (\<lambda>rp. rp\<lparr>handle := h\<rparr>) s;
         (r, s) \<leftarrow> ask E (MemMap vaddr VBAR_PAGE_SIZE h) s;
         if r_rc r \<noteq> CUDA_SUCCESS then do {
           (ok, s) \<leftarrow> check_cu E (MemRelease h) s;
           Some (r_rc r, if ok then upd_page v page_nr (\<lambda>rp. rp\<lparr>handle := 0\<rparr>) s
                         else add_usage VBAR_PAGE_SIZE s) }
         else do {
           let s = upd_page v page_nr (\<lambda>rp. rp\<lparr>mapped := VBAR_MAPPING_UNKNOWN\<rparr>) s;
           (r, s) \<leftarrow> ask E (MemSetAccess vaddr VBAR_PAGE_SIZE (device mv)) s;
           if r_rc r \<noteq> CUDA_SUCCESS then do {
             (ok, s) \<leftarrow> check_cu E (MemUnmap vaddr VBAR_PAGE_SIZE) s;
             if ok then do {
               let s = upd_page v page_nr (\<lambda>rp. rp\<lparr>mapped := VBAR_MAPPING_UNMAPPED\<rparr>) s;
               (ok, s) \<leftarrow> check_cu E (MemRelease h) s;
               Some (r_rc r, if ok then upd_page v page_nr (\<lambda>rp. rp\<lparr>handle := 0\<rparr>) s
                             else add_usage VBAR_PAGE_SIZE s) }
             else Some (r_rc r, add_usage VBAR_PAGE_SIZE
                                  (upd_page v page_nr (\<lambda>rp. rp\<lparr>retire_unknown := True\<rparr>) s)) }
           else Some (CUDA_SUCCESS, add_usage VBAR_PAGE_SIZE
                        (upd_page v page_nr (\<lambda>rp. rp\<lparr>mapped := VBAR_MAPPING_MAPPED\<rparr>) s)) } } } }"

text \<open>
  \<open>mod1\<close>: \<open>-1\<close> writeback failed, \<open>0\<close> retained, \<open>1\<close> freed. First whether the page may be freed,
  then the writeback of the owner's data, then the release on either platform.
\<close>

definition mod1_do_free :: "env \<Rightarrow> model_vbar \<Rightarrow> resident_page \<Rightarrow> bool \<Rightarrow> bool \<Rightarrow> bool" where
  "mod1_do_free E mv rp do_free do_unpin \<longleftrightarrow>
     do_free \<and> vbar_page_is_mapped E rp \<and>
     (if winxpu E then
        copy_holds mv = 0 \<and>
        (do_unpin \<or> pin_count rp = 0 \<and> \<not> evicting rp \<and> \<not> retire_unknown rp \<and> \<not> vbar_consumer_held rp)
      else do_unpin \<or> pin_count rp = 0)"

definition mod1_writeback ::
  "env \<Rightarrow> nat \<Rightarrow> model_vbar \<Rightarrow> nat \<Rightarrow> 'z vstate_scheme \<Rightarrow> (bool \<times> 'z vstate_scheme) option" where
  "mod1_writeback E v mv page_nr s =
     (if pageout_callback mv then do {
        let offset = of_nat page_nr * VBAR_PAGE_SIZE;
        let bytes = min VBAR_PAGE_SIZE (pageout_size mv - offset);
        (ok, s) \<leftarrow> check_cu E CtxSynchronize s;
        if \<not> ok then Some (False, s)
        else do {
          (r, s) \<leftarrow> ask E (Pageout v offset bytes) s;
          Some (r_rc r \<noteq> 0, s) } }
      else Some (True, s))"

definition mod1_release_winxpu :: "env \<Rightarrow> nat \<Rightarrow> nat \<Rightarrow> 'z vstate_scheme \<Rightarrow> (bool \<times> 'z vstate_scheme) option" where
  "mod1_release_winxpu E v page_nr s = do {
     mv \<leftarrow> vheap s v;
     rp \<leftarrow> at_index (residency_map mv) page_nr;
     (ok, s) \<leftarrow> check_cu E (MemUnmap (page_vaddr mv page_nr) VBAR_PAGE_SIZE) s;
     if \<not> ok then Some (False, upd_page v page_nr (\<lambda>rp. rp\<lparr>evicting := False\<rparr>) s)
     else do {
       let s = upd_page v page_nr (\<lambda>rp. rp\<lparr>mapped := VBAR_MAPPING_UNMAPPED\<rparr>) s;
       (ok, s) \<leftarrow> check_cu E (MemRelease (handle rp)) s;
       if \<not> ok then do {
         (m, s) \<leftarrow> vbar_restore_page_mapping E v page_nr False s;
         let s = (if m \<noteq> VBAR_MAPPING_MAPPED then
                    upd_vbar v (\<lambda>mv. if resident_count mv \<noteq> 0
                                     then mv\<lparr>resident_count := resident_count mv - 1\<rparr> else mv)
                      (upd_page v page_nr (\<lambda>rp. rp\<lparr>retire_unknown := True\<rparr>) s)
                  else s);
         Some (False, upd_page v page_nr (\<lambda>rp. rp\<lparr>evicting := False\<rparr>) s) }
       else do {
         let s = s\<lparr>total_vram_usage := total_vram_usage s - VBAR_PAGE_SIZE\<rparr>;
         let s = upd_page v page_nr (\<lambda>rp. vbar_retire_reset
                   (rp\<lparr>handle := 0, mapped := VBAR_MAPPING_UNMAPPED, evicting := False\<rparr>)) s;
         Some (True, upd_vbar v (\<lambda>mv. mv\<lparr>resident_count := resident_count mv - 1\<rparr>) s) } } }"

definition mod1_release :: "env \<Rightarrow> nat \<Rightarrow> nat \<Rightarrow> 'z vstate_scheme \<Rightarrow> (bool \<times> 'z vstate_scheme) option" where
  "mod1_release E v page_nr s = do {
     mv \<leftarrow> vheap s v;
     rp \<leftarrow> at_index (residency_map mv) page_nr;
     (_, s) \<leftarrow> check_cu E (MemUnmap (page_vaddr mv page_nr) VBAR_PAGE_SIZE) s;
     (_, s) \<leftarrow> unmap_workaround E (page_vaddr mv page_nr) VBAR_PAGE_SIZE s;
     (_, s) \<leftarrow> check_cu E (MemRelease (handle rp)) s;
     let s = s\<lparr>total_vram_usage := total_vram_usage s - VBAR_PAGE_SIZE\<rparr>;
     let s = upd_page v page_nr (\<lambda>rp. rp\<lparr>handle := 0\<rparr>) s;
     Some (True, upd_vbar v (\<lambda>mv. mv\<lparr>resident_count := resident_count mv - 1\<rparr>) s) }"

definition mod1 :: "env \<Rightarrow> nat \<Rightarrow> nat \<Rightarrow> bool \<Rightarrow> bool \<Rightarrow> 'z vstate_scheme \<Rightarrow> (int \<times> 'z vstate_scheme) option" where
  "mod1 E v page_nr do_free do_unpin s = do {
     mv \<leftarrow> vheap s v;
     rp \<leftarrow> at_index (residency_map mv) page_nr;
     let unpin = (\<lambda>s. if do_unpin then upd_page v page_nr (\<lambda>rp. rp\<lparr>pin_count := 0\<rparr>) s else s);
     if mod1_do_free E mv rp do_free do_unpin then do {
       (saved, s) \<leftarrow> mod1_writeback E v mv page_nr s;
       if \<not> saved then Some (- 1, s)
       else if winxpu E then do {
         (freed, s) \<leftarrow> mod1_release_winxpu E v page_nr s;
         if freed then Some (1, unpin s) else Some (0, s) }
       else do {
         (_, s) \<leftarrow> mod1_release E v page_nr s;
         Some (1, unpin s) } }
     else Some (0, unpin s) }"

subsection \<open>Their effect\<close>

lemma vbar_upd_order [simp]:
  "mv\<lparr>resident_count := n, residency_map := m\<rparr> = mv\<lparr>residency_map := m, resident_count := n\<rparr>"
  by simp

lemma page_meta_simps [simp]:
  "vbar_page_is_mapped E (rp\<lparr>pin_count := p\<rparr>) = vbar_page_is_mapped E rp"
  "vbar_page_is_mapped E (rp\<lparr>serial := n\<rparr>) = vbar_page_is_mapped E rp"
  "vbar_page_is_mapped E (rp\<lparr>evicting := b\<rparr>) = vbar_page_is_mapped E rp"
  "vbar_page_is_mapped E (rp\<lparr>eviction_generation := g\<rparr>) = vbar_page_is_mapped E rp"
  "vbar_page_is_mapped E (rp\<lparr>retire_unknown := b\<rparr>) = vbar_page_is_mapped E rp"
  "vbar_page_is_mapped E (rp\<lparr>external_consumer_holds := p\<rparr>) = vbar_page_is_mapped E rp"
  "vbar_page_is_mapped E (rp\<lparr>capture_holds := p\<rparr>) = vbar_page_is_mapped E rp"
  "vbar_page_is_mapped E (vbar_page_cancel_eviction rp) = vbar_page_is_mapped E rp"
  "vbar_page_is_mapped E (vbar_retire_record rp t) = vbar_page_is_mapped E rp"
  "owned (rp\<lparr>pin_count := p\<rparr>) = owned rp" "owned (rp\<lparr>serial := n\<rparr>) = owned rp"
  "owned (rp\<lparr>evicting := b\<rparr>) = owned rp" "owned (rp\<lparr>eviction_generation := g\<rparr>) = owned rp"
  "owned (rp\<lparr>retire_unknown := b\<rparr>) = owned rp" "owned (rp\<lparr>mapped := m\<rparr>) = owned rp"
  "owned (rp\<lparr>external_consumer_holds := p\<rparr>) = owned rp" "owned (rp\<lparr>capture_holds := p\<rparr>) = owned rp"
  "owned (vbar_page_cancel_eviction rp) = owned rp" "owned (vbar_retire_record rp t) = owned rp"
  by (simp_all add: vbar_page_is_mapped_def owned_def)

text \<open>\<open>page_effect v mv' t s s'\<close>: only VBAR \<open>v\<close>, the byte count and the history changed.\<close>

definition page_effect :: "nat \<Rightarrow> model_vbar \<Rightarrow> u64 \<Rightarrow> 'z vstate_scheme \<Rightarrow> 'z vstate_scheme \<Rightarrow> bool" where
  "page_effect v mv' t s s' \<longleftrightarrow> vheap s' = (vheap s)(v \<mapsto> mv') \<and> total_vram_usage s' = t \<and>
     erase s' = erase s \<and> vbar_lock_depth s' = vbar_lock_depth s"

lemma upd_page_simps [simp]:
  "hist (upd_page v i f s) = hist s" "total_vram_usage (upd_page v i f s) = total_vram_usage s"
  "vbar_lock_depth (upd_page v i f s) = vbar_lock_depth s"
  "vheap (upd_page v i f s) = (vheap s)(v := map_option
     (\<lambda>mv. mv\<lparr>residency_map := (residency_map mv)[i := f (residency_map mv ! i)]\<rparr>) (vheap s v))"
  "hist (upd_vbar v g s) = hist s" "total_vram_usage (upd_vbar v g s) = total_vram_usage s"
  "vbar_lock_depth (upd_vbar v g s) = vbar_lock_depth s"
  "vheap (upd_vbar v g s) = (vheap s)(v := map_option g (vheap s v))"
  by (simp_all add: upd_page_def upd_vbar_def)

lemma add_usage_simps [simp]:
  "hist (add_usage n s) = hist s" "total_vram_usage (add_usage n s) = total_vram_usage s + n"
  "vbar_lock_depth (add_usage n s) = vbar_lock_depth s" "vheap (add_usage n s) = vheap s"
  "erase (add_usage n s) = erase s"
  by (simp_all add: add_usage_def)

lemma page_step:
  assumes "vheap s v = Some mv" "i < length (residency_map mv)"
    "page_effect v (set_vpage E i rp' mv)
       (total_vram_usage s + bytes_if (owned rp') - bytes_if (owned (residency_map mv ! i))) s s'"
    "dev_change E (page_vaddr mv i) (residency_map mv ! i) rp' (hist s) (hist s')"
    "page_ok E (residency_map mv ! i) \<longrightarrow> page_ok E rp'" "P v i (residency_map mv ! i) rp'"
  shows "vsteps E P W s s'"
  using assms by (intro vsteps_step vstep.page) (auto simp: page_effect_def)

lemma page_vaddr_set [simp]:
  "page_vaddr (mv\<lparr>residency_map := m\<rparr>) i = page_vaddr mv i"
  "page_vaddr (mv\<lparr>resident_count := n\<rparr>) i = page_vaddr mv i"
  by (simp_all add: page_vaddr_def)

lemmas dev_simps = ok_call_def

text \<open>Restoring maps the allocation of the page again, or says what is known of the mapping.\<close>

lemma wp_restore:
  assumes "vheap s v = Some mv" "i < length (residency_map mv)" "handle (residency_map mv ! i) \<noteq> 0"
    "rp = residency_map mv ! i" "a = page_vaddr mv i"
  shows "wp (vbar_restore_page_mapping E v i b s) (\<lambda>m s'. \<exists>ru.
    page_effect v (mv\<lparr>residency_map := (residency_map mv)[i := rp\<lparr>mapped := m, retire_unknown := ru\<rparr>],
      resident_count := resident_count mv + one_if (b \<and> m = VBAR_MAPPING_MAPPED)\<rparr>) (total_vram_usage s) s s' \<and>
    (if m = VBAR_MAPPING_UNKNOWN then ru else ru = retire_unknown rp) \<and>
    live_handles E (hist s') = live_handles E (hist s) \<and>
    (\<forall>x. VBAR_PAGE_SIZE \<le> x - a \<longrightarrow> mappings E (hist s') x = mappings E (hist s) x) \<and>
    (m = VBAR_MAPPING_MAPPED \<longrightarrow> mappings E (hist s') a = Some (VBAR_PAGE_SIZE, handle rp)))"
  using assms
  by (auto simp: vbar_restore_page_mapping_def Let_def page_effect_def dev_simps one_if_def)

text \<open>What \<open>mod1\<close> makes of the page, for each answer.\<close>

definition freed_page :: "env \<Rightarrow> resident_page \<Rightarrow> resident_page" where
  "freed_page E rp =
     (if winxpu E then vbar_retire_reset (rp\<lparr>handle := 0, mapped := VBAR_MAPPING_UNMAPPED, evicting := False\<rparr>)
      else rp\<lparr>handle := 0\<rparr>)"

definition unpin_if :: "bool \<Rightarrow> resident_page \<Rightarrow> resident_page" where
  "unpin_if u rp = (if u then rp\<lparr>pin_count := 0\<rparr> else rp)"

text \<open>On Windows/XPU a page that is not freed keeps its allocation.\<close>

definition kept_page :: "resident_page \<Rightarrow> resident_page \<Rightarrow> bool" where
  "kept_page rp rp' \<longleftrightarrow> (\<exists>m ru. rp' = rp\<lparr>mapped := m, retire_unknown := ru, evicting := False\<rparr> \<and>
     (if m = VBAR_MAPPING_MAPPED then ru = retire_unknown rp else ru))"

definition mod1_result ::
  "env \<Rightarrow> model_vbar \<Rightarrow> bool \<Rightarrow> bool \<Rightarrow> int \<Rightarrow> resident_page \<Rightarrow> resident_page \<Rightarrow> bool" where
  "mod1_result E mv f u r rp rp' \<longleftrightarrow>
     (if mod1_do_free E mv rp f u then
        r = 1 \<and> rp' = unpin_if u (freed_page E rp) \<or>
        r = - 1 \<and> pageout_callback mv \<and> rp' = rp \<or>
        r = 0 \<and> winxpu E \<and> kept_page rp rp'
      else r = 0 \<and> rp' = unpin_if u rp)"

lemma freed_page_simps [simp]:
  "handle (freed_page E rp) = 0" "pin_count (freed_page E rp) = pin_count rp"
  "serial (freed_page E rp) = serial rp" "\<not> vbar_page_is_mapped E (freed_page E rp)"
  "\<not> owned (freed_page E rp)" "vbar_consumer_held (freed_page E rp) = vbar_consumer_held rp"
  "eviction_generation (freed_page E rp) = eviction_generation rp"
  "external_consumer_holds (freed_page E rp) = external_consumer_holds rp"
  "capture_holds (freed_page E rp) = capture_holds rp"
  by (auto simp: freed_page_def vbar_retire_reset_def vbar_page_is_mapped_def owned_def vbar_consumer_held_def)

lemma unpin_if_simps [simp]:
  "handle (unpin_if u rp) = handle rp" "mapped (unpin_if u rp) = mapped rp" "serial (unpin_if u rp) = serial rp"
  "vbar_page_is_mapped E (unpin_if u rp) = vbar_page_is_mapped E rp" "owned (unpin_if u rp) = owned rp"
  "vbar_consumer_held (unpin_if u rp) = vbar_consumer_held rp" "unpin_if False rp = rp"
  "pin_count (unpin_if True rp) = 0" "retire_tokens (unpin_if u rp) = retire_tokens rp"
  "eviction_generation (unpin_if u rp) = eviction_generation rp"
  "external_consumer_holds (unpin_if u rp) = external_consumer_holds rp"
  "capture_holds (unpin_if u rp) = capture_holds rp"
  by (auto simp: unpin_if_def vbar_page_is_mapped_def owned_def vbar_consumer_held_def)

lemma set_vpage_same [simp]: "i < length (residency_map mv) \<Longrightarrow> set_vpage E i (residency_map mv ! i) mv = mv"
  by (simp add: set_vpage_def)

lemma resident_count_pos:
  assumes "vbar_ok E mv" "i < nr_pages mv" "vbar_page_is_mapped E (residency_map mv ! i)"
  shows "resident_count mv \<noteq> 0"
proof -
  let ?n = "count_if (vbar_page_is_mapped E) (residency_map mv)"
  have "0 < ?n" using assms by (intro count_if_pos [of i]) (auto simp: vbar_ok_def)
  moreover have "?n < 2 ^ 64"
    using assms(1) count_if_le_length [of "vbar_page_is_mapped E" "residency_map mv"]
    by (auto simp: vbar_ok_def)
  ultimately have "(of_nat ?n :: u64) \<noteq> 0" by (simp add: word_of_nat_eq_0_iff nat_dvd_not_less)
  then show ?thesis using assms(1) by (simp add: vbar_ok_def)
qed

text \<open>A page effect together with the device change, from one state to another.\<close>

definition page_change ::
  "env \<Rightarrow> nat \<Rightarrow> nat \<Rightarrow> model_vbar \<Rightarrow> resident_page \<Rightarrow> 'z vstate_scheme \<Rightarrow> 'z vstate_scheme \<Rightarrow> bool" where
  "page_change E v i mv rp' s s' \<longleftrightarrow>
     page_effect v (set_vpage E i rp' mv)
       (total_vram_usage s + bytes_if (owned rp') - bytes_if (owned (residency_map mv ! i))) s s' \<and>
     dev_change E (page_vaddr mv i) (residency_map mv ! i) rp' (hist s) (hist s')"

lemma page_change_vsteps:
  assumes "page_change E v i mv rp' s s'" "vheap s v = Some mv" "i < length (residency_map mv)"
    "page_ok E (residency_map mv ! i) \<longrightarrow> page_ok E rp'" "P v i (residency_map mv ! i) rp'"
  shows "vsteps E P W s s'"
  using assms by (intro page_step [of s v mv i E rp']) (auto simp: page_change_def)

lemma dev_change_refl_hist:
  assumes "live_handles E h' = live_handles E h" "mappings E h' = mappings E h"
    "handle rp' = handle rp" "vbar_page_is_mapped E rp' \<longrightarrow> vbar_page_is_mapped E rp"
  shows "dev_change E a rp rp' h h'"
  using assms by (simp add: dev_change_def)

lemma wp_mod1_writeback:
  "wp (mod1_writeback E v mv i s) (\<lambda>ok s'. (\<exists>h. s' = s\<lparr>hist := h\<rparr> \<and> asked_only harmless (hist s) h) \<and>
     (\<not> ok \<longrightarrow> pageout_callback mv))"
  by (auto simp: mod1_writeback_def Let_def intro: exI [of _ "hist s"])

lemma wp_mod1_release:
  assumes "vheap s v = Some mv" "i < length (residency_map mv)" "rp = residency_map mv ! i"
    "vbar_page_is_mapped E rp" "\<not> winxpu E"
  shows "wp (mod1_release E v i s) (\<lambda>_ s'. page_change E v i mv (freed_page E rp) s s')"
  using assms mapped_owned [of E rp]
  by (auto simp: mod1_release_def unmap_workaround_def Let_def page_change_def page_effect_def set_vpage_def
      freed_page_def one_if_def bytes_if_def owned_def vbar_page_is_mapped_def dev_change_def dev_simps)

lemma kept_pageI:
  "(if m = VBAR_MAPPING_MAPPED then ru = retire_unknown rp else ru) \<Longrightarrow>
   kept_page rp (rp\<lparr>mapped := m, retire_unknown := ru, evicting := False\<rparr>)"
  unfolding kept_page_def by (rule exI [of _ m], rule exI [of _ ru]) simp

lemma kept_page_evicting:
  assumes "mapped rp = VBAR_MAPPING_MAPPED"
  shows "kept_page rp (rp\<lparr>evicting := False\<rparr>)"
proof -
  have "rp\<lparr>evicting := False\<rparr> = rp\<lparr>mapped := VBAR_MAPPING_MAPPED, retire_unknown := retire_unknown rp, evicting := False\<rparr>"
    using assms by (cases rp) simp
  then show ?thesis using kept_pageI [of VBAR_MAPPING_MAPPED "retire_unknown rp" rp] by simp
qed

lemmas change_simps = dev_simps page_change_def page_effect_def set_vpage_def one_if_def bytes_if_def
  owned_def vbar_page_is_mapped_def dev_change_def

text \<open>The state after a restore is one that a failed release may end in.\<close>

definition restored ::
  "env \<Rightarrow> nat \<Rightarrow> nat \<Rightarrow> model_vbar \<Rightarrow> resident_page \<Rightarrow> mapping_state \<Rightarrow> bool \<Rightarrow>
   'z vstate_scheme \<Rightarrow> 'z vstate_scheme \<Rightarrow> bool" where
  "restored E v i mv rp m ru s s' \<longleftrightarrow>
     page_effect v (mv\<lparr>residency_map := (residency_map mv)[i := rp\<lparr>mapped := m, retire_unknown := ru\<rparr>]\<rparr>)
       (total_vram_usage s) s s' \<and>
     (if m = VBAR_MAPPING_UNKNOWN then ru else ru = retire_unknown rp) \<and>
     live_handles E (hist s') = live_handles E (hist s) \<and>
     (\<forall>x. VBAR_PAGE_SIZE \<le> x - page_vaddr mv i \<longrightarrow> mappings E (hist s') x = mappings E (hist s) x) \<and>
     (m = VBAR_MAPPING_MAPPED \<longrightarrow> mappings E (hist s') (page_vaddr mv i) = Some (VBAR_PAGE_SIZE, handle rp))"

lemma wp_restore_after:
  assumes "vheap s v = Some mv" "i < length (residency_map mv)" "residency_map mv ! i = rp" "handle rp \<noteq> 0"
    "page_effect v (mv\<lparr>residency_map := (residency_map mv)[i := rp\<lparr>mapped := VBAR_MAPPING_UNMAPPED\<rparr>]\<rparr>)
       (total_vram_usage s) s s1"
    "live_handles E (hist s1) = live_handles E (hist s)"
    "\<forall>x. VBAR_PAGE_SIZE \<le> x - page_vaddr mv i \<longrightarrow> mappings E (hist s1) x = mappings E (hist s) x"
  shows "wp (vbar_restore_page_mapping E v i False s1) (\<lambda>m s'. \<exists>ru. restored E v i mv rp m ru s s')"
proof -
  let ?mv1 = "mv\<lparr>residency_map := (residency_map mv)[i := rp\<lparr>mapped := VBAR_MAPPING_UNMAPPED\<rparr>]\<rparr>"
  have s1: "vheap s1 v = Some ?mv1" using assms(5) by (simp add: page_effect_def)
  show ?thesis
  proof (rule wp_conseq [OF wp_restore [OF s1 _ _ refl refl]], goal_cases)
    case (3 m s')
    then obtain ru where "page_effect v (?mv1\<lparr>residency_map := (residency_map ?mv1)[i :=
         (residency_map ?mv1 ! i)\<lparr>mapped := m, retire_unknown := ru\<rparr>],
         resident_count := resident_count ?mv1 + one_if (False \<and> m = VBAR_MAPPING_MAPPED)\<rparr>)
         (total_vram_usage s1) s1 s'"
      "if m = VBAR_MAPPING_UNKNOWN then ru else ru = retire_unknown (residency_map ?mv1 ! i)"
      "live_handles E (hist s') = live_handles E (hist s1)"
      "\<forall>x. VBAR_PAGE_SIZE \<le> x - page_vaddr ?mv1 i \<longrightarrow> mappings E (hist s') x = mappings E (hist s1) x"
      "m = VBAR_MAPPING_MAPPED \<longrightarrow> mappings E (hist s') (page_vaddr ?mv1 i) =
         Some (VBAR_PAGE_SIZE, handle (residency_map ?mv1 ! i))"
      by blast
    then show ?case
      using assms by (intro exI [of _ ru]) (auto simp: restored_def page_effect_def one_if_def)
  qed (use assms in auto)
qed

lemma kept_page_change:
  assumes "restored E v i mv rp m ru s s'" "vheap s v = Some mv" "i < length (residency_map mv)"
    "residency_map mv ! i = rp" "vbar_page_is_mapped E rp" "winxpu E" "resident_count mv \<noteq> 0"
    "s2 = upd_page v i (\<lambda>rp. rp\<lparr>evicting := False\<rparr>) (if m \<noteq> VBAR_MAPPING_MAPPED then
              upd_vbar v (\<lambda>mv. if resident_count mv \<noteq> 0 then mv\<lparr>resident_count := resident_count mv - 1\<rparr> else mv)
                (upd_page v i (\<lambda>rp. rp\<lparr>retire_unknown := True\<rparr>) s') else s')"
    "rp' = rp\<lparr>mapped := m, retire_unknown := ru \<or> m \<noteq> VBAR_MAPPING_MAPPED, evicting := False\<rparr>"
  shows "page_change E v i mv rp' s s2 \<and> kept_page rp rp'"
proof
  show "page_change E v i mv rp' s s2"
    using assms by (auto simp: change_simps restored_def)
  show "kept_page rp rp'"
    using assms(1,9) by (auto simp: restored_def intro!: kept_pageI split: if_splits)
qed

lemma wp_mod1_release_winxpu:
  assumes "vheap s v = Some mv" "i < length (residency_map mv)" "residency_map mv ! i = rp"
    "vbar_page_is_mapped E rp" "winxpu E" "resident_count mv \<noteq> 0"
  shows "wp (mod1_release_winxpu E v i s) (\<lambda>freed s'. \<exists>rp'. page_change E v i mv rp' s s' \<and>
    (if freed then rp' = freed_page E rp else kept_page rp rp'))"
proof -
  let ?a = "page_vaddr mv i" and ?h = "hist s"
  have m: "handle rp \<noteq> 0" "mapped rp = VBAR_MAPPING_MAPPED"
    using assms by (auto simp: vbar_page_is_mapped_def)
  let ?s1 = "(upd_page v i (\<lambda>rp. rp\<lparr>mapped := VBAR_MAPPING_UNMAPPED\<rparr>)
    (s\<lparr>hist := MemUnmap ?a VBAR_PAGE_SIZE # ?h\<rparr>))\<lparr>hist := MemRelease (handle rp) # MemUnmap ?a VBAR_PAGE_SIZE # ?h\<rparr>"
  consider (kept) "\<not> ok_call E ?h (MemUnmap ?a VBAR_PAGE_SIZE)"
    | (freed) "ok_call E ?h (MemUnmap ?a VBAR_PAGE_SIZE)"
        "ok_call E (MemUnmap ?a VBAR_PAGE_SIZE # ?h) (MemRelease (handle rp))"
    | (unreleased) "ok_call E ?h (MemUnmap ?a VBAR_PAGE_SIZE)"
        "\<not> ok_call E (MemUnmap ?a VBAR_PAGE_SIZE # ?h) (MemRelease (handle rp))" by blast
  then show ?thesis
  proof cases
    case kept
    then show ?thesis
      using assms m kept_page_evicting [OF m(2)] unfolding mod1_release_winxpu_def Let_def
      by (auto simp: change_simps intro!: exI [of _ "rp\<lparr>evicting := False\<rparr>"])
  next
    case freed
    then show ?thesis
      using assms m unfolding mod1_release_winxpu_def Let_def
      by (auto simp: change_simps freed_page_def vbar_retire_reset_def)
  next
    case unreleased
    have "page_effect v (mv\<lparr>residency_map := (residency_map mv)[i := rp\<lparr>mapped := VBAR_MAPPING_UNMAPPED\<rparr>]\<rparr>)
       (total_vram_usage s) s ?s1" using assms by (simp add: page_effect_def)
    then have "wp (vbar_restore_page_mapping E v i False ?s1) (\<lambda>m s'. \<exists>ru. restored E v i mv rp m ru s s')"
      by (rule wp_restore_after [OF assms(1-3) m(1)]) (use unreleased in \<open>auto simp: dev_simps not_less [symmetric]\<close>)
    then have "wp (vbar_restore_page_mapping E v i False ?s1) (\<lambda>m s'. \<exists>rp'. page_change E v i mv rp' s
        (upd_page v i (\<lambda>rp. rp\<lparr>evicting := False\<rparr>) (if m \<noteq> VBAR_MAPPING_MAPPED then
              upd_vbar v (\<lambda>mv. if resident_count mv \<noteq> 0 then mv\<lparr>resident_count := resident_count mv - 1\<rparr> else mv)
                (upd_page v i (\<lambda>rp. rp\<lparr>retire_unknown := True\<rparr>) s') else s')) \<and> kept_page rp rp')"
      using kept_page_change [OF _ assms refl refl] by (blast intro: wp_conseq)
    then show ?thesis
      using assms m unreleased unfolding mod1_release_winxpu_def Let_def
      by (simp add: ok_call_def check_cu_def ask_def)
  qed
qed

lemma kept_page_fields:
  assumes "kept_page rp rp'"
  shows "handle rp' = handle rp" "pin_count rp' = pin_count rp" "serial rp' = serial rp"
    "retire_tokens rp' = retire_tokens rp" "external_consumer_holds rp' = external_consumer_holds rp"
    "capture_holds rp' = capture_holds rp" "eviction_generation rp' = eviction_generation rp"
    "\<not> evicting rp'" "owned rp' = owned rp"
  using assms by (auto simp: kept_page_def owned_def)

text \<open>\<open>mod1\<close> on a page of a well-formed VBAR: it returns, and the page changes as \<open>mod1_result\<close> says.\<close>

lemma wp_mod1:
  assumes "vheap s v = Some mv" "vbar_ok E mv" "i < nr_pages mv" "residency_map mv ! i = rp"
  shows "wp (mod1 E v i f u s) (\<lambda>r s'. \<exists>rp'. page_change E v i mv rp' s s' \<and> mod1_result E mv f u r rp rp')"
proof -
  have len: "i < length (residency_map mv)" using assms by (simp add: vbar_ok_def)
  have rc: "mod1_do_free E mv rp f u \<Longrightarrow> resident_count mv \<noteq> 0"
    using resident_count_pos [OF assms(2,3)] assms(4) by (simp add: mod1_do_free_def)
  have keep: "page_change E v i mv (unpin_if u rp) s (if u then upd_page v i (\<lambda>rp. rp\<lparr>pin_count := 0\<rparr>) s else s)"
    using assms(1) assms(4) [symmetric] len
    by (cases u) (simp_all add: page_change_def page_effect_def set_vpage_def dev_change_def unpin_if_def fun_upd_idem)
  have unpin: "page_change E v i mv (unpin_if u rp') s (if u then upd_page v i (\<lambda>rp. rp\<lparr>pin_count := 0\<rparr>) s' else s')"
    if "page_change E v i mv rp' s s'" for rp' s'
    using that len by (cases u) (simp_all add: page_change_def page_effect_def set_vpage_def dev_change_def unpin_if_def)
  have prefix: "page_change E v i mv rp' s s'"
    if "page_change E v i mv rp' (s\<lparr>hist := h\<rparr>) s'" "asked_only harmless (hist s) h" for rp' s' h
    using that asked_only_harmless [OF that(2)] by (simp add: page_change_def page_effect_def dev_change_def)
  have saved: "page_change E v i mv (residency_map mv ! i) s (s\<lparr>hist := h\<rparr>)" if "asked_only harmless (hist s) h" for h
    using assms(1) assms(4) [symmetric] len asked_only_harmless [OF that]
    by (auto simp: page_change_def page_effect_def dev_change_def fun_upd_idem)
  show ?thesis
  proof (cases "mod1_do_free E mv rp f u")
    case False
    then show ?thesis using assms len keep by (auto simp: mod1_def mod1_result_def Let_def)
  next
    case free: True
    then have m: "vbar_page_is_mapped E rp" by (simp add: mod1_do_free_def)
    have win: "wp (mod1_release_winxpu E v i (s\<lparr>hist := h\<rparr>)) (\<lambda>freed s'.
        \<exists>rp'. page_change E v i mv rp' s s' \<and> (if freed then rp' = freed_page E rp else kept_page rp rp'))"
      if "winxpu E" "asked_only harmless (hist s) h" for h
      using wp_mod1_release_winxpu [of "s\<lparr>hist := h\<rparr>" v mv i rp E] assms len m rc [OF free] that
      by (auto intro: prefix elim!: wp_conseq)
    have other: "wp (mod1_release E v i (s\<lparr>hist := h\<rparr>)) (\<lambda>_ s'. page_change E v i mv (freed_page E rp) s s')"
      if "\<not> winxpu E" "asked_only harmless (hist s) h" for h
      using wp_mod1_release [of "s\<lparr>hist := h\<rparr>" v mv i rp E] assms len m that
      by (auto intro: prefix elim!: wp_conseq)
    show ?thesis
      using assms len free unfolding mod1_def mod1_result_def Let_def
      by (auto intro!: wp_conseq [OF wp_mod1_writeback] wp_conseq [OF win] wp_conseq [OF other]
          dest: unpin intro: saved split: if_splits)
  qed
qed

subsection \<open>Mapping a page\<close>

text \<open>The page after \<open>vbar_map_new_page\<close> or \<open>three_stooges\<close> answered \<open>r\<close>.\<close>

definition map_result :: "int \<Rightarrow> resident_page \<Rightarrow> resident_page \<Rightarrow> bool" where
  "map_result r rp rp' \<longleftrightarrow>
     rp'\<lparr>handle := 0, mapped := VBAR_MAPPING_UNMAPPED, retire_unknown := False\<rparr> =
       rp\<lparr>handle := 0, mapped := VBAR_MAPPING_UNMAPPED, retire_unknown := False\<rparr> \<and>
     (retire_unknown rp \<longrightarrow> retire_unknown rp') \<and> (owned rp \<longrightarrow> handle rp' = handle rp) \<and>
     (if r = CUDA_SUCCESS
      then handle rp' \<noteq> 0 \<and> mapped rp' = VBAR_MAPPING_MAPPED \<and> retire_unknown rp' = retire_unknown rp
      else mapped rp' \<noteq> VBAR_MAPPING_MAPPED \<and> (handle rp' = 0 \<longrightarrow> mapped rp' = VBAR_MAPPING_UNMAPPED))"

lemma map_result_fields:
  assumes "map_result r rp rp'"
  shows "pin_count rp' = pin_count rp" "serial rp' = serial rp" "retire_tokens rp' = retire_tokens rp"
    "external_consumer_holds rp' = external_consumer_holds rp" "capture_holds rp' = capture_holds rp"
    "eviction_generation rp' = eviction_generation rp" "evicting rp' = evicting rp"
    "r = CUDA_SUCCESS \<Longrightarrow> handle rp' \<noteq> 0 \<and> mapped rp' = VBAR_MAPPING_MAPPED"
    "r \<noteq> CUDA_SUCCESS \<Longrightarrow> mapped rp' \<noteq> VBAR_MAPPING_MAPPED \<and> (handle rp' = 0 \<longrightarrow> mapped rp' = VBAR_MAPPING_UNMAPPED)"
    "owned rp \<Longrightarrow> handle rp' = handle rp"
  using assms by (cases rp; cases rp'; simp add: map_result_def)+

text \<open>The mapping of one page changed, the resident count did not follow yet.\<close>

definition map_change ::
  "env \<Rightarrow> nat \<Rightarrow> nat \<Rightarrow> model_vbar \<Rightarrow> resident_page \<Rightarrow> 'z vstate_scheme \<Rightarrow> 'z vstate_scheme \<Rightarrow> bool" where
  "map_change E v i mv rp' s s' \<longleftrightarrow>
     page_effect v (mv\<lparr>residency_map := (residency_map mv)[i := rp']\<rparr>)
       (total_vram_usage s + bytes_if (owned rp') - bytes_if (owned (residency_map mv ! i))) s s' \<and>
     dev_change E (page_vaddr mv i) (residency_map mv ! i) rp' (hist s) (hist s')"

definition page_of :: "'z vstate_scheme \<Rightarrow> nat \<Rightarrow> nat \<Rightarrow> resident_page" where
  "page_of s v i = residency_map (the (vheap s v)) ! i"

lemma freshD:
  "create_fresh E \<Longrightarrow> r_rc (drv E h (MemCreate n d)) = 0 \<Longrightarrow>
     r_val (drv E h (MemCreate n d)) \<noteq> 0 \<and> r_val (drv E h (MemCreate n d)) \<notin> live_handles E h"
  by (auto simp: create_fresh_def ok_call_def)

lemma vheap_same [simp]:
  "vheap s v = Some mv \<Longrightarrow> i < length (residency_map mv) \<Longrightarrow> residency_map mv ! i = rp \<Longrightarrow>
   (vheap s)(v \<mapsto> mv\<lparr>residency_map := (residency_map mv)[i := rp]\<rparr>) = vheap s"
  by (auto simp: fun_upd_idem)

lemmas map_simps = map_change_def map_result_def page_of_def page_effect_def bytes_if_def owned_def
  vbar_page_is_mapped_def dev_change_def ok_call_def

lemma wp_map_new_page_fresh:
  assumes "vheap s v = Some mv" "i < length (residency_map mv)" "residency_map mv ! i = rp"
    "winxpu E" "create_fresh E" "handle rp = 0" "mapped rp = VBAR_MAPPING_UNMAPPED"
  shows "wp (vbar_map_new_page E v i s) (\<lambda>r s'.
    map_change E v i mv (page_of s' v i) s s' \<and> map_result r rp (page_of s' v i))"
proof (cases "r_rc (drv E (hist s) (MemCreate VBAR_PAGE_SIZE (device mv))) = 0")
  case False
  then show ?thesis
    using assms unfolding vbar_map_new_page_def Let_def by (simp add: map_simps)
next
  case True
  with freshD [OF assms(5)] show ?thesis
    using assms unfolding vbar_map_new_page_def Let_def by (simp add: map_simps not_less [symmetric])
qed


lemma wp_map_new_page:
  assumes "vheap s v = Some mv" "i < length (residency_map mv)" "residency_map mv ! i = rp"
    "winxpu E" "create_fresh E" "\<not> vbar_page_is_mapped E rp" "page_ok E rp"
  shows "wp (vbar_map_new_page E v i s) (\<lambda>r s'.
    map_change E v i mv (page_of s' v i) s s' \<and> map_result r rp (page_of s' v i))"
proof -
  consider "handle rp = 0" "mapped rp = VBAR_MAPPING_UNMAPPED"
    | "handle rp \<noteq> 0" "mapped rp = VBAR_MAPPING_UNKNOWN" | "handle rp \<noteq> 0" "mapped rp = VBAR_MAPPING_UNMAPPED"
    using assms(4,6,7) by (cases "mapped rp") (auto simp: vbar_page_is_mapped_def page_ok_def)
  then show ?thesis
  proof cases
    case 1
    then show ?thesis by (rule wp_map_new_page_fresh [OF assms(1-5)])
  next
    case 2
    then show ?thesis
      using assms unfolding vbar_map_new_page_def Let_def by (simp add: map_simps)
  next
    case 3
    have "wp (vbar_restore_page_mapping E v i False s) (\<lambda>m s'.
        map_change E v i mv (page_of s' v i) s s' \<and>
        map_result (if m = VBAR_MAPPING_MAPPED then CUDA_SUCCESS else VBAR_CUDA_ERROR_UNKNOWN) rp (page_of s' v i))"
    proof (rule wp_conseq [OF wp_restore [OF assms(1,2) _ refl refl]], goal_cases)
      case (2 m s')
      then obtain ru where r: "page_effect v (mv\<lparr>residency_map := (residency_map mv)[i := rp\<lparr>mapped := m, retire_unknown := ru\<rparr>]\<rparr>)
          (total_vram_usage s) s s'" "if m = VBAR_MAPPING_UNKNOWN then ru else ru = retire_unknown rp"
        "live_handles E (hist s') = live_handles E (hist s)"
        "\<forall>x. VBAR_PAGE_SIZE \<le> x - page_vaddr mv i \<longrightarrow> mappings E (hist s') x = mappings E (hist s) x"
        "m = VBAR_MAPPING_MAPPED \<longrightarrow> mappings E (hist s') (page_vaddr mv i) = Some (VBAR_PAGE_SIZE, handle rp)"
        using assms(3) by (auto simp: one_if_def)
      have pg: "page_of s' v i = rp\<lparr>mapped := m, retire_unknown := ru\<rparr>"
        using r(1) assms(2) by (simp add: page_of_def page_effect_def)
      have "map_result (if m = VBAR_MAPPING_MAPPED then CUDA_SUCCESS else VBAR_CUDA_ERROR_UNKNOWN) rp (page_of s' v i)"
        using r(2) 3 unfolding pg by (cases m) (simp_all add: map_result_def owned_def)
      moreover have "map_change E v i mv (page_of s' v i) s s'"
        using r 3 assms(3,4) unfolding pg by (simp add: map_change_def dev_change_def owned_def vbar_page_is_mapped_def)
      ultimately show ?case by simp
    qed (use assms(3) 3 in simp)
    with 3 show ?thesis
      using assms unfolding vbar_map_new_page_def Let_def by (auto elim!: wp_conseq split: if_splits)
  qed
qed

text \<open>\<open>three_stooges\<close> leaves nothing behind when it fails, and one accounted mapping otherwise.\<close>

lemma wp_three_stooges:
  "wp (three_stooges E a n d s) (\<lambda>r s'.
     s' = s\<lparr>hist := hist s', total_vram_usage := total_vram_usage s + (case r of Inl _ \<Rightarrow> 0 | Inr _ \<Rightarrow> n)\<rparr> \<and>
     (\<forall>x. n \<le> x - a \<longrightarrow> x \<noteq> a \<longrightarrow> mappings E (hist s') x = mappings E (hist s) x) \<and>
     (case r of
        Inl e \<Rightarrow> e \<noteq> CUDA_SUCCESS \<and> (create_fresh E \<longrightarrow> live_handles E (hist s) \<subseteq> live_handles E (hist s'))
      | Inr hn \<Rightarrow> mappings E (hist s') a = Some (n, hn) \<and>
          (create_fresh E \<longrightarrow> hn \<noteq> 0 \<and> hn \<notin> live_handles E (hist s)) \<and>
          live_handles E (hist s') = insert hn (live_handles E (hist s))))"
proof (cases "r_rc (drv E (hist s) (MemCreate n d)) = 0")
  case False
  then show ?thesis by (auto simp: three_stooges_def)
next
  case True
  then show ?thesis
    using freshD [of E "hist s" n d]
    by (auto simp: three_stooges_def Let_def ok_call_def unmap_workaround_def)
qed

end
