(* ===== verification/VbarReclaim.thy ===== *)
theory VbarReclaim
  imports VbarPage
begin

text \<open>
  Synchronized reclaim (\<open>vbars_free_internal\<close> and its entry points) and the deferred request of
  the Windows/XPU callbacks. The loop lowers watermarks from the lowest priority upward until
  enough pages are free. The theorems bound what it touches (\<open>reclaim_page\<close>, \<open>lower_watermark\<close>),
  in which order, and how many bytes it gives back.
\<close>

subsection \<open>Operations\<close>

text \<open>The inner loop, on one VBAR: \<open>None\<close> when a writeback failed, else \<open>(dirty, pages_needed)\<close>.\<close>

definition evict_step ::
  "env \<Rightarrow> bool \<Rightarrow> nat \<Rightarrow> bool \<times> nat \<Rightarrow> 'z vstate_scheme \<Rightarrow>
   ((bool \<times> nat + (bool \<times> nat) option) \<times> 'z vstate_scheme) option" where
  "evict_step E sync i = (\<lambda>(dirty, pages_needed) s. do {
     mv \<leftarrow> vheap s i;
     if pages_needed \<noteq> 0 \<and> watermark mv > watermark_limit mv then do {
       (_, s) \<leftarrow> (if \<not> dirty \<and> sync then check_cu E CtxSynchronize s else Some (True, s));
       (freed, s) \<leftarrow> mod1 E i (watermark mv - 1) True False s;
       if freed < 0 then Some (Inr None, s)
       else Some (Inl (True, pages_needed - nat freed),
                  upd_vbar i (\<lambda>mv. mv\<lparr>watermark := watermark mv - 1\<rparr>) s) }
     else Some (Inr (Some (dirty, pages_needed)), s) })"

definition evict_from ::
  "env \<Rightarrow> bool \<Rightarrow> nat \<Rightarrow> bool \<times> nat \<Rightarrow> 'z vstate_scheme \<Rightarrow> ((bool \<times> nat) option \<times> 'z vstate_scheme) option" where
  "evict_from E sync i a s = do {
     mv \<leftarrow> vheap s i;
     loop (Suc (watermark mv)) (evict_step E sync i) a s }"

definition vbars_free_internal ::
  "env \<Rightarrow> int \<Rightarrow> nat option \<Rightarrow> bool \<Rightarrow> 'z vstate_scheme \<Rightarrow> (bool \<times> 'z vstate_scheme) option" where
  "vbars_free_internal E bytes preserved allow_pageout s = do {
     paused \<leftarrow> malloc_graph_sync_paused E s;
     let sync = (\<not> paused);
     if bytes \<le> 0 then Some (True, s)
     else do {
       (_, s) \<leftarrow> vbar_state_lock E s;
       let s = s\<lparr>vbars_dirty := True\<rparr>;
       let pages_needed = VBAR_GET_PAGE_NR_UP (word_of_int bytes);
       (r, s) \<leftarrow> foreach (\<lambda>i (dirty, pages_needed) s. do {
           mv \<leftarrow> vheap s i;
           if pages_needed = 0 \<or> Some i = preserved \<or> \<not> allow_pageout \<and> pageout_callback mv
           then Some (Inl (dirty, pages_needed), s)
           else do {
             (r, s) \<leftarrow> evict_from E sync i (dirty, pages_needed) s;
             case r of None \<Rightarrow> Some (Inr (), s) | Some a \<Rightarrow> Some (Inl a, s) } })
         (vorder s) (False, pages_needed) s;
       case r of
         Inr _ \<Rightarrow> do { (_, s) \<leftarrow> vbar_state_unlock E s; Some (False, s) }
       | Inl (dirty, _) \<Rightarrow> do {
           (_, s) \<leftarrow> (if dirty \<and> sync then check_cu E CtxSynchronize s else Some (True, s));
           (_, s) \<leftarrow> vbar_state_unlock E s;
           Some (True, s) } } }"

definition vbars_free_except :: "env \<Rightarrow> int \<Rightarrow> nat option \<Rightarrow> 'z vstate_scheme \<Rightarrow> (bool \<times> 'z vstate_scheme) option" where
  "vbars_free_except E bytes preserved s = vbars_free_internal E bytes preserved True s"

definition vbars_free :: "env \<Rightarrow> int \<Rightarrow> 'z vstate_scheme \<Rightarrow> (bool \<times> 'z vstate_scheme) option" where
  "vbars_free E bytes s = vbars_free_except E bytes None s"

definition vbars_free_for_allocator :: "env \<Rightarrow> int \<Rightarrow> 'z vstate_scheme \<Rightarrow> (bool \<times> 'z vstate_scheme) option" where
  "vbars_free_for_allocator E bytes s = vbars_free_internal E bytes None False s"

text \<open>
  The request is an atomic maximum. The compare-and-exchange loop ends at the first exchange
  that no other thread got in between, so it is one step here.
\<close>

definition vbars_request_reclaim :: "int \<Rightarrow> 'z ctx_scheme \<Rightarrow> 'z ctx_scheme" where
  "vbars_request_reclaim bytes s =
     (if bytes \<le> 0 then s
      else if vbar_reclaim_requested s < bytes then s\<lparr>vbar_reclaim_requested := bytes\<rparr> else s)"

definition vbars_take_reclaim_request :: "'z ctx_scheme \<Rightarrow> int \<times> 'z ctx_scheme" where
  "vbars_take_reclaim_request s = (vbar_reclaim_requested s, s\<lparr>vbar_reclaim_requested := 0\<rparr>)"

subsection \<open>What reclaim may do\<close>

definition evictable :: "env \<Rightarrow> resident_page \<Rightarrow> bool" where
  "evictable E rp \<longleftrightarrow> vbar_page_is_mapped E rp \<and> pin_count rp = 0 \<and>
     (winxpu E \<longrightarrow> \<not> vbar_consumer_held rp \<and> \<not> retire_unknown rp \<and> \<not> evicting rp)"

definition same_meta :: "resident_page \<Rightarrow> resident_page \<Rightarrow> bool" where
  "same_meta rp rp' \<longleftrightarrow> pin_count rp' = pin_count rp \<and> serial rp' = serial rp \<and>
     external_consumer_holds rp' = external_consumer_holds rp \<and> capture_holds rp' = capture_holds rp \<and>
     eviction_generation rp' = eviction_generation rp"

text \<open>A page either stays as it is or was evictable; its allocation is kept or given up.\<close>

definition reclaimed :: "env \<Rightarrow> resident_page \<Rightarrow> resident_page \<Rightarrow> bool" where
  "reclaimed E rp rp' \<longleftrightarrow> rp' = rp \<or>
     evictable E rp \<and> same_meta rp rp' \<and> (owned rp' \<longrightarrow> handle rp' = handle rp)"

definition lowered :: "model_vbar \<Rightarrow> model_vbar \<Rightarrow> bool" where
  "lowered mv mv' \<longleftrightarrow> mv' = mv\<lparr>watermark := watermark mv'\<rparr> \<and> watermark mv' \<le> watermark mv \<and>
     (watermark mv' = watermark mv \<or> watermark_limit mv \<le> watermark mv')"

lemma reclaimed_refl [simp]: "reclaimed E rp rp"
  by (simp add: reclaimed_def)

lemma reclaimed_trans: "reclaimed E a b \<Longrightarrow> reclaimed E b c \<Longrightarrow> reclaimed E a c"
  by (auto simp: reclaimed_def same_meta_def evictable_def dest: mapped_owned)

lemma lowered_refl [simp]: "lowered mv mv"
  by (simp add: lowered_def)

lemma mod1_reclaimed: "mod1_result E mv True False r rp rp' \<Longrightarrow> reclaimed E rp rp'"
  by (auto simp: mod1_result_def reclaimed_def evictable_def mod1_do_free_def same_meta_def
      kept_page_fields split: if_splits)

lemma page_ok_unowned:
  assumes "page_ok E rp" "pin_count rp = 0" "\<not> vbar_consumer_held rp"
  shows "page_ok E (unpin_if u (freed_page E rp))"
  using assms by (auto simp: page_ok_def freed_page_def vbar_retire_reset_def vbar_consumer_held_def
      vbar_page_is_mapped_def unpin_if_def)

lemma mod1_page_ok:
  assumes "mod1_result E mv True False r rp rp'" "page_ok E rp"
  shows "page_ok E rp'"
proof -
  have held: "\<not> winxpu E \<Longrightarrow> \<not> vbar_consumer_held rp" using assms(2) by (auto simp: page_ok_def)
  show ?thesis
  proof (cases "mod1_do_free E mv rp True False")
    case True
    then have free: "pin_count rp = 0" "\<not> vbar_consumer_held rp" "vbar_page_is_mapped E rp"
      using held by (auto simp: mod1_do_free_def split: if_splits)
    have "page_ok E rp'" if "kept_page rp rp'"
      using kept_page_fields [OF that] free assms(2) mapped_owned [OF free(3)]
      by (auto simp: page_ok_def vbar_consumer_held_def owned_def)
    then show ?thesis
      using assms True page_ok_unowned [OF assms(2) free(1,2), of False]
      by (auto simp: mod1_result_def split: if_splits)
  next
    case False
    then show ?thesis using assms by (simp add: mod1_result_def)
  qed
qed

lemma mod1_freed_bytes:
  assumes "mod1_result E mv True False r rp rp'"
  shows "bytes_if (owned rp') - bytes_if (owned rp) = - (of_nat (nat r) * VBAR_PAGE_SIZE)" "r \<in> {- 1, 0, 1}"
  using assms by (auto simp: mod1_result_def bytes_if_def kept_page_fields mod1_do_free_def dest: mapped_owned
      split: if_splits)

subsection \<open>The loops\<close>

lemma field_step:
  assumes "vheap s v = Some mv" "same_pages mv (f mv)" "watermark (f mv) \<le> nr_pages mv \<or> watermark (f mv) = watermark mv"
    "W v mv (f mv)"
  shows "vsteps E P W s (upd_vbar v f s)"
  using assms by (intro vsteps_step vstep.field) auto

lemma wp_mod1_reclaim:
  assumes "vinv E s" "vheap s v = Some mv" "i < nr_pages mv"
    "\<And>rp'. reclaimed E (residency_map mv ! i) rp' \<Longrightarrow> P v i (residency_map mv ! i) rp'"
  shows "wp (mod1 E v i True False s) (\<lambda>r s'. r \<in> {- 1, 0, 1} \<and>
    (\<exists>rp'. mod1_result E mv True False r (residency_map mv ! i) rp' \<and>
       vheap s' = (vheap s)(v \<mapsto> set_vpage E i rp' mv)) \<and>
    vsteps E P W s s' \<and>
    total_vram_usage s' = total_vram_usage s - of_nat (nat r) * VBAR_PAGE_SIZE \<and>
    vbar_lock_depth s' = vbar_lock_depth s)"
proof -
  have ok: "vbar_ok E mv" using assms by (simp add: vinv_def)
  then have len: "i < length (residency_map mv)" using assms(3) by (simp add: vbar_ok_def)
  show ?thesis
  proof (rule wp_conseq [OF wp_mod1 [OF assms(2) ok assms(3) refl]], elim exE conjE)
    fix r s' rp'
    assume c: "page_change E v i mv rp' s s'" and r: "mod1_result E mv True False r (residency_map mv ! i) rp'"
    have "total_vram_usage s' = total_vram_usage s + (bytes_if (owned rp') - bytes_if (owned (residency_map mv ! i)))"
      using c by (simp add: page_change_def page_effect_def)
    then have "total_vram_usage s' = total_vram_usage s - of_nat (nat r) * VBAR_PAGE_SIZE"
      unfolding mod1_freed_bytes(1) [OF r] by simp
    moreover have "vsteps E P W s s'"
      by (rule page_change_vsteps [OF c assms(2) len]) (use mod1_page_ok [OF r] assms(4) [OF mod1_reclaimed [OF r]] in auto)
    ultimately show "r \<in> {- 1, 0, 1} \<and>
        (\<exists>rp'. mod1_result E mv True False r (residency_map mv ! i) rp' \<and>
           vheap s' = (vheap s)(v \<mapsto> set_vpage E i rp' mv)) \<and>
        vsteps E P W s s' \<and>
        total_vram_usage s' = total_vram_usage s - of_nat (nat r) * VBAR_PAGE_SIZE \<and>
        vbar_lock_depth s' = vbar_lock_depth s"
      using c r mod1_freed_bytes(2) [OF r] by (auto simp: page_change_def page_effect_def)
  qed
qed

text \<open>Steps that stay in one VBAR and between its limit and its watermark.\<close>

definition evict_page :: "env \<Rightarrow> nat \<Rightarrow> model_vbar \<Rightarrow> page_rel" where
  "evict_page E i mv = (\<lambda>w j rp rp'. w = i \<and> (rp' = rp \<or>
     watermark_limit mv \<le> j \<and> j < watermark mv \<and> reclaimed E rp rp'))"

definition evict_field :: "nat \<Rightarrow> field_rel" where
  "evict_field i = (\<lambda>w mv mv'. w = i \<and> lowered mv mv')"

definition evict_inv ::
  "env \<Rightarrow> nat \<Rightarrow> model_vbar \<Rightarrow> nat \<Rightarrow> 'z vstate_scheme \<Rightarrow> nat \<Rightarrow> 'z vstate_scheme \<Rightarrow> bool" where
  "evict_inv E i mv needed s needed' s' \<longleftrightarrow>
     vsteps E (evict_page E i mv) (evict_field i) s s' \<and> vbar_lock_depth s' = vbar_lock_depth s \<and>
     needed' \<le> needed \<and>
     total_vram_usage s' = total_vram_usage s - of_nat (needed - needed') * VBAR_PAGE_SIZE \<and>
     (\<exists>mv'. vheap s' i = Some mv' \<and> watermark_limit mv' = watermark_limit mv \<and>
        pageout_callback mv' = pageout_callback mv \<and> watermark mv' \<le> watermark mv)"

definition cur_watermark :: "nat \<Rightarrow> 'z vstate_scheme \<Rightarrow> nat" where
  "cur_watermark i s = (case vheap s i of None \<Rightarrow> 0 | Some mv \<Rightarrow> watermark mv)"

definition exhausted :: "'z vstate_scheme \<Rightarrow> nat \<Rightarrow> bool" where
  "exhausted s i \<longleftrightarrow> (\<forall>mv. vheap s i = Some mv \<longrightarrow> watermark mv \<le> watermark_limit mv)"

lemma wp_evict_step:
  assumes "vinv E s" "evict_inv E i mv needed s needed' t"
  shows "wp (evict_step E sync i (dirty, needed') t) (\<lambda>r t'.
    case r of
      Inl (dirty', needed'') \<Rightarrow> evict_inv E i mv needed s needed'' t' \<and> cur_watermark i t' < cur_watermark i t
    | Inr None \<Rightarrow> vsteps E (evict_page E i mv) (evict_field i) s t' \<and> vbar_lock_depth t' = vbar_lock_depth s
    | Inr (Some (dirty', needed'')) \<Rightarrow> evict_inv E i mv needed s needed'' t' \<and> (needed'' = 0 \<or> exhausted t' i))"
proof -
  from assms(2) obtain mt where st: "vsteps E (evict_page E i mv) (evict_field i) s t"
      "vbar_lock_depth t = vbar_lock_depth s" "needed' \<le> needed"
      "total_vram_usage t = total_vram_usage s - of_nat (needed - needed') * VBAR_PAGE_SIZE"
    and mt: "vheap t i = Some mt" "watermark_limit mt = watermark_limit mv"
      "pageout_callback mt = pageout_callback mv" "watermark mt \<le> watermark mv"
    by (auto simp: evict_inv_def)
  show ?thesis
  proof (cases "needed' \<noteq> 0 \<and> watermark mt > watermark_limit mt")
    case False
    then show ?thesis
      using assms(2) mt by (auto simp: evict_step_def exhausted_def)
  next
    case go: True
    let ?i = "watermark mt - 1"
    have inv: "vinv E t" by (rule vinv_vsteps [OF st(1) assms(1)])
    have ok: "?i < nr_pages mt" using vinv_vbar [OF inv mt(1)] go by (auto simp: vbar_ok_def)
    have step: "wp (mod1 E i ?i True False t1) (\<lambda>r t'.
        (r = - 1 \<longrightarrow> vsteps E (evict_page E i mv) (evict_field i) s t' \<and> vbar_lock_depth t' = vbar_lock_depth s) \<and>
        r \<in> {- 1, 0, 1} \<and>
        (r \<noteq> - 1 \<longrightarrow> (let t'' = upd_vbar i (\<lambda>mv. mv\<lparr>watermark := watermark mv - 1\<rparr>) t' in
           evict_inv E i mv needed s (needed' - nat r) t'' \<and> cur_watermark i t'' < cur_watermark i t)))"
      if q: "quiet t t1" "vbar_lock_depth t1 = vbar_lock_depth t" for t1
    proof (rule wp_conseq [OF wp_mod1_reclaim [of E t1 i mt _ "evict_page E i mv" "evict_field i"]], goal_cases)
      case 1
      show ?case by (rule vinv_vsteps [OF vsteps_quiet [OF q(1)] inv])
    next
      case (5 r t')
      then obtain rp' where t': "vheap t' = (vheap t1)(i \<mapsto> set_vpage E ?i rp' mt)" by blast
      have st': "vsteps E (evict_page E i mv) (evict_field i) s t'"
        using 5 st(1) q(1) by (blast intro: vsteps_trans vsteps_quiet)
      then have step': "vsteps E (evict_page E i mv) (evict_field i) s (upd_vbar i (\<lambda>mv. mv\<lparr>watermark := watermark mv - 1\<rparr>) t')"
        by (rule vsteps_trans) (use t' go mt ok in
          \<open>auto intro!: field_step simp: same_pages_def evict_field_def lowered_def\<close>)
      have "(of_nat (needed - (needed' - nat r)) :: u64) = of_nat (needed - needed') + of_nat (nat r)"
        using 5 go st(3) by (auto simp flip: of_nat_add)
      then have bytes: "total_vram_usage t' = total_vram_usage s - of_nat (needed - (needed' - nat r)) * VBAR_PAGE_SIZE"
        using 5 st(4) quiet_fields(2) [OF q(1)] by (simp add: algebra_simps)
      have r: "r \<in> {- 1, 0, 1}" "vbar_lock_depth t' = vbar_lock_depth s" using 5 st(2) q(2) by auto
      have "needed' - nat r \<le> needed" "watermark mt - Suc 0 \<le> watermark mv"
        using st(3) mt(4) by linarith+
      then show ?case
        using r bytes st' step' t' go mt by (simp add: evict_inv_def cur_watermark_def Let_def)
    qed (use mt quiet_fields(1) [OF that(1)] ok go in \<open>auto simp: evict_page_def\<close>)
    have q: "quiet t (t\<lparr>hist := CtxSynchronize # hist t\<rparr>)" by (auto intro!: quiet_hist)
    show ?thesis
      using go mt(1) step [OF quiet_refl] step [OF q]
      by (auto simp: evict_step_def Let_def elim!: wp_conseq split: if_splits)
  qed
qed

lemma wp_evict_from:
  assumes "vinv E s" "vheap s i = Some mv"
  shows "wp (evict_from E sync i (dirty, needed) s) (\<lambda>r t. case r of
      None \<Rightarrow> vsteps E (evict_page E i mv) (evict_field i) s t \<and> vbar_lock_depth t = vbar_lock_depth s
    | Some (dirty', needed') \<Rightarrow> evict_inv E i mv needed s needed' t \<and> (needed' = 0 \<or> exhausted t i))"
proof -
  have "evict_inv E i mv needed s needed s" using assms(2) by (simp add: evict_inv_def)
  then show ?thesis
    using assms unfolding evict_from_def
    by (auto intro!: wp_loop [where I = "\<lambda>(d, n) t. evict_inv E i mv needed s n t" and m = "\<lambda>_ t. cur_watermark i t"]
        wp_conseq [OF wp_evict_step [OF assms(1)]] simp: cur_watermark_def split: sum.splits option.splits)
qed

lemma evict_other:
  assumes "vsteps E (evict_page E i mv) (evict_field i) s t" "w \<noteq> i"
  shows "vheap t w = vheap s w"
  using assms(1)
proof (induction rule: vsteps_induct)
  case refl
  then show ?case by simp
next
  case (step t t')
  from step(2) show ?case
    by cases (use step(3) assms(2) in \<open>auto simp: quiet_def evict_page_def evict_field_def\<close>)
qed

text \<open>The VBARs a reclaim leaves out, and the changes it may make to the others.\<close>

definition left_out :: "'z vstate_scheme \<Rightarrow> nat option \<Rightarrow> bool \<Rightarrow> nat \<Rightarrow> bool" where
  "left_out s preserved allow u \<longleftrightarrow>
     Some u = preserved \<or> (\<exists>mv. vheap s u = Some mv \<and> \<not> allow \<and> pageout_callback mv)"

definition reclaim_page :: "env \<Rightarrow> 'z vstate_scheme \<Rightarrow> nat option \<Rightarrow> bool \<Rightarrow> page_rel" where
  "reclaim_page E s preserved allow = (\<lambda>w j rp rp'. rp' = rp \<or> \<not> left_out s preserved allow w \<and>
     (\<exists>mv. vheap s w = Some mv \<and> watermark_limit mv \<le> j \<and> j < watermark mv) \<and> reclaimed E rp rp')"

definition reclaim_field :: "'z vstate_scheme \<Rightarrow> nat option \<Rightarrow> bool \<Rightarrow> field_rel" where
  "reclaim_field s preserved allow = (\<lambda>w mv mv'. \<not> left_out s preserved allow w \<and> lowered mv mv')"

text \<open>A VBAR changes only when every one below it that is not left out is at its limit.\<close>

definition lowest_first :: "'z vstate_scheme \<Rightarrow> nat option \<Rightarrow> bool \<Rightarrow> 'z vstate_scheme \<Rightarrow> bool" where
  "lowest_first s preserved allow t \<longleftrightarrow> (\<forall>pre w post. vorder s = pre @ w # post \<longrightarrow> vheap t w \<noteq> vheap s w \<longrightarrow>
     (\<forall>u \<in> set pre. left_out s preserved allow u \<or> exhausted t u))"

definition reclaim_steps ::
  "env \<Rightarrow> nat option \<Rightarrow> bool \<Rightarrow> 'z vstate_scheme \<Rightarrow> 'z vstate_scheme \<Rightarrow> bool" where
  "reclaim_steps E preserved allow s t \<longleftrightarrow>
     vsteps E (reclaim_page E s preserved allow) (reclaim_field s preserved allow) s t \<and>
     vbar_lock_depth t = vbar_lock_depth s"

definition reclaim_inv ::
  "env \<Rightarrow> nat option \<Rightarrow> bool \<Rightarrow> nat \<Rightarrow> 'z vstate_scheme \<Rightarrow> nat list \<Rightarrow> nat \<Rightarrow> 'z vstate_scheme \<Rightarrow> bool" where
  "reclaim_inv E preserved allow needed s xs needed' t \<longleftrightarrow> (\<exists>pre. vorder s = pre @ xs \<and>
     reclaim_steps E preserved allow s t \<and> needed' \<le> needed \<and>
     total_vram_usage t = total_vram_usage s - of_nat (needed - needed') * VBAR_PAGE_SIZE \<and>
     (\<forall>u \<in> set xs. vheap t u = vheap s u) \<and>
     (0 < needed' \<longrightarrow> (\<forall>u \<in> set pre. left_out s preserved allow u \<or> exhausted t u)) \<and>
     lowest_first s preserved allow t)"

lemma reclaim_inv_next:
  assumes "reclaim_inv E preserved allow needed s (x # xs) needed' t"
    "needed' = 0 \<or> left_out s preserved allow x"
  shows "reclaim_inv E preserved allow needed s xs needed' t"
  using assms unfolding reclaim_inv_def by (auto intro: exI [of _ "_ @ [x]"])

lemma evict_reclaim_steps:
  assumes "reclaim_steps E preserved allow s t" "vheap s x = Some mv" "\<not> left_out s preserved allow x"
    "vsteps E (evict_page E x mv) (evict_field x) t t'" "vbar_lock_depth t' = vbar_lock_depth t"
  shows "reclaim_steps E preserved allow s t'"
proof -
  have "vsteps E (reclaim_page E s preserved allow) (reclaim_field s preserved allow) t t'"
    by (rule vsteps_mono [OF assms(4)]) (use assms(2,3) in
      \<open>auto simp: evict_page_def evict_field_def reclaim_page_def reclaim_field_def\<close>)
  then show ?thesis using assms(1,5) by (auto simp: reclaim_steps_def intro: vsteps_trans)
qed

lemma reclaim_inv_evict:
  assumes "vinv E s" "reclaim_inv E preserved allow needed s (x # xs) n t" "0 < n"
    "vheap s x = Some mv" "\<not> left_out s preserved allow x"
    "evict_inv E x mv n t n' t'" "n' = 0 \<or> exhausted t' x"
  shows "reclaim_inv E preserved allow needed s xs n' t'"
proof -
  from assms(2) obtain pre where pre: "vorder s = pre @ x # xs" "reclaim_steps E preserved allow s t" "n \<le> needed"
     "total_vram_usage t = total_vram_usage s - of_nat (needed - n) * VBAR_PAGE_SIZE"
     "\<forall>u \<in> set (x # xs). vheap t u = vheap s u"
     "\<forall>u \<in> set pre. left_out s preserved allow u \<or> exhausted t u" "lowest_first s preserved allow t"
    using assms(3) by (auto simp: reclaim_inv_def)
  from assms(6) have ev: "vsteps E (evict_page E x mv) (evict_field x) t t'" "vbar_lock_depth t' = vbar_lock_depth t"
     "n' \<le> n" "total_vram_usage t' = total_vram_usage t - of_nat (n - n') * VBAR_PAGE_SIZE"
    by (auto simp: evict_inv_def)
  have d: "distinct (pre @ x # xs)" using assms(1) pre(1) by (simp add: vinv_def)
  have other: "vheap t' u = vheap t u" if "u \<noteq> x" for u by (rule evict_other [OF ev(1) that])
  have ex: "exhausted t' u = exhausted t u" if "u \<noteq> x" for u
    using other [OF that] by (simp add: exhausted_def)
  have below: "\<forall>u \<in> set pre. left_out s preserved allow u \<or> exhausted t' u"
  proof
    fix u assume u: "u \<in> set pre"
    then have "u \<noteq> x" using d by auto
    then show "left_out s preserved allow u \<or> exhausted t' u" using u pre(6) ex by simp
  qed
  have "total_vram_usage t' = total_vram_usage s - of_nat (needed - n') * VBAR_PAGE_SIZE"
    using ev(3,4) pre(3,4) by (simp add: algebra_simps)
  moreover have "lowest_first s preserved allow t'"
    unfolding lowest_first_def
  proof (intro allI impI)
    fix p w q assume w: "vorder s = p @ w # q" "vheap t' w \<noteq> vheap s w"
    show "\<forall>u \<in> set p. left_out s preserved allow u \<or> exhausted t' u"
    proof (cases "w = x")
      case True
      have "x \<notin> set pre" "x \<notin> set xs" using d by auto
      then have "p = pre" using True w(1) pre(1) append_Cons_eq_iff [of x pre xs p q] by simp
      then show ?thesis using below by simp
    next
      case False
      then have ch: "vheap t w \<noteq> vheap s w" using w(2) other by simp
      then have "w \<in> set pre" using pre(1,5) w(1) by (metis Un_iff in_set_conv_decomp set_append)
      then have "x \<notin> set p"
        using w(1) pre(1) d by (auto simp: append_eq_append_conv2 append_eq_Cons_conv Cons_eq_append_conv)
      then show ?thesis
        using pre(7) w(1) ch other unfolding lowest_first_def exhausted_def by metis
    qed
  qed
  moreover have "\<forall>u \<in> set (pre @ [x]). left_out s preserved allow u \<or> exhausted t' u" if "0 < n'"
    using that below assms(7) by auto
  moreover have "\<forall>u \<in> set xs. vheap t' u = vheap s u"
  proof
    fix u assume u: "u \<in> set xs"
    then have "u \<noteq> x" using d by auto
    then show "vheap t' u = vheap s u" using u pre(5) other by simp
  qed
  ultimately show ?thesis
    using pre(1,3) ev(3) evict_reclaim_steps [OF pre(2) assms(4,5) ev(1,2)]
    unfolding reclaim_inv_def by (intro exI [of _ "pre @ [x]"]) auto
qed

text \<open>
  The whole reclaim. It always returns; when it answers yes, either the bytes asked for are
  free, or every VBAR it may touch is at its limit.
\<close>

lemma reclaim_steps_quiet_left:
  assumes "quiet s t" "vbar_lock_depth u = vbar_lock_depth t"
    "vsteps E (reclaim_page E t p a) (reclaim_field t p a) t u"
  shows "vsteps E (reclaim_page E s p a) (reclaim_field s p a) s u"
  using assms quiet_fields(1) [OF assms(1)]
  by (auto intro: vsteps_quiet_left simp: reclaim_page_def reclaim_field_def left_out_def)

lemma wp_reclaim_loop:
  assumes "vinv E s"
  shows "wp (foreach (\<lambda>i (dirty, pages_needed) s. do {
           mv \<leftarrow> vheap s i;
           if pages_needed = 0 \<or> Some i = preserved \<or> \<not> allow \<and> pageout_callback mv
           then Some (Inl (dirty, pages_needed), s)
           else do {
             (r, s) \<leftarrow> evict_from E sync i (dirty, pages_needed) s;
             case r of None \<Rightarrow> Some (Inr (), s) | Some a \<Rightarrow> Some (Inl a, s) } })
         (vorder s) (d, needed) s)
     (\<lambda>r t. reclaim_steps E preserved allow s t \<and>
        (case r of Inl (d', needed') \<Rightarrow> reclaim_inv E preserved allow needed s [] needed' t | Inr u \<Rightarrow> True))"
proof (rule wp_foreach [where I = "\<lambda>xs (d, n) t. reclaim_inv E preserved allow needed s xs n t"], goal_cases)
  case 1
  show ?case
    by (auto simp: reclaim_inv_def reclaim_steps_def lowest_first_def)
next
  case (2 x xs a t)
  obtain dn n where a: "a = (dn, n)" by (cases a)
  have inv: "reclaim_inv E preserved allow needed s (x # xs) n t" using 2 a by simp
  then have st: "reclaim_steps E preserved allow s t" and same: "vheap t x = vheap s x" and "x \<in> set (vorder s)"
    by (auto simp: reclaim_inv_def)
  then obtain mv where mv: "vheap s x = Some mv" using vinv_order [OF assms] by blast
  have vt: "vinv E t" using st by (auto simp: reclaim_steps_def intro: vinv_vsteps [OF _ assms])
  show ?case
  proof (cases "n = 0 \<or> left_out s preserved allow x")
    case True
    then show ?thesis
      using reclaim_inv_next [OF inv True] mv same a by (auto simp: left_out_def)
  next
    case False
    have next': "reclaim_inv E preserved allow needed s xs n' t'"
      if "evict_inv E x mv n t n' t'" "n' = 0 \<or> exhausted t' x" for n' t'
      using reclaim_inv_evict [OF assms inv _ mv _ that] False by simp
    have failed: "reclaim_steps E preserved allow s t'"
      if "vsteps E (evict_page E x mv) (evict_field x) t t'" "vbar_lock_depth t' = vbar_lock_depth t" for t'
      using evict_reclaim_steps [OF st mv _ that] False by simp
    show ?thesis
      using False mv same a next' failed
      by (auto simp: left_out_def intro!: wp_conseq [OF wp_evict_from [OF vt]] split: option.splits)
  qed
next
  case (3 a t)
  then show ?case by (cases a) (auto simp: reclaim_inv_def)
qed

definition reclaim_result ::
  "env \<Rightarrow> nat option \<Rightarrow> bool \<Rightarrow> nat \<Rightarrow> bool \<Rightarrow> 'z vstate_scheme \<Rightarrow> 'z vstate_scheme \<Rightarrow> bool" where
  "reclaim_result E preserved allow needed r s t \<longleftrightarrow>
     reclaim_steps E preserved allow s t \<and>
     (r \<longrightarrow> lowest_first s preserved allow t \<and>
       (\<exists>freed \<le> needed. total_vram_usage t = total_vram_usage s - of_nat freed * VBAR_PAGE_SIZE \<and>
         (freed = needed \<or> (\<forall>u \<in> set (vorder s). left_out s preserved allow u \<or> exhausted t u))))"

lemma reclaim_result_same: "reclaim_result E p a 0 r s s"
  by (auto simp: reclaim_result_def reclaim_steps_def lowest_first_def)

lemma wp_vbars_free_internal:
  assumes "vinv E s" "graph_ok s"
  shows "wp (vbars_free_internal E bytes preserved allow s)
    (\<lambda>r t. reclaim_result E preserved allow
       (if bytes \<le> 0 then 0 else VBAR_GET_PAGE_NR_UP (word_of_int bytes)) r s t)"
proof (cases "bytes \<le> 0")
  case True
  then show ?thesis
    using malloc_graph_sync_paused_defined [OF assms(2), of E] reclaim_result_same
    by (auto simp: vbars_free_internal_def)
next
  case False
  obtain paused where paused: "malloc_graph_sync_paused E s = Some paused"
    using malloc_graph_sync_paused_defined [OF assms(2), of E] by blast
  let ?needed = "VBAR_GET_PAGE_NR_UP (word_of_int bytes)"
  define s1 where "s1 = (if winxpu E then s\<lparr>vbar_lock_depth := Suc (vbar_lock_depth s)\<rparr> else s)\<lparr>vbars_dirty := True\<rparr>"
  have q: "quiet s s1" "vheap s1 = vheap s" "vorder s1 = vorder s" "total_vram_usage s1 = total_vram_usage s"
    "vbar_lock_depth s1 = (if winxpu E then Suc (vbar_lock_depth s) else vbar_lock_depth s)"
    by (simp_all add: s1_def)
  have inv: "vinv E s1" by (rule vinv_vsteps [OF vsteps_quiet [OF q(1)] assms(1)])
  have finish: "reclaim_result E preserved allow ?needed r s u"
    if st: "reclaim_steps E preserved allow s1 t"
      and ok: "r \<longrightarrow> (\<exists>n'. reclaim_inv E preserved allow ?needed s1 [] n' t)"
      and u: "quiet t u" "vbar_lock_depth u = vbar_lock_depth s" for r t u
  proof -
    have "vsteps E (reclaim_page E s preserved allow) (reclaim_field s preserved allow) s t"
      using st by (intro reclaim_steps_quiet_left [OF q(1)]) (auto simp: reclaim_steps_def)
    then have "reclaim_steps E preserved allow s u"
      using u by (auto simp: reclaim_steps_def intro: vsteps_quiet_right)
    moreover have "lowest_first s preserved allow u \<and> (\<exists>freed \<le> ?needed.
        total_vram_usage u = total_vram_usage s - of_nat freed * VBAR_PAGE_SIZE \<and>
        (freed = ?needed \<or> (\<forall>w \<in> set (vorder s). left_out s preserved allow w \<or> exhausted u w)))"
      if r
    proof -
      from ok that obtain n' where "reclaim_inv E preserved allow ?needed s1 [] n' t" by blast
      then show ?thesis
        using q quiet_fields(1,2) [OF u(1)] unfolding reclaim_inv_def
        by (intro conjI exI [of _ "?needed - n'"]) (auto simp: lowest_first_def left_out_def exhausted_def)
    qed
    ultimately show ?thesis by (simp add: reclaim_result_def)
  qed
  have depth: "vbar_lock_depth t = (if winxpu E then Suc (vbar_lock_depth s) else vbar_lock_depth s)"
    if "reclaim_steps E preserved allow s1 t" for t
    using that q(5) by (simp add: reclaim_steps_def)
  show ?thesis
    using False paused
    by (simp add: vbars_free_internal_def Let_def flip: s1_def)
      (intro conjI impI; rule wp_conseq [OF wp_reclaim_loop [OF inv, unfolded q(3)]];
       auto split: sum.splits intro!: finish simp: depth quiet_hist)
qed

end
