(* ===== verification/VbarEvict.thy ===== *)
theory VbarEvict
  imports VbarReclaim
begin

text \<open>
  Two-phase eviction on Windows/XPU: freeze candidates under the metadata lock, wait or query
  the queues without it, then commit those that nothing touched in between. The lock is only
  dropped between the phases, so the state a commit starts from is arbitrary: what a commit
  may free is stated for every state, and then for the state the freeze of the same call left.
\<close>

abbreviation VBAR_EVICTION_BATCH_PAGES :: nat where "VBAR_EVICTION_BATCH_PAGES \<equiv> 64"

record eviction_candidate =
  cand_identity :: u64
  cand_page_nr :: nat
  cand_handle :: u64
  cand_serial :: nat
  cand_generation :: u64

subsection \<open>Looking VBARs up by identity\<close>

definition vbar_find_identity_locked :: "u64 \<Rightarrow> 'z vstate_scheme \<Rightarrow> nat option" where
  "vbar_find_identity_locked ident s =
     List.find (\<lambda>v. case vheap s v of None \<Rightarrow> False | Some mv \<Rightarrow> identity mv = ident) (vorder s)"

text \<open>\<open>aimdo_vbar_copy_release\<close> on the context of one device.\<close>

definition copy_release_one :: "u64 \<Rightarrow> 'z vstate_scheme \<Rightarrow> (unit \<times> 'z vstate_scheme) option" where
  "copy_release_one ident s = (case vbar_find_identity_locked ident s of
      None \<Rightarrow> Some ((), s)
    | Some v \<Rightarrow> Some ((), upd_vbar v (\<lambda>mv. if copy_holds mv \<noteq> 0 then mv\<lparr>copy_holds := copy_holds mv - 1\<rparr> else mv) s))"

definition aimdo_vbar_copy_release :: "env \<Rightarrow> u64 list \<Rightarrow> 'z vstate_scheme \<Rightarrow> (unit \<times> 'z vstate_scheme) option" where
  "aimdo_vbar_copy_release E identities s = do {
     (_, s) \<leftarrow> vbar_state_lock E s;
     (_, s) \<leftarrow> each copy_release_one identities s;
     vbar_state_unlock E s }"

text \<open>
  \<open>aimdo_xpu_copy_residency_poll\<close> as the VBARs see it: the copies that completed (their
  identities are the answer) give their holds back.
\<close>

definition copy_residency_poll :: "env \<Rightarrow> bool \<Rightarrow> 'z vstate_scheme \<Rightarrow> (unit \<times> 'z vstate_scheme) option" where
  "copy_residency_poll E wait s = do {
     (r, s) \<leftarrow> ask E (CopyResidencyPoll wait) s;
     aimdo_vbar_copy_release E (r_vals r) s }"

subsection \<open>Freeze\<close>

text \<open>One frozen page: its candidate and the state with the page marked.\<close>

definition freeze_page :: "nat \<Rightarrow> model_vbar \<Rightarrow> nat \<Rightarrow> 'z vstate_scheme \<Rightarrow> eviction_candidate \<times> 'z vstate_scheme" where
  "freeze_page v mv page_nr s =
     (let rp = residency_map mv ! page_nr; g = eviction_generation rp + 1 in
      (\<lparr>cand_identity = identity mv, cand_page_nr = page_nr, cand_handle = handle rp,
        cand_serial = serial rp, cand_generation = g\<rparr>,
       upd_page v page_nr (\<lambda>rp. rp\<lparr>evicting := True, eviction_generation := g\<rparr>) s))"

text \<open>The scan of one VBAR from page \<open>page_nr\<close> down to \<open>lo\<close>, until \<open>lim\<close> candidates are found.\<close>

fun freeze_scan ::
  "(resident_page \<Rightarrow> bool) \<Rightarrow> nat \<Rightarrow> nat \<Rightarrow> nat \<Rightarrow> nat \<Rightarrow> eviction_candidate list \<Rightarrow> 'z vstate_scheme \<Rightarrow>
   (eviction_candidate list \<times> 'z vstate_scheme) option" where
  "freeze_scan eligible v lo lim 0 cs s = Some (cs, s)"
| "freeze_scan eligible v lo lim (Suc page_nr) cs s =
     (if length cs < lim \<and> Suc page_nr > lo then do {
        mv \<leftarrow> vheap s v;
        rp \<leftarrow> at_index (residency_map mv) page_nr;
        if \<not> eligible rp then freeze_scan eligible v lo lim page_nr cs s
        else let (c, s) = freeze_page v mv page_nr s
             in freeze_scan eligible v lo lim page_nr (cs @ [c]) s }
      else Some (cs, s))"

definition retired_eligible :: "env \<Rightarrow> u64 list \<Rightarrow> resident_page \<Rightarrow> bool" where
  "retired_eligible E completed rp \<longleftrightarrow> vbar_page_is_mapped E rp \<and> pin_count rp = 0 \<and>
     \<not> vbar_consumer_held rp \<and> \<not> evicting rp \<and> vbar_retire_complete rp completed"

definition reference_eligible :: "env \<Rightarrow> resident_page \<Rightarrow> bool" where
  "reference_eligible E rp \<longleftrightarrow> vbar_page_is_mapped E rp \<and> pin_count rp = 0 \<and>
     \<not> vbar_consumer_held rp \<and> \<not> evicting rp \<and> \<not> retire_unknown rp"

text \<open>The scan of all VBARs, from the lowest priority up, until the batch is full.\<close>

definition freeze_order ::
  "(nat \<Rightarrow> model_vbar \<Rightarrow> bool) \<Rightarrow> (model_vbar \<Rightarrow> nat) \<Rightarrow> (resident_page \<Rightarrow> bool) \<Rightarrow> nat \<Rightarrow>
   'z vstate_scheme \<Rightarrow> (eviction_candidate list \<times> 'z vstate_scheme) option" where
  "freeze_order skip lo eligible lim s = do {
     (r, s) \<leftarrow> foreach (\<lambda>v cs s. do {
         mv \<leftarrow> vheap s v;
         if \<not> length cs < lim then Some (Inr cs, s)
         else if skip v mv then Some (Inl cs, s)
         else do {
           (cs, s) \<leftarrow> freeze_scan eligible v (lo mv) lim (nr_pages mv) cs s;
           Some (Inl cs, s) } })
       (vorder s) [] s;
     Some (case r of Inl cs \<Rightarrow> cs | Inr cs \<Rightarrow> cs, s) }"

definition vbar_freeze_retired_candidates ::
  "env \<Rightarrow> nat \<Rightarrow> u64 list \<Rightarrow> nat option \<Rightarrow> nat \<Rightarrow> 'z vstate_scheme \<Rightarrow>
   (eviction_candidate list \<times> 'z vstate_scheme) option" where
  "vbar_freeze_retired_candidates E pages_needed completed preserved capacity s = do {
     (locked, s) \<leftarrow> vbar_state_try_lock E s;
     if \<not> locked then Some ([], s)
     else do {
       (cs, s) \<leftarrow> freeze_order
         (\<lambda>v mv. Some v = preserved \<or> copy_holds mv \<noteq> 0 \<or> pageout_callback mv)
         (\<lambda>mv. min (watermark mv) (watermark_limit mv)) (retired_eligible E completed)
         (min capacity pages_needed) (s\<lparr>vbars_dirty := True\<rparr>);
       (_, s) \<leftarrow> vbar_state_unlock E s;
       Some (cs, s) } }"

definition vbar_freeze_reference_candidates ::
  "env \<Rightarrow> nat \<Rightarrow> nat option \<Rightarrow> nat \<Rightarrow> 'z vstate_scheme \<Rightarrow> (eviction_candidate list \<times> 'z vstate_scheme) option" where
  "vbar_freeze_reference_candidates E pages_needed preserved capacity s = do {
     (_, s) \<leftarrow> vbar_state_lock E s;
     (cs, s) \<leftarrow> freeze_order (\<lambda>v mv. Some v = preserved) watermark_limit (reference_eligible E)
       (min capacity pages_needed) (s\<lparr>vbars_dirty := True\<rparr>);
     (_, s) \<leftarrow> vbar_state_unlock E s;
     Some (cs, s) }"

definition vbar_freeze_model_candidates ::
  "env \<Rightarrow> u64 \<Rightarrow> nat \<Rightarrow> nat \<Rightarrow> nat \<Rightarrow> nat \<Rightarrow> 'z vstate_scheme \<Rightarrow>
   (eviction_candidate list \<times> 'z vstate_scheme) option" where
  "vbar_freeze_model_candidates E ident lo hi pages_needed capacity s = do {
     (_, s) \<leftarrow> vbar_state_lock E s;
     (cs, s) \<leftarrow> (case vbar_find_identity_locked ident s of
         None \<Rightarrow> Some ([], s)
       | Some v \<Rightarrow> do {
           mv \<leftarrow> vheap s v;
           if closing mv then Some ([], s)
           else freeze_scan (reference_eligible E) v lo (min capacity pages_needed) (min hi (nr_pages mv)) [] s });
     (_, s) \<leftarrow> vbar_state_unlock E s;
     Some (cs, s) }"

subsection \<open>Cancel and commit\<close>

definition cancel_candidate :: "eviction_candidate \<Rightarrow> 'z vstate_scheme \<Rightarrow> (unit \<times> 'z vstate_scheme) option" where
  "cancel_candidate c s = (case vbar_find_identity_locked (cand_identity c) s of
      None \<Rightarrow> Some ((), s)
    | Some v \<Rightarrow> do {
        mv \<leftarrow> vheap s v;
        if cand_page_nr c \<ge> nr_pages mv then Some ((), s)
        else do {
          rp \<leftarrow> at_index (residency_map mv) (cand_page_nr c);
          Some ((), if evicting rp \<and> eviction_generation rp = cand_generation c
                    then upd_page v (cand_page_nr c) vbar_page_cancel_eviction s else s) } })"

definition vbar_cancel_candidates ::
  "env \<Rightarrow> eviction_candidate list \<Rightarrow> 'z vstate_scheme \<Rightarrow> (unit \<times> 'z vstate_scheme) option" where
  "vbar_cancel_candidates E cs s = do {
     (_, s) \<leftarrow> vbar_state_lock E s;
     (_, s) \<leftarrow> each cancel_candidate cs s;
     vbar_state_unlock E s }"

text \<open>A page a commit leaves alone: something changed since it was frozen.\<close>

definition stale :: "env \<Rightarrow> eviction_candidate \<Rightarrow> model_vbar \<Rightarrow> resident_page \<Rightarrow> bool" where
  "stale E c mv rp \<longleftrightarrow> copy_holds mv \<noteq> 0 \<or> \<not> evicting rp \<or> pin_count rp \<noteq> 0 \<or> vbar_consumer_held rp \<or>
     \<not> vbar_page_is_mapped E rp \<or> handle rp \<noteq> cand_handle c \<or> serial rp \<noteq> cand_serial c \<or>
     eviction_generation rp \<noteq> cand_generation c"

definition commit_candidate ::
  "env \<Rightarrow> eviction_candidate \<Rightarrow> nat \<Rightarrow> 'z vstate_scheme \<Rightarrow> ((nat + unit) \<times> 'z vstate_scheme) option" where
  "commit_candidate E c freed s = (case vbar_find_identity_locked (cand_identity c) s of
      None \<Rightarrow> Some (Inl freed, s)
    | Some v \<Rightarrow> do {
        mv \<leftarrow> vheap s v;
        if cand_page_nr c \<ge> nr_pages mv then Some (Inl freed, s)
        else do {
          rp \<leftarrow> at_index (residency_map mv) (cand_page_nr c);
          if stale E c mv rp then
            Some (Inl freed, if evicting rp \<and> eviction_generation rp = cand_generation c
                             then upd_page v (cand_page_nr c) vbar_page_cancel_eviction s else s)
          else do {
            let s = upd_page v (cand_page_nr c) (\<lambda>rp. rp\<lparr>evicting := False\<rparr>) s;
            (r, s) \<leftarrow> mod1 E v (cand_page_nr c) True False s;
            Some (Inl (if r > 0 then Suc freed else freed), s) } } })"

definition vbar_commit_candidates ::
  "env \<Rightarrow> eviction_candidate list \<Rightarrow> 'z vstate_scheme \<Rightarrow> (nat \<times> 'z vstate_scheme) option" where
  "vbar_commit_candidates E cs s = do {
     (_, s) \<leftarrow> vbar_state_lock E s;
     (r, s) \<leftarrow> foreach (commit_candidate E) cs 0 s;
     (_, s) \<leftarrow> vbar_state_unlock E s;
     Some (case r of Inl freed \<Rightarrow> freed | Inr _ \<Rightarrow> 0, s) }"

subsection \<open>The reclaim loops\<close>

text \<open>One round: the pages still needed, \<open>Inr\<close> when the loop ends.\<close>

definition synchronized_round ::
  "env \<Rightarrow> (nat \<Rightarrow> 'z vstate_scheme \<Rightarrow> (eviction_candidate list \<times> 'z vstate_scheme) option) \<Rightarrow>
   nat \<Rightarrow> 'z vstate_scheme \<Rightarrow> ((nat + nat) \<times> 'z vstate_scheme) option" where
  "synchronized_round E freeze pages_needed s =
     (if pages_needed = 0 then Some (Inr 0, s)
      else do {
        (cs, s) \<leftarrow> freeze pages_needed s;
        if cs = [] then Some (Inr pages_needed, s)
        else do {
          (ok, s) \<leftarrow> check_cu E CtxSynchronize s;
          if \<not> ok then do { (_, s) \<leftarrow> vbar_cancel_candidates E cs s; Some (Inr pages_needed, s) }
          else do {
            (freed, s) \<leftarrow> vbar_commit_candidates E cs s;
            if freed = 0 then Some (Inr pages_needed, s)
            else Some (Inl (pages_needed - freed), s) } } })"

definition vbars_free_synchronized_except ::
  "env \<Rightarrow> int \<Rightarrow> nat option \<Rightarrow> 'z vstate_scheme \<Rightarrow> (nat \<times> 'z vstate_scheme) option" where
  "vbars_free_synchronized_except E bytes preserved s =
     (if bytes \<le> 0 then Some (0, s)
      else let pages_needed = VBAR_GET_PAGE_NR_UP (word_of_int bytes) in
        loop (Suc pages_needed)
          (synchronized_round E (\<lambda>n. vbar_freeze_reference_candidates E n preserved VBAR_EVICTION_BATCH_PAGES))
          pages_needed s)"

definition vbar_free_model_range_synchronized ::
  "env \<Rightarrow> u64 \<Rightarrow> nat \<Rightarrow> nat \<Rightarrow> nat \<Rightarrow> 'z vstate_scheme \<Rightarrow> (nat \<times> 'z vstate_scheme) option" where
  "vbar_free_model_range_synchronized E ident lo hi pages_needed s = do {
     (left, s) \<leftarrow> loop (Suc pages_needed)
       (synchronized_round E (\<lambda>n. vbar_freeze_model_candidates E ident lo hi n VBAR_EVICTION_BATCH_PAGES))
       pages_needed s;
     Some (pages_needed - left, s) }"

text \<open>The queues' completed stamps, at most one per queue slot.\<close>

definition retire_snapshot :: "env \<Rightarrow> 'z base_scheme \<Rightarrow> (u64 list \<times> 'z base_scheme) option" where
  "retire_snapshot E s = do {
     (r, s) \<leftarrow> ask E RetireSnapshot s;
     Some (take RETIRE_MAX_QUEUES (r_vals r), s) }"

definition retired_round ::
  "env \<Rightarrow> (nat \<Rightarrow> 'z vstate_scheme \<Rightarrow> (eviction_candidate list \<times> 'z vstate_scheme) option) \<Rightarrow>
   nat \<Rightarrow> 'z vstate_scheme \<Rightarrow> ((nat + nat) \<times> 'z vstate_scheme) option" where
  "retired_round E freeze pages_needed s =
     (if pages_needed = 0 then Some (Inr 0, s)
      else do {
        (cs, s) \<leftarrow> freeze pages_needed s;
        if cs = [] then Some (Inr pages_needed, s)
        else do {
          (freed, s) \<leftarrow> vbar_commit_candidates E cs s;
          if freed = 0 then Some (Inr pages_needed, s)
          else Some (Inl (pages_needed - freed), s) } })"

definition vbars_free_retired_except ::
  "env \<Rightarrow> int \<Rightarrow> nat option \<Rightarrow> 'z vstate_scheme \<Rightarrow> (nat \<times> 'z vstate_scheme) option" where
  "vbars_free_retired_except E bytes preserved s =
     (if bytes \<le> 0 then Some (0, s)
      else let pages_needed = VBAR_GET_PAGE_NR_UP (word_of_int bytes) in
        if \<not> async_reclaim E then Some (pages_needed, s)
        else do {
          (completed, s) \<leftarrow> retire_snapshot E s;
          loop (Suc pages_needed)
            (retired_round E (\<lambda>n. vbar_freeze_retired_candidates E n completed preserved VBAR_EVICTION_BATCH_PAGES))
            pages_needed s })"

definition vbars_free_retired :: "env \<Rightarrow> int \<Rightarrow> 'z vstate_scheme \<Rightarrow> (nat \<times> 'z vstate_scheme) option" where
  "vbars_free_retired E bytes s = vbars_free_retired_except E bytes None s"

definition flush_round ::
  "env \<Rightarrow> u64 list \<Rightarrow> nat \<Rightarrow> 'z vstate_scheme \<Rightarrow> ((nat + nat) \<times> 'z vstate_scheme) option" where
  "flush_round E completed freed_total s = do {
     (cs, s) \<leftarrow> vbar_freeze_retired_candidates E VBAR_EVICTION_BATCH_PAGES completed None
                 VBAR_EVICTION_BATCH_PAGES s;
     if cs = [] then Some (Inr freed_total, s)
     else do {
       (freed, s) \<leftarrow> vbar_commit_candidates E cs s;
       if freed = 0 then Some (Inr freed_total, s)
       else Some (Inl (freed_total + freed), s) } }"

text \<open>\<open>for (;;)\<close>: every round but the last frees a page, so \<open>owned_pages\<close> bounds the rounds.\<close>

definition vbars_free_all_retired :: "env \<Rightarrow> 'z vstate_scheme \<Rightarrow> (nat \<times> 'z vstate_scheme) option" where
  "vbars_free_all_retired E s =
     (if \<not> async_reclaim E then Some (0, s)
      else do {
        (_, s) \<leftarrow> copy_residency_poll E False s;
        (completed, s) \<leftarrow> retire_snapshot E s;
        loop (Suc (owned_pages s)) (flush_round E completed) 0 s })"

definition vbars_reclaim_at_owner_boundary :: "env \<Rightarrow> int \<Rightarrow> 'z vstate_scheme \<Rightarrow> (nat \<times> 'z vstate_scheme) option" where
  "vbars_reclaim_at_owner_boundary E live_deficit s =
     (if \<not> async_reclaim E then
        Some (if live_deficit > 0 then VBAR_GET_PAGE_NR_UP (word_of_int live_deficit) else 0, s)
      else
        let (requested, s) = vbars_take_reclaim_request s in
        vbars_free_retired E (if requested > live_deficit then requested else live_deficit) s)"

subsection \<open>What eviction may do to a page\<close>

text \<open>
  \<open>marked\<close>: only the eviction mark and generation differ. \<open>gone E J\<close>: marked, or a mapped page
  that nobody pins or holds and that \<open>J\<close> justifies gave up its mapping.
\<close>

definition marked :: "resident_page \<Rightarrow> resident_page \<Rightarrow> bool" where
  "marked rp rp' \<longleftrightarrow> rp' = rp\<lparr>evicting := evicting rp', eviction_generation := eviction_generation rp'\<rparr>"

definition lost :: "resident_page \<Rightarrow> resident_page \<Rightarrow> bool" where
  "lost rp rp' \<longleftrightarrow> same_meta rp rp' \<and> (owned rp' \<longrightarrow> handle rp' = handle rp) \<and>
     (retire_tokens rp' = retire_tokens rp \<or> retire_tokens rp' = [])"

definition gone :: "env \<Rightarrow> (nat \<Rightarrow> nat \<Rightarrow> resident_page \<Rightarrow> bool) \<Rightarrow> page_rel" where
  "gone E J = (\<lambda>v i rp rp'. marked rp rp' \<or>
     vbar_page_is_mapped E rp \<and> pin_count rp = 0 \<and> \<not> vbar_consumer_held rp \<and> \<not> retire_unknown rp \<and>
     J v i rp \<and> lost rp rp')"

definition no_field :: field_rel where
  "no_field = (\<lambda>v mv mv'. False)"

text \<open>The candidate of a page, with every field the commit compares.\<close>

definition matched :: "'z vstate_scheme \<Rightarrow> eviction_candidate list \<Rightarrow> nat \<Rightarrow> nat \<Rightarrow> resident_page \<Rightarrow> bool" where
  "matched s cs v i rp \<longleftrightarrow> (\<exists>c \<in> set cs. map_option identity (vheap s v) = Some (cand_identity c) \<and>
     cand_page_nr c = i \<and> handle rp = cand_handle c \<and> serial rp = cand_serial c \<and>
     eviction_generation rp = cand_generation c)"

lemma marked_simps [simp]:
  "marked rp rp" "marked rp (vbar_page_cancel_eviction rp)" "marked rp (rp\<lparr>evicting := b\<rparr>)"
  "marked rp (rp\<lparr>evicting := b, eviction_generation := g\<rparr>)"
  by (simp_all add: marked_def vbar_page_cancel_eviction_def)

lemma marked_fields:
  assumes "marked rp rp'"
  shows "handle rp' = handle rp" "pin_count rp' = pin_count rp" "serial rp' = serial rp"
    "retire_tokens rp' = retire_tokens rp" "external_consumer_holds rp' = external_consumer_holds rp"
    "capture_holds rp' = capture_holds rp" "retire_unknown rp' = retire_unknown rp" "mapped rp' = mapped rp"
    "vbar_page_is_mapped E rp' = vbar_page_is_mapped E rp" "owned rp' = owned rp"
    "vbar_consumer_held rp' = vbar_consumer_held rp" "page_ok E rp' = page_ok E rp"
  using assms
  by (cases rp; cases rp'; simp add: marked_def vbar_page_is_mapped_def owned_def vbar_consumer_held_def page_ok_def)+

lemma mod1_lost: "mod1_result E mv True False r rp rp' \<Longrightarrow> rp' = rp \<or> mod1_do_free E mv rp True False \<and> lost rp rp'"
  by (auto simp: mod1_result_def lost_def same_meta_def kept_page_fields freed_page_def vbar_retire_reset_def owned_def
      split: if_splits)

text \<open>Marking is a step of the machine that leaves the device alone.\<close>

lemma mark_step:
  assumes "vheap s v = Some mv" "i < length (residency_map mv)" "marked (residency_map mv ! i) (f (residency_map mv ! i))"
  shows "vsteps E (gone E J) W s (upd_page v i f s)"
proof (rule page_step [OF assms(1,2)])
  show "page_effect v (set_vpage E i (f (residency_map mv ! i)) mv) (total_vram_usage s +
      bytes_if (owned (f (residency_map mv ! i))) - bytes_if (owned (residency_map mv ! i))) s (upd_page v i f s)"
    using assms marked_fields [OF assms(3)] by (simp add: page_effect_def set_vpage_def)
  show "dev_change E (page_vaddr mv i) (residency_map mv ! i) (f (residency_map mv ! i)) (hist s) (hist (upd_page v i f s))"
    using marked_fields [OF assms(3)] by (simp add: dev_change_def)
qed (use assms(3) marked_fields(12) [OF assms(3)] in \<open>auto simp: gone_def\<close>)

lemma vbar_find_identity_Some:
  assumes "vbar_find_identity_locked ident s = Some v"
  shows "\<exists>mv. vheap s v = Some mv \<and> identity mv = ident \<and> v \<in> set (vorder s)"
  using assms by (auto simp: vbar_find_identity_locked_def find_Some_iff split: option.splits)

lemma wp_vbar_state_try_lock [simp]:
  "wp (vbar_state_try_lock E s) Q \<longleftrightarrow>
     (if winxpu E then
        if r_rc (drv E (hist s) (TryLock 0)) \<noteq> 0
        then Q True (s\<lparr>hist := TryLock 0 # hist s, vbar_lock_depth := Suc (vbar_lock_depth s)\<rparr>)
        else Q False (s\<lparr>hist := TryLock 0 # hist s\<rparr>)
      else Q True s)"
  by (simp add: vbar_state_try_lock_def)

subsection \<open>Commit\<close>

lemma wp_commit_candidate:
  assumes "vinv E s" "c \<in> set cs" "\<And>v. map_option identity (vheap s v) = map_option identity (vheap s0 v)"
    "winxpu E"
  shows "wp (commit_candidate E c freed s) (\<lambda>r t. case r of
      Inl freed' \<Rightarrow> vsteps E (gone E (matched s0 cs)) no_field s t \<and> vbar_lock_depth t = vbar_lock_depth s \<and>
        freed \<le> freed' \<and> freed' \<le> Suc freed \<and>
        total_vram_usage t = total_vram_usage s - of_nat (freed' - freed) * VBAR_PAGE_SIZE
    | Inr u \<Rightarrow> False)"
proof (cases "vbar_find_identity_locked (cand_identity c) s")
  case None
  then show ?thesis by (simp add: commit_candidate_def)
next
  case (Some v)
  then obtain mv where mv: "vheap s v = Some mv" "identity mv = cand_identity c"
    using vbar_find_identity_Some by blast
  have ok: "vbar_ok E mv" using assms(1) mv by (simp add: vinv_def)
  let ?i = "cand_page_nr c" and ?rp = "residency_map mv ! cand_page_nr c"
  show ?thesis
  proof (cases "?i < nr_pages mv \<and> \<not> stale E c mv ?rp")
    case False
    then show ?thesis
      using Some mv ok mark_step [OF mv(1), of ?i vbar_page_cancel_eviction]
      by (auto simp: commit_candidate_def vbar_ok_def)
  next
    case go: True
    then have len: "?i < length (residency_map mv)" using ok by (simp add: vbar_ok_def)
    let ?s1 = "upd_page v ?i (\<lambda>rp. rp\<lparr>evicting := False\<rparr>) s"
    have st1: "vsteps E (gone E (matched s0 cs)) no_field s ?s1" by (rule mark_step [OF mv(1) len]) simp
    let ?mv1 = "mv\<lparr>residency_map := (residency_map mv)[?i := ?rp\<lparr>evicting := False\<rparr>]\<rparr>"
    have mv1: "vheap ?s1 v = Some ?mv1" using mv by simp
    have ok1: "vbar_ok E ?mv1" by (rule vinv_vbar [OF vinv_vsteps [OF st1 assms(1)] mv1])
    have m: "matched s0 cs v ?i (?rp\<lparr>evicting := False\<rparr>)"
    proof -
      have "map_option identity (vheap s0 v) = Some (cand_identity c)" using assms(3) [of v] mv by simp
      then show ?thesis using assms(2) go unfolding matched_def stale_def by (intro bexI [of _ c]) auto
    qed
    have fin: "vsteps E (gone E (matched s0 cs)) no_field s t \<and> vbar_lock_depth t = vbar_lock_depth s \<and>
        total_vram_usage t = total_vram_usage s - of_nat (nat r) * VBAR_PAGE_SIZE \<and> r \<in> {- 1, 0, 1}"
      if c: "page_change E v ?i ?mv1 rp' ?s1 t" and r: "mod1_result E ?mv1 True False r (?rp\<lparr>evicting := False\<rparr>) rp'"
      for r rp' t
    proof -
      have "gone E (matched s0 cs) v ?i (residency_map ?mv1 ! ?i) rp'"
        using mod1_lost [OF r] m go len assms(4) by (auto simp: gone_def stale_def mod1_do_free_def vbar_consumer_held_def split: if_splits)
      then have "vsteps E (gone E (matched s0 cs)) no_field ?s1 t"
        using mod1_page_ok [OF r] mv1 len by (intro page_change_vsteps [OF c]) auto
      moreover have "total_vram_usage t = total_vram_usage s + (bytes_if (owned rp') - bytes_if (owned (?rp\<lparr>evicting := False\<rparr>)))"
        using c len by (simp add: page_change_def page_effect_def)
      ultimately show ?thesis
        using c st1 mod1_freed_bytes [OF r] by (auto simp: page_change_def page_effect_def intro: vsteps_trans)
    qed
    have "wp (mod1 E v ?i True False ?s1) (\<lambda>r t. \<exists>rp'. page_change E v ?i ?mv1 rp' ?s1 t \<and>
        mod1_result E ?mv1 True False r (?rp\<lparr>evicting := False\<rparr>) rp')"
      using wp_mod1 [OF mv1 ok1, of ?i "?rp\<lparr>evicting := False\<rparr>" True False] go len by simp
    then have "wp (mod1 E v ?i True False ?s1) (\<lambda>r t. vsteps E (gone E (matched s0 cs)) no_field s t \<and>
        vbar_lock_depth t = vbar_lock_depth s \<and>
        total_vram_usage t = total_vram_usage s - of_nat (nat r) * VBAR_PAGE_SIZE \<and> r \<in> {- 1, 0, 1})"
      by (rule wp_conseq) (use fin in blast)
    then show ?thesis
      using Some mv go len by (auto simp: commit_candidate_def elim!: wp_conseq)
  qed
qed

lemma vsteps_identity: "vsteps E P W s t \<Longrightarrow> map_option identity (vheap t v) = map_option identity (vheap s v)"
  by (induction rule: vsteps_induct) (simp_all add: vstep_identity)

text \<open>
  A commit, from any state: it frees only pages that still match their candidate in every
  field, and it frees \<open>freed\<close> of them.
\<close>

lemma wp_vbar_commit_candidates:
  assumes "vinv E s" "winxpu E"
  shows "wp (vbar_commit_candidates E cs s) (\<lambda>freed t.
    vsteps E (gone E (matched s cs)) no_field s t \<and> vbar_lock_depth t = vbar_lock_depth s \<and>
    freed \<le> length cs \<and> total_vram_usage t = total_vram_usage s - of_nat freed * VBAR_PAGE_SIZE)"
proof -
  let ?s1 = "s\<lparr>vbar_lock_depth := Suc (vbar_lock_depth s)\<rparr>"
  have inv1: "vinv E ?s1" by (rule vinv_vsteps [OF vsteps_quiet assms(1)]) simp
  have same: "vsteps E (gone E (matched s cs)) no_field ?s1 t \<Longrightarrow> vsteps E (gone E (matched s cs)) no_field s t" for t
    by simp
  have "wp (foreach (commit_candidate E) cs 0 ?s1) (\<lambda>r t. \<exists>freed. r = Inl freed \<and>
      vsteps E (gone E (matched s cs)) no_field ?s1 t \<and> vbar_lock_depth t = vbar_lock_depth ?s1 \<and>
      freed \<le> length cs \<and> total_vram_usage t = total_vram_usage s - of_nat freed * VBAR_PAGE_SIZE)"
  proof (rule wp_foreach [where I = "\<lambda>xs freed t. set xs \<subseteq> set cs \<and> freed + length xs \<le> length cs \<and>
      vsteps E (gone E (matched s cs)) no_field ?s1 t \<and> vbar_lock_depth t = vbar_lock_depth ?s1 \<and>
      total_vram_usage t = total_vram_usage s - of_nat freed * VBAR_PAGE_SIZE"], goal_cases)
    case (2 x xs freed t)
    then have st: "vsteps E (gone E (matched s cs)) no_field ?s1 t" by simp
    have id: "map_option identity (vheap t v) = map_option identity (vheap s v)" for v
      using vsteps_identity [OF st] by simp
    show ?case
    proof (rule wp_conseq [OF wp_commit_candidate [OF vinv_vsteps [OF st inv1] _ id assms(2), of x cs freed]], goal_cases)
      case 1
      then show ?case using 2 by simp
    next
      case r: (2 r u)
      then obtain f where f: "r = Inl f" by (cases r) auto
      with r have "freed \<le> f" "f \<le> Suc freed"
        "total_vram_usage u = total_vram_usage t - of_nat (f - freed) * VBAR_PAGE_SIZE" by auto
      then have "total_vram_usage u = total_vram_usage s - of_nat f * VBAR_PAGE_SIZE"
        using 2 by (simp add: algebra_simps)
      then show ?case using r f 2 by (auto intro: vsteps_trans)
    qed
  qed auto
  then show ?thesis
    using assms(2) by (auto simp: vbar_commit_candidates_def elim!: wp_conseq split: sum.splits)
qed

text \<open>With candidates that \<open>J\<close> justifies, what is freed is justified.\<close>

definition cands_just ::
  "(nat \<Rightarrow> nat \<Rightarrow> resident_page \<Rightarrow> bool) \<Rightarrow> 'z vstate_scheme \<Rightarrow> eviction_candidate list \<Rightarrow> bool" where
  "cands_just J s cs \<longleftrightarrow> (\<forall>c \<in> set cs. \<forall>v mv. vheap s v = Some mv \<longrightarrow> identity mv = cand_identity c \<longrightarrow>
     cand_page_nr c < length (residency_map mv) \<longrightarrow> J v (cand_page_nr c) (residency_map mv ! cand_page_nr c))"

text \<open>What evicting other pages cannot undo.\<close>

definition kept_by_eviction :: "(nat \<Rightarrow> nat \<Rightarrow> resident_page \<Rightarrow> bool) \<Rightarrow> bool" where
  "kept_by_eviction J \<longleftrightarrow> (\<forall>v i rp rp'. J v i rp \<longrightarrow>
     retire_tokens rp' = retire_tokens rp \<or> retire_tokens rp' = [] \<longrightarrow> J v i rp')"

lemma gone_keeps: "gone E J' v i rp rp' \<Longrightarrow> kept_by_eviction J \<Longrightarrow> J v i rp \<Longrightarrow> J v i rp'"
proof -
  assume a: "gone E J' v i rp rp'" "kept_by_eviction J" "J v i rp"
  have "retire_tokens rp' = retire_tokens rp \<or> retire_tokens rp' = []"
    using a(1) marked_fields(4) [of rp rp'] unfolding gone_def lost_def by blast
  then show "J v i rp'" using a(2,3) unfolding kept_by_eviction_def by blast
qed

lemma wp_commit_justified:
  assumes "vinv E s" "winxpu E" "cands_just J s cs" "kept_by_eviction J"
  shows "wp (vbar_commit_candidates E cs s) (\<lambda>freed t.
    vsteps E (gone E J) no_field s t \<and> vbar_lock_depth t = vbar_lock_depth s \<and>
    freed \<le> length cs \<and> total_vram_usage t = total_vram_usage s - of_nat freed * VBAR_PAGE_SIZE)"
proof (rule wp_conseq [OF wp_vbar_commit_candidates [OF assms(1,2)]])
  fix freed t
  assume a: "vsteps E (gone E (matched s cs)) no_field s t \<and> vbar_lock_depth t = vbar_lock_depth s \<and>
    freed \<le> length cs \<and> total_vram_usage t = total_vram_usage s - of_nat freed * VBAR_PAGE_SIZE"
  let ?K = "\<lambda>v i rp. (\<exists>c \<in> set cs. map_option identity (vheap s v) = Some (cand_identity c) \<and> cand_page_nr c = i) \<longrightarrow> J v i rp"
  have "vsteps E (gone E J) no_field s t"
  proof (rule vsteps_narrow [where K = ?K])
    show "vsteps E (gone E (matched s cs)) no_field s t" using a by simp
    show "?K v i (residency_map mv ! i)" if "vheap s v = Some mv" "i < length (residency_map mv)" for v mv i
      using that assms(3) by (auto simp: cands_just_def)
    show "gone E J v i rp rp' \<and> ?K v i rp'" if g: "gone E (matched s cs) v i rp rp'" and k: "?K v i rp" for v i rp rp'
    proof
      show "gone E J v i rp rp'"
        using g k by (auto simp: gone_def matched_def)
      show "?K v i rp'"
        using k gone_keeps [OF g assms(4)] by blast
    qed
  qed
  then show "vsteps E (gone E J) no_field s t \<and> vbar_lock_depth t = vbar_lock_depth s \<and>
    freed \<le> length cs \<and> total_vram_usage t = total_vram_usage s - of_nat freed * VBAR_PAGE_SIZE"
    using a by blast
qed

subsection \<open>Freeze\<close>

definition policy :: "model_vbar \<Rightarrow> model_vbar" where
  "policy mv = mv\<lparr>residency_map := [], resident_count := 0\<rparr>"

definition same_policy :: "'z vstate_scheme \<Rightarrow> 'z vstate_scheme \<Rightarrow> bool" where
  "same_policy s t \<longleftrightarrow> (\<forall>v. map_option policy (vheap t v) = map_option policy (vheap s v))"

lemma policy_fields:
  assumes "policy mv' = policy mv"
  shows "watermark mv' = watermark mv" "watermark_limit mv' = watermark_limit mv" "nr_pages mv' = nr_pages mv"
    "pageout_callback mv' = pageout_callback mv" "copy_holds mv' = copy_holds mv" "closing mv' = closing mv"
    "identity mv' = identity mv" "vbar mv' = vbar mv" "device mv' = device mv"
  using assms by (cases mv; cases mv'; simp add: policy_def)+

lemma policy_set_vpage [simp]: "policy (set_vpage E i rp mv) = policy mv"
  by (simp add: policy_def set_vpage_def)

lemma same_policyD: "same_policy s t \<Longrightarrow> vheap s v = Some mv \<Longrightarrow> \<exists>mv'. vheap t v = Some mv' \<and> policy mv' = policy mv"
  by (auto simp: same_policy_def dest!: spec [of _ v])

lemma same_policyD2: "same_policy s t \<Longrightarrow> vheap t v = Some mv' \<Longrightarrow> \<exists>mv. vheap s v = Some mv \<and> policy mv = policy mv'"
  by (auto simp: same_policy_def dest!: spec [of _ v] sym [of "Some _"])

lemma same_policy_refl [simp]: "same_policy s s"
  by (simp add: same_policy_def)

lemma same_policy_trans: "same_policy s t \<Longrightarrow> same_policy t u \<Longrightarrow> same_policy s u"
  by (simp add: same_policy_def)

lemma vsteps_policy: "vsteps E P no_field s t \<Longrightarrow> same_policy s t"
proof (induction rule: vsteps_induct)
  case refl
  then show ?case by simp
next
  case (step t t')
  from step(2) have "same_policy t t'"
    by cases (auto simp: quiet_def no_field_def same_policy_def)
  then show ?case using step(3) same_policy_trans by blast
qed

lemma cands_just_vsteps:
  assumes "cands_just J s cs" "vsteps E (gone E J') no_field s t" "kept_by_eviction J"
  shows "cands_just J t cs"
  unfolding cands_just_def
proof (intro ballI allI impI)
  fix c v mt
  assume c: "c \<in> set cs" and mt: "vheap t v = Some mt" "identity mt = cand_identity c"
    and i: "cand_page_nr c < length (residency_map mt)"
  obtain mv where mv: "vheap s v = Some mv"
    using same_policyD2 [OF vsteps_policy [OF assms(2)] mt(1)] by blast
  have "\<exists>mt. vheap t v = Some mt \<and> nr_pages mt = nr_pages mv \<and> vbar mt = vbar mv \<and>
    identity mt = identity mv \<and> device mt = device mv \<and> pageout_size mt = pageout_size mv \<and>
    length (residency_map mt) = length (residency_map mv) \<and>
    (\<forall>i < length (residency_map mv). J v i (residency_map mv ! i) \<longrightarrow> J v i (residency_map mt ! i))"
    by (rule vsteps_pages [OF assms(2) mv]) (auto intro: gone_keeps [OF _ assms(3)])
  then show "J v (cand_page_nr c) (residency_map mt ! cand_page_nr c)"
    using c mt i mv assms(1) by (auto simp: cands_just_def)
qed

definition no_page :: "nat \<Rightarrow> nat \<Rightarrow> resident_page \<Rightarrow> bool" where
  "no_page = (\<lambda>v i rp. False)"

text \<open>What every freeze guarantees.\<close>

definition frozen ::
  "env \<Rightarrow> (nat \<Rightarrow> nat \<Rightarrow> resident_page \<Rightarrow> bool) \<Rightarrow> nat \<Rightarrow> 'z vstate_scheme \<Rightarrow>
   eviction_candidate list \<Rightarrow> 'z vstate_scheme \<Rightarrow> bool" where
  "frozen E J n s cs t \<longleftrightarrow> vsteps E (gone E no_page) no_field s t \<and> vbar_lock_depth t = vbar_lock_depth s \<and>
     cands_just J t cs \<and> length cs \<le> n"

lemma cands_just_Nil [simp]: "cands_just J s []"
  by (simp add: cands_just_def)

lemma vinv_inj:
  assumes "vinv E s" "vheap s v = Some mv" "vheap s w = Some mw" "identity mw = identity mv"
  shows "w = v"
  using assms by (auto simp: vinv_def dest: inj_onD [of _ _ w v])

lemma wp_freeze_scan:
  assumes "vinv E s" "vheap s v = Some mv" "page_nr \<le> nr_pages mv" "cands_just J s cs" "kept_by_eviction J"
    "\<And>i rp. lo \<le> i \<Longrightarrow> i < page_nr \<Longrightarrow> eligible rp \<Longrightarrow> J v i rp" "length cs \<le> lim"
  shows "wp (freeze_scan eligible v lo lim page_nr cs s) (\<lambda>cs' t. frozen E J lim s cs' t)"
  using assms(1-4,6-)
proof (induction page_nr arbitrary: cs s mv)
  case 0
  then show ?case by (simp add: frozen_def)
next
  case (Suc n)
  have len: "length (residency_map mv) = nr_pages mv"
    using vinv_vbar [OF Suc.prems(1,2)] by (simp add: vbar_ok_def)
  show ?case
  proof (cases "length cs < lim \<and> Suc n > lo")
    case False
    then show ?thesis using Suc.prems by (auto simp: frozen_def)
  next
    case go: True
    show ?thesis
    proof (cases "eligible (residency_map mv ! n)")
      case False
      then show ?thesis using Suc.IH [OF Suc.prems(1,2)] Suc.prems go len by auto
    next
      case el: True
      let ?c = "fst (freeze_page v mv n s)" and ?s = "snd (freeze_page v mv n s)"
      let ?rp = "(residency_map mv ! n)\<lparr>evicting := True, eviction_generation := eviction_generation (residency_map mv ! n) + 1\<rparr>"
      let ?mv = "mv\<lparr>residency_map := (residency_map mv)[n := ?rp]\<rparr>"
      have st: "vsteps E (gone E J') no_field s ?s" for J'
        using Suc.prems(2,3) len unfolding freeze_page_def Let_def by (auto intro!: mark_step)
      have mv1: "vheap ?s v = Some ?mv" using Suc.prems(2) by (simp add: freeze_page_def Let_def)
      have inv: "vinv E ?s" by (rule vinv_vsteps [OF st Suc.prems(1)])
      have "J v n (residency_map mv ! n)" using Suc.prems(5) go el by simp
      then have "J v n ?rp" using assms(5) unfolding kept_by_eviction_def by (metis (no_types) marked_fields(4) marked_simps(4))
      have c: "cand_identity ?c = identity ?mv" "cand_page_nr ?c = n" by (simp_all add: freeze_page_def Let_def)
      have "cands_just J ?s [?c]"
        unfolding cands_just_def
      proof (intro ballI allI impI)
        fix d w mw assume d: "d \<in> set [?c]" "vheap ?s w = Some mw" "identity mw = cand_identity d"
        then have "d = ?c" by simp
        then have "w = v" using vinv_inj [OF inv mv1 d(2)] d(3) c(1) by simp
        moreover from this have "mw = ?mv" using d(2) mv1 by simp
        ultimately show "J w (cand_page_nr d) (residency_map mw ! cand_page_nr d)"
          using \<open>J v n ?rp\<close> \<open>d = ?c\<close> c(2) Suc.prems(3) len by simp
      qed
      then have cj: "cands_just J ?s (cs @ [?c])"
        using cands_just_vsteps [OF Suc.prems(4) st assms(5)] by (auto simp: cands_just_def)
      have "wp (freeze_scan eligible v lo lim n (cs @ [?c]) ?s) (\<lambda>cs' t. frozen E J lim ?s cs' t)"
        by (rule Suc.IH [OF inv mv1 _ cj]) (use Suc.prems go in auto)
      moreover have "vbar_lock_depth ?s = vbar_lock_depth s" by (simp add: freeze_page_def Let_def)
      ultimately show ?thesis
        using Suc.prems(2,3) go el len st [of no_page]
        by (auto simp: case_prod_unfold Let_def frozen_def elim!: wp_conseq intro: vsteps_trans)
    qed
  qed
qed

text \<open>The three sources of candidates, and what justifies theirs.\<close>

definition retired_just ::
  "'z vstate_scheme \<Rightarrow> u64 list \<Rightarrow> nat option \<Rightarrow> nat \<Rightarrow> nat \<Rightarrow> resident_page \<Rightarrow> bool" where
  "retired_just s0 completed preserved = (\<lambda>v i rp. Some v \<noteq> preserved \<and>
     (\<exists>mv. vheap s0 v = Some mv \<and> copy_holds mv = 0 \<and> \<not> pageout_callback mv \<and>
        min (watermark mv) (watermark_limit mv) \<le> i) \<and>
     list_all (token_complete completed) (retire_tokens rp))"

definition reference_just :: "'z vstate_scheme \<Rightarrow> nat option \<Rightarrow> nat \<Rightarrow> nat \<Rightarrow> resident_page \<Rightarrow> bool" where
  "reference_just s0 preserved = (\<lambda>v i rp. Some v \<noteq> preserved \<and>
     (\<exists>mv. vheap s0 v = Some mv \<and> watermark_limit mv \<le> i))"

definition model_just :: "'z vstate_scheme \<Rightarrow> u64 \<Rightarrow> nat \<Rightarrow> nat \<Rightarrow> nat \<Rightarrow> nat \<Rightarrow> resident_page \<Rightarrow> bool" where
  "model_just s0 ident lo hi = (\<lambda>v i rp. \<exists>mv. vheap s0 v = Some mv \<and> identity mv = ident \<and>
     \<not> closing mv \<and> lo \<le> i \<and> i < hi)"

lemma kept_by_eviction_just [simp]:
  "kept_by_eviction (retired_just s0 completed preserved)"
  "kept_by_eviction (reference_just s0 preserved)"
  "kept_by_eviction (model_just s0 ident lo hi)"
proof -
  show "kept_by_eviction (retired_just s0 completed preserved)"
    unfolding kept_by_eviction_def retired_just_def by (metis list.pred_inject(1))
qed (auto simp: kept_by_eviction_def reference_just_def model_just_def)

lemma frozen_trans:
  assumes "frozen E J m s cs t" "vsteps E (gone E no_page) no_field r s" "vbar_lock_depth s = vbar_lock_depth r"
  shows "frozen E J m r cs t"
  using assms by (auto simp: frozen_def intro: vsteps_trans)

lemma frozen_mono: "frozen E J m s cs t \<Longrightarrow> m \<le> n \<Longrightarrow> frozen E J n s cs t"
  by (auto simp: frozen_def)

lemma wp_freeze_order:
  assumes "vinv E s" "same_policy s0 s" "kept_by_eviction J"
    "\<And>v mv mv0 i rp. vheap s0 v = Some mv0 \<Longrightarrow> policy mv = policy mv0 \<Longrightarrow> \<not> skip v mv \<Longrightarrow>
       lo mv \<le> i \<Longrightarrow> eligible rp \<Longrightarrow> J v i rp"
  shows "wp (freeze_order skip lo eligible lim s) (\<lambda>cs t. frozen E J lim s cs t)"
proof -
  let ?body = "\<lambda>v cs s. do {
         mv \<leftarrow> vheap s v;
         if \<not> length cs < lim then Some (Inr cs, s)
         else if skip v mv then Some (Inl cs, s)
         else do {
           (cs, s) \<leftarrow> freeze_scan eligible v (lo mv) lim (nr_pages mv) cs s;
           Some (Inl cs, s) } }"
  have "wp (foreach ?body (vorder s) [] s) (\<lambda>r t. frozen E J lim s (case r of Inl cs \<Rightarrow> cs | Inr cs \<Rightarrow> cs) t)"
  proof (rule wp_foreach [where I = "\<lambda>ys cs t. set ys \<subseteq> set (vorder s) \<and> frozen E J lim s cs t"], goal_cases)
    case 1
    show ?case by (simp add: frozen_def)
  next
    case (2 v ys cs t)
    then have fr: "vsteps E (gone E no_page) no_field s t" "vbar_lock_depth t = vbar_lock_depth s"
      "cands_just J t cs" "length cs \<le> lim" and v: "v \<in> set (vorder s)" and ys: "set ys \<subseteq> set (vorder s)"
      and f: "frozen E J lim s cs t"
      by (auto simp: frozen_def)
    have inv: "vinv E t" by (rule vinv_vsteps [OF fr(1) assms(1)])
    have "v \<in> set (vorder t)" using v vsteps_fields(1) [OF fr(1)] by simp
    then obtain mv where mv: "vheap t v = Some mv" using vinv_order [OF inv] by blast
    obtain mv0 where mv0: "vheap s0 v = Some mv0" "policy mv0 = policy mv"
      using same_policyD2 [OF same_policy_trans [OF assms(2) vsteps_policy [OF fr(1)]] mv] by blast
    have "wp (freeze_scan eligible v (lo mv) lim (nr_pages mv) cs t) (\<lambda>cs' u. frozen E J lim t cs' u)"
      if "\<not> skip v mv"
      by (rule wp_freeze_scan [OF inv mv _ fr(3) assms(3)]) (use fr(4) assms(4) [OF mv0(1) mv0(2) [symmetric] that] in auto)
    then have "wp (freeze_scan eligible v (lo mv) lim (nr_pages mv) cs t)
        (\<lambda>cs' u. set ys \<subseteq> set (vorder s) \<and> frozen E J lim s cs' u)"
      if "\<not> skip v mv" by (rule wp_conseq) (use that ys frozen_trans [OF _ fr(1,2)] in auto)
    then show ?case using mv ys f by simp
  next
    case (3 cs t)
    then show ?case by simp
  qed
  then show ?thesis by (simp add: freeze_order_def)
qed

lemma frozen_quiet:
  assumes "frozen E J n s1 cs t1" "quiet s s1" "quiet t1 t" "vbar_lock_depth t = vbar_lock_depth s"
  shows "frozen E J n s cs t"
proof -
  have "cands_just J t cs" using assms(1,3) by (simp add: frozen_def cands_just_def quiet_fields)
  then show ?thesis
    using assms by (auto simp: frozen_def intro: vsteps_quiet_left vsteps_quiet_right)
qed

text \<open>What a freeze that holds the lock found, seen from the state before the lock.\<close>

lemma frozen_locked:
  assumes "frozen E J m (s\<lparr>vbar_lock_depth := Suc (vbar_lock_depth s), vbars_dirty := True\<rparr>) cs t" "m \<le> n"
    "quiet r s" "vbar_lock_depth s = vbar_lock_depth r"
  shows "frozen E J n r cs (t\<lparr>vbar_lock_depth := vbar_lock_depth t - Suc 0\<rparr>)" "0 < vbar_lock_depth t"
proof -
  have d: "vbar_lock_depth t = Suc (vbar_lock_depth r)" using assms(1,4) by (simp add: frozen_def)
  then show "0 < vbar_lock_depth t" by simp
  have "quiet r (s\<lparr>vbar_lock_depth := Suc (vbar_lock_depth s), vbars_dirty := True\<rparr>)"
    using assms(3) by (simp add: quiet_def)
  then have "frozen E J m r cs (t\<lparr>vbar_lock_depth := vbar_lock_depth t - Suc 0\<rparr>)"
    by (rule frozen_quiet [OF assms(1)]) (simp_all add: d)
  then show "frozen E J n r cs (t\<lparr>vbar_lock_depth := vbar_lock_depth t - Suc 0\<rparr>)"
    by (rule frozen_mono [OF _ assms(2)])
qed

lemma wp_freeze_order_locked:
  assumes "vinv E s" "same_policy s0 s" "kept_by_eviction J" "m \<le> n" "winxpu E" "quiet r s"
    "vbar_lock_depth s = vbar_lock_depth r"
    "\<And>v mv mv0 i rp. vheap s0 v = Some mv0 \<Longrightarrow> policy mv = policy mv0 \<Longrightarrow> \<not> skip v mv \<Longrightarrow>
       lo mv \<le> i \<Longrightarrow> eligible rp \<Longrightarrow> J v i rp"
  shows "wp (freeze_order skip lo eligible m (s\<lparr>vbar_lock_depth := Suc (vbar_lock_depth s), vbars_dirty := True\<rparr>))
    (\<lambda>cs t. wp (vbar_state_unlock E t) (\<lambda>_ t. frozen E J n r cs t))"
proof -
  let ?s = "s\<lparr>vbar_lock_depth := Suc (vbar_lock_depth s), vbars_dirty := True\<rparr>"
  have "vinv E ?s" by (rule vinv_vsteps [OF vsteps_quiet assms(1)]) simp
  moreover have "same_policy s0 ?s" using assms(2) by (simp add: same_policy_def)
  ultimately have "wp (freeze_order skip lo eligible m ?s) (\<lambda>cs t. frozen E J m ?s cs t)"
    by (rule wp_freeze_order) (use assms in auto)
  then show ?thesis
    by (rule wp_conseq) (use frozen_locked [OF _ assms(4,6,7)] assms(5) in auto)
qed

lemma wp_freeze_retired:
  assumes "vinv E s" "same_policy s0 s" "winxpu E"
  shows "wp (vbar_freeze_retired_candidates E n completed preserved capacity s)
    (\<lambda>cs t. frozen E (retired_just s0 completed preserved) n s cs t)"
proof -
  let ?s = "s\<lparr>hist := TryLock 0 # hist s\<rparr>"
  have q: "quiet s ?s" by (rule quiet_hist) simp_all
  have "vinv E ?s" by (rule vinv_vsteps [OF vsteps_quiet [OF q] assms(1)])
  moreover have "same_policy s0 ?s" using assms(2) by (simp add: same_policy_def)
  ultimately have "wp (freeze_order
         (\<lambda>v mv. Some v = preserved \<or> copy_holds mv \<noteq> 0 \<or> pageout_callback mv)
         (\<lambda>mv. min (watermark mv) (watermark_limit mv)) (retired_eligible E completed)
         (min capacity n) (?s\<lparr>vbar_lock_depth := Suc (vbar_lock_depth ?s), vbars_dirty := True\<rparr>))
    (\<lambda>cs t. wp (vbar_state_unlock E t) (\<lambda>_ t. frozen E (retired_just s0 completed preserved) n s cs t))"
  proof (rule wp_freeze_order_locked [OF _ _ _ _ assms(3) q])
    fix v mv mv0 i rp
    assume a: "vheap s0 v = Some mv0" "policy mv = policy mv0"
      "\<not> (Some v = preserved \<or> copy_holds mv \<noteq> 0 \<or> pageout_callback mv)"
      "min (watermark mv) (watermark_limit mv) \<le> i" "retired_eligible E completed rp"
    show "retired_just s0 completed preserved v i rp"
      using a policy_fields [OF a(2)]
      by (auto simp: retired_just_def retired_eligible_def vbar_retire_complete_def split: if_splits)
  qed simp_all
  moreover have "frozen E (retired_just s0 completed preserved) n s [] ?s"
    by (rule frozen_quiet [of _ _ _ s _ s]) (simp_all add: frozen_def q)
  ultimately show ?thesis
    using assms(3) by (simp add: vbar_freeze_retired_candidates_def)
qed

end
