(* ===== verification/VbarSync.thy ===== *)
theory VbarSync
  imports VbarEvict
begin

text \<open>
  The reclaim loops over the two-phase eviction. A freeze function and what its candidates are
  justified by form the interface \<open>freezer\<close>; the loops are proved once for every freezer, and
  the three freeze functions are shown to be ones.
\<close>

subsection \<open>The freeze functions of synchronized eviction\<close>

lemma wp_freeze_reference:
  assumes "vinv E s" "same_policy s0 s" "winxpu E"
  shows "wp (vbar_freeze_reference_candidates E n preserved capacity s)
    (\<lambda>cs t. frozen E (reference_just s0 preserved) n s cs t)"
proof -
  have "wp (freeze_order (\<lambda>v mv. Some v = preserved) watermark_limit (reference_eligible E)
         (min capacity n) (s\<lparr>vbar_lock_depth := Suc (vbar_lock_depth s), vbars_dirty := True\<rparr>))
    (\<lambda>cs t. wp (vbar_state_unlock E t) (\<lambda>_ t. frozen E (reference_just s0 preserved) n s cs t))"
  proof (rule wp_freeze_order_locked [OF assms(1,2) _ _ assms(3) quiet_refl])
    fix v mv mv0 i rp
    assume a: "vheap s0 v = Some mv0" "policy mv = policy mv0" "\<not> Some v = preserved" "watermark_limit mv \<le> i"
    show "reference_just s0 preserved v i rp"
      using a policy_fields(2) [OF a(2)] by (simp add: reference_just_def)
  qed simp_all
  then show ?thesis using assms(3) by (simp add: vbar_freeze_reference_candidates_def)
qed

lemma wp_freeze_model:
  assumes "vinv E s" "same_policy s0 s" "winxpu E"
  shows "wp (vbar_freeze_model_candidates E ident lo hi n capacity s)
    (\<lambda>cs t. frozen E (model_just s0 ident lo hi) n s cs t)"
proof -
  let ?s = "s\<lparr>vbar_lock_depth := Suc (vbar_lock_depth s)\<rparr>"
  have inv: "vinv E ?s" by (rule vinv_vsteps [OF vsteps_quiet assms(1)]) simp
  have fin: "frozen E (model_just s0 ident lo hi) n s cs (t\<lparr>vbar_lock_depth := vbar_lock_depth t - Suc 0\<rparr>)"
    "0 < vbar_lock_depth t"
    if f: "frozen E (model_just s0 ident lo hi) (min capacity n) ?s cs t" for cs t
  proof -
    have d: "vbar_lock_depth t = Suc (vbar_lock_depth s)" using f by (simp add: frozen_def)
    then show "0 < vbar_lock_depth t" by simp
    have "frozen E (model_just s0 ident lo hi) (min capacity n) s cs (t\<lparr>vbar_lock_depth := vbar_lock_depth t - Suc 0\<rparr>)"
      by (rule frozen_quiet [OF f]) (simp_all add: d)
    then show "frozen E (model_just s0 ident lo hi) n s cs (t\<lparr>vbar_lock_depth := vbar_lock_depth t - Suc 0\<rparr>)"
      by (rule frozen_mono) simp
  qed
  have none: "frozen E (model_just s0 ident lo hi) (min capacity n) ?s [] ?s" by (simp add: frozen_def)
  show ?thesis
  proof (cases "vbar_find_identity_locked ident ?s")
    case None
    then show ?thesis using assms(3) fin [OF none]
      by (simp add: vbar_freeze_model_candidates_def)
  next
    case (Some v)
    then obtain mv where mv: "vheap ?s v = Some mv" "identity mv = ident"
      using vbar_find_identity_Some by blast
    obtain mv0 where mv0: "vheap s0 v = Some mv0" "policy mv0 = policy mv"
      using same_policyD2 [OF assms(2)] mv by auto
    show ?thesis
    proof (cases "closing mv")
      case True
      then show ?thesis using assms(3) fin [OF none] Some mv by (simp add: vbar_freeze_model_candidates_def)
    next
      case False
      have "wp (freeze_scan (reference_eligible E) v lo (min capacity n) (min hi (nr_pages mv)) [] ?s)
          (\<lambda>cs t. frozen E (model_just s0 ident lo hi) (min capacity n) ?s cs t)"
        by (rule wp_freeze_scan [OF inv mv(1)])
          (use mv mv0 False policy_fields(6,7) [OF mv0(2)] in
            \<open>simp_all add: kept_by_eviction_just, auto simp: model_just_def\<close>)
      then have "wp (freeze_scan (reference_eligible E) v lo (min capacity n) (min hi (nr_pages mv)) [] ?s)
          (\<lambda>cs t. wp (vbar_state_unlock E t) (\<lambda>_ t. frozen E (model_just s0 ident lo hi) n s cs t))"
        by (rule wp_conseq) (use fin assms(3) in auto)
      then show ?thesis using assms(3) Some mv False by (simp add: vbar_freeze_model_candidates_def)
    qed
  qed
qed

subsection \<open>Cancel\<close>

lemma wp_cancel_candidate:
  assumes "vinv E s"
  shows "wp (cancel_candidate c s) (\<lambda>_ t. vsteps E (gone E no_page) no_field s t \<and> vbar_lock_depth t = vbar_lock_depth s \<and>
    total_vram_usage t = total_vram_usage s)"
proof (cases "vbar_find_identity_locked (cand_identity c) s")
  case None
  then show ?thesis by (simp add: cancel_candidate_def)
next
  case (Some v)
  then obtain mv where mv: "vheap s v = Some mv" using vbar_find_identity_Some by blast
  have ok: "vbar_ok E mv" using assms mv by (simp add: vinv_def)
  show ?thesis
    using Some mv ok mark_step [OF mv, of "cand_page_nr c" vbar_page_cancel_eviction]
    by (auto simp: cancel_candidate_def vbar_ok_def)
qed

lemma wp_vbar_cancel_candidates:
  assumes "vinv E s" "winxpu E"
  shows "wp (vbar_cancel_candidates E cs s) (\<lambda>_ t. vsteps E (gone E no_page) no_field s t \<and>
    vbar_lock_depth t = vbar_lock_depth s \<and> total_vram_usage t = total_vram_usage s)"
proof -
  let ?s = "s\<lparr>vbar_lock_depth := Suc (vbar_lock_depth s)\<rparr>"
  have inv: "vinv E ?s" by (rule vinv_vsteps [OF vsteps_quiet assms(1)]) simp
  have "wp (each cancel_candidate cs ?s) (\<lambda>_ t. vsteps E (gone E no_page) no_field ?s t \<and>
      vbar_lock_depth t = vbar_lock_depth ?s \<and> total_vram_usage t = total_vram_usage ?s)"
  proof (rule wp_each [where I = "\<lambda>_ t. vsteps E (gone E no_page) no_field ?s t \<and>
      vbar_lock_depth t = vbar_lock_depth ?s \<and> total_vram_usage t = total_vram_usage ?s"], goal_cases)
    case (2 c cs t)
    then show ?case
      by (intro wp_conseq [OF wp_cancel_candidate [OF vinv_vsteps [OF _ inv]]]) (auto intro: vsteps_trans)
  qed auto
  then show ?thesis using assms(2) by (auto simp: vbar_cancel_candidates_def elim!: wp_conseq)
qed

lemma gone_no_page: "vsteps E (gone E no_page) no_field s t \<Longrightarrow> vsteps E (gone E J) no_field s t"
  by (erule vsteps_mono) (auto simp: gone_def no_page_def)

subsection \<open>The interface of the reclaim loops\<close>

text \<open>
  What a loop guarantees: only justified pages lost their mapping, the pages freed are exactly
  what the byte counter dropped by, no more than \<open>n\<close>.
\<close>

definition reclaim_bounded ::
  "env \<Rightarrow> (nat \<Rightarrow> nat \<Rightarrow> resident_page \<Rightarrow> bool) \<Rightarrow> nat \<Rightarrow> 'z vstate_scheme \<Rightarrow> nat \<Rightarrow> 'z vstate_scheme \<Rightarrow> bool" where
  "reclaim_bounded E J n s left t \<longleftrightarrow> vsteps E (gone E J) no_field s t \<and> vbar_lock_depth t = vbar_lock_depth s \<and>
     left \<le> n \<and> total_vram_usage t = total_vram_usage s - of_nat (n - left) * VBAR_PAGE_SIZE"

lemma marks_keep_usage:
  assumes "vsteps E (gone E no_page) no_field s t"
  shows "total_vram_usage t = total_vram_usage s"
  using assms
proof (induction rule: vsteps_induct)
  case (step x y)
  from step(2) have "total_vram_usage y = total_vram_usage x"
  proof cases
    case (page v mv i rp rp')
    from page(5) have "owned rp' = owned rp" by (simp add: gone_def no_page_def marked_fields(10))
    then show ?thesis using page(7) by simp
  qed (simp_all add: quiet_def)
  then show ?case using step(3) by simp
qed simp

lemma reclaim_bounded_marks:
  assumes "reclaim_bounded E J n r k s" "vsteps E (gone E no_page) no_field s t" "vbar_lock_depth t = vbar_lock_depth s"
  shows "reclaim_bounded E J n r k t"
  using assms marks_keep_usage [OF assms(2)] vsteps_trans [OF _ gone_no_page [OF assms(2)]]
  by (simp add: reclaim_bounded_def)

lemma reclaim_bounded_commit:
  assumes "reclaim_bounded E J n r k s" "vsteps E (gone E J) no_field s t" "vbar_lock_depth t = vbar_lock_depth s"
    "freed \<le> k" "total_vram_usage t = total_vram_usage s - of_nat freed * VBAR_PAGE_SIZE"
  shows "reclaim_bounded E J n r (k - freed) t"
proof -
  have e: "n - (k - freed) = (n - k) + freed" using assms(1,4) by (simp add: reclaim_bounded_def)
  have "total_vram_usage t = total_vram_usage r - of_nat (n - (k - freed)) * VBAR_PAGE_SIZE"
    using assms(1,5) unfolding e reclaim_bounded_def by (simp only: of_nat_add distrib_right diff_diff_eq simp_thms)
  moreover have "vsteps E (gone E J) no_field r t"
    using assms(1,2) by (auto simp: reclaim_bounded_def intro: vsteps_trans)
  ultimately show ?thesis using assms(1,3) by (auto simp: reclaim_bounded_def)
qed

locale freezer =
  fixes E :: env and s0 :: "'z vstate_scheme"
    and freeze :: "nat \<Rightarrow> 'z vstate_scheme \<Rightarrow> (eviction_candidate list \<times> 'z vstate_scheme) option"
    and J :: "nat \<Rightarrow> nat \<Rightarrow> resident_page \<Rightarrow> bool"
  assumes freeze_ok: "winxpu E \<Longrightarrow> vinv E s \<Longrightarrow> same_policy s0 s \<Longrightarrow> wp (freeze n s) (\<lambda>cs t. frozen E J n s cs t)"
    and keeps: "kept_by_eviction J"
begin

text \<open>The commit of what a freeze found, with only quiet steps in between.\<close>

lemma commit_frozen:
  assumes target: "winxpu E" and "vinv E s" "frozen E J n s cs t" "quiet t t'" "vbar_lock_depth t' = vbar_lock_depth t"
  shows "wp (vbar_commit_candidates E cs t') (\<lambda>freed u. freed \<le> n \<and> vsteps E (gone E J) no_field s u \<and>
    vbar_lock_depth u = vbar_lock_depth s \<and> total_vram_usage u = total_vram_usage s - of_nat freed * VBAR_PAGE_SIZE)"
proof -
  have m: "vsteps E (gone E no_page) no_field s t'"
    using assms(3,4) vsteps_quiet_right by (auto simp: frozen_def)
  have st: "vsteps E (gone E J) no_field s t'" by (rule gone_no_page [OF m])
  have cj: "cands_just J t' cs" using assms(3,4) by (simp add: frozen_def cands_just_def quiet_fields)
  have n: "length cs \<le> n" using assms(3) by (simp add: frozen_def)
  show ?thesis
    by (rule wp_conseq [OF wp_commit_justified [OF vinv_vsteps [OF st assms(2)] target cj keeps]])
      (use n assms(3,5) st marks_keep_usage [OF m] in \<open>auto simp: frozen_def intro: vsteps_trans\<close>)
qed

abbreviation going :: "nat \<Rightarrow> 'z vstate_scheme \<Rightarrow> nat \<Rightarrow> 'z vstate_scheme \<Rightarrow> bool" where
  "going n r k s \<equiv> vinv E s \<and> same_policy s0 s \<and> reclaim_bounded E J n r k s"

lemma going_bounded:
  assumes "going n r k s" "reclaim_bounded E J n r k' t" "vsteps E (gone E J) no_field s t"
  shows "going n r k' t"
  using assms vinv_vsteps [OF assms(3)] same_policy_trans [OF _ vsteps_policy [OF assms(3)]] by blast

lemma wp_retired_round:
  assumes target: "winxpu E" and "going n r k s"
  shows "wp (retired_round E freeze k s)
    (\<lambda>x t. case x of Inl k' \<Rightarrow> going n r k' t \<and> k' < k | Inr left \<Rightarrow> reclaim_bounded E J n r left t)"
proof (cases "k = 0")
  case True
  then show ?thesis using assms by (simp add: retired_round_def)
next
  case False
  have "wp (freeze k s) (\<lambda>cs t. frozen E J k s cs t)" using freeze_ok assms by blast
  then show ?thesis
    unfolding retired_round_def using False
  proof (simp, elim wp_conseq, goal_cases)
    case (1 cs t)
    have m: "reclaim_bounded E J n r k t" if "cs = []"
      using 1 assms by (auto simp: frozen_def intro: reclaim_bounded_marks)
    have "wp (vbar_commit_candidates E cs t) (\<lambda>freed u. freed \<le> k \<and> vsteps E (gone E J) no_field s u \<and>
        vbar_lock_depth u = vbar_lock_depth s \<and> total_vram_usage u = total_vram_usage s - of_nat freed * VBAR_PAGE_SIZE)"
      using 1 assms by (intro commit_frozen) auto
    then have "wp (vbar_commit_candidates E cs t) (\<lambda>freed u. going n r (k - freed) u \<and> freed \<le> k)"
      by (rule wp_conseq) (use assms going_bounded reclaim_bounded_commit in blast)
    then show ?case using 1 m False by (auto elim!: wp_conseq)
  qed
qed

lemma wp_retired_loop:
  assumes "winxpu E" "vinv E s" "same_policy s0 s" "n < m"
  shows "wp (loop m (retired_round E freeze) n s) (\<lambda>left t. reclaim_bounded E J n s left t)"
  by (rule wp_loop [where I = "going n s" and m = "\<lambda>k _. k"])
    (use assms wp_retired_round in \<open>auto simp: reclaim_bounded_def\<close>)

lemma wp_synchronized_round:
  assumes target: "winxpu E" and "going n r k s"
  shows "wp (synchronized_round E freeze k s)
    (\<lambda>x t. case x of Inl k' \<Rightarrow> going n r k' t \<and> k' < k | Inr left \<Rightarrow> reclaim_bounded E J n r left t)"
proof (cases "k = 0")
  case True
  then show ?thesis using assms by (simp add: synchronized_round_def)
next
  case False
  have "wp (freeze k s) (\<lambda>cs t. frozen E J k s cs t)" using freeze_ok assms by blast
  then show ?thesis
    unfolding synchronized_round_def using False
  proof (simp add: check_cu_def, elim wp_conseq, goal_cases)
    case (1 cs t)
    let ?t = "t\<lparr>hist := CtxSynchronize # hist t\<rparr>"
    have q: "quiet t ?t" by (rule quiet_hist) simp
    have m: "reclaim_bounded E J n r k t" "vsteps E (gone E no_page) no_field s t"
      using 1 assms by (auto simp: frozen_def intro: reclaim_bounded_marks)
    have mt: "reclaim_bounded E J n r k ?t" "vinv E ?t"
      using m(1) q assms vinv_vsteps [OF vsteps_quiet_right [OF m(2) q]]
      by (auto simp: reclaim_bounded_def intro: vsteps_quiet_right)
    have "wp (vbar_cancel_candidates E cs ?t) (\<lambda>_ u. reclaim_bounded E J n r k u)"
      by (rule wp_conseq [OF wp_vbar_cancel_candidates [OF mt(2) target]])
        (use reclaim_bounded_marks [OF mt(1)] in blast)
    moreover have "wp (vbar_commit_candidates E cs ?t) (\<lambda>freed u. freed \<le> k \<and> vsteps E (gone E J) no_field s u \<and>
        vbar_lock_depth u = vbar_lock_depth s \<and> total_vram_usage u = total_vram_usage s - of_nat freed * VBAR_PAGE_SIZE)"
      using 1 assms q by (intro commit_frozen) auto
    then have "wp (vbar_commit_candidates E cs ?t) (\<lambda>freed u. going n r (k - freed) u \<and> freed \<le> k)"
      by (rule wp_conseq) (use assms going_bounded reclaim_bounded_commit in blast)
    ultimately show ?case using m False by (auto elim!: wp_conseq)
  qed
qed

lemma wp_synchronized_loop:
  assumes "winxpu E" "vinv E s" "same_policy s0 s" "n < m"
  shows "wp (loop m (synchronized_round E freeze) n s) (\<lambda>left t. reclaim_bounded E J n s left t)"
  by (rule wp_loop [where I = "going n s" and m = "\<lambda>k _. k"])
    (use assms wp_synchronized_round in \<open>auto simp: reclaim_bounded_def\<close>)

end

text \<open>The three freeze functions, with what justifies their candidates in the initial state.\<close>

interpretation reference: freezer E s0 "\<lambda>n. vbar_freeze_reference_candidates E n preserved capacity"
    "reference_just s0 preserved"
  for E s0 preserved capacity
  by unfold_locales (use wp_freeze_reference in auto)

interpretation of_model: freezer E s0 "\<lambda>n. vbar_freeze_model_candidates E ident lo hi n capacity"
    "model_just s0 ident lo hi"
  for E s0 ident lo hi capacity
  by unfold_locales (use wp_freeze_model in auto)

interpretation retired: freezer E s0 "\<lambda>n. vbar_freeze_retired_candidates E n completed preserved capacity"
    "retired_just s0 completed preserved"
  for E s0 completed preserved capacity
  by unfold_locales (use wp_freeze_retired in auto)

subsection \<open>The reclaim operations\<close>

text \<open>Pages needed for a number of bytes, at least one for a positive number.\<close>

lemma wp_vbars_free_synchronized:
  assumes "vinv E s" "winxpu E"
  shows "wp (vbars_free_synchronized_except E bytes preserved s)
    (\<lambda>left t. reclaim_bounded E (reference_just s preserved)
      (if bytes \<le> 0 then 0 else VBAR_GET_PAGE_NR_UP (word_of_int bytes)) s left t)"
  using reference.wp_synchronized_loop [OF assms(2,1), of s "VBAR_GET_PAGE_NR_UP (word_of_int bytes)"
      "Suc (VBAR_GET_PAGE_NR_UP (word_of_int bytes))" preserved VBAR_EVICTION_BATCH_PAGES]
  by (simp add: vbars_free_synchronized_except_def Let_def reclaim_bounded_def)

lemma wp_free_model_range:
  assumes "vinv E s" "winxpu E"
  shows "wp (vbar_free_model_range_synchronized E ident lo hi n s) (\<lambda>freed t.
    vsteps E (gone E (model_just s ident lo hi)) no_field s t \<and> vbar_lock_depth t = vbar_lock_depth s \<and>
    freed \<le> n \<and> total_vram_usage t = total_vram_usage s - of_nat freed * VBAR_PAGE_SIZE)"
  unfolding vbar_free_model_range_synchronized_def
  by (simp only: wp_bind split_conv, rule wp_conseq [OF of_model.wp_synchronized_loop [OF assms(2,1), of s n "Suc n" ident lo hi VBAR_EVICTION_BATCH_PAGES]])
    (auto simp: reclaim_bounded_def)

lemma wp_retire_snapshot [simp]:
  "wp (retire_snapshot E s) Q \<longleftrightarrow>
     Q (take RETIRE_MAX_QUEUES (r_vals (drv E (hist s) RetireSnapshot))) (s\<lparr>hist := RetireSnapshot # hist s\<rparr>)"
  by (simp add: retire_snapshot_def)

lemma wp_vbars_free_retired_except:
  assumes "vinv E s" "winxpu E"
  shows "wp (vbars_free_retired_except E bytes preserved s)
    (\<lambda>left t. reclaim_bounded E
      (retired_just s (take RETIRE_MAX_QUEUES (r_vals (drv E (hist s) RetireSnapshot))) preserved)
      (if bytes \<le> 0 then 0 else VBAR_GET_PAGE_NR_UP (word_of_int bytes)) s left t)"
proof -
  let ?s = "s\<lparr>hist := RetireSnapshot # hist s\<rparr>"
  have q: "quiet s ?s" by (rule quiet_hist) simp
  have inv: "vinv E ?s" by (rule vinv_vsteps [OF vsteps_quiet [OF q] assms(1)])
  have "reclaim_bounded E J n ?s left t \<Longrightarrow> reclaim_bounded E J n s left t" for J n left t
    using vsteps_quiet_left [OF q] by (auto simp: reclaim_bounded_def)
  then have "wp (loop (Suc n) (retired_round E (\<lambda>n. vbar_freeze_retired_candidates E n c preserved VBAR_EVICTION_BATCH_PAGES)) n ?s)
     (\<lambda>left t. reclaim_bounded E (retired_just s c preserved) n s left t)" for n c
    by (intro wp_conseq [OF retired.wp_retired_loop [OF assms(2) inv]]) (auto simp: same_policy_def)
  then show ?thesis
    by (simp add: vbars_free_retired_except_def Let_def reclaim_bounded_def)
qed

subsection \<open>Copies that completed\<close>

definition released_hold :: field_rel where
  "released_hold = (\<lambda>v mv mv'. mv' = mv\<lparr>copy_holds := copy_holds mv - 1\<rparr>)"

definition same_page :: page_rel where
  "same_page = (\<lambda>v i rp rp'. rp' = rp)"

lemma wp_copy_release_one:
  "wp (copy_release_one ident s) (\<lambda>_ t. vsteps E same_page released_hold s t \<and> vbar_lock_depth t = vbar_lock_depth s \<and>
     hist t = hist s)"
proof (cases "vbar_find_identity_locked ident s")
  case None
  then show ?thesis by (simp add: copy_release_one_def)
next
  case (Some v)
  then obtain mv where mv: "vheap s v = Some mv" using vbar_find_identity_Some by blast
  let ?mv = "mv\<lparr>copy_holds := copy_holds mv - 1\<rparr>"
  let ?f = "\<lambda>mv. if copy_holds mv \<noteq> 0 then mv\<lparr>copy_holds := copy_holds mv - 1\<rparr> else mv"
  have "?f mv = ?mv" by (cases mv) auto
  then have "vsteps E same_page released_hold s (upd_vbar v ?f s)"
    using mv by (intro vsteps_step vstep.field [of s v mv ?mv])
      (auto simp: same_pages_def released_hold_def upd_vbar_def)
  then show ?thesis using Some by (auto simp: copy_release_one_def upd_vbar_def)
qed

lemma wp_copy_residency_poll:
  "wp (copy_residency_poll E wait s) (\<lambda>_ t. vsteps E same_page released_hold s t \<and> vbar_lock_depth t = vbar_lock_depth s)"
proof -
  have each: "wp (each copy_release_one xs t) (\<lambda>_ u. vsteps E same_page released_hold t u \<and> vbar_lock_depth u = vbar_lock_depth t)"
    for xs t
  proof (rule wp_each [where I = "\<lambda>_ u. vsteps E same_page released_hold t u \<and> vbar_lock_depth u = vbar_lock_depth t"], goal_cases)
    case (2 x xs u)
    then show ?case
      by (intro wp_conseq [OF wp_copy_release_one [of x u E]]) (auto intro: vsteps_trans)
  qed auto
  let ?s = "s\<lparr>hist := CopyResidencyPoll wait # hist s\<rparr>"
  have q: "quiet s ?s" by (rule quiet_hist) simp
  let ?t = "if winxpu E then ?s\<lparr>vbar_lock_depth := Suc (vbar_lock_depth s)\<rparr> else ?s"
  have "wp (each copy_release_one (r_vals (drv E (hist s) (CopyResidencyPoll wait))) ?t)
      (\<lambda>_ u. vsteps E same_page released_hold s u \<and> vbar_lock_depth u = vbar_lock_depth ?t)"
    by (rule wp_conseq [OF each]) (auto split: if_splits intro: vsteps_quiet_left [OF q])
  then show ?thesis
    by (auto simp: copy_residency_poll_def aimdo_vbar_copy_release_def elim!: wp_conseq split: if_splits)
qed

subsection \<open>Flushing every completed page\<close>

lemma gone_owned: "gone E J v i rp rp' \<Longrightarrow> owned rp' \<Longrightarrow> owned rp"
  by (auto simp: gone_def marked_fields(10) mapped_owned)

lemma owned_pages_gone:
  assumes "vsteps E (gone E J) no_field s t" "vinv E s"
  shows "owned_pages t \<le> owned_pages s"
  using assms
proof (induction rule: vsteps_induct)
  case (step t t')
  have inv: "vinv E t" by (rule vinv_vsteps [OF step(1) step.prems(1)])
  from step(2) have "owned_pages t' \<le> owned_pages t"
  proof cases
    case quiet
    then show ?thesis using erase_eq(1) [of t' t] by (simp add: owned_pages_def quiet_def)
  next
    case (page v mv i rp rp')
    have o: "owned rp' \<longrightarrow> owned (residency_map mv ! i)" using page(3,5) gone_owned by blast
    have "count_if owned ((residency_map mv)[i := rp']) \<le> count_if owned (residency_map mv)"
      using count_if_update [OF page(2), of owned rp'] o by (auto split: if_splits)
    then show ?thesis
      using page(1,8) erase_eq(1) [OF page(9)] unfolding owned_pages_def
      by (auto intro!: sum_list_mono simp: set_vpage_def split: option.splits)
  next
    case (field v mv mv')
    then show ?thesis by (simp add: no_field_def)
  qed
  then show ?case using step(3) step.prems(1) by simp
qed simp

lemma freed_owned_pages:
  assumes "vsteps E (gone E J) no_field s t" "vinv E s" "0 < freed" "freed \<le> 64"
    "total_vram_usage t = total_vram_usage s - of_nat freed * VBAR_PAGE_SIZE"
  shows "owned_pages t < owned_pages s"
proof (rule ccontr)
  assume "\<not> owned_pages t < owned_pages s"
  then have e: "owned_pages t = owned_pages s" using owned_pages_gone [OF assms(1,2)] by simp
  have "other_bytes t = other_bytes s" by (rule other_bytes_vsteps [OF assms(1,2)])
  then have "(of_nat freed * VBAR_PAGE_SIZE :: u64) = 0" using assms(5) by (simp add: other_bytes_def e)
  moreover have "unat (of_nat freed * VBAR_PAGE_SIZE :: u64) = freed * PAGE"
    using assms(4) by (intro reserved_size_nat) simp
  ultimately show False using assms(3) by simp
qed

text \<open>
  The flush ends: \<open>owned_pages\<close> strictly falls with every round that goes on. What it freed had
  completed its retirement.
\<close>

lemma wp_flush_loop:
  assumes "winxpu E" "vinv E s" "owned_pages s < m"
  shows "wp (loop m (flush_round E completed) 0 s)
    (\<lambda>freed t. vsteps E (gone E (retired_just s completed None)) no_field s t \<and>
       vbar_lock_depth t = vbar_lock_depth s \<and> total_vram_usage t = total_vram_usage s - of_nat freed * VBAR_PAGE_SIZE)"
proof (rule wp_loop [where m = "\<lambda>_ t. owned_pages t" and
    I = "\<lambda>freed t. vsteps E (gone E (retired_just s completed None)) no_field s t \<and>
       vbar_lock_depth t = vbar_lock_depth s \<and> total_vram_usage t = total_vram_usage s - of_nat freed * VBAR_PAGE_SIZE"],
    goal_cases)
  case (3 k t)
  then have st: "vsteps E (gone E (retired_just s completed None)) no_field s t" by simp
  have inv: "vinv E t" by (rule vinv_vsteps [OF st assms(2)])
  have "wp (vbar_freeze_retired_candidates E VBAR_EVICTION_BATCH_PAGES completed None VBAR_EVICTION_BATCH_PAGES t)
    (\<lambda>cs u. frozen E (retired_just s completed None) VBAR_EVICTION_BATCH_PAGES t cs u)"
    by (rule wp_freeze_retired [OF inv vsteps_policy [OF st] assms(1)])
  then show ?case
    unfolding flush_round_def
  proof (simp, elim wp_conseq, goal_cases)
    case (1 cs u)
    have m: "vsteps E (gone E (retired_just s completed None)) no_field t u" "total_vram_usage u = total_vram_usage t"
      "vbar_lock_depth u = vbar_lock_depth t"
      using 1 marks_keep_usage gone_no_page by (auto simp: frozen_def)
    have "wp (vbar_commit_candidates E cs u) (\<lambda>freed x. freed \<le> 64 \<and>
        vsteps E (gone E (retired_just s completed None)) no_field t x \<and>
        vbar_lock_depth x = vbar_lock_depth t \<and> total_vram_usage x = total_vram_usage t - of_nat freed * VBAR_PAGE_SIZE)"
      by (rule retired.commit_frozen [OF assms(1) inv 1(2)]) simp_all
    then have "wp (vbar_commit_candidates E cs u) (\<lambda>freed x.
        vsteps E (gone E (retired_just s completed None)) no_field s x \<and> vbar_lock_depth x = vbar_lock_depth s \<and>
        total_vram_usage x = total_vram_usage s - of_nat (k + freed) * VBAR_PAGE_SIZE \<and>
        (freed \<noteq> 0 \<longrightarrow> owned_pages x < owned_pages t))"
    proof (rule wp_conseq, goal_cases)
      case (1 freed x)
      then have "freed \<noteq> 0 \<longrightarrow> owned_pages x < owned_pages t"
        using freed_owned_pages [OF _ inv, of "retired_just s completed None" x freed] by simp
      then show ?case using 1 3 by (auto intro: vsteps_trans simp: distrib_right diff_diff_eq)
    qed
    then show ?case using m 3 vsteps_trans [OF st m(1)] by (auto elim!: wp_conseq)
  qed
qed (use assms in auto)

text \<open>
  Every retired page goes: at an owner boundary the completed copies give their holds back first,
  then only pages whose retirement the snapshot completed lose their mapping.
\<close>

definition flush_page :: "env \<Rightarrow> nat \<Rightarrow> nat \<Rightarrow> resident_page \<Rightarrow> resident_page \<Rightarrow> bool" where
  "flush_page E = gone E (\<lambda>v i rp. \<exists>completed. list_all (token_complete completed) (retire_tokens rp))"

lemma wp_vbars_free_all_retired:
  assumes "vinv E s" "winxpu E"
  shows "wp (vbars_free_all_retired E s) (\<lambda>freed t. vsteps E (flush_page E) released_hold s t \<and>
    vbar_lock_depth t = vbar_lock_depth s \<and> (\<not> async_reclaim E \<longrightarrow> freed = 0 \<and> t = s))"
proof -
  have sp: "vsteps E (flush_page E) released_hold s t" if "vsteps E same_page released_hold s t" for t
    using that by (rule vsteps_mono) (auto simp: same_page_def flush_page_def gone_def)
  have fp: "vsteps E (flush_page E) released_hold u t" if "vsteps E (gone E (retired_just u c None)) no_field u t" for c u t
    using that by (rule vsteps_mono) (auto simp: flush_page_def gone_def retired_just_def no_field_def)
  have "wp (copy_residency_poll E False s) (\<lambda>_ t. vsteps E same_page released_hold s t \<and> vbar_lock_depth t = vbar_lock_depth s)"
    by (rule wp_copy_residency_poll)
  then show ?thesis
    unfolding vbars_free_all_retired_def
  proof (simp del: loop.simps, intro impI, elim wp_conseq, goal_cases)
    case (1 u t)
    let ?t = "t\<lparr>hist := RetireSnapshot # hist t\<rparr>"
    have q: "quiet t ?t" by (rule quiet_hist) simp
    have st: "vsteps E (flush_page E) released_hold s ?t" using 1 sp q by (blast intro: vsteps_quiet_right)
    show ?case
      using 1 vsteps_trans [OF st fp]
      by (intro wp_conseq [OF wp_flush_loop [OF assms(2) vinv_vsteps [OF st assms(1)]]]) auto
  qed
qed

lemma wp_vbars_reclaim_at_owner_boundary:
  assumes "vinv E s" "winxpu E"
  shows "wp (vbars_reclaim_at_owner_boundary E live_deficit s) (\<lambda>left t. vsteps E (flush_page E) no_field s t \<and>
    vbar_lock_depth t = vbar_lock_depth s)"
proof -
  obtain r s1 where t: "vbars_take_reclaim_request s = (r, s1)" by (cases "vbars_take_reclaim_request s")
  then have q: "quiet s s1" "vbar_lock_depth s1 = vbar_lock_depth s"
    by (auto simp: vbars_take_reclaim_request_def quiet_def)
  have inv: "vinv E s1" by (rule vinv_vsteps [OF vsteps_quiet [OF q(1)] assms(1)])
  have fp: "vsteps E (flush_page E) no_field s t" if "vsteps E (gone E (retired_just s1 c None)) no_field s1 t" for c t
    using that by (intro vsteps_quiet_left [OF q(1)], elim vsteps_mono) (auto simp: flush_page_def gone_def retired_just_def)
  show ?thesis
    unfolding vbars_reclaim_at_owner_boundary_def vbars_free_retired_def t
    by (simp add: Let_def, intro impI conjI; rule wp_conseq [OF wp_vbars_free_retired_except [OF inv assms(2)]])
      (use fp q(2) in \<open>auto simp: reclaim_bounded_def\<close>)
qed

end
