(* ===== verification/VbarFault.thy ===== *)
theory VbarFault
  imports VbarSync
begin

text \<open>
  Faulting a range of a VBAR in (\<open>vbar_fault\<close> and \<open>vbars_free_for_vbar\<close> of
  \<open>src/model-vbar.c\<close>): every page of the range is restored, found mapped or mapped anew, pinned,
  and its serial handed out; a fault that gives up takes its pins back.
\<close>

subsection \<open>Reclaim on behalf of one VBAR\<close>

function move_cursor_to_absent :: "env \<Rightarrow> model_vbar \<Rightarrow> nat \<Rightarrow> nat option" where
  "move_cursor_to_absent E mv cursor =
     (if cursor < watermark mv then do {
        rp \<leftarrow> at_index (residency_map mv) cursor;
        if vbar_page_is_mapped E rp then move_cursor_to_absent E mv (cursor + 1) else Some cursor }
      else Some cursor)"
  by pat_completeness auto
termination by (relation "measure (\<lambda>(E, mv, cursor). watermark mv - cursor)") auto

function spend_surplus_on_cursor :: "env \<Rightarrow> model_vbar \<Rightarrow> nat \<Rightarrow> nat \<times> int \<Rightarrow> (nat \<times> int) option" where
  "spend_surplus_on_cursor E mv target (cursor, surplus) =
     (if surplus \<ge> VBAR_PAGE_BYTES \<and> cursor < target \<and> cursor < watermark mv then do {
        cursor \<leftarrow> move_cursor_to_absent E mv (cursor + 1);
        spend_surplus_on_cursor E mv target (cursor, surplus - VBAR_PAGE_BYTES) }
      else Some (cursor, surplus))"
  by pat_completeness auto
termination by (relation "measure (\<lambda>(E, mv, target, cursor, surplus). nat surplus)") auto

declare move_cursor_to_absent.simps [simp del] spend_surplus_on_cursor.simps [simp del]

text \<open>Whether there is still something to free for: a page in reach, or a negative surplus.\<close>

definition wants_more :: "model_vbar \<Rightarrow> nat \<Rightarrow> nat \<times> int \<Rightarrow> bool" where
  "wants_more mv target = (\<lambda>(cursor, surplus). cursor < target \<and> cursor < watermark mv \<or> surplus < 0)"

text \<open>After an eviction: the bytes freed are spent on the cursor, then the watermark drops.\<close>

definition spend_freed ::
  "env \<Rightarrow> nat \<Rightarrow> nat \<Rightarrow> nat \<Rightarrow> int \<Rightarrow> nat \<times> int \<Rightarrow> 'z vstate_scheme \<Rightarrow> ((nat \<times> int) \<times> 'z vstate_scheme) option" where
  "spend_freed E v target i freed c s = do {
     mv \<leftarrow> vheap s v;
     c \<leftarrow> (if freed \<noteq> 0 then spend_surplus_on_cursor E mv target (fst c, snd c + VBAR_PAGE_BYTES) else Some c);
     Some (c, upd_vbar i (\<lambda>mi. mi\<lparr>watermark := watermark mi - 1\<rparr>) s) }"

definition free_for_step ::
  "env \<Rightarrow> nat \<Rightarrow> nat \<Rightarrow> nat \<Rightarrow> (nat \<times> int) \<times> bool \<Rightarrow> 'z vstate_scheme \<Rightarrow>
   (((nat \<times> int) \<times> bool + ((nat \<times> int) \<times> bool) option) \<times> 'z vstate_scheme) option" where
  "free_for_step E v target i = (\<lambda>(c, synced) s. do {
     mv \<leftarrow> vheap s v;
     mi \<leftarrow> vheap s i;
     if wants_more mv target c \<and> watermark mi > watermark_limit mi then do {
       rp \<leftarrow> at_index (residency_map mi) (watermark mi - 1);
       let sync = (\<not> synced \<and> vbar_page_is_mapped E rp \<and> pin_count rp = 0);
       (_, s) \<leftarrow> (if sync then check_cu E CtxSynchronize s else Some (True, s));
       (freed, s) \<leftarrow> mod1 E i (watermark mi - 1) True False s;
       if freed < 0 then Some (Inr None, s)
       else do {
         (c, s) \<leftarrow> spend_freed E v target i freed c s;
         Some (Inl (c, synced \<or> sync), s) } }
     else Some (Inr (Some (c, synced)), s) })"

definition vbars_free_for_vbar :: "env \<Rightarrow> nat \<Rightarrow> nat \<Rightarrow> int \<Rightarrow> 'z vstate_scheme \<Rightarrow> (bool \<times> 'z vstate_scheme) option" where
  "vbars_free_for_vbar E v target surplus s = do {
     mv \<leftarrow> vheap s v;
     cursor \<leftarrow> move_cursor_to_absent E mv 0;
     c \<leftarrow> spend_surplus_on_cursor E mv target (cursor, surplus);
     (r, s) \<leftarrow> foreach (\<lambda>i (c, synced) s. do {
         mv \<leftarrow> vheap s v;
         mi \<leftarrow> vheap s i;
         if wants_more mv target c then do {
           (r, s) \<leftarrow> loop (Suc (watermark mi)) (free_for_step E v target i) (c, synced) s;
           case r of None \<Rightarrow> Some (Inr False, s) | Some a \<Rightarrow> Some (Inl a, s) }
         else Some (Inl (c, synced), s) })
       (vorder s) (c, False) s;
     case r of
       Inr _ \<Rightarrow> Some (False, s)
     | Inl (_, synced) \<Rightarrow> do {
         (_, s) \<leftarrow> (if synced then check_cu E CtxSynchronize s else Some (True, s));
         Some (True, s) } }"

subsection \<open>The fault\<close>

abbreviation VBAR_FAULT_SUCCESS :: nat where "VBAR_FAULT_SUCCESS \<equiv> 0"
abbreviation VBAR_FAULT_OOM :: nat where "VBAR_FAULT_OOM \<equiv> 1"
abbreviation VBAR_FAULT_ERROR :: nat where "VBAR_FAULT_ERROR \<equiv> 2"
abbreviation AIMDO_XPU_WDDM_RECLAIM_FLOOR :: int where "AIMDO_XPU_WDDM_RECLAIM_FLOOR \<equiv> 512 * 2 ^ 20"

definition vbar_unpin_range :: "nat \<Rightarrow> nat \<Rightarrow> nat \<Rightarrow> 'z vstate_scheme \<Rightarrow> (unit \<times> 'z vstate_scheme) option" where
  "vbar_unpin_range v lo hi = each (\<lambda>page_nr s. do {
     rp \<leftarrow> get_page v page_nr s;
     Some ((), if pin_count rp \<noteq> 0 then upd_page v page_nr (\<lambda>rp. rp\<lparr>pin_count := pin_count rp - 1\<rparr>) s else s) })
     [lo..<hi]"

text \<open>One attempt to back the page, on either platform.\<close>

definition fault_map :: "env \<Rightarrow> nat \<Rightarrow> nat \<Rightarrow> 'z vstate_scheme \<Rightarrow> (int \<times> 'z vstate_scheme) option" where
  "fault_map E v page_nr s =
     (if winxpu E then vbar_map_new_page E v page_nr s
      else do {
        mv \<leftarrow> vheap s v;
        (r, s) \<leftarrow> three_stooges E (page_vaddr mv page_nr) VBAR_PAGE_SIZE (device mv) s;
        case r of
          Inl err \<Rightarrow> Some (err, s)
        | Inr h \<Rightarrow> Some (CUDA_SUCCESS, upd_page v page_nr (\<lambda>rp. rp\<lparr>handle := h\<rparr>) s) })"

definition above_watermark :: "nat \<Rightarrow> nat \<Rightarrow> 'z vstate_scheme \<Rightarrow> bool option" where
  "above_watermark v page_end s = do { mv \<leftarrow> vheap s v; Some (page_end > watermark mv) }"

text \<open>The reclaim before the first allocation of a fault.\<close>

definition fault_make_room :: "env \<Rightarrow> nat \<Rightarrow> nat \<Rightarrow> nat \<Rightarrow> 'z vstate_scheme \<Rightarrow> (bool \<times> 'z vstate_scheme) option" where
  "fault_make_room E v page_end page_nr s =
     (let wanted = total_vram_usage s + of_nat (page_end - page_nr) * VBAR_PAGE_SIZE in
      if winxpu E then
        let shortfall = sint wanted + simple_vram_headroom s - sint (vram_capacity s) in
        if shortfall > 0 then do { (_, s) \<leftarrow> vbars_free_retired E shortfall s; Some (True, s) }
        else Some (True, s)
      else vbars_free_for_vbar E v page_end (sint (vram_capacity s) - (sint wanted + simple_vram_headroom s)) s)"

text \<open>The reclaim after a failed attempt.\<close>

definition fault_retry_reclaim :: "env \<Rightarrow> nat \<Rightarrow> int \<Rightarrow> 'z vstate_scheme \<Rightarrow> (bool \<times> 'z vstate_scheme) option" where
  "fault_retry_reclaim E v retry_reclaim s =
     (if winxpu E then do {
        (unfulfilled, s) \<leftarrow> vbars_free_retired_except E retry_reclaim (Some v) s;
        if unfulfilled > 0 then do {
          (_, s) \<leftarrow> vbars_free_retired E (sint (of_nat unfulfilled * VBAR_PAGE_SIZE :: u64)) s;
          Some (True, s) }
        else Some (True, s) }
      else vbars_free E retry_reclaim s)"

definition fault_error :: "env \<Rightarrow> int \<Rightarrow> nat" where
  "fault_error E err =
     (if err = CUDA_SUCCESS then VBAR_FAULT_SUCCESS
      else if winxpu E \<and> err = CUDA_ERROR_OUT_OF_MEMORY then VBAR_FAULT_OOM
      else VBAR_FAULT_ERROR)"

text \<open>The last attempt on Windows/XPU, after reclaiming the safety margin as well.\<close>

definition fault_last_resort ::
  "env \<Rightarrow> nat \<Rightarrow> nat \<Rightarrow> nat \<Rightarrow> int \<Rightarrow> 'z vstate_scheme \<Rightarrow> (nat \<times> 'z vstate_scheme) option" where
  "fault_last_resort E v page_end page_nr err s =
     (if winxpu E \<and> err = CUDA_ERROR_OUT_OF_MEMORY then do {
        (_, s) \<leftarrow> vbars_free_retired E AIMDO_XPU_WDDM_RECLAIM_FLOOR s;
        above \<leftarrow> above_watermark v page_end s;
        if above then Some (VBAR_FAULT_OOM, s)
        else do { (err, s) \<leftarrow> fault_map E v page_nr s; Some (fault_error E err, s) } }
      else Some (fault_error E err, s))"

text \<open>The second attempt, after a reclaim of \<open>retry_reclaim\<close> bytes.\<close>

definition fault_retry ::
  "env \<Rightarrow> nat \<Rightarrow> nat \<Rightarrow> nat \<Rightarrow> int \<Rightarrow> 'z vstate_scheme \<Rightarrow> (nat \<times> 'z vstate_scheme) option" where
  "fault_retry E v page_end page_nr retry_reclaim s = do {
     (ok, s) \<leftarrow> fault_retry_reclaim E v retry_reclaim s;
     if \<not> ok then Some (VBAR_FAULT_ERROR, s)
     else do {
       above \<leftarrow> above_watermark v page_end s;
       if above then Some (VBAR_FAULT_OOM, s)
       else do {
         (err, s) \<leftarrow> fault_map E v page_nr s;
         if err \<noteq> CUDA_SUCCESS then fault_last_resort E v page_end page_nr err s
         else Some (VBAR_FAULT_SUCCESS, s) } } }"

definition fault_allocate :: "env \<Rightarrow> nat \<Rightarrow> nat \<Rightarrow> nat \<Rightarrow> 'z vstate_scheme \<Rightarrow> (nat \<times> 'z vstate_scheme) option" where
  "fault_allocate E v page_end page_nr s = do {
     (deficit, s) \<leftarrow> budget_deficit E VBAR_PAGE_SIZE s;
     (err, s) \<leftarrow> (if deficit > 0 then Some (CUDA_ERROR_OUT_OF_MEMORY, s) else fault_map E v page_nr s);
     if err = CUDA_SUCCESS then Some (VBAR_FAULT_SUCCESS, s)
     else if deficit \<le> 0 \<and> err \<noteq> CUDA_ERROR_OUT_OF_MEMORY then Some (VBAR_FAULT_ERROR, s)
     else fault_retry E v page_end page_nr (if deficit > VBAR_PAGE_BYTES then deficit else VBAR_PAGE_BYTES) s }"

text \<open>A page with a new mapping: a new serial, the first pin, and one more resident page.\<close>

definition fault_install :: "env \<Rightarrow> resident_page \<Rightarrow> resident_page" where
  "fault_install E rp =
     (let rp = (if winxpu E then rp\<lparr>mapped := VBAR_MAPPING_MAPPED, evicting := False\<rparr> else rp)
      in rp\<lparr>serial := serial rp + 1, pin_count := pin_count rp + 1\<rparr>)"

definition fault_pin :: "env \<Rightarrow> resident_page \<Rightarrow> resident_page" where
  "fault_pin E rp =
     (let rp = (if winxpu E then vbar_page_cancel_eviction rp else rp) in rp\<lparr>pin_count := pin_count rp + 1\<rparr>)"

text \<open>An unmapped page that still owns its allocation: whether the fault may go on.\<close>

definition fault_restore :: "env \<Rightarrow> nat \<Rightarrow> nat \<Rightarrow> 'z vstate_scheme \<Rightarrow> (bool \<times> 'z vstate_scheme) option" where
  "fault_restore E v page_nr s = do {
     rp \<leftarrow> get_page v page_nr s;
     if winxpu E \<and> handle rp \<noteq> 0 \<and> mapped rp = VBAR_MAPPING_UNKNOWN then Some (False, s)
     else if winxpu E \<and> handle rp \<noteq> 0 \<and> mapped rp = VBAR_MAPPING_UNMAPPED then do {
       (m, s) \<leftarrow> vbar_restore_page_mapping E v page_nr True s;
       Some (m = VBAR_MAPPING_MAPPED, s) }
     else Some (True, s) }"

text \<open>Room for the rest of the range, once per fault.\<close>

definition fault_first_miss ::
  "env \<Rightarrow> nat \<Rightarrow> nat \<Rightarrow> nat \<Rightarrow> bool \<Rightarrow> 'z vstate_scheme \<Rightarrow> (nat \<times> 'z vstate_scheme) option" where
  "fault_first_miss E v page_end page_nr checked s =
     (if checked then Some (VBAR_FAULT_SUCCESS, s)
      else do {
        (ok, s) \<leftarrow> fault_make_room E v page_end page_nr s;
        if \<not> ok then Some (VBAR_FAULT_ERROR, s)
        else do {
          above \<leftarrow> above_watermark v page_end s;
          Some (if above then VBAR_FAULT_OOM else VBAR_FAULT_SUCCESS, s) } })"

definition fault_miss ::
  "env \<Rightarrow> nat \<Rightarrow> nat \<Rightarrow> nat \<Rightarrow> bool \<Rightarrow> 'z vstate_scheme \<Rightarrow> (nat \<times> 'z vstate_scheme) option" where
  "fault_miss E v page_end page_nr checked s = do {
     (code, s) \<leftarrow> fault_first_miss E v page_end page_nr checked s;
     if code \<noteq> VBAR_FAULT_SUCCESS then Some (code, s)
     else do {
       (code, s) \<leftarrow> fault_allocate E v page_end page_nr s;
       if code \<noteq> VBAR_FAULT_SUCCESS then Some (code, s)
       else Some (VBAR_FAULT_SUCCESS,
              upd_vbar v (\<lambda>mv. mv\<lparr>resident_count := resident_count mv + 1\<rparr>) (upd_page v page_nr (fault_install E) s)) } }"

text \<open>One page of the range. The loop variables are \<open>miss_alloc_checked\<close> and the signature so far.\<close>

definition fault_page ::
  "env \<Rightarrow> nat \<Rightarrow> nat \<Rightarrow> nat \<Rightarrow> nat \<Rightarrow> bool \<times> u32 list \<Rightarrow> 'z vstate_scheme \<Rightarrow>
   ((bool \<times> u32 list + nat \<times> u32 list) \<times> 'z vstate_scheme) option" where
  "fault_page E v page_start page_end page_nr = (\<lambda>(checked, signature) s. do {
     (ok, s) \<leftarrow> fault_restore E v page_nr s;
     (code, s) \<leftarrow> (if \<not> ok then Some (Inr VBAR_FAULT_ERROR, s)
       else do {
         rp \<leftarrow> get_page v page_nr s;
         if vbar_page_is_mapped E rp then Some (Inl checked, upd_page v page_nr (fault_pin E) s)
         else do {
           (code, s) \<leftarrow> fault_miss E v page_end page_nr checked s;
           Some (if code = VBAR_FAULT_SUCCESS then Inl True else Inr code, s) } });
     case code of
       Inl checked \<Rightarrow> do {
         rp \<leftarrow> get_page v page_nr s;
         Some (Inl (checked, signature @ [of_nat (serial rp)]), s) }
     | Inr code \<Rightarrow> do {
         (_, s) \<leftarrow> vbar_unpin_range v page_start page_nr s;
         Some (Inr (code, signature), s) } })"

definition absent_pages :: "env \<Rightarrow> nat \<Rightarrow> nat \<Rightarrow> nat \<Rightarrow> 'z vstate_scheme \<Rightarrow> nat option" where
  "absent_pages E v lo hi s = do {
     mv \<leftarrow> vheap s v;
     if hi \<le> length (residency_map mv)
     then Some (count_if (\<lambda>rp. \<not> vbar_page_is_mapped E rp) (drop lo (take hi (residency_map mv)))) else None }"

text \<open>Whether a range above the watermark may be faulted in: only Windows/XPU reopens it.\<close>

definition fault_reopen :: "env \<Rightarrow> nat \<Rightarrow> nat \<Rightarrow> nat \<Rightarrow> 'z vstate_scheme \<Rightarrow> (bool \<times> 'z vstate_scheme) option" where
  "fault_reopen E v page_start page_end s = do {
     above \<leftarrow> above_watermark v page_end s;
     if \<not> above then Some (True, s)
     else if \<not> winxpu E then Some (False, s)
     else do {
       absent \<leftarrow> absent_pages E v page_start page_end s;
       (deficit, s) \<leftarrow> budget_deficit E (of_nat absent * VBAR_PAGE_SIZE) s;
       if deficit > 0 then Some (False, s)
       else Some (True, upd_vbar v (\<lambda>mv. mv\<lparr>watermark := page_end\<rparr>) s) } }"

text \<open>The reclaim every fault starts with, elsewhere than on Windows/XPU.\<close>

definition fault_pressure :: "env \<Rightarrow> 'z vstate_scheme \<Rightarrow> (bool \<times> 'z vstate_scheme) option" where
  "fault_pressure E s =
     (if winxpu E then Some (True, s)
      else do { (d, s) \<leftarrow> budget_deficit E 0 s; vbars_free E d s })"

definition vbar_fault_locked ::
  "env \<Rightarrow> nat \<Rightarrow> u64 \<Rightarrow> u64 \<Rightarrow> 'z vstate_scheme \<Rightarrow> ((nat \<times> u32 list) \<times> 'z vstate_scheme) option" where
  "vbar_fault_locked E v offset bytes s = do {
     mv \<leftarrow> vheap s v;
     if winxpu E \<and> closing mv then Some ((VBAR_FAULT_ERROR, []), s)
     else case vbar_fault_page_range mv offset bytes of
         None \<Rightarrow> Some ((VBAR_FAULT_OOM, []), s)
       | Some (page_start, page_end) \<Rightarrow> do {
           let s = s\<lparr>vbars_dirty := True\<rparr>;
           (ok, s) \<leftarrow> fault_pressure E s;
           if \<not> ok then Some ((VBAR_FAULT_ERROR, []), s)
           else do {
             (ok, s) \<leftarrow> fault_reopen E v page_start page_end s;
             if \<not> ok then Some ((VBAR_FAULT_OOM, []), s)
             else do {
               (r, s) \<leftarrow> foreach (fault_page E v page_start page_end) [page_start..<page_end] (False, []) s;
               Some (case r of Inl (_, signature) \<Rightarrow> (VBAR_FAULT_SUCCESS, signature) | Inr failed \<Rightarrow> failed, s) } } } }"

definition vbar_fault ::
  "env \<Rightarrow> nat \<Rightarrow> u64 \<Rightarrow> u64 \<Rightarrow> 'z vstate_scheme \<Rightarrow> ((nat \<times> u32 list) \<times> 'z vstate_scheme) option" where
  "vbar_fault E v offset bytes s = do {
     (_, s) \<leftarrow> (if winxpu E then do {
         (_, s) \<leftarrow> copy_residency_poll E False s;
         (d, s) \<leftarrow> budget_deficit E 0 s;
         (_, s) \<leftarrow> vbars_reclaim_at_owner_boundary E d s;
         Some ((), s) }
       else Some ((), s));
     (_, s) \<leftarrow> vbar_state_lock E s;
     (r, s) \<leftarrow> vbar_fault_locked E v offset bytes s;
     (_, s) \<leftarrow> vbar_state_unlock E s;
     Some (r, s) }"

subsection \<open>The cursor\<close>

lemma move_cursor_Some:
  assumes "watermark mv \<le> length (residency_map mv)"
  shows "\<exists>c'. move_cursor_to_absent E mv c = Some c' \<and> c \<le> c' \<and>
    (\<forall>j. c \<le> j \<and> j < c' \<longrightarrow> vbar_page_is_mapped E (residency_map mv ! j)) \<and>
    (c' < watermark mv \<longrightarrow> \<not> vbar_page_is_mapped E (residency_map mv ! c'))"
  using assms
proof (induction E mv c rule: move_cursor_to_absent.induct)
  case (1 E mv c)
  show ?case
  proof (cases "c < watermark mv \<and> vbar_page_is_mapped E (residency_map mv ! c)")
    case False
    then show ?thesis using 1(2) by (auto simp: move_cursor_to_absent.simps [of E mv c])
  next
    case True
    then obtain c' where c: "move_cursor_to_absent E mv (c + 1) = Some c'" "c + 1 \<le> c'"
      "\<forall>j. c + 1 \<le> j \<and> j < c' \<longrightarrow> vbar_page_is_mapped E (residency_map mv ! j)"
      "c' < watermark mv \<longrightarrow> \<not> vbar_page_is_mapped E (residency_map mv ! c')"
      using 1 by auto
    have "vbar_page_is_mapped E (residency_map mv ! j)" if "c \<le> j" "j < c'" for j
      using c(3) True that by (cases "j = c") auto
    moreover have "move_cursor_to_absent E mv c = Some c'"
      using True c(1) 1(2) by (simp add: move_cursor_to_absent.simps [of E mv c])
    ultimately show ?thesis using c(2,4) by (intro exI [of _ c']) auto
  qed
qed

lemma spend_surplus_Some:
  assumes "watermark mv \<le> length (residency_map mv)"
  shows "\<exists>c'. spend_surplus_on_cursor E mv target c = Some c'"
  using assms
proof (induction E mv target c rule: spend_surplus_on_cursor.induct)
  case (1 E mv target cursor surplus)
  show ?case
  proof (cases "surplus \<ge> VBAR_PAGE_BYTES \<and> cursor < target \<and> cursor < watermark mv")
    case False
    then show ?thesis by (subst spend_surplus_on_cursor.simps) auto
  next
    case True
    obtain c where "move_cursor_to_absent E mv (cursor + 1) = Some c" using move_cursor_Some [OF 1(2)] by blast
    then show ?thesis using 1 True by (auto simp: spend_surplus_on_cursor.simps [of E mv target cursor surplus])
  qed
qed

subsection \<open>Reclaim on behalf of one VBAR\<close>

abbreviation freeing :: "env \<Rightarrow> 'z vstate_scheme \<Rightarrow> 'z vstate_scheme \<Rightarrow> bool" where
  "freeing E s t \<equiv> reclaim_steps E None True s t"

lemma reclaim_watermark:
  assumes "reclaim_steps E p a s t" "vheap s v = Some mv"
  shows "\<exists>mt. vheap t v = Some mt \<and> watermark_limit mt = watermark_limit mv \<and> watermark mt \<le> watermark mv"
proof -
  let ?F = "\<lambda>m m'. watermark_limit m' = watermark_limit m \<and> watermark m' \<le> watermark m"
  have F: "?F m m'" if "lowered m m'" for m m'
    using that by (cases m; cases m') (auto simp: lowered_def)
  have st: "vsteps E (reclaim_page E s p a) (reclaim_field s p a) s t" using assms(1) by (simp add: reclaim_steps_def)
  have "\<exists>mt. vheap t v = Some mt \<and> ?F mv mt"
    by (rule vsteps_field_rel [OF st assms(2)]) (use F in \<open>auto simp: reclaim_field_def\<close>)
  then show ?thesis .
qed

lemma not_left_out [simp]: "\<not> left_out s None True v"
  by (simp add: left_out_def)

lemma wp_spend_freed:
  assumes "vheap t v = Some mv" "watermark mv \<le> length (residency_map mv)" "vheap t i = Some mi"
    "Q (upd_vbar i (\<lambda>mi. mi\<lparr>watermark := watermark mi - 1\<rparr>) t)"
  shows "wp (spend_freed E v target i r c t) (\<lambda>_. Q)"
proof -
  obtain c1 c2 where "spend_surplus_on_cursor E mv target (fst c, snd c + VBAR_PAGE_BYTES) = Some (c1, c2)"
    using spend_surplus_Some [OF assms(2)] by fast
  then show ?thesis using assms by (cases c) (simp add: spend_freed_def)
qed

lemma wp_free_for_step:
  assumes "vinv E s" "freeing E s t" "v \<in> dom (vheap s)" "i \<in> dom (vheap s)"
  shows "wp (free_for_step E v target i (c, synced) t) (\<lambda>r t'. freeing E s t' \<and>
    (case r of Inl a \<Rightarrow> cur_watermark i t' < cur_watermark i t | Inr b \<Rightarrow> True))"
proof -
  have st: "vsteps E (reclaim_page E s None True) (reclaim_field s None True) s t"
    and d: "vbar_lock_depth t = vbar_lock_depth s"
    using assms(2) by (simp_all add: reclaim_steps_def)
  have inv: "vinv E t" by (rule vinv_vsteps [OF st assms(1)])
  obtain mi0 where mi0: "vheap s i = Some mi0" using assms(4) by auto
  obtain mi where mi: "vheap t i = Some mi" "watermark_limit mi = watermark_limit mi0" "watermark mi \<le> watermark mi0"
    using reclaim_watermark [OF assms(2) mi0] by blast
  obtain mv where mv: "vheap t v = Some mv" using assms(3) vsteps_dom [OF st] by auto
  show ?thesis
  proof (cases "wants_more mv target c \<and> watermark mi > watermark_limit mi")
    case False
    then show ?thesis using mi mv assms(2) by (auto simp: free_for_step_def Let_def)
  next
    case go: True
    let ?i = "watermark mi - 1"
    have len: "?i < length (residency_map mi)" "?i < nr_pages mi"
      using vinv_vbar [OF inv mi(1)] go by (auto simp: vbar_ok_def)
    have step: "wp (mod1 E i ?i True False t1) (\<lambda>r t'. (\<exists>mv' mi'. vheap t' v = Some mv' \<and>
         watermark mv' \<le> length (residency_map mv') \<and> vheap t' i = Some mi' \<and> watermark mi' = watermark mi) \<and>
         freeing E s t' \<and> freeing E s (upd_vbar i (\<lambda>mi. mi\<lparr>watermark := watermark mi - 1\<rparr>) t'))"
      if q: "quiet t t1" "vbar_lock_depth t1 = vbar_lock_depth t" for t1
    proof (rule wp_conseq [OF wp_mod1_reclaim [of E t1 i mi _ "reclaim_page E s None True" "reclaim_field s None True"]], goal_cases)
      case 1
      show ?case by (rule vinv_vsteps [OF vsteps_quiet [OF q(1)] inv])
    next
      case (5 r t')
      then obtain rp' where t': "vheap t' = (vheap t1)(i \<mapsto> set_vpage E ?i rp' mi)" by blast
      have st': "vsteps E (reclaim_page E s None True) (reclaim_field s None True) s t'"
        using 5 st q(1) by (blast intro: vsteps_trans vsteps_quiet)
      have step': "vsteps E (reclaim_page E s None True) (reclaim_field s None True) s
          (upd_vbar i (\<lambda>mv. mv\<lparr>watermark := watermark mv - 1\<rparr>) t')"
        by (rule vsteps_trans [OF st'])
          (use t' go mi len in \<open>auto intro!: field_step simp: same_pages_def reclaim_field_def lowered_def\<close>)
      have "v \<in> dom (vheap t')" using assms(3) vsteps_dom [OF st'] by simp
      then obtain mv' where mv': "vheap t' v = Some mv'" by auto
      have "watermark mv' \<le> length (residency_map mv')"
        using vinv_vbar [OF vinv_vsteps [OF st' assms(1)] mv'] by (simp add: vbar_ok_def)
      then show ?case using 5 t' mv' st' step' q(2) d by (auto simp: reclaim_steps_def)
    qed (use mi mi0 quiet_fields(1) [OF that(1)] len go in \<open>auto simp: reclaim_page_def\<close>)
    have step': "wp (mod1 E i ?i True False t1) (\<lambda>r t'. freeing E s t' \<and> wp (spend_freed E v target i r c t')
        (\<lambda>_ t'. freeing E s t' \<and> cur_watermark i t' < cur_watermark i t))"
      if "quiet t t1" "vbar_lock_depth t1 = vbar_lock_depth t" for t1
      by (rule wp_conseq [OF step [OF that]]) (use mi(1) go in \<open>fastforce intro!: wp_spend_freed simp: cur_watermark_def\<close>)
    have q: "quiet t (t\<lparr>hist := CtxSynchronize # hist t\<rparr>)" by (auto intro!: quiet_hist)
    show ?thesis
      using go mi(1) mv len(1) step' [OF quiet_refl] step' [OF q]
      by (auto simp: free_for_step_def Let_def elim!: wp_conseq split: if_splits)
  qed
qed

lemma wp_vbars_free_for_vbar:
  assumes "vinv E s" "vheap s v = Some mv"
  shows "wp (vbars_free_for_vbar E v target surplus s) (\<lambda>r t. freeing E s t)"
proof -
  have wm: "watermark mv \<le> length (residency_map mv)" using vinv_vbar [OF assms] by (simp add: vbar_ok_def)
  obtain cursor where cursor: "move_cursor_to_absent E mv 0 = Some cursor" using move_cursor_Some [OF wm] by blast
  obtain c where c: "spend_surplus_on_cursor E mv target (cursor, surplus) = Some c"
    using spend_surplus_Some [OF wm] by blast
  have v: "v \<in> dom (vheap s)" using assms(2) by auto
  have inner: "wp (loop (Suc (watermark mi)) (free_for_step E v target i) (c, synced) t) (\<lambda>r t'. freeing E s t')"
    if "freeing E s t" "i \<in> dom (vheap s)" "vheap t i = Some mi" for i c synced t mi
  proof (rule wp_loop [where I = "\<lambda>_ t'. freeing E s t'" and m = "\<lambda>_ t'. cur_watermark i t'"], goal_cases)
    case (3 a t')
    obtain c sy where "a = (c, sy)" by (cases a)
    then show ?case using 3
      by (auto intro!: wp_conseq [OF wp_free_for_step [OF assms(1) 3 v that(2)]] split: sum.splits)
  qed (use that in \<open>auto simp: cur_watermark_def\<close>)
  have outer: "wp (foreach (\<lambda>i (c, synced) s. do {
         mv \<leftarrow> vheap s v;
         mi \<leftarrow> vheap s i;
         if wants_more mv target c then do {
           (r, s) \<leftarrow> loop (Suc (watermark mi)) (free_for_step E v target i) (c, synced) s;
           case r of None \<Rightarrow> Some (Inr False, s) | Some a \<Rightarrow> Some (Inl a, s) }
         else Some (Inl (c, synced), s) }) (vorder s) (c, False) s) (\<lambda>r t. freeing E s t)"
  proof (rule wp_foreach [where I = "\<lambda>xs a t. freeing E s t \<and> set xs \<subseteq> dom (vheap s)"], goal_cases)
    case 1
    then show ?case using assms(1) by (auto simp: vinv_def reclaim_steps_def)
  next
    case (2 i xs a t)
    obtain c sy where a: "a = (c, sy)" by (cases a)
    have "dom (vheap t) = dom (vheap s)" using 2 vsteps_dom [of E _ _ s t] unfolding reclaim_steps_def by blast
    then obtain mt mi where m: "vheap t v = Some mt" "vheap t i = Some mi" using 2 v by fastforce
    have "wp (loop (Suc (watermark mi)) (free_for_step E v target i) (c, sy) t)
      (\<lambda>r t'. freeing E s t' \<and> set xs \<subseteq> dom (vheap s))"
      by (rule wp_conseq [OF inner]) (use 2 m in auto)
    then show ?case using 2 a m by (auto elim!: wp_conseq split: option.splits simp del: loop.simps)
  next
    case (3 a t)
    then show ?case by simp
  qed
  have sync: "freeing E s (t\<lparr>hist := CtxSynchronize # hist t\<rparr>)" if "freeing E s t" for t
    using that by (auto simp: reclaim_steps_def)
  show ?thesis
    using assms(2) cursor c sync
    by (auto simp: vbars_free_for_vbar_def simp del: loop.simps intro!: wp_conseq [OF outer] split: sum.splits)
qed

subsection \<open>What no step of a fault may undo\<close>

text \<open>
  \<open>benign\<close>: pins and serials stay, a pinned page keeps its mapping and no page gains one. \<open>pins\<close> reads the pin
  count of a page; \<open>held s v i n\<close>: page \<open>i\<close> is pinned and mapped, with serial \<open>n\<close>.
\<close>

definition benign :: "env \<Rightarrow> page_rel" where
  "benign E = (\<lambda>v i rp rp'. pin_count rp' = pin_count rp \<and> serial rp' = serial rp \<and>
     (\<not> vbar_page_is_mapped E rp \<longrightarrow> \<not> vbar_page_is_mapped E rp') \<and>
     (0 < pin_count rp \<and> vbar_page_is_mapped E rp \<longrightarrow> vbar_page_is_mapped E rp' \<and> handle rp' = handle rp))"

definition any_field :: field_rel where
  "any_field = (\<lambda>v mv mv'. True)"

definition pins :: "'z vstate_scheme \<Rightarrow> nat \<Rightarrow> nat \<Rightarrow> nat" where
  "pins s v i = (case get_page v i s of None \<Rightarrow> 0 | Some rp \<Rightarrow> pin_count rp)"

definition held :: "env \<Rightarrow> 'z vstate_scheme \<Rightarrow> nat \<Rightarrow> nat \<Rightarrow> nat \<Rightarrow> bool" where
  "held E s v i n \<longleftrightarrow> (\<exists>rp. get_page v i s = Some rp \<and> 0 < pin_count rp \<and> vbar_page_is_mapped E rp \<and> serial rp = n)"

abbreviation benigns :: "env \<Rightarrow> 'z vstate_scheme \<Rightarrow> 'z vstate_scheme \<Rightarrow> bool" where
  "benigns E \<equiv> vsteps E (benign E) any_field"

lemma benigns_pages:
  assumes "benigns E s t"
  shows "pins t v i = pins s v i" "held E s v i n \<Longrightarrow> held E t v i n"
proof -
  have "pins t v i = pins s v i \<and> (held E s v i n \<longrightarrow> held E t v i n)"
  proof (cases "vheap s v")
    case None
    then have "vheap t v = None" using vsteps_dom [OF assms] by (metis domIff)
    then show ?thesis using None by (simp add: pins_def held_def get_page_def)
  next
    case (Some mv)
    have "\<exists>mt. vheap t v = Some mt \<and> nr_pages mt = nr_pages mv \<and> vbar mt = vbar mv \<and>
      identity mt = identity mv \<and> device mt = device mv \<and> pageout_size mt = pageout_size mv \<and>
      length (residency_map mt) = length (residency_map mv) \<and>
      (\<forall>i < length (residency_map mv). benign E v i (residency_map mv ! i) (residency_map mt ! i))"
      by (rule vsteps_pages [OF assms Some]) (auto simp: benign_def)
    then show ?thesis using Some
      by (auto simp: pins_def held_def get_page_def benign_def at_index_def split: option.splits if_splits)
  qed
  then show "pins t v i = pins s v i" "held E s v i n \<Longrightarrow> held E t v i n" by simp_all
qed

lemma benign_gone: "vsteps E (gone E J) W s t \<Longrightarrow> benigns E s t"
  by (erule vsteps_mono) (auto simp: gone_def benign_def lost_def same_meta_def any_field_def marked_fields)

lemma benign_flush: "vsteps E (flush_page E) W s t \<Longrightarrow> benigns E s t"
  unfolding flush_page_def by (rule benign_gone)

lemma benign_same_page: "vsteps E same_page W s t \<Longrightarrow> benigns E s t"
  by (erule vsteps_mono) (auto simp: same_page_def benign_def any_field_def)

lemma benign_reclaim: "reclaim_steps E p a s t \<Longrightarrow> benigns E s t"
  unfolding reclaim_steps_def
  by (elim conjE, erule vsteps_mono)
    (auto simp: reclaim_page_def reclaimed_def evictable_def same_meta_def benign_def any_field_def)

lemma graph_ok_quiet: "quiet s t \<Longrightarrow> graph_ok t = graph_ok s"
  using erase_eq(4,5) [of t s] by (simp add: quiet_def graph_ok_def)

text \<open>\<open>fine E s t\<close>: benign steps lead from \<open>s\<close> to \<open>t\<close>, with the lock depth restored.\<close>

definition fine :: "env \<Rightarrow> 'z vstate_scheme \<Rightarrow> 'z vstate_scheme \<Rightarrow> bool" where
  "fine E s t \<longleftrightarrow> benigns E s t \<and> vbar_lock_depth t = vbar_lock_depth s"

lemma fine_refl [simp]: "fine E s s"
  by (simp add: fine_def)

lemma fine_trans: "fine E s t \<Longrightarrow> fine E t u \<Longrightarrow> fine E s u"
  by (auto simp: fine_def intro: vsteps_trans)

lemma fine_quiet: "quiet s t \<Longrightarrow> vbar_lock_depth t = vbar_lock_depth s \<Longrightarrow> fine E s t"
  by (simp add: fine_def vsteps_quiet)

lemma fine_vinv: "fine E s t \<Longrightarrow> vinv E s \<Longrightarrow> vinv E t"
  by (auto simp: fine_def intro: vinv_vsteps)

lemma fine_graph: "fine E s t \<Longrightarrow> graph_ok s \<Longrightarrow> graph_ok t"
  by (auto simp: fine_def intro: graph_ok_vsteps)

lemma fine_dom: "fine E s t \<Longrightarrow> dom (vheap t) = dom (vheap s)"
  unfolding fine_def by (blast dest: vsteps_dom)

lemma fine_vbar:
  assumes "fine E s t" "vheap s v = Some mv"
  shows "\<exists>mt. vheap t v = Some mt \<and> nr_pages mt = nr_pages mv \<and> vbar mt = vbar mv \<and> device mt = device mv \<and>
    length (residency_map mt) = length (residency_map mv)"
proof -
  have st: "benigns E s t" using assms(1) by (simp add: fine_def)
  have "\<exists>mt. vheap t v = Some mt \<and> nr_pages mt = nr_pages mv \<and> vbar mt = vbar mv \<and>
      identity mt = identity mv \<and> device mt = device mv \<and> pageout_size mt = pageout_size mv \<and>
      length (residency_map mt) = length (residency_map mv) \<and> (\<forall>i < length (residency_map mv). True)"
    by (rule vsteps_pages [OF st assms(2)]) auto
  then show ?thesis by blast
qed

lemma fine_reclaim: "reclaim_steps E p a s t \<Longrightarrow> fine E s t"
  using benign_reclaim [of E p a s t] by (simp add: fine_def reclaim_steps_def)

lemma wp_budget_fine: "wp (budget_deficit E n s) (\<lambda>d t. fine E s t \<and> sampled s t)"
  by (rule wp_conseq [OF wp_budget_deficit]) (auto intro: fine_quiet sampled_quiet dest: sampled_fields(10))

lemma wp_retired_except_fine:
  "vinv E s \<Longrightarrow> winxpu E \<Longrightarrow> wp (vbars_free_retired_except E b p s) (\<lambda>_ t. fine E s t)"
  by (rule wp_conseq [OF wp_vbars_free_retired_except]) (auto simp: reclaim_bounded_def fine_def intro: benign_gone)

lemma wp_retired_fine: "vinv E s \<Longrightarrow> winxpu E \<Longrightarrow> wp (vbars_free_retired E b s) (\<lambda>_ t. fine E s t)"
  unfolding vbars_free_retired_def by (rule wp_retired_except_fine)

lemma wp_vbars_free_fine: "vinv E s \<Longrightarrow> graph_ok s \<Longrightarrow> wp (vbars_free E b s) (\<lambda>_ t. fine E s t)"
  unfolding vbars_free_def vbars_free_except_def
  by (rule wp_conseq [OF wp_vbars_free_internal]) (auto simp: reclaim_result_def fine_reclaim)

lemma wp_free_for_vbar_fine: "vinv E s \<Longrightarrow> vheap s v = Some mv \<Longrightarrow>
    wp (vbars_free_for_vbar E v target surplus s) (\<lambda>_ t. fine E s t)"
  by (rule wp_conseq [OF wp_vbars_free_for_vbar]) (auto simp: fine_reclaim)

lemma wp_fault_make_room:
  assumes "vinv E s" "vheap s v = Some mv"
  shows "wp (fault_make_room E v page_end page_nr s) (\<lambda>_ t. fine E s t)"
  using assms wp_retired_fine [OF assms(1)] wp_free_for_vbar_fine [OF assms]
  by (auto simp: fault_make_room_def Let_def)

lemma wp_fault_retry_reclaim:
  assumes "vinv E s" "graph_ok s"
  shows "wp (fault_retry_reclaim E v b s) (\<lambda>_ t. fine E s t)"
proof (cases "winxpu E")
  case False
  then show ?thesis using wp_vbars_free_fine [OF assms] by (simp add: fault_retry_reclaim_def)
next
  case True
  have "wp (vbars_free_retired E b t) (\<lambda>_ u. fine E s u)" if "fine E s t" for b t
    by (rule wp_conseq [OF wp_retired_fine [OF fine_vinv [OF that assms(1)] True]]) (rule fine_trans [OF that])
  then show ?thesis
    using True by (auto simp: fault_retry_reclaim_def intro!: wp_conseq [OF wp_retired_except_fine [OF assms(1) True]])
qed

subsection \<open>One page\<close>

definition any_page :: page_rel where
  "any_page = (\<lambda>v i rp rp'. True)"

abbreviation moved :: "env \<Rightarrow> 'z vstate_scheme \<Rightarrow> 'z vstate_scheme \<Rightarrow> bool" where
  "moved E \<equiv> vsteps E any_page any_field"

lemma moved_benign: "benigns E s t \<Longrightarrow> moved E s t"
  by (erule vsteps_mono) (auto simp: any_page_def any_field_def)

lemma page_written:
  assumes "vheap s v = Some mv" "vheap t = (vheap s)(v \<mapsto> mv')" "residency_map mv' = (residency_map mv)[i := rp]"
    "i < length (residency_map mv)"
  shows "pins t w j = (if w = v \<and> j = i then pin_count rp else pins s w j)"
    "held E t w j n \<longleftrightarrow> (if w = v \<and> j = i then 0 < pin_count rp \<and> vbar_page_is_mapped E rp \<and> serial rp = n else held E s w j n)"
  using assms by (auto simp: pins_def held_def get_page_def at_index_def split: option.splits)

text \<open>
  An attempt to back a page that is not mapped: it succeeds, and only the resident count has to
  follow; or it fails, and the page is still not mapped.
\<close>

lemma dev_same:
  assumes "create_fresh E" "live_handles E h \<subseteq> live_handles E h'" "\<not> vbar_page_is_mapped E rp"
    "\<And>x. VBAR_PAGE_SIZE \<le> x - a \<Longrightarrow> mappings E h' x = mappings E h x"
  shows "dev_change E a rp rp h h'"
  using assms by (auto simp: dev_change_def)

lemma map_change_failed:
  assumes "vinv E s" "vheap s v = Some mv" "i < nr_pages mv" "\<not> vbar_page_is_mapped E (residency_map mv ! i)"
    "map_change E v i mv rp' s t" "map_result r (residency_map mv ! i) rp'" "r \<noteq> CUDA_SUCCESS" "winxpu E"
  shows "fine E s t \<and> \<not> vbar_page_is_mapped E rp' \<and> vheap t = (vheap s)(v \<mapsto> mv\<lparr>residency_map := (residency_map mv)[i := rp']\<rparr>)"
proof -
  let ?rp = "residency_map mv ! i"
  have ok: "page_ok E ?rp" "i < length (residency_map mv)"
    using vbar_okD(1,5) [OF vinv_vbar [OF assms(1,2)]] assms(3) by auto
  have n: "\<not> vbar_page_is_mapped E rp'"
    using map_result_fields(9) [OF assms(6,7)] assms(8) by (simp add: vbar_page_is_mapped_def)
  have f: "pin_count rp' = pin_count ?rp" "serial rp' = serial ?rp" "retire_tokens rp' = retire_tokens ?rp"
    "external_consumer_holds rp' = external_consumer_holds ?rp" "capture_holds rp' = capture_holds ?rp"
    using map_result_fields [OF assms(6)] by auto
  have "page_ok E rp'"
    using ok(1) f n assms(4) map_result_fields(9) [OF assms(6,7)]
    by (auto simp: page_ok_def vbar_consumer_held_def)
  moreover have "set_vpage E i rp' mv = mv\<lparr>residency_map := (residency_map mv)[i := rp']\<rparr>"
    using n assms(4) by (simp add: set_vpage_def one_if_def)
  ultimately have "benigns E s t"
    using assms(5) by (intro page_step [OF assms(2) ok(2), where rp' = rp'])
      (auto simp: map_change_def benign_def f assms(4) n simp del: vbar_upd_order)
  then show ?thesis using n assms(5) by (simp add: fine_def map_change_def page_effect_def)
qed

definition attempt :: "env \<Rightarrow> nat \<Rightarrow> nat \<Rightarrow> model_vbar \<Rightarrow> 'z vstate_scheme \<Rightarrow> int \<Rightarrow> 'z vstate_scheme \<Rightarrow> bool" where
  "attempt E v i mv s r t \<longleftrightarrow> (\<exists>rp'. vheap t = (vheap s)(v \<mapsto> mv\<lparr>residency_map := (residency_map mv)[i := rp']\<rparr>) \<and>
    (if r = CUDA_SUCCESS
     then map_change E v i mv rp' s t \<and> vbar_page_is_mapped E rp' \<and>
       rp'\<lparr>handle := 0, mapped := VBAR_MAPPING_UNMAPPED\<rparr> = (residency_map mv ! i)\<lparr>handle := 0, mapped := VBAR_MAPPING_UNMAPPED\<rparr>
     else fine E s t \<and> \<not> vbar_page_is_mapped E rp'))"

lemma wp_fault_map:
  assumes "vinv E s" "vheap s v = Some mv" "i < nr_pages mv" "\<not> vbar_page_is_mapped E (residency_map mv ! i)"
    "create_fresh E"
  shows "wp (fault_map E v i s) (attempt E v i mv s)"
proof -
  let ?rp = "residency_map mv ! i"
  have ok: "page_ok E ?rp" "i < length (residency_map mv)"
    using vbar_okD(1,5) [OF vinv_vbar [OF assms(1,2)]] assms(3) by auto
  let ?Q = "attempt E v i mv s"
  show ?thesis
  proof (cases "winxpu E")
    case True
    have "wp (vbar_map_new_page E v i s) ?Q"
    proof (rule wp_conseq [OF wp_map_new_page [OF assms(2) ok(2) refl True assms(5,4) ok(1)]], elim conjE)
      fix r t
      assume c: "map_change E v i mv (page_of t v i) s t" "map_result r ?rp (page_of t v i)"
      have m: "vbar_page_is_mapped E (page_of t v i)"
          "(page_of t v i)\<lparr>handle := 0, mapped := VBAR_MAPPING_UNMAPPED\<rparr> = ?rp\<lparr>handle := 0, mapped := VBAR_MAPPING_UNMAPPED\<rparr>"
        if "r = 0"
        using c(2) that by (cases ?rp; cases "page_of t v i"; simp add: map_result_def vbar_page_is_mapped_def)+
      have "vheap t = (vheap s)(v \<mapsto> mv\<lparr>residency_map := (residency_map mv)[i := page_of t v i]\<rparr>)"
        using c(1) by (simp add: map_change_def page_effect_def)
      then show "?Q r t"
        using c m map_change_failed [OF assms(1-4) c _ True] unfolding attempt_def by (intro exI [of _ "page_of t v i"]) auto
    qed
    then show ?thesis using True by (simp add: fault_map_def)
  next
    case False
    then have h: "handle ?rp = 0" using assms(4) by (simp add: vbar_page_is_mapped_def)
    let ?a = "page_vaddr mv i"
    have "wp (three_stooges E ?a VBAR_PAGE_SIZE (device mv) s) (\<lambda>r t. case r of
        Inl e \<Rightarrow> ?Q e t | Inr hn \<Rightarrow> ?Q 0 (upd_page v i (\<lambda>rp. rp\<lparr>handle := hn\<rparr>) t))"
    proof (rule wp_conseq [OF wp_three_stooges], elim conjE)
      fix r t
      assume t0: "t = s\<lparr>hist := hist t, total_vram_usage := total_vram_usage s + (case r of Inl _ \<Rightarrow> 0 | Inr _ \<Rightarrow> VBAR_PAGE_SIZE)\<rparr>"
        and m0: "\<forall>x. VBAR_PAGE_SIZE \<le> x - ?a \<longrightarrow> x \<noteq> ?a \<longrightarrow> mappings E (hist t) x = mappings E (hist s) x"
        and r: "case r of
          Inl e \<Rightarrow> e \<noteq> CUDA_SUCCESS \<and> (create_fresh E \<longrightarrow> live_handles E (hist s) \<subseteq> live_handles E (hist t))
        | Inr hn \<Rightarrow> mappings E (hist t) ?a = Some (VBAR_PAGE_SIZE, hn) \<and>
            (create_fresh E \<longrightarrow> hn \<noteq> 0 \<and> hn \<notin> live_handles E (hist s)) \<and>
            live_handles E (hist t) = insert hn (live_handles E (hist s))"
      have u: "total_vram_usage t = total_vram_usage s + (case r of Inl _ \<Rightarrow> 0 | Inr _ \<Rightarrow> VBAR_PAGE_SIZE)"
        using arg_cong [OF t0, of total_vram_usage] by simp
      have m: "\<And>x. VBAR_PAGE_SIZE \<le> x - ?a \<Longrightarrow> mappings E (hist t) x = mappings E (hist s) x"
      proof -
        fix x assume le: "VBAR_PAGE_SIZE \<le> x - ?a"
        then have "x \<noteq> ?a" by auto
        then show "mappings E (hist t) x = mappings E (hist s) x" using m0 le by blast
      qed
      have vh: "vheap t = vheap s" "erase t = erase s" "vbar_lock_depth t = vbar_lock_depth s"
        using arg_cong [OF t0, of vheap] arg_cong [OF t0, of erase] arg_cong [OF t0, of vbar_lock_depth] by simp_all
      show "case r of Inl e \<Rightarrow> ?Q e t | Inr hn \<Rightarrow> ?Q 0 (upd_page v i (\<lambda>rp. rp\<lparr>handle := hn\<rparr>) t)"
      proof (cases r)
        case (Inl e)
        have "benigns E s t"
        proof (rule page_step [OF assms(2) ok(2), where rp' = ?rp])
          show "dev_change E ?a ?rp ?rp (hist s) (hist t)"
            by (rule dev_same [OF assms(5) _ assms(4) m]) (use r Inl assms(5) in auto)
        qed (use vh u Inl assms(2) ok(2) in \<open>auto simp: page_effect_def set_vpage_def benign_def fun_upd_idem\<close>)
        then have "?Q e t"
          using r Inl vh assms(2,4) ok(2) unfolding attempt_def by (intro exI [of _ ?rp]) (auto simp: fine_def)
        then show ?thesis using Inl by simp
      next
        case (Inr hn)
        then have hn: "hn \<noteq> 0" "hn \<notin> live_handles E (hist s)" "live_handles E (hist t) = insert hn (live_handles E (hist s))"
          "mappings E (hist t) ?a = Some (VBAR_PAGE_SIZE, hn)" using r assms(5) by auto
        let ?rp' = "?rp\<lparr>handle := hn\<rparr>"
        have "map_change E v i mv ?rp' s (upd_page v i (\<lambda>rp. rp\<lparr>handle := hn\<rparr>) t)"
          using hn vh u Inr h m assms(2)
          by (simp add: map_change_def page_effect_def dev_change_def owned_def bytes_if_def vbar_page_is_mapped_def False)
        then have "?Q 0 (upd_page v i (\<lambda>rp. rp\<lparr>handle := hn\<rparr>) t)"
          using vh hn False assms(2) unfolding attempt_def by (intro exI [of _ ?rp']) (auto simp: vbar_page_is_mapped_def)
        then show ?thesis using Inr by simp
      qed
    qed
    then have "wp (fault_map E v i s) ?Q"
      using False assms(2) unfolding fault_map_def by (simp, elim wp_conseq) (simp split: sum.splits)
    then show ?thesis .
  qed
qed

definition absent :: "env \<Rightarrow> 'z vstate_scheme \<Rightarrow> nat \<Rightarrow> nat \<Rightarrow> bool" where
  "absent E s v i \<longleftrightarrow> (\<exists>rp. get_page v i s = Some rp \<and> \<not> vbar_page_is_mapped E rp)"

lemma absent_fine:
  assumes "fine E s t" "absent E s v i"
  shows "absent E t v i"
proof -
  have st: "benigns E s t" using assms(1) by (simp add: fine_def)
  obtain mv where mv: "vheap s v = Some mv" "i < length (residency_map mv)" "\<not> vbar_page_is_mapped E (residency_map mv ! i)"
    using assms(2) by (auto simp: absent_def get_page_def at_index_eq_Some_conv split: bind_splits)
  have "\<exists>mt. vheap t v = Some mt \<and> nr_pages mt = nr_pages mv \<and> vbar mt = vbar mv \<and>
      identity mt = identity mv \<and> device mt = device mv \<and> pageout_size mt = pageout_size mv \<and>
      length (residency_map mt) = length (residency_map mv) \<and>
      (\<forall>i < length (residency_map mv). benign E v i (residency_map mv ! i) (residency_map mt ! i))"
    by (rule vsteps_pages [OF st mv(1)]) (auto simp: benign_def)
  then show ?thesis using mv by (auto simp: absent_def get_page_def benign_def)
qed

text \<open>What the allocation of a missing page leaves: a mapped page to install, or a benign change.\<close>

definition allocated :: "env \<Rightarrow> nat \<Rightarrow> nat \<Rightarrow> 'z vstate_scheme \<Rightarrow> 'z vstate_scheme \<Rightarrow> bool" where
  "allocated E v i s t \<longleftrightarrow> (\<exists>u mv rp'. fine E s u \<and> vheap u v = Some mv \<and> i < length (residency_map mv) \<and>
     \<not> vbar_page_is_mapped E (residency_map mv ! i) \<and> map_change E v i mv rp' u t \<and> vbar_page_is_mapped E rp' \<and>
     rp'\<lparr>handle := 0, mapped := VBAR_MAPPING_UNMAPPED\<rparr> =
       (residency_map mv ! i)\<lparr>handle := 0, mapped := VBAR_MAPPING_UNMAPPED\<rparr>)"

definition alloc_post :: "env \<Rightarrow> nat \<Rightarrow> nat \<Rightarrow> 'z vstate_scheme \<Rightarrow> nat \<Rightarrow> 'z vstate_scheme \<Rightarrow> bool" where
  "alloc_post E v i s code t \<longleftrightarrow>
     (if code = VBAR_FAULT_SUCCESS then allocated E v i s t else code \<in> {1, 2} \<and> fine E s t)"

lemma alloc_post_fine: "fine E s t \<Longrightarrow> alloc_post E v i t code u \<Longrightarrow> alloc_post E v i s code u"
  unfolding alloc_post_def allocated_def using fine_trans [of E s t] by (simp split: if_splits) blast

lemma wp_fault_map_post:
  assumes "vinv E s" "absent E s v i" "create_fresh E"
  shows "wp (fault_map E v i s) (\<lambda>r t. if r = CUDA_SUCCESS then allocated E v i s t else fine E s t \<and> absent E t v i)"
proof -
  obtain mv where mv: "vheap s v = Some mv" "i < length (residency_map mv)" "\<not> vbar_page_is_mapped E (residency_map mv ! i)"
    using assms(2) by (auto simp: absent_def get_page_def at_index_eq_Some_conv split: bind_splits)
  have i: "i < nr_pages mv" using vinv_vbar [OF assms(1) mv(1)] mv(2) by (simp add: vbar_ok_def)
  show ?thesis
    by (rule wp_conseq [OF wp_fault_map [OF assms(1) mv(1) i mv(3) assms(3)]])
      (use mv in \<open>auto simp: attempt_def allocated_def absent_def get_page_def intro: fine_refl split: if_splits\<close>)
qed

lemma fault_error_cases: "fault_error E err = 0 \<longleftrightarrow> err = 0" "err \<noteq> 0 \<Longrightarrow> fault_error E err \<in> {1, 2}"
  by (auto simp: fault_error_def)

lemma above_watermark_defined: "absent E s v i \<Longrightarrow> \<exists>b. above_watermark v page_end s = Some b"
  by (auto simp: absent_def get_page_def above_watermark_def split: bind_splits)

lemma wp_fault_last_resort:
  assumes "vinv E s" "absent E s v i" "create_fresh E" "err \<noteq> CUDA_SUCCESS"
  shows "wp (fault_last_resort E v page_end i err s) (alloc_post E v i s)"
proof (cases "winxpu E \<and> err = CUDA_ERROR_OUT_OF_MEMORY")
  case False
  then show ?thesis
    using fault_error_cases(1) [of E err] fault_error_cases(2) [of err E] assms(4) by (auto simp: fault_last_resort_def alloc_post_def)
next
  case True
  show ?thesis
    unfolding fault_last_resort_def using True
  proof (simp, intro wp_conseq [OF wp_retired_fine [OF assms(1)]], goal_cases)
    case (2 r t)
    obtain b where b: "above_watermark v page_end t = Some b"
      using above_watermark_defined [OF absent_fine [OF 2(3) assms(2)]] by blast
    have "wp (fault_map E v i t) (\<lambda>r u. alloc_post E v i t (fault_error E r) u)"
      by (rule wp_conseq [OF wp_fault_map_post [OF fine_vinv [OF 2(3) assms(1)] absent_fine [OF 2(3) assms(2)] assms(3)]])
        (use fault_error_cases in \<open>auto simp: alloc_post_def split: if_splits\<close>)
    then have "wp (fault_map E v i t) (\<lambda>r u. alloc_post E v i s (fault_error E r) u)"
      by (rule wp_conseq) (rule alloc_post_fine [OF 2(3)])
    then show ?case
      using 2 b by (auto simp: alloc_post_def elim!: wp_conseq split: if_splits)
  qed simp
qed

lemma wp_fault_retry:
  assumes "vinv E s" "graph_ok s" "absent E s v i" "create_fresh E"
  shows "wp (fault_retry E v page_end i b s) (alloc_post E v i s)"
proof -
  have again: "wp (fault_map E v i u) (\<lambda>err w. if err = CUDA_SUCCESS then alloc_post E v i s 0 w
      else wp (fault_last_resort E v page_end i err w) (alloc_post E v i s))"
    if u: "fine E s u" for u
  proof (rule wp_conseq [OF wp_fault_map_post [OF fine_vinv [OF u assms(1)] absent_fine [OF u assms(3)] assms(4)]], goal_cases)
    case (1 err w)
    show ?case
    proof (cases "err = CUDA_SUCCESS")
      case True
      then have "alloc_post E v i u 0 w" using 1 by (simp add: alloc_post_def)
      then show ?thesis using True alloc_post_fine [OF u] by simp
    next
      case False
      then have w: "fine E s w" "absent E w v i" using 1 fine_trans [OF u] by simp_all
      have "wp (fault_last_resort E v page_end i err w) (alloc_post E v i s)"
        by (rule wp_conseq [OF wp_fault_last_resort [OF fine_vinv [OF w(1) assms(1)] w(2) assms(4) False]])
          (rule alloc_post_fine [OF w(1)])
      then show ?thesis using False by simp
    qed
  qed
  show ?thesis
    unfolding fault_retry_def
  proof (simp only: wp_bind split_conv, rule wp_conseq [OF wp_fault_retry_reclaim [OF assms(1,2)]])
    fix ok u
    assume u: "fine E s u"
    obtain above where "above_watermark v page_end u = Some above"
      using above_watermark_defined [OF absent_fine [OF u assms(3)]] by blast
    then show "wp (if \<not> ok then Some (VBAR_FAULT_ERROR, u)
       else do {
         above \<leftarrow> above_watermark v page_end u;
         if above then Some (VBAR_FAULT_OOM, u)
         else do {
           (err, s) \<leftarrow> fault_map E v i u;
           if err \<noteq> CUDA_SUCCESS then fault_last_resort E v page_end i err s
           else Some (VBAR_FAULT_SUCCESS, s) } }) (alloc_post E v i s)"
      using u again [OF u] by (auto simp: alloc_post_def elim!: wp_conseq split: if_splits)
  qed
qed

lemma wp_fault_allocate:
  assumes "vinv E s" "graph_ok s" "absent E s v i" "create_fresh E"
  shows "wp (fault_allocate E v page_end i s) (alloc_post E v i s)"
proof -
  have retry: "wp (fault_retry E v page_end i b t) (alloc_post E v i s)" if "fine E s t" for b t
    by (rule wp_conseq [OF wp_fault_retry [OF fine_vinv [OF that assms(1)] fine_graph [OF that assms(2)]
          absent_fine [OF that assms(3)] assms(4)]]) (rule alloc_post_fine [OF that])
  have attempt: "wp (fault_map E v i t) (\<lambda>err u. if err = CUDA_SUCCESS then alloc_post E v i s 0 u else fine E s u)"
    if t: "fine E s t" for t
  proof (rule wp_conseq [OF wp_fault_map_post [OF fine_vinv [OF t assms(1)] absent_fine [OF t assms(3)] assms(4)]], goal_cases)
    case (1 err u)
    then show ?case
      using alloc_post_fine [OF t, of v i 0 u] fine_trans [OF t] by (auto simp: alloc_post_def split: if_splits)
  qed
  have fail: "fine E s u \<Longrightarrow> alloc_post E v i s VBAR_FAULT_ERROR u" for u
    by (simp add: alloc_post_def)
  show ?thesis
    unfolding fault_allocate_def
    by (simp, rule wp_conseq [OF wp_budget_fine])
      (auto intro!: retry wp_conseq [OF attempt] fail)
qed

subsection \<open>The range\<close>

text \<open>\<open>miss_post\<close>: the page is installed with its first pin, or the change is benign.\<close>

definition pinned_at :: "env \<Rightarrow> nat \<Rightarrow> nat \<Rightarrow> 'z vstate_scheme \<Rightarrow> 'z vstate_scheme \<Rightarrow> bool" where
  "pinned_at E v i s t \<longleftrightarrow> moved E s t \<and> vbar_lock_depth t = vbar_lock_depth s \<and>
     (\<forall>w j. pins t w j = pins s w j + (if w = v \<and> j = i then 1 else 0)) \<and>
     (\<exists>n. held E t v i n) \<and> (\<forall>w j n. (w, j) \<noteq> (v, i) \<longrightarrow> held E s w j n \<longrightarrow> held E t w j n)"

lemma pinned_atI:
  assumes "fine E s u" "vheap u v = Some mv" "i < length (residency_map mv)"
    "vheap t = (vheap u)(v \<mapsto> mv')" "residency_map mv' = (residency_map mv)[i := rp]"
    "pin_count rp = pin_count (residency_map mv ! i) + 1" "vbar_page_is_mapped E rp"
    "vsteps E any_page any_field u t" "vbar_lock_depth t = vbar_lock_depth u"
  shows "pinned_at E v i s t"
  unfolding pinned_at_def
proof (intro conjI allI impI)
  have b: "benigns E s u" using assms(1) by (simp add: fine_def)
  show "moved E s t" using moved_benign [OF b] assms(8) by (blast intro: vsteps_trans)
  show "vbar_lock_depth t = vbar_lock_depth s" using assms(1,9) by (simp add: fine_def)
  have "pins u v i = pin_count (residency_map mv ! i)" using assms(2,3) by (simp add: pins_def get_page_def)
  then show "pins t w j = pins s w j + (if w = v \<and> j = i then 1 else 0)" for w j
    using page_written(1) [OF assms(2,4,5,3), of w j] assms(6) benigns_pages(1) [OF b, of w j] by auto
  show "\<exists>n. held E t v i n"
    using page_written(2) [OF assms(2,4,5,3), of E v i] assms(6,7) by auto
  show "held E t w j n" if "(w, j) \<noteq> (v, i)" "held E s w j n" for w j n
    using page_written(2) [OF assms(2,4,5,3), of E w j n] that benigns_pages(2) [OF b, of w j n] by auto
qed

lemma install_allocated:
  assumes "allocated E v i s t" "vinv E s"
  shows "pinned_at E v i s (upd_vbar v (\<lambda>mv. mv\<lparr>resident_count := resident_count mv + 1\<rparr>) (upd_page v i (fault_install E) t))"
proof -
  let ?t = "upd_vbar v (\<lambda>mv. mv\<lparr>resident_count := resident_count mv + 1\<rparr>) (upd_page v i (fault_install E) t)"
  obtain u mv rp' where u: "fine E s u" "vheap u v = Some mv" "i < length (residency_map mv)"
    "\<not> vbar_page_is_mapped E (residency_map mv ! i)" "map_change E v i mv rp' u t" "vbar_page_is_mapped E rp'"
    "rp'\<lparr>handle := 0, mapped := VBAR_MAPPING_UNMAPPED\<rparr> =
       (residency_map mv ! i)\<lparr>handle := 0, mapped := VBAR_MAPPING_UNMAPPED\<rparr>"
    using assms(1) by (auto simp: allocated_def)
  let ?old = "residency_map mv ! i" and ?rp = "fault_install E rp'"
  have f: "pin_count rp' = pin_count ?old" "retire_tokens rp' = retire_tokens ?old"
    "external_consumer_holds rp' = external_consumer_holds ?old" "capture_holds rp' = capture_holds ?old"
    using u(7) by (cases ?old; cases rp'; simp)+
  have m: "vbar_page_is_mapped E ?rp" "owned ?rp = owned rp'" "handle ?rp = handle rp'" "pin_count ?rp = pin_count ?old + 1"
    using u(6) f by (auto simp: fault_install_def Let_def vbar_page_is_mapped_def owned_def)
  have ok: "page_ok E ?old" using vinv_vbar [OF fine_vinv [OF u(1) assms(2)] u(2)] u(3) by (simp add: vbar_ok_def)
  have mv': "set_vpage E i ?rp mv = mv\<lparr>residency_map := (residency_map mv)[i := ?rp], resident_count := resident_count mv + 1\<rparr>"
    using m(1) u(4) by (simp add: set_vpage_def one_if_def)
  have vh: "vheap ?t = (vheap u)(v \<mapsto> set_vpage E i ?rp mv)"
    using u(3,5) unfolding mv' by (simp add: map_change_def page_effect_def)
  have "vsteps E any_page any_field u ?t"
  proof (rule page_step [OF u(2,3), where rp' = ?rp])
    show "page_effect v (set_vpage E i ?rp mv) (total_vram_usage u + bytes_if (owned ?rp) - bytes_if (owned ?old)) u ?t"
      using vh u(5) m(2) by (simp add: map_change_def page_effect_def)
    show "dev_change E (page_vaddr mv i) ?old ?rp (hist u) (hist ?t)"
      using u(5,6) m by (simp add: map_change_def dev_change_def)
    show "page_ok E ?old \<longrightarrow> page_ok E ?rp"
      using m f u(6) mapped_owned [OF u(6)]
      by (auto simp: page_ok_def fault_install_def Let_def vbar_consumer_held_def owned_def)
  qed (simp add: any_page_def)
  moreover have "vbar_lock_depth ?t = vbar_lock_depth u" using u(5) by (simp add: map_change_def page_effect_def)
  ultimately show ?thesis
    using pinned_atI [OF u(1-3) vh _ m(4,1)] by simp
qed

lemma wp_fault_miss:
  assumes "vinv E s" "graph_ok s" "absent E s v i" "create_fresh E"
  shows "wp (fault_miss E v page_end i checked s) (\<lambda>code t.
    if code = VBAR_FAULT_SUCCESS then pinned_at E v i s t else code \<in> {1, 2} \<and> fine E s t)"
proof -
  obtain mv where mv: "vheap s v = Some mv" using assms(3) by (auto simp: absent_def get_page_def split: bind_splits)
  have room: "wp (fault_make_room E v page_end i s) (\<lambda>ok t. fine E s t \<and>
      (\<exists>above. above_watermark v page_end t = Some above))"
    by (rule wp_conseq [OF wp_fault_make_room [OF assms(1) mv]])
      (use absent_fine [OF _ assms(3)] above_watermark_defined in blast)
  have start: "wp (fault_first_miss E v page_end i checked s) (\<lambda>code t. fine E s t \<and> code \<in> {0, 1, 2})"
    using room by (auto simp: fault_first_miss_def elim!: wp_conseq)
  have alloc: "wp (fault_allocate E v page_end i t) (alloc_post E v i s)" if "fine E s t" for t
    by (rule wp_conseq [OF wp_fault_allocate [OF fine_vinv [OF that assms(1)] fine_graph [OF that assms(2)]
          absent_fine [OF that assms(3)] assms(4)]]) (rule alloc_post_fine [OF that])
  have install: "alloc_post E v i s 0 u \<Longrightarrow> pinned_at E v i s
      (upd_vbar v (\<lambda>mv. mv\<lparr>resident_count := resident_count mv + 1\<rparr>) (upd_page v i (fault_install E) u))" for u
    using install_allocated [OF _ assms(1)] by (simp add: alloc_post_def)
  have fail: "code \<noteq> 0 \<Longrightarrow> alloc_post E v i s code u \<Longrightarrow> code \<in> {1, 2} \<and> fine E s u" for code u
    by (simp add: alloc_post_def)
  show ?thesis
    unfolding fault_miss_def
    by (simp only: wp_bind split_conv, rule wp_conseq [OF start])
      (use install fail in \<open>auto intro!: wp_conseq [OF alloc] split: if_splits\<close>)
qed

text \<open>\<open>steady\<close>: no pin changes and no held page is lost.\<close>

definition steady :: "env \<Rightarrow> 'z vstate_scheme \<Rightarrow> 'z vstate_scheme \<Rightarrow> bool" where
  "steady E s t \<longleftrightarrow> moved E s t \<and> vbar_lock_depth t = vbar_lock_depth s \<and>
     (\<forall>w j. pins t w j = pins s w j) \<and> (\<forall>w j n. held E s w j n \<longrightarrow> held E t w j n)"

lemma steady_fine: "fine E s t \<Longrightarrow> steady E s t"
  using benigns_pages [of E s t] moved_benign [of E s t] by (simp add: fine_def steady_def)

lemma steady_refl [simp]: "steady E s s"
  by (simp add: steady_def)

lemma steady_trans: "steady E s t \<Longrightarrow> steady E t u \<Longrightarrow> steady E s u"
  by (auto simp: steady_def intro: vsteps_trans)

lemma wp_fault_restore:
  assumes "vinv E s" "vheap s v = Some mv" "i < nr_pages mv"
  shows "wp (fault_restore E v i s) (\<lambda>ok t. steady E s t)"
proof -
  let ?rp = "residency_map mv ! i"
  have ok: "page_ok E ?rp" "i < length (residency_map mv)"
    using vbar_okD(1,5) [OF vinv_vbar [OF assms(1,2)]] assms(3) by auto
  have g: "get_page v i s = Some ?rp" using assms(2) ok(2) by (simp add: get_page_def)
  show ?thesis
  proof (cases "winxpu E \<and> handle ?rp \<noteq> 0 \<and> mapped ?rp = VBAR_MAPPING_UNMAPPED")
    case False
    then show ?thesis using g by (auto simp: fault_restore_def)
  next
    case True
    then have n: "\<not> vbar_page_is_mapped E ?rp" by (simp add: vbar_page_is_mapped_def)
    then have pin: "pin_count ?rp = 0" "\<not> vbar_consumer_held ?rp" using ok(1) by (auto simp: page_ok_def)
    have "wp (vbar_restore_page_mapping E v i True s) (\<lambda>m t. steady E s t)"
    proof (rule wp_conseq [OF wp_restore [OF assms(2) ok(2) _ refl refl]], goal_cases)
      case (2 m t)
      then obtain ru where r: "page_effect v (mv\<lparr>residency_map := (residency_map mv)[i := ?rp\<lparr>mapped := m, retire_unknown := ru\<rparr>],
           resident_count := resident_count mv + one_if (m = VBAR_MAPPING_MAPPED)\<rparr>) (total_vram_usage s) s t"
        "live_handles E (hist t) = live_handles E (hist s)"
        "\<forall>x. VBAR_PAGE_SIZE \<le> x - page_vaddr mv i \<longrightarrow> mappings E (hist t) x = mappings E (hist s) x"
        "m = VBAR_MAPPING_MAPPED \<longrightarrow> mappings E (hist t) (page_vaddr mv i) = Some (VBAR_PAGE_SIZE, handle ?rp)"
        by auto
      let ?rp' = "?rp\<lparr>mapped := m, retire_unknown := ru\<rparr>"
      have m: "vbar_page_is_mapped E ?rp' \<longleftrightarrow> m = VBAR_MAPPING_MAPPED" "owned ?rp' = owned ?rp"
        using True by (auto simp: vbar_page_is_mapped_def owned_def)
      have mv': "set_vpage E i ?rp' mv = mv\<lparr>residency_map := (residency_map mv)[i := ?rp'],
           resident_count := resident_count mv + one_if (m = VBAR_MAPPING_MAPPED)\<rparr>"
        using m(1) n by (simp add: set_vpage_def one_if_def)
      have "moved E s t"
      proof (rule page_step [OF assms(2) ok(2), where rp' = ?rp'])
        show "page_effect v (set_vpage E i ?rp' mv) (total_vram_usage s + bytes_if (owned ?rp') - bytes_if (owned ?rp)) s t"
          using r(1) m(2) unfolding mv' by simp
        show "dev_change E (page_vaddr mv i) ?rp ?rp' (hist s) (hist t)"
          using r(2-) m by (simp add: dev_change_def)
        show "page_ok E ?rp \<longrightarrow> page_ok E ?rp'"
          using ok(1) pin True by (auto simp: page_ok_def vbar_consumer_held_def)
      qed (simp add: any_page_def)
      moreover have vh: "vheap t = (vheap s)(v \<mapsto> set_vpage E i ?rp' mv)" "vbar_lock_depth t = vbar_lock_depth s"
        using r(1) unfolding mv' by (simp_all add: page_effect_def)
      moreover have "pins s v i = 0" using g pin by (simp add: pins_def)
      ultimately show ?case
        using page_written [OF assms(2) vh(1) _ ok(2), of ?rp'] pin g n
        by (auto simp: steady_def held_def)
    qed (use True in simp)
    then show ?thesis using True g by (auto simp: fault_restore_def elim!: wp_conseq)
  qed
qed

text \<open>The invariant of the page loop: the pages before \<open>k\<close> hold one more pin, and their serials are handed out.\<close>

definition pins_added :: "nat \<Rightarrow> nat \<Rightarrow> nat \<Rightarrow> 'z vstate_scheme \<Rightarrow> 'z vstate_scheme \<Rightarrow> bool" where
  "pins_added v lo hi s t \<longleftrightarrow> (\<forall>w j. pins t w j = pins s w j + (if w = v \<and> lo \<le> j \<and> j < hi then 1 else 0))"

definition serials_given :: "env \<Rightarrow> nat \<Rightarrow> nat \<Rightarrow> nat \<Rightarrow> u32 list \<Rightarrow> 'z vstate_scheme \<Rightarrow> bool" where
  "serials_given E v lo hi signature t \<longleftrightarrow> length signature = hi - lo \<and>
     (\<forall>j. lo \<le> j \<and> j < hi \<longrightarrow> (\<exists>n. held E t v j n \<and> signature ! (j - lo) = of_nat n))"

definition fault_inv :: "env \<Rightarrow> 'z vstate_scheme \<Rightarrow> nat \<Rightarrow> nat \<Rightarrow> nat \<Rightarrow> u32 list \<Rightarrow> 'z vstate_scheme \<Rightarrow> bool" where
  "fault_inv E s v lo k signature t \<longleftrightarrow> moved E s t \<and> vbar_lock_depth t = vbar_lock_depth s \<and>
     pins_added v lo k s t \<and> serials_given E v lo k signature t"

lemma fault_inv_steady:
  assumes "fault_inv E s v lo k signature t" "steady E t u"
  shows "fault_inv E s v lo k signature u"
proof -
  have "serials_given E v lo k signature u" using assms unfolding fault_inv_def serials_given_def steady_def by blast
  then show ?thesis
    using assms by (auto simp: fault_inv_def steady_def pins_added_def intro: vsteps_trans)
qed

lemma fault_inv_pinned:
  assumes "fault_inv E s v lo k signature t" "pinned_at E v k t u" "held E u v k n" "lo \<le> k"
  shows "fault_inv E s v lo (Suc k) (signature @ [of_nat n]) u"
proof -
  have l: "length signature = k - lo" using assms(1) by (simp add: fault_inv_def serials_given_def)
  have "\<exists>m. held E u v j m \<and> (signature @ [of_nat n]) ! (j - lo) = of_nat m" if "lo \<le> j" "j < Suc k" for j
  proof (cases "j = k")
    case True
    then show ?thesis using l assms(3) by (intro exI [of _ n]) (simp add: nth_append)
  next
    case False
    then have j: "j < k" and lj: "lo \<le> j" using that by simp_all
    then obtain m where m: "held E t v j m" "signature ! (j - lo) = of_nat m"
      using assms(1) that(1) unfolding fault_inv_def serials_given_def by blast
    have "held E u v j m" using m(1) assms(2) j by (simp add: pinned_at_def)
    moreover have "j - lo < length signature" using l j lj by simp
    ultimately show ?thesis using m(2) by (auto simp: nth_append)
  qed
  then have "serials_given E v lo (Suc k) (signature @ [of_nat n]) u" using l assms(4) by (simp add: serials_given_def)
  then show ?thesis
    using assms(1,2,4) by (auto simp: fault_inv_def pinned_at_def pins_added_def intro: vsteps_trans)
qed

lemma moved_vbar:
  assumes "moved E s t" "vheap s v = Some mv"
  shows "\<exists>mt. vheap t v = Some mt \<and> nr_pages mt = nr_pages mv \<and> length (residency_map mt) = length (residency_map mv)"
proof -
  have "\<exists>mt. vheap t v = Some mt \<and> nr_pages mt = nr_pages mv \<and> vbar mt = vbar mv \<and>
      identity mt = identity mv \<and> device mt = device mv \<and> pageout_size mt = pageout_size mv \<and>
      length (residency_map mt) = length (residency_map mv) \<and> (\<forall>i < length (residency_map mv). True)"
    by (rule vsteps_pages [OF assms]) auto
  then show ?thesis by blast
qed

lemma wp_unpin_range:
  assumes "vinv E t" "vheap t v = Some mv" "hi \<le> nr_pages mv" "lo \<le> hi"
  shows "wp (vbar_unpin_range v lo hi t) (\<lambda>_ u. moved E t u \<and> vbar_lock_depth u = vbar_lock_depth t \<and>
    (\<forall>w j. pins u w j = pins t w j - (if w = v \<and> lo \<le> j \<and> j < hi then 1 else 0)))"
  unfolding vbar_unpin_range_def
proof (rule wp_each [where I = "\<lambda>xs u. \<exists>m. xs = [m..<hi] \<and> lo \<le> m \<and> m \<le> hi \<and> moved E t u \<and>
    vbar_lock_depth u = vbar_lock_depth t \<and>
    (\<forall>w j. pins u w j = pins t w j - (if w = v \<and> lo \<le> j \<and> j < m then 1 else 0))"], goal_cases)
  case 1
  then show ?case using assms(4) by (intro exI [of _ lo]) simp
next
  case (2 i xs u)
  then obtain m where m: "i # xs = [m..<hi]" "lo \<le> m" "m \<le> hi" "moved E t u" "vbar_lock_depth u = vbar_lock_depth t"
    "\<forall>w j. pins u w j = pins t w j - (if w = v \<and> lo \<le> j \<and> j < m then 1 else 0)" by blast
  then have i: "i = m" "xs = [Suc m..<hi]" "m < hi" by (cases "m < hi"; simp add: upt_conv_Cons)+
  obtain mu where mu: "vheap u v = Some mu" "nr_pages mu = nr_pages mv" using moved_vbar [OF m(4) assms(2)] by blast
  have ok: "vbar_ok E mu" by (rule vinv_vbar [OF vinv_vsteps [OF m(4) assms(1)] mu(1)])
  then have len: "m < length (residency_map mu)" using mu(2) i(3) assms(3) by (simp add: vbar_ok_def)
  let ?rp = "residency_map mu ! m"
  let ?rp' = "?rp\<lparr>pin_count := pin_count ?rp - 1\<rparr>"
  let ?u = "upd_page v m (\<lambda>rp. rp\<lparr>pin_count := pin_count rp - 1\<rparr>) u"
  have st: "moved E u ?u"
  proof (rule page_step [OF mu(1) len, where rp' = ?rp'])
    show "page_effect v (set_vpage E m ?rp' mu) (total_vram_usage u + bytes_if (owned ?rp') - bytes_if (owned ?rp)) u ?u"
      using mu(1) by (simp add: page_effect_def set_vpage_def)
    show "dev_change E (page_vaddr mu m) ?rp ?rp' (hist u) (hist ?u)" by (simp add: dev_change_def)
  qed (auto simp: any_page_def page_ok_def vbar_consumer_held_def)
  have p: "pins ?u w j = (if w = v \<and> j = m then pin_count ?rp - 1 else pins u w j)" for w j
    using page_written(1) [OF mu(1), of ?u "mu\<lparr>residency_map := (residency_map mu)[m := ?rp']\<rparr>" m ?rp' w j] mu(1) len by simp
  have pu: "pins u v m = pin_count ?rp" using mu(1) len by (simp add: pins_def get_page_def)
  then have ptm: "pins t v m = pin_count ?rp" using m(6) by auto
  have "\<forall>w j. pins ?u w j = pins t w j - (if w = v \<and> lo \<le> j \<and> j < Suc m then 1 else 0)"
    using p ptm m(2,6) by (auto simp: less_Suc_eq)
  moreover have "\<forall>w j. pins u w j = pins t w j - (if w = v \<and> lo \<le> j \<and> j < Suc m then 1 else 0)" if "pin_count ?rp = 0"
    using m(6) ptm that by (auto simp: less_Suc_eq)
  ultimately show ?case
    using i m mu(1) len st by (auto simp: get_page_def intro!: exI [of _ "Suc m"] intro: vsteps_trans)
next
  case (3 u)
  then obtain m where "[] = [m..<hi]" "m \<le> hi" and r: "moved E t u" "vbar_lock_depth u = vbar_lock_depth t"
    "\<forall>w j. pins u w j = pins t w j - (if w = v \<and> lo \<le> j \<and> j < m then 1 else 0)" by blast
  then have "m = hi" by (cases "m < hi") (simp_all add: upt_conv_Cons)
  then show ?case using r by simp
qed

text \<open>Giving up takes back exactly the pins the fault took.\<close>

lemma wp_give_up:
  assumes "vinv E s" "vheap s v = Some mv" "k \<le> nr_pages mv" "lo \<le> k"
    "moved E s t" "vbar_lock_depth t = vbar_lock_depth s" "pins_added v lo k s t"
  shows "wp (vbar_unpin_range v lo k t) (\<lambda>_ u. moved E s u \<and> vbar_lock_depth u = vbar_lock_depth s \<and>
    (\<forall>w j. pins u w j = pins s w j))"
proof -
  obtain mt where mt: "vheap t v = Some mt" "nr_pages mt = nr_pages mv" using moved_vbar [OF assms(5,2)] by blast
  show ?thesis
    by (rule wp_conseq [OF wp_unpin_range [OF vinv_vsteps [OF assms(5,1)] mt(1), of k lo]])
      (use assms mt(2) in \<open>auto simp: pins_added_def intro: vsteps_trans\<close>)
qed

lemma pin_mapped:
  assumes "vinv E t" "get_page v i t = Some rp" "vbar_page_is_mapped E rp"
  shows "pinned_at E v i t (upd_page v i (fault_pin E) t)"
proof -
  obtain mv where mv: "vheap t v = Some mv" "i < length (residency_map mv)" "residency_map mv ! i = rp"
    using assms(2) by (auto simp: get_page_def at_index_eq_Some_conv split: bind_splits)
  let ?rp = "fault_pin E rp" and ?t = "upd_page v i (fault_pin E) t"
  have m: "vbar_page_is_mapped E ?rp" "owned ?rp = owned rp" "handle ?rp = handle rp" "pin_count ?rp = pin_count rp + 1"
    using assms(3) by (auto simp: fault_pin_def Let_def)
  have ok: "page_ok E rp \<Longrightarrow> page_ok E ?rp"
    using assms(3) m page_ok_cancel [of E rp] by (auto simp: page_ok_def fault_pin_def Let_def vbar_consumer_held_def)
  have mv': "set_vpage E i ?rp mv = mv\<lparr>residency_map := (residency_map mv)[i := ?rp]\<rparr>"
    using m(1) assms(3) mv(3) by (simp add: set_vpage_def)
  have vh: "vheap ?t = (vheap t)(v \<mapsto> set_vpage E i ?rp mv)" unfolding mv' using mv by simp
  have "vsteps E any_page any_field t ?t"
  proof (rule page_step [OF mv(1,2), where rp' = ?rp])
    show "page_effect v (set_vpage E i ?rp mv) (total_vram_usage t + bytes_if (owned ?rp) - bytes_if (owned (residency_map mv ! i))) t ?t"
      using vh m mv(3) by (simp add: page_effect_def)
    show "dev_change E (page_vaddr mv i) (residency_map mv ! i) ?rp (hist t) (hist ?t)"
      using m mv(3) assms(3) by (simp add: dev_change_def)
  qed (use ok mv(3) in \<open>simp_all add: any_page_def\<close>)
  then show ?thesis
    using pinned_atI [OF fine_refl mv(1,2) vh _ _ m(1)] m(4) mv(3) by simp
qed

lemma held_serial: "held E t v i n \<Longrightarrow> \<exists>rp. get_page v i t = Some rp \<and> serial rp = n"
  by (auto simp: held_def)

lemma wp_fault_page:
  assumes "vinv E s" "graph_ok s" "create_fresh E" "vheap s v = Some mv" "k < nr_pages mv" "lo \<le> k"
    "fault_inv E s v lo k signature t"
  shows "wp (fault_page E v lo hi k (checked, signature) t) (\<lambda>r u. case r of
      Inl (checked', signature') \<Rightarrow> fault_inv E s v lo (Suc k) signature' u
    | Inr (code, signature') \<Rightarrow> code \<in> {1, 2} \<and> moved E s u \<and> vbar_lock_depth u = vbar_lock_depth s \<and>
        (\<forall>w j. pins u w j = pins s w j))"
proof -
  have st: "moved E s t" using assms(7) by (simp add: fault_inv_def)
  have inv: "vinv E t" and gok: "graph_ok t"
    using vinv_vsteps [OF st assms(1)] graph_ok_vsteps [OF assms(2) st] by auto
  obtain mt where mt: "vheap t v = Some mt" "nr_pages mt = nr_pages mv" using moved_vbar [OF st assms(4)] by blast
  have give_up: "wp (vbar_unpin_range v lo k u) (\<lambda>_ u. moved E s u \<and> vbar_lock_depth u = vbar_lock_depth s \<and>
      (\<forall>w j. pins u w j = pins s w j))" if "fault_inv E s v lo k signature u" for u
    by (rule wp_give_up [OF assms(1,4) _ assms(6)]) (use that assms(5) in \<open>auto simp: fault_inv_def\<close>)
  have body: "wp (if \<not> ok then Some (Inr VBAR_FAULT_ERROR, u)
       else do {
         rp \<leftarrow> get_page v k u;
         if vbar_page_is_mapped E rp then Some (Inl checked, upd_page v k (fault_pin E) u)
         else do {
           (code, s) \<leftarrow> fault_miss E v hi k checked u;
           Some (if code = VBAR_FAULT_SUCCESS then Inl True else Inr code, s) } })
      (\<lambda>code w. case code of Inl c \<Rightarrow> \<exists>n. held E w v k n \<and> fault_inv E s v lo (Suc k) (signature @ [of_nat n]) w
         | Inr code \<Rightarrow> code \<in> {1, 2} \<and> fault_inv E s v lo k signature w)"
    if u: "steady E t u" for ok u
  proof -
    have fi: "fault_inv E s v lo k signature u" by (rule fault_inv_steady [OF assms(7) u])
    have mu: "moved E t u" using u by (simp add: steady_def)
    have inv': "vinv E u" and gok': "graph_ok u" using vinv_vsteps [OF mu inv] graph_ok_vsteps [OF gok mu] by auto
    obtain mw where mw: "vheap u v = Some mw" "nr_pages mw = nr_pages mt" using moved_vbar [OF mu mt(1)] by blast
    then have "k < length (residency_map mw)" using vinv_vbar [OF inv' mw(1)] mt(2) assms(5) by (simp add: vbar_ok_def)
    then obtain rp where rp: "get_page v k u = Some rp" using mw by (simp add: get_page_def)
    have done_: "\<exists>n. held E w v k n \<and> fault_inv E s v lo (Suc k) (signature @ [of_nat n]) w"
      if p: "pinned_at E v k u w" for w
    proof -
      obtain n where "held E w v k n" using p by (auto simp: pinned_at_def)
      then show ?thesis using fault_inv_pinned [OF fi p _ assms(6)] by blast
    qed
    have keep: "fault_inv E s v lo k signature w" if "fine E u w" for w
      by (rule fault_inv_steady [OF fi steady_fine [OF that]])
    show ?thesis
    proof (cases "vbar_page_is_mapped E rp")
      case True
      then show ?thesis using rp fi done_ [OF pin_mapped [OF inv' rp True]] by auto
    next
      case False
      then have "absent E u v k" using rp by (simp add: absent_def)
      then have "wp (fault_miss E v hi k checked u) (\<lambda>code w. if code = VBAR_FAULT_SUCCESS then pinned_at E v k u w
          else code \<in> {1, 2} \<and> fine E u w)" by (rule wp_fault_miss [OF inv' gok' _ assms(3)])
      then show ?thesis using rp False fi done_ keep by (auto elim!: wp_conseq split: if_splits)
    qed
  qed
  show ?thesis
    unfolding fault_page_def
  proof (simp only: wp_bind split_conv, rule wp_conseq [OF wp_fault_restore [OF inv mt(1)]], goal_cases)
    case 1
    then show ?case using assms(5) mt(2) by simp
  next
    case (2 ok u)
    show ?case
    proof (rule wp_conseq [OF body [OF 2]])
      fix code w
      assume c: "case code of Inl c \<Rightarrow> \<exists>n. held E w v k n \<and> fault_inv E s v lo (Suc k) (signature @ [of_nat n]) w
         | Inr code \<Rightarrow> code \<in> {1, 2} \<and> fault_inv E s v lo k signature w"
      show "wp (case code of
         Inl checked \<Rightarrow> do { rp \<leftarrow> get_page v k w; Some (Inl (checked, signature @ [of_nat (serial rp)]), w) }
       | Inr code \<Rightarrow> do { (_, s) \<leftarrow> vbar_unpin_range v lo k w; Some (Inr (code, signature), s) })
       (\<lambda>r u. case r of
          Inl (checked', signature') \<Rightarrow> fault_inv E s v lo (Suc k) signature' u
        | Inr (code, signature') \<Rightarrow> code \<in> {1, 2} \<and> moved E s u \<and> vbar_lock_depth u = vbar_lock_depth s \<and>
            (\<forall>w j. pins u w j = pins s w j))"
      proof (cases code)
        case (Inl checked')
        then show ?thesis using c held_serial by fastforce
      next
        case (Inr c')
        then show ?thesis using c by (auto intro!: wp_conseq [OF give_up])
      qed
    qed
  qed
qed

subsection \<open>The whole fault\<close>

text \<open>
  What a fault guarantees: it returns one of the three codes; on success every page of the
  range is mapped, holds one more pin, and its serial (its low 32 bits) is in the signature;
  otherwise no page of any VBAR has another pin count than before.
\<close>

definition fault_result ::
  "env \<Rightarrow> nat \<Rightarrow> u64 \<Rightarrow> u64 \<Rightarrow> 'z vstate_scheme \<Rightarrow> nat \<times> u32 list \<Rightarrow> 'z vstate_scheme \<Rightarrow> bool" where
  "fault_result E v offset bytes s = (\<lambda>(code, signature) t.
     moved E s t \<and> vbar_lock_depth t = vbar_lock_depth s \<and>
     (if code = VBAR_FAULT_SUCCESS then
        (\<exists>mv lo hi. vheap s v = Some mv \<and> vbar_fault_page_range mv offset bytes = Some (lo, hi) \<and>
           pins_added v lo hi s t \<and> serials_given E v lo hi signature t)
      else code \<in> {1, 2} \<and> (\<forall>w j. pins t w j = pins s w j)))"

lemma fault_failed: "steady E s t \<Longrightarrow> code \<in> {1, 2} \<Longrightarrow> fault_result E v offset bytes s (code, signature) t"
  by (auto simp: fault_result_def steady_def)

lemma fine_moved: "fine E s t \<Longrightarrow> moved E s t \<and> vbar_lock_depth t = vbar_lock_depth s"
  by (simp add: fine_def moved_benign)

lemma wp_fault_reopen:
  assumes "vinv E s" "vheap s v = Some mv" "hi \<le> nr_pages mv"
  shows "wp (fault_reopen E v lo hi s) (\<lambda>_ t. fine E s t)"
proof -
  have a: "above_watermark v hi s = Some (watermark mv < hi)" using assms(2) by (simp add: above_watermark_def)
  have "hi \<le> length (residency_map mv)" using vinv_vbar [OF assms(1,2)] assms(3) by (simp add: vbar_ok_def)
  then obtain n where n: "absent_pages E v lo hi s = Some n" using assms(2) by (simp add: absent_pages_def)
  have up: "fine E s (upd_vbar v (\<lambda>mv. mv\<lparr>watermark := hi\<rparr>) t)" if t: "fine E s t" for t
  proof -
    obtain mt where mt: "vheap t v = Some mt" "nr_pages mt = nr_pages mv" using fine_vbar [OF t assms(2)] by blast
    have "benigns E t (upd_vbar v (\<lambda>mv. mv\<lparr>watermark := hi\<rparr>) t)"
      by (rule field_step [OF mt(1)]) (use mt(2) assms(3) in \<open>auto simp: same_pages_def any_field_def\<close>)
    then have "fine E t (upd_vbar v (\<lambda>mv. mv\<lparr>watermark := hi\<rparr>) t)" by (simp add: fine_def)
    then show ?thesis by (rule fine_trans [OF t])
  qed
  show ?thesis
    using a n up by (auto simp: fault_reopen_def intro!: wp_conseq [OF wp_budget_fine])
qed

lemma wp_fault_pages:
  assumes "vinv E s" "graph_ok s" "create_fresh E" "vheap s v = Some mv" "lo \<le> hi" "hi \<le> nr_pages mv"
  shows "wp (foreach (fault_page E v lo hi) [lo..<hi] (False, []) s) (\<lambda>r t. case r of
      Inl (checked, signature) \<Rightarrow> fault_inv E s v lo hi signature t
    | Inr (code, signature) \<Rightarrow> code \<in> {1, 2} \<and> moved E s t \<and> vbar_lock_depth t = vbar_lock_depth s \<and>
        (\<forall>w j. pins t w j = pins s w j))"
proof (rule wp_foreach [where I = "\<lambda>xs (checked, signature) t. \<exists>k. xs = [k..<hi] \<and> lo \<le> k \<and> k \<le> hi \<and>
    fault_inv E s v lo k signature t"], goal_cases)
  case 1
  then show ?case using assms(5) by (auto simp: fault_inv_def pins_added_def serials_given_def intro!: exI [of _ lo])
next
  case (2 i xs a t)
  obtain checked signature where a: "a = (checked, signature)" by (cases a)
  obtain k where k: "i # xs = [k..<hi]" "lo \<le> k" "k \<le> hi" "fault_inv E s v lo k signature t" using 2 a by auto
  then have i: "i = k" "xs = [Suc k..<hi]" "k < hi" by (cases "k < hi"; simp add: upt_conv_Cons)+
  have "wp (fault_page E v lo hi k (checked, signature) t) (\<lambda>r u. case r of
      Inl (checked', signature') \<Rightarrow> fault_inv E s v lo (Suc k) signature' u
    | Inr (code, signature') \<Rightarrow> code \<in> {1, 2} \<and> moved E s u \<and> vbar_lock_depth u = vbar_lock_depth s \<and>
        (\<forall>w j. pins u w j = pins s w j))"
    by (rule wp_fault_page [OF assms(1-4) _ k(2,4)]) (use i(3) assms(6) in simp)
  then show ?case
    unfolding a i by (rule wp_conseq) (use i k(2) in \<open>auto split: sum.splits intro!: exI [of _ "Suc k"]\<close>)
next
  case (3 a t)
  then obtain checked signature k where "a = (checked, signature)" "[] = [k..<hi]" "k \<le> hi" "fault_inv E s v lo k signature t"
    by (cases a) auto
  then show ?case by (cases "k < hi") (simp_all add: upt_conv_Cons)
qed

lemma page_range_cong: "nr_pages m = nr_pages m' \<Longrightarrow> vbar_fault_page_range m off n = vbar_fault_page_range m' off n"
  by (simp add: vbar_fault_page_range_def)

lemma fault_result_fine:
  assumes "fine E s t" "fault_result E v offset bytes t r u" "vheap s v = Some mv"
  shows "fault_result E v offset bytes s r u"
proof -
  have f: "moved E s t" "vbar_lock_depth t = vbar_lock_depth s" using fine_moved [OF assms(1)] by auto
  have p: "pins t w j = pins s w j" for w j using steady_fine [OF assms(1)] by (simp add: steady_def)
  obtain mt where mt: "vheap t v = Some mt" "nr_pages mt = nr_pages mv" using fine_vbar [OF assms(1,3)] by blast
  have "vbar_fault_page_range mt offset bytes = vbar_fault_page_range mv offset bytes"
    by (rule page_range_cong [OF mt(2)])
  moreover have "pins_added v lo hi t u = pins_added v lo hi s u" for lo hi u
    using p by (simp add: pins_added_def)
  ultimately show ?thesis
    using assms(2,3) f p mt(1)
    by (auto simp: fault_result_def split: if_splits intro: vsteps_trans)
qed

lemma wp_vbar_fault_locked:
  assumes "vinv E s" "graph_ok s" "create_fresh E" "vheap s v = Some mv"
  shows "wp (vbar_fault_locked E v offset bytes s) (fault_result E v offset bytes s)"
proof (cases "winxpu E \<and> closing mv \<or> vbar_fault_page_range mv offset bytes = None")
  case True
  then show ?thesis using assms(4) by (auto simp: vbar_fault_locked_def intro!: fault_failed)
next
  case False
  then obtain lo hi where r: "vbar_fault_page_range mv offset bytes = Some (lo, hi)" by auto
  note b = vbar_fault_page_range_bounds [OF r]
  let ?s = "s\<lparr>vbars_dirty := True\<rparr>"
  have f0: "fine E s ?s" by (rule fine_quiet) simp_all
  have room: "wp (fault_pressure E ?s) (\<lambda>ok t. fine E s t)"
  proof (cases "winxpu E")
    case True
    then show ?thesis using f0 by (simp add: fault_pressure_def)
  next
    case False
    have "wp (vbars_free E d t) (\<lambda>_ u. fine E s u)" if "fine E ?s t" for d t
      by (rule wp_conseq [OF wp_vbars_free_fine [OF fine_vinv [OF that fine_vinv [OF f0 assms(1)]] fine_graph [OF that fine_graph [OF f0 assms(2)]]]])
        (rule fine_trans [OF fine_trans [OF f0 that]])
    then show ?thesis using False by (auto simp: fault_pressure_def intro!: wp_conseq [OF wp_budget_fine])
  qed
  have reopen: "wp (fault_reopen E v lo hi t) (\<lambda>ok u. fine E s u)" if t: "fine E s t" for t
  proof -
    obtain mt where mt: "vheap t v = Some mt" "nr_pages mt = nr_pages mv" using fine_vbar [OF t assms(4)] by blast
    show ?thesis
      by (rule wp_conseq [OF wp_fault_reopen [OF fine_vinv [OF t assms(1)] mt(1)]])
        (use b mt(2) fine_trans [OF t] in auto)
  qed
  have pages: "wp (foreach (fault_page E v lo hi) [lo..<hi] (False, []) t) (\<lambda>r u.
      fault_result E v offset bytes s (case r of Inl (_, signature) \<Rightarrow> (VBAR_FAULT_SUCCESS, signature) | Inr failed \<Rightarrow> failed) u)"
    if t: "fine E s t" for t
  proof -
    obtain mt where mt: "vheap t v = Some mt" "nr_pages mt = nr_pages mv" using fine_vbar [OF t assms(4)] by blast
    have rt: "vbar_fault_page_range mt offset bytes = Some (lo, hi)" using r page_range_cong [OF mt(2)] by simp
    have "wp (foreach (fault_page E v lo hi) [lo..<hi] (False, []) t) (\<lambda>r u.
      fault_result E v offset bytes t (case r of Inl (_, signature) \<Rightarrow> (VBAR_FAULT_SUCCESS, signature) | Inr failed \<Rightarrow> failed) u)"
      by (rule wp_conseq [OF wp_fault_pages [OF fine_vinv [OF t assms(1)] fine_graph [OF t assms(2)] assms(3) mt(1) b(1)]])
        (use b(2) mt rt in \<open>auto simp: fault_result_def fault_inv_def split: sum.splits\<close>)
    then show ?thesis by (rule wp_conseq) (rule fault_result_fine [OF t _ assms(4)])
  qed
  have fail: "fine E s t \<Longrightarrow> code \<in> {1, 2} \<Longrightarrow> fault_result E v offset bytes s (code, signature) t" for t code signature
    by (rule fault_failed [OF steady_fine])
  show ?thesis
    using False r assms(4)
    by (simp add: vbar_fault_locked_def)
      (auto intro!: wp_conseq [OF room] wp_conseq [OF reopen] wp_conseq [OF pages] fail split: sum.splits)
qed

lemma wp_vbar_fault:
  assumes "vinv E s" "graph_ok s" "create_fresh E" "vheap s v = Some mv"
  shows "wp (vbar_fault E v offset bytes s) (fault_result E v offset bytes s)"
proof -
  have pre: "wp (if winxpu E then do {
         (_, s) \<leftarrow> copy_residency_poll E False s;
         (d, s) \<leftarrow> budget_deficit E 0 s;
         (_, s) \<leftarrow> vbars_reclaim_at_owner_boundary E d s;
         Some ((), s) } else Some ((), s)) (\<lambda>_ t. fine E s t)"
  proof (cases "winxpu E")
    case False
    then show ?thesis by simp
  next
    case True
    have boundary: "wp (vbars_reclaim_at_owner_boundary E d t) (\<lambda>_ u. fine E s u)" if t: "fine E s t" for d t
      by (rule wp_conseq [OF wp_vbars_reclaim_at_owner_boundary [OF fine_vinv [OF t assms(1)] True]])
        (rule fine_trans [OF t], unfold fine_def, blast intro: benign_flush)
    have poll: "wp (copy_residency_poll E False s) (\<lambda>_ t. fine E s t)"
      by (rule wp_conseq [OF wp_copy_residency_poll]) (auto simp: fine_def intro: benign_same_page)
    have budget: "wp (budget_deficit E 0 t) (\<lambda>_ u. fine E s u)" if t: "fine E s t" for t
      by (rule wp_conseq [OF wp_budget_fine]) (use fine_trans [OF t] in auto)
    show ?thesis
      using True by (auto intro!: wp_conseq [OF poll] wp_conseq [OF budget] wp_conseq [OF boundary])
  qed
  have locked: "wp (vbar_fault_locked E v offset bytes t') (\<lambda>r u. wp (vbar_state_unlock E u) (\<lambda>_. fault_result E v offset bytes s r))"
    if t: "fine E s t" and t': "t' = (if winxpu E then t\<lparr>vbar_lock_depth := Suc (vbar_lock_depth t)\<rparr> else t)" for t t'
  proof -
    have q: "quiet t t'" by (simp add: t')
    have m: "moved E s t" "vbar_lock_depth t = vbar_lock_depth s" "pins t w j = pins s w j" for w j
      using steady_fine [OF t] by (simp_all add: steady_def)
    have m': "moved E s t'" "pins t' w j = pins s w j" for w j
      using m(1) q m(3) by (auto intro: vsteps_quiet_right simp: pins_def get_page_def quiet_fields)
    have d: "vbar_lock_depth t' = (if winxpu E then Suc (vbar_lock_depth s) else vbar_lock_depth s)"
      using m(2) t' by simp
    obtain mt where mt: "vheap t' v = Some mt" "nr_pages mt = nr_pages mv"
      using fine_vbar [OF t assms(4)] q by (auto simp: quiet_fields)
    have fin: "fault_result E v offset bytes s r (if winxpu E then u\<lparr>vbar_lock_depth := vbar_lock_depth u - Suc 0\<rparr> else u)"
      if f: "fault_result E v offset bytes t' r u" for r u
    proof -
      have "vbar_fault_page_range mt offset bytes = vbar_fault_page_range mv offset bytes"
        by (rule page_range_cong [OF mt(2)])
      moreover have "pins (if winxpu E then u\<lparr>vbar_lock_depth := vbar_lock_depth u - Suc 0\<rparr> else u) w j = pins u w j"
        "held E (if winxpu E then u\<lparr>vbar_lock_depth := vbar_lock_depth u - Suc 0\<rparr> else u) w j n = held E u w j n" for w j n
        by (simp_all add: pins_def held_def get_page_def)
      ultimately show ?thesis
        using f m' d mt(1) assms(4)
        by (cases r) (auto simp: fault_result_def pins_added_def serials_given_def intro: vsteps_trans split: if_splits)
    qed
    have dep: "vbar_lock_depth u = vbar_lock_depth t'" if "fault_result E v offset bytes t' r u" for r u
      using that by (cases r) (simp add: fault_result_def)
    show ?thesis
      by (rule wp_conseq [OF wp_vbar_fault_locked [OF vinv_vsteps [OF m'(1) assms(1)] graph_ok_vsteps [OF assms(2) m'(1)] assms(3) mt(1)]])
        (use fin dep d in \<open>auto split: if_splits\<close>)
  qed
  show ?thesis
    unfolding vbar_fault_def
    by (simp only: wp_bind split_conv, rule wp_conseq [OF pre])
      (cases "winxpu E"; use locked [OF _ refl] in \<open>simp\<close>)
qed

end
