(* ===== verification/VbarApi.thy ===== *)
theory VbarApi
  imports VbarFault
begin

unbundle bit_operations_syntax

text \<open>
  The exported VBAR operations of \<open>src/model-vbar.c\<close> besides the fault: creation, destruction,
  priorities, watermarks, pins with their retirement tokens, consumer holds and copy holds, and
  what is reported of them. The state is the context of one device, so \<open>set_devctx\<close> leaves no
  trace; \<open>aimdo_vbar_copy_acquire\<close>, which visits every context, takes the list of them.
\<close>

subsection \<open>Creation and priorities\<close>

definition remove_vbar :: "nat \<Rightarrow> 'z vstate_scheme \<Rightarrow> 'z vstate_scheme" where
  "remove_vbar v s = s\<lparr>vorder := filter (\<lambda>w. w \<noteq> v) (vorder s)\<rparr>"

definition insert_vbar :: "nat \<Rightarrow> 'z vstate_scheme \<Rightarrow> 'z vstate_scheme" where
  "insert_vbar v s = s\<lparr>vorder := vorder s @ [v]\<rparr>"

definition insert_vbar_last :: "nat \<Rightarrow> 'z vstate_scheme \<Rightarrow> 'z vstate_scheme" where
  "insert_vbar_last v s = s\<lparr>vorder := v # vorder s\<rparr>"

text \<open>
  \<open>vbar_allocate\<close>. The sizes of the header and of a page record depend on the ABI. Only
  Windows/XPU has an \<open>identity\<close> field; the model numbers the VBARs everywhere, and nothing reads
  the numbers elsewhere.
\<close>

definition vbar_clamped_pages :: "env \<Rightarrow> 'z ctx_scheme \<Rightarrow> nat \<Rightarrow> nat" where
  "vbar_clamped_pages E s n =
     (if is_xpu E then n else min n (unat (vram_capacity s div VBAR_PAGE_SIZE)))"

definition new_vbar :: "u64 \<Rightarrow> nat \<Rightarrow> int \<Rightarrow> u64 \<Rightarrow> bool \<Rightarrow> u64 \<Rightarrow> model_vbar" where
  "new_vbar a n dev bytes callback ident =
     \<lparr>vbar = a, nr_pages = n, watermark = n, watermark_limit = 0, device = dev, resident_count = 0,
      pageout_size = bytes, pageout_callback = callback, identity = ident, copy_holds = 0,
      closing = False, residency_map = replicate n fresh_page\<rparr>"

definition vbar_allocate ::
  "env \<Rightarrow> nat \<Rightarrow> nat \<Rightarrow> u64 \<Rightarrow> int \<Rightarrow> bool \<Rightarrow> 'z vstate_scheme \<Rightarrow> (nat option \<times> 'z vstate_scheme) option" where
  "vbar_allocate E header page bytes dev callback s =
     (case vbar_page_count bytes of
        None \<Rightarrow> Some (None, s)
      | Some n \<Rightarrow>
          let n = vbar_clamped_pages E s n in
          case vbar_metadata_allocation_size header page n of
            None \<Rightarrow> Some (None, s)
          | Some _ \<Rightarrow> do {
              (r, s) \<leftarrow> ask E HostAlloc s;
              if r_rc r \<noteq> 0 then Some (None, s)
              else do {
                (r, s) \<leftarrow> ask E (AddressReserve (of_nat n * VBAR_PAGE_SIZE) 0) s;
                if r_rc r \<noteq> CUDA_SUCCESS then Some (None, s)
                else do {
                  (_, s) \<leftarrow> vbar_state_lock E s;
                  let s = s\<lparr>vbars_dirty := True, vbar_identity_counter := vbar_identity_counter s + 1\<rparr>;
                  let v = vnext s;
                  let mv = new_vbar (r_val r) n dev bytes callback (vbar_identity_counter s);
                  let s = insert_vbar v (s\<lparr>vheap := (vheap s)(v \<mapsto> mv), vnext := Suc v\<rparr>);
                  (_, s) \<leftarrow> vbar_state_unlock E s;
                  Some (Some v, s) } } })"

definition vbar_prioritize :: "env \<Rightarrow> nat \<Rightarrow> u64 \<Rightarrow> 'z vstate_scheme \<Rightarrow> (unit \<times> 'z vstate_scheme) option" where
  "vbar_prioritize E v clamp s = do {
     let s = s\<lparr>malloc_async_clamp := clamp\<rparr>;
     (_, s) \<leftarrow> vbar_state_lock E s;
     let s = insert_vbar v (remove_vbar v (s\<lparr>vbars_dirty := True\<rparr>));
     vbar_state_unlock E (upd_vbar v (\<lambda>mv. mv\<lparr>watermark := nr_pages mv\<rparr>) s) }"

definition vbar_deprioritize :: "env \<Rightarrow> nat \<Rightarrow> 'z vstate_scheme \<Rightarrow> (unit \<times> 'z vstate_scheme) option" where
  "vbar_deprioritize E v s = do {
     (_, s) \<leftarrow> vbar_state_lock E s;
     vbar_state_unlock E (insert_vbar_last v (remove_vbar v (s\<lparr>vbars_dirty := True\<rparr>))) }"

subsection \<open>Watermarks\<close>

definition vbar_set_watermark_limit :: "env \<Rightarrow> nat \<Rightarrow> u64 \<Rightarrow> 'z vstate_scheme \<Rightarrow> (unit \<times> 'z vstate_scheme) option" where
  "vbar_set_watermark_limit E v bytes s = do {
     (_, s) \<leftarrow> vbar_state_lock E s;
     vbar_state_unlock E (upd_vbar v (\<lambda>mv. mv\<lparr>watermark_limit := VBAR_GET_PAGE_NR_UP bytes\<rparr>) s) }"

definition vbars_reset_watermark_limits :: "env \<Rightarrow> 'z vstate_scheme \<Rightarrow> (unit \<times> 'z vstate_scheme) option" where
  "vbars_reset_watermark_limits E s = do {
     (_, s) \<leftarrow> vbar_state_lock E s;
     (_, s) \<leftarrow> each (\<lambda>i s. Some ((), upd_vbar i (\<lambda>mv. mv\<lparr>watermark_limit := 0\<rparr>) s)) (vorder s) s;
     vbar_state_unlock E s }"

text \<open>The eviction of the pages from \<open>lo\<close> up to \<open>hi\<close>: no when a writeback failed.\<close>

definition evict_range :: "env \<Rightarrow> nat \<Rightarrow> nat list \<Rightarrow> 'z vstate_scheme \<Rightarrow> (bool \<times> 'z vstate_scheme) option" where
  "evict_range E v pages s = do {
     (r, s) \<leftarrow> foreach (\<lambda>page_nr _ s. do {
         (freed, s) \<leftarrow> mod1 E v page_nr True False s;
         Some (if freed < 0 then Inr () else Inl (), s) }) pages () s;
     Some (case r of Inl _ \<Rightarrow> True | Inr _ \<Rightarrow> False, s) }"

definition vbar_set_watermark :: "env \<Rightarrow> nat \<Rightarrow> u64 \<Rightarrow> 'z vstate_scheme \<Rightarrow> (bool \<times> 'z vstate_scheme) option" where
  "vbar_set_watermark E v bytes s = do {
     (_, s) \<leftarrow> vbar_state_lock E s;
     let s = s\<lparr>vbars_dirty := True\<rparr>;
     mv \<leftarrow> vheap s v;
     let new = min (VBAR_GET_PAGE_NR_UP bytes) (nr_pages mv);
     if winxpu E then do {
       (_, s) \<leftarrow> vbar_state_unlock E (upd_vbar v (\<lambda>mv. mv\<lparr>watermark := new\<rparr>) s);
       if new < watermark mv then do {
         (_, s) \<leftarrow> vbar_free_model_range_synchronized E (identity mv) new (watermark mv) (watermark mv - new) s;
         Some (True, s) }
       else Some (True, s) }
     else do {
       (ok, s) \<leftarrow> (if new < watermark mv then do {
           (_, s) \<leftarrow> check_cu E CtxSynchronize s;
           evict_range E v [new..<watermark mv] s }
         else Some (True, s));
       let s = (if ok then upd_vbar v (\<lambda>mv. mv\<lparr>watermark := new\<rparr>) s else s);
       (_, s) \<leftarrow> vbar_state_unlock E s;
       Some (ok, s) } }"

definition vbars_prepare_allocation ::
  "env \<Rightarrow> nat option \<Rightarrow> u64 \<Rightarrow> 'z vstate_scheme \<Rightarrow> (unit \<times> 'z vstate_scheme) option" where
  "vbars_prepare_allocation E v bytes s = do {
     (_, s) \<leftarrow> aimdo_wddm_force_poll E s;
     (reclaim, s) \<leftarrow> budget_deficit E bytes s;
     if winxpu E then do {
       (_, s) \<leftarrow> copy_residency_poll E False s;
       let (requested, s) = vbars_take_reclaim_request s;
       let reclaim = max requested reclaim;
       (_, s) \<leftarrow> (if async_reclaim E then vbars_free_retired_except E reclaim v s
                  else vbars_free_synchronized_except E reclaim v s);
       Some ((), s) }
     else do { (_, s) \<leftarrow> vbars_free_except E reclaim v s; Some ((), s) } }"

definition vbar_free_memory :: "env \<Rightarrow> nat \<Rightarrow> u64 \<Rightarrow> 'z vstate_scheme \<Rightarrow> (int \<times> 'z vstate_scheme) option" where
  "vbar_free_memory E v bytes s = do {
     let pages_to_free = VBAR_GET_PAGE_NR_UP bytes;
     (_, s) \<leftarrow> vbar_state_lock E s;
     let s = s\<lparr>vbars_dirty := True\<rparr>;
     mv \<leftarrow> vheap s v;
     if winxpu E then do {
       (target, _) \<leftarrow> loop (Suc (watermark mv)) (\<lambda>(t, available) _.
           if t > watermark_limit mv \<and> available < pages_to_free then do {
             rp \<leftarrow> at_index (residency_map mv) (t - 1);
             Some (Inl (t - 1, if vbar_page_is_mapped E rp \<and> pin_count rp = 0 \<and> \<not> vbar_consumer_held rp \<and>
                                  \<not> evicting rp \<and> \<not> retire_unknown rp
                               then available + 1 else available), ()) }
           else Some (Inr t, ())) (watermark mv, 0) ();
       (_, s) \<leftarrow> vbar_state_unlock E (upd_vbar v (\<lambda>mv. mv\<lparr>watermark := target\<rparr>) s);
       (pages_freed, s) \<leftarrow> vbar_free_model_range_synchronized E (identity mv) target (watermark mv) pages_to_free s;
       Some (int pages_freed * VBAR_PAGE_BYTES, s) }
     else do {
       (_, s) \<leftarrow> check_cu E CtxSynchronize s;
       (r, s) \<leftarrow> loop (Suc (watermark mv)) (\<lambda>(left, freed_total) s. do {
           mv \<leftarrow> vheap s v;
           if left \<noteq> 0 \<and> watermark mv > watermark_limit mv then do {
             (freed, s) \<leftarrow> mod1 E v (watermark mv - 1) True False s;
             if freed < 0 then Some (Inr None, s)
             else Some (Inl (left - nat freed, freed_total + nat freed),
                        upd_vbar v (\<lambda>mv. mv\<lparr>watermark := watermark mv - 1\<rparr>) s) }
           else Some (Inr (Some freed_total), s) }) (pages_to_free, 0) s;
       case r of
         None \<Rightarrow> do { (_, s) \<leftarrow> vbar_state_unlock E s; Some (- 1, s) }
       | Some pages_freed \<Rightarrow> do {
           (_, s) \<leftarrow> check_cu E CtxSynchronize s;
           (_, s) \<leftarrow> vbar_state_unlock E s;
           Some (int pages_freed * VBAR_PAGE_BYTES, s) } } }"

subsection \<open>Pins and consumers\<close>

text \<open>The token of the consuming queue, and whether it is known.\<close>

definition vbar_consumer_dependency ::
  "env \<Rightarrow> u64 \<Rightarrow> int \<Rightarrow> 'z base_scheme \<Rightarrow> ((u64 \<times> bool) \<times> 'z base_scheme) option" where
  "vbar_consumer_dependency E stream dev s =
     (if stream = 0 then Some ((0, False), s)
      else if \<not> async_reclaim E then do {
        (r, s) \<leftarrow> ask E (RegisterConsumerQueue stream dev) s;
        Some ((0, r_rc r \<noteq> 0), s) }
      else do {
        (r, s) \<leftarrow> ask E (RetireTokenCurrent stream dev) s;
        Some ((r_val r, r_val r \<noteq> 0), s) })"

text \<open>The dependency of a consumer, published on a page before its pin or hold is dropped.\<close>

definition publish_dependency :: "env \<Rightarrow> u64 \<Rightarrow> bool \<Rightarrow> bool \<Rightarrow> resident_page \<Rightarrow> resident_page" where
  "publish_dependency E token known captured rp =
     (let rp = vbar_page_cancel_eviction rp in
      if \<not> known then (if captured \<and> capture_holds rp \<noteq> 0 then rp else rp\<lparr>retire_unknown := True\<rparr>)
      else if async_reclaim E then vbar_retire_record rp token
      else rp)"

text \<open>The pages of \<open>[offset, offset + size)\<close>, as far as the reservation goes.\<close>

definition covered_pages :: "model_vbar \<Rightarrow> u64 \<Rightarrow> u64 \<Rightarrow> nat list" where
  "covered_pages mv offset bytes = [VBAR_GET_PAGE_NR offset..<min (VBAR_GET_PAGE_NR_UP (offset + bytes)) (nr_pages mv)]"

text \<open>An update of the listed pages, one after the other.\<close>

definition update_pages ::
  "nat \<Rightarrow> (resident_page \<Rightarrow> resident_page) \<Rightarrow> nat list \<Rightarrow> 'z vstate_scheme \<Rightarrow> (unit \<times> 'z vstate_scheme) option" where
  "update_pages v f = each (\<lambda>page_nr s. do {
     _ \<leftarrow> get_page v page_nr s;
     Some ((), upd_page v page_nr f s) })"

definition vbar_register_consumer_stream ::
  "env \<Rightarrow> nat \<Rightarrow> u64 \<Rightarrow> u64 \<Rightarrow> u64 \<Rightarrow> 'z vstate_scheme \<Rightarrow> (bool \<times> 'z vstate_scheme) option" where
  "vbar_register_consumer_stream E v offset bytes stream s =
     (if bytes = 0 \<or> offset > - 1 - bytes then Some (False, s)
      else do {
        mv \<leftarrow> vheap s v;
        ((token, known), s) \<leftarrow> vbar_consumer_dependency E stream (device mv) s;
        (_, s) \<leftarrow> vbar_state_lock E s;
        let page_end = VBAR_GET_PAGE_NR_UP (offset + bytes);
        let pages = covered_pages mv offset bytes;
        let registered = list_all (\<lambda>i. vbar_page_is_mapped E (residency_map mv ! i) \<and>
                                       pin_count (residency_map mv ! i) \<noteq> 0) pages;
        (_, s) \<leftarrow> update_pages v (\<lambda>rp. if vbar_page_is_mapped E rp \<and> pin_count rp \<noteq> 0
                                      then publish_dependency E token known True rp else rp) pages s;
        (_, s) \<leftarrow> vbar_state_unlock E s;
        Some (registered \<and> page_end \<le> nr_pages mv \<and> (known \<or> page_end = VBAR_GET_PAGE_NR offset), s) })"

datatype hold_kind = VBAR_CONSUMER_HOLD_EXTERNAL | VBAR_CONSUMER_HOLD_CAPTURE

text \<open>The counter a kind names: \<open>None\<close> for every other number.\<close>

definition vbar_consumer_hold_counter :: "u32 \<Rightarrow> hold_kind option" where
  "vbar_consumer_hold_counter kind =
     (if kind = 1 then Some VBAR_CONSUMER_HOLD_EXTERNAL
      else if kind = 2 then Some VBAR_CONSUMER_HOLD_CAPTURE else None)"

fun hold_of :: "hold_kind \<Rightarrow> resident_page \<Rightarrow> nat" where
  "hold_of VBAR_CONSUMER_HOLD_EXTERNAL rp = external_consumer_holds rp"
| "hold_of VBAR_CONSUMER_HOLD_CAPTURE rp = capture_holds rp"

fun set_hold :: "hold_kind \<Rightarrow> nat \<Rightarrow> resident_page \<Rightarrow> resident_page" where
  "set_hold VBAR_CONSUMER_HOLD_EXTERNAL n rp = rp\<lparr>external_consumer_holds := n\<rparr>"
| "set_hold VBAR_CONSUMER_HOLD_CAPTURE n rp = rp\<lparr>capture_holds := n\<rparr>"

definition consumer_range :: "u64 \<Rightarrow> u64 \<Rightarrow> nat list" where
  "consumer_range offset bytes = [VBAR_GET_PAGE_NR offset..<VBAR_GET_PAGE_NR_UP (offset + bytes)]"

definition vbar_consumer_acquire ::
  "env \<Rightarrow> nat \<Rightarrow> u64 \<Rightarrow> u64 \<Rightarrow> u32 \<Rightarrow> 'z vstate_scheme \<Rightarrow> (bool \<times> 'z vstate_scheme) option" where
  "vbar_consumer_acquire E v offset bytes kind s =
     (if bytes = 0 \<or> offset > - 1 - bytes then Some (False, s)
      else do {
        (_, s) \<leftarrow> vbar_state_lock E s;
        mv \<leftarrow> vheap s v;
        let pages = consumer_range offset bytes;
        let acquired = (\<not> closing mv \<and> VBAR_GET_PAGE_NR_UP (offset + bytes) \<le> nr_pages mv \<and>
          (case vbar_consumer_hold_counter kind of
             None \<Rightarrow> pages = []
           | Some k \<Rightarrow> list_all (\<lambda>i. vbar_page_is_mapped E (residency_map mv ! i) \<and>
                                     hold_of k (residency_map mv ! i) \<noteq> UINT32_MAX) pages));
        (_, s) \<leftarrow> (case vbar_consumer_hold_counter kind of
            Some k \<Rightarrow> if acquired
              then update_pages v (\<lambda>rp. set_hold k (hold_of k rp + 1) (vbar_page_cancel_eviction rp)) pages s
              else Some ((), s)
          | None \<Rightarrow> Some ((), s));
        (_, s) \<leftarrow> vbar_state_unlock E s;
        Some (acquired, s) })"

definition vbar_consumer_release ::
  "env \<Rightarrow> nat \<Rightarrow> u64 \<Rightarrow> u64 \<Rightarrow> u32 \<Rightarrow> u64 \<Rightarrow> 'z vstate_scheme \<Rightarrow> (int \<times> 'z vstate_scheme) option" where
  "vbar_consumer_release E v offset bytes kind stream s =
     (if bytes = 0 \<or> offset > - 1 - bytes then Some (- 1, s)
      else do {
        mv \<leftarrow> vheap s v;
        ((token, known), s) \<leftarrow> vbar_consumer_dependency E stream (device mv) s;
        (_, s) \<leftarrow> vbar_state_lock E s;
        let pages = consumer_range offset bytes;
        let released = (VBAR_GET_PAGE_NR_UP (offset + bytes) \<le> nr_pages mv \<and>
          (case vbar_consumer_hold_counter kind of
             None \<Rightarrow> pages = []
           | Some k \<Rightarrow> list_all (\<lambda>i. vbar_page_is_mapped E (residency_map mv ! i) \<and>
                                     hold_of k (residency_map mv ! i) \<noteq> 0) pages));
        (_, s) \<leftarrow> (case vbar_consumer_hold_counter kind of
            Some k \<Rightarrow> if released
              then update_pages v (\<lambda>rp. let rp = publish_dependency E token known False rp
                                       in set_hold k (hold_of k rp - 1) rp) pages s
              else Some ((), s)
          | None \<Rightarrow> Some ((), s));
        (_, s) \<leftarrow> vbar_state_unlock E s;
        Some (if \<not> released then - 1 else if known then 1 else 0, s) })"

text \<open>\<open>vbar_unpin_stream\<close>: every pin of the range is dropped before anything may be freed.\<close>

definition drop_pin :: "env \<Rightarrow> u64 \<Rightarrow> bool \<Rightarrow> resident_page \<Rightarrow> resident_page" where
  "drop_pin E token known rp =
     (if pin_count rp = 0 then rp
      else
        let rp = (if winxpu E then publish_dependency E token known True rp else rp)
        in rp\<lparr>pin_count := pin_count rp - 1\<rparr>)"

text \<open>The pass over the range that frees the pages above the watermark: no when a writeback failed.\<close>

definition release_above :: "env \<Rightarrow> nat \<Rightarrow> nat list \<Rightarrow> 'z vstate_scheme \<Rightarrow> (bool \<times> 'z vstate_scheme) option" where
  "release_above E v pages s = do {
     (r, s) \<leftarrow> foreach (\<lambda>page_nr _ s. do {
         mv \<leftarrow> vheap s v;
         (freed, s) \<leftarrow> mod1 E v page_nr (\<not> winxpu E \<and> page_nr \<ge> watermark mv) False s;
         Some (if freed < 0 then Inr () else Inl (), s) }) pages () s;
     Some (case r of Inl _ \<Rightarrow> True | Inr _ \<Rightarrow> False, s) }"

definition vbar_unpin_stream ::
  "env \<Rightarrow> nat \<Rightarrow> u64 \<Rightarrow> u64 \<Rightarrow> u64 \<Rightarrow> 'z vstate_scheme \<Rightarrow> (bool \<times> 'z vstate_scheme) option" where
  "vbar_unpin_stream E v offset bytes stream s = do {
     mv \<leftarrow> vheap s v;
     ((token, known), s) \<leftarrow> (if winxpu E then vbar_consumer_dependency E stream (device mv) s
                           else Some ((0, False), s));
     (_, s) \<leftarrow> vbar_state_lock E s;
     let s = s\<lparr>vbars_dirty := True\<rparr>;
     let above = (\<not> winxpu E \<and> VBAR_GET_PAGE_NR_UP (offset + bytes) > watermark mv);
     (_, s) \<leftarrow> (if above then check_cu E CtxSynchronize s else Some (True, s));
     let pages = covered_pages mv offset bytes;
     (_, s) \<leftarrow> update_pages v (drop_pin E token known) pages s;
     (ok, s) \<leftarrow> release_above E v pages s;
     (_, s) \<leftarrow> (if ok \<and> above then check_cu E CtxSynchronize s else Some (True, s));
     (_, s) \<leftarrow> vbar_state_unlock E s;
     Some (ok, s) }"

definition vbar_unpin :: "env \<Rightarrow> nat \<Rightarrow> u64 \<Rightarrow> u64 \<Rightarrow> 'z vstate_scheme \<Rightarrow> (bool \<times> 'z vstate_scheme) option" where
  "vbar_unpin E v offset bytes s = vbar_unpin_stream E v offset bytes 0 s"

subsection \<open>Destruction\<close>

definition live_consumer :: "model_vbar \<Rightarrow> resident_page \<Rightarrow> bool" where
  "live_consumer mv rp \<longleftrightarrow> copy_holds mv \<noteq> 0 \<or> pin_count rp \<noteq> 0 \<or> vbar_consumer_held rp \<or> retire_unknown rp"

text \<open>
  The teardown of the pages on Windows/XPU: \<open>Inr\<close> at the first page with a live consumer, and
  at the first whose allocation could not be released.
\<close>

definition teardown_page :: "env \<Rightarrow> nat \<Rightarrow> nat \<Rightarrow> unit \<Rightarrow> 'z vstate_scheme \<Rightarrow> ((unit + unit) \<times> 'z vstate_scheme) option" where
  "teardown_page E v page_nr = (\<lambda>_ s. do {
     mv \<leftarrow> vheap s v;
     rp \<leftarrow> at_index (residency_map mv) page_nr;
     if live_consumer mv rp then Some (Inr (), s)
     else do {
       (_, s) \<leftarrow> mod1 E v page_nr True True (upd_page v page_nr vbar_page_cancel_eviction s);
       rp \<leftarrow> get_page v page_nr s;
       Some (if handle rp \<noteq> 0 then Inr () else Inl (), s) } })"

definition destroy_vbar :: "nat \<Rightarrow> 'z vstate_scheme \<Rightarrow> 'z vstate_scheme" where
  "destroy_vbar v s = (remove_vbar v s)\<lparr>vheap := (vheap s)(v := None)\<rparr>"

definition vbar_free_winxpu :: "env \<Rightarrow> nat \<Rightarrow> 'z vstate_scheme \<Rightarrow> (unit \<times> 'z vstate_scheme) option" where
  "vbar_free_winxpu E v s = do {
     (_, s) \<leftarrow> vbar_state_lock E s;
     mv \<leftarrow> vheap s v;
     if closing mv then vbar_state_unlock E s
     else do {
       (_, s) \<leftarrow> vbar_state_unlock E (upd_vbar v (\<lambda>mv. mv\<lparr>closing := True, pageout_callback := False\<rparr>) s);
       (ok, s) \<leftarrow> check_cu E CtxSynchronize s;
       if \<not> ok then Some ((), s)
       else do {
         (_, s) \<leftarrow> vbar_state_lock E s;
         mv \<leftarrow> vheap s v;
         if list_ex (live_consumer mv) (take (nr_pages mv) (residency_map mv)) then vbar_state_unlock E s
         else do {
           (_, s) \<leftarrow> vbar_state_unlock E s;
           (ok, s) \<leftarrow> check_cu E CtxSynchronize s;
           if \<not> ok then Some ((), s)
           else do {
             (_, s) \<leftarrow> vbar_state_lock E s;
             let s = upd_vbar v (\<lambda>mv. mv\<lparr>pageout_callback := False\<rparr>) (s\<lparr>vbars_dirty := True\<rparr>);
             (r, s) \<leftarrow> foreach (teardown_page E v) [0..<nr_pages mv] () s;
             case r of
               Inr _ \<Rightarrow> vbar_state_unlock E s
             | Inl _ \<Rightarrow> do {
                 (ok, s) \<leftarrow> check_cu E (AddressFree (vbar mv) (of_nat (nr_pages mv) * VBAR_PAGE_SIZE)) s;
                 vbar_state_unlock E (if ok then destroy_vbar v s else s) } } } } } }"

definition vbar_free :: "env \<Rightarrow> nat \<Rightarrow> 'z vstate_scheme \<Rightarrow> (unit \<times> 'z vstate_scheme) option" where
  "vbar_free E v s =
     (if winxpu E then vbar_free_winxpu E v s
      else do {
        (_, s) \<leftarrow> check_cu E CtxSynchronize (s\<lparr>vbars_dirty := True\<rparr>);
        mv \<leftarrow> vheap s v;
        (_, s) \<leftarrow> each (\<lambda>page_nr s. do { (_, s) \<leftarrow> mod1 E v page_nr True True s; Some ((), s) })
                   [0..<nr_pages mv] (upd_vbar v (\<lambda>mv. mv\<lparr>pageout_callback := False\<rparr>) s);
        (_, s) \<leftarrow> check_cu E (AddressFree (vbar mv) (of_nat (nr_pages mv) * VBAR_PAGE_SIZE)) (remove_vbar v s);
        (_, s) \<leftarrow> check_cu E CtxSynchronize s;
        Some ((), destroy_vbar v s) })"

subsection \<open>Reports\<close>

definition vbar_get :: "nat \<Rightarrow> 'z vstate_scheme \<Rightarrow> u64 option" where
  "vbar_get v s = map_option vbar (vheap s v)"

definition vbar_loaded_size :: "nat \<Rightarrow> 'z vstate_scheme \<Rightarrow> u64 option" where
  "vbar_loaded_size v s = map_option (\<lambda>mv. resident_count mv * VBAR_PAGE_SIZE) (vheap s v)"

definition vbar_get_nr_pages :: "nat \<Rightarrow> 'z vstate_scheme \<Rightarrow> nat option" where
  "vbar_get_nr_pages v s = map_option nr_pages (vheap s v)"

definition vbar_get_watermark :: "nat \<Rightarrow> 'z vstate_scheme \<Rightarrow> nat option" where
  "vbar_get_watermark v s = map_option watermark (vheap s v)"

definition residency_bits :: "env \<Rightarrow> resident_page \<Rightarrow> nat" where
  "residency_bits E rp = (if vbar_page_is_mapped E rp then 1 else 0) + (if pin_count rp \<noteq> 0 then 2 else 0)"

definition vbar_get_residency :: "env \<Rightarrow> nat \<Rightarrow> nat \<Rightarrow> 'z vstate_scheme \<Rightarrow> nat list option" where
  "vbar_get_residency E v max_pages s =
     map_option (\<lambda>mv. map (residency_bits E) (take (min (nr_pages mv) max_pages) (residency_map mv))) (vheap s v)"

definition saturate16 :: "nat \<Rightarrow> u64" where
  "saturate16 n = (if n > 65535 then 65535 else of_nat n)"

definition page_state_word :: "env \<Rightarrow> resident_page \<Rightarrow> u64" where
  "page_state_word E rp =
     (if vbar_page_is_mapped E rp then 1 else 0) OR (if evicting rp then 2 else 0) OR
     (if retire_unknown rp then 4 else 0) OR (if mapped rp = VBAR_MAPPING_UNKNOWN then 8 else 0) OR
     push_bit 8 (saturate16 (pin_count rp)) OR push_bit 24 (of_nat (length (retire_tokens rp))) OR
     push_bit 32 (saturate16 (external_consumer_holds rp)) OR push_bit 48 (saturate16 (capture_holds rp))"

definition vbar_get_page_states :: "env \<Rightarrow> nat \<Rightarrow> nat \<Rightarrow> 'z vstate_scheme \<Rightarrow> u64 list option" where
  "vbar_get_page_states E v max_pages s =
     map_option (\<lambda>mv. map (page_state_word E) (take (min (nr_pages mv) max_pages) (residency_map mv))) (vheap s v)"

text \<open>\<open>vbars_analyze\<close>: the bytes of all mapped pages, recounted page by page.\<close>

definition vbars_analyze :: "env \<Rightarrow> bool \<Rightarrow> 'z vstate_scheme \<Rightarrow> (u64 \<times> 'z vstate_scheme) option" where
  "vbars_analyze E only_dirty s = do {
     (_, s) \<leftarrow> vbar_state_lock E s;
     if only_dirty \<and> \<not> vbars_dirty s then do { (_, s) \<leftarrow> vbar_state_unlock E s; Some (0, s) }
     else do {
       let s = s\<lparr>vbars_dirty := False\<rparr>;
       (r, s) \<leftarrow> foreach (\<lambda>i bytes s. do {
           mv \<leftarrow> vheap s i;
           Some (Inl (bytes + of_nat (count_if (vbar_page_is_mapped E) (take (nr_pages mv) (residency_map mv))) * VBAR_PAGE_SIZE), s) })
         (vorder s) 0 s;
       (_, s) \<leftarrow> vbar_state_unlock E s;
       Some (case r of Inl bytes \<Rightarrow> bytes | Inr bytes \<Rightarrow> bytes, s) } }"

text \<open>
  \<open>aimdo_vbar_describe_range\<close>: for an address inside a VBAR, the first page, whether all pages
  of the range are mapped, the least pin count, the first page that is not mapped, and the
  number of pages.
\<close>

record range_report =
  rr_mapped :: bool
  rr_pin :: nat
  rr_page_index :: nat
  rr_unmapped_page :: "nat option"
  rr_pages_spanned :: u64

definition range_pages :: "model_vbar \<Rightarrow> u64 \<Rightarrow> u64 \<Rightarrow> nat \<times> nat" where
  "range_pages mv address bytes =
     (let offset = address - vbar mv;
          hi = unat ((offset + (if bytes \<noteq> 0 then bytes - 1 else 0)) div VBAR_PAGE_SIZE)
      in (unat (offset div VBAR_PAGE_SIZE), if hi \<ge> nr_pages mv then nr_pages mv - 1 else hi))"

definition describe_pages :: "env \<Rightarrow> model_vbar \<Rightarrow> nat \<Rightarrow> nat \<Rightarrow> range_report" where
  "describe_pages E mv lo hi =
     (let pages = drop lo (take (Suc hi) (residency_map mv)) in
      \<lparr>rr_mapped = list_all (vbar_page_is_mapped E) pages,
       rr_pin = (let m = fold (\<lambda>rp m. if pin_count rp < m then pin_count rp else m) pages UINT32_MAX
                 in if m = UINT32_MAX then 0 else m),
       rr_page_index = lo,
       rr_unmapped_page = map_option fst (List.find (\<lambda>(i, rp). \<not> vbar_page_is_mapped E rp) (zip [lo..<Suc hi] pages)),
       rr_pages_spanned = of_nat hi - of_nat lo + 1\<rparr>)"

definition aimdo_vbar_describe_range ::
  "env \<Rightarrow> u64 \<Rightarrow> u64 \<Rightarrow> 'z vstate_scheme \<Rightarrow> (range_report option \<times> 'z vstate_scheme) option" where
  "aimdo_vbar_describe_range E address bytes s = do {
     (_, s) \<leftarrow> vbar_state_lock E s;
     (r, s) \<leftarrow> foreach (\<lambda>i _ s. do {
         mv \<leftarrow> vheap s i;
         let span = of_nat (nr_pages mv) * VBAR_PAGE_SIZE;
         Some (if address \<ge> vbar mv \<and> address < vbar mv + span
               then Inr (let (lo, hi) = range_pages mv address bytes in describe_pages E mv lo hi)
               else Inl (), s) })
       (vorder s) () s;
     (_, s) \<leftarrow> vbar_state_unlock E s;
     Some (case r of Inl _ \<Rightarrow> None | Inr report \<Rightarrow> Some report, s) }"

definition aimdo_vbar_describe_address ::
  "env \<Rightarrow> u64 \<Rightarrow> 'z vstate_scheme \<Rightarrow> (range_report option \<times> 'z vstate_scheme) option" where
  "aimdo_vbar_describe_address E address s = aimdo_vbar_describe_range E address VBAR_PAGE_SIZE s"

end
