(* ===== verification/VbarApiInv.thy ===== *)
theory VbarApiInv
  imports VbarApi
begin

unbundle bit_operations_syntax

text \<open>
  What the exported VBAR operations guarantee: creation and destruction keep the invariant and the
  byte accounting, a priority change only moves one VBAR, pins and holds change exactly as asked,
  nothing is given up that a live consumer needs, and the reports are what the pages say.
\<close>

subsection \<open>Updates of several pages\<close>

fun upd_at :: "('a \<Rightarrow> 'a) \<Rightarrow> nat list \<Rightarrow> 'a list \<Rightarrow> 'a list" where
  "upd_at f [] xs = xs"
| "upd_at f (i # is) xs = upd_at f is (xs[i := f (xs ! i)])"

lemma length_upd_at [simp]: "length (upd_at f is xs) = length xs"
  by (induction "is" arbitrary: xs) auto

lemma nth_upd_at:
  "distinct is \<Longrightarrow> j < length xs \<Longrightarrow> upd_at f is xs ! j = (if j \<in> set is then f (xs ! j) else xs ! j)"
proof (induction "is" arbitrary: xs)
  case Nil
  then show ?case by simp
next
  case (Cons i "is")
  then show ?case by (cases "j = i") (auto simp: nth_list_update)
qed

text \<open>A change that keeps the allocation and the mapping of a page.\<close>

lemma silent_page_step:
  assumes "vheap s v = Some mv" "i < length (residency_map mv)"
    "handle (f (residency_map mv ! i)) = handle (residency_map mv ! i)"
    "mapped (f (residency_map mv ! i)) = mapped (residency_map mv ! i)"
    "page_ok E (residency_map mv ! i) \<longrightarrow> page_ok E (f (residency_map mv ! i))"
    "P v i (residency_map mv ! i) (f (residency_map mv ! i))"
  shows "vsteps E P W s (upd_page v i f s)"
proof (rule page_step [OF assms(1,2), where rp' = "f (residency_map mv ! i)"])
  have m: "vbar_page_is_mapped E (f (residency_map mv ! i)) = vbar_page_is_mapped E (residency_map mv ! i)"
    "owned (f (residency_map mv ! i)) = owned (residency_map mv ! i)"
    using assms(3,4) by (simp_all add: vbar_page_is_mapped_def owned_def)
  show "page_effect v (set_vpage E i (f (residency_map mv ! i)) mv) (total_vram_usage s +
      bytes_if (owned (f (residency_map mv ! i))) - bytes_if (owned (residency_map mv ! i))) s (upd_page v i f s)"
    using assms(1) m by (simp add: page_effect_def set_vpage_def)
  show "dev_change E (page_vaddr mv i) (residency_map mv ! i) (f (residency_map mv ! i)) (hist s) (hist (upd_page v i f s))"
    using m assms(3) by (simp add: dev_change_def)
qed (use assms in auto)

lemma wp_update_pages:
  assumes "vinv E s" "vheap s v = Some mv" "distinct pages" "\<forall>i \<in> set pages. i < nr_pages mv"
    "\<And>i. i \<in> set pages \<Longrightarrow> handle (f (residency_map mv ! i)) = handle (residency_map mv ! i) \<and>
       mapped (f (residency_map mv ! i)) = mapped (residency_map mv ! i) \<and>
       (page_ok E (residency_map mv ! i) \<longrightarrow> page_ok E (f (residency_map mv ! i))) \<and>
       P v i (residency_map mv ! i) (f (residency_map mv ! i))"
  shows "wp (update_pages v f pages s) (\<lambda>_ t. vsteps E P no_field s t \<and> vbar_lock_depth t = vbar_lock_depth s \<and>
    vheap t = (vheap s)(v \<mapsto> mv\<lparr>residency_map := upd_at f pages (residency_map mv)\<rparr>) \<and>
    hist t = hist s \<and> total_vram_usage t = total_vram_usage s)"
  using assms
proof (induction pages arbitrary: s mv)
  case Nil
  then show ?case by (simp add: update_pages_def fun_upd_idem)
next
  case (Cons i pages)
  have len: "length (residency_map mv) = nr_pages mv" using vinv_vbar [OF Cons.prems(1,2)] by (simp add: vbar_ok_def)
  then have i: "i < length (residency_map mv)" using Cons.prems(4) by simp
  let ?s = "upd_page v i f s" and ?mv = "mv\<lparr>residency_map := (residency_map mv)[i := f (residency_map mv ! i)]\<rparr>"
  have st: "vsteps E P no_field s ?s"
    by (rule silent_page_step [OF Cons.prems(2) i]) (use Cons.prems(5) [of i] in auto)
  have vh: "vheap ?s v = Some ?mv" using Cons.prems(2) by simp
  have "wp (update_pages v f pages ?s) (\<lambda>_ t. vsteps E P no_field ?s t \<and> vbar_lock_depth t = vbar_lock_depth ?s \<and>
    vheap t = (vheap ?s)(v \<mapsto> ?mv\<lparr>residency_map := upd_at f pages (residency_map ?mv)\<rparr>) \<and>
    hist t = hist ?s \<and> total_vram_usage t = total_vram_usage ?s)"
  proof (rule Cons.IH [OF vinv_vsteps [OF st Cons.prems(1)] vh])
    fix j assume j: "j \<in> set pages"
    then have "j \<noteq> i" using Cons.prems(3) by auto
    then show "handle (f (residency_map ?mv ! j)) = handle (residency_map ?mv ! j) \<and>
       mapped (f (residency_map ?mv ! j)) = mapped (residency_map ?mv ! j) \<and>
       (page_ok E (residency_map ?mv ! j) \<longrightarrow> page_ok E (f (residency_map ?mv ! j))) \<and>
       P v j (residency_map ?mv ! j) (f (residency_map ?mv ! j))"
      using Cons.prems(5) [of j] j by simp
  qed (use Cons.prems(3,4) in auto)
  then show ?case
    using Cons.prems(2) i st
    by (auto simp: update_pages_def get_page_def elim!: wp_conseq intro: vsteps_trans)
qed

subsection \<open>Creation\<close>

definition identity_fresh :: "'z vstate_scheme \<Rightarrow> bool" where
  "identity_fresh s \<longleftrightarrow> vbar_identity_counter s \<noteq> - 1 \<and>
     (\<forall>v mv. vheap s v = Some mv \<longrightarrow> identity mv \<le> vbar_identity_counter s)"

lemma new_vbar_ok: "n < 2 ^ 39 \<Longrightarrow> vbar_ok E (new_vbar a n dev bytes callback ident)"
  by (auto simp: vbar_ok_def new_vbar_def count_if_replicate)
    (simp add: page_ok_def fresh_page_def vbar_page_is_mapped_def vbar_consumer_held_def)

text \<open>\<open>created s v mv t\<close>: the only change is the new VBAR \<open>v\<close>, at the highest priority.\<close>

definition created :: "'z vstate_scheme \<Rightarrow> nat \<Rightarrow> model_vbar \<Rightarrow> 'z vstate_scheme \<Rightarrow> bool" where
  "created s v mv t \<longleftrightarrow> v \<notin> dom (vheap s) \<and> vheap t = (vheap s)(v \<mapsto> mv) \<and> vorder t = vorder s @ [v] \<and>
     v < vnext t \<and> vnext s \<le> vnext t \<and> total_vram_usage t = total_vram_usage s"

lemma vinv_created:
  assumes "vinv E s" "created s v mv t" "vbar_ok E mv" "\<forall>w mw. vheap s w = Some mw \<longrightarrow> identity mw \<noteq> identity mv"
  shows "vinv E t"
proof -
  have d: "set (vorder s) = dom (vheap s)" "distinct (vorder s)"
    "inj_on (\<lambda>v. map_option identity (vheap s v)) (dom (vheap s))" using assms(1) by (auto simp: vinv_def)
  have "inj_on (\<lambda>v. map_option identity (vheap t v)) (dom (vheap t))"
    unfolding inj_on_def
  proof (intro ballI impI)
    fix x y assume xy: "x \<in> dom (vheap t)" "y \<in> dom (vheap t)" "map_option identity (vheap t x) = map_option identity (vheap t y)"
    show "x = y"
    proof (cases "x = v \<or> y = v")
      case True
      then show ?thesis
        using xy assms(2,4) by (auto simp: created_def split: if_splits) metis+
    next
      case False
      then show ?thesis using xy assms(2) inj_onD [OF d(3), of x y] by (auto simp: created_def)
    qed
  qed
  then show ?thesis
    using assms d by (auto simp: vinv_def created_def split: if_splits intro: less_le_trans)
qed

lemma owned_pages_created:
  assumes "vinv E s" "created s v mv t"
  shows "owned_pages t = owned_pages s + count_if owned (residency_map mv)"
proof -
  have "\<forall>w \<in> set (vorder s). vheap t w = vheap s w" using assms by (auto simp: created_def vinv_def)
  then have "map (\<lambda>v. case vheap t v of None \<Rightarrow> 0 | Some mv \<Rightarrow> count_if owned (residency_map mv)) (vorder s) =
      map (\<lambda>v. case vheap s v of None \<Rightarrow> 0 | Some mv \<Rightarrow> count_if owned (residency_map mv)) (vorder s)"
    by (intro map_cong refl) simp
  from arg_cong [OF this, of sum_list] show ?thesis
    using assms(2) unfolding owned_pages_def by (simp add: created_def)
qed

lemma vbar_clamped_pages_le: "vbar_clamped_pages E s n \<le> n"
  by (simp add: vbar_clamped_pages_def)

text \<open>
  \<open>vbar_allocate\<close> answers \<open>NULL\<close> and leaves every VBAR as it was, or adds one VBAR at the highest
  priority: rounded up to pages, clamped to the device outside XPU, with nothing resident.
\<close>

lemma wp_vbar_allocate:
  assumes "vinv E s" "identity_fresh s"
  shows "wp (vbar_allocate E header page bytes dev callback s) (\<lambda>r t. vinv E t \<and> other_bytes t = other_bytes s \<and>
    total_vram_usage t = total_vram_usage s \<and> vbar_lock_depth t = vbar_lock_depth s \<and>
    (case r of
       None \<Rightarrow> vheap t = vheap s \<and> vorder t = vorder s
     | Some v \<Rightarrow> \<exists>mv n. created s v mv t \<and> vbar_page_count bytes = Some n \<and> nr_pages mv = vbar_clamped_pages E s n \<and>
         watermark mv = nr_pages mv \<and> resident_count mv = 0 \<and> pageout_size mv = bytes \<and>
         (\<forall>rp \<in> set (residency_map mv). rp = fresh_page)))"
proof -
  have same: "vinv E t \<and> other_bytes t = other_bytes s" if "quiet s t" for t
    using vinv_vsteps [OF vsteps_quiet [OF that] assms(1)] other_bytes_vsteps [OF vsteps_quiet [OF that] assms(1)] by blast
  show ?thesis
  proof (cases "vbar_page_count bytes")
    case None
    then show ?thesis using assms(1) by (simp add: vbar_allocate_def)
  next
    case (Some n)
    let ?n = "vbar_clamped_pages E s n"
    have n: "?n < 2 ^ 39" using vbar_page_count_le [OF Some] vbar_clamped_pages_le [of E s n] by simp
    show ?thesis
    proof (cases "vbar_metadata_allocation_size header page ?n")
      case None
      then show ?thesis using assms(1) Some by (simp add: vbar_allocate_def Let_def)
    next
      case size_ok: (Some z)
      let ?h1 = "HostAlloc # hist s" and ?h2 = "AddressReserve (of_nat ?n * VBAR_PAGE_SIZE) 0 # HostAlloc # hist s"
      let ?r = "drv E ?h1 (AddressReserve (of_nat ?n * VBAR_PAGE_SIZE) 0)"
      let ?mv = "new_vbar (r_val ?r) ?n dev bytes callback (vbar_identity_counter s + 1)"
      have q1: "quiet s (s\<lparr>hist := ?h1\<rparr>)" and q2: "quiet s (s\<lparr>hist := ?h2\<rparr>)" by (auto intro!: quiet_hist)
      have fresh: "vnext s \<notin> dom (vheap s)" using assms(1) by (auto simp: vinv_def)
      have id: "identity mw \<noteq> identity ?mv" if "vheap s w = Some mw" for w mw
      proof -
        have "identity mw \<le> vbar_identity_counter s" "vbar_identity_counter s \<noteq> - 1"
          using assms(2) that by (auto simp: identity_fresh_def)
        moreover have "1 + vbar_identity_counter s \<noteq> 0"
          using assms(2) by (auto simp: identity_fresh_def add_eq_0_iff)
        ultimately have "unat (identity mw) < unat (1 + vbar_identity_counter s)"
          by (simp add: unatSuc word_le_nat_alt)
        then show ?thesis by (auto simp: new_vbar_def add.commute)
      qed
      have new: "vinv E t \<and> other_bytes t = other_bytes s \<and> total_vram_usage t = total_vram_usage s"
        if c: "created s (vnext s) ?mv t" for t
        using vinv_created [OF assms(1) c new_vbar_ok [OF n]] id owned_pages_created [OF assms(1) c] c
        by (auto simp: other_bytes_def created_def new_vbar_def count_if_replicate)
      let ?t = "s\<lparr>hist := ?h2, vbars_dirty := True, vbar_identity_counter := vbar_identity_counter s + 1,
          vheap := (vheap s)(vnext s \<mapsto> ?mv), vnext := Suc (vnext s), vorder := vorder s @ [vnext s]\<rparr>"
      have c: "created s (vnext s) ?mv ?t" using fresh by (simp add: created_def)
      have mv: "nr_pages ?mv = ?n" "watermark ?mv = nr_pages ?mv" "resident_count ?mv = 0" "pageout_size ?mv = bytes"
        "\<forall>rp \<in> set (residency_map ?mv). rp = fresh_page" by (simp_all add: new_vbar_def)
      consider "r_rc (drv E (hist s) HostAlloc) \<noteq> 0" | "r_rc (drv E (hist s) HostAlloc) = 0" "r_rc ?r \<noteq> 0"
        | "r_rc (drv E (hist s) HostAlloc) = 0" "r_rc ?r = 0" by blast
      then show ?thesis
      proof cases
        case 1
        then show ?thesis using Some size_ok same [OF q1] by (simp add: vbar_allocate_def Let_def)
      next
        case 2
        then show ?thesis using Some size_ok same [OF q2] by (simp add: vbar_allocate_def Let_def)
      next
        case 3
        have "vbar_allocate E header page bytes dev callback s = Some (Some (vnext s), ?t)"
          using Some size_ok 3 by (simp add: vbar_allocate_def Let_def insert_vbar_def ask_def vbar_state_lock_def vbar_state_unlock_def)
        then show ?thesis using Some new [OF c] c mv by (simp, blast)
      qed
    qed
  qed
qed

subsection \<open>Priorities\<close>

lemma reordered:
  assumes "vinv E s" "distinct (vorder t)" "set (vorder t) = set (vorder s)" "vheap t = vheap s" "vnext t = vnext s"
    "total_vram_usage t = total_vram_usage s"
  shows "vinv E t" "other_bytes t = other_bytes s"
proof -
  show "vinv E t" using assms by (simp add: vinv_def)
  have "owned_pages t = owned_pages s"
    using assms unfolding owned_pages_def by (simp add: vinv_def sum_list_distinct_conv_sum_set)
  then show "other_bytes t = other_bytes s" using assms(6) by (simp add: other_bytes_def)
qed

lemma wp_vbar_deprioritize:
  assumes "vinv E s" "vheap s v = Some mv"
  shows "wp (vbar_deprioritize E v s) (\<lambda>_ t. vorder t = v # filter (\<lambda>w. w \<noteq> v) (vorder s) \<and> vheap t = vheap s \<and>
    vinv E t \<and> other_bytes t = other_bytes s \<and> hist t = hist s \<and> vbar_lock_depth t = vbar_lock_depth s)"
proof -
  let ?P = "\<lambda>t. vorder t = v # filter (\<lambda>w. w \<noteq> v) (vorder s) \<and> vheap t = vheap s \<and>
    vnext t = vnext s \<and> total_vram_usage t = total_vram_usage s \<and> hist t = hist s \<and> vbar_lock_depth t = vbar_lock_depth s"
  have "v \<in> set (vorder s)" "distinct (vorder s)" using assms by (auto simp: vinv_def)
  then have "vinv E t \<and> other_bytes t = other_bytes s" if "?P t" for t
    using that reordered [OF assms(1), of t] by auto
  note ok = this
  have "wp (vbar_deprioritize E v s) (\<lambda>_ t. ?P t)"
    by (simp add: vbar_deprioritize_def insert_vbar_last_def remove_vbar_def)
  then show ?thesis by (rule wp_conseq) (use ok in blast)
qed

lemma wp_vbar_prioritize:
  assumes "vinv E s" "vheap s v = Some mv"
  shows "wp (vbar_prioritize E v clamp s) (\<lambda>_ t. vorder t = filter (\<lambda>w. w \<noteq> v) (vorder s) @ [v] \<and>
    vheap t = (vheap s)(v \<mapsto> mv\<lparr>watermark := nr_pages mv\<rparr>) \<and> malloc_async_clamp t = clamp \<and>
    vinv E t \<and> other_bytes t = other_bytes s \<and> hist t = hist s \<and> vbar_lock_depth t = vbar_lock_depth s)"
proof -
  let ?t = "insert_vbar v (remove_vbar v (s\<lparr>malloc_async_clamp := clamp, vbars_dirty := True\<rparr>))"
  let ?u = "upd_vbar v (\<lambda>mv. mv\<lparr>watermark := nr_pages mv\<rparr>) ?t"
  have v: "v \<in> set (vorder s)" "distinct (vorder s)" using assms by (auto simp: vinv_def)
  have t: "vinv E ?t" "other_bytes ?t = other_bytes s"
    using v by (auto intro!: reordered [OF assms(1)] simp: insert_vbar_def remove_vbar_def)
  have "vsteps E same_page any_field ?t ?u"
    by (rule field_step [of ?t v mv]) (use assms(2) in \<open>auto simp: insert_vbar_def remove_vbar_def same_pages_def any_field_def\<close>)
  then have u: "vinv E ?u" "other_bytes ?u = other_bytes s"
    using vinv_vsteps [OF _ t(1)] other_bytes_vsteps [OF _ t(1)] t(2) by auto
  let ?P = "\<lambda>t. vorder t = filter (\<lambda>w. w \<noteq> v) (vorder s) @ [v] \<and> vheap t = (vheap s)(v \<mapsto> mv\<lparr>watermark := nr_pages mv\<rparr>) \<and>
    malloc_async_clamp t = clamp \<and> vnext t = vnext s \<and> total_vram_usage t = total_vram_usage s \<and>
    hist t = hist s \<and> vbar_lock_depth t = vbar_lock_depth s"
  have ok: "vinv E w \<and> other_bytes w = other_bytes s" if "?P w" for w
  proof -
    have "vheap w = vheap ?u" "vorder w = vorder ?u" "vnext w = vnext ?u" "total_vram_usage w = total_vram_usage ?u"
      using that assms(2) by (auto simp: insert_vbar_def remove_vbar_def upd_vbar_def)
    then show ?thesis using reordered [OF u(1), of w] u by (auto simp: vinv_def)
  qed
  have "wp (vbar_prioritize E v clamp s) (\<lambda>_ t. ?P t)"
    using assms(2) by (simp add: vbar_prioritize_def insert_vbar_def remove_vbar_def Let_def upd_vbar_def)
  then show ?thesis by (rule wp_conseq) (use ok in blast)
qed

subsection \<open>Dropping pins\<close>

lemma publish_fields [simp]:
  "handle (publish_dependency E token known c rp) = handle rp" "mapped (publish_dependency E token known c rp) = mapped rp"
  "pin_count (publish_dependency E token known c rp) = pin_count rp" "serial (publish_dependency E token known c rp) = serial rp"
  "external_consumer_holds (publish_dependency E token known c rp) = external_consumer_holds rp"
  "capture_holds (publish_dependency E token known c rp) = capture_holds rp"
  by (simp_all add: publish_dependency_def Let_def)

lemma page_ok_publish: "page_ok E rp \<Longrightarrow> page_ok E (publish_dependency E token known c rp)"
  using page_ok_record [of E "vbar_page_cancel_eviction rp" token] page_ok_cancel [of E rp]
  by (auto simp: publish_dependency_def Let_def) (auto simp: page_ok_def vbar_consumer_held_def)

lemma page_ok_lower_pin: "page_ok E rp \<Longrightarrow> n \<le> pin_count rp \<Longrightarrow> page_ok E (rp\<lparr>pin_count := n\<rparr>)"
  by (auto simp: page_ok_def vbar_consumer_held_def)

lemma drop_pin_fields [simp]:
  "handle (drop_pin E token known rp) = handle rp" "mapped (drop_pin E token known rp) = mapped rp"
  "pin_count (drop_pin E token known rp) = pin_count rp - 1" "serial (drop_pin E token known rp) = serial rp"
  by (auto simp: drop_pin_def Let_def)

lemma page_ok_drop_pin: "page_ok E rp \<Longrightarrow> page_ok E (drop_pin E token known rp)"
  using page_ok_publish [of E rp token known True]
  by (auto simp: drop_pin_def Let_def intro!: page_ok_lower_pin)

definition unpin_page :: "env \<Rightarrow> u64 \<Rightarrow> bool \<Rightarrow> page_rel" where
  "unpin_page E token known = (\<lambda>v i rp rp'. rp' = drop_pin E token known rp)"

lemma covered_distinct [simp]: "distinct (covered_pages mv offset bytes)"
  "\<forall>i \<in> set (covered_pages mv offset bytes). i < nr_pages mv"
  by (auto simp: covered_pages_def)

lemma wp_dependency:
  "wp (vbar_consumer_dependency E stream dev s) (\<lambda>(token, known) t. t = s\<lparr>hist := hist t\<rparr> \<and> asked_only harmless (hist s) (hist t) \<and>
     (known \<and> async_reclaim E \<longrightarrow> token \<noteq> 0) \<and> (stream = 0 \<longrightarrow> \<not> known))"
  by (auto simp: vbar_consumer_dependency_def)

text \<open>On Windows/XPU the second pass of an unpin frees nothing.\<close>

lemma release_above_winxpu:
  assumes "winxpu E" "vheap s v = Some mv" "\<forall>i \<in> set pages. i < length (residency_map mv)"
  shows "release_above E v pages s = Some (True, s)"
proof -
  let ?body = "\<lambda>page_nr _ s. do {
         mv \<leftarrow> vheap s v;
         (freed, s) \<leftarrow> mod1 E v page_nr (\<not> winxpu E \<and> page_nr \<ge> watermark mv) False s;
         Some (if freed < 0 then Inr () else Inl (), s) }"
  have "foreach ?body pages () s = Some (Inl (), s)"
    using assms(3) by (induction pages) (use assms(1,2) in \<open>auto simp: mod1_def mod1_do_free_def Let_def\<close>)
  then show ?thesis by (simp add: release_above_def)
qed

text \<open>
  On Windows/XPU an unpin drops one pin of every covered page and publishes the consumer on it
  first; no page loses its mapping.
\<close>

lemma wp_unpin_winxpu:
  assumes "vinv E s" "vheap s v = Some mv" "winxpu E"
  shows "wp (vbar_unpin_stream E v offset bytes stream s) (\<lambda>ok t. ok \<and> (\<exists>token known.
    vsteps E (unpin_page E token known) no_field s t \<and> vbar_lock_depth t = vbar_lock_depth s \<and>
    total_vram_usage t = total_vram_usage s \<and> (known \<and> async_reclaim E \<longrightarrow> token \<noteq> 0) \<and> (stream = 0 \<longrightarrow> \<not> known) \<and>
    vheap t = (vheap s)(v \<mapsto> mv\<lparr>residency_map :=
      upd_at (drop_pin E token known) (covered_pages mv offset bytes) (residency_map mv)\<rparr>)))"
proof -
  have len: "length (residency_map mv) = nr_pages mv" using vinv_vbar [OF assms(1,2)] by (simp add: vbar_ok_def)
  have pages: "wp (update_pages v (drop_pin E token known) (covered_pages mv offset bytes) u) (\<lambda>_ t.
      vsteps E (unpin_page E token known) no_field s t \<and> vbar_lock_depth t = Suc (vbar_lock_depth s) \<and>
      total_vram_usage t = total_vram_usage s \<and>
      vheap t = (vheap s)(v \<mapsto> mv\<lparr>residency_map :=
        upd_at (drop_pin E token known) (covered_pages mv offset bytes) (residency_map mv)\<rparr>))"
    if q: "quiet s u" and d: "vbar_lock_depth u = Suc (vbar_lock_depth s)" for u token known
  proof -
    have vh: "vheap u = vheap s" "total_vram_usage u = total_vram_usage s" using quiet_fields [OF q] by auto
    have inv: "vinv E u" by (rule vinv_vsteps [OF vsteps_quiet [OF q] assms(1)])
    have mv: "vheap u v = Some mv" using vh assms(2) by simp
    show ?thesis
      by (rule wp_conseq [OF wp_update_pages [OF inv mv, where P = "unpin_page E token known"]])
        (use vh d vsteps_quiet_left [OF q] page_ok_drop_pin in \<open>auto simp: unpin_page_def\<close>)
  qed
  have release: "release_above E v (covered_pages mv offset bytes) t = Some (True, t)"
    if "vheap t = (vheap s)(v \<mapsto> mv\<lparr>residency_map :=
        upd_at (drop_pin E token known) (covered_pages mv offset bytes) (residency_map mv)\<rparr>)" for t token known
  proof -
    have "vheap t v = Some (mv\<lparr>residency_map :=
        upd_at (drop_pin E token known) (covered_pages mv offset bytes) (residency_map mv)\<rparr>)" using that by simp
    then show ?thesis
      by (rule release_above_winxpu [OF assms(3)]) (use covered_distinct(2) [of mv offset bytes] in \<open>simp add: len\<close>)
  qed
  let ?Q = "\<lambda>ok t. ok \<and> (\<exists>token known.
    vsteps E (unpin_page E token known) no_field s t \<and> vbar_lock_depth t = vbar_lock_depth s \<and>
    total_vram_usage t = total_vram_usage s \<and> (known \<and> async_reclaim E \<longrightarrow> token \<noteq> 0) \<and> (stream = 0 \<longrightarrow> \<not> known) \<and>
    vheap t = (vheap s)(v \<mapsto> mv\<lparr>residency_map :=
      upd_at (drop_pin E token known) (covered_pages mv offset bytes) (residency_map mv)\<rparr>))"
  have main: "wp (update_pages v (drop_pin E token known) (covered_pages mv offset bytes) u)
      (\<lambda>_ t. release_above E v (covered_pages mv offset bytes) t = Some (True, t) \<and> 0 < vbar_lock_depth t \<and>
         ?Q True (t\<lparr>vbar_lock_depth := vbar_lock_depth t - 1\<rparr>))"
    if q: "quiet s u" "vbar_lock_depth u = Suc (vbar_lock_depth s)" and k: "known \<and> async_reclaim E \<longrightarrow> token \<noteq> 0"
      "stream = 0 \<longrightarrow> \<not> known" for u token known
  proof (rule wp_conseq [OF pages [OF q, of token known]], elim conjE)
    fix t
    assume t: "vsteps E (unpin_page E token known) no_field s t" "vbar_lock_depth t = Suc (vbar_lock_depth s)"
      "total_vram_usage t = total_vram_usage s"
      "vheap t = (vheap s)(v \<mapsto> mv\<lparr>residency_map :=
        upd_at (drop_pin E token known) (covered_pages mv offset bytes) (residency_map mv)\<rparr>)"
    have "?Q True (t\<lparr>vbar_lock_depth := vbar_lock_depth t - 1\<rparr>)"
      by (intro conjI TrueI exI [of _ token] exI [of _ known]) (use t k in simp_all)
    then show "release_above E v (covered_pages mv offset bytes) t = Some (True, t) \<and> 0 < vbar_lock_depth t \<and>
         ?Q True (t\<lparr>vbar_lock_depth := vbar_lock_depth t - 1\<rparr>)"
      using release [OF t(4)] t(2) by simp
  qed
  show ?thesis
    unfolding vbar_unpin_stream_def
  proof (simp only: wp_bind split_conv assms(2) assms(3) if_True bind.bind_lunit, rule wp_conseq [OF wp_dependency], goal_cases)
    case (1 a u)
    obtain token known where a: "a = (token, known)" by (cases a)
    have h: "u = s\<lparr>hist := hist u\<rparr>" "asked_only harmless (hist s) (hist u)" "known \<and> async_reclaim E \<longrightarrow> token \<noteq> 0"
      "stream = 0 \<longrightarrow> \<not> known" using 1 a by auto
    let ?u = "u\<lparr>vbar_lock_depth := Suc (vbar_lock_depth u), vbars_dirty := True\<rparr>"
    have "quiet s (s\<lparr>hist := hist u\<rparr>)" by (rule quiet_hist) (rule h(2))
    then have "quiet s ?u" using h(1) by simp
    moreover have "vbar_lock_depth ?u = Suc (vbar_lock_depth s)"
      using arg_cong [OF h(1), of vbar_lock_depth] by simp
    ultimately have "wp (update_pages v (drop_pin E token known) (covered_pages mv offset bytes) ?u)
      (\<lambda>_ t. release_above E v (covered_pages mv offset bytes) t = Some (True, t) \<and> 0 < vbar_lock_depth t \<and>
         ?Q True (t\<lparr>vbar_lock_depth := vbar_lock_depth t - 1\<rparr>))" by (rule main) (use h in auto)
    then show ?case
      unfolding a using assms(3) by (simp add: Let_def) (erule wp_conseq, simp)
  qed
qed

end
