(* ===== verification/Demo.thy ===== *)
theory Demo
  imports VbarApiInv
begin

text \<open>
  Concrete states at which the witnesses apply the properties: one device with one VBAR of
  three pages, the first resident and idle, and the two environments of \<open>Env\<close>.
\<close>

definition idle_page :: resident_page where
  "idle_page = fresh_page\<lparr>handle := 7, mapped := VBAR_MAPPING_MAPPED, serial := 1, retire_tokens := [8]\<rparr>"

definition demo_vbar :: model_vbar where
  "demo_vbar = \<lparr>vbar = 2 ^ 40, nr_pages = 3, watermark = 3, watermark_limit = 0, device = 0,
     resident_count = 1, pageout_size = 0, pageout_callback = False, identity = 1, copy_holds = 0,
     closing = False, residency_map = [idle_page, fresh_page, fresh_page]\<rparr>"

definition demo_ctx :: ctx where
  "demo_ctx = \<lparr>hist = [], device_id = 0, vram_capacity = 2 ^ 33, integrated_ram_headroom = 2 ^ 31,
     extra_vram_headroom = 0, malloc_async_clamp = 0, total_vram_usage = 33554432,
     vbar_reclaim_requested = 0, total_vram_last_check = 0, deficit_sync = 0,
     control_timestamp_last_check = 0, vbars_dirty = False, allocations_dirty = False,
     integrated_device = False, simple_vram_headroom = 0, nvml_device = False,
     g_wddm_adapter = False, g_dxcore_adapter = False, wddm_timestamp_last_check = 0,
     wddm_nonlocal_usage_baseline = 0, vbar_lock_depth = 0, allocations_lock_depth = 0\<rparr>"

definition demo_state :: vstate where
  "demo_state = gstate.extend (ctx.extend demo_ctx (gstate.fields Map.empty None 0 0))
     (vstate.fields [0 \<mapsto> demo_vbar] [0] 1 1)"

lemmas demo_defs = demo_state_def demo_vbar_def demo_ctx_def idle_page_def fresh_page_def
  vstate.defs gstate.defs ctx.defs

lemma demo_sel [simp]:
  "hist demo_state = []" "vheap demo_state = [0 \<mapsto> demo_vbar]" "vorder demo_state = [0]"
  "vnext demo_state = 1" "vbar_identity_counter demo_state = 1" "active_graph demo_state = None"
  "total_vram_usage demo_state = 33554432" "vbar_lock_depth demo_state = 0"
  "nr_pages demo_vbar = 3" "identity demo_vbar = 1" "watermark demo_vbar = 3" "vbar demo_vbar = 2 ^ 40"
  "residency_map demo_vbar = [idle_page, fresh_page, fresh_page]" "resident_count demo_vbar = 1"
  by (simp_all add: demo_defs)

lemma idle_page_ok [simp]: "page_ok E idle_page" "vbar_page_is_mapped E idle_page" "owned idle_page"
  by (simp_all add: page_ok_def idle_page_def fresh_page_def vbar_page_is_mapped_def owned_def vbar_consumer_held_def)

lemma demo_page_ok [simp]: "page_ok E fresh_page"
  by (simp add: page_ok_def fresh_page_def vbar_consumer_held_def)

lemma demo_vinv [simp]: "vinv E demo_state"
  by (simp add: vinv_def vbar_ok_def)

lemma demo_graph_ok [simp]: "graph_ok demo_state"
  by (simp add: graph_ok_def)

end
