(* ===== verification/VmmRef.thy ===== *)
theory VmmRef
  imports VbarApi
begin

text \<open>
  Reference-counted virtual ranges and physical pages (\<open>src/vmm-ref.c\<close>).

  A range, a physical allocation and a reference to an allocation (\<open>PhysicalPage\<close>) are addresses
  into heaps of the state; \<open>mnext\<close> is the next free address. The singly linked list of the
  references of an allocation is the list of their addresses, the newest first. Reference counts
  are natural numbers below \<open>2 ^ 64\<close>; \<open>pred64\<close> writes out how a \<open>size_t\<close> falls below zero.
\<close>

record virtual_range =
  vr_address :: u64
  vr_bytes :: u64
  vr_refs :: nat

record physical_allocation =
  pa_handle :: u64
  pa_bytes :: u64
  pa_refs :: nat
  pa_references :: "nat list"

record physical_page =
  pp_allocation :: nat
  pp_address :: u64

record mstate = vstate +
  vranges :: "nat \<rightharpoonup> virtual_range"
  pallocs :: "nat \<rightharpoonup> physical_allocation"
  ppages :: "nat \<rightharpoonup> physical_page"
  mnext :: nat

definition pred64 :: "nat \<Rightarrow> nat" where
  "pred64 n = (if n = 0 then 2 ^ 64 - 1 else n - 1)"

text \<open>\<open>malloc\<close> and \<open>calloc\<close>: whether the result is not \<open>NULL\<close>.\<close>

definition host_alloc :: "env \<Rightarrow> 'z base_scheme \<Rightarrow> (bool \<times> 'z base_scheme) option" where
  "host_alloc E s = do { (r, s) \<leftarrow> ask E HostAlloc s; Some (r_rc r = 0, s) }"

subsection \<open>Virtual ranges\<close>

definition virtual_range_alloc :: "env \<Rightarrow> u64 \<Rightarrow> u64 \<Rightarrow> 'z mstate_scheme \<Rightarrow> (nat option \<times> 'z mstate_scheme) option" where
  "virtual_range_alloc E bytes alignment s = do {
     (ok, s) \<leftarrow> host_alloc E s;
     if \<not> ok then Some (None, s)
     else do {
       (r, s) \<leftarrow> ask E (AddressReserve bytes alignment) s;
       if r_rc r \<noteq> 0 then Some (None, s)
       else Some (Some (mnext s),
              s\<lparr>vranges := (vranges s)(mnext s \<mapsto> \<lparr>vr_address = r_val r, vr_bytes = bytes, vr_refs = 1\<rparr>),
                mnext := Suc (mnext s)\<rparr>) } }"

definition virtual_range_ref :: "env \<Rightarrow> nat \<Rightarrow> 'z mstate_scheme \<Rightarrow> (nat \<times> 'z mstate_scheme) option" where
  "virtual_range_ref E rng s = do {
     (_, s) \<leftarrow> allocations_lock E s;
     rg \<leftarrow> vranges s rng;
     (_, s) \<leftarrow> allocations_unlock E (s\<lparr>vranges := (vranges s)(rng \<mapsto> rg\<lparr>vr_refs := vr_refs rg + 1\<rparr>)\<rparr>);
     Some (rng, s) }"

definition virtual_range_unref :: "env \<Rightarrow> nat \<Rightarrow> 'z mstate_scheme \<Rightarrow> (int \<times> 'z mstate_scheme) option" where
  "virtual_range_unref E rng s = do {
     (_, s) \<leftarrow> allocations_lock E s;
     rg \<leftarrow> vranges s rng;
     let refs = pred64 (vr_refs rg);
     if refs \<noteq> 0 then do {
       (_, s) \<leftarrow> allocations_unlock E (s\<lparr>vranges := (vranges s)(rng \<mapsto> rg\<lparr>vr_refs := refs\<rparr>)\<rparr>);
       Some (CUDA_SUCCESS, s) }
     else do {
       (r, s) \<leftarrow> ask E (AddressFree (vr_address rg) (vr_bytes rg)) s;
       (_, s) \<leftarrow> allocations_unlock E
         (if r_rc r \<noteq> 0 then s\<lparr>vranges := (vranges s)(rng \<mapsto> rg\<lparr>vr_refs := refs + 1\<rparr>)\<rparr>
          else s\<lparr>vranges := (vranges s)(rng := None)\<rparr>);
       Some (r_rc r, s) } }"

definition virtual_range_get :: "nat \<Rightarrow> 'z mstate_scheme \<Rightarrow> u64 option" where
  "virtual_range_get rng s = do { rg \<leftarrow> vranges s rng; Some (vr_address rg) }"

subsection \<open>Physical pages\<close>

text \<open>\<open>Inl err\<close>, or \<open>Inr page\<close>. Both host allocations are made before either is tested.\<close>

definition physical_page_alloc :: "env \<Rightarrow> u64 \<Rightarrow> int \<Rightarrow> 'z mstate_scheme \<Rightarrow> ((int + nat) \<times> 'z mstate_scheme) option" where
  "physical_page_alloc E bytes dev s = do {
     (ok1, s) \<leftarrow> host_alloc E s;
     (ok2, s) \<leftarrow> host_alloc E s;
     if \<not> ok1 \<or> \<not> ok2 then Some (Inl CUDA_ERROR_OUT_OF_MEMORY, s)
     else do {
       (r, s) \<leftarrow> ask E (MemCreate bytes dev) s;
       if r_rc r \<noteq> 0 then Some (Inl (r_rc r), s)
       else do {
         let page = mnext s;
         let allocation = Suc (mnext s);
         let s = s\<lparr>pallocs := (pallocs s)(allocation \<mapsto>
                     \<lparr>pa_handle = r_val r, pa_bytes = bytes, pa_refs = 1, pa_references = [page]\<rparr>),
                   ppages := (ppages s)(page \<mapsto> \<lparr>pp_allocation = allocation, pp_address = 0\<rparr>),
                   mnext := Suc (Suc (mnext s))\<rparr>;
         (_, s) \<leftarrow> allocations_lock E s;
         (_, s) \<leftarrow> allocations_unlock E (s\<lparr>total_vram_usage := total_vram_usage s + bytes\<rparr>);
         Some (Inr page, s) } } }"

definition physical_page_ref :: "env \<Rightarrow> nat \<Rightarrow> u64 \<Rightarrow> 'z mstate_scheme \<Rightarrow> (nat option \<times> 'z mstate_scheme) option" where
  "physical_page_ref E page address s = do {
     (ok, s) \<leftarrow> host_alloc E s;
     if \<not> ok then Some (None, s)
     else do {
       (_, s) \<leftarrow> allocations_lock E s;
       pg \<leftarrow> ppages s page;
       al \<leftarrow> pallocs s (pp_allocation pg);
       let reference = mnext s;
       (_, s) \<leftarrow> allocations_unlock E (s\<lparr>
         pallocs := (pallocs s)(pp_allocation pg \<mapsto> al\<lparr>pa_refs := pa_refs al + 1, pa_references := reference # pa_references al\<rparr>),
         ppages := (ppages s)(reference \<mapsto> \<lparr>pp_allocation = pp_allocation pg, pp_address = address\<rparr>),
         mnext := Suc (mnext s)\<rparr>);
       Some (Some reference, s) } }"

definition physical_page_get :: "nat \<Rightarrow> 'z mstate_scheme \<Rightarrow> u64 option" where
  "physical_page_get page s = do { pg \<leftarrow> ppages s page; al \<leftarrow> pallocs s (pp_allocation pg); Some (pa_handle al) }"

text \<open>
  Dropping a reference: the mapping goes when no other reference is mapped at the same address,
  the allocation when this is its last reference. \<open>unmap_reference\<close> is the first half.
\<close>

definition address_shared :: "nat \<Rightarrow> physical_allocation \<Rightarrow> u64 \<Rightarrow> 'z mstate_scheme \<Rightarrow> bool" where
  "address_shared page al address s =
     list_ex (\<lambda>q. q \<noteq> page \<and> map_option pp_address (ppages s q) = Some address) (pa_references al)"

definition unmap_reference :: "env \<Rightarrow> nat \<Rightarrow> physical_page \<Rightarrow> physical_allocation \<Rightarrow> 'z mstate_scheme \<Rightarrow> (int \<times> 'z mstate_scheme) option" where
  "unmap_reference E page pg al s =
     (if pp_address pg = 0 then Some (CUDA_SUCCESS, s)
      else do {
        (result, s) \<leftarrow> (if address_shared page al (pp_address pg) s then Some (CUDA_SUCCESS, s)
          else do {
            (r, s) \<leftarrow> ask E (MemUnmap (pp_address pg) (pa_bytes al)) s;
            (_, s) \<leftarrow> unmap_workaround E (pp_address pg) (pa_bytes al) s;
            Some (r_rc r, s) });
        Some (result, if result \<noteq> 0 then s else s\<lparr>ppages := (ppages s)(page \<mapsto> pg\<lparr>pp_address := 0\<rparr>)\<rparr>) })"

definition physical_page_unref :: "env \<Rightarrow> nat option \<Rightarrow> 'z mstate_scheme \<Rightarrow> (int \<times> 'z mstate_scheme) option" where
  "physical_page_unref E page_or_null s = (case page_or_null of
      None \<Rightarrow> Some (CUDA_SUCCESS, s)
    | Some page \<Rightarrow> do {
        (_, s) \<leftarrow> allocations_lock E s;
        pg \<leftarrow> ppages s page;
        al \<leftarrow> pallocs s (pp_allocation pg);
        if page \<notin> set (pa_references al) then None
        else do {
          (result, s) \<leftarrow> unmap_reference E page pg al s;
          if result \<noteq> 0 then do { (_, s) \<leftarrow> allocations_unlock E s; Some (result, s) }
          else do {
            (result, s) \<leftarrow> (if pa_refs al = 1 then do {
                (r, s) \<leftarrow> ask E (MemRelease (pa_handle al)) s; Some (r_rc r, s) }
              else Some (CUDA_SUCCESS, s));
            if result \<noteq> 0 then do { (_, s) \<leftarrow> allocations_unlock E s; Some (result, s) }
            else do {
              let refs = pred64 (pa_refs al);
              let s = (if refs = 0
                       then s\<lparr>total_vram_usage := total_vram_usage s - pa_bytes al,
                              pallocs := (pallocs s)(pp_allocation pg := None)\<rparr>
                       else s\<lparr>pallocs := (pallocs s)(pp_allocation pg \<mapsto>
                                al\<lparr>pa_refs := refs, pa_references := remove1 page (pa_references al)\<rparr>)\<rparr>);
              (_, s) \<leftarrow> allocations_unlock E (s\<lparr>ppages := (ppages s)(page := None)\<rparr>);
              Some (CUDA_SUCCESS, s) } } } })"


subsection \<open>The reference graph\<close>

text \<open>
  Every reference belongs to a live allocation that lists it, and an allocation counts exactly the
  references it lists, at least one.
\<close>

definition pinv :: "'z mstate_scheme \<Rightarrow> bool" where
  "pinv s \<longleftrightarrow>
     (\<forall>a al. pallocs s a = Some al \<longrightarrow> a < mnext s \<and> distinct (pa_references al) \<and>
        pa_references al \<noteq> [] \<and> pa_refs al = length (pa_references al) \<and>
        (\<forall>p \<in> set (pa_references al). map_option pp_allocation (ppages s p) = Some a)) \<and>
     (\<forall>p pg. ppages s p = Some pg \<longrightarrow> p < mnext s \<and>
        (\<exists>al. pallocs s (pp_allocation pg) = Some al \<and> p \<in> set (pa_references al)))"

lemma pinv_alloc:
  assumes "pinv s" "pallocs s a = Some al"
  shows "a < mnext s" "distinct (pa_references al)" "pa_references al \<noteq> []" "pa_refs al = length (pa_references al)"
    "p \<in> set (pa_references al) \<Longrightarrow> map_option pp_allocation (ppages s p) = Some a"
  using assms by (auto simp: pinv_def)

lemma pinv_page:
  assumes "pinv s" "ppages s p = Some pg"
  shows "p < mnext s" "\<exists>al. pallocs s (pp_allocation pg) = Some al \<and> p \<in> set (pa_references al)"
  using assms by (auto simp: pinv_def)

lemma pinvI:
  assumes "\<And>a al. pallocs s a = Some al \<Longrightarrow> a < mnext s \<and> distinct (pa_references al) \<and>
        pa_references al \<noteq> [] \<and> pa_refs al = length (pa_references al)"
    and "\<And>a al p. pallocs s a = Some al \<Longrightarrow> p \<in> set (pa_references al) \<Longrightarrow> map_option pp_allocation (ppages s p) = Some a"
    and "\<And>p pg. ppages s p = Some pg \<Longrightarrow> p < mnext s \<and>
        (\<exists>al. pallocs s (pp_allocation pg) = Some al \<and> p \<in> set (pa_references al))"
  shows "pinv s"
  unfolding pinv_def using assms by blast

lemma pinv_new_alloc:
  assumes "pinv s" "ppages t = (ppages s)(p \<mapsto> \<lparr>pp_allocation = a, pp_address = 0\<rparr>)"
    "pallocs t = (pallocs s)(a \<mapsto> \<lparr>pa_handle = h, pa_bytes = n, pa_refs = 1, pa_references = [p]\<rparr>)"
    "p \<notin> dom (ppages s)" "a \<notin> dom (pallocs s)" "p < mnext t" "a < mnext t" "mnext s \<le> mnext t"
  shows "pinv t"
proof (rule pinvI, goal_cases)
  case (1 a' al)
  then show ?case
    using assms pinv_alloc [OF assms(1), of a' al] by (cases "a' = a") auto
next
  case (2 a' al q)
  then show ?case
    using assms pinv_alloc(5) [OF assms(1), of a' al q] by (cases "a' = a"; cases "q = p") auto
next
  case (3 q pg)
  then show ?case
    using assms pinv_page [OF assms(1), of q pg] by (cases "q = p"; cases "pp_allocation pg = a") auto
qed

lemma pinv_new_ref:
  assumes "pinv s" "pallocs s a = Some al" "q \<notin> dom (ppages s)" "q < mnext t" "mnext s \<le> mnext t"
    "ppages t = (ppages s)(q \<mapsto> \<lparr>pp_allocation = a, pp_address = x\<rparr>)"
    "pallocs t = (pallocs s)(a \<mapsto> al\<lparr>pa_refs := pa_refs al + 1, pa_references := q # pa_references al\<rparr>)"
  shows "pinv t"
proof -
  have q: "q \<notin> set (pa_references al')" if "pallocs s a' = Some al'" for a' al'
    using pinv_alloc(5) [OF assms(1) that, of q] assms(3) by auto
  show ?thesis
  proof (rule pinvI, goal_cases)
    case (1 a' al')
    show ?case
    proof (cases "a' = a")
      case True
      then have "al' = al\<lparr>pa_refs := pa_refs al + 1, pa_references := q # pa_references al\<rparr>" using 1 assms(7) by simp
      then show ?thesis
        using True assms(5) q [OF assms(2)] pinv_alloc(1-4) [OF assms(1,2)] by simp
    next
      case False
      then have "pallocs s a' = Some al'" using 1 assms(7) by simp
      then show ?thesis using pinv_alloc(1-4) [OF assms(1), of a' al'] assms(5) by simp
    qed
  next
    case (2 a' al' p)
    show ?case
    proof (cases "p = q")
      case True
      then have "a' = a" using 2 q assms(7) by (auto split: if_splits)
      then show ?thesis using True assms(6) by simp
    next
      case False
      then have "\<exists>al0. pallocs s a' = Some al0 \<and> p \<in> set (pa_references al0)"
        using 2 assms(2,7) by (auto split: if_splits)
      then show ?thesis using pinv_alloc(5) [OF assms(1), of a' _ p] assms(6) False by auto
    qed
  next
    case (3 p pg)
    then show ?case
      using assms pinv_page [OF assms(1), of p pg] by (cases "p = q"; cases "pp_allocation pg = a") auto
  qed
qed

lemma pinv_drop_ref:
  assumes "pinv s" "pallocs s a = Some al" "p \<in> set (pa_references al)" "mnext t = mnext s"
    "ppages t = (ppages s)(p := None)"
    "pallocs t = (if pa_references al = [p] then (pallocs s)(a := None)
       else (pallocs s)(a \<mapsto> al\<lparr>pa_refs := pa_refs al - 1, pa_references := remove1 p (pa_references al)\<rparr>))"
  shows "pinv t"
proof -
  have al: "distinct (pa_references al)" "pa_refs al = length (pa_references al)" using pinv_alloc [OF assms(1,2)] by auto
  have other: "p \<notin> set (pa_references al')" if "pallocs s a' = Some al'" "a' \<noteq> a" for a' al'
    using pinv_alloc(5) [OF assms(1) that(1), of p] pinv_alloc(5) [OF assms(1,2,3)] that(2) by auto
  have ne: "remove1 p (pa_references al) \<noteq> []" if "pa_references al \<noteq> [p]"
    using assms(3) that al(1) by (cases "pa_references al") (auto split: if_splits)
  show ?thesis
  proof (rule pinvI, goal_cases)
    case (1 a' al')
    show ?case
    proof (cases "a' = a")
      case True
      then have "pa_references al \<noteq> [p]" "al' = al\<lparr>pa_refs := pa_refs al - 1, pa_references := remove1 p (pa_references al)\<rparr>"
        using 1 assms(6) by (auto split: if_splits)
      then show ?thesis
        using ne al assms(3,4) pinv_alloc(1) [OF assms(1,2)] True by (simp add: length_remove1 distinct_remove1)
    next
      case False
      then have "pallocs s a' = Some al'" using 1 assms(6) by (auto split: if_splits)
      then show ?thesis using pinv_alloc [OF assms(1), of a' al'] assms(4) by simp
    qed
  next
    case (2 a' al' q)
    show ?case
    proof (cases "a' = a")
      case True
      then have "q \<in> set (pa_references al) - {p}" using 2 assms(6) al(1) by (auto split: if_splits)
      then show ?thesis using pinv_alloc(5) [OF assms(1,2), of q] assms(5) True by auto
    next
      case False
      then have "pallocs s a' = Some al'" using 2 assms(6) by (auto split: if_splits)
      then show ?thesis using pinv_alloc(5) [OF assms(1), of a' al' q] other 2 False assms(5) by auto
    qed
  next
    case (3 q pg)
    then have q: "q \<noteq> p" "ppages s q = Some pg" using assms(5) by (auto split: if_splits)
    obtain al' where al': "pallocs s (pp_allocation pg) = Some al'" "q \<in> set (pa_references al')" "q < mnext s"
      using pinv_page [OF assms(1) q(2)] by auto
    show ?case
      using al' q assms al(1) by (cases "pp_allocation pg = a") (auto split: if_splits)
  qed
qed

lemma pinv_set_address:
  assumes "pinv s" "ppages s p = Some pg" "ppages t = (ppages s)(p \<mapsto> pg\<lparr>pp_address := x\<rparr>)" "pallocs t = pallocs s"
    "mnext t = mnext s"
  shows "pinv t"
proof (rule pinvI, goal_cases)
  case (1 a al)
  then show ?case using assms pinv_alloc [OF assms(1), of a al] by auto
next
  case (2 a al q)
  then show ?case using assms pinv_alloc(5) [OF assms(1), of a al q] by auto
next
  case (3 q pg')
  then show ?case using assms pinv_page [OF assms(1), of q] by (auto split: if_splits)
qed

lemma pinv_cong: "pinv s \<Longrightarrow> ppages t = ppages s \<Longrightarrow> pallocs t = pallocs s \<Longrightarrow> mnext t = mnext s \<Longrightarrow> pinv t"
  by (simp add: pinv_def)

text \<open>What the operations of this component leave alone: the VBARs and the graphs.\<close>

definition vmm_frame :: "'z mstate_scheme \<Rightarrow> 'z mstate_scheme \<Rightarrow> bool" where
  "vmm_frame s t \<longleftrightarrow> t\<lparr>hist := hist s, total_vram_usage := total_vram_usage s, vranges := vranges s,
     pallocs := pallocs s, ppages := ppages s, mnext := mnext s\<rparr> = s"

lemma vmm_frameD:
  assumes "vmm_frame s t"
  shows "allocations_lock_depth t = allocations_lock_depth s" "vheap t = vheap s" "vorder t = vorder s"
    "vnext t = vnext s" "graphs t = graphs s" "active_graph t = active_graph s"
    "vbar_lock_depth t = vbar_lock_depth s" "mstate.more t = mstate.more s" "device_id t = device_id s"
proof -
  from assms have eq: "t\<lparr>hist := hist s, total_vram_usage := total_vram_usage s, vranges := vranges s,
     pallocs := pallocs s, ppages := ppages s, mnext := mnext s\<rparr> = s" by (simp add: vmm_frame_def)
  show "allocations_lock_depth t = allocations_lock_depth s" using arg_cong [OF eq, of allocations_lock_depth] by simp
  show "vheap t = vheap s" using arg_cong [OF eq, of vheap] by simp
  show "vorder t = vorder s" using arg_cong [OF eq, of vorder] by simp
  show "vnext t = vnext s" using arg_cong [OF eq, of vnext] by simp
  show "graphs t = graphs s" using arg_cong [OF eq, of graphs] by simp
  show "active_graph t = active_graph s" using arg_cong [OF eq, of active_graph] by simp
  show "vbar_lock_depth t = vbar_lock_depth s" using arg_cong [OF eq, of vbar_lock_depth] by simp
  show "mstate.more t = mstate.more s" using arg_cong [OF eq, of mstate.more] by simp
  show "device_id t = device_id s" using arg_cong [OF eq, of device_id] by simp
qed

lemma vmm_frame_eq:
  assumes "vmm_frame s t"
  shows "t = s\<lparr>hist := hist t, total_vram_usage := total_vram_usage t, vranges := vranges t,
     pallocs := pallocs t, ppages := ppages t, mnext := mnext t\<rparr>"
proof -
  have "t = (t\<lparr>hist := hist s, total_vram_usage := total_vram_usage s, vranges := vranges s,
     pallocs := pallocs s, ppages := ppages s, mnext := mnext s\<rparr>)\<lparr>hist := hist t, total_vram_usage := total_vram_usage t,
     vranges := vranges t, pallocs := pallocs t, ppages := ppages t, mnext := mnext t\<rparr>" by simp
  also have "\<dots> = s\<lparr>hist := hist t, total_vram_usage := total_vram_usage t, vranges := vranges t,
     pallocs := pallocs t, ppages := ppages t, mnext := mnext t\<rparr>"
    using assms by (simp only: vmm_frame_def)
  finally show ?thesis .
qed

lemma wp_host_alloc [simp]:
  "wp (host_alloc E s) Q = Q (r_rc (drv E (hist s) HostAlloc) = 0) (s\<lparr>hist := HostAlloc # hist s\<rparr>)"
  by (simp add: host_alloc_def)

text \<open>What a successful \<open>physical_page_alloc\<close> adds.\<close>

definition page_allocated :: "env \<Rightarrow> u64 \<Rightarrow> nat \<Rightarrow> 'z mstate_scheme \<Rightarrow> 'z mstate_scheme \<Rightarrow> bool" where
  "page_allocated E n p s t \<longleftrightarrow> (\<exists>a h. p \<notin> dom (ppages s) \<and> a \<notin> dom (pallocs s) \<and>
     mnext s \<le> p \<and> p < mnext t \<and> mnext s \<le> a \<and> a < mnext t \<and>
     ppages t = (ppages s)(p \<mapsto> \<lparr>pp_allocation = a, pp_address = 0\<rparr>) \<and>
     pallocs t = (pallocs s)(a \<mapsto> \<lparr>pa_handle = h, pa_bytes = n, pa_refs = 1, pa_references = [p]\<rparr>) \<and>
     total_vram_usage t = total_vram_usage s + n \<and>
     live_handles E (hist t) = insert h (live_handles E (hist s)) \<and>
     (create_fresh E \<longrightarrow> h \<noteq> 0 \<and> h \<notin> live_handles E (hist s)))"

definition pages_same :: "'z mstate_scheme \<Rightarrow> 'z mstate_scheme \<Rightarrow> bool" where
  "pages_same s t \<longleftrightarrow> pallocs t = pallocs s \<and> ppages t = ppages s \<and> mnext t = mnext s \<and>
     total_vram_usage t = total_vram_usage s"

lemma pages_same_refl [simp]: "pages_same s s"
  by (simp add: pages_same_def)

lemma pinv_same: "pinv s \<Longrightarrow> pages_same s t \<Longrightarrow> pinv t"
  by (auto simp: pages_same_def intro: pinv_cong)

lemma pinv_allocated: "pinv s \<Longrightarrow> page_allocated E n p s t \<Longrightarrow> pinv t"
  unfolding page_allocated_def by (elim exE conjE, rule pinv_new_alloc, assumption, assumption, assumption) simp_all

lemma pinv_unused:
  assumes "pinv s"
  shows "mnext s \<notin> dom (ppages s)" "Suc (mnext s) \<notin> dom (pallocs s)" "mnext s \<notin> dom (pallocs s)"
  using pinv_alloc(1) [OF assms] pinv_page(1) [OF assms] by fastforce+

lemma wp_physical_page_alloc:
  assumes "pinv s" "allocations_lock_depth s = 0"
  shows "wp (physical_page_alloc E n d s) (\<lambda>r t. pinv t \<and> vmm_frame s t \<and> mappings E (hist t) = mappings E (hist s) \<and>
    vranges t = vranges s \<and>
    (case r of
       Inl e \<Rightarrow> e \<noteq> 0 \<and> pages_same s t \<and> live_handles E (hist t) = live_handles E (hist s)
     | Inr p \<Rightarrow> page_allocated E n p s t))"
proof -
  have "wp (physical_page_alloc E n d s) (\<lambda>r t. vmm_frame s t \<and> mappings E (hist t) = mappings E (hist s) \<and>
    vranges t = vranges s \<and>
    (case r of
       Inl e \<Rightarrow> e \<noteq> 0 \<and> pages_same s t \<and> live_handles E (hist t) = live_handles E (hist s)
     | Inr p \<Rightarrow> page_allocated E n p s t))"
    using assms(2) pinv_unused [OF assms(1)] freshD [of E "HostAlloc # HostAlloc # hist s" n d]
    by (auto simp: physical_page_alloc_def Let_def vmm_frame_def ok_call_def pages_same_def page_allocated_def
        intro!: exI [of _ "Suc (mnext s)"] exI [of _ "r_val (drv E (HostAlloc # HostAlloc # hist s) (MemCreate n d))"])
  then show ?thesis
    by (rule wp_conseq) (use pinv_same [OF assms(1)] pinv_allocated [OF assms(1)] in \<open>auto split: sum.splits\<close>)
qed

text \<open>A new reference to the allocation of \<open>p\<close>.\<close>

definition page_referenced :: "nat \<Rightarrow> u64 \<Rightarrow> nat \<Rightarrow> 'z mstate_scheme \<Rightarrow> 'z mstate_scheme \<Rightarrow> bool" where
  "page_referenced p address q s t \<longleftrightarrow> (\<exists>pg al. ppages s p = Some pg \<and> pallocs s (pp_allocation pg) = Some al \<and>
     q \<notin> dom (ppages s) \<and> mnext s \<le> q \<and> q < mnext t \<and>
     ppages t = (ppages s)(q \<mapsto> \<lparr>pp_allocation = pp_allocation pg, pp_address = address\<rparr>) \<and>
     pallocs t = (pallocs s)(pp_allocation pg \<mapsto>
       al\<lparr>pa_refs := pa_refs al + 1, pa_references := q # pa_references al\<rparr>) \<and>
     total_vram_usage t = total_vram_usage s)"

lemma pinv_referenced: "pinv s \<Longrightarrow> page_referenced p x q s t \<Longrightarrow> pinv t"
  unfolding page_referenced_def by (elim exE conjE, rule pinv_new_ref, assumption, assumption) simp_all

lemma wp_physical_page_ref:
  assumes "pinv s" "allocations_lock_depth s = 0" "ppages s p = Some pg"
  shows "wp (physical_page_ref E p address s) (\<lambda>r t. pinv t \<and> vmm_frame s t \<and> vranges t = vranges s \<and>
    asked_only harmless (hist s) (hist t) \<and>
    (case r of None \<Rightarrow> pages_same s t | Some q \<Rightarrow> page_referenced p address q s t))"
proof -
  obtain al where al: "pallocs s (pp_allocation pg) = Some al" using pinv_page [OF assms(1,3)] by auto
  have "wp (physical_page_ref E p address s) (\<lambda>r t. vmm_frame s t \<and> vranges t = vranges s \<and>
    asked_only harmless (hist s) (hist t) \<and>
    (case r of None \<Rightarrow> pages_same s t | Some q \<Rightarrow> page_referenced p address q s t))"
    using assms(2,3) al pinv_unused [OF assms(1)]
    by (auto simp: physical_page_ref_def Let_def vmm_frame_def pages_same_def page_referenced_def)
  then show ?thesis
    by (rule wp_conseq) (use pinv_same [OF assms(1)] pinv_referenced [OF assms(1)] in \<open>auto split: option.splits\<close>)
qed

text \<open>
  What dropping the reference \<open>p\<close> does. On an error the reference is still there, at most its
  address is forgotten (the mapping was already gone). On success it is gone, the allocation with
  it exactly when it was the last, and the bytes are given back then.
\<close>

definition page_dropped :: "env \<Rightarrow> nat \<Rightarrow> physical_page \<Rightarrow> physical_allocation \<Rightarrow> 'z mstate_scheme \<Rightarrow> 'z mstate_scheme \<Rightarrow> bool" where
  "page_dropped E p pg al s t \<longleftrightarrow> ppages t = (ppages s)(p := None) \<and> mnext t = mnext s \<and>
     (if pa_references al = [p]
      then pallocs t = (pallocs s)(pp_allocation pg := None) \<and>
        total_vram_usage t = total_vram_usage s - pa_bytes al \<and>
        live_handles E (hist t) = live_handles E (hist s) - {pa_handle al}
      else pallocs t = (pallocs s)(pp_allocation pg \<mapsto>
          al\<lparr>pa_refs := pa_refs al - 1, pa_references := remove1 p (pa_references al)\<rparr>) \<and>
        total_vram_usage t = total_vram_usage s \<and> live_handles E (hist t) = live_handles E (hist s))"

definition page_kept :: "env \<Rightarrow> nat \<Rightarrow> physical_page \<Rightarrow> 'z mstate_scheme \<Rightarrow> 'z mstate_scheme \<Rightarrow> bool" where
  "page_kept E p pg s t \<longleftrightarrow> (\<exists>a \<in> {0, pp_address pg}. ppages t = (ppages s)(p \<mapsto> pg\<lparr>pp_address := a\<rparr>)) \<and>
     pallocs t = pallocs s \<and> mnext t = mnext s \<and> total_vram_usage t = total_vram_usage s \<and>
     live_handles E (hist t) = live_handles E (hist s)"

lemma pinv_dropped:
  "pinv s \<Longrightarrow> page_dropped E p pg al s t \<Longrightarrow> ppages s p = Some pg \<Longrightarrow>
     pallocs s (pp_allocation pg) = Some al \<Longrightarrow> pinv t"
  by (rule pinv_drop_ref [of s "pp_allocation pg" al p])
    (auto simp: page_dropped_def dest: pinv_page)

lemma pinv_kept: "pinv s \<Longrightarrow> page_kept E p pg s t \<Longrightarrow> ppages s p = Some pg \<Longrightarrow> pinv t"
  unfolding page_kept_def by (elim conjE bexE, rule pinv_set_address) auto

lemma address_shared_upd [simp]:
  "address_shared p al x (s\<lparr>allocations_lock_depth := n\<rparr>) = address_shared p al x s"
  "address_shared p al x (s\<lparr>hist := h\<rparr>) = address_shared p al x s"
  by (simp_all add: address_shared_def)

lemma wp_unmap_reference:
  assumes "ppages s p = Some pg"
  shows "wp (unmap_reference E p pg al s) (\<lambda>r t.
    t = s\<lparr>hist := hist t, ppages := (ppages s)(p \<mapsto> pg\<lparr>pp_address := if r = 0 then 0 else pp_address pg\<rparr>)\<rparr> \<and>
    live_handles E (hist t) = live_handles E (hist s) \<and>
    (pp_address pg = 0 \<or> address_shared p al (pp_address pg) s \<longrightarrow> mappings E (hist t) = mappings E (hist s)) \<and>
    (r = 0 \<and> pp_address pg \<noteq> 0 \<and> \<not> address_shared p al (pp_address pg) s \<longrightarrow>
      mappings E (hist t) = (\<lambda>x. if x - pp_address pg < pa_bytes al then None else mappings E (hist s) x)))"
proof (cases "pp_address pg = 0")
  case True
  then have "pg\<lparr>pp_address := 0\<rparr> = pg" by simp
  then show ?thesis using True assms by (simp add: unmap_reference_def map_upd_triv)
next
  case False
  then show ?thesis
    using assms by (simp add: unmap_reference_def unmap_workaround_def map_upd_triv ok_call_def)
qed

lemma wp_physical_page_unref:
  assumes "pinv s" "allocations_lock_depth s = 0" "ppages s p = Some pg" "pallocs s (pp_allocation pg) = Some al"
  shows "wp (physical_page_unref E (Some p) s) (\<lambda>r t. pinv t \<and> vmm_frame s t \<and> vranges t = vranges s \<and>
    (r = 0 \<longrightarrow> page_dropped E p pg al s t) \<and> (r \<noteq> 0 \<longrightarrow> page_kept E p pg s t) \<and>
    (pp_address pg = 0 \<or> address_shared p al (pp_address pg) s \<longrightarrow> mappings E (hist t) = mappings E (hist s)) \<and>
    (r = 0 \<and> pp_address pg \<noteq> 0 \<and> \<not> address_shared p al (pp_address pg) s \<longrightarrow>
      mappings E (hist t) = (\<lambda>x. if x - pp_address pg < pa_bytes al then None else mappings E (hist s) x)))"
proof -
  have p: "p \<in> set (pa_references al)" using pinv_page [OF assms(1,3)] assms(4) by auto
  have al: "pa_refs al = length (pa_references al)" "distinct (pa_references al)" using pinv_alloc [OF assms(1,4)] by auto
  have one: "pa_refs al = 1 \<longleftrightarrow> pa_references al = [p]"
    using p al by (cases "pa_references al"; cases "tl (pa_references al)") auto
  have "0 < pa_refs al" using length_pos_if_in_set [OF p] al(1) by simp
  then have refs: "pred64 (pa_refs al) = pa_refs al - 1" "pa_refs al \<noteq> 0" "pa_refs al - 1 = 0 \<longleftrightarrow> pa_refs al = 1"
    by (simp_all add: pred64_def, linarith)
  let ?s = "s\<lparr>allocations_lock_depth := Suc 0\<rparr>"
  let ?Q = "\<lambda>r t. vmm_frame s t \<and> vranges t = vranges s \<and>
    (r = 0 \<longrightarrow> page_dropped E p pg al s t) \<and> (r \<noteq> 0 \<longrightarrow> page_kept E p pg s t) \<and>
    (pp_address pg = 0 \<or> address_shared p al (pp_address pg) s \<longrightarrow> mappings E (hist t) = mappings E (hist s)) \<and>
    (r = 0 \<and> pp_address pg \<noteq> 0 \<and> \<not> address_shared p al (pp_address pg) s \<longrightarrow>
      mappings E (hist t) = (\<lambda>x. if x - pp_address pg < pa_bytes al then None else mappings E (hist s) x))"
  have "wp (physical_page_unref E (Some p) s) ?Q"
    unfolding physical_page_unref_def
  proof (simp add: assms(2-4) p, rule wp_conseq [OF wp_unmap_reference], goal_cases)
    case 1
    then show ?case using assms(3) by simp
  next
    case (2 r t)
    have "\<exists>h. t = ?s\<lparr>hist := h, ppages := (ppages s)(p \<mapsto> pg\<lparr>pp_address := if r = 0 then 0 else pp_address pg\<rparr>)\<rparr> \<and>
        live_handles E h = live_handles E (hist s) \<and>
        (pp_address pg = 0 \<or> address_shared p al (pp_address pg) s \<longrightarrow> mappings E h = mappings E (hist s)) \<and>
        (r = 0 \<and> pp_address pg \<noteq> 0 \<and> \<not> address_shared p al (pp_address pg) s \<longrightarrow>
          mappings E h = (\<lambda>x. if x - pp_address pg < pa_bytes al then None else mappings E (hist s) x))"
      by (rule exI [of _ "hist t"]) (use 2 in \<open>simp cong: if_cong\<close>)
    then obtain h where t: "t = ?s\<lparr>hist := h, ppages := (ppages s)(p \<mapsto> pg\<lparr>pp_address := if r = 0 then 0 else pp_address pg\<rparr>)\<rparr>"
      and h: "live_handles E h = live_handles E (hist s)"
        "pp_address pg = 0 \<or> address_shared p al (pp_address pg) s \<longrightarrow> mappings E h = mappings E (hist s)"
        "r = 0 \<and> pp_address pg \<noteq> 0 \<and> \<not> address_shared p al (pp_address pg) s \<longrightarrow>
          mappings E h = (\<lambda>x. if x - pp_address pg < pa_bytes al then None else mappings E (hist s) x)"
      by blast
    show ?case
    proof (cases "r = 0")
      case False
      then show ?thesis using h assms(2,3) by (simp add: t vmm_frame_def page_kept_def)
    next
      case True
      then show ?thesis
        using h assms(2,4) one refs by (simp add: t vmm_frame_def page_kept_def page_dropped_def Let_def ok_call_def pred64_def)
    qed
  qed
  then show ?thesis
    by (rule wp_conseq) (use pinv_dropped [OF assms(1) _ assms(3,4)] pinv_kept [OF assms(1) _ assms(3)] in blast)
qed

subsection \<open>The device behind the references\<close>

text \<open>Every allocation of the model is live on the device, under a handle of its own.\<close>

definition phys_live :: "env \<Rightarrow> 'z mstate_scheme \<Rightarrow> bool" where
  "phys_live E s \<longleftrightarrow> (\<forall>a al. pallocs s a = Some al \<longrightarrow> pa_handle al \<in> live_handles E (hist s)) \<and>
     inj_on (\<lambda>a. map_option pa_handle (pallocs s a)) (dom (pallocs s))"

lemma phys_live_inj:
  assumes "phys_live E s" "pallocs s a = Some al" "pallocs s b = Some bl" "pa_handle al = pa_handle bl"
  shows "a = b"
proof -
  have "inj_on (\<lambda>a. map_option pa_handle (pallocs s a)) (dom (pallocs s))" using assms(1) by (simp add: phys_live_def)
  then show ?thesis by (rule inj_onD) (use assms in auto)
qed

lemma phys_liveI:
  assumes "\<And>a al. pallocs s a = Some al \<Longrightarrow> pa_handle al \<in> live_handles E (hist s)"
    and "\<And>a al b bl. pallocs s a = Some al \<Longrightarrow> pallocs s b = Some bl \<Longrightarrow> pa_handle al = pa_handle bl \<Longrightarrow> a = b"
  shows "phys_live E s"
  unfolding phys_live_def inj_on_def using assms by fastforce

lemma phys_live_same:
  "phys_live E s \<Longrightarrow> pallocs t = pallocs s \<Longrightarrow> live_handles E (hist t) = live_handles E (hist s) \<Longrightarrow> phys_live E t"
  by (simp add: phys_live_def)

lemma phys_live_allocated:
  assumes "phys_live E s" "page_allocated E n p s t" "create_fresh E"
  shows "phys_live E t"
proof -
  obtain a h where t: "pallocs t = (pallocs s)(a \<mapsto> \<lparr>pa_handle = h, pa_bytes = n, pa_refs = 1, pa_references = [p]\<rparr>)"
    and h: "live_handles E (hist t) = insert h (live_handles E (hist s))" "h \<notin> live_handles E (hist s)"
    using assms(2,3) by (auto simp: page_allocated_def)
  have old: "pa_handle al \<in> live_handles E (hist s)" if "pallocs s b = Some al" for b al
    using assms(1) that by (simp add: phys_live_def)
  show ?thesis
  proof (rule phys_liveI)
    show "pa_handle al \<in> live_handles E (hist t)" if "pallocs t b = Some al" for b al
      using that old h(1) by (auto simp: t split: if_splits)
    show "b = c" if "pallocs t b = Some bl" "pallocs t c = Some cl" "pa_handle bl = pa_handle cl" for b bl c cl
    proof (cases "b = a"; cases "c = a")
      assume "b \<noteq> a" "c \<noteq> a"
      then show ?thesis using that phys_live_inj [OF assms(1), of b bl c cl] by (simp add: t)
    next
      assume "b = a" "c \<noteq> a"
      then have "pallocs s c = Some cl" "pa_handle cl = h" using that by (auto simp: t)
      then show ?thesis using old h(2) by auto
    next
      assume "b \<noteq> a" "c = a"
      then have "pallocs s b = Some bl" "pa_handle bl = h" using that by (auto simp: t)
      then show ?thesis using old h(2) by auto
    qed simp
  qed
qed

lemma phys_live_dropped:
  assumes "phys_live E s" "page_dropped E p pg al s t" "pallocs s (pp_allocation pg) = Some al"
  shows "phys_live E t"
proof (cases "pa_references al = [p]")
  case True
  then have t: "pallocs t = (pallocs s)(pp_allocation pg := None)"
    "live_handles E (hist t) = live_handles E (hist s) - {pa_handle al}"
    using assms(2) by (auto simp: page_dropped_def)
  show ?thesis
  proof (rule phys_liveI)
    show "pa_handle bl \<in> live_handles E (hist t)" if "pallocs t b = Some bl" for b bl
    proof -
      from that have b: "b \<noteq> pp_allocation pg" "pallocs s b = Some bl" by (auto simp: t split: if_splits)
      then show ?thesis
        using assms(1) phys_live_inj [OF assms(1) b(2) assms(3)] by (auto simp: t phys_live_def)
    qed
    show "b = c" if "pallocs t b = Some bl" "pallocs t c = Some cl" "pa_handle bl = pa_handle cl" for b bl c cl
      using that phys_live_inj [OF assms(1), of b bl c cl] by (auto simp: t split: if_splits)
  qed
next
  case False
  let ?al = "al\<lparr>pa_refs := pa_refs al - 1, pa_references := remove1 p (pa_references al)\<rparr>"
  have t: "pallocs t = (pallocs s)(pp_allocation pg \<mapsto> ?al)" "live_handles E (hist t) = live_handles E (hist s)"
    using assms(2) False by (auto simp: page_dropped_def)
  have old: "\<exists>bl'. pallocs s b = Some bl' \<and> pa_handle bl' = pa_handle bl" if "pallocs t b = Some bl" for b bl
    using that assms(3) by (cases "b = pp_allocation pg") (auto simp: t)
  show ?thesis
  proof (rule phys_liveI)
    show "pa_handle bl \<in> live_handles E (hist t)" if "pallocs t b = Some bl" for b bl
      using old [OF that] assms(1) unfolding t(2) phys_live_def by metis
    show "b = c" if "pallocs t b = Some bl" "pallocs t c = Some cl" "pa_handle bl = pa_handle cl" for b bl c cl
    proof -
      note th = that
      obtain bl' cl' where o: "pallocs s b = Some bl'" "pa_handle bl' = pa_handle bl"
        "pallocs s c = Some cl'" "pa_handle cl' = pa_handle cl" using old [OF th(1)] old [OF th(2)] by blast
      show ?thesis by (rule phys_live_inj [OF assms(1) o(1,3)]) (use o th(3) in simp)
    qed
  qed
qed

subsection \<open>Ranges\<close>

lemma wp_virtual_range_ref:
  assumes "allocations_lock_depth s = 0" "vranges s r = Some rg"
  shows "wp (virtual_range_ref E r s) (\<lambda>x t. x = r \<and>
    t = s\<lparr>vranges := (vranges s)(r \<mapsto> rg\<lparr>vr_refs := vr_refs rg + 1\<rparr>)\<rparr>)"
  using assms by (simp add: virtual_range_ref_def)

text \<open>The reservation is given back with the last reference, and stays referenced when that fails.\<close>

lemma wp_virtual_range_unref:
  assumes "allocations_lock_depth s = 0" "vranges s r = Some rg" "0 < vr_refs rg"
  shows "wp (virtual_range_unref E r s) (\<lambda>x t.
    t = s\<lparr>hist := hist t, vranges := (vranges s)(r :=
      if x \<noteq> 0 then Some rg else if vr_refs rg = 1 then None else Some (rg\<lparr>vr_refs := vr_refs rg - 1\<rparr>))\<rparr> \<and>
    hist t = (if vr_refs rg = 1 then AddressFree (vr_address rg) (vr_bytes rg) # hist s else hist s) \<and>
    (vr_refs rg \<noteq> 1 \<longrightarrow> x = 0))"
proof (cases "vr_refs rg = 1")
  case True
  then obtain a n where "rg = \<lparr>vr_address = a, vr_bytes = n, vr_refs = 1\<rparr>" by (cases rg) simp
  then show ?thesis using assms by (simp add: virtual_range_unref_def pred64_def Let_def)
next
  case False
  then show ?thesis using assms by (simp add: virtual_range_unref_def pred64_def Let_def)
qed

end
