(* ===== verification/Rogue.thy ===== *)
theory Rogue
  imports VmmRef
begin

text \<open>
  Rogue allocations (\<open>src/malloc-rogue.c\<close>): allocations that outlive the graph scope that made
  them. The graph registers the address as a candidate, takes references to its pages and its
  range (\<open>handoff_rogue\<close>) and forgets it; the allocator's free then finds it here.

  \<open>rogues\<close> is the linked list as a list of addresses into \<open>rogue_heap\<close>. Nothing keeps a pointer
  to a candidate across operations, so the candidates are a list of records.
\<close>

record rogue =
  rg_range :: nat
  rg_ptr :: u64
  rg_pages :: "nat list"
  rg_freeing :: bool

record rogue_candidate =
  rc_ptr :: u64
  rc_freed :: bool

record rstate = mstate +
  rogues :: "nat list"
  rogue_heap :: "nat \<rightharpoonup> rogue"
  rogue_candidates :: "rogue_candidate list"

datatype rogue_handoff = ROGUE_HANDOFF_ERROR | ROGUE_HANDOFF_FREED | ROGUE_HANDOFF_OWNED

subsection \<open>Linked lists with a key\<close>

fun remove_first :: "('a \<Rightarrow> bool) \<Rightarrow> 'a list \<Rightarrow> 'a list" where
  "remove_first P [] = []"
| "remove_first P (x # xs) = (if P x then xs else x # remove_first P xs)"

fun update_first :: "('a \<Rightarrow> bool) \<Rightarrow> ('a \<Rightarrow> 'a) \<Rightarrow> 'a list \<Rightarrow> 'a list" where
  "update_first P f [] = []"
| "update_first P f (x # xs) = (if P x then f x # xs else x # update_first P f xs)"

lemma remove_first_absent: "\<not> list_ex P xs \<Longrightarrow> remove_first P xs = xs"
  by (induction xs) auto

lemma find_update_first:
  "List.find P xs = Some x \<Longrightarrow> P (f x) \<Longrightarrow> List.find P (update_first P f xs) = Some (f x)"
  by (induction xs) (auto split: if_splits)

lemma find_update_other:
  "(\<And>x. P x \<Longrightarrow> Q (f x) = Q x) \<Longrightarrow> (\<And>x. P x \<Longrightarrow> \<not> Q x) \<Longrightarrow> List.find Q (update_first P f xs) = List.find Q xs"
  by (induction xs) auto

lemma find_remove_other: "(\<And>x. P x \<Longrightarrow> \<not> Q x) \<Longrightarrow> List.find Q (remove_first P xs) = List.find Q xs"
  by (induction xs) auto

subsection \<open>Candidates\<close>

definition unregister_candidate :: "u64 \<Rightarrow> 'z rstate_scheme \<Rightarrow> 'z rstate_scheme" where
  "unregister_candidate ptr s =
     s\<lparr>rogue_candidates := remove_first (\<lambda>c. rc_ptr c = ptr) (rogue_candidates s)\<rparr>"

definition register_rogue_candidate :: "env \<Rightarrow> u64 \<Rightarrow> 'z rstate_scheme \<Rightarrow> (bool \<times> 'z rstate_scheme) option" where
  "register_rogue_candidate E ptr s = do {
     (ok, s) \<leftarrow> host_alloc E s;
     if \<not> ok then Some (False, s)
     else do {
       (_, s) \<leftarrow> allocations_lock E s;
       (_, s) \<leftarrow> allocations_unlock E
         (s\<lparr>rogue_candidates := \<lparr>rc_ptr = ptr, rc_freed = False\<rparr> # rogue_candidates s\<rparr>);
       Some (True, s) } }"

definition unregister_rogue_candidate :: "env \<Rightarrow> u64 \<Rightarrow> 'z rstate_scheme \<Rightarrow> (unit \<times> 'z rstate_scheme) option" where
  "unregister_rogue_candidate E ptr s = do {
     (_, s) \<leftarrow> allocations_lock E s;
     allocations_unlock E (unregister_candidate ptr s) }"

definition find_candidate :: "u64 \<Rightarrow> 'z rstate_scheme \<Rightarrow> rogue_candidate option" where
  "find_candidate ptr s = List.find (\<lambda>c. rc_ptr c = ptr) (rogue_candidates s)"

definition rogue_candidate_freed :: "env \<Rightarrow> u64 \<Rightarrow> 'z rstate_scheme \<Rightarrow> (bool \<times> 'z rstate_scheme) option" where
  "rogue_candidate_freed E ptr s = do {
     (_, s) \<leftarrow> allocations_lock E s;
     let freed = (case find_candidate ptr s of None \<Rightarrow> False | Some c \<Rightarrow> rc_freed c);
     (_, s) \<leftarrow> allocations_unlock E s;
     Some (freed, s) }"

subsection \<open>Handing a candidate over\<close>

text \<open>References to all pages, with no address yet; on a failure those made so far are dropped.\<close>

definition ref_page :: "env \<Rightarrow> nat \<Rightarrow> nat list \<Rightarrow> 'z rstate_scheme \<Rightarrow> ((nat list + nat list) \<times> 'z rstate_scheme) option" where
  "ref_page E page refs s = do {
     (r, s) \<leftarrow> physical_page_ref E page 0 s;
     Some (case r of None \<Rightarrow> Inr refs | Some q \<Rightarrow> Inl (refs @ [q]), s) }"

definition unref_pages :: "env \<Rightarrow> nat list \<Rightarrow> 'z rstate_scheme \<Rightarrow> (unit \<times> 'z rstate_scheme) option" where
  "unref_pages E = each (\<lambda>p s. do { (_, s) \<leftarrow> physical_page_unref E (Some p) s; Some ((), s) })"

definition reference_pages :: "env \<Rightarrow> nat list \<Rightarrow> 'z rstate_scheme \<Rightarrow> (nat list option \<times> 'z rstate_scheme) option" where
  "reference_pages E pages s = do {
     (r, s) \<leftarrow> foreach (ref_page E) pages [] s;
     case r of
       Inl refs \<Rightarrow> Some (Some refs, s)
     | Inr refs \<Rightarrow> do { (_, s) \<leftarrow> unref_pages E refs s; Some (None, s) } }"

fun set_addresses :: "u64 \<Rightarrow> u64 \<Rightarrow> nat list \<Rightarrow> (nat \<rightharpoonup> physical_page) \<Rightarrow> (nat \<rightharpoonup> physical_page)" where
  "set_addresses address page_bytes [] m = m"
| "set_addresses address page_bytes (p # ps) m =
     set_addresses (address + page_bytes) page_bytes ps
       (m(p := map_option (\<lambda>pg. pg\<lparr>pp_address := address\<rparr>) (m p)))"

text \<open>The address of the first page: \<open>ptr - (ptr - base) % page_bytes\<close>; a modulus of zero is undefined.\<close>

definition first_page_address :: "u64 \<Rightarrow> u64 \<Rightarrow> u64 \<Rightarrow> u64 option" where
  "first_page_address ptr base page_bytes =
     (if page_bytes = 0 then None else Some (ptr - (ptr - base) mod page_bytes))"

definition settle_candidate :: "env \<Rightarrow> u64 \<Rightarrow> rogue \<Rightarrow> 'z rstate_scheme \<Rightarrow> (rogue_handoff \<times> 'z rstate_scheme) option" where
  "settle_candidate E ptr rg s = do {
     (_, s) \<leftarrow> allocations_lock E s;
     let result = (case find_candidate ptr s of
           None \<Rightarrow> ROGUE_HANDOFF_ERROR
         | Some c \<Rightarrow> if rc_freed c then ROGUE_HANDOFF_FREED else ROGUE_HANDOFF_OWNED);
     let s = unregister_candidate ptr s;
     let s = (if result = ROGUE_HANDOFF_OWNED
              then s\<lparr>rogue_heap := (rogue_heap s)(mnext s \<mapsto> rg), rogues := mnext s # rogues s, mnext := Suc (mnext s)\<rparr>
              else s);
     (_, s) \<leftarrow> allocations_unlock E s;
     Some (result, s) }"

definition finish_handoff ::
  "env \<Rightarrow> nat \<Rightarrow> u64 \<Rightarrow> u64 \<Rightarrow> u64 \<Rightarrow> nat list option \<Rightarrow> 'z rstate_scheme \<Rightarrow> (rogue_handoff \<times> 'z rstate_scheme) option"
where
  "finish_handoff E rng ptr address page_bytes references s = (case references of
      None \<Rightarrow> Some (ROGUE_HANDOFF_ERROR, s)
    | Some refs \<Rightarrow> do {
        let s = s\<lparr>ppages := set_addresses address page_bytes refs (ppages s)\<rparr>;
        (rng, s) \<leftarrow> virtual_range_ref E rng s;
        (result, s) \<leftarrow> settle_candidate E ptr
          \<lparr>rg_range = rng, rg_ptr = ptr, rg_pages = refs, rg_freeing = False\<rparr> s;
        if result = ROGUE_HANDOFF_OWNED then Some (result, s)
        else do {
          (_, s) \<leftarrow> unref_pages E refs s;
          (_, s) \<leftarrow> virtual_range_unref E rng s;
          Some (result, s) } })"

definition handoff_rogue ::
  "env \<Rightarrow> nat \<Rightarrow> u64 \<Rightarrow> nat list \<Rightarrow> 'z rstate_scheme \<Rightarrow> (rogue_handoff \<times> 'z rstate_scheme) option" where
  "handoff_rogue E rng ptr pages s = do {
     (ok1, s) \<leftarrow> host_alloc E s;
     (ok2, s) \<leftarrow> host_alloc E s;
     if \<not> ok1 \<or> \<not> ok2 then Some (ROGUE_HANDOFF_ERROR, s)
     else do {
       page \<leftarrow> at_index pages 0;
       pg \<leftarrow> ppages s page;
       al \<leftarrow> pallocs s (pp_allocation pg);
       base \<leftarrow> virtual_range_get rng s;
       address \<leftarrow> first_page_address ptr base (pa_bytes al);
       (references, s) \<leftarrow> reference_pages E pages s;
       finish_handoff E rng ptr address (pa_bytes al) references s } }"

subsection \<open>Freeing\<close>

definition find_rogue :: "u64 \<Rightarrow> 'z rstate_scheme \<Rightarrow> nat option" where
  "find_rogue ptr s = List.find (\<lambda>r. map_option rg_ptr (rogue_heap s r) = Some ptr) (rogues s)"

definition rogue_exists :: "env \<Rightarrow> u64 \<Rightarrow> 'z rstate_scheme \<Rightarrow> (bool \<times> 'z rstate_scheme) option" where
  "rogue_exists E ptr s = do {
     (_, s) \<leftarrow> allocations_lock E s;
     let found = find_rogue ptr s \<noteq> None;
     (_, s) \<leftarrow> allocations_unlock E s;
     Some (found, s) }"

text \<open>The first error of a sequence of releases.\<close>

definition first_error :: "int \<Rightarrow> int \<Rightarrow> int" where
  "first_error result status = (if result = 0 then status else result)"

definition release_rogue :: "env \<Rightarrow> nat \<Rightarrow> 'z rstate_scheme \<Rightarrow> (int \<times> 'z rstate_scheme) option" where
  "release_rogue E r s = do {
     rg \<leftarrow> rogue_heap s r;
     (sync, s) \<leftarrow> ask E CtxSynchronize s;
     (res, s) \<leftarrow> foreach (\<lambda>p result s. do {
         (status, s) \<leftarrow> physical_page_unref E (Some p) s;
         Some (Inl (first_error result status) :: int + int, s) }) (rg_pages rg) (r_rc sync) s;
     let result = (case res of Inl a \<Rightarrow> a | Inr a \<Rightarrow> a);
     (status, s) \<leftarrow> virtual_range_unref E (rg_range rg) s;
     (_, s) \<leftarrow> allocations_lock E s;
     if r \<notin> set (rogues s) then None
     else do {
       (_, s) \<leftarrow> allocations_unlock E (s\<lparr>rogues := remove1 r (rogues s)\<rparr>);
       Some (first_error result status, s\<lparr>rogue_heap := (rogue_heap s)(r := None)\<rparr>) } }"

text \<open>\<open>free_rogue\<close>: \<open>None\<close> when the address is not ours, else the result code.\<close>

definition free_rogue :: "env \<Rightarrow> u64 \<Rightarrow> 'z rstate_scheme \<Rightarrow> (int option \<times> 'z rstate_scheme) option" where
  "free_rogue E ptr s = do {
     (_, s) \<leftarrow> allocations_lock E s;
     case find_rogue ptr s of
       None \<Rightarrow> (case find_candidate ptr s of
           None \<Rightarrow> do { (_, s) \<leftarrow> allocations_unlock E s; Some (None, s) }
         | Some c \<Rightarrow> do {
             (_, s) \<leftarrow> allocations_unlock E
               (s\<lparr>rogue_candidates := update_first (\<lambda>c. rc_ptr c = ptr) (\<lambda>c. c\<lparr>rc_freed := True\<rparr>) (rogue_candidates s)\<rparr>);
             Some (Some CUDA_SUCCESS, s) })
     | Some r \<Rightarrow> do {
         rg \<leftarrow> rogue_heap s r;
         if rg_freeing rg then do { (_, s) \<leftarrow> allocations_unlock E s; Some (Some CUDA_SUCCESS, s) }
         else do {
           (_, s) \<leftarrow> allocations_unlock E (s\<lparr>rogue_heap := (rogue_heap s)(r \<mapsto> rg\<lparr>rg_freeing := True\<rparr>)\<rparr>);
           (result, s) \<leftarrow> release_rogue E r s;
           Some (Some result, s) } } }"

end
