(* ===== verification/RogueInv.thy ===== *)
theory RogueInv
  imports Rogue
begin

text \<open>
  Handing a rogue over takes one reference to each page and one to the range, or nothing; freeing
  follows the protocol of a candidate.
\<close>

subsection \<open>Taking and dropping a list of references\<close>

lemma wp_unref_shared:
  assumes "allocations_lock_depth s = 0" "ppages s p = Some pg" "pallocs s (pp_allocation pg) = Some al"
    "p \<in> set (pa_references al)" "1 < pa_refs al" "pp_address pg = 0 \<or> address_shared p al (pp_address pg) s"
  shows "physical_page_unref E (Some p) s = Some (0, s\<lparr>
    pallocs := (pallocs s)(pp_allocation pg \<mapsto> al\<lparr>pa_refs := pa_refs al - 1, pa_references := remove1 p (pa_references al)\<rparr>),
    ppages := (ppages s)(p := None)\<rparr>)"
  using assms by (auto simp: physical_page_unref_def unmap_reference_def Let_def pred64_def allocations_lock_def allocations_unlock_def)

text \<open>
  \<open>refs_over s L t\<close>: \<open>t\<close> is \<open>s\<close> with the references \<open>L\<close> (reference and allocation, the oldest
  first) on top.
\<close>

definition refs_over :: "'z rstate_scheme \<Rightarrow> (nat \<times> nat) list \<Rightarrow> 'z rstate_scheme \<Rightarrow> bool" where
  "refs_over s L t \<longleftrightarrow> distinct (map fst L) \<and> (\<forall>(q, a) \<in> set L. ppages s q = None \<and>
       map_option pp_allocation (ppages t q) = Some a \<and> pallocs s a \<noteq> None) \<and>
     (\<forall>p. p \<notin> fst ` set L \<longrightarrow> ppages t p = ppages s p) \<and>
     (\<forall>a. pallocs t a = map_option (\<lambda>al. al\<lparr>pa_refs := pa_refs al + length (filter (\<lambda>x. snd x = a) L),
        pa_references := rev (map fst (filter (\<lambda>x. snd x = a) L)) @ pa_references al\<rparr>) (pallocs s a))"

text \<open>The rest of the state: only the history, the pages, the allocations and the next address differ.\<close>

definition refs_frame :: "'z rstate_scheme \<Rightarrow> 'z rstate_scheme \<Rightarrow> bool" where
  "refs_frame s t \<longleftrightarrow> t = s\<lparr>hist := hist t, pallocs := pallocs t, ppages := ppages t, mnext := mnext t\<rparr> \<and>
     asked_only harmless (hist s) (hist t) \<and> mnext s \<le> mnext t"

lemma refs_frameD:
  assumes "refs_frame s t"
  shows "allocations_lock_depth t = allocations_lock_depth s" "vranges t = vranges s" "rogues t = rogues s"
    "rogue_heap t = rogue_heap s" "rogue_candidates t = rogue_candidates s" "total_vram_usage t = total_vram_usage s"
    "asked_only harmless (hist s) (hist t)" "mnext s \<le> mnext t"
proof -
  from assms have eq: "t = s\<lparr>hist := hist t, pallocs := pallocs t, ppages := ppages t, mnext := mnext t\<rparr>"
    by (simp add: refs_frame_def)
  show "allocations_lock_depth t = allocations_lock_depth s" using arg_cong [OF eq, of allocations_lock_depth] by simp
  show "vranges t = vranges s" using arg_cong [OF eq, of vranges] by simp
  show "rogues t = rogues s" using arg_cong [OF eq, of rogues] by simp
  show "rogue_heap t = rogue_heap s" using arg_cong [OF eq, of rogue_heap] by simp
  show "rogue_candidates t = rogue_candidates s" using arg_cong [OF eq, of rogue_candidates] by simp
  show "total_vram_usage t = total_vram_usage s" using arg_cong [OF eq, of total_vram_usage] by simp
  show "asked_only harmless (hist s) (hist t)" "mnext s \<le> mnext t" using assms by (simp_all add: refs_frame_def)
qed

lemma refs_frame_refl [simp]: "refs_frame s s"
  by (simp add: refs_frame_def)

lemma refs_frame_upd:
  assumes "refs_frame s t" "mnext t \<le> n" "asked_only harmless (hist t) h"
  shows "refs_frame s (t\<lparr>hist := h, pallocs := A, ppages := P, mnext := n\<rparr>)"
proof -
  from assms have eq: "t = s\<lparr>hist := hist t, pallocs := pallocs t, ppages := ppages t, mnext := mnext t\<rparr>"
    by (simp add: refs_frame_def)
  have "t\<lparr>hist := h, pallocs := A, ppages := P, mnext := n\<rparr> = s\<lparr>hist := h, pallocs := A, ppages := P, mnext := n\<rparr>"
    by (subst eq) simp
  then show ?thesis
    using assms by (auto simp: refs_frame_def intro: asked_only_trans)
qed

lemma refs_over_Nil: "refs_over s [] t \<longleftrightarrow> ppages t = ppages s \<and> pallocs t = pallocs s"
proof
  assume r: "refs_over s [] t"
  have "map_option (\<lambda>al. al\<lparr>pa_refs := pa_refs al + 0, pa_references := rev [] @ pa_references al\<rparr>) x = x"
    for x :: "physical_allocation option" by (cases x) auto
  then show "ppages t = ppages s \<and> pallocs t = pallocs s" using r by (auto simp: refs_over_def fun_eq_iff)
next
  have "map_option (\<lambda>al. al\<lparr>pa_refs := pa_refs al + 0, pa_references := rev [] @ pa_references al\<rparr>) x = x"
    for x :: "physical_allocation option" by (cases x) auto
  then show "refs_over s [] t" if "ppages t = ppages s \<and> pallocs t = pallocs s" using that by (simp add: refs_over_def)
qed

lemma refs_over_new:
  assumes "refs_over s L t"
  shows "p \<in> fst ` set L \<Longrightarrow> ppages s p = None" "p \<in> fst ` set L \<Longrightarrow> ppages t p \<noteq> None"
    "p \<notin> fst ` set L \<Longrightarrow> ppages t p = ppages s p" "ppages s p = Some pg \<Longrightarrow> ppages t p = Some pg"
proof -
  show a: "ppages s p = None" "ppages t p \<noteq> None" if "p \<in> fst ` set L" for p
    using that assms by (auto simp: refs_over_def)
  show b: "ppages t p = ppages s p" if "p \<notin> fst ` set L" for p
    using that assms by (simp add: refs_over_def)
  show "ppages s p = Some pg \<Longrightarrow> ppages t p = Some pg" using a(1) [of p] b [of p] by fastforce
qed

lemma refs_over_snoc:
  assumes "refs_over s L t" "ppages s p = Some pg" "page_referenced p 0 q t u"
  shows "refs_over s (L @ [(q, pp_allocation pg)]) u"
proof -
  have p: "ppages t p = Some pg" by (rule refs_over_new(4) [OF assms(1,2)])
  obtain al where al: "pallocs t (pp_allocation pg) = Some al" "q \<notin> dom (ppages t)"
    "ppages u = (ppages t)(q \<mapsto> \<lparr>pp_allocation = pp_allocation pg, pp_address = 0\<rparr>)"
    "pallocs u = (pallocs t)(pp_allocation pg \<mapsto> al\<lparr>pa_refs := pa_refs al + 1, pa_references := q # pa_references al\<rparr>)"
    using assms(3) p by (auto simp: page_referenced_def)
  have q: "q \<notin> fst ` set L" using refs_over_new(2) [OF assms(1), of q] al(2) by auto
  have qs: "ppages s q = None" using refs_over_new(3) [OF assms(1) q] al(2) by auto
  let ?up = "\<lambda>a al. al\<lparr>pa_refs := pa_refs al + length (filter (\<lambda>x. snd x = a) L),
        pa_references := rev (map fst (filter (\<lambda>x. snd x = a) L)) @ pa_references al\<rparr>"
  have allocs: "pallocs t a = map_option (?up a) (pallocs s a)" for a using assms(1) by (simp add: refs_over_def)
  obtain al0 where al0: "pallocs s (pp_allocation pg) = Some al0" "al = ?up (pp_allocation pg) al0"
    using al(1) allocs [of "pp_allocation pg"] by auto
  have old: "map_option pp_allocation (ppages u x) = Some a \<and> pallocs s a \<noteq> None \<and> ppages s x = None"
    if "(x, a) \<in> set L" for x a
  proof -
    have "x \<noteq> q" using that q by (metis fst_conv image_eqI)
    moreover have "\<forall>(q, a) \<in> set L. ppages s q = None \<and>
       map_option pp_allocation (ppages t q) = Some a \<and> pallocs s a \<noteq> None" using assms(1) by (simp add: refs_over_def)
    ultimately show ?thesis using that al(3) by auto
  qed
  show ?thesis
    unfolding refs_over_def
  proof (intro conjI)
    show "distinct (map fst (L @ [(q, pp_allocation pg)]))"
      using assms(1) q by (auto simp: refs_over_def)
    show "\<forall>(x, a) \<in> set (L @ [(q, pp_allocation pg)]). ppages s x = None \<and>
       map_option pp_allocation (ppages u x) = Some a \<and> pallocs s a \<noteq> None"
      using old qs al0(1) al(3) by auto
    show "\<forall>x. x \<notin> fst ` set (L @ [(q, pp_allocation pg)]) \<longrightarrow> ppages u x = ppages s x"
      using refs_over_new(3) [OF assms(1)] al(3) by simp
    show "\<forall>a. pallocs u a = map_option (\<lambda>al. al\<lparr>pa_refs := pa_refs al + length (filter (\<lambda>x. snd x = a) (L @ [(q, pp_allocation pg)])),
        pa_references := rev (map fst (filter (\<lambda>x. snd x = a) (L @ [(q, pp_allocation pg)]))) @ pa_references al\<rparr>) (pallocs s a)"
      using allocs al0 al(4) by simp
  qed
qed

lemma refs_over_drop:
  assumes "refs_over s ((q, a) # L) t" "pallocs t a = Some al" "ppages u = (ppages t)(q := None)"
    "pallocs u = (pallocs t)(a \<mapsto> al\<lparr>pa_refs := pa_refs al - 1, pa_references := remove1 q (pa_references al)\<rparr>)"
    "pinv s"
  shows "refs_over s L u"
proof -
  have d: "q \<notin> fst ` set L" "distinct (map fst L)" using assms(1) by (auto simp: refs_over_def)
  have qs: "ppages s q = None" using refs_over_new(1) [OF assms(1), of q] by simp
  let ?up = "\<lambda>L a al. al\<lparr>pa_refs := pa_refs al + length (filter (\<lambda>x. snd x = a) L),
        pa_references := rev (map fst (filter (\<lambda>x. snd x = a) L)) @ pa_references al\<rparr>"
  have allocs: "pallocs t b = map_option (?up ((q, a) # L) b) (pallocs s b)" for b
    using assms(1) unfolding refs_over_def by blast
  obtain al0 where al0: "pallocs s a = Some al0" "al = ?up ((q, a) # L) a al0"
    using assms(2) allocs [of a] by auto
  have "q \<notin> set (pa_references al0)" using pinv_alloc(5) [OF assms(5) al0(1), of q] qs by auto
  moreover have "q \<notin> set (rev (map fst (filter (\<lambda>x. snd x = a) L)))" using d(1) by auto
  ultimately have "remove1 q (pa_references al) = pa_references (?up L a al0)"
    using al0(2) by (simp add: remove1_append)
  then have new: "al\<lparr>pa_refs := pa_refs al - 1, pa_references := remove1 q (pa_references al)\<rparr> = ?up L a al0"
    using al0(2) by simp
  show ?thesis
    unfolding refs_over_def
  proof (intro conjI)
    show "distinct (map fst L)" by (rule d(2))
    have "\<forall>(x, b) \<in> set L. ppages s x = None \<and> map_option pp_allocation (ppages t x) = Some b \<and> pallocs s b \<noteq> None"
      using assms(1) by (auto simp: refs_over_def)
    moreover have "ppages u x = ppages t x" if "x \<in> fst ` set L" for x
      using that d(1) by (auto simp: assms(3))
    ultimately show "\<forall>(x, b) \<in> set L. ppages s x = None \<and> map_option pp_allocation (ppages u x) = Some b \<and> pallocs s b \<noteq> None"
      by (auto simp: image_iff split: prod.splits) (metis fst_conv image_eqI)+
    show "\<forall>x. x \<notin> fst ` set L \<longrightarrow> ppages u x = ppages s x"
      using refs_over_new(3) [OF assms(1)] assms(3) qs by auto
    show "\<forall>b. pallocs u b = map_option (?up L b) (pallocs s b)"
    proof
      fix b
      show "pallocs u b = map_option (?up L b) (pallocs s b)"
      proof (cases "b = a")
        case True
        then show ?thesis unfolding assms(4) new by (simp add: al0(1))
      next
        case False
        then have "pallocs u b = pallocs t b" by (simp add: assms(4))
        then show ?thesis using allocs [of b] False by simp
      qed
    qed
  qed
qed

lemma set_addresses_other: "p \<notin> set ps \<Longrightarrow> set_addresses a n ps m p = m p"
  by (induction ps arbitrary: a m) auto

lemma set_addresses_allocation:
  "map_option pp_allocation (set_addresses a n ps m p) = map_option pp_allocation (m p)"
proof (induction ps arbitrary: a m)
  case Nil
  then show ?case by simp
next
  case (Cons x ps)
  then show ?case by (cases "p = x"; cases "m x") auto
qed

lemma refs_over_addresses:
  assumes "refs_over s L t" "set ps \<subseteq> fst ` set L" "ppages u = set_addresses a n ps (ppages t)" "pallocs u = pallocs t"
  shows "refs_over s L u"
  unfolding refs_over_def
proof (intro conjI)
  show "distinct (map fst L)" using assms(1) by (simp add: refs_over_def)
  show "\<forall>(q, b) \<in> set L. ppages s q = None \<and> map_option pp_allocation (ppages u q) = Some b \<and> pallocs s b \<noteq> None"
    using assms(1,3) by (simp add: refs_over_def set_addresses_allocation)
  show "\<forall>p. p \<notin> fst ` set L \<longrightarrow> ppages u p = ppages s p"
    using assms by (metis refs_over_new(3) set_addresses_other subsetD)
  show "\<forall>b. pallocs u b = map_option (\<lambda>al. al\<lparr>pa_refs := pa_refs al + length (filter (\<lambda>x. snd x = b) L),
        pa_references := rev (map fst (filter (\<lambda>x. snd x = b) L)) @ pa_references al\<rparr>) (pallocs s b)"
    using assms(1,4) by (simp add: refs_over_def)
qed

lemma pinv_over: "pinv s \<Longrightarrow> refs_over s L t \<Longrightarrow> pallocs s a = Some al \<Longrightarrow> q \<in> set (pa_references al) \<Longrightarrow>
    ppages t q = ppages s q \<and> q \<notin> fst ` set L"
  using refs_over_new(1) [of s L t q] refs_over_new(3) [of s L t q] pinv_alloc(5) [of s a al q] by fastforce

text \<open>The address of a reference on top, if it has one, is that of an older reference of its allocation.\<close>

definition backed :: "'z rstate_scheme \<Rightarrow> (nat \<times> nat) list \<Rightarrow> 'z rstate_scheme \<Rightarrow> bool" where
  "backed s L t \<longleftrightarrow> (\<forall>(q, a) \<in> set L. \<forall>pg. ppages t q = Some pg \<longrightarrow> pp_address pg = 0 \<or>
     (\<exists>al p. pallocs s a = Some al \<and> p \<in> set (pa_references al) \<and>
        map_option pp_address (ppages s p) = Some (pp_address pg)))"

lemma backedD:
  assumes "backed s L t" "(q, a) \<in> set L" "ppages t q = Some pg" "pp_address pg \<noteq> 0"
  obtains al p where "pallocs s a = Some al" "p \<in> set (pa_references al)"
    "map_option pp_address (ppages s p) = Some (pp_address pg)"
  using assms unfolding backed_def by blast

lemma backedI:
  assumes "\<And>q a pg. (q, a) \<in> set L \<Longrightarrow> ppages t q = Some pg \<Longrightarrow> pp_address pg \<noteq> 0 \<Longrightarrow>
    \<exists>al p. pallocs s a = Some al \<and> p \<in> set (pa_references al) \<and> map_option pp_address (ppages s p) = Some (pp_address pg)"
  shows "backed s L t"
  unfolding backed_def using assms by blast

lemma backed_drop: "backed s ((q, a) # L) t \<Longrightarrow> ppages u = (ppages t)(q := None) \<Longrightarrow> backed s L u"
  unfolding backed_def by (auto split: if_splits) blast

lemma unref_top:
  assumes "pinv s" "refs_over s ((q, a) # L) t" "backed s ((q, a) # L) t" "allocations_lock_depth t = 0"
  shows "\<exists>A P. physical_page_unref E (Some q) t = Some (0, t\<lparr>pallocs := A, ppages := P\<rparr>) \<and>
    refs_over s L (t\<lparr>pallocs := A, ppages := P\<rparr>) \<and> backed s L (t\<lparr>pallocs := A, ppages := P\<rparr>)"
proof -
  let ?L = "(q, a) # L"
  have top: "map_option pp_allocation (ppages t q) = Some a" "pallocs s a \<noteq> None"
    using assms(2) by (auto simp: refs_over_def)
  then obtain pg al0 where pg: "ppages t q = Some pg" "pp_allocation pg = a" and al0: "pallocs s a = Some al0" by auto
  have "pallocs t a = map_option (\<lambda>al. al\<lparr>pa_refs := pa_refs al + length (filter (\<lambda>x. snd x = a) ?L),
        pa_references := rev (map fst (filter (\<lambda>x. snd x = a) ?L)) @ pa_references al\<rparr>) (pallocs s a)"
    using assms(2) unfolding refs_over_def by blast
  then obtain al where al: "pallocs t a = Some al" "q \<in> set (pa_references al)" "pa_refs al \<ge> Suc (pa_refs al0)"
    "set (pa_references al0) \<subseteq> set (pa_references al)"
    using al0 by auto
  have ge: "1 < pa_refs al" using pinv_alloc(3,4) [OF assms(1) al0] al(3) by (cases "pa_references al0") auto
  have sh: "pp_address pg = 0 \<or> address_shared q al (pp_address pg) t"
  proof (cases "pp_address pg = 0")
    case False
    obtain al1 p where p: "pallocs s a = Some al1" "p \<in> set (pa_references al1)"
      "map_option pp_address (ppages s p) = Some (pp_address pg)"
      by (rule backedD [OF assms(3), of q a pg]) (use pg(1) False in simp_all)
    then have "ppages t p = ppages s p" "p \<noteq> q" using pinv_over [OF assms(1,2) p(1,2)] by auto
    then show ?thesis using p al0 al(4) by (auto simp: address_shared_def list_ex_iff)
  qed simp
  let ?A = "(pallocs t)(a \<mapsto> al\<lparr>pa_refs := pa_refs al - 1, pa_references := remove1 q (pa_references al)\<rparr>)"
  let ?P = "(ppages t)(q := None)"
  have run: "physical_page_unref E (Some q) t = Some (0, t\<lparr>pallocs := ?A, ppages := ?P\<rparr>)"
    using wp_unref_shared [of t q pg al E] assms(4) pg al(1,2) ge sh by simp
  have "refs_over s L (t\<lparr>pallocs := ?A, ppages := ?P\<rparr>)"
    by (rule refs_over_drop [OF assms(2) al(1) _ _ assms(1)]) simp_all
  moreover have "backed s L (t\<lparr>pallocs := ?A, ppages := ?P\<rparr>)" by (rule backed_drop [OF assms(3)]) simp
  ultimately show ?thesis using run by blast
qed

lemma unref_all:
  assumes "pinv s" "refs_over s L t" "backed s L t" "allocations_lock_depth t = 0"
  shows "unref_pages E (map fst L) t = Some ((), t\<lparr>pallocs := pallocs s, ppages := ppages s\<rparr>)"
  using assms(2-4)
proof (induction L arbitrary: t)
  case Nil
  then have "t\<lparr>pallocs := pallocs s, ppages := ppages s\<rparr> = t\<lparr>pallocs := pallocs t, ppages := ppages t\<rparr>"
    by (simp only: refs_over_Nil)
  then show ?case by (simp add: unref_pages_def)
next
  case (Cons x L)
  obtain q a where x: "x = (q, a)" by (cases x)
  obtain A P where u: "physical_page_unref E (Some q) t = Some (0, t\<lparr>pallocs := A, ppages := P\<rparr>)"
    "refs_over s L (t\<lparr>pallocs := A, ppages := P\<rparr>)" "backed s L (t\<lparr>pallocs := A, ppages := P\<rparr>)"
    using unref_top [OF assms(1)] Cons.prems x by blast
  have "unref_pages E (map fst L) (t\<lparr>pallocs := A, ppages := P\<rparr>) = Some ((), t\<lparr>pallocs := pallocs s, ppages := ppages s\<rparr>)"
    using Cons.IH [OF u(2,3)] Cons.prems(3) by simp
  then show ?case using u(1) x by (simp add: unref_pages_def)
qed

subsection \<open>All references or none\<close>

lemma wp_reference_pages:
  assumes "pinv s" "allocations_lock_depth s = 0" "\<forall>p \<in> set pages. \<exists>pg. ppages s p = Some pg"
  shows "wp (reference_pages E pages s) (\<lambda>r t. refs_frame s t \<and>
    (case r of
       None \<Rightarrow> pallocs t = pallocs s \<and> ppages t = ppages s
     | Some refs \<Rightarrow> pinv t \<and> (\<exists>L. refs = map fst L \<and> refs_over s L t \<and>
         map snd L = map (\<lambda>p. pp_allocation (the (ppages s p))) pages \<and>
         (\<forall>(q, a) \<in> set L. map_option pp_address (ppages t q) = Some 0))))"
proof -
  let ?I = "\<lambda>todo refs t. refs_frame s t \<and> pinv t \<and> (\<exists>L pre. pages = pre @ todo \<and> refs = map fst L \<and> refs_over s L t \<and>
         map snd L = map (\<lambda>p. pp_allocation (the (ppages s p))) pre \<and>
         (\<forall>(q, a) \<in> set L. map_option pp_address (ppages t q) = Some 0))"
  let ?Q = "\<lambda>r t. case r of
      Inl refs \<Rightarrow> ?I [] refs t
    | Inr refs \<Rightarrow> refs_frame s t \<and> (\<exists>L. refs = map fst L \<and> refs_over s L t \<and> backed s L t)"
  have step: "wp (ref_page E p refs t) (\<lambda>r t'. case r of Inl refs' \<Rightarrow> ?I todo refs' t' | Inr refs' \<Rightarrow> ?Q (Inr refs') t')"
    if I: "?I (p # todo) refs t" for p todo refs t
  proof -
    obtain L pre where L: "pages = pre @ p # todo" "refs = map fst L" "refs_over s L t"
      "map snd L = map (\<lambda>p. pp_allocation (the (ppages s p))) pre"
      "\<forall>(q, a) \<in> set L. map_option pp_address (ppages t q) = Some 0" and f: "refs_frame s t" "pinv t" using I by blast
    obtain pg where pg: "ppages s p = Some pg" using assms(3) L(1) by auto
    have ptp: "ppages t p = Some pg" by (rule refs_over_new(4) [OF L(3) pg])
    have bk: "backed s L t" using L(5) by (auto simp: backed_def)
    have d: "allocations_lock_depth t = 0" using refs_frameD(1) [OF f(1)] assms(2) by simp
    show ?thesis
      unfolding ref_page_def
    proof (simp only: wp_bind split_conv, rule wp_conseq [OF wp_physical_page_ref [OF f(2) d ptp]], goal_cases)
      case (1 r u)
      then have u: "pinv u" "vmm_frame t u" "vranges u = vranges t" "asked_only harmless (hist t) (hist u)" by auto
      have fu: "refs_frame s u" if "total_vram_usage u = total_vram_usage t" "mnext t \<le> mnext u"
      proof -
        have "u = t\<lparr>hist := hist u, total_vram_usage := total_vram_usage u, vranges := vranges u,
          pallocs := pallocs u, ppages := ppages u, mnext := mnext u\<rparr>" by (rule vmm_frame_eq [OF u(2)])
        then have "u = t\<lparr>hist := hist u, pallocs := pallocs u, ppages := ppages u, mnext := mnext u\<rparr>"
          unfolding that(1) u(3) by simp
        moreover have "refs_frame s (t\<lparr>hist := hist u, pallocs := pallocs u, ppages := ppages u, mnext := mnext u\<rparr>)"
          by (rule refs_frame_upd [OF f(1) that(2) u(4)])
        ultimately show ?thesis by simp
      qed
      show ?case
      proof (cases r)
        case None
        then have sm: "pages_same t u" using 1 by simp
        then have "refs_over s L u" using L(3) by (simp add: refs_over_def pages_same_def)
        moreover have "backed s L u" using bk sm by (simp add: backed_def pages_same_def)
        ultimately show ?thesis using None fu sm L(2) by (auto simp: pages_same_def)
      next
        case (Some q)
        then have pr: "page_referenced p 0 q t u" using 1 by simp
        have new: "refs_over s (L @ [(q, pp_allocation pg)]) u" by (rule refs_over_snoc [OF L(3) pg pr])
        have q: "q \<notin> dom (ppages t)" "ppages u = (ppages t)(q \<mapsto> \<lparr>pp_allocation = pp_allocation pg, pp_address = 0\<rparr>)"
          "total_vram_usage u = total_vram_usage t" "mnext t \<le> mnext u"
          using pr ptp by (auto simp: page_referenced_def)
        have zero: "\<forall>(x, a) \<in> set (L @ [(q, pp_allocation pg)]). map_option pp_address (ppages u x) = Some 0"
          using L(5) q(2) by (auto split: if_splits)
        have "?I todo (refs @ [q]) u"
          by (intro conjI fu q u(1) exI [of _ "L @ [(q, pp_allocation pg)]"] exI [of _ "pre @ [p]"] new zero)
            (use L pg in simp_all)
        then show ?thesis using Some by simp
      qed
    qed
  qed
  have loop: "wp (foreach (ref_page E) pages [] s) ?Q"
  proof (rule wp_foreach [where I = ?I])
    show "?I pages [] s" using assms(1) by (auto intro!: exI [of _ "[]"] simp: refs_over_Nil)
    show "wp (ref_page E x refs t) (\<lambda>r s'. case r of Inl a' \<Rightarrow> ?I xs a' s' | Inr b \<Rightarrow> ?Q (Inr b) s')"
      if "?I (x # xs) refs t" for x xs refs t by (rule step [OF that])
    show "?I [] refs t \<Longrightarrow> ?Q (Inl refs) t" for refs t by simp
  qed
  show ?thesis
    unfolding reference_pages_def
  proof (simp only: wp_bind split_conv, rule wp_conseq [OF loop], goal_cases)
    case (1 r t)
    show ?case
    proof (cases r)
      case (Inl refs)
      then show ?thesis using 1 by auto
    next
      case (Inr refs)
      then obtain L where L: "refs = map fst L" "refs_over s L t" "backed s L t" and f: "refs_frame s t" using 1 by auto
      have "allocations_lock_depth t = 0" using refs_frameD(1) [OF f] assms(2) by simp
      then have un: "unref_pages E refs t = Some ((), t\<lparr>pallocs := pallocs s, ppages := ppages s\<rparr>)"
        using unref_all [OF assms(1) L(2,3)] L(1) by simp
      have "refs_frame s (t\<lparr>hist := hist t, pallocs := pallocs s, ppages := ppages s, mnext := mnext t\<rparr>)"
        by (rule refs_frame_upd [OF f]) simp_all
      then show ?thesis using Inr un by simp
    qed
  qed
qed

subsection \<open>The handoff\<close>

lemma set_addresses_nth:
  assumes "distinct ps" "i < length ps" "m (ps ! i) = Some pg"
  shows "set_addresses a n ps m (ps ! i) = Some (pg\<lparr>pp_address := a + of_nat i * n\<rparr>)"
  using assms
proof (induction ps arbitrary: i a m)
  case Nil
  then show ?case by simp
next
  case (Cons x ps)
  show ?case
  proof (cases i)
    case 0
    then show ?thesis using Cons.prems by (simp add: set_addresses_other)
  next
    case (Suc j)
    let ?m = "m(x := map_option (\<lambda>pg. pg\<lparr>pp_address := a\<rparr>) (m x))"
    have "ps ! j \<noteq> x" using Cons.prems Suc by auto
    then have "set_addresses (a + n) n ps ?m (ps ! j) = Some (pg\<lparr>pp_address := a + n + of_nat j * n\<rparr>)"
      using Cons.prems Suc by (intro Cons.IH) auto
    then show ?thesis using Suc by (simp add: algebra_simps)
  qed
qed

definition allocation_of :: "'z rstate_scheme \<Rightarrow> nat \<Rightarrow> nat" where
  "allocation_of s p = pp_allocation (the (ppages s p))"

text \<open>
  The caller's side of the handoff: the pages exist and each is mapped, through some reference, at
  the address the handoff will record for it.
\<close>

definition handoff_ready :: "'z rstate_scheme \<Rightarrow> nat \<Rightarrow> u64 \<Rightarrow> nat list \<Rightarrow> u64 \<Rightarrow> u64 \<Rightarrow> bool" where
  "handoff_ready s rng ptr pages address n \<longleftrightarrow> pages \<noteq> [] \<and> (\<forall>p \<in> set pages. ppages s p \<noteq> None) \<and>
     (\<exists>rg al. vranges s rng = Some rg \<and> 0 < vr_refs rg \<and> pallocs s (allocation_of s (pages ! 0)) = Some al \<and>
        pa_bytes al = n \<and> first_page_address ptr (vr_address rg) n = Some address) \<and>
     (\<forall>i < length pages. \<exists>al q. pallocs s (allocation_of s (pages ! i)) = Some al \<and> q \<in> set (pa_references al) \<and>
        map_option pp_address (ppages s q) = Some (address + of_nat i * n))"

lemma backed_addresses:
  assumes "refs_over s L t" "map snd L = map (allocation_of s) pages" "refs = map fst L"
    "\<forall>i < length pages. \<exists>al q. pallocs s (allocation_of s (pages ! i)) = Some al \<and> q \<in> set (pa_references al) \<and>
        map_option pp_address (ppages s q) = Some (address + of_nat i * n)"
    "ppages u = set_addresses address n refs (ppages t)"
  shows "backed s L u"
proof (rule backedI)
  fix q a pg
  assume q: "(q, a) \<in> set L" "ppages u q = Some pg" "pp_address pg \<noteq> 0"
  then obtain i where i: "i < length L" "L ! i = (q, a)" by (auto simp: in_set_conv_nth)
  have len: "length L = length pages" using arg_cong [OF assms(2), of length] by simp
  have a: "a = allocation_of s (pages ! i)"
    using arg_cong [OF assms(2), of "\<lambda>x. x ! i"] i len by simp
  have qi: "refs ! i = q" "i < length refs" using i assms(3) by auto
  obtain pg0 where "ppages t q = Some pg0"
    using refs_over_new(2) [OF assms(1), of q] q(1) by force
  moreover have "distinct refs" using assms(1,3) by (simp add: refs_over_def)
  ultimately have "ppages u q = Some (pg0\<lparr>pp_address := address + of_nat i * n\<rparr>)"
    using set_addresses_nth [of refs i "ppages t" pg0 address n] qi assms(5) by simp
  then have "pp_address pg = address + of_nat i * n" using q(2) by auto
  then show "\<exists>al p. pallocs s a = Some al \<and> p \<in> set (pa_references al) \<and>
        map_option pp_address (ppages s p) = Some (pp_address pg)"
    using assms(4) i(1) len a by auto
qed

text \<open>What the rogue owns after a handoff that took.\<close>

definition handed_over :: "'z rstate_scheme \<Rightarrow> nat \<Rightarrow> u64 \<Rightarrow> nat list \<Rightarrow> 'z rstate_scheme \<Rightarrow> bool" where
  "handed_over s rng ptr pages t \<longleftrightarrow> (\<exists>new L rg. rogues t = new # rogues s \<and>
     rogue_heap t = (rogue_heap s)(new \<mapsto> \<lparr>rg_range = rng, rg_ptr = ptr, rg_pages = map fst L, rg_freeing = False\<rparr>) \<and>
     refs_over s L t \<and> map snd L = map (allocation_of s) pages \<and>
     vranges s rng = Some rg \<and> vranges t = (vranges s)(rng \<mapsto> rg\<lparr>vr_refs := vr_refs rg + 1\<rparr>))"

definition untouched :: "'z rstate_scheme \<Rightarrow> 'z rstate_scheme \<Rightarrow> bool" where
  "untouched s t \<longleftrightarrow> pallocs t = pallocs s \<and> ppages t = ppages s \<and> vranges t = vranges s \<and>
     rogues t = rogues s \<and> rogue_heap t = rogue_heap s"

definition candidate_verdict :: "u64 \<Rightarrow> 'z rstate_scheme \<Rightarrow> rogue_handoff" where
  "candidate_verdict ptr s = (case find_candidate ptr s of
      None \<Rightarrow> ROGUE_HANDOFF_ERROR
    | Some c \<Rightarrow> if rc_freed c then ROGUE_HANDOFF_FREED else ROGUE_HANDOFF_OWNED)"

lemma settle_candidate_run:
  assumes "allocations_lock_depth s = 0"
  shows "settle_candidate E ptr rg s = Some (candidate_verdict ptr s,
    if candidate_verdict ptr s = ROGUE_HANDOFF_OWNED
    then (unregister_candidate ptr s)\<lparr>rogue_heap := (rogue_heap s)(mnext s \<mapsto> rg), rogues := mnext s # rogues s, mnext := Suc (mnext s)\<rparr>
    else unregister_candidate ptr s)"
  using assms
  by (simp add: settle_candidate_def candidate_verdict_def unregister_candidate_def Let_def find_candidate_def
      allocations_lock_def allocations_unlock_def split: option.split)

lemma wp_handoff_rogue:
  assumes "pinv s" "allocations_lock_depth s = 0" "handoff_ready s rng ptr pages address n"
  shows "wp (handoff_rogue E rng ptr pages s) (\<lambda>r t.
    allocations_lock_depth t = 0 \<and> total_vram_usage t = total_vram_usage s \<and> asked_only harmless (hist s) (hist t) \<and>
    (if r = ROGUE_HANDOFF_OWNED then candidate_verdict ptr s = r \<and> handed_over s rng ptr pages t
     else untouched s t \<and> (r = ROGUE_HANDOFF_FREED \<longrightarrow> candidate_verdict ptr s = r)))"
proof -
  obtain rg al where r: "vranges s rng = Some rg" "0 < vr_refs rg" "pallocs s (allocation_of s (pages ! 0)) = Some al"
    "pa_bytes al = n" "first_page_address ptr (vr_address rg) n = Some address"
    using assms(3) by (auto simp: handoff_ready_def)
  have pg: "pages \<noteq> []" "\<forall>p \<in> set pages. \<exists>pg. ppages s p = Some pg" using assms(3) by (auto simp: handoff_ready_def)
  then obtain pg0 where pg0: "ppages s (pages ! 0) = Some pg0" by (metis length_greater_0_conv nth_mem)
  have al0: "pallocs s (pp_allocation pg0) = Some al" using r(3) pg0 by (simp add: allocation_of_def)
  let ?Q = "\<lambda>r t. allocations_lock_depth t = 0 \<and> total_vram_usage t = total_vram_usage s \<and> asked_only harmless (hist s) (hist t) \<and>
    (if r = ROGUE_HANDOFF_OWNED then candidate_verdict ptr s = r \<and> handed_over s rng ptr pages t
     else untouched s t \<and> (r = ROGUE_HANDOFF_FREED \<longrightarrow> candidate_verdict ptr s = r))"
  let ?s = "s\<lparr>hist := HostAlloc # HostAlloc # hist s\<rparr>"
  have s': "pinv ?s" "allocations_lock_depth ?s = 0" using assms by (auto intro: pinv_cong)
  have f0: "refs_frame s t" if "refs_frame ?s t" for t
    using that by (auto simp: refs_frame_def intro: asked_only_uncons [OF asked_only_uncons])
  have cont: "wp (finish_handoff E rng ptr address n references t) ?Q"
    if f: "refs_frame s t" and
      refs: "case references of
       None \<Rightarrow> pallocs t = pallocs s \<and> ppages t = ppages s
     | Some refs \<Rightarrow> (\<exists>L. refs = map fst L \<and> refs_over s L t \<and> map snd L = map (allocation_of s) pages)" for references t
  proof (cases references)
    case None
    then show ?thesis using refs refs_frameD [OF f] assms(2) by (simp add: untouched_def finish_handoff_def)
  next
    case (Some refs)
    then obtain L where L: "refs = map fst L" "refs_over s L t" "map snd L = map (allocation_of s) pages"
      using refs by auto
    note fD = refs_frameD [OF f]
    let ?t = "t\<lparr>ppages := set_addresses address n refs (ppages t)\<rparr>"
    let ?u = "?t\<lparr>vranges := (vranges s)(rng \<mapsto> rg\<lparr>vr_refs := vr_refs rg + 1\<rparr>)\<rparr>"
    have u: "virtual_range_ref E rng ?t = Some (rng, ?u)"
      using fD(1,2) assms(2) r(1) by (simp add: virtual_range_ref_def allocations_lock_def allocations_unlock_def)
    have verdict: "candidate_verdict ptr ?u = candidate_verdict ptr s"
      using fD(5) by (simp add: candidate_verdict_def find_candidate_def)
    have over: "refs_over s L ?t" by (rule refs_over_addresses [OF L(2)]) (simp_all add: L(1))
    have bk: "backed s L ?t"
      by (rule backed_addresses [OF L(2,3,1)]) (use assms(3) in \<open>auto simp: handoff_ready_def\<close>)
    show ?thesis
    proof (cases "candidate_verdict ptr s = ROGUE_HANDOFF_OWNED")
      case True
      have "refs_over s L (t'\<lparr>rogue_candidates := c, rogue_heap := h, rogues := l, mnext := m\<rparr>)"
        if "t' = ?u" for t' c h l m
        using over that by (simp add: refs_over_def)
      then have "handed_over s rng ptr pages ((unregister_candidate ptr ?u)\<lparr>
          rogue_heap := (rogue_heap ?u)(mnext ?u \<mapsto> \<lparr>rg_range = rng, rg_ptr = ptr, rg_pages = refs, rg_freeing = False\<rparr>),
          rogues := mnext ?u # rogues ?u, mnext := Suc (mnext ?u)\<rparr>)"
        unfolding handed_over_def using L(1,3) r(1) fD(3,4)
        by (intro exI [of _ "mnext ?u"] exI [of _ L] exI [of _ rg]) (simp add: unregister_candidate_def)
      then show ?thesis
        using Some u verdict True fD(1,6,7) assms(2)
        by (simp add: finish_handoff_def settle_candidate_run Let_def) (simp add: unregister_candidate_def)
    next
      case False
      let ?w = "unregister_candidate ptr ?u"
      have w: "refs_over s L ?w" "backed s L ?w" "allocations_lock_depth ?w = 0"
        using over bk fD(1) assms(2) by (simp_all add: unregister_candidate_def refs_over_def backed_def)
      have un: "unref_pages E refs ?w = Some ((), ?w\<lparr>pallocs := pallocs s, ppages := ppages s\<rparr>)"
        using unref_all [OF assms(1) w] L(1) by simp
      have run: "virtual_range_unref E rng (?w\<lparr>pallocs := pallocs s, ppages := ppages s\<rparr>) =
        Some (0, ?w\<lparr>pallocs := pallocs s, ppages := ppages s, vranges := (vranges s)(rng \<mapsto> rg)\<rparr>)"
        using w(3) r(2) by (simp add: virtual_range_unref_def unregister_candidate_def pred64_def Let_def
            allocations_lock_def allocations_unlock_def)
      have "(vranges s)(rng \<mapsto> rg) = vranges s" using r(1) by (rule map_upd_triv)
      then have "untouched s (?w\<lparr>pallocs := pallocs s, ppages := ppages s, vranges := (vranges s)(rng \<mapsto> rg)\<rparr>)"
        using fD(3,4) by (simp add: untouched_def unregister_candidate_def)
      then show ?thesis
        using Some u verdict False fD(1,6,7) assms(2) un run
        by (simp add: finish_handoff_def settle_candidate_run Let_def) (simp add: unregister_candidate_def)
    qed
  qed
  have refs: "wp (reference_pages E pages ?s) (\<lambda>references t. refs_frame s t \<and> (case references of
       None \<Rightarrow> pallocs t = pallocs s \<and> ppages t = ppages s
     | Some refs \<Rightarrow> (\<exists>L. refs = map fst L \<and> refs_over s L t \<and> map snd L = map (allocation_of s) pages)))"
  proof (rule wp_conseq [OF wp_reference_pages [OF s']], goal_cases)
    case 1
    then show ?case using pg(2) by simp
  next
    case (2 r t)
    then show ?case using f0 by (auto simp: refs_over_def allocation_of_def split: option.splits)
  qed
  have fail: "?Q ROGUE_HANDOFF_ERROR ?s" using assms(2) by (simp add: untouched_def)
  have run: "handoff_rogue E rng ptr pages s =
      (if r_rc (drv E (hist s) HostAlloc) = 0 \<and> r_rc (drv E (HostAlloc # hist s) HostAlloc) = 0
       then do { (references, t) \<leftarrow> reference_pages E pages ?s; finish_handoff E rng ptr address n references t }
       else Some (ROGUE_HANDOFF_ERROR, ?s))"
    using pg(1) pg0 al0 r(1,4,5)
    by (simp add: handoff_rogue_def virtual_range_get_def host_alloc_def ask_def)
  have "wp (do { (references, t) \<leftarrow> reference_pages E pages ?s; finish_handoff E rng ptr address n references t }) ?Q"
    by (simp only: wp_bind split_conv, rule wp_conseq [OF refs]) (elim conjE, rule cont)
  then show ?thesis unfolding run by (simp only: wp_if wp_Some fail split: if_split) (simp add: untouched_def)
qed

subsection \<open>The candidate protocol\<close>

text \<open>Registering, freeing and settling one address, the steps of its life before the handoff.\<close>

lemma wp_register:
  assumes "allocations_lock_depth s = 0"
  shows "wp (register_rogue_candidate E ptr s) (\<lambda>ok t.
    rogue_candidates t = (if ok then \<lparr>rc_ptr = ptr, rc_freed = False\<rparr> # rogue_candidates s else rogue_candidates s) \<and>
    untouched s t \<and> allocations_lock_depth t = 0 \<and> total_vram_usage t = total_vram_usage s)"
  using assms by (simp add: register_rogue_candidate_def untouched_def)

lemma wp_rogue_exists:
  assumes "allocations_lock_depth s = 0"
  shows "rogue_exists E ptr s = Some (find_rogue ptr s \<noteq> None, s)"
  using assms by (simp add: rogue_exists_def find_rogue_def allocations_lock_def allocations_unlock_def)

lemma wp_candidate_freed:
  assumes "allocations_lock_depth s = 0"
  shows "rogue_candidate_freed E ptr s = Some (candidate_verdict ptr s = ROGUE_HANDOFF_FREED, s)"
  using assms
  by (simp add: rogue_candidate_freed_def candidate_verdict_def find_candidate_def Let_def
      allocations_lock_def allocations_unlock_def split: option.split)

text \<open>
  Freeing an address that is only a candidate marks it, and nothing else: the handoff that follows
  will report it freed.
\<close>

lemma free_candidate:
  assumes "allocations_lock_depth s = 0" "find_rogue ptr s = None" "find_candidate ptr s = Some c"
  shows "\<exists>t. free_rogue E ptr s = Some (Some 0, t) \<and> candidate_verdict ptr t = ROGUE_HANDOFF_FREED \<and>
    (\<forall>q. q \<noteq> ptr \<longrightarrow> candidate_verdict q t = candidate_verdict q s) \<and> untouched s t \<and> hist t = hist s"
proof -
  let ?t = "s\<lparr>rogue_candidates := update_first (\<lambda>c. rc_ptr c = ptr) (\<lambda>c. c\<lparr>rc_freed := True\<rparr>) (rogue_candidates s)\<rparr>"
  have run: "free_rogue E ptr s = Some (Some 0, ?t)"
    using assms by (simp add: free_rogue_def find_rogue_def find_candidate_def allocations_lock_def allocations_unlock_def)
  have c: "rc_ptr c = ptr" using assms(3) by (auto simp: find_candidate_def find_Some_iff)
  have here: "find_candidate ptr ?t = Some (c\<lparr>rc_freed := True\<rparr>)"
    using assms(3) c find_update_first [of "\<lambda>c. rc_ptr c = ptr" "rogue_candidates s" c "\<lambda>c. c\<lparr>rc_freed := True\<rparr>"]
    by (simp add: find_candidate_def)
  have other: "find_candidate q ?t = find_candidate q s" if "q \<noteq> ptr" for q
    using that by (simp add: find_candidate_def find_update_other)
  show ?thesis
    using run here other by (intro exI [of _ ?t]) (simp add: candidate_verdict_def untouched_def)
qed

lemma free_unknown:
  assumes "allocations_lock_depth s = 0" "find_rogue ptr s = None" "find_candidate ptr s = None"
  shows "free_rogue E ptr s = Some (None, s)"
  using assms by (simp add: free_rogue_def find_rogue_def find_candidate_def allocations_lock_def allocations_unlock_def)

text \<open>A second free while the first is under way returns at once.\<close>

lemma free_while_freeing:
  assumes "allocations_lock_depth s = 0" "find_rogue ptr s = Some r" "rogue_heap s r = Some rg" "rg_freeing rg"
  shows "free_rogue E ptr s = Some (Some 0, s)"
  using assms by (simp add: free_rogue_def find_rogue_def allocations_lock_def allocations_unlock_def)

end
