(* ===== verification/VramBuf.thy ===== *)
theory VramBuf
  imports Rogue
begin

unbundle bit_operations_syntax

text \<open>
  VRAM buffers (\<open>src/vrambuf.c\<close>) and the PyTorch allocator plug-in built on them
  (\<open>src/pyt-cu-plug-alloc.c\<close>).

  A buffer is a reserved range that grows by mapped chunks. Its handles are a list
  (\<open>handle_count\<close> is its length) with the capacity of the C array, and a write beyond the
  capacity is undefined (\<open>None\<close>). The buckets of the hash table and the pool of parked
  reservations (HIP on Windows) are lists of buffer addresses. One state is the context of one
  device: \<open>set_devctx_for_device\<close> selects it, or answers no.
\<close>

record vram_buffer =
  vb_base_ptr :: u64
  vb_max_size :: u64
  vb_allocated :: u64
  vb_handles :: "u64 list"
  vb_capacity :: nat
  vb_device :: int

record size_entry =
  se_ptr :: u64
  se_size :: u64

record astate = rstate +
  vram_bufs :: "nat \<rightharpoonup> vram_buffer"
  va_pool :: "nat list"
  vmm_table :: "nat \<Rightarrow> nat list"
  size_table :: "nat \<Rightarrow> size_entry list"

definition ALIGN_UP :: "u64 \<Rightarrow> u64 \<Rightarrow> u64" where
  "ALIGN_UP x a = (x + a - 1) AND NOT (a - 1)"

abbreviation CUDA_PAGE_SIZE :: u64 where "CUDA_PAGE_SIZE \<equiv> 2097152"

definition VRAM_CHUNK_SIZE :: "env \<Rightarrow> u64" where
  "VRAM_CHUNK_SIZE E = (if is_hip E \<and> \<not> is_win E then CUDA_PAGE_SIZE else 16777216)"

definition set_devctx_for_device :: "int \<Rightarrow> 'z ctx_scheme \<Rightarrow> bool" where
  "set_devctx_for_device dev s \<longleftrightarrow> dev = device_id s"

definition set_devctx_for_current_cuda_device :: "env \<Rightarrow> 'z ctx_scheme \<Rightarrow> (bool \<times> 'z ctx_scheme) option" where
  "set_devctx_for_current_cuda_device E s = do {
     (r, s) \<leftarrow> ask E GetCurrentDevice s;
     Some (r_rc r = CUDA_SUCCESS \<and> set_devctx_for_device (sint (r_val r)) s, s) }"

subsection \<open>Buffers\<close>

text \<open>The slots of \<open>calloc(1, sizeof(*buf) + sizeof(handle) * max_size / VRAM_CHUNK_SIZE)\<close>.\<close>

definition handle_slots :: "env \<Rightarrow> u64 \<Rightarrow> nat" where
  "handle_slots E max_size = 1 + unat (8 * max_size div VRAM_CHUNK_SIZE E) div 8"

definition find_parked :: "u64 \<Rightarrow> 'z astate_scheme \<Rightarrow> nat option option" where
  "find_parked max_size s = find_at (vram_bufs s) (\<lambda>buf. vb_max_size buf = max_size) (va_pool s)"

definition vrambuf_create :: "env \<Rightarrow> int \<Rightarrow> u64 \<Rightarrow> 'z astate_scheme \<Rightarrow> (nat option \<times> 'z astate_scheme) option" where
  "vrambuf_create E dev max_size s =
     (if \<not> set_devctx_for_device dev s then Some (None, s)
      else do {
        let max_size = ALIGN_UP max_size CUDA_PAGE_SIZE;
        parked \<leftarrow> (if is_hip E \<and> is_win E then find_parked max_size s else Some None);
        case parked of
          Some b \<Rightarrow> Some (Some b, s\<lparr>va_pool := remove1 b (va_pool s)\<rparr>)
        | None \<Rightarrow> do {
            (ok, s) \<leftarrow> host_alloc E s;
            if \<not> ok then Some (None, s)
            else do {
              (r, s) \<leftarrow> ask E (AddressReserve max_size 0) s;
              if r_rc r \<noteq> CUDA_SUCCESS then Some (None, s)
              else Some (Some (mnext s), s\<lparr>vram_bufs := (vram_bufs s)(mnext s \<mapsto>
                  \<lparr>vb_base_ptr = r_val r, vb_max_size = max_size, vb_allocated = 0, vb_handles = [],
                   vb_capacity = handle_slots E max_size, vb_device = dev\<rparr>),
                 mnext := Suc (mnext s)\<rparr>) } } })"

text \<open>One chunk: a handle, or \<open>None\<close> when memory could not be found even after a reclaim.\<close>

definition grow_chunk :: "env \<Rightarrow> u64 \<Rightarrow> u64 \<Rightarrow> int \<Rightarrow> 'z astate_scheme \<Rightarrow> (u64 option \<times> 'z astate_scheme) option" where
  "grow_chunk E vaddr to_allocate dev s = do {
     (r, s) \<leftarrow> three_stooges E vaddr to_allocate dev s;
     case r of
       Inr h \<Rightarrow> Some (Some h, s)
     | Inl err \<Rightarrow>
         if err \<noteq> CUDA_ERROR_OUT_OF_MEMORY then Some (None, s)
         else do {
           (ok, s) \<leftarrow> vbars_free E (sint (VRAM_CHUNK_SIZE E)) s;
           if \<not> ok then Some (None, s)
           else do {
             (r, s) \<leftarrow> three_stooges E vaddr to_allocate dev s;
             Some (case r of Inl _ \<Rightarrow> None | Inr h \<Rightarrow> Some h, s) } } }"

definition push_handle :: "u64 \<Rightarrow> u64 \<Rightarrow> vram_buffer \<Rightarrow> vram_buffer option" where
  "push_handle h n buf =
     (if length (vb_handles buf) \<ge> vb_capacity buf then None
      else Some (buf\<lparr>vb_handles := vb_handles buf @ [h], vb_allocated := vb_allocated buf + n\<rparr>))"

definition grow_step :: "env \<Rightarrow> nat \<Rightarrow> u64 \<Rightarrow> unit \<Rightarrow> 'z astate_scheme \<Rightarrow> ((unit + bool) \<times> 'z astate_scheme) option" where
  "grow_step E b grow_to = (\<lambda>_ s. do {
     buf \<leftarrow> vram_bufs s b;
     if \<not> vb_allocated buf < grow_to then Some (Inr True, s)
     else do {
       let n = grow_to - vb_allocated buf;
       let to_allocate = (if n > VRAM_CHUNK_SIZE E then VRAM_CHUNK_SIZE E else n);
       (h, s) \<leftarrow> grow_chunk E (vb_base_ptr buf + vb_allocated buf) to_allocate (vb_device buf) s;
       case h of
         None \<Rightarrow> Some (Inr False, s)
       | Some h \<Rightarrow> do {
           buf \<leftarrow> vram_bufs s b;
           buf \<leftarrow> push_handle h to_allocate buf;
           Some (Inl (), s\<lparr>vram_bufs := (vram_bufs s)(b \<mapsto> buf)\<rparr>) } } })"

text \<open>The fuel of the loop: one step per chunk that is missing, one for a partial chunk, one to leave.\<close>

definition vrambuf_grow :: "env \<Rightarrow> nat option \<Rightarrow> u64 \<Rightarrow> 'z astate_scheme \<Rightarrow> (bool \<times> 'z astate_scheme) option" where
  "vrambuf_grow E arg required_size s = (case arg of
      None \<Rightarrow> Some (False, s)
    | Some b \<Rightarrow> do {
        buf \<leftarrow> vram_bufs s b;
        if \<not> set_devctx_for_device (vb_device buf) s then Some (False, s)
        else if required_size > vb_max_size buf then Some (False, s)
        else if required_size \<le> vb_allocated buf then Some (True, s)
        else do {
          let up = ALIGN_UP required_size (VRAM_CHUNK_SIZE E);
          let grow_to = (if up > vb_max_size buf then vb_max_size buf else up);
          (deficit, s) \<leftarrow> budget_deficit E (grow_to - vb_allocated buf) s;
          (ok, s) \<leftarrow> vbars_free E deficit s;
          if \<not> ok then Some (False, s)
          else loop (unat ((grow_to - vb_allocated buf) div VRAM_CHUNK_SIZE E) + 3) (grow_step E b grow_to) () s } })"

definition vrambuf_get :: "nat option \<Rightarrow> 'z astate_scheme \<Rightarrow> u64 option" where
  "vrambuf_get arg s = (case arg of
      None \<Rightarrow> Some 0
    | Some b \<Rightarrow> do { buf \<leftarrow> vram_bufs s b; Some (vb_base_ptr buf) })"

text \<open>The unmaps of a destroy: on XPU exactly the chunks that were mapped, elsewhere one range.\<close>

definition unmap_chunk :: "env \<Rightarrow> vram_buffer \<Rightarrow> u64 \<Rightarrow> 'z astate_scheme \<Rightarrow> ((u64 + unit) \<times> 'z astate_scheme) option" where
  "unmap_chunk E buf offset s =
     (if \<not> offset < vb_allocated buf then Some (Inr (), s)
      else do {
        let n = vb_allocated buf - offset;
        let chunk = (if n > VRAM_CHUNK_SIZE E then VRAM_CHUNK_SIZE E else n);
        (_, s) \<leftarrow> check_cu E (MemUnmap (vb_base_ptr buf + offset) chunk) s;
        Some (Inl (offset + chunk), s) })"

definition unmap_buffer :: "env \<Rightarrow> vram_buffer \<Rightarrow> 'z astate_scheme \<Rightarrow> (unit \<times> 'z astate_scheme) option" where
  "unmap_buffer E buf s =
     (if \<not> vb_allocated buf > 0 then Some ((), s)
      else do {
        s \<leftarrow> (if is_xpu E
              then do { (_, s) \<leftarrow> foreach (\<lambda>_. unmap_chunk E buf) (vb_handles buf) 0 s; Some s }
              else do { (_, s) \<leftarrow> check_cu E (MemUnmap (vb_base_ptr buf) (vb_allocated buf)) s; Some s });
        unmap_workaround E (vb_base_ptr buf) (vb_allocated buf) s })"

definition vrambuf_destroy :: "env \<Rightarrow> nat option \<Rightarrow> 'z astate_scheme \<Rightarrow> (bool \<times> 'z astate_scheme) option" where
  "vrambuf_destroy E arg s = (case arg of
      None \<Rightarrow> Some (False, s)
    | Some b \<Rightarrow> do {
        buf \<leftarrow> vram_bufs s b;
        if \<not> set_devctx_for_device (vb_device buf) s then Some (False, s)
        else do {
          (_, s) \<leftarrow> unmap_buffer E buf s;
          (_, s) \<leftarrow> each (\<lambda>h s. do { (_, s) \<leftarrow> check_cu E (MemRelease h) s; Some ((), s) }) (vb_handles buf) s;
          let s = s\<lparr>total_vram_usage := total_vram_usage s - vb_allocated buf\<rparr>;
          if is_hip E \<and> is_win E then
            Some (True, s\<lparr>vram_bufs := (vram_bufs s)(b \<mapsto> buf\<lparr>vb_allocated := 0, vb_handles := []\<rparr>),
                          va_pool := b # va_pool s\<rparr>)
          else do {
            (_, s) \<leftarrow> check_cu E (AddressFree (vb_base_ptr buf) (vb_max_size buf)) s;
            Some (True, s\<lparr>vram_bufs := (vram_bufs s)(b := None)\<rparr>) } } })"

definition va_pool_cleanup :: "env \<Rightarrow> 'z astate_scheme \<Rightarrow> (unit \<times> 'z astate_scheme) option" where
  "va_pool_cleanup E s = do {
     (_, s) \<leftarrow> each (\<lambda>b s. do {
         buf \<leftarrow> vram_bufs s b;
         (_, s) \<leftarrow> check_cu E (AddressFree (vb_base_ptr buf) (vb_max_size buf)) s;
         Some ((), s\<lparr>vram_bufs := (vram_bufs s)(b := None)\<rparr>) }) (va_pool s) s;
     Some ((), s\<lparr>va_pool := []\<rparr>) }"

subsection \<open>The allocator plug-in\<close>

definition vmm_hash :: "u64 \<Rightarrow> nat" where
  "vmm_hash ptr = unat (drop_bit 21 ptr mod 4096)"

text \<open>\<open>alloc_fn\<close>: the address, 0 for \<open>NULL\<close>. The stream and the log are not used.\<close>

definition alloc_fn :: "env \<Rightarrow> u64 \<Rightarrow> int \<Rightarrow> 'z astate_scheme \<Rightarrow> (u64 \<times> 'z astate_scheme) option" where
  "alloc_fn E n dev s =
     (if \<not> set_devctx_for_device dev s then Some (0, s)
      else do {
        (entry, s) \<leftarrow> vrambuf_create E dev n s;
        case entry of
          None \<Rightarrow> Some (0, s)
        | Some b \<Rightarrow> do {
            (ok, s) \<leftarrow> vrambuf_grow E entry n s;
            if \<not> ok then do { (_, s) \<leftarrow> vrambuf_destroy E entry s; Some (0, s) }
            else do {
              ptr \<leftarrow> vrambuf_get entry s;
              let h = vmm_hash ptr;
              Some (ptr, s\<lparr>vmm_table := (vmm_table s)(h := b # vmm_table s h), allocations_dirty := True\<rparr>) } } })"

definition find_buffer :: "u64 \<Rightarrow> int \<Rightarrow> 'z astate_scheme \<Rightarrow> nat option option" where
  "find_buffer ptr dev s =
     find_at (vram_bufs s) (\<lambda>buf. vb_base_ptr buf = ptr \<and> vb_device buf = dev) (vmm_table s (vmm_hash ptr))"

definition free_fn :: "env \<Rightarrow> u64 \<Rightarrow> int \<Rightarrow> 'z astate_scheme \<Rightarrow> (unit \<times> 'z astate_scheme) option" where
  "free_fn E ptr dev s =
     (if ptr = 0 \<or> \<not> set_devctx_for_device dev s then Some ((), s)
      else do {
        found \<leftarrow> find_buffer ptr dev s;
        case found of
          None \<Rightarrow> Some ((), s)
        | Some b \<Rightarrow> do {
            let h = vmm_hash ptr;
            (_, s) \<leftarrow> vrambuf_destroy E (Some b)
              (s\<lparr>vmm_table := (vmm_table s)(h := remove1 b (vmm_table s h)), allocations_dirty := True\<rparr>);
            Some ((), s) } })"

text \<open>\<open>allocations_analyze\<close>: the total and the count it reports, \<open>None\<close> when it reports nothing.\<close>

definition allocations_analyze :: "bool \<Rightarrow> 'z astate_scheme \<Rightarrow> ((u64 \<times> nat) option \<times> 'z astate_scheme) option" where
  "allocations_analyze only_dirty s =
     (if only_dirty \<and> \<not> allocations_dirty s then Some (None, s)
      else do {
        let s = s\<lparr>allocations_dirty := False\<rparr>;
        (r, s) \<leftarrow> foreach (\<lambda>b (total_size, n) s. do {
             buf \<leftarrow> vram_bufs s b;
             Some (Inl (total_size + vb_allocated buf, Suc n) :: (u64 \<times> nat) + (u64 \<times> nat), s) })
           (concat (map (vmm_table s) [0..<4096])) (0, 0) s;
        Some (Some (case r of Inl x \<Rightarrow> x | Inr x \<Rightarrow> x), s) })"

end
