(* ===== verification/Beside.thy ===== *)
theory Beside
  imports VbarFault
begin

text \<open>
  What the allocators around the VBARs see of a reclaim, and the frame rules for operations that
  keep an invariant and a relation between the states before and after: the locale states what such
  a frame must provide, its rules carry the frame through loops and sequences.
\<close>

subsection \<open>Frames\<close>

locale frame_rules =
  fixes I :: "'s \<Rightarrow> bool" and R :: "'s \<Rightarrow> 's \<Rightarrow> bool"
  assumes R_refl: "I s \<Longrightarrow> R s s"
    and R_trans: "R s t \<Longrightarrow> R t u \<Longrightarrow> R s u"
    and R_keeps: "R s t \<Longrightarrow> I t"
begin

lemma seq:
  assumes "wp (m s) (\<lambda>a t. R s t \<and> P a t)" "\<And>a t. R s t \<Longrightarrow> P a t \<Longrightarrow> wp (n a t) (\<lambda>b u. R t u \<and> Q b u)"
  shows "wp (Option.bind (m s) (\<lambda>(a, t). n a t)) (\<lambda>b u. R s u \<and> Q b u)"
  by (simp only: wp_bind split_conv, rule wp_conseq [OF assms(1)])
    (auto intro: wp_conseq [OF assms(2)] R_trans)

lemma foreach:
  assumes "I s" "\<And>x a t. x \<in> set xs \<Longrightarrow> I t \<Longrightarrow> wp (body x a t) (\<lambda>_ u. R t u)"
  shows "wp (foreach body xs a s) (\<lambda>_ t. R s t)"
proof (rule wp_foreach [where I = "\<lambda>ys _ t. set ys \<subseteq> set xs \<and> R s t"])
  show "set xs \<subseteq> set xs \<and> R s s" using R_refl [OF assms(1)] by simp
next
  fix x ys a t
  assume "set (x # ys) \<subseteq> set xs \<and> R s t"
  then have x: "x \<in> set xs" "set ys \<subseteq> set xs" "R s t" by auto
  show "wp (body x a t) (\<lambda>r u. case r of Inl a' \<Rightarrow> set ys \<subseteq> set xs \<and> R s u | Inr b \<Rightarrow> R s u)"
    by (rule wp_conseq [OF assms(2) [OF x(1) R_keeps [OF x(3)]]]) (use x R_trans in \<open>auto split: sum.splits\<close>)
qed simp

lemma each:
  assumes "I s" "\<And>x t. x \<in> set xs \<Longrightarrow> I t \<Longrightarrow> wp (body x t) (\<lambda>_ u. R t u)"
  shows "wp (each body xs s) (\<lambda>_ t. R s t)"
proof (rule wp_each [where I = "\<lambda>ys t. set ys \<subseteq> set xs \<and> R s t"])
  show "set xs \<subseteq> set xs \<and> R s s" using R_refl [OF assms(1)] by simp
next
  fix x ys t
  assume "set (x # ys) \<subseteq> set xs \<and> R s t"
  then have x: "x \<in> set xs" "set ys \<subseteq> set xs" "R s t" by auto
  show "wp (body x t) (\<lambda>_ u. set ys \<subseteq> set xs \<and> R s u)"
    by (rule wp_conseq [OF assms(2) [OF x(1) R_keeps [OF x(3)]]]) (use x R_trans in auto)
qed simp

end

subsection \<open>What an operation on the VBARs leaves of the rest\<close>

text \<open>
  \<open>beside E s n t\<close>: between \<open>s\<close> and \<open>t\<close> the VBARs may have been reclaimed, and \<open>n\<close> bytes that
  belong to no VBAR were added to the accounts; nothing above the VBARs has changed.
\<close>

definition beside :: "env \<Rightarrow> 'z vstate_scheme \<Rightarrow> u64 \<Rightarrow> 'z vstate_scheme \<Rightarrow> bool" where
  "beside E s n t \<longleftrightarrow> vinv E t \<and> graph_ok t \<and> vstate.more t = vstate.more s \<and> device_id t = device_id s \<and>
     vbar_lock_depth t = vbar_lock_depth s \<and> allocations_lock_depth t = allocations_lock_depth s \<and>
     dom (vheap t) = dom (vheap s) \<and> graphs t = graphs s \<and> active_graph t = active_graph s \<and>
     other_bytes t = other_bytes s + n"

lemma beside_refl: "vinv E s \<Longrightarrow> graph_ok s \<Longrightarrow> beside E s 0 s"
  by (simp add: beside_def)

lemma beside_trans: "beside E s m t \<Longrightarrow> beside E t n u \<Longrightarrow> beside E s (m + n) u"
  by (simp add: beside_def add.assoc)

lemma beside_inv: "beside E s n t \<Longrightarrow> vinv E t" "beside E s n t \<Longrightarrow> graph_ok t"
  by (simp_all add: beside_def)

lemma beside_vsteps:
  assumes "vsteps E P W s t" "vinv E s" "graph_ok s" "vbar_lock_depth t = vbar_lock_depth s"
  shows "beside E s 0 t"
  using assms vsteps_fields [OF assms(1)] vsteps_dom [OF assms(1)] other_bytes_vsteps [OF assms(1,2)]
    vinv_vsteps [OF assms(1,2)] graph_ok_vsteps [OF assms(3,1)]
  by (simp add: beside_def)

lemma wp_vbars_free_beside:
  assumes "vinv E s" "graph_ok s"
  shows "wp (vbars_free E n s) (\<lambda>_ t. beside E s 0 t)"
  unfolding vbars_free_def vbars_free_except_def
  by (rule wp_conseq [OF wp_vbars_free_internal [OF assms]])
    (auto simp: reclaim_result_def reclaim_steps_def intro: beside_vsteps [OF _ assms])

lemma wp_free_for_allocator_beside:
  assumes "vinv E s" "graph_ok s"
  shows "wp (vbars_free_for_allocator E n s) (\<lambda>_ t. beside E s 0 t)"
  unfolding vbars_free_for_allocator_def
  by (rule wp_conseq [OF wp_vbars_free_internal [OF assms]])
    (auto simp: reclaim_result_def reclaim_steps_def intro: beside_vsteps [OF _ assms])

lemma wp_budget_beside:
  assumes "vinv E s" "graph_ok s"
  shows "wp (budget_deficit E n s) (\<lambda>_ t. beside E s 0 t)"
  by (rule wp_conseq [OF wp_budget_deficit])
    (auto intro!: beside_vsteps [OF vsteps_quiet [OF sampled_quiet] assms] simp: sampled_fields)

lemma beside_accounted:
  assumes "vinv E s" "graph_ok s" "t = s\<lparr>hist := h, total_vram_usage := total_vram_usage s + n\<rparr>"
  shows "beside E s n t"
  using assms by (simp add: beside_def vinv_def graph_ok_def other_bytes_def owned_pages_def)

lemma wp_three_stooges_beside:
  assumes "vinv E s" "graph_ok s"
  shows "wp (three_stooges E a n d s) (\<lambda>r t. beside E s (case r of Inl _ \<Rightarrow> 0 | Inr _ \<Rightarrow> n) t \<and>
    (\<forall>h. r = Inr h \<longrightarrow> mappings E (hist t) a = Some (n, h)))"
proof (rule wp_conseq [OF wp_three_stooges], elim conjE, goal_cases)
  case (1 r t)
  have "beside E s (case r of Inl _ \<Rightarrow> 0 | Inr _ \<Rightarrow> n) t" by (rule beside_accounted [OF assms 1(1)])
  then show ?case using 1(3) by (auto split: sum.splits)
qed

interpretation reclaiming: frame_rules "\<lambda>s. vinv E s \<and> graph_ok s" "\<lambda>s t. beside E s 0 t" for E
  using beside_trans [of E _ 0 _ 0] by unfold_locales (auto intro: beside_refl dest: beside_inv)

end
