(* ===== verification/VramBufInv.thy ===== *)
theory VramBufInv
  imports VramBuf Beside
begin

text \<open>
  A buffer never writes past its handle array, maps exactly the bytes it accounts for, and a grow
  either reaches the size asked for or leaves a smaller well-formed buffer.
\<close>

lemma more_astate:
  assumes "vstate.more t = vstate.more (s :: 'z astate_scheme)"
  shows "vram_bufs t = vram_bufs s" "vmm_table t = vmm_table s" "va_pool t = va_pool s" "size_table t = size_table s"
    "pallocs t = pallocs s" "ppages t = ppages s" "vranges t = vranges s" "mnext t = mnext s"
    "rogues t = rogues s" "rogue_heap t = rogue_heap s" "rogue_candidates t = rogue_candidates s"
  using assms by (cases s; cases t; simp)+

subsection \<open>The chunks of a buffer\<close>

definition chunk :: "env \<Rightarrow> nat" where
  "chunk E = unat (VRAM_CHUNK_SIZE E)"

lemma chunk_cases: "chunk E = 2097152 \<or> chunk E = 16777216"
  by (simp add: chunk_def VRAM_CHUNK_SIZE_def)

text \<open>
  A well-formed buffer: below \<open>2 ^ 60\<close> bytes, one handle per chunk, and only its last chunk may be
  partial.
\<close>

definition buffer_ok :: "env \<Rightarrow> vram_buffer \<Rightarrow> bool" where
  "buffer_ok E buf \<longleftrightarrow> unat (vb_max_size buf) < 2 ^ 60 \<and> vb_allocated buf \<le> vb_max_size buf \<and>
     vb_capacity buf = handle_slots E (vb_max_size buf) \<and>
     length (vb_handles buf) = (unat (vb_allocated buf) + (chunk E - 1)) div chunk E \<and>
     (vb_allocated buf = vb_max_size buf \<or> chunk E dvd unat (vb_allocated buf))"

lemma handle_slots_nat:
  assumes "unat m < 2 ^ 60"
  shows "handle_slots E m = 1 + unat m div chunk E"
proof -
  have "unat (8 * m) = 8 * unat m" using assms by (simp add: unat_word_ariths)
  then have "unat (8 * m div VRAM_CHUNK_SIZE E) = 8 * unat m div chunk E" by (simp add: unat_div chunk_def)
  moreover have "8 * unat m div chunk E div 8 = unat m div chunk E"
    by (metis div_mult2_eq mult.commute nonzero_mult_div_cancel_left zero_neq_numeral)
  ultimately show ?thesis by (simp add: handle_slots_def)
qed

lemma and_not_mask: "x AND NOT (mask k) = push_bit k (drop_bit k (x :: u64))"
  by (rule bit_word_eqI) (auto simp: bit_simps)

lemma unat_and_not_mask: "unat (x AND NOT (mask k) :: u64) = unat x div 2 ^ k * 2 ^ k"
proof -
  have "unat x div 2 ^ k * 2 ^ k \<le> unat x" by (rule div_times_less_eq_dividend)
  also have below: "unat x < 2 ^ 64" using unsigned_less [of x] by simp
  finally have "unat x div 2 ^ k * 2 ^ k < 2 ^ 64" .
  then show ?thesis
    unfolding and_not_mask unsigned_push_bit_eq unsigned_drop_bit_eq
    using below by (simp add: take_bit_eq_mod push_bit_eq_mult drop_bit_eq_div)
qed

lemma ALIGN_UP_nat:
  assumes "unat x + 2 ^ k \<le> 2 ^ 64" "k < 64"
  shows "unat (ALIGN_UP x (2 ^ k)) = (unat x + (2 ^ k - 1)) div 2 ^ k * 2 ^ k"
proof -
  have a: "ALIGN_UP x (2 ^ k) = (x + mask k) AND NOT (mask k)"
    by (simp add: ALIGN_UP_def mask_eq_exp_minus_1 add_diff_eq)
  have two: "unat (mask k :: u64) = 2 ^ k - 1"
    using assms(2) unfolding take_bit_minus_one_eq_mask [symmetric] unsigned_take_bit_eq unsigned_minus_1_eq_mask
    by (simp add: min_def take_bit_of_mask) (simp add: mask_eq_exp_minus_1)
  have "unat (x + mask k) = unat x + (2 ^ k - 1)"
    using assms(1) two by (subst unat_add_lem [THEN iffD1]) (auto intro: less_le_trans)
  then show ?thesis by (simp add: a unat_and_not_mask)
qed

lemma align_chunk:
  assumes "unat x < 2 ^ 60"
  shows "unat (ALIGN_UP x (VRAM_CHUNK_SIZE E)) = (unat x + (chunk E - 1)) div chunk E * chunk E"
proof (cases "is_hip E \<and> \<not> is_win E")
  case True
  then show ?thesis using ALIGN_UP_nat [of x 21] assms by (simp add: VRAM_CHUNK_SIZE_def chunk_def)
next
  case False
  then show ?thesis using ALIGN_UP_nat [of x 24] assms by (auto simp: VRAM_CHUNK_SIZE_def chunk_def)
qed

text \<open>Pushing the next chunk keeps the buffer well formed: the array always has room.\<close>

definition next_chunk :: "env \<Rightarrow> vram_buffer \<Rightarrow> u64 \<Rightarrow> u64" where
  "next_chunk E buf grow_to =
     (if grow_to - vb_allocated buf > VRAM_CHUNK_SIZE E then VRAM_CHUNK_SIZE E else grow_to - vb_allocated buf)"

lemma push_handle_ok:
  assumes "buffer_ok E buf" "vb_allocated buf < grow_to" "grow_to \<le> vb_max_size buf"
    "grow_to = vb_max_size buf \<or> chunk E dvd unat grow_to"
  shows "\<exists>buf'. push_handle h (next_chunk E buf grow_to) buf = Some buf' \<and> buffer_ok E buf' \<and>
    buf' = buf\<lparr>vb_handles := vb_handles buf @ [h], vb_allocated := vb_allocated buf + next_chunk E buf grow_to\<rparr> \<and>
    unat (vb_allocated buf') = unat (vb_allocated buf) + unat (next_chunk E buf grow_to) \<and>
    unat (vb_allocated buf') = min (unat (vb_allocated buf) + chunk E) (unat grow_to) \<and> vb_allocated buf' \<le> grow_to"
proof -
  let ?a = "unat (vb_allocated buf)" and ?g = "unat grow_to" and ?c = "chunk E" and ?m = "unat (vb_max_size buf)"
  have c: "0 < ?c" using chunk_cases [of E] by auto
  have ag: "?a < ?g" "?g \<le> ?m" "?m < 2 ^ 60" using assms by (auto simp: word_less_nat_alt word_le_nat_alt buffer_ok_def)
  then have dvd: "?c dvd ?a" using assms(1) by (auto simp: buffer_ok_def)
  then obtain j where j: "?a = ?c * j" by blast
  have sub: "unat (grow_to - vb_allocated buf) = ?g - ?a" using assms(2) by (simp add: unat_sub less_imp_le)
  have n: "unat (next_chunk E buf grow_to) = min ?c (?g - ?a)"
    using sub by (auto simp: next_chunk_def word_less_nat_alt chunk_def)
  have new: "unat (vb_allocated buf + next_chunk E buf grow_to) = ?a + min ?c (?g - ?a)"
    using n ag by (subst unat_add_lem [THEN iffD1]) auto
  have len: "length (vb_handles buf) = j"
  proof -
    have "(?c * j + (?c - 1)) div ?c = j" using c by (intro div_nat_eqI) auto
    then show ?thesis using assms(1) j by (simp add: buffer_ok_def)
  qed
  have cap: "vb_capacity buf = 1 + ?m div ?c" using assms(1) handle_slots_nat [of "vb_max_size buf" E] by (simp add: buffer_ok_def)
  have "j \<le> ?m div ?c" using ag j c by (metis div_le_mono less_imp_le nonzero_mult_div_cancel_left not_gr0 order_trans)
  then have room: "length (vb_handles buf) < vb_capacity buf" using len cap by simp
  have count: "Suc j = (?a + min ?c (?g - ?a) + (?c - 1)) div ?c"
  proof -
    have "0 < min ?c (?g - ?a)" "min ?c (?g - ?a) \<le> ?c" using c ag by auto
    then have "(?c * j + min ?c (?g - ?a) + (?c - 1)) div ?c = Suc j" by (intro div_nat_eqI) auto
    then show ?thesis using j by simp
  qed
  have last_ok: "?a + min ?c (?g - ?a) = ?m \<or> ?c dvd ?a + min ?c (?g - ?a)"
    using assms(4) dvd ag by (auto simp: min_def)
  let ?buf = "buf\<lparr>vb_handles := vb_handles buf @ [h], vb_allocated := vb_allocated buf + next_chunk E buf grow_to\<rparr>"
  have "push_handle h (next_chunk E buf grow_to) buf = Some ?buf" using room by (simp add: push_handle_def)
  moreover have "buffer_ok E ?buf"
    using assms(1) new count len last_ok ag by (auto simp: buffer_ok_def word_le_nat_alt word_unat_eq_iff)
  moreover have "unat (vb_allocated ?buf) = ?a + unat (next_chunk E buf grow_to)" using new n by simp
  moreover have "unat (vb_allocated ?buf) = min (?a + ?c) ?g" 
  proof -
    have "?a + min ?c (?g - ?a) = min (?a + ?c) ?g" using ag by linarith
    moreover have "vb_allocated ?buf = vb_allocated buf + next_chunk E buf grow_to" by simp
    ultimately show ?thesis using new by (simp only:)
  qed
  moreover have "vb_allocated ?buf \<le> grow_to"
  proof -
    have "?a + min ?c (?g - ?a) \<le> ?g" using ag by linarith
    moreover have "vb_allocated ?buf = vb_allocated buf + next_chunk E buf grow_to" by simp
    ultimately show ?thesis using new by (simp only: word_le_nat_alt)
  qed
  ultimately show ?thesis by blast
qed

subsection \<open>Growing a buffer\<close>

text \<open>
  \<open>grown E b s t\<close>: only buffer \<open>b\<close> and the VBARs differ; the buffer is well formed, kept its
  handles and its place, and the bytes it gained are the bytes that were accounted.
\<close>

definition grown :: "env \<Rightarrow> nat \<Rightarrow> 'z astate_scheme \<Rightarrow> 'z astate_scheme \<Rightarrow> bool" where
  "grown E b s t \<longleftrightarrow> (\<exists>buf buf'. vram_bufs s b = Some buf \<and> vram_bufs t = (vram_bufs s)(b \<mapsto> buf') \<and>
     buffer_ok E buf' \<and> vb_base_ptr buf' = vb_base_ptr buf \<and> vb_max_size buf' = vb_max_size buf \<and>
     vb_device buf' = vb_device buf \<and> take (length (vb_handles buf)) (vb_handles buf') = vb_handles buf \<and>
     vb_allocated buf \<le> vb_allocated buf' \<and>
     beside E s (vb_allocated buf' - vb_allocated buf) (t\<lparr>vram_bufs := vram_bufs s\<rparr>))"

lemma beside_bufs: "beside E s n t \<Longrightarrow> beside E (s\<lparr>vram_bufs := B\<rparr>) n (t\<lparr>vram_bufs := B\<rparr>)"
  by (cases s; cases t) (auto simp: beside_def vinv_def graph_ok_def other_bytes_def owned_pages_def)

lemma grown_refl:
  assumes "vinv E s" "graph_ok s" "vram_bufs s b = Some buf" "buffer_ok E buf"
  shows "grown E b s s"
  using assms beside_refl [OF assms(1,2)] by (auto simp: grown_def intro!: exI [of _ buf])

lemma grown_beside:
  assumes "grown E b s t" "beside E t 0 u"
  shows "grown E b s u"
proof -
  have same: "vram_bufs u = vram_bufs t" using assms(2) by (intro more_astate) (simp add: beside_def)
  have "beside E (t\<lparr>vram_bufs := vram_bufs s\<rparr>) 0 (u\<lparr>vram_bufs := vram_bufs s\<rparr>)"
    by (rule beside_bufs [OF assms(2)])
  then show ?thesis using assms(1) same beside_trans by (fastforce simp: grown_def)
qed

text \<open>The bytes of a new chunk are accounted when it is mapped and recorded when it is pushed.\<close>

lemma grown_push:
  assumes "grown E b s t" "vram_bufs t b = Some buf" "beside E t n u" "buffer_ok E buf'"
    and new: "buf' = buf\<lparr>vb_handles := vb_handles buf @ [h], vb_allocated := vb_allocated buf + n\<rparr>"
    and sum: "unat (vb_allocated buf') = unat (vb_allocated buf) + unat n"
  shows "grown E b s (u\<lparr>vram_bufs := (vram_bufs u)(b \<mapsto> buf')\<rparr>)"
proof -
  obtain buf0 where buf0: "vram_bufs s b = Some buf0" "vram_bufs t = (vram_bufs s)(b \<mapsto> buf)"
    "vb_base_ptr buf = vb_base_ptr buf0" "vb_max_size buf = vb_max_size buf0" "vb_device buf = vb_device buf0"
    "take (length (vb_handles buf0)) (vb_handles buf) = vb_handles buf0" "vb_allocated buf0 \<le> vb_allocated buf"
    "beside E s (vb_allocated buf - vb_allocated buf0) (t\<lparr>vram_bufs := vram_bufs s\<rparr>)"
    using assms(1,2) by (auto simp: grown_def)
  have same: "vram_bufs u = vram_bufs t" using assms(3) by (intro more_astate) (simp add: beside_def)
  have "beside E s (vb_allocated buf' - vb_allocated buf0) (u\<lparr>vram_bufs := vram_bufs s\<rparr>)"
    using beside_trans [OF buf0(8) beside_bufs [OF assms(3)]] by (simp add: new algebra_simps)
  moreover have "vb_allocated buf0 \<le> vb_allocated buf'" using buf0(7) sum by (simp add: word_le_nat_alt)
  moreover have "length (vb_handles buf0) \<le> length (vb_handles buf)"
    using arg_cong [OF buf0(6), of length] by simp
  ultimately show ?thesis
    unfolding grown_def using buf0 same assms(4) new
    by (intro exI [of _ buf0] exI [of _ buf']) (simp add: )
qed

lemma wp_grow_chunk:
  assumes "vinv E s" "graph_ok s"
  shows "wp (grow_chunk E a n d s) (\<lambda>r t. beside E s (case r of None \<Rightarrow> 0 | Some _ \<Rightarrow> n) t \<and>
    (\<forall>h. r = Some h \<longrightarrow> mappings E (hist t) a = Some (n, h)))"
proof -
  let ?Q = "\<lambda>r u. beside E s (case r of None \<Rightarrow> 0 | Some _ \<Rightarrow> n) u \<and> (\<forall>h. r = Some h \<longrightarrow> mappings E (hist u) a = Some (n, h))"
  have again: "wp (three_stooges E a n d t) (\<lambda>r u. ?Q (case r of Inl _ \<Rightarrow> None | Inr h \<Rightarrow> Some h) u)"
    if "beside E s 0 t" for t
    by (rule wp_conseq [OF wp_three_stooges_beside [OF beside_inv [OF that]]])
      (auto dest: beside_trans [OF that] split: sum.splits)
  have free: "wp (vbars_free E k t) (\<lambda>ok u. (\<not> ok \<longrightarrow> ?Q None u) \<and>
      (ok \<longrightarrow> wp (three_stooges E a n d u) (\<lambda>r u. ?Q (case r of Inl _ \<Rightarrow> None | Inr h \<Rightarrow> Some h) u)))"
    if "beside E s 0 t" for t k
    by (rule wp_conseq [OF wp_vbars_free_beside [OF beside_inv [OF that]]])
      (use beside_trans [OF that] again in fastforce)
  show ?thesis
    unfolding grow_chunk_def wp_bind split_conv
    by (rule wp_conseq [OF wp_three_stooges_beside [OF assms]])
      (use free in \<open>auto split: sum.splits\<close>)
qed

lemma grow_step_eq:
  "grow_step E b grow_to () s = do {
     buf \<leftarrow> vram_bufs s b;
     if \<not> vb_allocated buf < grow_to then Some (Inr True, s)
     else do {
       (h, s) \<leftarrow> grow_chunk E (vb_base_ptr buf + vb_allocated buf) (next_chunk E buf grow_to) (vb_device buf) s;
       case h of
         None \<Rightarrow> Some (Inr False, s)
       | Some h \<Rightarrow> do {
           buf' \<leftarrow> vram_bufs s b;
           buf' \<leftarrow> push_handle h (next_chunk E buf grow_to) buf';
           Some (Inl (), s\<lparr>vram_bufs := (vram_bufs s)(b \<mapsto> buf')\<rparr>) } } }"
  unfolding grow_step_def next_chunk_def Let_def by (rule refl)

lemma fewer_chunks:
  assumes "a < g" "0 < (c :: nat)"
  shows "(g - min (a + c) g + (c - 1)) div c < (g - a + (c - 1)) div c"
proof (cases "g \<le> a + c")
  case True
  have "c div c \<le> (g - a + (c - 1)) div c" using assms by (intro div_le_mono) simp
  then show ?thesis using True assms(2) by (simp add: min_def)
next
  case False
  then have "g - a + (c - 1) = (g - (a + c) + (c - 1)) + c" by simp
  then have "(g - a + (c - 1)) div c = Suc ((g - (a + c) + (c - 1)) div c)"
    using div_add_self2 [of c "g - (a + c) + (c - 1)"] assms(2) by (simp only:)
  then show ?thesis using False by (simp add: min_def)
qed

text \<open>
  What the loop still has to do: no more steps than whole chunks that are missing, one for a
  partial chunk.
\<close>

definition missing :: "env \<Rightarrow> nat \<Rightarrow> u64 \<Rightarrow> 'z astate_scheme \<Rightarrow> nat" where
  "missing E b grow_to s = (case vram_bufs s b of None \<Rightarrow> 0
     | Some buf \<Rightarrow> (unat grow_to - unat (vb_allocated buf) + (chunk E - 1)) div chunk E)"

definition growing :: "env \<Rightarrow> nat \<Rightarrow> u64 \<Rightarrow> 'z astate_scheme \<Rightarrow> 'z astate_scheme \<Rightarrow> bool" where
  "growing E b grow_to s t \<longleftrightarrow> grown E b s t \<and> (\<exists>buf. vram_bufs t b = Some buf \<and> vb_allocated buf \<le> grow_to \<and>
     grow_to \<le> vb_max_size buf \<and> (grow_to = vb_max_size buf \<or> chunk E dvd unat grow_to))"

lemma wp_grow_step:
  assumes "growing E b grow_to s t"
  shows "wp (grow_step E b grow_to () t) (\<lambda>r u. case r of
      Inl _ \<Rightarrow> growing E b grow_to s u \<and> missing E b grow_to u < missing E b grow_to t
    | Inr ok \<Rightarrow> grown E b s u \<and> (ok \<longrightarrow> (\<exists>buf. vram_bufs u b = Some buf \<and> vb_allocated buf = grow_to)))"
proof -
  obtain buf where buf: "vram_bufs t b = Some buf" "vb_allocated buf \<le> grow_to" "grow_to \<le> vb_max_size buf"
    "grow_to = vb_max_size buf \<or> chunk E dvd unat grow_to" "grown E b s t" "buffer_ok E buf"
    using assms by (auto simp: growing_def grown_def)
  have inv: "vinv E t" "graph_ok t"
    using buf(5) by (auto simp: grown_def beside_def vinv_def graph_ok_def)
  show ?thesis
  proof (cases "vb_allocated buf < grow_to")
    case False
    then show ?thesis using buf by (auto simp: grow_step_eq)
  next
    case True
    have pushed: "growing E b grow_to s (u\<lparr>vram_bufs := (vram_bufs u)(b \<mapsto> buf')\<rparr>) \<and>
        missing E b grow_to (u\<lparr>vram_bufs := (vram_bufs u)(b \<mapsto> buf')\<rparr>) < missing E b grow_to t"
      if u: "beside E t (next_chunk E buf grow_to) u" and p: "push_handle h (next_chunk E buf grow_to) buf = Some buf'" for h u buf'
    proof -
      have p2: "buffer_ok E buf'" "buf' = buf\<lparr>vb_handles := vb_handles buf @ [h], vb_allocated := vb_allocated buf + next_chunk E buf grow_to\<rparr>"
        "unat (vb_allocated buf') = unat (vb_allocated buf) + unat (next_chunk E buf grow_to)"
        "unat (vb_allocated buf') = min (unat (vb_allocated buf) + chunk E) (unat grow_to)" "vb_allocated buf' \<le> grow_to"
        using push_handle_ok [OF buf(6) True buf(3,4), of h] p by auto
      have "grown E b s (u\<lparr>vram_bufs := (vram_bufs u)(b \<mapsto> buf')\<rparr>)"
        by (rule grown_push [OF buf(5,1) u p2(1-3)])
      moreover have "(unat grow_to - unat (vb_allocated buf') + (chunk E - 1)) div chunk E <
          (unat grow_to - unat (vb_allocated buf) + (chunk E - 1)) div chunk E"
        unfolding p2(4) by (rule fewer_chunks) (use True chunk_cases [of E] in \<open>auto simp: word_less_nat_alt\<close>)
      ultimately show ?thesis using buf p2 by (auto simp: growing_def missing_def)
    qed
    have room: "\<exists>buf'. push_handle h (next_chunk E buf grow_to) buf = Some buf'" for h
      using push_handle_ok [OF buf(6) True buf(3,4), of h] by blast
    have same: "vram_bufs u = vram_bufs t" if "beside E t n u" for n u
      using that by (intro more_astate) (simp add: beside_def)
    show ?thesis
      unfolding grow_step_eq buf(1) Option.bind.simps wp_bind
      using True apply simp
      apply (rule wp_conseq [OF wp_grow_chunk [OF inv]])
      subgoal for r u
        apply (cases r)
        using grown_beside [OF buf(5), of u] apply simp
        using same [of "next_chunk E buf grow_to" u] buf(1) room[of "the r"] pushed [of u "the r"] apply (auto simp: )
        done
      done
  qed
qed

definition grow_result :: "env \<Rightarrow> nat \<Rightarrow> u64 \<Rightarrow> 'z astate_scheme \<Rightarrow> bool \<Rightarrow> 'z astate_scheme \<Rightarrow> bool" where
  "grow_result E b required s ok t \<longleftrightarrow> grown E b s t \<and>
     (ok \<longrightarrow> (\<exists>buf. vram_bufs t b = Some buf \<and> required \<le> vb_allocated buf))"

lemma grow_target:
  assumes "required \<le> m" "unat m < 2 ^ 60" "0 < chunk E"
  defines "up \<equiv> ALIGN_UP required (VRAM_CHUNK_SIZE E)"
  defines "g \<equiv> if up > m then m else up"
  shows "required \<le> g" "g \<le> m" "g = m \<or> chunk E dvd unat g"
proof -
  have r: "unat required < 2 ^ 60" using assms(1,2) by (auto simp: word_le_nat_alt)
  have up: "unat up = (unat required + (chunk E - 1)) div chunk E * chunk E"
    unfolding up_def by (rule align_chunk [OF r])
  have "unat required \<le> unat up"
    unfolding up using div_mult_mod_eq [of "unat required + (chunk E - 1)" "chunk E"]
      mod_less_divisor [OF assms(3), of "unat required + (chunk E - 1)"] by linarith
  then show "required \<le> g" using assms(1) by (auto simp: g_def word_le_nat_alt)
  show "g \<le> m" by (auto simp: g_def)
  show "g = m \<or> chunk E dvd unat g" using up by (auto simp: g_def)
qed

lemma missing_bound:
  assumes "vram_bufs s b = Some buf" "vb_allocated buf \<le> g"
  shows "missing E b g s < unat ((g - vb_allocated buf) div VRAM_CHUNK_SIZE E) + 3"
proof -
  let ?n = "unat g - unat (vb_allocated buf)"
  have n: "unat ((g - vb_allocated buf) div VRAM_CHUNK_SIZE E) = ?n div chunk E"
    using assms(2) by (simp add: unat_div chunk_def unat_sub)
  have c: "0 < chunk E" using chunk_cases [of E] by auto
  have "(?n + (chunk E - 1)) div chunk E \<le> (?n + chunk E) div chunk E" by (rule div_le_mono) simp
  also have "\<dots> = ?n div chunk E + 1" using c by (intro div_add_self2) simp
  finally show ?thesis using n assms(1) by (simp add: missing_def)
qed

lemma wp_grow_loop:
  assumes "growing E b g s t" "vram_bufs t b = Some buf" "g' = g - vb_allocated buf" "required \<le> g"
  shows "wp (loop (unat (g' div VRAM_CHUNK_SIZE E) + 3) (grow_step E b g) () t)
    (\<lambda>ok u. grow_result E b required s ok u)"
proof (rule wp_loop [where I = "\<lambda>_ t. growing E b g s t" and m = "\<lambda>_ t. missing E b g t"])
  show "growing E b g s t" by (rule assms(1))
  show "missing E b g t < unat (g' div VRAM_CHUNK_SIZE E) + 3"
    unfolding assms(3) by (rule missing_bound [OF assms(2)]) (use assms(1,2) in \<open>auto simp: growing_def\<close>)
  have "wp (grow_step E b g () t) (\<lambda>r t'. case r of Inl a' \<Rightarrow> growing E b g s t' \<and> missing E b g t' < missing E b g t
      | Inr ok \<Rightarrow> grow_result E b required s ok t')" if "growing E b g s t" for t
    by (rule wp_conseq [OF wp_grow_step [OF that, unfolded One_nat_def]])
      (use assms(4) in \<open>auto simp: grow_result_def split: sum.splits\<close>)
  then show "wp (grow_step E b g a t) (\<lambda>r t'. case r of Inl a' \<Rightarrow> growing E b g s t' \<and> missing E b g t' < missing E b g t
      | Inr ok \<Rightarrow> grow_result E b required s ok t')" if "growing E b g s t" for a t
    using that by (cases a) simp
qed

lemma wp_vrambuf_grow:
  assumes "vinv E s" "graph_ok s" "vram_bufs s b = Some buf" "buffer_ok E buf"
  shows "wp (vrambuf_grow E (Some b) required s) (\<lambda>ok t. grow_result E b required s ok t)"
proof -
  let ?up = "ALIGN_UP required (VRAM_CHUNK_SIZE E)"
  obtain g where g_def: "g = (if ?up > vb_max_size buf then vb_max_size buf else ?up)" by blast
  note self = grown_refl [OF assms]
  have bufs: "vram_bufs t b = Some buf" if "beside E s 0 t" for t
    using that assms(3) more_astate(1) [of t s] by (simp add: beside_def)
  have start: "growing E b g s t \<and> vram_bufs t b = Some buf \<and> required \<le> g"
    if t: "beside E s 0 t" and req: "required \<le> vb_max_size buf" "\<not> required \<le> vb_allocated buf" for t
  proof -
    have c: "0 < chunk E" using chunk_cases [of E] by auto
    have "unat (vb_max_size buf) < 2 ^ 60" using assms(4) by (simp add: buffer_ok_def)
    note g = grow_target [OF req(1) this c, folded g_def]
    have "vb_allocated buf \<le> g" using g(1) req(2) by (metis linorder_not_le order_less_imp_le order_less_le_trans)
    then show ?thesis using grown_beside [OF self t] bufs [OF t] g by (auto simp: growing_def)
  qed
  have after: "wp (vbars_free E k t) (\<lambda>ok u. (\<not> ok \<longrightarrow> grow_result E b required s False u) \<and>
      (ok \<longrightarrow> wp (loop (unat ((g - vb_allocated buf) div VRAM_CHUNK_SIZE E) + 3) (grow_step E b g) () u)
         (\<lambda>ok u. grow_result E b required s ok u)))"
    if t: "beside E s 0 t" and req: "required \<le> vb_max_size buf" "\<not> required \<le> vb_allocated buf" for k t
  proof (rule wp_conseq [OF wp_vbars_free_beside [OF beside_inv [OF t]]], goal_cases)
    case (1 ok u)
    have u: "beside E s 0 u" using beside_trans [OF t 1] by simp
    show ?case
      using grown_beside [OF self u] wp_grow_loop [OF _ _ refl] start [OF u req] by (auto simp: grow_result_def)
  qed
  have main: "wp (budget_deficit E (g - vb_allocated buf) s) (\<lambda>d t. wp (vbars_free E d t) (\<lambda>ok u.
      (\<not> ok \<longrightarrow> grow_result E b required s False u) \<and>
      (ok \<longrightarrow> wp (loop (unat ((g - vb_allocated buf) div VRAM_CHUNK_SIZE E) + 3) (grow_step E b g) () u)
         (\<lambda>ok u. grow_result E b required s ok u))))"
    if "required \<le> vb_max_size buf" "\<not> required \<le> vb_allocated buf"
    by (rule wp_conseq [OF wp_budget_beside [OF assms(1,2)]]) (rule after [OF _ that])
  have early: "grow_result E b required s ok s" if "ok \<longrightarrow> required \<le> vb_allocated buf" for ok
    using self assms(3) that by (simp add: grow_result_def)
  show ?thesis
  proof (cases "set_devctx_for_device (vb_device buf) s \<and> required \<le> vb_max_size buf \<and> \<not> required \<le> vb_allocated buf")
    case True
    then show ?thesis
      using main unfolding vrambuf_grow_def Let_def option.case assms(3) Option.bind.simps g_def [symmetric]
      by (simp add: leD)
  next
    case False
    then consider "\<not> set_devctx_for_device (vb_device buf) s" | "set_devctx_for_device (vb_device buf) s" "required > vb_max_size buf"
      | "set_devctx_for_device (vb_device buf) s" "\<not> required > vb_max_size buf" "required \<le> vb_allocated buf" by force
    then show ?thesis using early assms(3) by cases (simp_all add: vrambuf_grow_def)
  qed
qed

text \<open>A grow of no buffer answers no, of a size beyond the reservation too; neither changes anything.\<close>

lemma vrambuf_grow_refuses:
  "vrambuf_grow E None required s = Some (False, s)"
  "vram_bufs s b = Some buf \<Longrightarrow> required > vb_max_size buf \<Longrightarrow> vrambuf_grow E (Some b) required s = Some (False, s)"
  by (simp_all add: vrambuf_grow_def)

end
