(* ===== verification/DemoAlloc.thy ===== *)
theory DemoAlloc
  imports Demo RogueInv VramBufInv
begin

text \<open>
  The state of \<open>Demo\<close> with the components above the VBARs: one virtual range with one physical
  page mapped in it, that address registered as a rogue candidate, and one empty VRAM buffer of
  two chunks.
\<close>

definition demo_allocation :: physical_allocation where
  "demo_allocation = \<lparr>pa_handle = 1, pa_bytes = 2097152, pa_refs = 1, pa_references = [1]\<rparr>"

definition demo_page :: physical_page where
  "demo_page = \<lparr>pp_allocation = 2, pp_address = 2 ^ 41\<rparr>"

definition demo_range :: virtual_range where
  "demo_range = \<lparr>vr_address = 2 ^ 41, vr_bytes = 8388608, vr_refs = 1\<rparr>"

definition demo_buffer :: vram_buffer where
  "demo_buffer = \<lparr>vb_base_ptr = 2 ^ 42, vb_max_size = 33554432, vb_allocated = 0, vb_handles = [],
     vb_capacity = handle_slots (happy_env True True) 33554432, vb_device = 0\<rparr>"

definition demo_astate :: astate where
  "demo_astate = rstate.extend (mstate.extend (vstate.extend (demo_state\<lparr>hist := [MemCreate 2097152 0]\<rparr>)
       (mstate.fields [0 \<mapsto> demo_range] [2 \<mapsto> demo_allocation] [1 \<mapsto> demo_page] 10))
       (rstate.fields [] Map.empty [\<lparr>rc_ptr = 2 ^ 41, rc_freed = False\<rparr>]))
     (astate.fields [3 \<mapsto> demo_buffer] [] (\<lambda>_. []) (\<lambda>_. []))"

lemma demo_astate_sel [simp]:
  "hist demo_astate = [MemCreate 2097152 0]" "allocations_lock_depth demo_astate = 0" "vranges demo_astate = [0 \<mapsto> demo_range]"
  "pallocs demo_astate = [2 \<mapsto> demo_allocation]" "ppages demo_astate = [1 \<mapsto> demo_page]" "mnext demo_astate = 10"
  "rogues demo_astate = []" "rogue_candidates demo_astate = [\<lparr>rc_ptr = 2 ^ 41, rc_freed = False\<rparr>]"
  "vram_bufs demo_astate = [3 \<mapsto> demo_buffer]" "device_id demo_astate = 0" "total_vram_usage demo_astate = 33554432"
  by (simp_all add: demo_astate_def demo_state_def demo_ctx_def astate.defs rstate.defs mstate.defs vstate.defs
      gstate.defs ctx.defs)

lemma demo_astate_pinv [simp]: "pinv demo_astate"
  by (simp add: pinv_def demo_allocation_def demo_page_def)

lemma demo_astate_vinv [simp]: "vinv E demo_astate"
  by (simp add: vinv_def vbar_ok_def demo_astate_def demo_state_def demo_ctx_def astate.defs rstate.defs mstate.defs
      vstate.defs gstate.defs ctx.defs)

lemma demo_astate_graph_ok [simp]: "graph_ok demo_astate"
  by (simp add: graph_ok_def demo_astate_def demo_state_def demo_ctx_def astate.defs rstate.defs mstate.defs
      vstate.defs gstate.defs ctx.defs)

lemma demo_phys_live [simp]: "phys_live (happy_env True True) demo_astate"
  by (simp add: phys_live_def demo_allocation_def happy_env_def happy_drv_def ok_call_def)

lemma demo_handoff_ready: "handoff_ready demo_astate 0 (2 ^ 41) [1] (2 ^ 41) 2097152"
  by (simp add: handoff_ready_def demo_range_def demo_allocation_def demo_page_def allocation_of_def first_page_address_def)

lemma demo_buffer_ok [simp]: "buffer_ok (happy_env True True) demo_buffer"
  by (simp add: buffer_ok_def demo_buffer_def chunk_def VRAM_CHUNK_SIZE_def handle_slots_def)

end
