(* ===== verification/GraphMap.thy ===== *)
theory GraphMap
  imports Rogue
begin

text \<open>
  The physical pages of an allocation graph (\<open>src/malloc-graph.c\<close>): creating one under memory
  pressure, mapping a new reference to one, and looking a page up.

  A graph is an address into \<open>graphs\<close>. \<open>active_graph\<close> is thread-local in the code: the state is
  what the calling thread sees, and its thread is an argument where the code compares owners.
  Sizes and offsets are natural numbers; where \<open>size_t\<close> arithmetic can wrap, the modulus is
  written out. A read of an array at a page number that a caller supplies is checked; events
  only hold page numbers that were checked when they were made.
\<close>

abbreviation MG_PAGE :: nat where "MG_PAGE \<equiv> 8388608"
abbreviation MG_PAGES :: nat where "MG_PAGES \<equiv> 8192"
abbreviation MG_SMALL_PAGES :: nat where "MG_SMALL_PAGES \<equiv> 1024"
abbreviation MG_SMALL_LIMIT :: nat where "MG_SMALL_LIMIT \<equiv> 4194304"
abbreviation MG_SMALL_ALIGN :: nat where "MG_SMALL_ALIGN \<equiv> 4096"
abbreviation SIZE_MAX :: nat where "SIZE_MAX \<equiv> 18446744073709551615"

text \<open>\<open>ALIGN_UP\<close> of a \<open>size_t\<close> to a power of two.\<close>

definition align_up :: "nat \<Rightarrow> nat \<Rightarrow> nat" where
  "align_up n a = (n + (a - 1)) mod 2 ^ 64 div a * a"

text \<open>Subtraction of \<open>size_t\<close> values.\<close>

definition sub_size :: "nat \<Rightarrow> nat \<Rightarrow> nat" where
  "sub_size a b = (if b \<le> a then a - b else a + 2 ^ 64 - b)"

definition pages_of :: "nat \<Rightarrow> nat" where
  "pages_of bytes = align_up bytes MG_PAGE div MG_PAGE"

definition set_graph :: "nat \<Rightarrow> malloc_graph \<Rightarrow> 'z gstate_scheme \<Rightarrow> 'z gstate_scheme" where
  "set_graph g mg s = s\<lparr>graphs := (graphs s)(g \<mapsto> mg)\<rparr>"

text \<open>\<open>RETURN_G_FAILED\<close>: the graph is marked failed.\<close>

definition fail_graph :: "nat \<Rightarrow> 'z gstate_scheme \<Rightarrow> 'z gstate_scheme option" where
  "fail_graph g s = do { mg \<leftarrow> graphs s g; Some (set_graph g (mg\<lparr>mg_failed := True\<rparr>) s) }"

text \<open>The first field of a frame that is the current one; a graph without frames is undefined.\<close>

definition top_frame :: "malloc_graph \<Rightarrow> graph_frame option" where
  "top_frame mg = (case mg_state mg of [] \<Rightarrow> None | f # _ \<Rightarrow> Some f)"

definition map_top :: "(graph_frame \<Rightarrow> graph_frame) \<Rightarrow> malloc_graph \<Rightarrow> malloc_graph" where
  "map_top h mg = mg\<lparr>mg_state := (case mg_state mg of [] \<Rightarrow> [] | f # fs \<Rightarrow> h f # fs)\<rparr>"

definition graph_base :: "malloc_graph \<Rightarrow> 'z mstate_scheme \<Rightarrow> u64 option" where
  "graph_base mg s = do { r \<leftarrow> mg_base mg; virtual_range_get r s }"

definition graph_small_base :: "malloc_graph \<Rightarrow> 'z mstate_scheme \<Rightarrow> u64 option" where
  "graph_small_base mg s = do { r \<leftarrow> mg_small_base mg; virtual_range_get r s }"

definition page_address :: "malloc_graph \<Rightarrow> nat \<Rightarrow> 'z mstate_scheme \<Rightarrow> u64 option" where
  "page_address mg va s = do { b \<leftarrow> graph_base mg s; Some (b + of_nat (va * MG_PAGE)) }"

text \<open>The physical page behind a virtual page: \<open>va_phys\<close> is -1 where nothing was ever mapped.\<close>

definition phys_of :: "malloc_graph \<Rightarrow> nat \<Rightarrow> nat option" where
  "phys_of mg va = (if va < MG_PAGES \<and> 0 \<le> mg_va_phys mg va then Some (nat (mg_va_phys mg va)) else None)"

subsection \<open>Creating a page\<close>

definition alloc_graph_page :: "env \<Rightarrow> nat \<Rightarrow> 'z mstate_scheme \<Rightarrow> ((int + nat) \<times> 'z mstate_scheme) option" where
  "alloc_graph_page E g s = do {
     mg \<leftarrow> graphs s g;
     if is_xpu E \<and> mg_test_page_create_oom_attempts mg \<noteq> 0
     then Some (Inl CUDA_ERROR_OUT_OF_MEMORY,
       set_graph g (mg\<lparr>mg_test_page_create_oom_attempts := mg_test_page_create_oom_attempts mg - 1\<rparr>) s)
     else physical_page_alloc E (of_nat MG_PAGE) (mg_device mg) s }"

definition free_vbars_for_graph_allocation :: "env \<Rightarrow> int \<Rightarrow> 'z vstate_scheme \<Rightarrow> (bool \<times> 'z vstate_scheme) option" where
  "free_vbars_for_graph_allocation E n s = (if is_xpu E then vbars_free_for_allocator E n s else vbars_free E n s)"

definition note_driver_error :: "env \<Rightarrow> int \<Rightarrow> 'z gstate_scheme \<Rightarrow> 'z gstate_scheme" where
  "note_driver_error E r s = (if is_xpu E \<and> r \<noteq> CUDA_SUCCESS then s\<lparr>last_allocation_driver_error := r\<rparr> else s)"

definition malloc_graph_last_allocation_driver_error :: "'z gstate_scheme \<Rightarrow> int" where
  "malloc_graph_last_allocation_driver_error s = last_allocation_driver_error s"

text \<open>\<open>create_page\<close>: the error, or the new page that the caller stores.\<close>

definition create_page_end :: "env \<Rightarrow> (int + nat) \<Rightarrow> 'z gstate_scheme \<Rightarrow> ((int + nat) \<times> 'z gstate_scheme) option" where
  "create_page_end E r s = Some (r, case r of Inl e \<Rightarrow> note_driver_error E e s | Inr _ \<Rightarrow> s)"

definition create_page :: "env \<Rightarrow> nat \<Rightarrow> 'z mstate_scheme \<Rightarrow> ((int + nat) \<times> 'z mstate_scheme) option" where
  "create_page E g s = do {
     (deficit, s) \<leftarrow> budget_deficit E (of_nat MG_PAGE) s;
     (ok, s) \<leftarrow> free_vbars_for_graph_allocation E deficit s;
     if \<not> ok then Some (Inl CUDA_ERROR_UNKNOWN, s)
     else do {
       (r, s) \<leftarrow> alloc_graph_page E g s;
       if r = Inl CUDA_ERROR_OUT_OF_MEMORY then do {
         (ok, s) \<leftarrow> free_vbars_for_graph_allocation E (int MG_PAGE) s;
         if \<not> ok then Some (Inl CUDA_ERROR_UNKNOWN, s)
         else do {
           (r, s) \<leftarrow> alloc_graph_page E g s;
           create_page_end E r s } }
       else create_page_end E r s } }"

subsection \<open>Mapping a reference\<close>

definition set_page_address :: "nat \<Rightarrow> u64 \<Rightarrow> 'z mstate_scheme \<Rightarrow> 'z mstate_scheme option" where
  "set_page_address p address s = do {
     pg \<leftarrow> ppages s p; Some (s\<lparr>ppages := (ppages s)(p \<mapsto> pg\<lparr>pp_address := address\<rparr>)\<rparr>) }"

definition map_reference :: "env \<Rightarrow> nat \<Rightarrow> u64 \<Rightarrow> nat \<Rightarrow> 'z mstate_scheme \<Rightarrow> ((int + nat) \<times> 'z mstate_scheme) option" where
  "map_reference E g address page s = do {
     (r, s) \<leftarrow> physical_page_ref E page 0 s;
     case r of
       None \<Rightarrow> Some (Inl CUDA_ERROR_OUT_OF_MEMORY, s)
     | Some reference \<Rightarrow> do {
         h \<leftarrow> physical_page_get page s;
         mg \<leftarrow> graphs s g;
         (m, s) \<leftarrow> ask E (MemMap address (of_nat MG_PAGE) h) s;
         (result, s) \<leftarrow> (if r_rc m = CUDA_SUCCESS then do {
              s \<leftarrow> set_page_address reference address s;
              (a, s) \<leftarrow> ask E (MemSetAccess address (of_nat MG_PAGE) (mg_device mg)) s;
              Some (r_rc a, s) }
            else Some (r_rc m, s));
         if result \<noteq> CUDA_SUCCESS then do {
           (_, s) \<leftarrow> physical_page_unref E (Some reference) (note_driver_error E result s);
           Some (Inl result, s) }
         else Some (Inr reference, s) } }"

definition set_mapped_page :: "nat \<Rightarrow> nat \<Rightarrow> nat option \<Rightarrow> 'z gstate_scheme \<Rightarrow> 'z gstate_scheme option" where
  "set_mapped_page g va m s = do {
     mg \<leftarrow> graphs s g;
     if va < MG_PAGES then Some (set_graph g (mg\<lparr>mg_mapped_pages := (mg_mapped_pages mg)(va := m)\<rparr>) s) else None }"

text \<open>\<open>map_page\<close>: 0, or the error that stopped it.\<close>

definition grow_phys :: "env \<Rightarrow> nat \<Rightarrow> nat \<Rightarrow> 'z mstate_scheme \<Rightarrow> (int \<times> 'z mstate_scheme) option" where
  "grow_phys E g phys s = do {
     mg \<leftarrow> graphs s g;
     if phys \<noteq> mg_phys_count mg then Some (CUDA_SUCCESS, s)
     else do {
       (r, s) \<leftarrow> create_page E g s;
       case r of
         Inl err \<Rightarrow> Some (err, s)
       | Inr page \<Rightarrow> do {
           mg \<leftarrow> graphs s g;
           if phys < MG_PAGES then Some (CUDA_SUCCESS, set_graph g
             (mg\<lparr>mg_physical_pages := (mg_physical_pages mg)(phys \<mapsto> page), mg_phys_count := mg_phys_count mg + 1\<rparr>) s)
           else None } } }"

definition map_page :: "env \<Rightarrow> nat \<Rightarrow> nat \<Rightarrow> nat \<Rightarrow> 'z mstate_scheme \<Rightarrow> (int \<times> 'z mstate_scheme) option" where
  "map_page E g va phys s = do {
     mg \<leftarrow> graphs s g;
     addr \<leftarrow> page_address mg va s;
     (r, s) \<leftarrow> grow_phys E g phys s;
     if r \<noteq> CUDA_SUCCESS then Some (r, s)
     else do {
       mg \<leftarrow> graphs s g;
       page \<leftarrow> mg_physical_pages mg phys;
       (m, s) \<leftarrow> map_reference E g addr page s;
       case m of
         Inl err \<Rightarrow> Some (err, s)
       | Inr reference \<Rightarrow> do {
           s \<leftarrow> set_mapped_page g va (Some reference) s;
           mg \<leftarrow> graphs s g;
           Some (CUDA_SUCCESS, set_graph g (mg\<lparr>mg_va_phys := (mg_va_phys mg)(va := int phys)\<rparr>) s) } } }"

end
