(* ===== verification/GraphEvent.thy ===== *)
theory GraphEvent
  imports GraphMap
begin

text \<open>
  The event tree of an allocation graph (\<open>src/malloc-graph.c\<close>): matching, recording and severing
  events, the allocations a frame tracks, and the rogue candidates. A function that only fails by
  running out of memory answers \<open>False\<close> or \<open>None\<close> and marks the graph failed.
\<close>

subsection \<open>Candidates\<close>

definition is_small :: "event \<Rightarrow> bool" where
  "is_small e \<longleftrightarrow> ev_type e = EV_ALLOC_SMALL"

definition candidate_ptr :: "malloc_graph \<Rightarrow> event \<Rightarrow> 'z mstate_scheme \<Rightarrow> u64 option" where
  "candidate_ptr mg c s = do {
     base \<leftarrow> (if is_small c then graph_small_base mg s else graph_base mg s);
     Some (base + of_nat (ev_value c) * (if is_small c then 1 else of_nat MG_PAGE)) }"

definition candidate_freed :: "env \<Rightarrow> malloc_graph \<Rightarrow> nat \<Rightarrow> 'z rstate_scheme \<Rightarrow> (bool \<times> 'z rstate_scheme) option" where
  "candidate_freed E mg c s = do {
     e \<leftarrow> mg_events mg c;
     ptr \<leftarrow> candidate_ptr mg e s;
     rogue_candidate_freed E ptr s }"

definition graph_failed :: "env \<Rightarrow> nat \<Rightarrow> 'z rstate_scheme \<Rightarrow> (bool \<times> 'z rstate_scheme) option" where
  "graph_failed E g s = do {
     mg \<leftarrow> graphs s g;
     (r, s) \<leftarrow> foreach (\<lambda>c _ s. do {
          (freed, s) \<leftarrow> candidate_freed E mg c s;
          Some (if freed then Inr () else Inl () :: unit + unit, s) }) (mg_rogue_candidates mg) () s;
     s \<leftarrow> (case r of Inr _ \<Rightarrow> fail_graph g s | Inl _ \<Rightarrow> Some s);
     mg \<leftarrow> graphs s g;
     Some (mg_failed mg, s) }"

definition is_rogue_candidate :: "malloc_graph \<Rightarrow> nat \<Rightarrow> bool" where
  "is_rogue_candidate mg e \<longleftrightarrow> e \<in> set (mg_rogue_candidates mg)"

definition rogue_phys :: "malloc_graph \<Rightarrow> int \<Rightarrow> bool option" where
  "rogue_phys mg phys = do {
     r \<leftarrow> find_at (mg_events mg) (\<lambda>c. ev_type c = EV_ALLOC \<and>
       list_ex (\<lambda>i. mg_va_phys mg (ev_value c + i) = phys) [0..<pages_of (ev_bytes c)]) (mg_rogue_candidates mg);
     Some (r \<noteq> None) }"

definition rogue_va_candidate :: "malloc_graph \<Rightarrow> nat \<Rightarrow> bool option" where
  "rogue_va_candidate mg va = do {
     r \<leftarrow> find_at (mg_events mg) (\<lambda>c. ev_type c = EV_ALLOC \<and>
       ev_value c \<le> va \<and> va < ev_value c + pages_of (ev_bytes c)) (mg_rogue_candidates mg);
     Some (r \<noteq> None) }"

text \<open>
  \<open>rogue_va\<close>: whether the virtual page is taken by a rogue. A black hole whose rogue has been freed
  since is mapped again first. \<open>restore_black_hole\<close> answers whether that failed.
\<close>

definition restore_black_hole :: "env \<Rightarrow> nat \<Rightarrow> nat \<Rightarrow> 'z rstate_scheme \<Rightarrow> (bool \<times> 'z rstate_scheme) option" where
  "restore_black_hole E g va s = do {
     mg \<leftarrow> graphs s g;
     addr \<leftarrow> page_address mg va s;
     phys \<leftarrow> phys_of mg va;
     page \<leftarrow> mg_physical_pages mg phys;
     (m, s) \<leftarrow> map_reference E g addr page s;
     case m of
       Inl _ \<Rightarrow> do { s \<leftarrow> fail_graph g s; Some (True, s) }
     | Inr reference \<Rightarrow> do {
         s \<leftarrow> set_mapped_page g va (Some reference) s;
         mg \<leftarrow> graphs s g;
         Some (False, set_graph g (mg\<lparr>mg_black_holes := (mg_black_holes mg)(va := 0)\<rparr>) s) } }"

definition rogue_va :: "env \<Rightarrow> nat \<Rightarrow> nat \<Rightarrow> 'z rstate_scheme \<Rightarrow> (bool \<times> 'z rstate_scheme) option" where
  "rogue_va E g va s = do {
     mg \<leftarrow> graphs s g;
     if \<not> va < MG_PAGES then None
     else do {
       let ptr = mg_black_holes mg va;
       (exists, s) \<leftarrow> (if ptr \<noteq> 0 then rogue_exists E ptr s else Some (False, s));
       if exists then Some (True, s)
       else do {
         (failed, s) \<leftarrow> (if ptr \<noteq> 0 then restore_black_hole E g va s else Some (False, s));
         if failed then Some (True, s)
         else do {
           mg \<leftarrow> graphs s g;
           r \<leftarrow> rogue_va_candidate mg va;
           Some (r, s) } } } }"

subsection \<open>Small ranges that cannot be used\<close>

definition prune_small_unusable :: "env \<Rightarrow> nat \<Rightarrow> 'z rstate_scheme \<Rightarrow> (unit \<times> 'z rstate_scheme) option" where
  "prune_small_unusable E g s = do {
     mg \<leftarrow> graphs s g;
     (r, s) \<leftarrow> foreach (\<lambda>rng kept s. do {
          (exists, s) \<leftarrow> rogue_exists E (sr_rogue_ptr rng) s;
          Some (Inl (if exists then kept @ [rng] else kept) :: small_range list + unit, s) }) (mg_small_unusable mg) [] s;
     mg \<leftarrow> graphs s g;
     Some ((), case r of Inl kept \<Rightarrow> set_graph g (mg\<lparr>mg_small_unusable := kept\<rparr>) s | Inr _ \<Rightarrow> s) }"

text \<open>The page-aligned interval that a small candidate makes unusable: its start and end.\<close>

definition candidate_first :: "event \<Rightarrow> nat" where
  "candidate_first c = ev_value c div MG_PAGE * MG_PAGE"

definition candidate_end :: "event \<Rightarrow> nat" where
  "candidate_end c = align_up (ev_value c + ev_bytes c) MG_PAGE"

definition small_unavailable :: "env \<Rightarrow> nat \<Rightarrow> nat \<Rightarrow> nat \<Rightarrow> 'z rstate_scheme \<Rightarrow> (bool \<times> 'z rstate_scheme) option" where
  "small_unavailable E g offset bytes s = do {
     (_, s) \<leftarrow> prune_small_unusable E g s;
     mg \<leftarrow> graphs s g;
     if list_ex (\<lambda>rng. offset < sr_offset rng + sr_bytes rng \<and> sr_offset rng < offset + bytes) (mg_small_unusable mg)
     then Some (True, s)
     else do {
       (r, s) \<leftarrow> foreach (\<lambda>c _ s. do {
            e \<leftarrow> mg_events mg c;
            (freed, s) \<leftarrow> candidate_freed E mg c s;
            Some (if \<not> freed \<and> is_small e \<and> offset < candidate_end e \<and> candidate_first e < offset + bytes
                  then Inr () else Inl () :: unit + unit, s) }) (mg_rogue_candidates mg) () s;
       Some (case r of Inl _ \<Rightarrow> False | Inr _ \<Rightarrow> True, s) } }"

subsection \<open>The tree\<close>

definition append_event :: "env \<Rightarrow> nat \<Rightarrow> nat \<Rightarrow> nat \<Rightarrow> 'z rstate_scheme \<Rightarrow> (bool \<times> 'z rstate_scheme) option" where
  "append_event E g parent ev s = do {
     (ok, s) \<leftarrow> host_alloc E s;
     if \<not> ok then do { s \<leftarrow> fail_graph g s; Some (False, s) }
     else do {
       mg \<leftarrow> graphs s g;
       p \<leftarrow> mg_events mg parent;
       let evs = (mg_events mg)(parent \<mapsto> p\<lparr>ev_next := ev_next p @ [ev]\<rparr>);
       e \<leftarrow> evs ev;
       Some (True, set_graph g (mg\<lparr>mg_events := evs(ev \<mapsto> e\<lparr>ev_previous := Some parent\<rparr>)\<rparr>) s) } }"

definition zero_event :: event where
  "zero_event = \<lparr>ev_type = EV_SENTINEL, ev_value = 0, ev_bytes = 0, ev_scope = None, ev_name = [], ev_next = [],
     ev_previous = None, ev_rogue_owned = False, ev_freed_out_of_scope = False, ev_snapshot = None,
     ev_small_snapshot = []\<rparr>"

text \<open>\<open>event\<close>: a new event below the cursor, which moves to it.\<close>

definition event :: "env \<Rightarrow> nat \<Rightarrow> event_type \<Rightarrow> nat \<Rightarrow> nat \<Rightarrow> 'z rstate_scheme \<Rightarrow> (nat option \<times> 'z rstate_scheme) option" where
  "event E g type val n s = do {
     (ok, s) \<leftarrow> host_alloc E s;
     if \<not> ok then do { s \<leftarrow> fail_graph g s; Some (None, s) }
     else do {
       mg \<leftarrow> graphs s g;
       f \<leftarrow> top_frame mg;
       let ev = mnext s;
       let s = set_graph g (mg\<lparr>mg_events := (mg_events mg)(ev \<mapsto> zero_event\<lparr>ev_type := type, ev_value := val, ev_bytes := n\<rparr>)\<rparr>)
                 (s\<lparr>mnext := Suc (mnext s)\<rparr>);
       (ok, s) \<leftarrow> append_event E g (fr_cursor f) ev s;
       mg \<leftarrow> graphs s g;
       if \<not> ok then Some (None, set_graph g (mg\<lparr>mg_events := (mg_events mg)(ev := None)\<rparr>) s)
       else Some (Some ev, set_graph g (map_top (\<lambda>f. f\<lparr>fr_cursor := ev\<rparr>) mg) s) } }"

definition track_allocation :: "nat \<Rightarrow> malloc_graph \<Rightarrow> malloc_graph" where
  "track_allocation ev = map_top (\<lambda>f. f\<lparr>fr_allocations := ev # fr_allocations f\<rparr>)"

text \<open>\<open>untrack_allocation\<close>: \<open>None\<close> when the event is not tracked by the current frame.\<close>

definition untrack_allocation :: "nat option \<Rightarrow> malloc_graph \<Rightarrow> malloc_graph option" where
  "untrack_allocation ev mg = (case (ev, mg_state mg) of
      (Some e, f # _) \<Rightarrow> if e \<in> set (fr_allocations f)
         then Some (map_top (\<lambda>f. f\<lparr>fr_allocations := remove1 e (fr_allocations f)\<rparr>) mg) else None
    | _ \<Rightarrow> None)"

text \<open>\<open>sever_event\<close>: the children of the event take its place below its parent.\<close>

definition splice :: "nat \<Rightarrow> nat list \<Rightarrow> nat list \<Rightarrow> nat list" where
  "splice ev children xs = concat (map (\<lambda>x. if x = ev then children else [x]) xs)"

fun reparent :: "nat \<Rightarrow> nat list \<Rightarrow> (nat \<rightharpoonup> event) \<Rightarrow> (nat \<rightharpoonup> event) option" where
  "reparent parent [] evs = Some evs"
| "reparent parent (c # cs) evs = do {
     e \<leftarrow> evs c;
     reparent parent cs (evs(c \<mapsto> e\<lparr>ev_previous := Some parent\<rparr>)) }"

definition sever_graph :: "nat \<Rightarrow> malloc_graph \<Rightarrow> malloc_graph option" where
  "sever_graph ev mg = do {
     e \<leftarrow> mg_events mg ev;
     parent \<leftarrow> ev_previous e;
     evs \<leftarrow> reparent parent (ev_next e) (mg_events mg);
     p \<leftarrow> evs parent;
     let evs = evs(parent \<mapsto> p\<lparr>ev_next := splice ev (ev_next e) (ev_next p)\<rparr>);
     let mg = map_top (\<lambda>f. if fr_cursor f = ev then f\<lparr>fr_cursor := parent\<rparr> else f) mg;
     e \<leftarrow> evs ev;
     Some (mg\<lparr>mg_events := evs(ev \<mapsto> e\<lparr>ev_next := [], ev_previous := None\<rparr>)\<rparr>) }"

definition sever_event :: "env \<Rightarrow> nat \<Rightarrow> nat \<Rightarrow> 'z rstate_scheme \<Rightarrow> (bool \<times> 'z rstate_scheme) option" where
  "sever_event E g ev s = do {
     mg \<leftarrow> graphs s g;
     e \<leftarrow> mg_events mg ev;
     parent \<leftarrow> ev_previous e;
     p \<leftarrow> mg_events mg parent;
     let count = length (ev_next p) + length (ev_next e) - 1;
     (ok, s) \<leftarrow> (if count \<noteq> 0 then host_alloc E s else Some (True, s));
     if \<not> ok then do { s \<leftarrow> fail_graph g s; Some (False, s) }
     else do {
       mg \<leftarrow> sever_graph ev mg;
       Some (True, set_graph g mg s) } }"

subsection \<open>Matching\<close>

text \<open>Whether an event has the type and the arguments asked for.\<close>

definition event_matches :: "event_type \<Rightarrow> nat \<Rightarrow> nat \<Rightarrow> string \<Rightarrow> event \<Rightarrow> bool" where
  "event_matches type val n name e \<longleftrightarrow> ev_type e = type \<and>
     (if type = EV_CALL then ev_name e = name else ev_bytes e = n) \<and>
     (type = EV_FREE \<or> type = EV_FREE_SMALL \<longrightarrow> ev_value e = val)"

text \<open>Whether a rogue holds a page of the allocation \<open>e\<close>, in the virtual range or behind it.\<close>

definition page_taken :: "env \<Rightarrow> nat \<Rightarrow> nat \<Rightarrow> 'z rstate_scheme \<Rightarrow> (bool \<times> 'z rstate_scheme) option" where
  "page_taken E g va s = do {
     (r, s) \<leftarrow> rogue_va E g va s;
     if r then Some (True, s)
     else do {
       mg \<leftarrow> graphs s g;
       r \<leftarrow> rogue_phys mg (mg_va_phys mg va);
       Some (r, s) } }"

definition large_taken :: "env \<Rightarrow> nat \<Rightarrow> event \<Rightarrow> 'z rstate_scheme \<Rightarrow> (bool \<times> 'z rstate_scheme) option" where
  "large_taken E g e s = do {
     (r, s) \<leftarrow> foreach (\<lambda>i _ s. do {
          (t, s) \<leftarrow> page_taken E g (ev_value e + i) s;
          Some (if t then Inr () else Inl () :: unit + unit, s) }) [0..<pages_of (ev_bytes e)] () s;
     Some (case r of Inl _ \<Rightarrow> False | Inr _ \<Rightarrow> True, s) }"

definition event_taken :: "env \<Rightarrow> nat \<Rightarrow> event \<Rightarrow> 'z rstate_scheme \<Rightarrow> (bool \<times> 'z rstate_scheme) option" where
  "event_taken E g e s =
     (if ev_type e = EV_ALLOC then large_taken E g e s
      else if ev_type e = EV_ALLOC_SMALL then small_unavailable E g (ev_value e) (align_up (ev_bytes e) MG_SMALL_ALIGN) s
      else Some (False, s))"

definition find_event ::
  "env \<Rightarrow> nat \<Rightarrow> event_type \<Rightarrow> nat \<Rightarrow> nat \<Rightarrow> string \<Rightarrow> 'z rstate_scheme \<Rightarrow> (nat option \<times> 'z rstate_scheme) option" where
  "find_event E g type val n name s = do {
     mg \<leftarrow> graphs s g;
     f \<leftarrow> top_frame mg;
     cursor \<leftarrow> mg_events mg (fr_cursor f);
     (r, s) \<leftarrow> foreach (\<lambda>ev _ s. do {
          mg \<leftarrow> graphs s g;
          e \<leftarrow> mg_events mg ev;
          if \<not> event_matches type val n name e then Some (Inl (), s)
          else do {
            (taken, s) \<leftarrow> event_taken E g e s;
            Some (if taken then Inl () else Inr ev, s) } }) (ev_next cursor) () s;
     Some (case r of Inl _ \<Rightarrow> None | Inr ev \<Rightarrow> Some ev, s) }"

subsection \<open>Allocations that outlive their frame\<close>

text \<open>
  \<open>collect_rogue_candidates\<close>: each allocation the frame still tracks is registered as a candidate,
  leaves the tree and joins the candidates of the graph. One that was already freed from another
  scope is freed again, now as a candidate. (When it fails half way the links of the list are left
  mixed with those of the candidates; a failed graph rebuilds the list before it reads it.)
\<close>

definition drop_candidate :: "env \<Rightarrow> nat \<Rightarrow> u64 \<Rightarrow> 'z rstate_scheme \<Rightarrow> ((unit + unit) \<times> 'z rstate_scheme) option" where
  "drop_candidate E g pointer s = do {
     (_, s) \<leftarrow> unregister_rogue_candidate E pointer s;
     s \<leftarrow> fail_graph g s;
     Some (Inr (), s) }"

definition collect_step :: "env \<Rightarrow> nat \<Rightarrow> nat \<Rightarrow> unit \<Rightarrow> 'z rstate_scheme \<Rightarrow> ((unit + unit) \<times> 'z rstate_scheme) option" where
  "collect_step E g ev = (\<lambda>_ s. do {
     mg \<leftarrow> graphs s g;
     e \<leftarrow> mg_events mg ev;
     pointer \<leftarrow> candidate_ptr mg e s;
     (ok, s) \<leftarrow> register_rogue_candidate E pointer s;
     if \<not> ok then do { s \<leftarrow> fail_graph g s; Some (Inr (), s) }
     else do {
       (freed, s) \<leftarrow> (if ev_freed_out_of_scope e
          then do { (r, s) \<leftarrow> free_rogue E pointer s; Some (r = Some CUDA_SUCCESS, s) }
          else Some (True, s));
       if \<not> freed then drop_candidate E g pointer s
       else do {
         (ok, s) \<leftarrow> sever_event E g ev s;
         if \<not> ok then drop_candidate E g pointer s
         else do {
           mg \<leftarrow> graphs s g;
           Some (Inl (), set_graph g (mg\<lparr>mg_rogue_candidates := ev # mg_rogue_candidates mg,
                                         mg_rogue_count := mg_rogue_count mg + 1\<rparr>) s) } } } })"

definition collect_rogue_candidates :: "env \<Rightarrow> nat \<Rightarrow> 'z rstate_scheme \<Rightarrow> (bool \<times> 'z rstate_scheme) option" where
  "collect_rogue_candidates E g s = do {
     mg \<leftarrow> graphs s g;
     f \<leftarrow> top_frame mg;
     (r, s) \<leftarrow> foreach (collect_step E g) (fr_allocations f) () s;
     case r of
       Inr _ \<Rightarrow> Some (False, s)
     | Inl _ \<Rightarrow> do {
         mg \<leftarrow> graphs s g;
         Some (True, set_graph g (map_top (\<lambda>f. f\<lparr>fr_allocations := []\<rparr>) mg) s) } }"

end
