(* ===== verification/GraphReplay.thy ===== *)
theory GraphReplay
  imports GraphEvent
begin

text \<open>
  Replaying events (\<open>src/malloc-graph.c\<close>): what an allocation or a free does to the allocation
  state, rebuilding the state at a cursor from the last snapshot, scrubbing candidates out of it,
  and the stack of frames.
\<close>

definition add_used :: "nat \<Rightarrow> malloc_graph \<Rightarrow> malloc_graph" where
  "add_used bytes mg = mg\<lparr>mg_used := mg_used mg + bytes, mg_peak_used := max (mg_peak_used mg) (mg_used mg + bytes)\<rparr>"

definition allocation_used :: "malloc_graph \<Rightarrow> nat" where
  "allocation_used mg =
     MG_PAGE * count_if (physical_live (mg_allocations mg)) [0..<mg_phys_count mg] +
     sum_list (map sr_bytes (mg_small_ranges mg))"

definition zero_page :: virtual_page where
  "zero_page = \<lparr>va_span = 0, owner_depth = 0, vp_allocation = None\<rparr>"

text \<open>
  Marking the physical pages of the virtual pages \<open>va\<close>, \<dots> live or free. A page that was never
  mapped has no physical page: undefined.
\<close>

fun set_live :: "bool \<Rightarrow> malloc_graph \<Rightarrow> nat list \<Rightarrow> (nat \<Rightarrow> bool) \<Rightarrow> (nat \<Rightarrow> bool) option" where
  "set_live b mg [] live = Some live"
| "set_live b mg (va # vas) live = do { p \<leftarrow> phys_of mg va; set_live b mg vas (live(p := b)) }"

definition set_virtual_page :: "nat \<Rightarrow> virtual_page \<Rightarrow> malloc_graph \<Rightarrow> malloc_graph" where
  "set_virtual_page va vp mg = mg\<lparr>mg_allocations :=
     (mg_allocations mg)\<lparr>virtual_pages := (virtual_pages (mg_allocations mg))(va := vp)\<rparr>\<rparr>"

definition set_span_live :: "bool \<Rightarrow> nat \<Rightarrow> nat \<Rightarrow> malloc_graph \<Rightarrow> malloc_graph option" where
  "set_span_live b va span mg = do {
     live \<leftarrow> set_live b mg [va..<va + span] (physical_live (mg_allocations mg));
     Some (mg\<lparr>mg_allocations := (mg_allocations mg)\<lparr>physical_live := live\<rparr>\<rparr>) }"

text \<open>Small ranges are sorted by offset; a new one goes before the first that does not start below it.\<close>

definition insert_range :: "small_range \<Rightarrow> small_range list \<Rightarrow> small_range list" where
  "insert_range r rs =
     takeWhile (\<lambda>x. sr_offset x < sr_offset r) rs @ r # dropWhile (\<lambda>x. sr_offset x < sr_offset r) rs"

subsection \<open>One event\<close>

text \<open>The effect of an allocation or a free of pages: \<open>None\<close> inside is a failed graph.\<close>

definition apply_alloc :: "nat \<Rightarrow> event \<Rightarrow> malloc_graph \<Rightarrow> malloc_graph option" where
  "apply_alloc ev e mg = do {
     f \<leftarrow> top_frame mg;
     let span = pages_of (ev_bytes e);
     let mg = set_virtual_page (ev_value e) \<lparr>va_span = span, owner_depth = fr_depth f, vp_allocation = Some ev\<rparr> mg;
     set_span_live True (ev_value e) span (add_used (span * MG_PAGE) (track_allocation ev mg)) }"

definition apply_free :: "event \<Rightarrow> malloc_graph \<Rightarrow> (bool \<times> malloc_graph) option" where
  "apply_free e mg = do {
     let vp = virtual_pages (mg_allocations mg) (ev_value e);
     mg \<leftarrow> set_span_live False (ev_value e) (va_span vp) mg;
     Some (case untrack_allocation (vp_allocation vp) mg of
         None \<Rightarrow> (False, mg\<lparr>mg_failed := True\<rparr>)
       | Some mg \<Rightarrow> (True, set_virtual_page (ev_value e) zero_page (mg\<lparr>mg_used := sub_size (mg_used mg) (va_span vp * MG_PAGE)\<rparr>))) }"

definition apply_alloc_small :: "nat \<Rightarrow> event \<Rightarrow> malloc_graph \<Rightarrow> malloc_graph option" where
  "apply_alloc_small ev e mg = do {
     f \<leftarrow> top_frame mg;
     let r = \<lparr>sr_offset = ev_value e, sr_bytes = align_up (ev_bytes e) MG_SMALL_ALIGN, sr_rogue_ptr = 0,
              sr_owner_depth = fr_depth f, sr_allocation = Some ev\<rparr>;
     Some (add_used (sr_bytes r) (track_allocation ev (mg\<lparr>mg_small_ranges := insert_range r (mg_small_ranges mg)\<rparr>))) }"

definition apply_free_small :: "event \<Rightarrow> malloc_graph \<Rightarrow> (bool \<times> malloc_graph) option" where
  "apply_free_small e mg = (case dropWhile (\<lambda>x. sr_offset x < ev_value e) (mg_small_ranges mg) of
      [] \<Rightarrow> None
    | r # rs \<Rightarrow> Some (case untrack_allocation (sr_allocation r) mg of
          None \<Rightarrow> (False, mg\<lparr>mg_failed := True\<rparr>)
        | Some mg \<Rightarrow> (True, mg\<lparr>mg_small_ranges := takeWhile (\<lambda>x. sr_offset x < ev_value e) (mg_small_ranges mg) @ rs,
                                mg_used := sub_size (mg_used mg) (sr_bytes r)\<rparr>)))"

definition dry_apply :: "env \<Rightarrow> nat \<Rightarrow> nat \<Rightarrow> 'z rstate_scheme \<Rightarrow> (bool \<times> 'z rstate_scheme) option" where
  "dry_apply E g ev s = do {
     mg \<leftarrow> graphs s g;
     e \<leftarrow> mg_events mg ev;
     case ev_type e of
       EV_ALLOC \<Rightarrow> do { mg \<leftarrow> apply_alloc ev e mg; Some (True, set_graph g mg s) }
     | EV_FREE \<Rightarrow> do { (ok, mg) \<leftarrow> apply_free e mg; Some (ok, set_graph g mg s) }
     | EV_ALLOC_SMALL \<Rightarrow> do {
         (ok, s) \<leftarrow> host_alloc E s;
         if \<not> ok then do { s \<leftarrow> fail_graph g s; Some (False, s) }
         else do { mg \<leftarrow> apply_alloc_small ev e mg; Some (True, set_graph g mg s) } }
     | EV_FREE_SMALL \<Rightarrow> do { (ok, mg) \<leftarrow> apply_free_small e mg; Some (ok, set_graph g mg s) }
     | _ \<Rightarrow> Some (True, s) }"

subsection \<open>Rebuilding the state at a cursor\<close>

text \<open>\<open>copy_small_ranges\<close>: the copy, or as much of it as there was memory for.\<close>

definition copy_small_ranges :: "env \<Rightarrow> small_range list \<Rightarrow> 'z rstate_scheme \<Rightarrow> ((small_range list + small_range list) \<times> 'z rstate_scheme) option" where
  "copy_small_ranges E rs s = foreach (\<lambda>r copy s. do {
     (ok, s) \<leftarrow> host_alloc E s;
     Some (if ok then Inl (copy @ [r]) else Inr copy, s) }) rs [] s"

definition restore_snapshot :: "allocation_state \<Rightarrow> small_range list \<Rightarrow> malloc_graph \<Rightarrow> malloc_graph" where
  "restore_snapshot snap smalls mg =
     (let mg = map_top (\<lambda>f. f\<lparr>fr_allocations := []\<rparr>) (mg\<lparr>mg_allocations := snap, mg_small_ranges := smalls\<rparr>);
          used = allocation_used mg
      in mg\<lparr>mg_used := used, mg_peak_used := max (mg_peak_used mg) used\<rparr>)"

text \<open>\<open>materialize\<close> follows the parents up to a snapshot; it does not end on a path without one.\<close>

partial_function (option) materialize ::
  "env \<Rightarrow> nat \<Rightarrow> nat \<Rightarrow> 'z rstate_scheme \<Rightarrow> (bool \<times> 'z rstate_scheme) option" where
  "materialize E g ev s = do {
     mg \<leftarrow> graphs s g;
     e \<leftarrow> mg_events mg ev;
     case ev_snapshot e of
       Some snap \<Rightarrow> do {
         (r, s) \<leftarrow> copy_small_ranges E (ev_small_snapshot e) s;
         case r of
           Inr _ \<Rightarrow> do { s \<leftarrow> fail_graph g s; Some (False, s) }
         | Inl copy \<Rightarrow> do {
             mg \<leftarrow> graphs s g;
             Some (True, set_graph g (restore_snapshot snap copy mg) s) } }
     | None \<Rightarrow> do {
         previous \<leftarrow> ev_previous e;
         (ok, s) \<leftarrow> materialize E g previous s;
         if ok then dry_apply E g ev s else Some (False, s) } }"

subsection \<open>Scrubbing candidates\<close>

fun scrub_pages :: "malloc_graph \<Rightarrow> nat list \<Rightarrow> allocation_state \<Rightarrow> allocation_state option" where
  "scrub_pages mg [] a = Some a"
| "scrub_pages mg (va # vas) a = (
     let first = virtual_pages a va in
     case vp_allocation first of
       None \<Rightarrow> scrub_pages mg vas a
     | Some ev \<Rightarrow>
         if \<not> is_rogue_candidate mg ev then scrub_pages mg vas a
         else do {
           live \<leftarrow> set_live False mg [va..<va + va_span first] (physical_live a);
           scrub_pages mg vas (a\<lparr>physical_live := live, virtual_pages := (virtual_pages a)(va := zero_page)\<rparr>) })"

definition scrub_smalls :: "malloc_graph \<Rightarrow> small_range list \<Rightarrow> small_range list" where
  "scrub_smalls mg = filter (\<lambda>r. case sr_allocation r of None \<Rightarrow> True | Some ev \<Rightarrow> \<not> is_rogue_candidate mg ev)"

definition scrub_allocations :: "malloc_graph \<Rightarrow> malloc_graph option" where
  "scrub_allocations mg = do {
     a \<leftarrow> scrub_pages mg [0..<mg_va_count mg] (mg_allocations mg);
     Some (mg\<lparr>mg_allocations := a, mg_small_ranges := scrub_smalls mg (mg_small_ranges mg)\<rparr>) }"

definition scrub_event :: "malloc_graph \<Rightarrow> event \<Rightarrow> event option" where
  "scrub_event mg e = do {
     snap \<leftarrow> (case ev_snapshot e of None \<Rightarrow> Some None
       | Some a \<Rightarrow> do { a \<leftarrow> scrub_pages mg [0..<mg_va_count mg] a; Some (Some a) });
     Some (e\<lparr>ev_snapshot := snap, ev_small_snapshot := scrub_smalls mg (ev_small_snapshot e)\<rparr>) }"

text \<open>
  \<open>scrub_rogue_snapshots\<close>: the events of the tree in the order of its recursion, an event, then for
  each child the scope of a call and the child itself. The recursion is a list of events to visit.
\<close>

definition visited_below :: "malloc_graph \<Rightarrow> event \<Rightarrow> nat list option" where
  "visited_below mg e = do {
     cs \<leftarrow> those (map (\<lambda>c. do {
          x \<leftarrow> mg_events mg c;
          if ev_type x = EV_CALL then do { scope \<leftarrow> ev_scope x; Some [scope, c] } else Some [c] }) (ev_next e));
     Some (concat cs) }"

partial_function (option) scrub_rogue_snapshots :: "nat list \<Rightarrow> malloc_graph \<Rightarrow> malloc_graph option" where
  "scrub_rogue_snapshots todo mg = (case todo of
      [] \<Rightarrow> Some mg
    | ev # rest \<Rightarrow> do {
        e \<leftarrow> mg_events mg ev;
        e \<leftarrow> scrub_event mg e;
        below \<leftarrow> visited_below mg e;
        scrub_rogue_snapshots (below @ rest) (mg\<lparr>mg_events := (mg_events mg)(ev \<mapsto> e)\<rparr>) })"

subsection \<open>Frames\<close>

definition take_snapshot :: "env \<Rightarrow> nat \<Rightarrow> nat \<Rightarrow> 'z rstate_scheme \<Rightarrow> (bool \<times> 'z rstate_scheme) option" where
  "take_snapshot E g scope s = do {
     mg \<leftarrow> graphs s g;
     (r, s) \<leftarrow> copy_small_ranges E (mg_small_ranges mg) s;
     (ok, s) \<leftarrow> (case r of Inr _ \<Rightarrow> Some (False, s) | Inl _ \<Rightarrow> host_alloc E s);
     e \<leftarrow> mg_events mg scope;
     let copy = (case r of Inl c \<Rightarrow> c | Inr c \<Rightarrow> c);
     let e = e\<lparr>ev_small_snapshot := copy, ev_snapshot := (if ok then Some (mg_allocations mg) else None)\<rparr>;
     let mg = mg\<lparr>mg_events := (mg_events mg)(scope \<mapsto> e), mg_failed := (mg_failed mg \<or> \<not> ok)\<rparr>;
     Some (ok, set_graph g mg s) }"

definition push_stack :: "env \<Rightarrow> nat \<Rightarrow> nat \<Rightarrow> bool \<Rightarrow> 'z rstate_scheme \<Rightarrow> (bool \<times> 'z rstate_scheme) option" where
  "push_stack E g scope recording s = do {
     mg \<leftarrow> graphs s g;
     e \<leftarrow> mg_events mg scope;
     (ok, s) \<leftarrow> (if recording \<and> ev_snapshot e = None then take_snapshot E g scope s else Some (True, s));
     if \<not> ok then Some (False, s)
     else do {
       (ok, s) \<leftarrow> host_alloc E s;
       if \<not> ok then do { s \<leftarrow> fail_graph g s; Some (False, s) }
       else do {
         mg \<leftarrow> graphs s g;
         let depth = (case mg_state mg of [] \<Rightarrow> 1 | f # _ \<Rightarrow> fr_depth f + 1);
         let frame = \<lparr>fr_cursor = scope, fr_allocations = [], fr_depth = depth, fr_recording = recording,
                      fr_broken = False, fr_excluded_allocations = 0\<rparr>;
         Some (True, set_graph g (mg\<lparr>mg_state := frame # mg_state mg\<rparr>) s) } } }"

definition start_recording :: "env \<Rightarrow> nat \<Rightarrow> 'z rstate_scheme \<Rightarrow> (bool \<times> 'z rstate_scheme) option" where
  "start_recording E g s = do {
     mg \<leftarrow> graphs s g;
     if mg_assert_breaks mg then do { s \<leftarrow> fail_graph g s; Some (False, s) }
     else do {
       f \<leftarrow> top_frame mg;
       (ok, s) \<leftarrow> materialize E g (fr_cursor f) s;
       if \<not> ok then Some (False, s)
       else do {
         mg \<leftarrow> graphs s g;
         Some (True, set_graph g (map_top (\<lambda>f. f\<lparr>fr_recording := True, fr_broken := True\<rparr>) mg) s) } } }"

end
