(* ===== verification/GraphAlloc.thy ===== *)
theory GraphAlloc
  imports GraphReplay
begin

text \<open>
  Allocating and freeing through a graph (\<open>src/malloc-graph.c\<close>). \<open>malloc_graph_alloc\<close> answers
  \<open>None\<close> when the request is not the graph's, else the address and the result code;
  \<open>malloc_graph_free\<close> the result code alone.
\<close>

subsection \<open>A place for a small allocation\<close>

definition consider_small_interval :: "nat \<Rightarrow> nat \<times> nat \<Rightarrow> nat \<times> nat \<Rightarrow> nat \<times> nat" where
  "consider_small_interval position interval next =
     (let (offset, bytes) = interval; (next_offset, next_end) = next; e = offset + bytes in
      if e \<le> position then next
      else if offset \<le> position then (position, max next_end e)
      else if offset < next_offset then (offset, e)
      else if offset = next_offset then (next_offset, max next_end e)
      else next)"

definition next_interval :: "nat \<Rightarrow> (nat \<times> nat) list \<Rightarrow> nat \<times> nat" where
  "next_interval position intervals = fold (consider_small_interval position) intervals (SIZE_MAX, 0)"

lemma consider_beyond:
  "(fst a \<noteq> SIZE_MAX \<longrightarrow> position < snd a) \<Longrightarrow>
     fst (consider_small_interval position x a) \<noteq> SIZE_MAX \<longrightarrow> position < snd (consider_small_interval position x a)"
  by (cases x; cases a) (auto simp: consider_small_interval_def Let_def)

lemma next_interval_beyond:
  assumes "fst (next_interval position intervals) \<noteq> SIZE_MAX"
  shows "position < snd (next_interval position intervals)"
proof -
  have "fst a \<noteq> SIZE_MAX \<longrightarrow> position < snd a \<Longrightarrow>
    fst (fold (consider_small_interval position) intervals a) \<noteq> SIZE_MAX \<longrightarrow>
    position < snd (fold (consider_small_interval position) intervals a)" for a
  proof (induction intervals arbitrary: a)
    case (Cons x xs)
    show ?case using Cons.IH [OF consider_beyond [OF Cons.prems, of x]] by (simp only: fold_simps)
  qed simp
  from this [of "(SIZE_MAX, 0)"] assms show ?thesis by (simp add: next_interval_def)
qed

text \<open>The search over the holes below \<open>limit\<close>: the offset, the size of its hole, the last position.\<close>

function small_search :: "(nat \<times> nat) list \<Rightarrow> nat \<Rightarrow> nat \<Rightarrow> nat \<Rightarrow> nat \<Rightarrow> nat \<Rightarrow> nat \<times> nat \<times> nat" where
  "small_search intervals limit bytes position offset smallest_hole =
     (if \<not> position < limit then (offset, smallest_hole, position)
      else let (found, next_end) = next_interval position intervals;
               next_offset = (if found = SIZE_MAX then limit else found);
               hole = next_offset - position;
               better = (hole \<ge> bytes \<and> hole < smallest_hole);
               offset = (if better then position else offset);
               smallest_hole = (if better then hole else smallest_hole)
           in if next_offset = limit then (offset, smallest_hole, position)
              else small_search intervals limit bytes next_end offset smallest_hole)"
  by pat_completeness auto

termination
proof (relation "measure (\<lambda>(intervals, limit, bytes, position, _, _). limit - position)", goal_cases)
  case 1
  then show ?case by simp
next
  case (2 intervals limit bytes position offset smallest p x y)
  have xy: "next_interval position intervals = (x, y)" using 2 by simp
  have "x \<noteq> SIZE_MAX" using 2 by (auto split: if_splits)
  then have "position < y" using next_interval_beyond [of position intervals] xy by simp
  then show ?case using 2(1) by simp
qed

declare small_search.simps [simp del]

definition small_candidates :: "malloc_graph \<Rightarrow> event list option" where
  "small_candidates mg = do {
     cs \<leftarrow> those (map (mg_events mg) (mg_rogue_candidates mg));
     Some (filter is_small cs) }"

definition small_intervals :: "malloc_graph \<Rightarrow> event list \<Rightarrow> (nat \<times> nat) list" where
  "small_intervals mg cs =
     map (\<lambda>r. (sr_offset r, sr_bytes r)) (mg_small_ranges mg @ mg_small_unusable mg) @
     map (\<lambda>c. (candidate_first c, candidate_end c - candidate_first c)) cs"

definition small_offset :: "(nat \<times> nat) list \<Rightarrow> nat \<Rightarrow> nat \<Rightarrow> nat" where
  "small_offset intervals limit bytes =
     (let (offset, smallest_hole, position) = small_search intervals limit bytes 0 limit SIZE_MAX in
      if smallest_hole = SIZE_MAX then max offset position else offset)"

definition small_allocation_offset :: "env \<Rightarrow> nat \<Rightarrow> nat \<Rightarrow> 'z rstate_scheme \<Rightarrow> (nat \<times> 'z rstate_scheme) option" where
  "small_allocation_offset E g bytes s = do {
     (_, s) \<leftarrow> prune_small_unusable E g s;
     mg \<leftarrow> graphs s g;
     cs \<leftarrow> small_candidates mg;
     Some (small_offset (small_intervals mg cs) (mg_small_size mg) bytes, s) }"

subsection \<open>Small allocations\<close>

text \<open>One more page at the end of the small region: 0, or the error.\<close>

definition add_small_page :: "env \<Rightarrow> nat \<Rightarrow> 'z rstate_scheme \<Rightarrow> (int \<times> 'z rstate_scheme) option" where
  "add_small_page E g s = do {
     mg \<leftarrow> graphs s g;
     base \<leftarrow> graph_small_base mg s;
     let n = mg_small_pages mg;
     (r, s) \<leftarrow> create_page E g s;
     case r of
       Inl err \<Rightarrow> do { s \<leftarrow> fail_graph g s; Some (err, s) }
     | Inr page \<Rightarrow> do {
         mg \<leftarrow> graphs s g;
         let s = set_graph g (mg\<lparr>mg_small_physical_pages := (mg_small_physical_pages mg)(n \<mapsto> page),
                                mg_small_pages := n + 1\<rparr>) s;
         (m, s) \<leftarrow> map_reference E g (base + of_nat (n * MG_PAGE)) page s;
         case m of
           Inl _ \<Rightarrow> do { s \<leftarrow> fail_graph g s; Some (CUDA_ERROR_OUT_OF_MEMORY, s) }
         | Inr reference \<Rightarrow> do {
             mg \<leftarrow> graphs s g;
             Some (CUDA_SUCCESS, set_graph g
               (mg\<lparr>mg_small_mapped_pages := (mg_small_mapped_pages mg)(n \<mapsto> reference)\<rparr>) s) } } }"

text \<open>Room up to \<open>e\<close>: 0, or the error; at most one page is missing.\<close>

definition grow_small :: "env \<Rightarrow> nat \<Rightarrow> nat \<Rightarrow> 'z rstate_scheme \<Rightarrow> (int \<times> 'z rstate_scheme) option" where
  "grow_small E g e s = do {
     mg \<leftarrow> graphs s g;
     if e \<le> mg_small_size mg then Some (CUDA_SUCCESS, s)
     else if pages_of e > MG_SMALL_PAGES then do { s \<leftarrow> fail_graph g s; Some (CUDA_ERROR_OUT_OF_MEMORY, s) }
     else do {
       (r, s) \<leftarrow> (if mg_small_pages mg < pages_of e then add_small_page E g s else Some (CUDA_SUCCESS, s));
       if r \<noteq> CUDA_SUCCESS then Some (r, s)
       else do { mg \<leftarrow> graphs s g; Some (CUDA_SUCCESS, set_graph g (mg\<lparr>mg_small_size := e\<rparr>) s) } } }"

definition range_index :: "nat \<Rightarrow> small_range list \<Rightarrow> nat" where
  "range_index offset rs = length (takeWhile (\<lambda>x. sr_offset x < offset) rs)"

definition record_small :: "env \<Rightarrow> nat \<Rightarrow> nat \<Rightarrow> nat \<Rightarrow> nat \<Rightarrow> 'z rstate_scheme \<Rightarrow> ((u64 \<times> int) \<times> 'z rstate_scheme) option" where
  "record_small E g offset bytes n s = do {
     (ok, s) \<leftarrow> host_alloc E s;
     if \<not> ok then do { s \<leftarrow> fail_graph g s; Some ((0, CUDA_ERROR_OUT_OF_MEMORY), s) }
     else do {
       mg \<leftarrow> graphs s g;
       f \<leftarrow> top_frame mg;
       let r = \<lparr>sr_offset = offset, sr_bytes = bytes, sr_rogue_ptr = 0, sr_owner_depth = fr_depth f, sr_allocation = None\<rparr>;
       let i = range_index offset (mg_small_ranges mg);
       let s = set_graph g (mg\<lparr>mg_small_ranges := insert_range r (mg_small_ranges mg)\<rparr>) s;
       (allocation, s) \<leftarrow> event E g EV_ALLOC_SMALL offset n s;
       case allocation of
         None \<Rightarrow> do { s \<leftarrow> fail_graph g s; Some ((0, CUDA_ERROR_OUT_OF_MEMORY), s) }
       | Some ev \<Rightarrow> do {
           mg \<leftarrow> graphs s g;
           let mg = mg\<lparr>mg_small_ranges := (mg_small_ranges mg)[i := r\<lparr>sr_allocation := Some ev\<rparr>]\<rparr>;
           let s = set_graph g (add_used bytes (track_allocation ev mg)) s;
           base \<leftarrow> graph_small_base mg s;
           Some ((base + of_nat offset, CUDA_SUCCESS), s) } } }"

definition alloc_small :: "env \<Rightarrow> nat \<Rightarrow> nat \<Rightarrow> 'z rstate_scheme \<Rightarrow> ((u64 \<times> int) \<times> 'z rstate_scheme) option" where
  "alloc_small E g n s = do {
     let bytes = align_up n MG_SMALL_ALIGN;
     (offset, s) \<leftarrow> small_allocation_offset E g bytes s;
     (r, s) \<leftarrow> grow_small E g (offset + bytes) s;
     if r \<noteq> CUDA_SUCCESS then Some ((0, r), s)
     else record_small E g offset bytes n s }"

subsection \<open>Large allocations\<close>

definition set_physical_live :: "(nat \<Rightarrow> bool) \<Rightarrow> malloc_graph \<Rightarrow> malloc_graph" where
  "set_physical_live live mg = mg\<lparr>mg_allocations := (mg_allocations mg)\<lparr>physical_live := live\<rparr>\<rparr>"

text \<open>One page of the scan: \<open>Inr (j, phys)\<close> stops it at a page that is not free, else it is taken.\<close>

definition scan_page ::
  "env \<Rightarrow> nat \<Rightarrow> nat \<Rightarrow> nat \<Rightarrow> unit \<Rightarrow> 'z rstate_scheme \<Rightarrow> ((unit + nat \<times> int) \<times> 'z rstate_scheme) option" where
  "scan_page E g va j = (\<lambda>_ s. do {
     mg \<leftarrow> graphs s g;
     let phys = mg_va_phys mg (va + j);
     (r, s) \<leftarrow> rogue_va E g (va + j) s;
     if r then Some (Inr (j, phys), s)
     else do {
       mg \<leftarrow> graphs s g;
       p \<leftarrow> phys_of mg (va + j);
       if physical_live (mg_allocations mg) p then Some (Inr (j, phys), s)
       else do {
         r \<leftarrow> rogue_phys mg phys;
         if r then Some (Inr (j, phys), s)
         else Some (Inl (), set_graph g (set_physical_live ((physical_live (mg_allocations mg))(p := True)) mg) s) } } })"

text \<open>Taking back the pages before \<open>j\<close>; the scan resumes after the last of them with the same physical page.\<close>

definition scan_advance :: "malloc_graph \<Rightarrow> nat \<Rightarrow> nat \<Rightarrow> int \<Rightarrow> nat" where
  "scan_advance mg va j phys = fold (\<lambda>k a. if mg_va_phys mg (va + k) = phys then k + 1 else a) [0..<j] (j + 1)"

definition scan_step ::
  "env \<Rightarrow> nat \<Rightarrow> nat \<Rightarrow> nat \<Rightarrow> 'z rstate_scheme \<Rightarrow> ((nat + nat) \<times> 'z rstate_scheme) option" where
  "scan_step E g pages = (\<lambda>va s. do {
     mg \<leftarrow> graphs s g;
     if \<not> va + pages \<le> mg_va_count mg then Some (Inr va, s)
     else do {
       (r, s) \<leftarrow> foreach (scan_page E g va) [0..<pages] () s;
       case r of
         Inl _ \<Rightarrow> Some (Inr va, s)
       | Inr (j, phys) \<Rightarrow> do {
           mg \<leftarrow> graphs s g;
           live \<leftarrow> set_live False mg [va..<va + j] (physical_live (mg_allocations mg));
           Some (Inl (va + scan_advance mg va j phys), set_graph g (set_physical_live live mg) s) } } })"

fun first_free_phys :: "malloc_graph \<Rightarrow> nat list \<Rightarrow> nat option" where
  "first_free_phys mg [] = Some (mg_phys_count mg)"
| "first_free_phys mg (p # ps) = do {
     r \<leftarrow> (if physical_live (mg_allocations mg) p then Some True else rogue_phys mg (int p));
     if r then first_free_phys mg ps else Some p }"

text \<open>Backing one page of the span: \<open>Inr r\<close> is the error that stops it.\<close>

definition back_page ::
  "env \<Rightarrow> nat \<Rightarrow> nat \<Rightarrow> unit \<Rightarrow> 'z rstate_scheme \<Rightarrow> ((unit + int) \<times> 'z rstate_scheme) option" where
  "back_page E g va = (\<lambda>_ s. do {
     mg \<leftarrow> graphs s g;
     (r, s) \<leftarrow> (if mg_va_phys mg va < 0 then do {
          p \<leftarrow> (if is_xpu E \<and> mg_avoid_physical_alias mg then Some (mg_phys_count mg)
                else first_free_phys mg [0..<mg_phys_count mg]);
          if p \<ge> MG_PAGES then do { s \<leftarrow> fail_graph g s; Some (CUDA_ERROR_OUT_OF_MEMORY, s) }
          else do {
            (r, s) \<leftarrow> map_page E g va p s;
            if r \<noteq> CUDA_SUCCESS then do { s \<leftarrow> fail_graph g s; Some (r, note_driver_error E r s) }
            else Some (CUDA_SUCCESS, s) } }
        else Some (CUDA_SUCCESS, s));
     if r \<noteq> CUDA_SUCCESS then Some (Inr r, s)
     else do {
       mg \<leftarrow> graphs s g;
       mg \<leftarrow> set_span_live True va 1 mg;
       Some (Inl (), set_graph g mg s) } })"

definition record_large :: "env \<Rightarrow> nat \<Rightarrow> nat \<Rightarrow> nat \<Rightarrow> nat \<Rightarrow> 'z rstate_scheme \<Rightarrow> ((u64 \<times> int) \<times> 'z rstate_scheme) option" where
  "record_large E g va pages n s = do {
     (allocation, s) \<leftarrow> event E g EV_ALLOC va n s;
     case allocation of
       None \<Rightarrow> do { s \<leftarrow> fail_graph g s; Some ((0, CUDA_ERROR_OUT_OF_MEMORY), s) }
     | Some ev \<Rightarrow> do {
         mg \<leftarrow> graphs s g;
         f \<leftarrow> top_frame mg;
         let mg = set_virtual_page va \<lparr>va_span = pages, owner_depth = fr_depth f, vp_allocation = Some ev\<rparr> mg;
         let s = set_graph g (add_used (pages * MG_PAGE) (track_allocation ev mg)) s;
         addr \<leftarrow> page_address mg va s;
         Some ((addr, CUDA_SUCCESS), s) } }"

text \<open>The fuel of the scan: each round moves on by at least one page.\<close>

definition alloc_large :: "env \<Rightarrow> nat \<Rightarrow> nat \<Rightarrow> 'z rstate_scheme \<Rightarrow> ((u64 \<times> int) \<times> 'z rstate_scheme) option" where
  "alloc_large E g n s = do {
     let pages = pages_of n;
     mg \<leftarrow> graphs s g;
     (va, s) \<leftarrow> loop (mg_va_count mg + 2) (scan_step E g pages) 0 s;
     mg \<leftarrow> graphs s g;
     let grow = va + pages > mg_va_count mg;
     let va = (if grow then mg_va_count mg else va);
     if mg_failed mg then Some ((0, CUDA_ERROR_OUT_OF_MEMORY), s)
     else if grow \<and> va + pages > MG_PAGES then do { s \<leftarrow> fail_graph g s; Some ((0, CUDA_ERROR_OUT_OF_MEMORY), s) }
     else do {
       let s = (if grow then set_graph g (mg\<lparr>mg_va_count := va + pages\<rparr>) s else s);
       (r, s) \<leftarrow> foreach (\<lambda>j. back_page E g (va + j)) [0..<pages] () s;
       case r of
         Inr err \<Rightarrow> Some ((0, err), s)
       | Inl _ \<Rightarrow> record_large E g va pages n s } }"

subsection \<open>The entry points\<close>

definition not_routed :: "env \<Rightarrow> nat \<Rightarrow> u64 \<Rightarrow> 'z rstate_scheme \<Rightarrow> (bool \<times> 'z rstate_scheme) option" where
  "not_routed E g stream s = do {
     (failed, s) \<leftarrow> graph_failed E g s;
     mg \<leftarrow> graphs s g;
     Some (failed \<or> mg_paused mg \<or> stream \<noteq> mg_stream mg, s) }"

definition move_cursor :: "nat \<Rightarrow> nat \<Rightarrow> 'z gstate_scheme \<Rightarrow> 'z gstate_scheme option" where
  "move_cursor g ev s = do {
     mg \<leftarrow> graphs s g; Some (set_graph g (map_top (\<lambda>f. f\<lparr>fr_cursor := ev\<rparr>) mg) s) }"

text \<open>Replay: \<open>Inr\<close> is the final answer, \<open>Inl\<close> goes on recording.\<close>

definition replay_alloc :: "env \<Rightarrow> nat \<Rightarrow> nat \<Rightarrow> 'z rstate_scheme \<Rightarrow> ((unit + u64 \<times> int) \<times> 'z rstate_scheme) option" where
  "replay_alloc E g n s = do {
     let type = (if n < MG_SMALL_LIMIT then EV_ALLOC_SMALL else EV_ALLOC);
     (found, s) \<leftarrow> find_event E g type 0 n [] s;
     case found of
       Some ev \<Rightarrow> do {
         s \<leftarrow> move_cursor g ev s;
         mg \<leftarrow> graphs s g;
         e \<leftarrow> mg_events mg ev;
         ptr \<leftarrow> (if type = EV_ALLOC_SMALL then do { b \<leftarrow> graph_small_base mg s; Some (b + of_nat (ev_value e)) }
                else page_address mg (ev_value e) s);
         Some (Inr (ptr, CUDA_SUCCESS), s) }
     | None \<Rightarrow> do {
         mg \<leftarrow> graphs s g;
         if mg_failed mg then Some (Inr (0, CUDA_ERROR_OUT_OF_MEMORY), s)
         else do {
           (ok, s) \<leftarrow> start_recording E g s;
           if ok then Some (Inl (), s)
           else do { s \<leftarrow> fail_graph g s; Some (Inr (0, CUDA_ERROR_OUT_OF_MEMORY), s) } } } }"

definition alloc_routed :: "env \<Rightarrow> nat \<Rightarrow> nat \<Rightarrow> 'z rstate_scheme \<Rightarrow> ((u64 \<times> int) \<times> 'z rstate_scheme) option" where
  "alloc_routed E g n s = do {
     mg \<leftarrow> graphs s g;
     f \<leftarrow> top_frame mg;
     (r, s) \<leftarrow> (if fr_recording f then Some (Inl (), s) else replay_alloc E g n s);
     case r of
       Inr answer \<Rightarrow> Some (answer, s)
     | Inl _ \<Rightarrow> if n < MG_SMALL_LIMIT then alloc_small E g n s else alloc_large E g n s }"

definition malloc_graph_alloc ::
  "env \<Rightarrow> nat \<Rightarrow> u64 \<Rightarrow> 'z rstate_scheme \<Rightarrow> ((u64 \<times> int) option \<times> 'z rstate_scheme) option" where
  "malloc_graph_alloc E n stream s = do {
     let s = (if is_xpu E then s\<lparr>last_allocation_driver_error := CUDA_SUCCESS\<rparr> else s);
     case active_graph s of
       None \<Rightarrow> Some (None, s)
     | Some g \<Rightarrow> do {
         (out, s) \<leftarrow> not_routed E g stream s;
         if out then Some (None, s)
         else do { (r, s) \<leftarrow> alloc_routed E g n s; Some (Some r, s) } } }"

text \<open>XPU only: a request that the owner queue excluded is counted in an untouched root frame.\<close>

definition malloc_graph_note_excluded_allocation :: "env \<Rightarrow> u64 \<Rightarrow> 'z rstate_scheme \<Rightarrow> (unit \<times> 'z rstate_scheme) option" where
  "malloc_graph_note_excluded_allocation E owner_stream s = (case active_graph s of
      None \<Rightarrow> Some ((), s)
    | Some g \<Rightarrow> do {
        mg \<leftarrow> graphs s g;
        if mg_stream mg \<noteq> owner_stream \<or> mg_paused mg then Some ((), s)
        else do {
          (failed, s) \<leftarrow> graph_failed E g s;
          mg \<leftarrow> graphs s g;
          Some ((), if failed then s
            else case mg_state mg of
              [f] \<Rightarrow> if \<not> fr_recording f \<and> fr_cursor f = mg_root mg
                     then set_graph g (map_top (\<lambda>f. f\<lparr>fr_excluded_allocations := fr_excluded_allocations f + 1\<rparr>) mg) s
                     else s
            | _ \<Rightarrow> s) } })"

subsection \<open>Freeing\<close>

definition mark_freed_out_of_scope :: "nat \<Rightarrow> nat \<Rightarrow> 'z gstate_scheme \<Rightarrow> 'z gstate_scheme option" where
  "mark_freed_out_of_scope g ev s = do {
     mg \<leftarrow> graphs s g;
     e \<leftarrow> mg_events mg ev;
     Some (set_graph g (mg\<lparr>mg_events := (mg_events mg)(ev \<mapsto> e\<lparr>ev_freed_out_of_scope := True\<rparr>), mg_failed := True\<rparr>) s) }"

text \<open>Recording the free and forgetting the allocation: \<open>False\<close> is a failed graph.\<close>

definition record_free :: "env \<Rightarrow> nat \<Rightarrow> event_type \<Rightarrow> nat \<Rightarrow> nat \<Rightarrow> 'z rstate_scheme \<Rightarrow> (bool \<times> 'z rstate_scheme) option" where
  "record_free E g type val allocation s = do {
     (ev, s) \<leftarrow> event E g type val 0 s;
     mg \<leftarrow> graphs s g;
     case (ev, untrack_allocation (Some allocation) mg) of
       (Some _, Some mg) \<Rightarrow> Some (True, set_graph g mg s)
     | _ \<Rightarrow> do { s \<leftarrow> fail_graph g s; Some (False, s) } }"

definition free_small :: "env \<Rightarrow> nat \<Rightarrow> nat \<Rightarrow> 'z rstate_scheme \<Rightarrow> (unit \<times> 'z rstate_scheme) option" where
  "free_small E g val s = do {
     mg \<leftarrow> graphs s g;
     f \<leftarrow> top_frame mg;
     case List.find (\<lambda>r. sr_offset r = val) (mg_small_ranges mg) of
       None \<Rightarrow> do { s \<leftarrow> fail_graph g s; Some ((), s) }
     | Some r \<Rightarrow> (case sr_allocation r of
           None \<Rightarrow> do { s \<leftarrow> fail_graph g s; Some ((), s) }
         | Some allocation \<Rightarrow>
             if sr_owner_depth r \<noteq> fr_depth f then do { s \<leftarrow> mark_freed_out_of_scope g allocation s; Some ((), s) }
             else do {
               (ok, s) \<leftarrow> record_free E g EV_FREE_SMALL val allocation s;
               if \<not> ok then Some ((), s)
               else do {
                 mg \<leftarrow> graphs s g;
                 Some ((), set_graph g (mg\<lparr>mg_small_ranges := remove_first (\<lambda>r. sr_offset r = val) (mg_small_ranges mg),
                                          mg_used := sub_size (mg_used mg) (sr_bytes r)\<rparr>) s) } }) }"

definition free_large :: "env \<Rightarrow> nat \<Rightarrow> nat \<Rightarrow> 'z rstate_scheme \<Rightarrow> (unit \<times> 'z rstate_scheme) option" where
  "free_large E g val s = do {
     mg \<leftarrow> graphs s g;
     f \<leftarrow> top_frame mg;
     let first = virtual_pages (mg_allocations mg) val;
     if va_span first = 0 then do { s \<leftarrow> fail_graph g s; Some ((), s) }
     else case vp_allocation first of
       None \<Rightarrow> do { s \<leftarrow> fail_graph g s; Some ((), s) }
     | Some allocation \<Rightarrow>
         if owner_depth first \<noteq> fr_depth f then do { s \<leftarrow> mark_freed_out_of_scope g allocation s; Some ((), s) }
         else do {
           (ok, s) \<leftarrow> record_free E g EV_FREE val allocation s;
           if \<not> ok then Some ((), s)
           else do {
             mg \<leftarrow> graphs s g;
             mg \<leftarrow> set_span_live False val (va_span first) mg;
             Some ((), set_graph g (set_virtual_page val zero_page
               (mg\<lparr>mg_used := sub_size (mg_used mg) (va_span first * MG_PAGE)\<rparr>)) s) } } }"

definition free_routed :: "env \<Rightarrow> nat \<Rightarrow> bool \<Rightarrow> nat \<Rightarrow> 'z rstate_scheme \<Rightarrow> (unit \<times> 'z rstate_scheme) option" where
  "free_routed E g small val s = do {
     mg \<leftarrow> graphs s g;
     f \<leftarrow> top_frame mg;
     (go_on, s) \<leftarrow> (if fr_recording f then Some (True, s)
       else do {
         (found, s) \<leftarrow> find_event E g (if small then EV_FREE_SMALL else EV_FREE) val 0 [] s;
         case found of
           Some ev \<Rightarrow> do { s \<leftarrow> move_cursor g ev s; Some (False, s) }
         | None \<Rightarrow> do {
             (ok, s) \<leftarrow> start_recording E g s;
             if ok then Some (True, s) else do { s \<leftarrow> fail_graph g s; Some (False, s) } } });
     if \<not> go_on then Some ((), s)
     else if small then free_small E g val s else free_large E g val s }"

definition malloc_graph_free :: "env \<Rightarrow> u64 \<Rightarrow> u64 \<Rightarrow> 'z rstate_scheme \<Rightarrow> (int option \<times> 'z rstate_scheme) option" where
  "malloc_graph_free E ptr stream s = (case active_graph s of
      None \<Rightarrow> Some (None, s)
    | Some g \<Rightarrow> do {
        (out, s) \<leftarrow> not_routed E g stream s;
        if out then Some (None, s)
        else do {
          mg \<leftarrow> graphs s g;
          base \<leftarrow> graph_base mg s;
          small_base \<leftarrow> graph_small_base mg s;
          let small = (ptr \<ge> small_base \<and> ptr < small_base + of_nat (MG_SMALL_PAGES * MG_PAGE));
          if \<not> small \<and> (ptr < base \<or> ptr \<ge> base + of_nat (MG_PAGES * MG_PAGE)) then Some (None, s)
          else do {
            let val = (if small then unat (ptr - small_base) else unat (ptr - base) div MG_PAGE);
            (_, s) \<leftarrow> free_routed E g small val s;
            Some (Some CUDA_SUCCESS, s) } } })"

definition malloc_graph_free_owned ::
  "env \<Rightarrow> nat \<Rightarrow> u64 \<Rightarrow> u64 \<Rightarrow> 'z rstate_scheme \<Rightarrow> (int option \<times> 'z rstate_scheme) option" where
  "malloc_graph_free_owned E thread ptr owner_stream s = (case active_graph s of
      None \<Rightarrow> Some (None, s)
    | Some g \<Rightarrow> do {
        mg \<leftarrow> graphs s g;
        if mg_owner_thread mg \<noteq> thread then Some (None, s)
        else do {
          (failed, s) \<leftarrow> graph_failed E g s;
          mg \<leftarrow> graphs s g;
          if failed \<or> mg_paused mg \<or> owner_stream = 0 then Some (None, s)
          else do {
            let previous = mg_stream mg;
            (handled, s) \<leftarrow> malloc_graph_free E ptr owner_stream (set_graph g (mg\<lparr>mg_stream := owner_stream\<rparr>) s);
            mg \<leftarrow> graphs s g;
            Some (handled, set_graph g (mg\<lparr>mg_stream := previous\<rparr>) s) } } })"

end
