(* ===== verification/GraphSmall.thy ===== *)
theory GraphSmall
  imports GraphAlloc
begin

text \<open>
  Where a small allocation of a graph goes: the offset that \<open>small_allocation_offset\<close> picks overlaps
  no live range, and inserting the range there keeps the list sorted and disjoint.
\<close>

definition overlaps :: "nat \<Rightarrow> nat \<Rightarrow> nat \<times> nat \<Rightarrow> bool" where
  "overlaps p n interval \<longleftrightarrow> p < fst interval + snd interval \<and> fst interval < p + n"

definition starts_below :: "(nat \<times> nat) set \<Rightarrow> nat \<Rightarrow> bool" where
  "starts_below S limit \<longleftrightarrow> limit < SIZE_MAX \<and> (\<forall>i \<in> S. fst i < limit)"

subsection \<open>The next interval\<close>

text \<open>Nothing that ends after \<open>position\<close> starts before the offset that the scan finds.\<close>

definition scanned :: "nat \<Rightarrow> (nat \<times> nat) set \<Rightarrow> nat \<times> nat \<Rightarrow> bool" where
  "scanned position S = (\<lambda>(found, e). position \<le> found \<and>
     (\<forall>(o1, n1) \<in> S. position < o1 + n1 \<longrightarrow> found \<le> max o1 position) \<and>
     (found = SIZE_MAX \<or> (\<exists>(o1, n1) \<in> S. found = max o1 position)))"

lemma scanned_step:
  assumes "scanned position S next" "o1 < SIZE_MAX" "position < SIZE_MAX"
  shows "scanned position (insert (o1, n1) S) (consider_small_interval position (o1, n1) next)"
proof -
  obtain f e where n: "next = (f, e)" by (cases "next")
  consider "o1 + n1 \<le> position" | "position < o1 + n1" "o1 \<le> position" | "position < o1" "o1 < f" "position < o1 + n1"
    | "position < o1" "o1 = f" "position < o1 + n1" | "position < o1" "f < o1" "position < o1 + n1" by linarith
  then show ?thesis
    using assms
    by cases (fastforce simp: n scanned_def consider_small_interval_def Let_def max_def split: if_splits)+
qed

lemma scanned_next_interval:
  assumes "\<forall>i \<in> set intervals. fst i < SIZE_MAX" "position < SIZE_MAX"
  shows "scanned position (set intervals) (next_interval position intervals)"
proof -
  have "scanned position (S \<union> set xs) (fold (consider_small_interval position) xs a)"
    if "scanned position S a" "\<forall>i \<in> set xs. fst i < SIZE_MAX" for S xs a
    using that
  proof (induction xs arbitrary: S a)
    case (Cons x xs)
    obtain o1 n1 where x: "x = (o1, n1)" by (cases x)
    have "scanned position (insert x S) (consider_small_interval position x a)"
      unfolding x by (rule scanned_step) (use Cons.prems assms(2) x in auto)
    from Cons.IH [OF this] Cons.prems show ?case by simp
  qed simp
  from this [of "{}" "(SIZE_MAX, 0)" intervals] show ?thesis
    using assms by (simp add: next_interval_def scanned_def)
qed

subsection \<open>The search\<close>

text \<open>A hole that was found is free; without one the offset is the end of the region.\<close>

definition hole_ok :: "(nat \<times> nat) list \<Rightarrow> nat \<Rightarrow> nat \<Rightarrow> nat \<times> nat \<times> nat \<Rightarrow> bool" where
  "hole_ok intervals limit bytes = (\<lambda>(offset, hole, position).
     if hole = SIZE_MAX then offset = limit
     else offset + bytes \<le> limit \<and> (\<forall>i \<in> set intervals. \<not> overlaps offset bytes i))"

lemma hole_free:
  assumes "starts_below (set intervals) limit" "position < limit" "next_interval position intervals = (found, e)"
  shows "found = SIZE_MAX \<or> found < limit"
    and "0 < bytes \<Longrightarrow> position + bytes \<le> (if found = SIZE_MAX then limit else found) \<Longrightarrow>
      i \<in> set intervals \<Longrightarrow> \<not> overlaps position bytes i"
proof -
  have sc: "scanned position (set intervals) (found, e)"
    unfolding assms(3) [symmetric] by (rule scanned_next_interval) (use assms(1,2) in \<open>auto simp: starts_below_def\<close>)
  then show below: "found = SIZE_MAX \<or> found < limit"
    using assms(1,2) by (auto simp: scanned_def starts_below_def)
  show "\<not> overlaps position bytes i"
    if "0 < bytes" "position + bytes \<le> (if found = SIZE_MAX then limit else found)" "i \<in> set intervals"
  proof
    assume o: "overlaps position bytes i"
    then have "found \<le> max (fst i) position"
      using sc that(3) by (cases i) (auto simp: scanned_def overlaps_def)
    then show False
      using that o below assms(1,2) by (auto simp: overlaps_def starts_below_def max_def split: if_splits)
  qed
qed

lemma small_search_ok:
  assumes "starts_below (set intervals) limit" "hole_ok intervals limit bytes (offset, hole, p0)" "0 < bytes"
  shows "hole_ok intervals limit bytes (small_search intervals limit bytes position offset hole)"
  using assms
proof (induction intervals limit bytes position offset hole arbitrary: p0 rule: small_search.induct)
  case (1 intervals limit bytes position offset hole)
  show ?case
  proof (cases "position < limit")
    case False
    then show ?thesis using "1.prems" by (subst small_search.simps) (simp add: hole_ok_def)
  next
    case True
    obtain found e where ne: "next_interval position intervals = (found, e)" by fastforce
    note hf = hole_free [OF "1.prems"(1) True ne]
    let ?no = "if found = SIZE_MAX then limit else found"
    let ?better = "?no - position \<ge> bytes \<and> ?no - position < hole"
    have now: "hole_ok intervals limit bytes
        (if ?better then position else offset, if ?better then ?no - position else hole, q)" for q
    proof (cases ?better)
      case b: True
      have "position + bytes \<le> ?no" using b True "1.prems"(3) by linarith
      moreover have "?no \<le> limit" "limit < SIZE_MAX" using hf(1) "1.prems"(1) by (auto simp: starts_below_def)
      ultimately show ?thesis using b hf(2) "1.prems"(3) by (simp add: hole_ok_def)
    next
      case False
      then show ?thesis using "1.prems"(2) by (simp only: if_False hole_ok_def split_conv)
    qed
    show ?thesis
    proof (cases "found = SIZE_MAX")
      case F: True
      then show ?thesis using now [of position] True ne
        by (subst small_search.simps) (simp add: Let_def split del: if_split cong: if_cong)
    next
      case F: False
      then have "found \<noteq> limit" using hf(1) by auto
      then show ?thesis
        using True ne F "1.IH" [OF _ ne [symmetric] refl refl refl refl refl refl, of p0] now [of p0] "1.prems"
        by (subst small_search.simps) (simp add: Let_def split del: if_split cong: if_cong)
    qed
  qed
qed

lemma small_offset_ok:
  assumes "starts_below (set intervals) limit" "0 < bytes" "i \<in> set intervals"
    "overlaps (small_offset intervals limit bytes) bytes i"
  shows "limit \<le> small_offset intervals limit bytes" "limit < fst i + snd i"
proof -
  obtain offset hole position where r: "small_search intervals limit bytes 0 limit SIZE_MAX = (offset, hole, position)"
    by (metis prod_cases3)
  have ok: "hole_ok intervals limit bytes (offset, hole, position)"
    using small_search_ok [OF assms(1) _ assms(2), of limit SIZE_MAX 0 0] by (simp add: r hole_ok_def)
  have "hole = SIZE_MAX" using ok assms(3,4) r by (auto simp: small_offset_def hole_ok_def split: if_splits)
  then have p: "small_offset intervals limit bytes = max limit position" using ok r by (simp add: small_offset_def hole_ok_def)
  then show "limit \<le> small_offset intervals limit bytes" by simp
  then show "limit < fst i + snd i" using assms(4) by (simp add: overlaps_def)
qed

subsection \<open>The list of ranges\<close>

definition ranges_ok :: "small_range list \<Rightarrow> bool" where
  "ranges_ok rs \<longleftrightarrow> sorted_wrt (\<lambda>a b. sr_offset a + sr_bytes a \<le> sr_offset b) rs \<and> (\<forall>r \<in> set rs. 0 < sr_bytes r)"

lemma ranges_ok_Cons:
  "ranges_ok (r # rs) \<longleftrightarrow> 0 < sr_bytes r \<and> (\<forall>x \<in> set rs. sr_offset r + sr_bytes r \<le> sr_offset x) \<and> ranges_ok rs"
  by (auto simp: ranges_ok_def)

lemma set_insert_range: "set (insert_range r rs) = insert r (set rs)"
  by (auto simp: insert_range_def dest: set_takeWhileD set_dropWhileD)
    (metis set_append Un_iff takeWhile_dropWhile_id)

lemma insert_range_Cons:
  "insert_range r (x # xs) = (if sr_offset x < sr_offset r then x # insert_range r xs else r # x # xs)"
  by (simp add: insert_range_def)

lemma insert_range_ok:
  assumes "ranges_ok rs" "0 < sr_bytes r" "\<forall>x \<in> set rs. \<not> overlaps (sr_offset r) (sr_bytes r) (sr_offset x, sr_bytes x)"
  shows "ranges_ok (insert_range r rs)"
  using assms
proof (induction rs)
  case Nil
  then show ?case by (simp add: insert_range_def ranges_ok_def)
next
  case (Cons x xs)
  have ok: "ranges_ok xs" "0 < sr_bytes x" "\<forall>y \<in> set xs. sr_offset x + sr_bytes x \<le> sr_offset y"
    using Cons.prems(1) by (simp_all add: ranges_ok_Cons)
  show ?case
  proof (cases "sr_offset x < sr_offset r")
    case True
    then have "sr_offset x + sr_bytes x \<le> sr_offset r" using Cons.prems(2,3) by (auto simp: overlaps_def)
    then show ?thesis using True Cons ok by (simp add: insert_range_Cons ranges_ok_Cons set_insert_range)
  next
    case False
    then have "sr_offset r + sr_bytes r \<le> sr_offset x" using Cons.prems(3) ok(2) by (auto simp: overlaps_def)
    then show ?thesis using False Cons.prems ok
      by (auto simp: insert_range_Cons ranges_ok_Cons intro: le_trans)
  qed
qed

lemma insert_range_index: "range_index (sr_offset r) rs < length (insert_range r rs)"
  "insert_range r rs ! range_index (sr_offset r) rs = r"
  "(insert_range r rs)[range_index (sr_offset r) rs := r'] =
     takeWhile (\<lambda>x. sr_offset x < sr_offset r) rs @ r' # dropWhile (\<lambda>x. sr_offset x < sr_offset r) rs"
  by (simp_all add: insert_range_def range_index_def nth_append list_update_append)

end
