(* ===== verification/GraphFrame.thy ===== *)
theory GraphFrame
  imports GraphSmall Beside RogueInv
begin

text \<open>
  What every operation of an allocation graph keeps: the invariants of the layers below, the other
  graphs, the rogues, and the account of physical memory: the bytes in use are those of the VBARs,
  those of the physical allocations, and a rest that no graph operation changes.
\<close>

subsection \<open>The account of physical allocations\<close>

definition palloc_bytes :: "'z mstate_scheme \<Rightarrow> u64" where
  "palloc_bytes s = (\<Sum>a \<in> dom (pallocs s). pa_bytes (the (pallocs s a)))"

definition spare :: "'z mstate_scheme \<Rightarrow> u64" where
  "spare s = other_bytes s - palloc_bytes s"

lemma finite_pallocs: "pinv s \<Longrightarrow> finite (dom (pallocs s))"
  by (rule finite_subset [of _ "{..<mnext s}"]) (auto simp: pinv_def)

lemma palloc_bytes_new:
  assumes "finite (dom (pallocs s))" "a \<notin> dom (pallocs s)" "pallocs t = (pallocs s)(a \<mapsto> al)"
  shows "palloc_bytes t = palloc_bytes s + pa_bytes al"
proof -
  have "(\<Sum>x \<in> dom (pallocs s). pa_bytes (the (pallocs t x))) = palloc_bytes s"
    unfolding palloc_bytes_def by (rule sum.cong) (use assms(2,3) in auto)
  then show ?thesis using assms by (simp add: palloc_bytes_def)
qed

lemma palloc_bytes_same:
  assumes "pallocs s a = Some al" "pallocs t = (pallocs s)(a \<mapsto> al')" "pa_bytes al' = pa_bytes al"
  shows "palloc_bytes t = palloc_bytes s"
proof -
  have "dom (pallocs t) = dom (pallocs s)" using assms by auto
  moreover have "pa_bytes (the (pallocs t x)) = pa_bytes (the (pallocs s x))" for x using assms by simp
  ultimately show ?thesis by (simp add: palloc_bytes_def)
qed

lemma palloc_bytes_dropped:
  assumes "finite (dom (pallocs s))" "pallocs s a = Some al" "pallocs t = (pallocs s)(a := None)"
  shows "palloc_bytes t = palloc_bytes s - pa_bytes al"
proof -
  have "(\<Sum>x \<in> dom (pallocs s) - {a}. pa_bytes (the (pallocs t x))) = (\<Sum>x \<in> dom (pallocs s) - {a}. pa_bytes (the (pallocs s x)))"
    by (rule sum.cong) (use assms(3) in auto)
  moreover have "palloc_bytes s = pa_bytes al + (\<Sum>x \<in> dom (pallocs s) - {a}. pa_bytes (the (pallocs s x)))"
    unfolding palloc_bytes_def using assms(1,2) by (subst sum.remove [of _ a]) auto
  ultimately show ?thesis using assms(3) by (simp add: palloc_bytes_def)
qed

lemma palloc_bytes_eq: "pallocs t = pallocs s \<Longrightarrow> palloc_bytes t = palloc_bytes s"
  by (simp add: palloc_bytes_def)

subsection \<open>The frame of a graph operation\<close>

definition ready :: "env \<Rightarrow> 'z rstate_scheme \<Rightarrow> bool" where
  "ready E s \<longleftrightarrow> vinv E s \<and> graph_ok s \<and> pinv s \<and> allocations_lock_depth s = 0"

definition gstep :: "env \<Rightarrow> nat \<Rightarrow> 'z rstate_scheme \<Rightarrow> 'z rstate_scheme \<Rightarrow> bool" where
  "gstep E g s t \<longleftrightarrow> ready E t \<and> spare t = spare s \<and> vbar_lock_depth t = vbar_lock_depth s \<and>
     device_id t = device_id s \<and> active_graph t = active_graph s \<and> vranges t = vranges s \<and> rogues t = rogues s \<and>
     rogue_heap t = rogue_heap s \<and> rogue_candidates t = rogue_candidates s \<and> rstate.more t = rstate.more s \<and>
     (\<forall>h. h \<noteq> g \<longrightarrow> graphs t h = graphs s h) \<and> (graphs s g \<noteq> None \<longrightarrow> graphs t g \<noteq> None) \<and>
     mnext s \<le> mnext t \<and> ppages s \<subseteq>\<^sub>m ppages t"

interpretation graph_frame: frame_rules "ready E" "gstep E g" for E g
proof
  show "gstep E g s u" if "gstep E g s t" "gstep E g t u" for s t u :: "'a rstate_scheme"
  proof -
    have "ppages s \<subseteq>\<^sub>m ppages u"
      by (rule map_le_trans [of _ "ppages t"]) (use that in \<open>simp_all add: gstep_def\<close>)
    then show ?thesis using that by (simp add: gstep_def)
  qed
qed (simp_all add: gstep_def)

lemma gstep_refl: "ready E s \<Longrightarrow> gstep E g s s"
  by (rule graph_frame.R_refl)

lemma gstep_trans: "gstep E g s t \<Longrightarrow> gstep E g t u \<Longrightarrow> gstep E g s u"
  by (rule graph_frame.R_trans)

lemma gstep_ready: "gstep E g s t \<Longrightarrow> ready E t"
  by (rule graph_frame.R_keeps)

lemma gstep_rogues:
  assumes "gstep E g s t"
  shows "find_rogue p t = find_rogue p s" "find_candidate p t = find_candidate p s"
  using assms by (simp_all add: gstep_def find_rogue_def find_candidate_def)

lemma gstep_ranges:
  assumes "gstep E g s t"
  shows "vranges t = vranges s" "dom (ppages s) \<subseteq> dom (ppages t)" "mnext s \<le> mnext t" "active_graph t = active_graph s"
    "ppages s \<subseteq>\<^sub>m ppages t"
  using assms by (simp_all add: gstep_def map_le_implies_dom_le)

text \<open>Changing the graph itself.\<close>

lemma set_graph_sel [simp]:
  "graphs (set_graph g mg s) = (graphs s)(g \<mapsto> mg)" "hist (set_graph g mg s) = hist s"
  by (simp_all add: set_graph_def)

lemma set_graph_frame [simp]:
  fixes s :: "'z rstate_scheme"
  shows "pallocs (set_graph g mg s) = pallocs s" "ppages (set_graph g mg s) = ppages s" "mnext (set_graph g mg s) = mnext s"
    "vranges (set_graph g mg s) = vranges s" "rogues (set_graph g mg s) = rogues s" "rogue_heap (set_graph g mg s) = rogue_heap s"
    "rogue_candidates (set_graph g mg s) = rogue_candidates s" "active_graph (set_graph g mg s) = active_graph s"
    "allocations_lock_depth (set_graph g mg s) = allocations_lock_depth s" "rstate.more (set_graph g mg s) = rstate.more s"
    "device_id (set_graph g mg s) = device_id s" "vbar_lock_depth (set_graph g mg s) = vbar_lock_depth s"
    "vheap (set_graph g mg s) = vheap s" "vorder (set_graph g mg s) = vorder s" "vnext (set_graph g mg s) = vnext s"
    "total_vram_usage (set_graph g mg s) = total_vram_usage s"
  by (simp_all add: set_graph_def)

lemma spare_set_graph [simp]: "spare (set_graph g mg s) = spare s"
  by (simp add: spare_def other_bytes_def owned_pages_def palloc_bytes_def set_graph_def)

lemma ready_set_graph: "ready E s \<Longrightarrow> graphs s g \<noteq> None \<Longrightarrow> ready E (set_graph g mg s)"
  by (auto simp: ready_def vinv_def graph_ok_def set_graph_def intro: pinv_cong)

lemma gstep_set_graph: "ready E s \<Longrightarrow> graphs s g \<noteq> None \<Longrightarrow> gstep E g s (set_graph g mg s)"
  using ready_set_graph [of E s g mg] by (simp add: gstep_def)

lemma gstep_set: "gstep E g s t \<Longrightarrow> graphs s g \<noteq> None \<Longrightarrow> gstep E g s (set_graph g mg t)"
  using gstep_trans [of E g s t] gstep_set_graph [OF gstep_ready, of E g s t g mg] by (simp add: gstep_def)

lemma fail_graph_run: "graphs s g = Some mg \<Longrightarrow> fail_graph g s = Some (set_graph g (mg\<lparr>mg_failed := True\<rparr>) s)"
  by (simp add: fail_graph_def)

end
