(* ===== verification/GraphMapInv.thy ===== *)
theory GraphMapInv
  imports GraphFrame
begin

text \<open>
  Creating and mapping the pages of a graph: each either works, with the page owned and mapped and
  its bytes accounted, or reports an error with no page added.
\<close>

lemma more_rstate:
  assumes "vstate.more t = vstate.more (s :: 'z rstate_scheme)"
  shows "vranges t = vranges s" "pallocs t = pallocs s" "ppages t = ppages s" "mnext t = mnext s"
    "rogues t = rogues s" "rogue_heap t = rogue_heap s" "rogue_candidates t = rogue_candidates s" "rstate.more t = rstate.more s"
  using assms by (cases s; cases t; simp)+

lemma beside_gstep:
  assumes "ready E s" "beside E s 0 t"
  shows "gstep E g s t" "graphs t = graphs s" "ppages t = ppages s" "pallocs t = pallocs s"
proof -
  have b: "vinv E t" "graph_ok t" "vstate.more t = vstate.more s" "device_id t = device_id s" "vbar_lock_depth t = vbar_lock_depth s"
    "allocations_lock_depth t = allocations_lock_depth s" "graphs t = graphs s" "active_graph t = active_graph s"
    "other_bytes t = other_bytes s" using assms(2) by (simp_all add: beside_def)
  note m = more_rstate [OF b(3)]
  show "graphs t = graphs s" "ppages t = ppages s" "pallocs t = pallocs s" by (rule b m)+
  have "pinv t" using assms(1) m by (auto simp: ready_def intro: pinv_cong)
  moreover have "spare t = spare s" using b m by (simp add: spare_def palloc_bytes_def)
  ultimately show "gstep E g s t"
    unfolding gstep_def ready_def
    using assms(1) b(1,2,4-8) m by (intro conjI) (simp_all add: ready_def)
qed

text \<open>The operations on physical pages keep the frame.\<close>

lemma vmm_gstep:
  assumes "ready E s" "vmm_frame s t" "pinv t" "vranges t = vranges s" "graphs s g \<noteq> None"
    "mnext s \<le> mnext t" "ppages s \<subseteq>\<^sub>m ppages t"
    "total_vram_usage t - palloc_bytes t = total_vram_usage s - palloc_bytes s"
  shows "gstep E g s t" "graphs t = graphs s"
proof -
  note f = vmm_frameD [OF assms(2)]
  have r: "rogues t = rogues s" "rogue_heap t = rogue_heap s" "rogue_candidates t = rogue_candidates s" "rstate.more t = rstate.more s"
    using f(8) by (cases s; cases t; simp)+
  show "graphs t = graphs s" by (rule f)
  have "owned_pages t = owned_pages s" using f by (simp add: owned_pages_def)
  then have "spare t = spare s" using assms(8) by (simp add: spare_def other_bytes_def algebra_simps)
  moreover have "vinv E t" "graph_ok t" using assms(1) f by (simp_all add: ready_def vinv_def graph_ok_def)
  ultimately show "gstep E g s t" using assms f r by (simp add: gstep_def ready_def)
qed

lemma ready_note_error:
  fixes s :: "'z rstate_scheme"
  assumes "ready E s"
  shows "gstep E g s (note_driver_error E e s)" "graphs (note_driver_error E e s) = graphs s"
    "ppages (note_driver_error E e s) = ppages s" "pallocs (note_driver_error E e s) = pallocs s"
    "hist (note_driver_error E e s) = hist s"
  using assms
  by (auto simp: note_driver_error_def gstep_def ready_def vinv_def graph_ok_def spare_def other_bytes_def owned_pages_def
      palloc_bytes_def intro: pinv_cong)

lemma ready_hist:
  fixes s :: "'z rstate_scheme"
  assumes "ready E s"
  shows "gstep E g s (s\<lparr>hist := h\<rparr>)"
  using assms
  by (auto simp: gstep_def ready_def vinv_def graph_ok_def spare_def other_bytes_def owned_pages_def
      palloc_bytes_def intro: pinv_cong)

lemma allocated_bytes:
  assumes "pinv s" "page_allocated E n p s t"
  shows "total_vram_usage t - palloc_bytes t = total_vram_usage s - palloc_bytes s" "mnext s \<le> mnext t"
    "ppages t p \<noteq> None" "ppages s p = None" "ppages s \<subseteq>\<^sub>m ppages t"
proof -
  obtain a h where a: "a \<notin> dom (pallocs s)" "ppages t = (ppages s)(p \<mapsto> \<lparr>pp_allocation = a, pp_address = 0\<rparr>)"
    "pallocs t = (pallocs s)(a \<mapsto> \<lparr>pa_handle = h, pa_bytes = n, pa_refs = 1, pa_references = [p]\<rparr>)"
    "total_vram_usage t = total_vram_usage s + n" "mnext s \<le> p" "p < mnext t" "p \<notin> dom (ppages s)"
    using assms(2) by (auto simp: page_allocated_def)
  show "total_vram_usage t - palloc_bytes t = total_vram_usage s - palloc_bytes s"
    using palloc_bytes_new [OF finite_pallocs [OF assms(1)] a(1,3)] a(4) by (simp add: algebra_simps)
  show "mnext s \<le> mnext t" "ppages t p \<noteq> None" "ppages s p = None" "ppages s \<subseteq>\<^sub>m ppages t" using a by (auto simp: map_le_def)
qed

text \<open>A new page is in \<open>t\<close> and was not in \<open>s\<close>; the graph only lost test attempts.\<close>

definition page_created :: "env \<Rightarrow> nat \<Rightarrow> 'z rstate_scheme \<Rightarrow> int + nat \<Rightarrow> 'z rstate_scheme \<Rightarrow> bool" where
  "page_created E g s r t \<longleftrightarrow> gstep E g s t \<and>
     (\<exists>mg k. graphs s g = Some mg \<and> graphs t g = Some (mg\<lparr>mg_test_page_create_oom_attempts := k\<rparr>)) \<and>
     (case r of Inl e \<Rightarrow> e \<noteq> CUDA_SUCCESS | Inr p \<Rightarrow> ppages t p \<noteq> None \<and> ppages s p = None)"

lemma page_createdI:
  assumes "gstep E g s t" "graphs s g = Some mg" "graphs t g = graphs s g"
    "case r of Inl e \<Rightarrow> e \<noteq> CUDA_SUCCESS | Inr p \<Rightarrow> ppages t p \<noteq> None \<and> ppages s p = None"
  shows "page_created E g s r t"
  unfolding page_created_def using assms
  by (intro conjI exI [of _ mg] exI [of _ "mg_test_page_create_oom_attempts mg"]) simp_all

lemma page_created_trans:
  assumes "gstep E g s t" "graphs s g = Some mg" "graphs t g = Some (mg\<lparr>mg_test_page_create_oom_attempts := k\<rparr>)"
    "page_created E g t r u"
  shows "page_created E g s r u"
proof -
  have "gstep E g s u" using gstep_trans [OF assms(1)] assms(4) by (simp add: page_created_def)
  moreover have "ppages s p = None" if "ppages t p = None" for p
    using gstep_ranges(2) [OF assms(1)] that by auto
  ultimately show ?thesis using assms(2-4) by (auto simp: page_created_def split: sum.splits)
qed

lemma wp_alloc_graph_page:
  assumes "ready E s" "graphs s g = Some mg"
  shows "wp (alloc_graph_page E g s) (page_created E g s)"
proof (cases "is_xpu E \<and> mg_test_page_create_oom_attempts mg \<noteq> 0")
  case True
  let ?mg = "mg\<lparr>mg_test_page_create_oom_attempts := mg_test_page_create_oom_attempts mg - 1\<rparr>"
  have "alloc_graph_page E g s = Some (Inl CUDA_ERROR_OUT_OF_MEMORY, set_graph g ?mg s)"
    using True assms(2) by (simp add: alloc_graph_page_def)
  moreover have "page_created E g s (Inl CUDA_ERROR_OUT_OF_MEMORY) (set_graph g ?mg s)"
    using gstep_set_graph [OF assms(1), of g ?mg] assms(2)
    by (simp add: page_created_def) (rule exI [of _ "mg_test_page_create_oom_attempts mg - 1"], simp)
  ultimately show ?thesis by simp
next
  case False
  have s: "pinv s" "allocations_lock_depth s = 0" using assms(1) by (simp_all add: ready_def)
  have "wp (physical_page_alloc E (of_nat MG_PAGE) (mg_device mg) s) (page_created E g s)"
  proof (rule wp_conseq [OF wp_physical_page_alloc [OF s]], elim conjE, goal_cases)
    case (1 r t)
    show ?case
    proof (cases r)
      case (Inl e)
      then have "gstep E g s t" "graphs t = graphs s"
        using 1 vmm_gstep [OF assms(1) 1(2,1), of g] assms(2) by (auto simp: pages_same_def palloc_bytes_def)
      then show ?thesis using Inl 1 assms(2) by (intro page_createdI) auto
    next
      case (Inr p)
      then have a: "page_allocated E (of_nat MG_PAGE) p s t" using 1 by simp
      note ab = allocated_bytes [OF s(1) a]
      have "gstep E g s t" "graphs t = graphs s"
        using vmm_gstep [OF assms(1) 1(2,1,4) _ ab(2,5,1), of g] assms(2) by simp_all
      then show ?thesis using Inr ab assms(2) by (intro page_createdI) auto
    qed
  qed
  then show ?thesis using False assms(2) by (auto simp: alloc_graph_page_def)
qed

lemma wp_free_for_graph:
  assumes "ready E s"
  shows "wp (free_vbars_for_graph_allocation E n s) (\<lambda>_ t. gstep E g s t \<and> graphs t = graphs s)"
proof -
  have inv: "vinv E s" "graph_ok s" using assms by (simp_all add: ready_def)
  show ?thesis
    by (simp add: free_vbars_for_graph_allocation_def)
      (auto intro: wp_conseq [OF wp_free_for_allocator_beside [OF inv]] wp_conseq [OF wp_vbars_free_beside [OF inv]]
        beside_gstep [OF assms])
qed

lemma wp_create_page_end:
  assumes "page_created E g s r t"
  shows "wp (create_page_end E r t) (page_created E g s)"
proof (cases r)
  case (Inl e)
  have "ready E t" using assms by (auto simp: page_created_def dest: gstep_ready)
  note e = ready_note_error [OF this]
  show ?thesis
    using Inl assms e(2) gstep_trans [OF _ e(1)] by (auto simp: create_page_end_def page_created_def)
next
  case (Inr p)
  then show ?thesis using assms by (simp add: create_page_end_def)
qed

lemma wp_create_page:
  assumes "ready E s" "graphs s g = Some mg"
  shows "wp (create_page E g s) (page_created E g s)"
proof -
  have start: "graphs s g = Some (mg\<lparr>mg_test_page_create_oom_attempts := mg_test_page_create_oom_attempts mg\<rparr>)"
    using assms(2) by simp
  have unknown: "page_created E g s (Inl CUDA_ERROR_UNKNOWN) t"
    if "gstep E g s t" "graphs t g = Some (mg\<lparr>mg_test_page_create_oom_attempts := k\<rparr>)" for t k
    using that assms(2) by (auto simp: page_created_def)
  have attempt: "wp (alloc_graph_page E g t) (page_created E g s)"
    if "gstep E g s t" "graphs t g = Some (mg\<lparr>mg_test_page_create_oom_attempts := k\<rparr>)" for t k
    by (rule wp_conseq [OF wp_alloc_graph_page [OF gstep_ready [OF that(1)] that(2)]])
      (rule page_created_trans [OF that(1) assms(2) that(2)])
  have free: "wp (free_vbars_for_graph_allocation E n t) (\<lambda>_ u. gstep E g s u \<and> graphs u g = graphs t g)"
    if "gstep E g s t" for t n
    by (rule wp_conseq [OF wp_free_for_graph [OF gstep_ready [OF that], of _ g]]) (use gstep_trans [OF that] in auto)
  have retry: "wp (free_vbars_for_graph_allocation E n t) (\<lambda>ok t. wp (if \<not> ok then Some (Inl CUDA_ERROR_UNKNOWN, t)
      else do { (r, t) \<leftarrow> alloc_graph_page E g t; create_page_end E r t }) (page_created E g s))"
    if "gstep E g s t" "graphs t g = Some (mg\<lparr>mg_test_page_create_oom_attempts := k\<rparr>)" for t k n
  proof (rule wp_conseq [OF free [OF that(1)]], goal_cases)
    case (1 ok u)
    then have u: "gstep E g s u" "graphs u g = Some (mg\<lparr>mg_test_page_create_oom_attempts := k\<rparr>)" using that(2) by auto
    have "wp (alloc_graph_page E g u) (\<lambda>r t. wp (create_page_end E r t) (page_created E g s))"
      by (rule wp_conseq [OF attempt [OF u]]) (rule wp_create_page_end)
    then show ?case using unknown [OF u] by (cases ok) (simp_all del: One_nat_def)
  qed
  have try_once: "wp (alloc_graph_page E g t) (\<lambda>r u. wp (if r = Inl CUDA_ERROR_OUT_OF_MEMORY then do {
         (ok, s) \<leftarrow> free_vbars_for_graph_allocation E (int MG_PAGE) u;
         if \<not> ok then Some (Inl CUDA_ERROR_UNKNOWN, s)
         else do { (r, s) \<leftarrow> alloc_graph_page E g s; create_page_end E r s } }
       else create_page_end E r u) (page_created E g s))"
    if "gstep E g s t" "graphs t g = Some (mg\<lparr>mg_test_page_create_oom_attempts := k\<rparr>)" for t k
  proof (rule wp_conseq [OF attempt [OF that]], goal_cases)
    case (1 r u)
    then obtain k' where u: "gstep E g s u" "graphs u g = Some (mg\<lparr>mg_test_page_create_oom_attempts := k'\<rparr>)"
      using assms(2) by (auto simp: page_created_def)
    show ?case
    proof (cases "r = Inl CUDA_ERROR_OUT_OF_MEMORY")
      case True
      then show ?thesis
        using retry [OF u] unfolding if_P [OF True] wp_bind split_conv by simp
    qed (use wp_create_page_end [OF 1] in simp)
  qed
  have first: "wp (free_vbars_for_graph_allocation E n t) (\<lambda>ok u. wp (if \<not> ok then Some (Inl CUDA_ERROR_UNKNOWN, u) else do {
      (r, s) \<leftarrow> alloc_graph_page E g u;
      if r = Inl CUDA_ERROR_OUT_OF_MEMORY then do {
         (ok, s) \<leftarrow> free_vbars_for_graph_allocation E (int MG_PAGE) s;
         if \<not> ok then Some (Inl CUDA_ERROR_UNKNOWN, s)
         else do { (r, s) \<leftarrow> alloc_graph_page E g s; create_page_end E r s } }
       else create_page_end E r s }) (page_created E g s))"
    if t: "gstep E g s t" "graphs t g = graphs s g" for t n
  proof (rule wp_conseq [OF free [OF t(1)]], goal_cases)
    case (1 ok u)
    then have u: "gstep E g s u" "graphs u g = Some (mg\<lparr>mg_test_page_create_oom_attempts := mg_test_page_create_oom_attempts mg\<rparr>)"
      using t(2) start by auto
    show ?case using unknown [OF u] try_once [OF u] by (cases ok) (simp_all only: wp_bind split_conv if_True if_False not_True_eq_False not_False_eq_True wp_Some)
  qed
  have sampled: "wp (budget_deficit E n s) (\<lambda>_ t. gstep E g s t \<and> graphs t g = graphs s g)" for n
    by (rule wp_conseq [OF wp_budget_beside]) (use assms(1) beside_gstep [OF assms(1)] in \<open>auto simp: ready_def\<close>)
  show ?thesis
    unfolding create_page_def
    by (subst wp_bind, rule wp_conseq [OF sampled], unfold split_conv, subst wp_bind, unfold split_conv,
        rule first) simp_all
qed

subsection \<open>Mapping a reference\<close>

definition mapped_at :: "'z rstate_scheme \<Rightarrow> nat \<Rightarrow> u64 \<Rightarrow> nat \<Rightarrow> 'z rstate_scheme \<Rightarrow> bool" where
  "mapped_at s page address reference t \<longleftrightarrow> ppages s reference = None \<and>
     ppages t reference = Some \<lparr>pp_allocation = allocation_of s page, pp_address = address\<rparr>"

lemma referenced_bytes:
  assumes "page_referenced p x q s t"
  shows "total_vram_usage t - palloc_bytes t = total_vram_usage s - palloc_bytes s" "mnext s \<le> mnext t"
    "ppages s q = None" "ppages t q = Some \<lparr>pp_allocation = allocation_of s p, pp_address = x\<rparr>" "ppages s \<subseteq>\<^sub>m ppages t"
    "\<And>r. r \<noteq> q \<Longrightarrow> ppages t r = ppages s r"
proof -
  obtain pg al where a: "ppages s p = Some pg" "pallocs s (pp_allocation pg) = Some al" "q \<notin> dom (ppages s)" "mnext s \<le> q" "q < mnext t"
    "ppages t = (ppages s)(q \<mapsto> \<lparr>pp_allocation = pp_allocation pg, pp_address = x\<rparr>)"
    "pallocs t = (pallocs s)(pp_allocation pg \<mapsto> al\<lparr>pa_refs := pa_refs al + 1, pa_references := q # pa_references al\<rparr>)"
    "total_vram_usage t = total_vram_usage s"
    using assms by (auto simp: page_referenced_def)
  have "palloc_bytes t = palloc_bytes s" by (rule palloc_bytes_same [OF a(2,7)]) simp
  then show "total_vram_usage t - palloc_bytes t = total_vram_usage s - palloc_bytes s" using a(8) by simp
  show "mnext s \<le> mnext t" "ppages s q = None" "ppages t q = Some \<lparr>pp_allocation = allocation_of s p, pp_address = x\<rparr>"
    "ppages s \<subseteq>\<^sub>m ppages t" "\<And>r. r \<noteq> q \<Longrightarrow> ppages t r = ppages s r"
    using a by (auto simp: allocation_of_def map_le_def)
qed

lemma kept_bytes:
  assumes "page_kept E p pg s t" "ppages s p = Some pg"
  shows "total_vram_usage t - palloc_bytes t = total_vram_usage s - palloc_bytes s" "\<And>r. r \<noteq> p \<Longrightarrow> ppages t r = ppages s r" "mnext t = mnext s"
  using assms by (auto simp: page_kept_def palloc_bytes_def split: if_splits)

lemma dropped_bytes:
  assumes "pinv s" "page_dropped E p pg al s t" "ppages s p = Some pg" "pallocs s (pp_allocation pg) = Some al"
  shows "total_vram_usage t - palloc_bytes t = total_vram_usage s - palloc_bytes s" "mnext t = mnext s" "ppages t = (ppages s)(p := None)"
proof -
  show "mnext t = mnext s" "ppages t = (ppages s)(p := None)" using assms(2) by (simp_all add: page_dropped_def)
  show "total_vram_usage t - palloc_bytes t = total_vram_usage s - palloc_bytes s"
  proof (cases "pa_references al = [p]")
    case True
    then have "pallocs t = (pallocs s)(pp_allocation pg := None)" "total_vram_usage t = total_vram_usage s - pa_bytes al"
      using assms(2) by (simp_all add: page_dropped_def)
    moreover have "palloc_bytes t = palloc_bytes s - pa_bytes al"
      by (rule palloc_bytes_dropped [OF finite_pallocs [OF assms(1)] assms(4)]) (use True assms(2) in \<open>simp add: page_dropped_def\<close>)
    ultimately show ?thesis by simp
  next
    case False
    then have t: "pallocs t = (pallocs s)(pp_allocation pg \<mapsto> al\<lparr>pa_refs := pa_refs al - 1, pa_references := remove1 p (pa_references al)\<rparr>)"
      "total_vram_usage t = total_vram_usage s"
      using assms(2) by (simp_all add: page_dropped_def)
    show ?thesis using palloc_bytes_same [OF assms(4) t(1)] t(2) by simp
  qed
qed

text \<open>Taking back a reference that was new in \<open>s\<close>.\<close>

lemma wp_unref_new:
  assumes "gstep E g s t" "graphs s g \<noteq> None" "ppages s q = None" "ppages t q \<noteq> None" "graphs t = graphs s"
  shows "wp (physical_page_unref E (Some q) t) (\<lambda>_ u. gstep E g s u \<and> graphs u = graphs s)"
proof -
  have t: "ready E t" "pinv t" "allocations_lock_depth t = 0" using gstep_ready [OF assms(1)] by (simp_all add: ready_def)
  obtain pg al where q: "ppages t q = Some pg" "pallocs t (pp_allocation pg) = Some al"
    using assms(4) pinv_page(2) [OF t(2)] by blast
  show ?thesis
  proof (rule wp_conseq [OF wp_physical_page_unref [OF t(2,3) q]], elim conjE, goal_cases)
    case (1 r u)
    have b: "total_vram_usage u - palloc_bytes u = total_vram_usage t - palloc_bytes t" "mnext u = mnext t"
      "ppages s \<subseteq>\<^sub>m ppages u"
    proof -
      show "total_vram_usage u - palloc_bytes u = total_vram_usage t - palloc_bytes t"
        using kept_bytes(1) [OF _ q(1)] dropped_bytes(1) [OF t(2) _ q] 1(4,5) by (cases "r = 0") blast+
      show "mnext u = mnext t"
        using kept_bytes(3) [OF _ q(1)] dropped_bytes(2) [OF t(2) _ q] 1(4,5) by (cases "r = 0") blast+
      have "ppages u x = ppages t x" if "x \<noteq> q" for x
      proof (cases "r = 0")
        case True
        then have "ppages u = (ppages t)(q := None)" using dropped_bytes(3) [OF t(2) _ q] 1(4) by blast
        then show ?thesis using that by simp
      next
        case False
        then show ?thesis using kept_bytes(2) [OF _ q(1) that] 1(5) by blast
      qed
      then show "ppages s \<subseteq>\<^sub>m ppages u" using gstep_ranges(5) [OF assms(1)] assms(3) by (metis domIff map_le_def)
    qed
    note v = vmm_frameD [OF 1(2)]
    have r: "rogues u = rogues t" "rogue_heap u = rogue_heap t" "rogue_candidates u = rogue_candidates t" "rstate.more u = rstate.more t"
      using v(8) by (cases t; cases u; simp)+
    have "owned_pages u = owned_pages t" using v by (simp add: owned_pages_def)
    then have sp: "spare u = spare t" using b(1) by (simp add: spare_def other_bytes_def algebra_simps)
    have "ready E u" using t(1) v 1(1) by (simp add: ready_def vinv_def graph_ok_def)
    then have "gstep E g s u" using assms(1) sp b(2,3) v r 1(3) by (simp add: gstep_def)
    then show ?case using v(5) assms(5) by simp
  qed
qed

lemma wp_map_reference:
  assumes "ready E s" "graphs s g = Some mg" "ppages s page \<noteq> None"
  shows "wp (map_reference E g address page s) (\<lambda>r t. gstep E g s t \<and> graphs t = graphs s \<and>
    (case r of Inl e \<Rightarrow> e \<noteq> CUDA_SUCCESS | Inr reference \<Rightarrow> mapped_at s page address reference t))"
    (is "wp _ ?Q")
proof -
  obtain pg where pg: "ppages s page = Some pg" using assms(3) by blast
  have s: "pinv s" "allocations_lock_depth s = 0" using assms(1) by (simp_all add: ready_def)
  show ?thesis
    unfolding map_reference_def
  proof (rule wp_step [OF wp_physical_page_ref [OF s pg]], elim conjE, rule wp_opt, goal_cases)
    case (1 r t)
    then have "gstep E g s t" "graphs t = graphs s"
      using vmm_gstep [OF assms(1) 1(2,1,3), of g] assms(2) by (auto simp: pages_same_def palloc_bytes_def)
    then show ?case by simp
  next
    case (2 r t q)
    then have ref: "page_referenced page 0 q s t" by simp
    note b = referenced_bytes [OF ref]
    have t: "gstep E g s t" "graphs t = graphs s"
      using vmm_gstep [OF assms(1) 2(2,1,3) _ b(2,5,1), of g] assms(2) by simp_all
    have q: "ppages s q = None" "ppages t q \<noteq> None" using b by auto
    have rt: "ready E t" "pinv t" using gstep_ready [OF t(1)] by (simp_all add: ready_def)
    have "ppages t page = Some pg" using b(6) [of page] pg b(3) by (cases "page = q") auto
    then obtain h where h: "physical_page_get page t = Some h"
      using pinv_page(2) [OF rt(2)] by (fastforce simp: physical_page_get_def)
    have gt: "graphs t g = Some mg" using t(2) assms(2) by simp
    let ?u = "\<lambda>h. t\<lparr>hist := h\<rparr>"
    let ?pg = "\<lparr>pp_allocation = allocation_of s page, pp_address = address\<rparr>"
    let ?v = "\<lambda>h. t\<lparr>ppages := (ppages t)(q \<mapsto> ?pg), hist := h\<rparr>"
    have u: "gstep E g s (?u hs)" for hs by (rule gstep_trans [OF t(1) ready_hist [OF rt(1)]])
    have v: "gstep E g s (?v hs)" for hs
    proof -
      have "pinv (?v hs)" by (rule pinv_set_address [OF rt(2) b(4), of _ address]) simp_all
      then have "ready E (?v hs)" using rt(1) by (simp add: ready_def vinv_def graph_ok_def)
      moreover have "spare (?v hs) = spare t" by (simp add: spare_def other_bytes_def owned_pages_def palloc_bytes_def)
      moreover have "ppages s \<subseteq>\<^sub>m ppages (?v hs)" using b(5) q(1) by (auto simp: map_le_def)
      ultimately show ?thesis using t(1) by (simp add: gstep_def)
    qed
    have fail: "wp (do { (_, u) \<leftarrow> physical_page_unref E (Some q) (note_driver_error E e w); Some (Inl e, u) }) ?Q"
      if w: "gstep E g s w" "graphs w = graphs s" "ppages w q \<noteq> None" and e: "e \<noteq> CUDA_SUCCESS" for w e
    proof -
      note n = ready_note_error [OF gstep_ready [OF w(1)]]
      show ?thesis
        by (rule wp_step [OF wp_unref_new [OF gstep_trans [OF w(1) n(1)] _ q(1)]])
          (use assms(2) w n e in auto)
    qed
    let ?m = "MemMap address (of_nat MG_PAGE) h"
    let ?a = "MemSetAccess address (of_nat MG_PAGE) (mg_device mg)"
    have q4: "ppages t q = Some \<lparr>pp_allocation = allocation_of s page, pp_address = 0\<rparr>" by (rule b(4))
    show ?case
    proof (cases "r_rc (drv E (hist t) ?m) = 0")
      case True
      then show ?thesis
        using fail [of "?v (?a # ?m # hist t)" "r_rc (drv E (?m # hist t) ?a)"] v [of "?a # ?m # hist t"] h gt q4 t(2) q(1)
        by (simp add: ask_def set_page_address_def mapped_at_def)
    next
      case False
      then show ?thesis
        using fail [of "?u (?m # hist t)" "r_rc (drv E (hist t) ?m)"] u [of "?m # hist t"] h gt q4 t(2) q(1)
        by (simp add: ask_def)
    qed
  qed
qed

end
