(* ===== verification/GraphApi.thy ===== *)
theory GraphApi
  imports GraphAlloc
begin

text \<open>
  The life of an allocation graph (\<open>src/malloc-graph.c\<close>): handing candidates over to rogues,
  aborting, replacing the pages that rogues keep, and the exported operations. A handle is
  \<open>None\<close> for \<open>NULL\<close>. On XPU a page whose release fails stays reachable so that the destruction
  can be tried again; elsewhere a destruction ignores the errors.
\<close>

subsection \<open>Handing candidates over\<close>

text \<open>The pages behind a candidate, its range and its address.\<close>

definition small_last_page :: "event \<Rightarrow> nat" where
  "small_last_page c = (ev_value c + align_up (ev_bytes c) MG_SMALL_ALIGN + (2 ^ 64 - 1)) mod 2 ^ 64 div MG_PAGE"

definition candidate_pages :: "malloc_graph \<Rightarrow> event \<Rightarrow> nat list option" where
  "candidate_pages mg c =
     (if is_small c then
        let first = ev_value c div MG_PAGE; count = small_last_page c - first + 1 in
        if first + count > MG_SMALL_PAGES then None
        else those (map (mg_small_physical_pages mg) [first..<first + count])
      else those (map (\<lambda>va. do { p \<leftarrow> phys_of mg va; mg_physical_pages mg p })
             [ev_value c..<ev_value c + pages_of (ev_bytes c)]))"

fun set_black_holes :: "u64 \<Rightarrow> nat list \<Rightarrow> (nat \<Rightarrow> u64) \<Rightarrow> (nat \<Rightarrow> u64)" where
  "set_black_holes ptr [] m = m"
| "set_black_holes ptr (va # vas) m = set_black_holes ptr vas (m(va := ptr))"

definition handoff_step :: "env \<Rightarrow> nat \<Rightarrow> nat \<Rightarrow> bool \<Rightarrow> 'z rstate_scheme \<Rightarrow> ((bool + unit) \<times> 'z rstate_scheme) option" where
  "handoff_step E g c = (\<lambda>freed s. do {
     mg \<leftarrow> graphs s g;
     e \<leftarrow> mg_events mg c;
     rng \<leftarrow> (if is_small e then mg_small_base mg else mg_base mg);
     ptr \<leftarrow> candidate_ptr mg e s;
     pages \<leftarrow> candidate_pages mg e;
     (handoff, s) \<leftarrow> handoff_rogue E rng ptr pages s;
     if handoff = ROGUE_HANDOFF_ERROR then do { s \<leftarrow> fail_graph g s; Some (Inr (), s) }
     else do {
       mg \<leftarrow> graphs s g;
       let owned = (ev_rogue_owned e \<or> handoff \<noteq> ROGUE_HANDOFF_FREED);
       let holes = (if owned \<and> ev_type e = EV_ALLOC
             then set_black_holes ptr [ev_value e..<ev_value e + length pages] (mg_black_holes mg) else mg_black_holes mg);
       Some (Inl (freed \<or> handoff = ROGUE_HANDOFF_FREED), set_graph g
         (mg\<lparr>mg_events := (mg_events mg)(c \<mapsto> e\<lparr>ev_rogue_owned := owned\<rparr>), mg_black_holes := holes\<rparr>) s) } })"

definition handoff_rogues :: "env \<Rightarrow> nat \<Rightarrow> 'z rstate_scheme \<Rightarrow> (bool \<times> 'z rstate_scheme) option" where
  "handoff_rogues E g s = do {
     mg \<leftarrow> graphs s g;
     let s = set_graph g (mg\<lparr>mg_handoff_attempted := True\<rparr>) s;
     (ok, s) \<leftarrow> check_cu E CtxSynchronize s;
     if \<not> ok then do { s \<leftarrow> fail_graph g s; Some (False, s) }
     else do {
       (ok, s) \<leftarrow> (if mg_rogue_candidates mg \<noteq> [] then host_alloc E s else Some (True, s));
       if \<not> ok then do { s \<leftarrow> fail_graph g s; Some (False, s) }
       else do {
         (r, s) \<leftarrow> foreach (handoff_step E g) (mg_rogue_candidates mg) False s;
         case r of
           Inr _ \<Rightarrow> Some (False, s)
         | Inl freed \<Rightarrow> do {
             (ok, s) \<leftarrow> (if freed then check_cu E CtxSynchronize s else Some (True, s));
             if \<not> ok then do { s \<leftarrow> fail_graph g s; Some (False, s) }
             else Some (True, s) } } } }"

definition free_rogue_candidates :: "env \<Rightarrow> nat \<Rightarrow> 'z rstate_scheme \<Rightarrow> (unit \<times> 'z rstate_scheme) option" where
  "free_rogue_candidates E g s = do {
     mg \<leftarrow> graphs s g;
     each (\<lambda>c s. do {
       mg \<leftarrow> graphs s g;
       e \<leftarrow> mg_events mg c;
       ptr \<leftarrow> candidate_ptr mg e s;
       (_, s) \<leftarrow> unregister_rogue_candidate E ptr (set_graph g (mg\<lparr>mg_rogue_candidates := tl (mg_rogue_candidates mg)\<rparr>) s);
       mg \<leftarrow> graphs s g;
       Some ((), set_graph g (mg\<lparr>mg_events := (mg_events mg)(c := None)\<rparr>) s) }) (mg_rogue_candidates mg) s }"

subsection \<open>Aborting\<close>

text \<open>
  The frames are visited from the innermost out, each in turn as the current one: \<open>above\<close> are those
  already visited, which the graph gets back at the end.
\<close>

definition abort_frame :: "env \<Rightarrow> nat \<Rightarrow> graph_frame list \<Rightarrow> 'z rstate_scheme \<Rightarrow> ((graph_frame list + bool) \<times> 'z rstate_scheme) option" where
  "abort_frame E g = (\<lambda>above s. do {
     mg \<leftarrow> graphs s g;
     case mg_state mg of
       [] \<Rightarrow> Some (Inr True, set_graph g (mg\<lparr>mg_state := above\<rparr>) s)
     | f # _ \<Rightarrow> do {
         (ok, s) \<leftarrow> materialize E g (fr_cursor f) s;
         (ok, s) \<leftarrow> (if ok then collect_rogue_candidates E g s else Some (False, s));
         mg \<leftarrow> graphs s g;
         if \<not> ok then Some (Inr False, set_graph g (mg\<lparr>mg_state := above @ mg_state mg\<rparr>) s)
         else do {
           f \<leftarrow> top_frame mg;
           Some (Inl (above @ [f]), set_graph g (mg\<lparr>mg_state := tl (mg_state mg)\<rparr>) s) } } })"

definition abort_graph :: "env \<Rightarrow> nat \<Rightarrow> 'z rstate_scheme \<Rightarrow> (bool \<times> 'z rstate_scheme) option" where
  "abort_graph E g s = do {
     mg \<leftarrow> graphs s g;
     if mg_aborted mg then Some (True, s)
     else if mg_handoff_attempted mg then Some (False, s)
     else do {
       let s = set_graph g (mg\<lparr>mg_handoff_attempted := True\<rparr>) s;
       (ok, s) \<leftarrow> loop (length (mg_state mg) + 1) (abort_frame E g) [] s;
       let s = s\<lparr>active_graph := None\<rparr>;
       if \<not> ok then Some (False, s)
       else do {
         (ok, s) \<leftarrow> handoff_rogues E g s;
         if \<not> ok then Some (False, s)
         else do {
           (_, s) \<leftarrow> free_rogue_candidates E g s;
           mg \<leftarrow> graphs s g;
           Some (True, set_graph g (mg\<lparr>mg_aborted := True\<rparr>) s) } } } }"

subsection \<open>Replacing the pages that rogues keep\<close>

text \<open>
  \<open>plan_replacements\<close>: for each rogue that took its candidate, a new page for each physical page
  behind it, or for a small one an unusable range. \<open>Inr\<close> is a failure with what was created.
\<close>

definition replace_page ::
  "env \<Rightarrow> nat \<Rightarrow> nat \<Rightarrow> (nat \<rightharpoonup> nat) \<Rightarrow> 'z rstate_scheme \<Rightarrow> (((nat \<rightharpoonup> nat) + (nat \<rightharpoonup> nat)) \<times> 'z rstate_scheme) option" where
  "replace_page E g va replacements s = do {
     mg \<leftarrow> graphs s g;
     phys \<leftarrow> phys_of mg va;
     if replacements phys \<noteq> None then Some (Inl replacements, s)
     else do {
       (r, s) \<leftarrow> create_page E g s;
       Some (case r of Inl _ \<Rightarrow> Inr replacements | Inr page \<Rightarrow> Inl (replacements(phys \<mapsto> page)), s) } }"

type_synonym plan = "(nat \<rightharpoonup> nat) \<times> small_range list"

definition plan_candidate ::
  "env \<Rightarrow> nat \<Rightarrow> nat \<Rightarrow> plan \<Rightarrow> 'z rstate_scheme \<Rightarrow> ((plan + (nat \<rightharpoonup> nat)) \<times> 'z rstate_scheme) option" where
  "plan_candidate E g c = (\<lambda>(replacements, unusable) s. do {
     mg \<leftarrow> graphs s g;
     e \<leftarrow> mg_events mg c;
     if \<not> ev_rogue_owned e then Some (Inl (replacements, unusable), s)
     else if is_small e then do {
       (ok, s) \<leftarrow> host_alloc E s;
       if \<not> ok then Some (Inr replacements, s)
       else do {
         ptr \<leftarrow> candidate_ptr mg e s;
         let r = \<lparr>sr_offset = candidate_first e, sr_bytes = candidate_end e - candidate_first e,
                  sr_rogue_ptr = ptr, sr_owner_depth = 0, sr_allocation = None\<rparr>;
         Some (Inl (replacements, r # unusable), s) } }
     else do {
       (r, s) \<leftarrow> foreach (replace_page E g) [ev_value e..<ev_value e + pages_of (ev_bytes e)] replacements s;
       Some (case r of Inl m \<Rightarrow> Inl (m, unusable) | Inr m \<Rightarrow> Inr m, s) } })"

definition remap_page :: "env \<Rightarrow> nat \<Rightarrow> (nat \<rightharpoonup> nat) \<Rightarrow> nat \<Rightarrow> bool \<Rightarrow> 'z rstate_scheme \<Rightarrow> ((bool + unit) \<times> 'z rstate_scheme) option" where
  "remap_page E g replacements va failed s = do {
     mg \<leftarrow> graphs s g;
     case (if mg_va_phys mg va < 0 then None else replacements (nat (mg_va_phys mg va))) of
       None \<Rightarrow> Some (Inl failed, s)
     | Some page \<Rightarrow> do {
         (r, s) \<leftarrow> physical_page_unref E (mg_mapped_pages mg va) s;
         if r \<noteq> CUDA_SUCCESS then Some (Inl True, s)
         else do {
           s \<leftarrow> set_mapped_page g va None s;
           if mg_black_holes mg va \<noteq> 0 then Some (Inl failed, s)
           else do {
             addr \<leftarrow> page_address mg va s;
             (m, s) \<leftarrow> map_reference E g addr page s;
             case m of
               Inl _ \<Rightarrow> Some (Inl True, s)
             | Inr reference \<Rightarrow> do {
                 s \<leftarrow> set_mapped_page g va (Some reference) s;
                 Some (Inl failed, s) } } } } }"

definition swap_page :: "env \<Rightarrow> nat \<Rightarrow> (nat \<rightharpoonup> nat) \<Rightarrow> nat \<Rightarrow> 'z rstate_scheme \<Rightarrow> (unit \<times> 'z rstate_scheme) option" where
  "swap_page E g replacements phys s = (case replacements phys of
      None \<Rightarrow> Some ((), s)
    | Some page \<Rightarrow> do {
        mg \<leftarrow> graphs s g;
        (_, s) \<leftarrow> physical_page_unref E (mg_physical_pages mg phys)
          (set_graph g (mg\<lparr>mg_physical_pages := (mg_physical_pages mg)(phys \<mapsto> page)\<rparr>) s);
        Some ((), s) })"

definition drop_replacements :: "env \<Rightarrow> nat \<Rightarrow> (nat \<rightharpoonup> nat) \<Rightarrow> 'z rstate_scheme \<Rightarrow> (bool \<times> 'z rstate_scheme) option" where
  "drop_replacements E g replacements s = do {
     mg \<leftarrow> graphs s g;
     (_, s) \<leftarrow> each (\<lambda>phys s. do { (_, s) \<leftarrow> physical_page_unref E (replacements phys) s; Some ((), s) })
       [0..<mg_phys_count mg] s;
     s \<leftarrow> fail_graph g s;
     Some (False, s) }"

definition finish_finalize :: "env \<Rightarrow> nat \<Rightarrow> small_range list \<Rightarrow> 'z rstate_scheme \<Rightarrow> (bool \<times> 'z rstate_scheme) option" where
  "finish_finalize E g unusable s = do {
     mg \<leftarrow> graphs s g;
     mg \<leftarrow> scrub_allocations (mg\<lparr>mg_small_unusable := rev unusable @ mg_small_unusable mg\<rparr>);
     mg \<leftarrow> scrub_rogue_snapshots [mg_root mg] mg;
     (_, s) \<leftarrow> free_rogue_candidates E g (set_graph g (mg\<lparr>mg_used := allocation_used mg\<rparr>) s);
     mg \<leftarrow> graphs s g;
     Some (True, set_graph g (mg\<lparr>mg_handoff_attempted := False\<rparr>) s) }"

definition finalize_rogues :: "env \<Rightarrow> nat \<Rightarrow> 'z rstate_scheme \<Rightarrow> (bool \<times> 'z rstate_scheme) option" where
  "finalize_rogues E g s = do {
     mg \<leftarrow> graphs s g;
     if mg_rogue_candidates mg = [] then Some (True, s)
     else do {
       (ok, s) \<leftarrow> handoff_rogues E g s;
       if \<not> ok then Some (False, s)
       else do {
         (ok, s) \<leftarrow> host_alloc E s;
         mg \<leftarrow> graphs s g;
         if mg_phys_count mg \<noteq> 0 \<and> \<not> ok then do { s \<leftarrow> fail_graph g s; Some (False, s) }
         else do {
           (r, s) \<leftarrow> foreach (plan_candidate E g) (mg_rogue_candidates mg) (Map.empty, []) s;
           case r of
             Inr replacements \<Rightarrow> drop_replacements E g replacements s
           | Inl (replacements, unusable) \<Rightarrow> do {
               (r, s) \<leftarrow> foreach (remap_page E g replacements) [0..<mg_va_count mg] False s;
               (_, s) \<leftarrow> each (swap_page E g replacements) [0..<mg_phys_count mg] s;
               if r \<noteq> Inl False then do { s \<leftarrow> fail_graph g s; Some (False, s) }
               else finish_finalize E g unusable s } } } } }"

subsection \<open>Creating\<close>

definition new_graph :: "nat \<Rightarrow> nat \<Rightarrow> nat \<Rightarrow> u64 \<Rightarrow> int \<Rightarrow> nat \<Rightarrow> bool \<Rightarrow> bool \<Rightarrow> malloc_graph" where
  "new_graph base small_base root stream dev thread assert_breaks avoid_alias =
    \<lparr>mg_base = Some base, mg_small_base = Some small_base, mg_stream = stream, mg_device = dev, mg_owner_thread = thread,
     mg_events = [root \<mapsto> zero_event], mg_root = root, mg_state = [], mg_rogue_candidates = [],
     mg_allocations = \<lparr>virtual_pages = (\<lambda>_. zero_page), physical_live = (\<lambda>_. False)\<rparr>,
     mg_small_ranges = [], mg_small_unusable = [], mg_black_holes = (\<lambda>_. 0), mg_va_phys = (\<lambda>_. -1),
     mg_physical_pages = Map.empty, mg_mapped_pages = Map.empty, mg_small_physical_pages = Map.empty,
     mg_small_mapped_pages = Map.empty, mg_va_count = 0, mg_phys_count = 0, mg_small_size = 0, mg_small_pages = 0,
     mg_used = 0, mg_peak_used = 0, mg_rogue_count = 0, mg_skipped_root_replays = 0, mg_failed = False,
     mg_complete = False, mg_paused = False, mg_sync_paused = False, mg_assert_breaks = assert_breaks,
     mg_handoff_attempted = False, mg_aborted = False, mg_avoid_physical_alias = avoid_alias,
     mg_test_page_create_oom_attempts = 0, mg_test_destroy_release_stage = 0, mg_destroy_terminal = False\<rparr>"

text \<open>
  \<open>avoid_alias\<close> is the environment variable \<open>AIMDO_XPU_GRAPH_AVOID_ALIAS\<close>. The graph record only
  becomes visible with both of its ranges, so its two allocation failures are the early returns.
\<close>

definition malloc_graph_create ::
  "env \<Rightarrow> nat \<Rightarrow> u64 \<Rightarrow> bool \<Rightarrow> bool \<Rightarrow> 'z rstate_scheme \<Rightarrow> (nat option \<times> 'z rstate_scheme) option" where
  "malloc_graph_create E thread stream assert_breaks avoid_alias s = do {
     (ok, s) \<leftarrow> host_alloc E s;
     if \<not> ok \<or> active_graph s \<noteq> None then Some (None, s)
     else do {
       (base, s) \<leftarrow> virtual_range_alloc E (of_nat (MG_PAGES * MG_PAGE)) (of_nat MG_PAGE) s;
       case base of
         None \<Rightarrow> Some (None, s)
       | Some base \<Rightarrow> do {
           (small_base, s) \<leftarrow> virtual_range_alloc E (of_nat (MG_SMALL_PAGES * MG_PAGE)) (of_nat MG_PAGE) s;
           case small_base of
             None \<Rightarrow> do { (_, s) \<leftarrow> virtual_range_unref E base s; Some (None, s) }
           | Some small_base \<Rightarrow> do {
               let root = mnext s;
               let g = Suc (mnext s);
               let mg = new_graph base small_base root stream (device_id s) thread assert_breaks (is_xpu E \<and> avoid_alias);
               (ok, s) \<leftarrow> push_stack E g root True (set_graph g mg (s\<lparr>mnext := Suc (Suc (mnext s))\<rparr>));
               if \<not> ok then do {
                 (_, s) \<leftarrow> virtual_range_unref E small_base s;
                 (_, s) \<leftarrow> virtual_range_unref E base s;
                 Some (None, s\<lparr>graphs := (graphs s)(g := None)\<rparr>) }
               else Some (Some g, s\<lparr>active_graph := Some g,
                 live_graph_handles := (if is_xpu E \<and> \<not> is_win E then live_graph_handles s + 1 else live_graph_handles s)\<rparr>) } } } }"

subsection \<open>Pausing, entering and leaving\<close>

text \<open>Whether a handle is the active graph and has not failed.\<close>

definition usable_active :: "env \<Rightarrow> nat option \<Rightarrow> 'z rstate_scheme \<Rightarrow> (nat option \<times> 'z rstate_scheme) option" where
  "usable_active E gh s = (case gh of
      None \<Rightarrow> Some (None, s)
    | Some g \<Rightarrow>
        if active_graph s \<noteq> Some g then Some (None, s)
        else do { (failed, s) \<leftarrow> graph_failed E g s; Some (if failed then None else Some g, s) })"

definition malloc_graph_pause :: "env \<Rightarrow> nat option \<Rightarrow> bool \<Rightarrow> bool \<Rightarrow> 'z rstate_scheme \<Rightarrow> (bool \<times> 'z rstate_scheme) option" where
  "malloc_graph_pause E gh paused sync s = do {
     (u, s) \<leftarrow> usable_active E gh s;
     case u of
       None \<Rightarrow> Some (False, s)
     | Some g \<Rightarrow> do {
         mg \<leftarrow> graphs s g;
         Some (True, set_graph g (mg\<lparr>mg_paused := paused, mg_sync_paused := (if sync then paused else mg_sync_paused mg)\<rparr>) s) } }"

definition malloc_graph_set_stream :: "env \<Rightarrow> nat option \<Rightarrow> u64 \<Rightarrow> 'z rstate_scheme \<Rightarrow> (bool \<times> 'z rstate_scheme) option" where
  "malloc_graph_set_stream E gh stream s = do {
     (u, s) \<leftarrow> usable_active E gh s;
     case u of
       None \<Rightarrow> Some (False, s)
     | Some g \<Rightarrow> do { mg \<leftarrow> graphs s g; Some (True, set_graph g (mg\<lparr>mg_stream := stream\<rparr>) s) } }"

text \<open>A new call below the cursor, with an empty scope: the scope, or \<open>None\<close> with the graph failed.\<close>

definition record_call :: "env \<Rightarrow> nat \<Rightarrow> string \<Rightarrow> 'z rstate_scheme \<Rightarrow> (nat option \<times> 'z rstate_scheme) option" where
  "record_call E g name s = do {
     (ok1, s) \<leftarrow> host_alloc E s;
     (ok2, s) \<leftarrow> (if ok1 then host_alloc E s else Some (False, s));
     (ok3, s) \<leftarrow> (if ok2 then host_alloc E s else Some (False, s));
     if \<not> ok3 then do { s \<leftarrow> fail_graph g s; Some (None, s) }
     else do {
       mg \<leftarrow> graphs s g;
       f \<leftarrow> top_frame mg;
       let call = mnext s;
       let scope = Suc (mnext s);
       let s = set_graph g (mg\<lparr>mg_events := (mg_events mg)(call \<mapsto> zero_event, scope \<mapsto> zero_event)\<rparr>)
                 (s\<lparr>mnext := Suc (Suc (mnext s))\<rparr>);
       (ok, s) \<leftarrow> append_event E g (fr_cursor f) call s;
       mg \<leftarrow> graphs s g;
       if \<not> ok then Some (None, set_graph g (mg\<lparr>mg_events := (mg_events mg)(call := None, scope := None), mg_failed := True\<rparr>) s)
       else do {
         e \<leftarrow> mg_events mg call;
         Some (Some scope, set_graph g (mg\<lparr>mg_events := (mg_events mg)
           (call \<mapsto> e\<lparr>ev_type := EV_CALL, ev_scope := Some scope, ev_name := name\<rparr>)\<rparr>) s) } } }"

definition push_call :: "env \<Rightarrow> nat \<Rightarrow> string \<Rightarrow> 'z rstate_scheme \<Rightarrow> (bool \<times> 'z rstate_scheme) option" where
  "push_call E g name s = do {
     (found, s) \<leftarrow> find_event E g EV_CALL 0 0 name s;
     case found of
       Some call \<Rightarrow> do {
         mg \<leftarrow> graphs s g;
         e \<leftarrow> mg_events mg call;
         scope \<leftarrow> ev_scope e;
         push_stack E g scope False s }
     | None \<Rightarrow> do {
         mg \<leftarrow> graphs s g;
         f \<leftarrow> top_frame mg;
         (ok, s) \<leftarrow> (if fr_recording f then Some (True, s) else start_recording E g s);
         if \<not> ok then Some (False, s)
         else do {
           (scope, s) \<leftarrow> record_call E g name s;
           case scope of
             None \<Rightarrow> Some (False, s)
           | Some scope \<Rightarrow> push_stack E g scope True s } } }"

definition malloc_graph_push :: "env \<Rightarrow> nat option \<Rightarrow> string option \<Rightarrow> 'z rstate_scheme \<Rightarrow> (bool \<times> 'z rstate_scheme) option" where
  "malloc_graph_push E gh name s = (case gh of
      None \<Rightarrow> Some (False, s)
    | Some g \<Rightarrow> do {
        (failed, s) \<leftarrow> graph_failed E g s;
        if failed then Some (False, s)
        else case name of
          None \<Rightarrow> do {
            mg \<leftarrow> graphs s g;
            if \<not> mg_complete mg \<or> active_graph s \<noteq> None then Some (False, s)
            else do {
              (ok, s) \<leftarrow> push_stack E g (mg_root mg) False s;
              if \<not> ok then Some (False, s)
              else do {
                mg \<leftarrow> graphs s g;
                Some (True, (set_graph g (mg\<lparr>mg_complete := False\<rparr>) s)\<lparr>active_graph := Some g\<rparr>) } } }
        | Some name \<Rightarrow> if active_graph s \<noteq> Some g then Some (False, s) else push_call E g name s })"

text \<open>\<open>malloc_graph_pop\<close>: 0 on a failure, 2 when the frame departed from what was recorded, else 1.\<close>

definition leave_frame :: "nat \<Rightarrow> 'z rstate_scheme \<Rightarrow> (int \<times> 'z rstate_scheme) option" where
  "leave_frame g s = do {
     mg \<leftarrow> graphs s g;
     f \<leftarrow> top_frame mg;
     let rest = tl (mg_state mg);
     let s = set_graph g (mg\<lparr>mg_state := rest, mg_complete := (mg_complete mg \<or> rest = [])\<rparr>) s;
     Some (if fr_broken f then 2 else 1, if rest = [] then s\<lparr>active_graph := None\<rparr> else s) }"

definition finish_pop :: "env \<Rightarrow> nat \<Rightarrow> 'z rstate_scheme \<Rightarrow> (int \<times> 'z rstate_scheme) option" where
  "finish_pop E g s = do {
     (ok, s) \<leftarrow> collect_rogue_candidates E g s;
     if \<not> ok then do { s \<leftarrow> fail_graph g s; Some (0, s) }
     else do {
       mg \<leftarrow> graphs s g;
       f \<leftarrow> top_frame mg;
       (ok, s) \<leftarrow> (if fr_recording f then do { (e, s) \<leftarrow> event E g EV_END 0 0 s; Some (e \<noteq> None, s) }
         else Some (True, s));
       if \<not> ok then do { s \<leftarrow> fail_graph g s; Some (0, s) }
       else do {
         mg \<leftarrow> graphs s g;
         (ok, s) \<leftarrow> (if length (mg_state mg) = 1 then finalize_rogues E g s else Some (True, s));
         if \<not> ok then Some (0, s) else leave_frame g s } } }"

definition untouched_root :: "env \<Rightarrow> malloc_graph \<Rightarrow> bool" where
  "untouched_root E mg \<longleftrightarrow> is_xpu E \<and> (case mg_state mg of
      [f] \<Rightarrow> \<not> fr_recording f \<and> fr_cursor f = mg_root mg \<and> fr_excluded_allocations f \<noteq> 0
    | _ \<Rightarrow> False)"

definition malloc_graph_pop :: "env \<Rightarrow> nat option \<Rightarrow> 'z rstate_scheme \<Rightarrow> (int \<times> 'z rstate_scheme) option" where
  "malloc_graph_pop E gh s = do {
     (u, s) \<leftarrow> usable_active E gh s;
     case u of
       None \<Rightarrow> Some (0, s)
     | Some g \<Rightarrow> do {
         mg \<leftarrow> graphs s g;
         f \<leftarrow> top_frame mg;
         if untouched_root E mg then
           Some (1, (set_graph g (mg\<lparr>mg_state := [], mg_complete := True,
                       mg_skipped_root_replays := mg_skipped_root_replays mg + 1\<rparr>) s)\<lparr>active_graph := None\<rparr>)
         else do {
           (ok, s) \<leftarrow> (if fr_recording f then Some (True, s)
             else do {
               (e, s) \<leftarrow> find_event E g EV_END 0 0 [] s;
               case e of
                 Some e \<Rightarrow> do { s \<leftarrow> move_cursor g e s; Some (True, s) }
               | None \<Rightarrow> start_recording E g s });
           if \<not> ok then Some (0, s) else finish_pop E g s } } }"

definition malloc_graph_abort :: "env \<Rightarrow> nat \<Rightarrow> nat option \<Rightarrow> 'z rstate_scheme \<Rightarrow> (bool \<times> 'z rstate_scheme) option" where
  "malloc_graph_abort E thread gh s = (case gh of
      None \<Rightarrow> Some (False, s)
    | Some g \<Rightarrow> do {
        mg \<leftarrow> graphs s g;
        if mg_owner_thread mg \<noteq> thread \<or> (\<not> mg_aborted mg \<and> active_graph s \<noteq> Some g) then Some (False, s)
        else abort_graph E g s })"

definition malloc_graph_stat :: "env \<Rightarrow> nat option \<Rightarrow> int \<Rightarrow> 'z gstate_scheme \<Rightarrow> nat option" where
  "malloc_graph_stat E gh which s = (case gh of
      None \<Rightarrow> Some 0
    | Some g \<Rightarrow> do {
        mg \<leftarrow> graphs s g;
        Some (if which = 0 then mg_peak_used mg
              else if which = 1 then (mg_va_count mg + mg_small_pages mg) * MG_PAGE
              else if which = 2 then (mg_phys_count mg + mg_small_pages mg) * MG_PAGE
              else if which = 3 then mg_rogue_count mg
              else if is_xpu E \<and> which = 4 then mg_skipped_root_replays mg
              else 0) })"

subsection \<open>Destroying\<close>

text \<open>On XPU: one release; whether it worked, and whether its error was final.\<close>

definition release_graph_page :: "env \<Rightarrow> nat \<Rightarrow> nat option \<Rightarrow> 'z rstate_scheme \<Rightarrow> (bool \<times> 'z rstate_scheme) option" where
  "release_graph_page E g page s = do {
     (r, s) \<leftarrow> physical_page_unref E page s;
     if r = CUDA_SUCCESS then Some (True, s)
     else do {
       mg \<leftarrow> graphs s g;
       Some (False, if r \<noteq> CUDA_ERROR_OUT_OF_MEMORY then set_graph g (mg\<lparr>mg_destroy_terminal := True\<rparr>) s else s) } }"

datatype page_table = MAPPED | PHYSICAL | SMALL_MAPPED | SMALL_PHYSICAL

fun table_of :: "page_table \<Rightarrow> malloc_graph \<Rightarrow> nat \<Rightarrow> nat option" where
  "table_of MAPPED mg = mg_mapped_pages mg"
| "table_of PHYSICAL mg = mg_physical_pages mg"
| "table_of SMALL_MAPPED mg = mg_small_mapped_pages mg"
| "table_of SMALL_PHYSICAL mg = mg_small_physical_pages mg"

fun clear_entry :: "page_table \<Rightarrow> nat \<Rightarrow> malloc_graph \<Rightarrow> malloc_graph" where
  "clear_entry MAPPED i mg = mg\<lparr>mg_mapped_pages := (mg_mapped_pages mg)(i := None)\<rparr>"
| "clear_entry PHYSICAL i mg = mg\<lparr>mg_physical_pages := (mg_physical_pages mg)(i := None)\<rparr>"
| "clear_entry SMALL_MAPPED i mg = mg\<lparr>mg_small_mapped_pages := (mg_small_mapped_pages mg)(i := None)\<rparr>"
| "clear_entry SMALL_PHYSICAL i mg = mg\<lparr>mg_small_physical_pages := (mg_small_physical_pages mg)(i := None)\<rparr>"

definition test_stage :: "page_table \<Rightarrow> nat option" where
  "test_stage t = (case t of SMALL_MAPPED \<Rightarrow> Some 1 | SMALL_PHYSICAL \<Rightarrow> Some 2 | _ \<Rightarrow> None)"

text \<open>One entry of a page table: \<open>Inl\<close> is whether all were released so far, \<open>Inr\<close> stops at a final error.\<close>

definition release_entry ::
  "env \<Rightarrow> nat \<Rightarrow> page_table \<times> nat \<Rightarrow> bool \<Rightarrow> 'z rstate_scheme \<Rightarrow> ((bool + unit) \<times> 'z rstate_scheme) option" where
  "release_entry E g = (\<lambda>(t, i) released s. do {
     mg \<leftarrow> graphs s g;
     case table_of t mg i of
       None \<Rightarrow> Some (Inl released, s)
     | Some page \<Rightarrow>
         if test_stage t = Some (mg_test_destroy_release_stage mg)
         then Some (Inl False, set_graph g (mg\<lparr>mg_test_destroy_release_stage := 0\<rparr>) s)
         else do {
           (ok, s) \<leftarrow> release_graph_page E g (Some page) s;
           mg \<leftarrow> graphs s g;
           if ok then Some (Inl released, set_graph g (clear_entry t i mg) s)
           else if mg_destroy_terminal mg then Some (Inr (), s)
           else Some (Inl False, s) } })"

definition all_entries :: "malloc_graph \<Rightarrow> (page_table \<times> nat) list" where
  "all_entries mg = map (Pair MAPPED) [0..<mg_va_count mg] @ map (Pair PHYSICAL) [0..<mg_phys_count mg] @
     concat (map (\<lambda>i. [(SMALL_MAPPED, i), (SMALL_PHYSICAL, i)]) [0..<mg_small_pages mg])"

definition release_range :: "env \<Rightarrow> nat \<Rightarrow> bool \<Rightarrow> 'z rstate_scheme \<Rightarrow> (bool \<times> 'z rstate_scheme) option" where
  "release_range E g small s = do {
     mg \<leftarrow> graphs s g;
     case (if small then mg_small_base mg else mg_base mg) of
       None \<Rightarrow> Some (True, s)
     | Some rng \<Rightarrow> do {
         (r, s) \<leftarrow> virtual_range_unref E rng s;
         mg \<leftarrow> graphs s g;
         if r \<noteq> CUDA_SUCCESS then Some (False, if r \<noteq> CUDA_ERROR_OUT_OF_MEMORY
              then set_graph g (mg\<lparr>mg_destroy_terminal := True\<rparr>) s else s)
         else Some (True, set_graph g (if small then mg\<lparr>mg_small_base := None\<rparr> else mg\<lparr>mg_base := None\<rparr>) s) } }"

definition release_graph_xpu :: "env \<Rightarrow> nat \<Rightarrow> 'z rstate_scheme \<Rightarrow> (bool \<times> 'z rstate_scheme) option" where
  "release_graph_xpu E g s = do {
     mg \<leftarrow> graphs s g;
     (r, s) \<leftarrow> foreach (release_entry E g) (all_entries mg) True s;
     if r \<noteq> Inl True then Some (False, s)
     else do {
       mg \<leftarrow> graphs s g;
       if mg_test_destroy_release_stage mg = 3
       then Some (False, set_graph g (mg\<lparr>mg_test_destroy_release_stage := 0\<rparr>) s)
       else do {
         (ok, s) \<leftarrow> release_range E g False s;
         if \<not> ok then Some (False, s) else release_range E g True s } } }"

definition release_graph_other :: "env \<Rightarrow> nat \<Rightarrow> 'z rstate_scheme \<Rightarrow> (bool \<times> 'z rstate_scheme) option" where
  "release_graph_other E g s = do {
     mg \<leftarrow> graphs s g;
     (_, s) \<leftarrow> each (\<lambda>(t, i) s. do { (_, s) \<leftarrow> physical_page_unref E (table_of t mg i) s; Some ((), s) }) (all_entries mg) s;
     base \<leftarrow> mg_base mg;
     (_, s) \<leftarrow> virtual_range_unref E base s;
     small_base \<leftarrow> mg_small_base mg;
     (_, s) \<leftarrow> virtual_range_unref E small_base s;
     Some (True, s) }"

definition destroy_graph :: "env \<Rightarrow> nat \<Rightarrow> nat option \<Rightarrow> 'z rstate_scheme \<Rightarrow> (bool \<times> 'z rstate_scheme) option" where
  "destroy_graph E thread gh s = (case gh of
      None \<Rightarrow> Some (False, s)
    | Some g \<Rightarrow> do {
        mg \<leftarrow> graphs s g;
        if mg_owner_thread mg \<noteq> thread \<or> (is_xpu E \<and> mg_destroy_terminal mg) then Some (False, s)
        else do {
          (ok, s) \<leftarrow> (if mg_state mg \<noteq> [] then abort_graph E g s else Some (True, s));
          if \<not> ok then Some (False, s)
          else do {
            mg \<leftarrow> graphs s g;
            let s = set_graph g (mg\<lparr>mg_state := []\<rparr>) s;
            (ok, s) \<leftarrow> (if is_xpu E then release_graph_xpu E g s else release_graph_other E g s);
            if \<not> ok then Some (False, s)
            else Some (True, s\<lparr>graphs := (graphs s)(g := None),
              live_graph_handles := (if is_xpu E \<and> \<not> is_win E then live_graph_handles s - 1 else live_graph_handles s)\<rparr>) } } })"

definition malloc_graph_destroy :: "env \<Rightarrow> nat \<Rightarrow> nat option \<Rightarrow> 'z rstate_scheme \<Rightarrow> (unit \<times> 'z rstate_scheme) option" where
  "malloc_graph_destroy E thread gh s = do { (_, s) \<leftarrow> destroy_graph E thread gh s; Some ((), s) }"

definition malloc_graph_destroy_terminal :: "nat \<Rightarrow> nat option \<Rightarrow> 'z gstate_scheme \<Rightarrow> bool option" where
  "malloc_graph_destroy_terminal thread gh s = (case gh of
      None \<Rightarrow> Some False
    | Some g \<Rightarrow> do { mg \<leftarrow> graphs s g; Some (mg_owner_thread mg = thread \<and> mg_destroy_terminal mg) })"

text \<open>The two hooks that make a page creation or a release fail, for tests.\<close>

definition malloc_graph_test_fail_next_page_creates :: "nat \<Rightarrow> nat \<Rightarrow> 'z gstate_scheme \<Rightarrow> (bool \<times> 'z gstate_scheme) option" where
  "malloc_graph_test_fail_next_page_creates thread attempts s = (case active_graph s of
      None \<Rightarrow> Some (False, s)
    | Some g \<Rightarrow> do {
        mg \<leftarrow> graphs s g;
        if mg_owner_thread mg \<noteq> thread \<or> mg_failed mg \<or> mg_paused mg \<or> mg_state mg = [] \<or>
           mg_test_page_create_oom_attempts mg \<noteq> 0 \<or> attempts < 1 \<or> attempts > 2
        then Some (False, s)
        else Some (True, set_graph g (mg\<lparr>mg_test_page_create_oom_attempts := attempts\<rparr>) s) })"

definition malloc_graph_test_fail_next_destroy_release :: "nat \<Rightarrow> nat option \<Rightarrow> nat \<Rightarrow> 'z gstate_scheme \<Rightarrow> (bool \<times> 'z gstate_scheme) option" where
  "malloc_graph_test_fail_next_destroy_release thread gh stage s = (case gh of
      None \<Rightarrow> Some (False, s)
    | Some g \<Rightarrow> do {
        mg \<leftarrow> graphs s g;
        if mg_owner_thread mg \<noteq> thread \<or> \<not> mg_complete mg \<or> mg_state mg \<noteq> [] \<or>
           mg_test_destroy_release_stage mg \<noteq> 0 \<or> stage < 1 \<or> stage > 3
        then Some (False, s)
        else Some (True, set_graph g (mg\<lparr>mg_test_destroy_release_stage := stage\<rparr>) s) })"

end
