(* ===== verification/GraphRoute.thy ===== *)
theory GraphRoute
  imports GraphMapInv GraphApi
begin

text \<open>
  The operations of a graph that only look: asking for rogues and candidates leaves the state as it
  is, so pruning, the test for a failed graph and the routing of a request have closed forms.
\<close>

definition graph_shape :: "'z mstate_scheme \<Rightarrow> malloc_graph \<Rightarrow> bool" where
  "graph_shape s mg \<longleftrightarrow> graph_base mg s \<noteq> None \<and> graph_small_base mg s \<noteq> None \<and>
     (\<forall>c \<in> set (mg_rogue_candidates mg). mg_events mg c \<noteq> None) \<and> mg_state mg \<noteq> []"

lemma foreach_collect:
  assumes "\<And>x acc. x \<in> set xs \<Longrightarrow> body x acc s = Some (Inl (if P x then acc @ [x] else acc), s)"
  shows "foreach body xs acc s = Some (Inl (acc @ filter P xs), s)"
  using assms by (induction xs arbitrary: acc) simp_all

lemma foreach_search:
  assumes "\<And>x. x \<in> set xs \<Longrightarrow> body x () s = Some (if P x then Inr (f x) else Inl (), s)"
  shows "foreach body xs () s = Some (case List.find P xs of None \<Rightarrow> Inl () | Some x \<Rightarrow> Inr (f x), s)"
  using assms by (induction xs) simp_all

lemma those_map_defined: "\<forall>x \<in> set xs. f x \<noteq> None \<Longrightarrow> those (map f xs) = Some (map (\<lambda>x. the (f x)) xs)"
  by (induction xs) auto

subsection \<open>Candidates\<close>

definition freed_candidates :: "'z rstate_scheme \<Rightarrow> malloc_graph \<Rightarrow> bool" where
  "freed_candidates s mg \<longleftrightarrow> (\<exists>c \<in> set (mg_rogue_candidates mg). \<exists>e ptr. mg_events mg c = Some e \<and>
     candidate_ptr mg e s = Some ptr \<and> candidate_verdict ptr s = ROGUE_HANDOFF_FREED)"

lemma candidate_ptr_defined:
  assumes "graph_shape s mg"
  shows "\<exists>ptr. candidate_ptr mg e s = Some ptr"
  using assms by (auto simp: graph_shape_def candidate_ptr_def)

lemma candidate_freed_run:
  assumes "allocations_lock_depth s = 0" "graph_shape s mg" "mg_events mg c = Some e"
  shows "candidate_freed E mg c s = Some (\<exists>ptr. candidate_ptr mg e s = Some ptr \<and> candidate_verdict ptr s = ROGUE_HANDOFF_FREED, s)"
  using candidate_ptr_defined [OF assms(2), of e] assms(3) by (auto simp: candidate_freed_def wp_candidate_freed [OF assms(1)])

definition mark_failed :: "bool \<Rightarrow> nat \<Rightarrow> malloc_graph \<Rightarrow> 'z gstate_scheme \<Rightarrow> 'z gstate_scheme" where
  "mark_failed b g mg s = (if b then set_graph g (mg\<lparr>mg_failed := True\<rparr>) s else s)"

lemma graph_failed_run:
  assumes "allocations_lock_depth s = 0" "graphs s g = Some mg" "graph_shape s mg"
  shows "graph_failed E g s = Some (mg_failed mg \<or> freed_candidates s mg, mark_failed (freed_candidates s mg) g mg s)"
proof -
  let ?P = "\<lambda>c. \<exists>e ptr. mg_events mg c = Some e \<and> candidate_ptr mg e s = Some ptr \<and> candidate_verdict ptr s = ROGUE_HANDOFF_FREED"
  have run: "foreach (\<lambda>c _ s. do { (freed, s) \<leftarrow> candidate_freed E mg c s; Some (if freed then Inr () else Inl () :: unit + unit, s) })
      (mg_rogue_candidates mg) () s =
    Some (case List.find ?P (mg_rogue_candidates mg) of None \<Rightarrow> Inl () | Some c \<Rightarrow> Inr (), s)"
  proof (rule foreach_search)
    fix c
    assume "c \<in> set (mg_rogue_candidates mg)"
    then obtain e where "mg_events mg c = Some e" using assms(3) by (auto simp: graph_shape_def)
    then show "do { (freed, s) \<leftarrow> candidate_freed E mg c s; Some (if freed then Inr () else Inl () :: unit + unit, s) } =
        Some (if ?P c then Inr () else Inl (), s)"
      by (simp add: candidate_freed_run [OF assms(1,3)])
  qed
  show ?thesis
  proof (cases "List.find ?P (mg_rogue_candidates mg)")
    case None
    then have "\<not> freed_candidates s mg" by (auto simp: freed_candidates_def find_None_iff)
    then show ?thesis
      unfolding graph_failed_def using None run assms(2) by (simp add: mark_failed_def)
  next
    case (Some c)
    then have "freed_candidates s mg" unfolding freed_candidates_def find_Some_iff by (metis nth_mem)
    then show ?thesis
      unfolding graph_failed_def using Some run assms(2) by (simp add: mark_failed_def fail_graph_run)
  qed
qed

lemma prune_run:
  assumes "allocations_lock_depth s = 0" "graphs s g = Some mg"
  shows "prune_small_unusable E g s =
    Some ((), set_graph g (mg\<lparr>mg_small_unusable := filter (\<lambda>r. find_rogue (sr_rogue_ptr r) s \<noteq> None) (mg_small_unusable mg)\<rparr>) s)"
proof -
  have "foreach (\<lambda>rng kept s. do {
          (exists, s) \<leftarrow> rogue_exists E (sr_rogue_ptr rng) s;
          Some (Inl (if exists then kept @ [rng] else kept) :: small_range list + unit, s) }) (mg_small_unusable mg) [] s =
     Some (Inl ([] @ filter (\<lambda>r. find_rogue (sr_rogue_ptr r) s \<noteq> None) (mg_small_unusable mg)), s)"
    by (rule foreach_collect) (simp_all add: wp_rogue_exists [OF assms(1)])
  then show ?thesis using assms(2) by (simp add: prune_small_unusable_def)
qed

subsection \<open>Routing\<close>

definition routed :: "'z rstate_scheme \<Rightarrow> malloc_graph \<Rightarrow> u64 \<Rightarrow> bool" where
  "routed s mg stream \<longleftrightarrow> \<not> mg_failed mg \<and> \<not> freed_candidates s mg \<and> \<not> mg_paused mg \<and> stream = mg_stream mg"

lemma not_routed_run:
  assumes "allocations_lock_depth s = 0" "graphs s g = Some mg" "graph_shape s mg"
  shows "not_routed E g stream s = Some (\<not> routed s mg stream, mark_failed (freed_candidates s mg) g mg s)"
  using graph_failed_run [OF assms, of E] assms(2)
  by (auto simp: not_routed_def routed_def mark_failed_def)

end
