(* ===== verification/GraphSmallInv.thy ===== *)
theory GraphSmallInv
  imports GraphRoute
begin

text \<open>
  A small allocation of a graph works or fails the graph: when it works the new range is inside the
  mapped pages, overlaps no live range, and joins the list; its bytes are accounted.
\<close>

subsection \<open>The small region of a graph\<close>

definition page_backed :: "'z rstate_scheme \<Rightarrow> u64 \<Rightarrow> malloc_graph \<Rightarrow> nat \<Rightarrow> bool" where
  "page_backed s base mg i \<longleftrightarrow> (\<exists>p q. mg_small_physical_pages mg i = Some p \<and> mg_small_mapped_pages mg i = Some q \<and>
     ppages s p \<noteq> None \<and> ppages s q = Some \<lparr>pp_allocation = allocation_of s p, pp_address = base + of_nat (i * MG_PAGE)\<rparr>)"

text \<open>What holds of the small region: \<open>mapped\<close> only while the graph has not failed.\<close>

definition small_ok :: "malloc_graph \<Rightarrow> bool" where
  "small_ok mg \<longleftrightarrow> ranges_ok (mg_small_ranges mg) \<and>
     (\<forall>r \<in> set (mg_small_ranges mg). sr_offset r + sr_bytes r \<le> mg_small_size mg) \<and>
     mg_small_size mg \<le> mg_small_pages mg * MG_PAGE \<and> mg_small_pages mg \<le> MG_SMALL_PAGES \<and>
     (\<forall>r \<in> set (mg_small_unusable mg). sr_offset r < mg_small_size mg \<and> sr_offset r + sr_bytes r \<le> mg_small_pages mg * MG_PAGE) \<and>
     (\<forall>c \<in> set (mg_rogue_candidates mg). \<forall>e. mg_events mg c = Some e \<and> is_small e \<longrightarrow>
        candidate_first e < mg_small_size mg \<and> candidate_first e \<le> candidate_end e \<and> candidate_end e \<le> mg_small_pages mg * MG_PAGE)"

definition small_mapped :: "'z rstate_scheme \<Rightarrow> malloc_graph \<Rightarrow> bool" where
  "small_mapped s mg \<longleftrightarrow> (\<exists>base. graph_small_base mg s = Some base \<and> (\<forall>i < mg_small_pages mg. page_backed s base mg i))"

definition events_ok :: "'z rstate_scheme \<Rightarrow> malloc_graph \<Rightarrow> bool" where
  "events_ok s mg \<longleftrightarrow> dom (mg_events mg) \<subseteq> {..<mnext s} \<and> (\<forall>f \<in> set (mg_state mg). mg_events mg (fr_cursor f) \<noteq> None)"

definition graph_core :: "'z rstate_scheme \<Rightarrow> malloc_graph \<Rightarrow> bool" where
  "graph_core s mg \<longleftrightarrow> graph_shape s mg \<and> small_ok mg \<and> events_ok s mg"

definition graph_wf :: "'z rstate_scheme \<Rightarrow> malloc_graph \<Rightarrow> bool" where
  "graph_wf s mg \<longleftrightarrow> graph_core s mg \<and> (\<not> mg_failed mg \<longrightarrow> small_mapped s mg)"

lemma page_backed_mono:
  assumes "page_backed s base mg i" "ppages s \<subseteq>\<^sub>m ppages t"
  shows "page_backed t base mg i"
proof -
  have keep: "ppages t p = ppages s p" if "ppages s p \<noteq> None" for p
    using assms(2) that by (auto simp: map_le_def dom_def)
  obtain p q where pq: "mg_small_physical_pages mg i = Some p" "mg_small_mapped_pages mg i = Some q" "ppages s p \<noteq> None"
    "ppages s q = Some \<lparr>pp_allocation = allocation_of s p, pp_address = base + of_nat (i * MG_PAGE)\<rparr>"
    using assms(1) by (auto simp: page_backed_def)
  moreover have "ppages t p = ppages s p" "ppages t q = ppages s q" using keep pq by simp_all
  moreover from this have "allocation_of t p = allocation_of s p" by (simp add: allocation_of_def)
  ultimately show ?thesis unfolding page_backed_def by (intro exI [of _ p] exI [of _ q]) simp
qed

lemma bases_gstep:
  assumes "gstep E g s t"
  shows "graph_base mg t = graph_base mg s" "graph_small_base mg t = graph_small_base mg s"
  using gstep_ranges(1) [OF assms] by (simp_all add: graph_base_def graph_small_base_def virtual_range_get_def)

lemma graph_wf_gstep:
  assumes "gstep E g s t"
  shows "graph_wf s mg \<Longrightarrow> graph_wf t mg" "graph_core s mg \<Longrightarrow> graph_core t mg"
  using gstep_ranges(3) [OF assms] page_backed_mono [OF _ gstep_ranges(5) [OF assms]]
  by (auto simp: graph_wf_def graph_core_def graph_shape_def small_mapped_def events_ok_def bases_gstep [OF assms])

subsection \<open>The position\<close>

text \<open>The search never goes past the end of an interval.\<close>

lemma next_interval_end:
  assumes "\<forall>i \<in> set intervals. fst i + snd i \<le> roof"
  shows "snd (next_interval position intervals) \<le> roof"
proof -
  have "snd (fold (consider_small_interval position) xs a) \<le> roof" if "snd a \<le> roof" "\<forall>i \<in> set xs. fst i + snd i \<le> roof" for xs a
    using that
    by (induction xs arbitrary: a) (auto simp: consider_small_interval_def Let_def split: prod.splits)
  from this [of "(SIZE_MAX, 0)" intervals] assms show ?thesis by (simp add: next_interval_def)
qed

lemma small_search_position:
  assumes "\<forall>i \<in> set intervals. fst i + snd i \<le> roof" "position \<le> roof"
  shows "snd (snd (small_search intervals limit bytes position offset hole)) \<le> roof"
  using assms
proof (induction intervals limit bytes position offset hole rule: small_search.induct)
  case (1 intervals limit bytes position offset hole)
  obtain found e where ne: "next_interval position intervals = (found, e)" by fastforce
  have e: "e \<le> roof" using next_interval_end [OF "1.prems"(1), of position] ne by simp
  show ?case
  proof (cases "position < limit \<and> (if found = SIZE_MAX then limit else found) \<noteq> limit")
    case True
    then show ?thesis using ne "1.IH" [OF _ ne [symmetric] refl refl refl refl refl refl] "1.prems" e
      by (subst small_search.simps) (simp add: Let_def split del: if_split cong: if_cong)
  next
    case False
    then show ?thesis using ne "1.prems" by (subst small_search.simps) (cases "position < limit", auto simp: Let_def split del: if_split cong: if_cong)
  qed
qed

lemma small_offset_bound:
  assumes "starts_below (set intervals) limit" "0 < bytes" "limit \<le> roof" "\<forall>i \<in> set intervals. fst i + snd i \<le> roof"
  shows "small_offset intervals limit bytes \<le> roof"
proof -
  obtain offset hole position where r: "small_search intervals limit bytes 0 limit SIZE_MAX = (offset, hole, position)"
    by (metis prod_cases3)
  have "hole_ok intervals limit bytes (offset, hole, position)"
    using small_search_ok [OF assms(1) _ assms(2), of limit SIZE_MAX 0 0] by (simp add: r hole_ok_def)
  moreover have "position \<le> roof" using small_search_position [OF assms(4), of 0 limit bytes limit SIZE_MAX] r by simp
  ultimately show ?thesis using r assms(3) by (auto simp: small_offset_def hole_ok_def split: if_splits)
qed


text \<open>The offset of a small allocation: room for it exists up to one more page, and nothing live is there.\<close>

lemma wp_small_allocation_offset:
  assumes "ready E s" "graphs s g = Some mg" "graph_wf s mg" "0 < bytes"
  shows "wp (small_allocation_offset E g bytes s) (\<lambda>offset t. gstep E g s t \<and>
    (\<exists>kept. graphs t g = Some (mg\<lparr>mg_small_unusable := kept\<rparr>) \<and> graph_wf t (mg\<lparr>mg_small_unusable := kept\<rparr>)) \<and>
    offset \<le> mg_small_pages mg * MG_PAGE \<and> (\<forall>r \<in> set (mg_small_ranges mg). \<not> overlaps offset bytes (sr_offset r, sr_bytes r)))"
proof -
  have depth: "allocations_lock_depth s = 0" using assms(1) by (simp add: ready_def)
  let ?kept = "filter (\<lambda>r. find_rogue (sr_rogue_ptr r) s \<noteq> None) (mg_small_unusable mg)"
  let ?mg = "mg\<lparr>mg_small_unusable := ?kept\<rparr>"
  have ok: "small_ok mg" "\<forall>c \<in> set (mg_rogue_candidates mg). mg_events mg c \<noteq> None"
    using assms(3) by (simp_all add: graph_wf_def graph_core_def graph_shape_def)
  have wf: "graph_wf s ?mg"
    using assms(3) by (auto simp: graph_wf_def graph_core_def graph_shape_def small_ok_def events_ok_def small_mapped_def page_backed_def
        graph_base_def graph_small_base_def)
  have step: "gstep E g s (set_graph g ?mg s)" by (rule gstep_set_graph) (use assms(1,2) in simp_all)
  let ?cs = "map (\<lambda>c. the (mg_events mg c)) (mg_rogue_candidates mg)"
  let ?is = "small_intervals ?mg (filter is_small ?cs)"
  have cs: "small_candidates ?mg = Some (filter is_small ?cs)"
    using ok(2) by (simp add: small_candidates_def those_map_defined)
  have roof: "fst i + snd i \<le> mg_small_pages mg * MG_PAGE" "fst i < mg_small_size mg" if i: "i \<in> set ?is" for i
  proof -
    consider r where "r \<in> set (mg_small_ranges mg)" "i = (sr_offset r, sr_bytes r)"
      | r where "r \<in> set (mg_small_unusable mg)" "i = (sr_offset r, sr_bytes r)"
      | c e where "c \<in> set (mg_rogue_candidates mg)" "mg_events mg c = Some e" "is_small e"
          "i = (candidate_first e, candidate_end e - candidate_first e)"
      using i ok(2) by (fastforce simp: small_intervals_def)
    then have "fst i + snd i \<le> mg_small_pages mg * MG_PAGE \<and> fst i < mg_small_size mg"
    proof cases
      case (1 r)
      then have "sr_offset r + sr_bytes r \<le> mg_small_size mg" "0 < sr_bytes r" "mg_small_size mg \<le> mg_small_pages mg * MG_PAGE"
        using ok(1) by (simp_all add: small_ok_def ranges_ok_def)
      then show ?thesis unfolding 1(2) fst_conv snd_conv by linarith
    next
      case (2 r)
      then show ?thesis using ok(1) unfolding 2(2) fst_conv snd_conv small_ok_def by blast
    next
      case (3 c e)
      then have "candidate_first e < mg_small_size mg \<and> candidate_first e \<le> candidate_end e \<and> candidate_end e \<le> mg_small_pages mg * MG_PAGE"
        using ok(1) unfolding small_ok_def by blast
      then show ?thesis unfolding 3(4) fst_conv snd_conv by linarith
    qed
    then show "fst i + snd i \<le> mg_small_pages mg * MG_PAGE" "fst i < mg_small_size mg" by simp_all
  qed
  have below: "starts_below (set ?is) (mg_small_size mg)"
    using roof(2) ok(1) by (auto simp: starts_below_def small_ok_def)
  let ?o = "small_offset ?is (mg_small_size mg) bytes"
  have bound: "?o \<le> mg_small_pages mg * MG_PAGE"
    by (rule small_offset_bound [OF below assms(4)]) (use roof(1) ok(1) in \<open>auto simp: small_ok_def\<close>)
  have free: "\<not> overlaps ?o bytes (sr_offset r, sr_bytes r)" if r: "r \<in> set (mg_small_ranges mg)" for r
  proof
    assume o: "overlaps ?o bytes (sr_offset r, sr_bytes r)"
    have "(sr_offset r, sr_bytes r) \<in> set ?is" using r by (auto simp: small_intervals_def)
    from small_offset_ok(2) [OF below assms(4) this o] show False using ok(1) r by (fastforce simp: small_ok_def)
  qed
  have "small_allocation_offset E g bytes s = Some (?o, set_graph g ?mg s)"
    using assms(2) cs by (simp add: small_allocation_offset_def prune_run [OF depth assms(2)])
  then show ?thesis using step wf graph_wf_gstep(1) [OF step wf] bound free by auto
qed

subsection \<open>Room for it\<close>

lemma graph_wf_set_graph [simp]: "graph_wf (set_graph h m s) mg = graph_wf s mg" "graph_core (set_graph h m s) mg = graph_core s mg"
  by (simp_all add: graph_wf_def graph_core_def graph_shape_def small_mapped_def page_backed_def events_ok_def graph_base_def
      graph_small_base_def virtual_range_get_def allocation_of_def)

lemma graph_wf_failed:
  assumes "graph_core s mg"
  shows "graph_wf s (mg\<lparr>mg_failed := True\<rparr>)"
  using assms by (simp add: graph_wf_def graph_core_def graph_shape_def small_ok_def events_ok_def graph_base_def graph_small_base_def)

lemma graph_wf_core: "graph_wf s mg \<Longrightarrow> graph_core s mg"
  by (simp add: graph_wf_def)

lemma graph_wf_attempts [simp]:
  "graph_wf s (mg\<lparr>mg_test_page_create_oom_attempts := k\<rparr>) = graph_wf s mg"
  "graph_core s (mg\<lparr>mg_test_page_create_oom_attempts := k\<rparr>) = graph_core s mg"
  by (simp_all add: graph_wf_def graph_core_def graph_shape_def small_ok_def events_ok_def graph_base_def graph_small_base_def
      small_mapped_def page_backed_def)

text \<open>Only the pages of the small region, its size and the marks of a failure differ, and it has not shrunk.\<close>

definition without_region :: "malloc_graph \<Rightarrow> malloc_graph" where
  "without_region mg = mg\<lparr>mg_small_physical_pages := Map.empty, mg_small_mapped_pages := Map.empty, mg_small_pages := 0,
     mg_small_size := 0, mg_test_page_create_oom_attempts := 0, mg_failed := False\<rparr>"

definition region_grown :: "malloc_graph \<Rightarrow> malloc_graph \<Rightarrow> bool" where
  "region_grown mg mg' \<longleftrightarrow> without_region mg' = without_region mg \<and> mg_small_size mg \<le> mg_small_size mg' \<and>
     mg_small_pages mg \<le> mg_small_pages mg'"

lemma region_grownD:
  assumes "region_grown mg mg'"
  shows "mg_small_ranges mg' = mg_small_ranges mg" "mg_small_unusable mg' = mg_small_unusable mg" "mg_events mg' = mg_events mg"
    "mg_state mg' = mg_state mg" "mg_rogue_candidates mg' = mg_rogue_candidates mg" "mg_base mg' = mg_base mg"
    "mg_small_base mg' = mg_small_base mg" "mg_used mg' = mg_used mg" "mg_allocations mg' = mg_allocations mg"
    "mg_small_size mg \<le> mg_small_size mg'"
  using assms by (cases mg; cases mg'; simp add: region_grown_def without_region_def)+

lemma region_grown_refl [simp]: "region_grown mg mg"
  by (simp add: region_grown_def)

definition region_grew :: "env \<Rightarrow> nat \<Rightarrow> 'z rstate_scheme \<Rightarrow> malloc_graph \<Rightarrow> nat \<Rightarrow> int \<Rightarrow> 'z rstate_scheme \<Rightarrow> bool" where
  "region_grew E g s mg e r t \<longleftrightarrow> gstep E g s t \<and> (\<exists>mg'. graphs t g = Some mg' \<and> region_grown mg mg' \<and> graph_wf t mg' \<and>
     (if r = CUDA_SUCCESS then mg_failed mg' = mg_failed mg \<and> e \<le> mg_small_size mg' else mg_failed mg'))"

lemma region_failed:
  assumes "gstep E g s t" "graphs t g = Some mg'" "region_grown mg mg'" "graph_core t mg'" "r \<noteq> CUDA_SUCCESS"
  shows "wp (do { s \<leftarrow> fail_graph g t; Some (r, s) }) (\<lambda>a u. a = r \<and> region_grew E g s mg e r u)"
proof -
  have "region_grown mg (mg'\<lparr>mg_failed := True\<rparr>)" using assms(3) by (simp add: region_grown_def without_region_def)
  moreover have "gstep E g s (set_graph g (mg'\<lparr>mg_failed := True\<rparr>) t)"
    using gstep_trans [OF assms(1) gstep_set_graph [OF gstep_ready [OF assms(1)]]] assms(2) by simp
  ultimately show ?thesis
    using graph_wf_failed [OF assms(4)] assms(5) by (simp add: fail_graph_run [OF assms(2)] region_grew_def)
qed

lemma pages_of_bound:
  assumes "e < 2 ^ 63"
  shows "e \<le> pages_of e * MG_PAGE" "pages_of e \<le> e div MG_PAGE + 1"
proof -
  have "pages_of e = (e + 8388607) div 8388608" using assms by (simp add: pages_of_def align_up_def)
  then show "e \<le> pages_of e * MG_PAGE" "pages_of e \<le> e div MG_PAGE + 1" by linarith+
qed

lemma small_mapped_next:
  assumes "small_mapped s mg" "graph_small_base mg s = Some base" "page_backed s base mg' (mg_small_pages mg)"
    "mg_small_pages mg' = mg_small_pages mg + 1" "mg_small_base mg' = mg_small_base mg"
    "\<And>i. i < mg_small_pages mg \<Longrightarrow> mg_small_physical_pages mg' i = mg_small_physical_pages mg i \<and>
       mg_small_mapped_pages mg' i = mg_small_mapped_pages mg i"
  shows "small_mapped s mg'"
  using assms by (auto simp: small_mapped_def graph_small_base_def page_backed_def less_Suc_eq)

lemma wp_add_small_page:
  assumes "ready E s" "graphs s g = Some mg" "graph_wf s mg" "mg_small_pages mg < MG_SMALL_PAGES"
  shows "wp (add_small_page E g s) (\<lambda>r t. if r = CUDA_SUCCESS
    then gstep E g s t \<and> (\<exists>mg'. graphs t g = Some mg' \<and> region_grown mg mg' \<and> graph_wf t mg' \<and> mg_failed mg' = mg_failed mg \<and>
       mg_small_pages mg' = mg_small_pages mg + 1 \<and> mg_small_size mg' = mg_small_size mg)
    else region_grew E g s mg e r t)" (is "wp _ ?Q")
proof -
  obtain base where base: "graph_small_base mg s = Some base" using assms(3) by (auto simp: graph_wf_def graph_core_def graph_shape_def)
  have failed: "wp (do { s \<leftarrow> fail_graph g t; Some (r, s) }) ?Q"
    if "gstep E g s t" "graphs t g = Some mg'" "region_grown mg mg'" "graph_core t mg'" "r \<noteq> CUDA_SUCCESS" for r t mg'
    by (rule wp_conseq [OF region_failed [OF that]]) (use that in auto)
  let ?n = "mg_small_pages mg"
  show ?thesis
    unfolding add_small_page_def Let_def
  proof (rule wp_get [OF assms(2)], rule wp_get [OF base], rule wp_step [OF wp_create_page [OF assms(1,2)]], goal_cases)
    case (1 r t)
    then obtain k where t: "gstep E g s t" "graphs t g = Some (mg\<lparr>mg_test_page_create_oom_attempts := k\<rparr>)"
      using assms(2) by (auto simp: page_created_def)
    let ?mg1 = "mg\<lparr>mg_test_page_create_oom_attempts := k\<rparr>"
    have g1: "region_grown mg ?mg1" "graph_core t ?mg1" "graph_wf t ?mg1"
      using graph_wf_gstep(1) [OF t(1) assms(3)] by (simp_all add: region_grown_def without_region_def graph_wf_core)
    show ?case
    proof (rule wp_sum, goal_cases)
      case (1 err)
      then have err: "err \<noteq> CUDA_SUCCESS" using \<open>page_created E g s r t\<close> by (simp add: page_created_def)
      show ?case by (rule failed [OF t g1(1,2) err])
    next
      case (2 page)
      then have page: "ppages t page \<noteq> None" using \<open>page_created E g s r t\<close> by (simp add: page_created_def)
      let ?mg2 = "?mg1\<lparr>mg_small_physical_pages := (mg_small_physical_pages ?mg1)(?n \<mapsto> page), mg_small_pages := ?n + 1\<rparr>"
      let ?t2 = "set_graph g ?mg2 t"
      have t2: "gstep E g s ?t2" "ready E ?t2" "graphs ?t2 g = Some ?mg2" "ppages ?t2 page \<noteq> None"
        using gstep_set [OF t(1)] gstep_ready [OF t(1)] ready_set_graph [of E t g ?mg2] assms(2) t(2) page by simp_all
      have grown: "region_grown mg (?mg2\<lparr>mg_small_mapped_pages := m\<rparr>)" for m
        by (simp add: region_grown_def without_region_def)
      have core: "graph_core t (?mg2\<lparr>mg_small_mapped_pages := m\<rparr>)" for m
        using g1(2) assms(4)
        by (fastforce simp: graph_core_def graph_shape_def small_ok_def events_ok_def graph_base_def graph_small_base_def)
      have gb: "graph_small_base mg u = Some base" if "gstep E g s u" for u using bases_gstep(2) [OF that] base by simp
      show ?case
      proof (rule wp_get [OF t(2)], rule wp_step [OF wp_map_reference [OF t2(2-4)]], elim conjE, goal_cases)
        case (1 m u)
        have u: "gstep E g s u" "graphs u g = Some ?mg2" using gstep_trans [OF t2(1) 1(1)] 1(2) t2(3) by simp_all
        have cu: "graph_core u (?mg2\<lparr>mg_small_mapped_pages := x\<rparr>)" for x
          using graph_wf_gstep(2) [OF 1(1), of "?mg2\<lparr>mg_small_mapped_pages := x\<rparr>"] core by simp
        show ?case
        proof (rule wp_sum, goal_cases)
          case (1 e)
          show ?case by (rule failed [OF u]) (use grown [of "mg_small_mapped_pages mg"] cu [of "mg_small_mapped_pages mg"] in simp_all)
        next
          case (2 q)
          let ?mg3 = "?mg2\<lparr>mg_small_mapped_pages := (mg_small_mapped_pages ?mg2)(?n \<mapsto> q)\<rparr>"
          have q: "mapped_at ?t2 page (base + of_nat (?n * MG_PAGE)) q u" using \<open>case m of Inl _ \<Rightarrow> _ | Inr _ \<Rightarrow> _\<close> 2 by simp
          have keep: "ppages u p = ppages t p" if "ppages t p \<noteq> None" for p
            using gstep_ranges(5) [OF \<open>gstep E g ?t2 u\<close>] that by (auto simp: map_le_def dom_def)
          have "page_backed u base ?mg3 ?n"
            using q keep [OF page] page by (auto simp: page_backed_def mapped_at_def allocation_of_def)
          moreover have "small_mapped u mg" if "\<not> mg_failed mg"
            using graph_wf_gstep(1) [OF u(1) assms(3)] that by (simp add: graph_wf_def)
          ultimately have "graph_wf u ?mg3"
            using small_mapped_next [OF _ gb [OF u(1)], of ?mg3] cu [of "mg_small_mapped_pages ?mg3"] by (simp add: graph_wf_def)
          moreover have "gstep E g s (set_graph g ?mg3 u)" by (rule gstep_set [OF u(1)]) (use assms(2) in simp)
          ultimately show ?case
            using grown [of "mg_small_mapped_pages ?mg3"] by (intro wp_get [OF u(2)]) simp
        qed
      qed
    qed
  qed
qed

lemma graph_wf_size:
  assumes "graph_wf s mg" "mg_small_size mg \<le> e" "e \<le> mg_small_pages mg * MG_PAGE"
  shows "graph_wf s (mg\<lparr>mg_small_size := e\<rparr>)"
proof -
  have "small_ok (mg\<lparr>mg_small_size := e\<rparr>)"
    using assms unfolding graph_wf_def graph_core_def small_ok_def
    by simp (meson le_trans less_le_trans)
  then show ?thesis
    using assms(1) by (simp add: graph_wf_def graph_core_def graph_shape_def events_ok_def small_mapped_def page_backed_def
        graph_base_def graph_small_base_def)
qed

lemma region_grown_size: "region_grown mg mg' \<Longrightarrow> mg_small_size mg' \<le> e \<Longrightarrow> region_grown mg (mg'\<lparr>mg_small_size := e\<rparr>)"
  by (simp add: region_grown_def without_region_def)

lemma wp_grow_small:
  assumes "ready E s" "graphs s g = Some mg" "graph_wf s mg" "e \<le> mg_small_pages mg * MG_PAGE + MG_PAGE"
  shows "wp (grow_small E g e s) (region_grew E g s mg e)"
proof -
  have pages: "mg_small_pages mg \<le> MG_SMALL_PAGES" using assms(3) by (simp add: graph_wf_def graph_core_def small_ok_def)
  have "e < 2 ^ 63" using assms(4) pages by simp
  then have need: "e \<le> pages_of e * MG_PAGE" by (rule pages_of_bound)
  have sized: "wp (do { mg \<leftarrow> graphs t g; Some (CUDA_SUCCESS, set_graph g (mg\<lparr>mg_small_size := e\<rparr>) t) }) (region_grew E g s mg e)"
    if t: "gstep E g s t" "graphs t g = Some mg'" "region_grown mg mg'" "graph_wf t mg'" "mg_failed mg' = mg_failed mg"
      "mg_small_size mg' \<le> e" "e \<le> mg_small_pages mg' * MG_PAGE" for t mg'
  proof -
    have "gstep E g s (set_graph g (mg'\<lparr>mg_small_size := e\<rparr>) t)" by (rule gstep_set [OF t(1)]) (use assms(2) in simp)
    then show ?thesis using t(2,5) graph_wf_size [OF t(4,6,7)] region_grown_size [OF t(3,6)] by (simp add: region_grew_def)
  qed
  note refl = gstep_refl [OF assms(1), of g]
  show ?thesis
    unfolding grow_small_def
  proof (rule wp_get [OF assms(2)], rule wp_branch, goal_cases)
    case 1
    then show ?case using refl assms(2,3) by (simp add: region_grew_def)
  next
    case 2
    show ?case
    proof (rule wp_branch, goal_cases)
      case 1
      show ?case
        by (rule wp_conseq [OF region_failed [OF refl assms(2) region_grown_refl graph_wf_core [OF assms(3)]]]) auto
    next
      case fits: 2
      show ?case
      proof (cases "mg_small_pages mg < pages_of e")
        case True
        have "mg_small_pages mg < MG_SMALL_PAGES" using True fits by simp
        note added = wp_add_small_page [OF assms(1-3) this, of e]
        have "e \<le> (mg_small_pages mg + 1) * MG_PAGE" using assms(4) by simp
        then show ?thesis
          unfolding if_P [OF True]
          by (intro wp_step [OF added] wp_branch) (use sized 2 in \<open>auto simp del: wp_bind\<close>)
      next
        case False
        then have "pages_of e * MG_PAGE \<le> mg_small_pages mg * MG_PAGE" by simp
        then have "e \<le> mg_small_pages mg * MG_PAGE" using need by linarith
        then show ?thesis
          using sized [OF refl assms(2) region_grown_refl assms(3)] 2 False assms(2) by simp
      qed
    qed
  qed
qed

subsection \<open>Events\<close>

text \<open>A new event below the cursor of the current frame.\<close>

definition event_added :: "nat \<Rightarrow> event_type \<Rightarrow> nat \<Rightarrow> nat \<Rightarrow> malloc_graph \<Rightarrow> malloc_graph" where
  "event_added ev type val n mg =
     (let parent = fr_cursor (hd (mg_state mg)); p = the (mg_events mg parent) in
      map_top (\<lambda>f. f\<lparr>fr_cursor := ev\<rparr>) (mg\<lparr>mg_events := (mg_events mg)
        (parent \<mapsto> p\<lparr>ev_next := ev_next p @ [ev]\<rparr>,
         ev \<mapsto> zero_event\<lparr>ev_type := type, ev_value := val, ev_bytes := n, ev_previous := Some parent\<rparr>)\<rparr>))"

lemma ready_mnext:
  fixes s :: "'z rstate_scheme"
  assumes "ready E s" "mnext s \<le> n"
  shows "gstep E g s (s\<lparr>hist := h, mnext := n\<rparr>)"
proof -
  have "pinv (s\<lparr>hist := h, mnext := n\<rparr>)" using assms unfolding ready_def pinv_def by simp (meson less_le_trans)
  then show ?thesis
    using assms by (simp add: gstep_def ready_def vinv_def graph_ok_def spare_def other_bytes_def owned_pages_def palloc_bytes_def)
qed

lemma wp_event:
  assumes "ready E s" "graphs s g = Some mg" "events_ok s mg" "mg_state mg \<noteq> []"
  shows "wp (event E g type val n s) (\<lambda>r t. gstep E g s t \<and> (case r of
      None \<Rightarrow> graphs t g = Some (mg\<lparr>mg_failed := True\<rparr>)
    | Some ev \<Rightarrow> mg_events mg ev = None \<and> mnext s \<le> ev \<and> ev < mnext t \<and> graphs t g = Some (event_added ev type val n mg)))"
proof -
  obtain f fs where f: "mg_state mg = f # fs" using assms(4) by (cases "mg_state mg") auto
  obtain p where p: "mg_events mg (fr_cursor f) = Some p" using assms(3) f by (auto simp: events_ok_def)
  let ?ev = "mnext s"
  have fresh: "mg_events mg ?ev = None" using assms(3) by (auto simp: events_ok_def)
  then have ne: "fr_cursor f \<noteq> ?ev" using p by auto
  have f0: "top_frame mg = Some f" using f by (simp add: top_frame_def)
  have s1: "gstep E g s (s\<lparr>hist := h, mnext := n\<rparr>)" if "mnext s \<le> n" for h n by (rule ready_mnext [OF assms(1) that])
  have s0: "gstep E g s (s\<lparr>hist := h\<rparr>)" for h by (rule ready_hist [OF assms(1)])
  have g0: "graphs s g \<noteq> None" using assms(2) by simp
  have s2: "gstep E g s ((set_graph g m (s\<lparr>hist := h, mnext := Suc (mnext s)\<rparr>))\<lparr>hist := h'\<rparr>)" for m h h'
    by (rule gstep_trans [OF gstep_set [OF s1 g0] ready_hist [OF gstep_ready [OF gstep_set [OF s1 g0]]]]) simp_all
  have s3: "gstep E g s (set_graph g m' ((set_graph g m (s\<lparr>hist := h, mnext := Suc (mnext s)\<rparr>))\<lparr>hist := h'\<rparr>))" for m m' h h'
    by (rule gstep_set [OF s2 g0])
  have s4: "gstep E g s (set_graph g m (s\<lparr>hist := h\<rparr>))" for m h by (rule gstep_set [OF s0 g0])
  have s5: "gstep E g s (set_graph g m'' (set_graph g m' ((set_graph g m (s\<lparr>hist := h, mnext := Suc (mnext s)\<rparr>))\<lparr>hist := h'\<rparr>)))" for m m' m'' h h'
    by (rule gstep_set [OF s3 g0])
  have same: "mg\<lparr>mg_failed := True, mg_events := (mg_events mg)(?ev := None)\<rparr> = mg\<lparr>mg_failed := True\<rparr>"
    using fresh by (cases mg) (simp add: fun_upd_idem)
  show ?thesis
    using assms(2) f p fresh ne s3 s4 s5 same
    by (simp add: event_def append_event_def fail_graph_run f0 event_added_def map_top_def Let_def)
qed

lemma event_added_sel:
  assumes "mg_state mg = f # fs" "mg_events mg (fr_cursor f) = Some p"
  shows "event_added ev type val n mg = mg\<lparr>mg_events := (mg_events mg)(fr_cursor f \<mapsto> p\<lparr>ev_next := ev_next p @ [ev]\<rparr>,
      ev \<mapsto> zero_event\<lparr>ev_type := type, ev_value := val, ev_bytes := n, ev_previous := Some (fr_cursor f)\<rparr>),
      mg_state := f\<lparr>fr_cursor := ev\<rparr> # fs\<rparr>"
  using assms by (simp add: event_added_def map_top_def Let_def)

lemma graph_wf_event:
  assumes "graph_wf s mg" "mg_events mg ev = None" "ev < mnext s"
  shows "graph_wf s (event_added ev type val n mg)"
proof -
  have core: "graph_shape s mg" "small_ok mg" "events_ok s mg" using assms(1) by (simp_all add: graph_wf_def graph_core_def)
  obtain f fs where f: "mg_state mg = f # fs" using core(1) by (cases "mg_state mg") (auto simp: graph_shape_def)
  obtain p where p: "mg_events mg (fr_cursor f) = Some p" using core(3) f by (auto simp: events_ok_def)
  note e = event_added_sel [OF f p, of ev type val n]
  let ?new = "zero_event\<lparr>ev_type := type, ev_value := val, ev_bytes := n, ev_previous := Some (fr_cursor f)\<rparr>"
  let ?evs = "(mg_events mg)(fr_cursor f \<mapsto> p\<lparr>ev_next := ev_next p @ [ev]\<rparr>, ev \<mapsto> ?new)"
  have cand: "c \<noteq> ev" if "c \<in> set (mg_rogue_candidates mg)" for c using core(1) that assms(2) by (auto simp: graph_shape_def)
  have small: "candidate_first x = candidate_first y \<and> candidate_end x = candidate_end y \<and> is_small x = is_small y"
    if "ev_type x = ev_type y" "ev_value x = ev_value y" "ev_bytes x = ev_bytes y" for x y
    using that by (simp add: candidate_first_def candidate_end_def is_small_def)
  have "graph_shape s (event_added ev type val n mg)"
    using core(1) by (simp add: e graph_shape_def graph_base_def graph_small_base_def)
  moreover have "\<forall>c \<in> set (mg_rogue_candidates mg). \<forall>x. ?evs c = Some x \<and> is_small x \<longrightarrow>
      candidate_first x < mg_small_size mg \<and> candidate_first x \<le> candidate_end x \<and> candidate_end x \<le> mg_small_pages mg * MG_PAGE"
  proof (intro ballI allI impI, elim conjE)
    fix c x
    assume c: "c \<in> set (mg_rogue_candidates mg)" "?evs c = Some x" "is_small x"
    then obtain y where y: "mg_events mg c = Some y" "ev_type x = ev_type y" "ev_value x = ev_value y" "ev_bytes x = ev_bytes y"
      using cand [OF c(1)] p by (auto split: if_splits)
    have ok: "\<forall>c \<in> set (mg_rogue_candidates mg). \<forall>e. mg_events mg c = Some e \<and> is_small e \<longrightarrow>
        candidate_first e < mg_small_size mg \<and> candidate_first e \<le> candidate_end e \<and> candidate_end e \<le> mg_small_pages mg * MG_PAGE"
      using core(2) unfolding small_ok_def by blast
    show "candidate_first x < mg_small_size mg \<and> candidate_first x \<le> candidate_end x \<and> candidate_end x \<le> mg_small_pages mg * MG_PAGE"
      using ok c(1,3) y(1) small [OF y(2-4)] by simp
  qed
  then have "small_ok (event_added ev type val n mg)"
    using core(2) unfolding e small_ok_def by simp
  moreover have "events_ok s (event_added ev type val n mg)"
    using core(3) f p assms(3) by (auto simp: e events_ok_def)
  moreover have "mg_failed (event_added ev type val n mg) = mg_failed mg" "small_mapped s (event_added ev type val n mg) = small_mapped s mg"
    by (simp_all add: e small_mapped_def page_backed_def graph_small_base_def)
  ultimately show ?thesis using assms(1) by (simp add: graph_wf_def graph_core_def)
qed

subsection \<open>The allocation\<close>

lemma small_ok_ranges:
  assumes "small_ok mg" "ranges_ok rs" "\<forall>r \<in> set rs. sr_offset r + sr_bytes r \<le> mg_small_size mg"
  shows "small_ok (mg\<lparr>mg_small_ranges := rs\<rparr>)"
  using assms by (simp add: small_ok_def)

lemma ranges_disjoint_insert:
  assumes "small_ok mg" "0 < sr_bytes r" "sr_offset r + sr_bytes r \<le> mg_small_size mg"
    "\<forall>x \<in> set (mg_small_ranges mg). \<not> overlaps (sr_offset r) (sr_bytes r) (sr_offset x, sr_bytes x)"
  shows "ranges_ok (insert_range r (mg_small_ranges mg))"
    "\<forall>x \<in> set (insert_range r (mg_small_ranges mg)). sr_offset x + sr_bytes x \<le> mg_small_size mg"
  by (rule insert_range_ok, use assms in \<open>simp_all add: small_ok_def set_insert_range\<close>)

lemma graph_wf_ranges:
  assumes "graph_wf s mg" "small_ok (mg\<lparr>mg_small_ranges := rs\<rparr>)"
  shows "graph_wf s (mg\<lparr>mg_small_ranges := rs\<rparr>)"
  using assms by (simp add: graph_wf_def graph_core_def graph_shape_def events_ok_def small_mapped_def page_backed_def
      graph_base_def graph_small_base_def)

definition small_placed :: "env \<Rightarrow> nat \<Rightarrow> 'z rstate_scheme \<Rightarrow> malloc_graph \<Rightarrow> nat \<Rightarrow> nat \<Rightarrow> u64 \<times> int \<Rightarrow> 'z rstate_scheme \<Rightarrow> bool" where
  "small_placed E g s mg offset bytes r t \<longleftrightarrow> gstep E g s t \<and> (\<exists>mg'. graphs t g = Some mg' \<and> graph_wf t mg' \<and>
     (if snd r = CUDA_SUCCESS
      then mg_failed mg' = mg_failed mg \<and> mg_used mg' = mg_used mg + bytes \<and> offset + bytes \<le> mg_small_pages mg' * MG_PAGE \<and>
        (\<exists>base ev. graph_small_base mg' t = Some base \<and> fst r = base + of_nat offset \<and> mg_events mg ev = None \<and>
           ev \<in> set (fr_allocations (hd (mg_state mg'))) \<and> mg_events mg' ev \<noteq> None \<and>
           set (mg_small_ranges mg') = insert \<lparr>sr_offset = offset, sr_bytes = bytes, sr_rogue_ptr = 0,
             sr_owner_depth = fr_depth (hd (mg_state mg)), sr_allocation = Some ev\<rparr> (set (mg_small_ranges mg)))
      else mg_failed mg'))"

lemma insert_range_same:
  assumes "sr_offset r' = sr_offset r"
  shows "(insert_range r rs)[range_index (sr_offset r) rs := r'] = insert_range r' rs"
  using assms insert_range_index(3) [of r rs r'] by (simp add: insert_range_def)

lemma small_ok_cong:
  assumes "small_ok mg" "mg_small_ranges mg' = mg_small_ranges mg" "mg_small_size mg' = mg_small_size mg"
    "mg_small_pages mg' = mg_small_pages mg" "mg_small_unusable mg' = mg_small_unusable mg"
    "mg_rogue_candidates mg' = mg_rogue_candidates mg" "mg_events mg' = mg_events mg"
  shows "small_ok mg'"
  using assms by (simp add: small_ok_def)

lemma graph_wf_used_tracked:
  assumes "graph_wf s mg"
  shows "graph_wf s (add_used n (track_allocation ev mg))"
proof -
  let ?mg = "add_used n (track_allocation ev mg)"
  have "small_ok ?mg" by (rule small_ok_cong [of mg]) (use assms in \<open>simp_all add: graph_wf_def graph_core_def add_used_def track_allocation_def map_top_def\<close>)
  then show ?thesis
    using assms by (auto simp: graph_wf_def graph_core_def graph_shape_def events_ok_def small_mapped_def page_backed_def
        graph_base_def graph_small_base_def add_used_def track_allocation_def map_top_def split: list.splits)
qed

lemma wp_record_small:
  assumes "ready E s" "graphs s g = Some mg" "graph_wf s mg" "0 < bytes" "offset + bytes \<le> mg_small_size mg"
    "\<forall>x \<in> set (mg_small_ranges mg). \<not> overlaps offset bytes (sr_offset x, sr_bytes x)"
  shows "wp (record_small E g offset bytes n s) (small_placed E g s mg offset bytes)"
proof -
  obtain f fs where f: "mg_state mg = f # fs" using assms(3) by (cases "mg_state mg") (auto simp: graph_wf_def graph_core_def graph_shape_def)
  have f0: "top_frame mg = Some f" using f by (simp add: top_frame_def)
  have ok: "small_ok mg" using assms(3) by (simp add: graph_wf_def graph_core_def)
  let ?r = "\<lparr>sr_offset = offset, sr_bytes = bytes, sr_rogue_ptr = 0, sr_owner_depth = fr_depth f, sr_allocation = None\<rparr>"
  let ?in = "\<lambda>r. mg\<lparr>mg_small_ranges := insert_range r (mg_small_ranges mg)\<rparr>"
  have wf: "graph_wf t (?in r)" if "gstep E g s t" "sr_offset r = offset" "sr_bytes r = bytes" for r t
    by (rule graph_wf_gstep(1) [OF that(1) graph_wf_ranges [OF assms(3) small_ok_ranges [OF ok]]];
        rule ranges_disjoint_insert [OF ok]) (use assms(4-6) that in simp_all)
  have failed: "wp (do { s \<leftarrow> fail_graph g t; Some ((0, CUDA_ERROR_OUT_OF_MEMORY), s) }) (small_placed E g s mg offset bytes)"
    if "gstep E g s t" "graphs t g = Some mg'" "graph_core t mg'" for t mg'
  proof -
    have "gstep E g s (set_graph g (mg'\<lparr>mg_failed := True\<rparr>) t)" by (rule gstep_set [OF that(1)]) (use assms(2) in simp)
    then show ?thesis using graph_wf_failed [OF that(3)] by (simp add: fail_graph_run [OF that(2)] small_placed_def)
  qed
  have s1: "gstep E g s (s\<lparr>hist := h\<rparr>)" for h by (rule ready_hist [OF assms(1)])
  let ?s1 = "s\<lparr>hist := HostAlloc # hist s\<rparr>"
  let ?s2 = "set_graph g (?in ?r) ?s1"
  have s2: "gstep E g s ?s2" by (rule gstep_set [OF s1]) (use assms(2) in simp)
  have wf2: "graph_wf ?s2 (?in ?r)" by (rule wf [OF s2]) simp_all
  have ev: "wp (event E g EV_ALLOC_SMALL offset n ?s2) (\<lambda>r t. gstep E g ?s2 t \<and> (case r of
      None \<Rightarrow> graphs t g = Some ((?in ?r)\<lparr>mg_failed := True\<rparr>)
    | Some ev \<Rightarrow> mg_events (?in ?r) ev = None \<and> mnext ?s2 \<le> ev \<and> ev < mnext t \<and> graphs t g = Some (event_added ev EV_ALLOC_SMALL offset n (?in ?r))))"
    by (rule wp_event) (use wf2 f gstep_ready [OF s2] in \<open>simp_all add: graph_wf_def graph_core_def\<close>)
  show ?thesis
  proof (cases "r_rc (drv E (hist s) HostAlloc) = 0")
    case False
    have "wp (do { s \<leftarrow> fail_graph g ?s1; Some ((0, CUDA_ERROR_OUT_OF_MEMORY), s) }) (small_placed E g s mg offset bytes)"
      by (rule failed [OF s1, of _ mg]) (use assms(2,3) graph_wf_gstep(2) [OF s1] graph_wf_core in auto)
    then show ?thesis using False by (simp add: record_small_def)
  next
    case True
    have "wp (do { (allocation, s) \<leftarrow> event E g EV_ALLOC_SMALL offset n ?s2;
       case allocation of
         None \<Rightarrow> do { s \<leftarrow> fail_graph g s; Some ((0, CUDA_ERROR_OUT_OF_MEMORY), s) }
       | Some ev \<Rightarrow> do {
           mg' \<leftarrow> graphs s g;
           let mg' = mg'\<lparr>mg_small_ranges := (mg_small_ranges mg')[range_index offset (mg_small_ranges mg) := ?r\<lparr>sr_allocation := Some ev\<rparr>]\<rparr>;
           let s = set_graph g (add_used bytes (track_allocation ev mg')) s;
           base \<leftarrow> graph_small_base mg' s;
           Some ((base + of_nat offset, CUDA_SUCCESS), s) } }) (small_placed E g s mg offset bytes)"
    proof (rule wp_step [OF ev], elim conjE, rule wp_opt, goal_cases)
      case (1 r t)
      have t: "gstep E g s t" by (rule gstep_trans [OF s2 1(1)])
      show ?case
        by (rule failed [OF t _ graph_wf_core [OF graph_wf_failed [OF graph_wf_core [OF wf [OF t, of ?r]]]]])
          (use 1 in simp_all)
    next
      case (2 r t ev)
      have t: "gstep E g s t" by (rule gstep_trans [OF s2 2(1)])
      let ?r' = "?r\<lparr>sr_allocation := Some ev\<rparr>"
      let ?e = "event_added ev EV_ALLOC_SMALL offset n (?in ?r)"
      let ?rs = "insert_range ?r' (mg_small_ranges mg)"
      let ?mg = "?e\<lparr>mg_small_ranges := ?rs\<rparr>"
      let ?fin = "add_used bytes (track_allocation ev ?mg)"
      have ev: "mg_events mg ev = None" "ev < mnext t" "graphs t g = Some ?e" using 2 by simp_all
      have e: "graph_wf t ?e" by (rule graph_wf_event [OF wf [OF t]]) (use ev in simp_all)
      obtain p where p: "mg_events mg (fr_cursor f) = Some p" using assms(3) f by (auto simp: graph_wf_def graph_core_def events_ok_def)
      have e_sel: "?e = (?in ?r)\<lparr>mg_events := (mg_events mg)(fr_cursor f \<mapsto> p\<lparr>ev_next := ev_next p @ [ev]\<rparr>,
          ev \<mapsto> zero_event\<lparr>ev_type := EV_ALLOC_SMALL, ev_value := offset, ev_bytes := n, ev_previous := Some (fr_cursor f)\<rparr>),
          mg_state := f\<lparr>fr_cursor := ev\<rparr> # fs\<rparr>"
        using event_added_sel [of "?in ?r" f fs p ev EV_ALLOC_SMALL offset n] f p by simp
      have "ranges_ok ?rs" "\<forall>x \<in> set ?rs. sr_offset x + sr_bytes x \<le> mg_small_size mg"
        by (rule ranges_disjoint_insert [OF ok]; use assms(4-6) in simp)+
      then have "small_ok ?mg" using e by (intro small_ok_ranges) (simp_all add: e_sel graph_wf_def graph_core_def)
      then have wf_fin: "graph_wf t ?fin" by (rule graph_wf_used_tracked [OF graph_wf_ranges [OF e]])
      obtain base where base: "graph_small_base ?fin t = Some base"
        using wf_fin by (auto simp: graph_wf_def graph_core_def graph_shape_def)
      have base': "graph_small_base ?mg (set_graph g ?fin t) = Some base"
        using base by (simp add: graph_small_base_def add_used_def track_allocation_def map_top_def virtual_range_get_def)
      have step: "gstep E g s (set_graph g ?fin t)" by (rule gstep_set [OF t]) (use assms(2) in simp)
      have "mg_small_size mg \<le> mg_small_pages mg * MG_PAGE" using ok by (simp add: small_ok_def)
      then have "small_placed E g s mg offset bytes (base + of_nat offset, CUDA_SUCCESS) (set_graph g ?fin t)"
        unfolding small_placed_def snd_conv fst_conv if_P [OF refl]
        using step wf_fin base ev(1) assms(5) f
        by (intro conjI exI [of _ ?fin] exI [of _ base] exI [of _ ev])
          (simp_all add: add_used_def track_allocation_def map_top_def e_sel set_insert_range graph_small_base_def virtual_range_get_def)
      moreover have "(mg_small_ranges ?e)[range_index offset (mg_small_ranges mg) := ?r'] = ?rs"
        using insert_range_same [of ?r' ?r "mg_small_ranges mg"] by (simp add: e_sel)
      ultimately show ?case
        using base' by (intro wp_get [OF ev(3)]) (simp add: Let_def)
    qed
    then show ?thesis using True assms(2) by (simp add: record_small_def f0 Let_def)
  qed
qed

lemma align_small:
  assumes "0 < n" "n < MG_SMALL_LIMIT"
  shows "0 < align_up n MG_SMALL_ALIGN" "align_up n MG_SMALL_ALIGN \<le> MG_SMALL_LIMIT" "n \<le> align_up n MG_SMALL_ALIGN"
proof -
  obtain q where q: "(n + 4095) div 4096 = q" by simp
  have "n + 4095 < (q + 1) * 4096" "q * 4096 \<le> n + 4095" using q by (auto simp: dividend_less_div_times)
  moreover have "align_up n MG_SMALL_ALIGN = q * 4096" using assms(2) q by (simp add: align_up_def)
  ultimately show "0 < align_up n MG_SMALL_ALIGN" "align_up n MG_SMALL_ALIGN \<le> MG_SMALL_LIMIT" "n \<le> align_up n MG_SMALL_ALIGN"
    using assms by simp_all
qed

text \<open>The range is placed where none of the ranges before overlaps it.\<close>

definition small_allocated :: "env \<Rightarrow> nat \<Rightarrow> nat \<Rightarrow> 'z rstate_scheme \<Rightarrow> malloc_graph \<Rightarrow> u64 \<times> int \<Rightarrow> 'z rstate_scheme \<Rightarrow> bool" where
  "small_allocated E g bytes s mg r t \<longleftrightarrow> (\<exists>offset. small_placed E g s mg offset bytes r t \<and>
     (snd r = CUDA_SUCCESS \<longrightarrow> (\<forall>x \<in> set (mg_small_ranges mg). \<not> overlaps offset bytes (sr_offset x, sr_bytes x))))"

lemma small_placed_from:
  assumes "small_placed E g u mg2 offset bytes r v" "gstep E g s u" "mg_small_ranges mg2 = mg_small_ranges mg"
    "mg_events mg2 = mg_events mg" "mg_state mg2 = mg_state mg" "mg_used mg2 = mg_used mg" "mg_failed mg2 = mg_failed mg"
  shows "small_placed E g s mg offset bytes r v"
proof -
  have "gstep E g s v" using assms(1) gstep_trans [OF assms(2)] by (simp add: small_placed_def)
  then show ?thesis using assms(1) unfolding small_placed_def assms(3-) by blast
qed

lemma small_allocated_from:
  assumes "small_allocated E g bytes u mg r v" "gstep E g s u"
  shows "small_allocated E g bytes s mg r v"
  using assms(1) small_placed_from [OF _ assms(2) refl refl refl refl refl] unfolding small_allocated_def by blast

lemma wp_alloc_small:
  assumes "ready E s" "graphs s g = Some mg" "graph_wf s mg" "0 < n" "n < MG_SMALL_LIMIT"
  shows "wp (alloc_small E g n s) (small_allocated E g (align_up n MG_SMALL_ALIGN) s mg)"
proof -
  let ?bytes = "align_up n MG_SMALL_ALIGN"
  note bytes = align_small [OF assms(4,5)]
  show ?thesis
    unfolding alloc_small_def Let_def
  proof (rule wp_step [OF wp_small_allocation_offset [OF assms(1-3) bytes(1)]], elim conjE exE, goal_cases)
    case st: (1 offset t kept)
    let ?mg = "mg\<lparr>mg_small_unusable := kept\<rparr>"
    have e: "offset + ?bytes \<le> mg_small_pages ?mg * MG_PAGE + MG_PAGE" using st(2) bytes(2) by simp
    show ?case
    proof (rule wp_step [OF wp_grow_small [OF gstep_ready [OF st(1)] st(4,5) e]], rule wp_branch, goal_cases)
      case (1 r u)
      then show ?case using gstep_trans [OF st(1)] by (auto simp: region_grew_def small_allocated_def small_placed_def)
    next
      case (2 r u)
      then obtain mg2 where u: "gstep E g t u" "graphs u g = Some mg2" "region_grown ?mg mg2" "graph_wf u mg2"
          "mg_failed mg2 = mg_failed ?mg" "offset + ?bytes \<le> mg_small_size mg2"
        by (auto simp: region_grew_def)
      note d = region_grownD [OF u(3)]
      have free: "\<forall>x \<in> set (mg_small_ranges mg). \<not> overlaps offset ?bytes (sr_offset x, sr_bytes x)" by (rule st(3))
      then have free2: "\<forall>x \<in> set (mg_small_ranges mg2). \<not> overlaps offset ?bytes (sr_offset x, sr_bytes x)" using d(1) by simp
      have same: "mg_small_ranges mg2 = mg_small_ranges mg" "mg_events mg2 = mg_events mg" "mg_state mg2 = mg_state mg"
        "mg_used mg2 = mg_used mg" "mg_failed mg2 = mg_failed mg" using d u(5) by simp_all
      have su: "gstep E g s u" by (rule gstep_trans [OF st(1) u(1)])
      show ?case
        unfolding small_allocated_def
        by (rule wp_conseq [OF wp_record_small [OF gstep_ready [OF u(1)] u(2,4) bytes(1) u(6) free2]],
            rule exI [of _ offset], intro conjI impI, rule small_placed_from [OF _ su same], assumption, rule free)
    qed
  qed
qed

subsection \<open>The entry point\<close>

lemma ready_error_reset:
  fixes s :: "'z rstate_scheme"
  assumes "ready E s"
  shows "gstep E g s (s\<lparr>last_allocation_driver_error := e\<rparr>)"
  using assms
  by (auto simp: gstep_def ready_def vinv_def graph_ok_def spare_def other_bytes_def owned_pages_def
      palloc_bytes_def intro: pinv_cong)

lemma routed_reset:
  fixes s :: "'z rstate_scheme"
  shows "routed (s\<lparr>last_allocation_driver_error := e\<rparr>) mg stream = routed s mg stream"
    "freed_candidates (s\<lparr>last_allocation_driver_error := e\<rparr>) mg = freed_candidates s mg"
  by (simp_all add: routed_def freed_candidates_def candidate_ptr_def graph_base_def graph_small_base_def
      virtual_range_get_def candidate_verdict_def find_candidate_def)

lemma wp_graph_alloc_small:
  assumes "ready E s" "active_graph s = Some g" "graphs s g = Some mg" "graph_wf s mg"
    "fr_recording (hd (mg_state mg))" "0 < n" "n < MG_SMALL_LIMIT"
  shows "wp (malloc_graph_alloc E n stream s) (\<lambda>r t. if routed s mg stream
    then \<exists>a. r = Some a \<and> small_allocated E g (align_up n MG_SMALL_ALIGN) s mg a t
    else r = None \<and> gstep E g s t \<and> graphs t g = Some (mg\<lparr>mg_failed := mg_failed mg \<or> freed_candidates s mg\<rparr>))"
proof -
  obtain s' where s': "s' = (if is_xpu E then s\<lparr>last_allocation_driver_error := CUDA_SUCCESS\<rparr> else s)" by simp
  have s: "gstep E g s s'" unfolding s' using ready_error_reset [OF assms(1)] gstep_refl [OF assms(1)] by simp
  have g: "graphs s' g = Some mg" "active_graph s' = Some g" "ready E s'" "allocations_lock_depth s' = 0"
    using s' assms(2,3) gstep_ready [OF s] by (simp_all add: ready_def)
  have wf: "graph_wf s' mg" by (rule graph_wf_gstep(1) [OF s assms(4)])
  then have shape: "graph_shape s' mg" by (simp add: graph_wf_def graph_core_def)
  have routed: "routed s' mg stream = routed s mg stream" "freed_candidates s' mg = freed_candidates s mg"
    by (simp_all add: s' routed_reset)
  note run = not_routed_run [OF g(4,1) shape, of E stream]
  obtain f fs where f: "mg_state mg = f # fs" "fr_recording f"
    using shape assms(5) by (cases "mg_state mg") (auto simp: graph_shape_def)
  show ?thesis
  proof (cases "routed s mg stream")
    case True
    then have "\<not> freed_candidates s mg" by (simp add: routed_def)
    have "wp (alloc_small E g n s') (\<lambda>a t. \<exists>x y. a = (x, y) \<and> small_allocated E g (align_up n MG_SMALL_ALIGN) s mg (x, y) t)"
      by (rule wp_conseq [OF wp_alloc_small [OF g(3,1) wf assms(6,7)]])
        (metis small_allocated_from [OF _ s] surj_pair)
    then show ?thesis
      using True f g assms(7) run routed \<open>\<not> freed_candidates s mg\<close>
      by (simp add: malloc_graph_alloc_def Let_def s' [symmetric] mark_failed_def alloc_routed_def top_frame_def)
  next
    case False
    have "gstep E g s (mark_failed b g mg s')" for b
      using gstep_set [OF s] assms(3) s by (simp add: mark_failed_def)
    moreover have "graphs (mark_failed b g mg s') g = Some (mg\<lparr>mg_failed := mg_failed mg \<or> b\<rparr>)" for b
      using g(1) by (cases mg) (simp add: mark_failed_def)
    ultimately show ?thesis
      using False g run routed by (simp add: malloc_graph_alloc_def Let_def s' [symmetric])
  qed
qed

end
