(* ===== verification/DemoGraph.thy ===== *)
theory DemoGraph
  imports DemoAlloc GraphSmallInv
begin

text \<open>
  A state with an active allocation graph that is recording: two small ranges with a hole between
  them in one page of the small region, whose physical page is mapped there.
\<close>

definition demo_frame :: graph_frame where
  "demo_frame = \<lparr>fr_cursor = 6, fr_allocations = [], fr_depth = 1, fr_recording = True, fr_broken = False,
     fr_excluded_allocations = 0\<rparr>"

definition demo_small :: "nat \<Rightarrow> small_range" where
  "demo_small offset = \<lparr>sr_offset = offset, sr_bytes = 4096, sr_rogue_ptr = 0, sr_owner_depth = 1, sr_allocation = None\<rparr>"

definition demo_graph :: malloc_graph where
  "demo_graph = (new_graph 7 8 6 0 0 1 False False)\<lparr>mg_state := [demo_frame],
     mg_small_ranges := [demo_small 0, demo_small 8192], mg_small_physical_pages := [0 \<mapsto> 1],
     mg_small_mapped_pages := [0 \<mapsto> 3], mg_small_size := 12288, mg_small_pages := 1, mg_used := 8192\<rparr>"

definition demo_gstate :: astate where
  "demo_gstate = demo_astate\<lparr>
     vranges := [7 \<mapsto> \<lparr>vr_address = 2 ^ 45, vr_bytes = 68719476736, vr_refs = 1\<rparr>,
                 8 \<mapsto> \<lparr>vr_address = 2 ^ 46, vr_bytes = 8589934592, vr_refs = 1\<rparr>],
     pallocs := [2 \<mapsto> demo_allocation\<lparr>pa_refs := 2, pa_references := [3, 1]\<rparr>],
     ppages := [1 \<mapsto> demo_page, 3 \<mapsto> \<lparr>pp_allocation = 2, pp_address = 2 ^ 46\<rparr>],
     graphs := [9 \<mapsto> demo_graph], active_graph := Some 9\<rparr>"

lemma demo_gstate_sel [simp]:
  "graphs demo_gstate = [9 \<mapsto> demo_graph]" "active_graph demo_gstate = Some 9" "allocations_lock_depth demo_gstate = 0"
  "ppages demo_gstate = [1 \<mapsto> demo_page, 3 \<mapsto> \<lparr>pp_allocation = 2, pp_address = 2 ^ 46\<rparr>]" "mnext demo_gstate = 10"
  by (simp_all add: demo_gstate_def)

lemma demo_gstate_ready [simp]: "ready E demo_gstate"
proof -
  have "vinv E demo_gstate" using demo_astate_vinv [of E] by (simp add: demo_gstate_def vinv_def)
  moreover have "graph_ok demo_gstate" by (simp add: graph_ok_def)
  moreover have "pinv demo_gstate"
    by (simp add: pinv_def demo_gstate_def demo_allocation_def demo_page_def)
  ultimately show ?thesis by (simp add: ready_def)
qed

lemma demo_graph_wf [simp]: "graph_wf demo_gstate demo_graph"
proof -
  have "page_backed demo_gstate (2 ^ 46) demo_graph 0"
    by (simp add: page_backed_def demo_graph_def demo_page_def allocation_of_def)
  then have "small_mapped demo_gstate demo_graph"
    by (simp add: small_mapped_def graph_small_base_def demo_graph_def demo_gstate_def new_graph_def virtual_range_get_def page_backed_def)
  moreover have "graph_shape demo_gstate demo_graph"
    by (simp add: graph_shape_def graph_base_def graph_small_base_def demo_graph_def new_graph_def demo_gstate_def virtual_range_get_def)
  moreover have "small_ok demo_graph"
    by (simp add: small_ok_def demo_graph_def new_graph_def ranges_ok_def demo_small_def)
  moreover have "events_ok demo_gstate demo_graph"
    by (simp add: events_ok_def demo_graph_def new_graph_def demo_frame_def)
  ultimately show ?thesis by (simp add: graph_wf_def graph_core_def)
qed

end
