(* ===== verification/XferFile.thy ===== *)
theory XferFile
  imports Env "HOL-Library.Multiset"
begin

text \<open>
  File transfers by a pool of worker threads (\<open>src/xfer-file.c\<close>). A transfer cuts its bytes into
  chunks of 2 MiB, queues one task per chunk in a ring of 256 slots, and waits until the workers have
  done them all. The chunk transfer itself is \<open>xfer_file_read_at\<close> or \<open>xfer_file_write_at\<close>.

  The threads run concurrently: each critical section under a mutex is one step of the relation
  \<open>xstep\<close>, the loops around a condition variable are the guard of the step that follows them, and a
  step can be taken by any client or worker that is ready. A transfer in progress is a client,
  addressed by the address of its \<open>XferFileWait\<close>, which lives on the stack of \<open>xfer_file_transfer\<close>:
  it is gone when the client returns. \<open>xf_io\<close> is the list of the chunk transfers made, latest first.
\<close>

abbreviation XFER_FILE_THREADS :: nat where "XFER_FILE_THREADS \<equiv> 8"
abbreviation XFER_FILE_CHUNK_SIZE :: nat where "XFER_FILE_CHUNK_SIZE \<equiv> 2097152"
abbreviation XFER_FILE_QUEUE_CAP :: nat where "XFER_FILE_QUEUE_CAP \<equiv> 256"

subsection \<open>A ring\<close>

record 'a ring =
  ring_slots :: "nat \<Rightarrow> 'a"
  ring_head :: nat
  ring_tail :: nat
  ring_count :: nat

definition ring_push :: "'a \<Rightarrow> 'a ring \<Rightarrow> 'a ring" where
  "ring_push x r = r\<lparr>ring_slots := (ring_slots r)(ring_tail r := x),
     ring_tail := (ring_tail r + 1) mod XFER_FILE_QUEUE_CAP, ring_count := ring_count r + 1\<rparr>"

definition ring_pop :: "'a ring \<Rightarrow> 'a \<times> 'a ring" where
  "ring_pop r = (ring_slots r (ring_head r),
     r\<lparr>ring_head := (ring_head r + 1) mod XFER_FILE_QUEUE_CAP, ring_count := ring_count r - 1\<rparr>)"

definition ring_ok :: "'a ring \<Rightarrow> bool" where
  "ring_ok r \<longleftrightarrow> ring_head r < XFER_FILE_QUEUE_CAP \<and> ring_count r \<le> XFER_FILE_QUEUE_CAP \<and>
     ring_tail r = (ring_head r + ring_count r) mod XFER_FILE_QUEUE_CAP"

text \<open>What the ring holds, in the order it comes out.\<close>

definition ring_items :: "'a ring \<Rightarrow> 'a list" where
  "ring_items r = map (\<lambda>k. ring_slots r ((ring_head r + k) mod XFER_FILE_QUEUE_CAP)) [0..<ring_count r]"

text \<open>The contract of a bounded queue.\<close>

locale bounded_fifo =
  fixes ok :: "'q \<Rightarrow> bool" and items :: "'q \<Rightarrow> 'a list" and capacity :: nat
    and push :: "'a \<Rightarrow> 'q \<Rightarrow> 'q" and pop :: "'q \<Rightarrow> 'a \<times> 'q"
  assumes bounded: "ok q \<Longrightarrow> length (items q) \<le> capacity"
    and push_ok: "ok q \<Longrightarrow> length (items q) < capacity \<Longrightarrow> ok (push x q)"
    and push_items: "ok q \<Longrightarrow> length (items q) < capacity \<Longrightarrow> items (push x q) = items q @ [x]"
    and pop_ok: "ok q \<Longrightarrow> items q \<noteq> [] \<Longrightarrow> ok (snd (pop q))"
    and pop_items: "ok q \<Longrightarrow> items q \<noteq> [] \<Longrightarrow> items q = fst (pop q) # items (snd (pop q))"
begin

lemma push_mset: "ok q \<Longrightarrow> length (items q) < capacity \<Longrightarrow> mset (items (push x q)) = add_mset x (mset (items q))"
  by (simp add: push_items)

lemma pop_mset: "ok q \<Longrightarrow> items q \<noteq> [] \<Longrightarrow> mset (items q) = add_mset (fst (pop q)) (mset (items (snd (pop q))))"
  by (subst pop_items) simp_all

lemma pop_length: "ok q \<Longrightarrow> items q \<noteq> [] \<Longrightarrow> length (items q) = Suc (length (items (snd (pop q))))"
  by (subst pop_items) simp_all

end

lemma length_ring_items [simp]: "length (ring_items r) = ring_count r"
  by (simp add: ring_items_def)

interpretation ring: bounded_fifo ring_ok ring_items XFER_FILE_QUEUE_CAP ring_push ring_pop
proof
  fix q :: "'a ring" and x :: 'a
  assume q: "ring_ok q"
  show "length (ring_items q) \<le> XFER_FILE_QUEUE_CAP" using q by (simp add: ring_ok_def)
  show "ring_ok (ring_push x q)" if "length (ring_items q) < XFER_FILE_QUEUE_CAP"
    using q that by (simp add: ring_ok_def ring_push_def mod_Suc_eq)
  show "ring_items (ring_push x q) = ring_items q @ [x]" if "length (ring_items q) < XFER_FILE_QUEUE_CAP"
  proof -
    have "(ring_head q + k) mod XFER_FILE_QUEUE_CAP \<noteq> ring_tail q" if "k < ring_count q" for k
    proof
      assume "(ring_head q + k) mod XFER_FILE_QUEUE_CAP = ring_tail q"
      then have "(ring_head q + k) mod XFER_FILE_QUEUE_CAP = (ring_head q + ring_count q) mod XFER_FILE_QUEUE_CAP"
        using q by (simp add: ring_ok_def)
      then show False using that \<open>length (ring_items q) < XFER_FILE_QUEUE_CAP\<close> q
        by (simp add: ring_ok_def mod_if split: if_splits)
    qed
    then show ?thesis using q by (simp add: ring_items_def ring_push_def ring_ok_def)
  qed
  assume ne: "ring_items q \<noteq> []"
  then have c: "0 < ring_count q" by (cases "ring_count q") (auto simp: ring_items_def)
  obtain n where n: "ring_count q = Suc n" using c by (cases "ring_count q") auto
  show "ring_ok (snd (ring_pop q))"
    using q n by (simp add: ring_ok_def ring_pop_def mod_simps)
  have "[0..<Suc n] = 0 # map Suc [0..<n]" by (simp add: upt_conv_Cons map_Suc_upt)
  then show "ring_items q = fst (ring_pop q) # ring_items (snd (ring_pop q))"
    using q n by (simp add: ring_items_def ring_pop_def ring_ok_def mod_simps del: upt_Suc)
qed

subsection \<open>Tasks and transfers\<close>

record xfer_task =
  xt_file :: u64
  xt_offset :: u64
  xt_buffer :: u64
  xt_size :: nat
  xt_cold :: bool
  xt_write :: bool
  xt_wait :: nat

record xfer_wait =
  xw_pending :: nat
  xw_failed :: bool

text \<open>The activation of \<open>xfer_file_transfer\<close>: its arguments and its loop variable.\<close>

record xfer_client =
  xc_file :: u64
  xc_offset :: u64
  xc_buffer :: u64
  xc_size :: nat
  xc_cold :: bool
  xc_write :: bool
  xc_done :: nat

datatype xfer_worker = Idle | Busy xfer_task | Exited

record xfer =
  xf_ring :: "xfer_task ring"
  xf_stop :: bool
  xf_workers :: "xfer_worker list"
  xf_clients :: "nat \<rightharpoonup> xfer_client"
  xf_waits :: "nat \<rightharpoonup> xfer_wait"
  xf_io :: "(xfer_task \<times> bool) list"

definition zero_task :: xfer_task where
  "zero_task = \<lparr>xt_file = 0, xt_offset = 0, xt_buffer = 0, xt_size = 0, xt_cold = False, xt_write = False, xt_wait = 0\<rparr>"

definition pool_ready :: xfer where
  "pool_ready = \<lparr>xf_ring = \<lparr>ring_slots = (\<lambda>_. zero_task), ring_head = 0, ring_tail = 0, ring_count = 0\<rparr>,
     xf_stop = False, xf_workers = replicate XFER_FILE_THREADS Idle, xf_clients = Map.empty, xf_waits = Map.empty, xf_io = []\<rparr>"

definition chunk_count :: "nat \<Rightarrow> nat" where
  "chunk_count n = (n + XFER_FILE_CHUNK_SIZE - 1) mod 2 ^ 64 div XFER_FILE_CHUNK_SIZE"

definition chunk_task :: "nat \<Rightarrow> xfer_client \<Rightarrow> nat \<Rightarrow> xfer_task" where
  "chunk_task w c at = \<lparr>xt_file = xc_file c, xt_offset = xc_offset c + of_nat at, xt_buffer = xc_buffer c + of_nat at,
     xt_size = min XFER_FILE_CHUNK_SIZE (xc_size c - at), xt_cold = xc_cold c, xt_write = xc_write c, xt_wait = w\<rparr>"

subsection \<open>The critical sections\<close>

text \<open>\<open>xfer_file_transfer\<close> starts: its wait is a new stack object.\<close>

definition xfer_begin :: "nat \<Rightarrow> xfer_client \<Rightarrow> xfer \<Rightarrow> xfer option" where
  "xfer_begin w c x =
     (if xf_clients x w \<noteq> None \<or> xf_stop x then None
      else Some (x\<lparr>xf_clients := (xf_clients x)(w \<mapsto> c\<lparr>xc_done := 0\<rparr>),
                   xf_waits := (xf_waits x)(w \<mapsto> \<lparr>xw_pending = chunk_count (xc_size c), xw_failed = False\<rparr>)\<rparr>))"

text \<open>One turn of its loop: the next chunk goes in the ring once there is space.\<close>

definition xfer_push :: "nat \<Rightarrow> xfer \<Rightarrow> xfer option" where
  "xfer_push w x = do {
     c \<leftarrow> xf_clients x w;
     if \<not> xc_done c < xc_size c \<or> ring_count (xf_ring x) = XFER_FILE_QUEUE_CAP then None
     else Some (x\<lparr>xf_ring := ring_push (chunk_task w c (xc_done c)) (xf_ring x),
                  xf_clients := (xf_clients x)(w \<mapsto> c\<lparr>xc_done := (xc_done c + XFER_FILE_CHUNK_SIZE) mod 2 ^ 64\<rparr>)\<rparr>) }"

text \<open>It returns: all chunks are queued and none is pending; the answer is whether none failed.\<close>

definition xfer_return :: "nat \<Rightarrow> xfer \<Rightarrow> (bool \<times> xfer) option" where
  "xfer_return w x = do {
     c \<leftarrow> xf_clients x w;
     wt \<leftarrow> xf_waits x w;
     if xc_done c < xc_size c \<or> xw_pending wt \<noteq> 0 then None
     else Some (\<not> xw_failed wt, x\<lparr>xf_clients := (xf_clients x)(w := None), xf_waits := (xf_waits x)(w := None)\<rparr>) }"

text \<open>A worker takes a task, and when the transfer has the result \<open>ok\<close> settles it with its wait.\<close>

definition xfer_file_task_pop :: "nat \<Rightarrow> xfer \<Rightarrow> xfer option" where
  "xfer_file_task_pop i x =
     (if i < length (xf_workers x) \<and> xf_workers x ! i = Idle \<and> ring_count (xf_ring x) \<noteq> 0 then
        let (task, r) = ring_pop (xf_ring x) in Some (x\<lparr>xf_ring := r, xf_workers := (xf_workers x)[i := Busy task]\<rparr>)
      else None)"

definition xfer_settle :: "nat \<Rightarrow> bool \<Rightarrow> xfer \<Rightarrow> xfer option" where
  "xfer_settle i ok x = do {
     task \<leftarrow> (if i < length (xf_workers x) then (case xf_workers x ! i of Busy task \<Rightarrow> Some task | _ \<Rightarrow> None) else None);
     wt \<leftarrow> xf_waits x (xt_wait task);
     Some (x\<lparr>xf_workers := (xf_workers x)[i := Idle], xf_io := (task, ok) # xf_io x,
             xf_waits := (xf_waits x)(xt_wait task \<mapsto> \<lparr>xw_pending = (xw_pending wt + (2 ^ 64 - 1)) mod 2 ^ 64,
                                                     xw_failed = (\<not> ok \<or> xw_failed wt)\<rparr>)\<rparr>) }"

text \<open>The end of a worker, and \<open>xfer_file_cleanup\<close>: the request to stop, and the reset once all have left.\<close>

definition xfer_worker_exit :: "nat \<Rightarrow> xfer \<Rightarrow> xfer option" where
  "xfer_worker_exit i x =
     (if i < length (xf_workers x) \<and> xf_workers x ! i = Idle \<and> ring_count (xf_ring x) = 0 \<and> xf_stop x
      then Some (x\<lparr>xf_workers := (xf_workers x)[i := Exited]\<rparr>) else None)"

definition xfer_cleanup_begin :: "xfer \<Rightarrow> xfer" where
  "xfer_cleanup_begin x = x\<lparr>xf_stop := True\<rparr>"

definition xfer_cleanup_end :: "xfer \<Rightarrow> xfer option" where
  "xfer_cleanup_end x = (if xf_stop x \<and> list_all (\<lambda>w. w = Exited) (xf_workers x)
     then Some (x\<lparr>xf_ring := xf_ring pool_ready, xf_stop := False, xf_workers := []\<rparr>) else None)"

text \<open>
  The threads. \<open>xwork\<close> are the steps that a transfer in progress and the workers take by themselves; a
  transfer begins with a size that an object can have (\<open>PTRDIFF_MAX\<close>) at an address that no task or
  earlier chunk transfer names. The clean-up is for a pool without transfers.
\<close>

inductive xwork :: "xfer \<Rightarrow> xfer \<Rightarrow> bool" where
  push: "xfer_push w x = Some y \<Longrightarrow> xwork x y"
| take_task: "xfer_file_task_pop i x = Some y \<Longrightarrow> xwork x y"
| settle: "xfer_settle i ok x = Some y \<Longrightarrow> xwork x y"
| leave: "xfer_return w x = Some (ok, y) \<Longrightarrow> xwork x y"

inductive xstep :: "xfer \<Rightarrow> xfer \<Rightarrow> bool" where
  begins: "xfer_begin w c x = Some y \<Longrightarrow> xc_size c < 2 ^ 63 \<Longrightarrow> w \<notin> xt_wait ` fst ` set (xf_io x) \<Longrightarrow> xstep x y"
| works: "xwork x y \<Longrightarrow> xstep x y"
| stops: "xf_clients x = Map.empty \<Longrightarrow> xstep x (xfer_cleanup_begin x)"
| exits: "xfer_worker_exit i x = Some y \<Longrightarrow> xstep x y"

inductive xreachable :: "xfer \<Rightarrow> bool" where
  initial: "xreachable pool_ready"
| step: "xreachable x \<Longrightarrow> xstep x y \<Longrightarrow> xreachable y"

inductive_cases xworkE: "xwork x y"
inductive_cases xstepE: "xstep x y"

subsection \<open>The invariant\<close>

definition worker_tasks :: "xfer_worker \<Rightarrow> xfer_task list" where
  "worker_tasks w = (case w of Busy t \<Rightarrow> [t] | _ \<Rightarrow> [])"

definition busy_tasks :: "xfer \<Rightarrow> xfer_task multiset" where
  "busy_tasks x = mset (concat (map worker_tasks (xf_workers x)))"

text \<open>The tasks that are queued or with a worker, and those done.\<close>

definition open_tasks :: "xfer \<Rightarrow> xfer_task multiset" where
  "open_tasks x = mset (ring_items (xf_ring x)) + busy_tasks x"

definition done_tasks :: "xfer \<Rightarrow> xfer_task multiset" where
  "done_tasks x = mset (map fst (xf_io x))"

definition tasks_for :: "nat \<Rightarrow> xfer_task multiset \<Rightarrow> xfer_task multiset" where
  "tasks_for w T = filter_mset (\<lambda>t. xt_wait t = w) T"

text \<open>The first \<open>k\<close> chunks of a transfer, and all of them.\<close>

definition first_chunks :: "nat \<Rightarrow> xfer_client \<Rightarrow> nat \<Rightarrow> xfer_task multiset" where
  "first_chunks w c k = mset (map (\<lambda>i. chunk_task w c (i * XFER_FILE_CHUNK_SIZE)) [0..<k])"

definition chunks_failed :: "nat \<Rightarrow> xfer \<Rightarrow> bool" where
  "chunks_failed w x \<longleftrightarrow> (\<exists>t. xt_wait t = w \<and> (t, False) \<in> set (xf_io x))"

definition client_ok :: "xfer \<Rightarrow> nat \<Rightarrow> xfer_client \<Rightarrow> bool" where
  "client_ok x w c \<longleftrightarrow> xc_size c < 2 ^ 63 \<and> (\<exists>k. xc_done c = k * XFER_FILE_CHUNK_SIZE \<and> k \<le> chunk_count (xc_size c) \<and>
     tasks_for w (open_tasks x + done_tasks x) = first_chunks w c k \<and>
     xf_waits x w = Some \<lparr>xw_pending = chunk_count (xc_size c) - k + size (tasks_for w (open_tasks x)), xw_failed = chunks_failed w x\<rparr>)"

definition xfer_inv :: "xfer \<Rightarrow> bool" where
  "xfer_inv x \<longleftrightarrow> ring_ok (xf_ring x) \<and> finite (dom (xf_clients x)) \<and> dom (xf_waits x) = dom (xf_clients x) \<and>
     (\<forall>t \<in># open_tasks x. xf_clients x (xt_wait t) \<noteq> None) \<and> (\<forall>w c. xf_clients x w = Some c \<longrightarrow> client_ok x w c) \<and>
     (xf_stop x \<longrightarrow> xf_clients x = Map.empty) \<and> (Exited \<in> set (xf_workers x) \<longrightarrow> xf_stop x) \<and>
     length (xf_workers x) = XFER_FILE_THREADS"

lemma chunk_count_eq: "n < 2 ^ 63 \<Longrightarrow> chunk_count n = (n + XFER_FILE_CHUNK_SIZE - 1) div XFER_FILE_CHUNK_SIZE"
  by (simp add: chunk_count_def)

lemma chunk_count_less:
  assumes "n < 2 ^ 63"
  shows "k * XFER_FILE_CHUNK_SIZE < n \<longleftrightarrow> k < chunk_count n"
  using assms by (simp add: chunk_count_eq less_eq_div_iff_mult_less_eq Suc_le_eq [symmetric])

lemma first_chunks_Suc: "first_chunks w c (Suc k) = add_mset (chunk_task w c (k * XFER_FILE_CHUNK_SIZE)) (first_chunks w c k)"
  by (simp add: first_chunks_def)

lemma tasks_for_add [simp]:
  "tasks_for w (T + U) = tasks_for w T + tasks_for w U"
  "tasks_for w (add_mset t T) = (if xt_wait t = w then add_mset t (tasks_for w T) else tasks_for w T)"
  by (simp_all add: tasks_for_def)

lemma tasks_for_empty: "tasks_for w T = {#} \<longleftrightarrow> (\<forall>t \<in># T. xt_wait t \<noteq> w)"
  by (induction T) (auto simp: tasks_for_def)

lemma mset_concat_update:
  "i < length xs \<Longrightarrow> mset (concat (map f (xs[i := y]))) + mset (f (xs ! i)) = mset (concat (map f xs)) + mset (f y)"
proof (induction xs arbitrary: i)
  case (Cons x xs)
  then show ?case by (cases i) (auto simp: add_ac)
qed simp

lemma worker_update:
  assumes "i < length (xf_workers x)"
  shows "xf_workers x ! i = Idle \<Longrightarrow> mset (concat (map worker_tasks ((xf_workers x)[i := Busy t]))) = add_mset t (busy_tasks x)"
    "xf_workers x ! i = Busy t \<Longrightarrow> busy_tasks x = add_mset t (mset (concat (map worker_tasks ((xf_workers x)[i := Idle]))))"
    "xf_workers x ! i = Idle \<Longrightarrow> mset (concat (map worker_tasks ((xf_workers x)[i := Exited]))) = busy_tasks x"
  using mset_concat_update [OF assms, of worker_tasks "Busy t"] mset_concat_update [OF assms, of worker_tasks Idle]
    mset_concat_update [OF assms, of worker_tasks Exited]
  by (auto simp: busy_tasks_def worker_tasks_def)

lemma chunk_task_done: "chunk_task w (c\<lparr>xc_done := d\<rparr>) = chunk_task w c"
  by (rule ext) (simp add: chunk_task_def)

lemma first_chunks_done: "first_chunks w (c\<lparr>xc_done := d\<rparr>) k = first_chunks w c k"
  by (simp add: first_chunks_def chunk_task_done)

lemma chunk_task_wait [simp]: "xt_wait (chunk_task w c i) = w"
  by (simp add: chunk_task_def)

lemma client_ok_same:
  assumes "client_ok x w c" "tasks_for w (open_tasks y) = tasks_for w (open_tasks x)"
    "tasks_for w (done_tasks y) = tasks_for w (done_tasks x)" "xf_waits y w = xf_waits x w" "chunks_failed w y = chunks_failed w x"
  shows "client_ok y w c"
  using assms by (simp add: client_ok_def)

lemma no_tasks:
  assumes "xfer_inv x" "xf_clients x w = None"
  shows "tasks_for w (open_tasks x) = {#}"
  using assms by (auto simp: xfer_inv_def tasks_for_empty)

lemma inv_begin:
  assumes "xfer_inv x" "xfer_begin w c x = Some y" "xc_size c < 2 ^ 63" "w \<notin> xt_wait ` fst ` set (xf_io x)"
  shows "xfer_inv y"
proof -
  have w: "xf_clients x w = None" "\<not> xf_stop x" using assms(2) by (auto simp: xfer_begin_def split: if_splits)
  let ?c = "c\<lparr>xc_done := 0\<rparr>"
  have y: "y = x\<lparr>xf_clients := (xf_clients x)(w \<mapsto> ?c),
      xf_waits := (xf_waits x)(w \<mapsto> \<lparr>xw_pending = chunk_count (xc_size c), xw_failed = False\<rparr>)\<rparr>"
    using assms(2) by (auto simp: xfer_begin_def split: if_splits)
  have same: "open_tasks y = open_tasks x" "done_tasks y = done_tasks x" "chunks_failed v y = chunks_failed v x" for v
    by (simp_all add: y open_tasks_def done_tasks_def busy_tasks_def chunks_failed_def)
  have "tasks_for w (done_tasks x) = {#}" "\<not> chunks_failed w x"
    using assms(4) by (force simp: done_tasks_def tasks_for_empty chunks_failed_def)+
  then have "client_ok y w ?c"
    using no_tasks [OF assms(1) w(1)] assms(3) by (simp add: client_ok_def same first_chunks_def) (simp add: y)
  moreover have "client_ok y v d" if "xf_clients x v = Some d" for v d
    by (rule client_ok_same [of x]) (use assms(1) that w(1) same in \<open>auto simp: xfer_inv_def y\<close>)
  ultimately have "\<forall>v d. xf_clients y v = Some d \<longrightarrow> client_ok y v d" using y by auto
  moreover have "xf_ring y = xf_ring x" "xf_workers y = xf_workers x" "xf_stop y = xf_stop x" by (simp_all add: y)
  ultimately show ?thesis using assms(1) w(2) same by (auto simp: xfer_inv_def) (auto simp: y)
qed

lemma inv_push:
  assumes "xfer_inv x" "xfer_push w x = Some y"
  shows "xfer_inv y"
proof -
  obtain c where c: "xf_clients x w = Some c" "xc_done c < xc_size c" "ring_count (xf_ring x) < XFER_FILE_QUEUE_CAP"
    and y: "y = x\<lparr>xf_ring := ring_push (chunk_task w c (xc_done c)) (xf_ring x),
      xf_clients := (xf_clients x)(w \<mapsto> c\<lparr>xc_done := (xc_done c + XFER_FILE_CHUNK_SIZE) mod 2 ^ 64\<rparr>)\<rparr>"
    using assms by (auto simp: xfer_push_def xfer_inv_def ring_ok_def split: bind_splits if_splits)
  have ring: "ring_ok (xf_ring x)" "length (ring_items (xf_ring x)) < XFER_FILE_QUEUE_CAP" using assms(1) c by (simp_all add: xfer_inv_def)
  have "client_ok x w c" using assms(1) c(1) by (simp add: xfer_inv_def)
  then obtain k where k: "xc_size c < 2 ^ 63" "xc_done c = k * XFER_FILE_CHUNK_SIZE"
      "tasks_for w (open_tasks x + done_tasks x) = first_chunks w c k"
      "xf_waits x w = Some \<lparr>xw_pending = chunk_count (xc_size c) - k + size (tasks_for w (open_tasks x)), xw_failed = chunks_failed w x\<rparr>"
    by (auto simp: client_ok_def)
  have kc: "k < chunk_count (xc_size c)" using chunk_count_less [OF k(1)] k(2) c(2) by simp
  let ?t = "chunk_task w c (xc_done c)"
  let ?c = "c\<lparr>xc_done := (xc_done c + XFER_FILE_CHUNK_SIZE) mod 2 ^ 64\<rparr>"
  have wrap: "xc_done ?c = Suc k * XFER_FILE_CHUNK_SIZE" using k c(2) by simp
  have same: "open_tasks y = add_mset ?t (open_tasks x)" "done_tasks y = done_tasks x" "chunks_failed v y = chunks_failed v x" for v
    using ring.push_items [OF ring] by (simp_all add: y open_tasks_def done_tasks_def busy_tasks_def chunks_failed_def)
  have "client_ok y w ?c"
    unfolding client_ok_def
  proof (intro conjI exI [of _ "Suc k"])
    show "xc_done ?c = Suc k * XFER_FILE_CHUNK_SIZE" by (rule wrap)
    show "tasks_for w (open_tasks y + done_tasks y) = first_chunks w ?c (Suc k)"
      using k(2,3) by (simp add: same first_chunks_done first_chunks_Suc chunk_task_done)
    show "xf_waits y w = Some \<lparr>xw_pending = chunk_count (xc_size ?c) - Suc k + size (tasks_for w (open_tasks y)), xw_failed = chunks_failed w y\<rparr>"
      using k(4) kc same by (simp add: y)
  qed (use k(1) kc in simp_all)
  moreover have "client_ok y v d" if "xf_clients x v = Some d" "v \<noteq> w" for v d
    by (rule client_ok_same [of x]) (use assms(1) that same in \<open>auto simp: xfer_inv_def y\<close>)
  ultimately have "\<forall>v d. xf_clients y v = Some d \<longrightarrow> client_ok y v d" using y by auto
  moreover have "ring_ok (xf_ring y)" using ring.push_ok [OF ring] y by simp
  ultimately show ?thesis
    using assms(1) c(1) same unfolding xfer_inv_def by (auto simp: y)
qed

lemma inv_take:
  assumes "xfer_inv x" "xfer_file_task_pop i x = Some y"
  shows "xfer_inv y" "open_tasks y = open_tasks x" "Suc (ring_count (xf_ring y)) = ring_count (xf_ring x)" "xf_clients y = xf_clients x"
proof -
  have i: "i < length (xf_workers x)" "xf_workers x ! i = Idle" "ring_count (xf_ring x) \<noteq> 0"
    and y: "y = x\<lparr>xf_ring := snd (ring_pop (xf_ring x)), xf_workers := (xf_workers x)[i := Busy (fst (ring_pop (xf_ring x)))]\<rparr>"
    using assms(2) by (auto simp: xfer_file_task_pop_def split: if_splits prod.splits)
  have ring: "ring_ok (xf_ring x)" "ring_items (xf_ring x) \<noteq> []" using assms(1) i(3) by (auto simp: xfer_inv_def ring_items_def)
  show open_same: "open_tasks y = open_tasks x"
    using ring.pop_mset [OF ring] worker_update(1) [OF i(1,2)] by (simp add: y open_tasks_def busy_tasks_def)
  show "Suc (ring_count (xf_ring y)) = ring_count (xf_ring x)" "xf_clients y = xf_clients x"
    using ring.pop_length [OF ring] i(3) by (simp_all add: y)
  have same: "done_tasks y = done_tasks x" "chunks_failed v y = chunks_failed v x" "xf_waits y = xf_waits x" "xf_clients y = xf_clients x" for v
    by (simp_all add: y done_tasks_def chunks_failed_def)
  have "client_ok y v d" if "xf_clients x v = Some d" for v d
    by (rule client_ok_same [of x]) (use assms(1) that same open_same in \<open>auto simp: xfer_inv_def\<close>)
  moreover have "Exited \<in> set (xf_workers x)" if "Exited \<in> set (xf_workers y)"
    using that set_update_subset_insert [of "xf_workers x" i] by (auto simp: y)
  ultimately show "xfer_inv y"
    using assms(1) ring.pop_ok [OF ring] same open_same unfolding xfer_inv_def by (auto simp: y)
qed

lemma wrap_pred: "0 < p \<Longrightarrow> p < 2 ^ 64 \<Longrightarrow> (p + (2 ^ 64 - 1)) mod 2 ^ 64 = p - (1 :: nat)"
  by (simp add: mod_if)

lemma inv_settle:
  assumes "xfer_inv x" "xfer_settle i ok x = Some y"
  shows "xfer_inv y" "size (open_tasks x) = Suc (size (open_tasks y))" "xf_ring y = xf_ring x" "xf_clients y = xf_clients x"
proof -
  obtain t wt where i: "i < length (xf_workers x)" "xf_workers x ! i = Busy t" "xf_waits x (xt_wait t) = Some wt"
    and y: "y = x\<lparr>xf_workers := (xf_workers x)[i := Idle], xf_io := (t, ok) # xf_io x,
             xf_waits := (xf_waits x)(xt_wait t \<mapsto> \<lparr>xw_pending = (xw_pending wt + (2 ^ 64 - 1)) mod 2 ^ 64,
                                                     xw_failed = (\<not> ok \<or> xw_failed wt)\<rparr>)\<rparr>"
    using assms(2) by (auto simp: xfer_settle_def split: bind_splits if_splits xfer_worker.splits)
  have opened: "open_tasks x = add_mset t (open_tasks y)" "done_tasks y = add_mset t (done_tasks x)"
    using worker_update(2) [OF i(1,2)] by (simp_all add: y open_tasks_def busy_tasks_def done_tasks_def)
  then show "size (open_tasks x) = Suc (size (open_tasks y))" by simp
  show "xf_ring y = xf_ring x" "xf_clients y = xf_clients x" by (simp_all add: y)
  have failed: "chunks_failed v y \<longleftrightarrow> chunks_failed v x \<or> v = xt_wait t \<and> \<not> ok" for v
    by (auto simp: y chunks_failed_def)
  have "client_ok y w c" if c: "xf_clients x w = Some c" for w c
  proof (cases "w = xt_wait t")
    case False
    show ?thesis
      by (rule client_ok_same [of x]) (use assms(1) c False opened failed in \<open>auto simp: xfer_inv_def y\<close>)
  next
    case True
    have "client_ok x w c" using assms(1) c by (simp add: xfer_inv_def)
    then obtain k where k: "xc_size c < 2 ^ 63" "xc_done c = k * XFER_FILE_CHUNK_SIZE" "k \<le> chunk_count (xc_size c)"
        "tasks_for w (open_tasks x + done_tasks x) = first_chunks w c k"
        "xf_waits x w = Some \<lparr>xw_pending = chunk_count (xc_size c) - k + size (tasks_for w (open_tasks x)), xw_failed = chunks_failed w x\<rparr>"
      by (auto simp: client_ok_def)
    have "size (tasks_for w (open_tasks x)) \<le> size (first_chunks w c k)" unfolding k(4) [symmetric] by simp
    then have "size (tasks_for w (open_tasks x)) \<le> k" by (simp add: first_chunks_def)
    moreover have "chunk_count (xc_size c) < 2 ^ 63" using k(1) by (simp add: chunk_count_eq)
    moreover have one: "size (tasks_for w (open_tasks x)) = Suc (size (tasks_for w (open_tasks y)))" using opened True by simp
    moreover have "xw_pending wt = Suc (chunk_count (xc_size c) - k + size (tasks_for w (open_tasks y)))"
      using i(3) k(5) True one by simp
    ultimately have "(xw_pending wt + (2 ^ 64 - 1)) mod 2 ^ 64 = chunk_count (xc_size c) - k + size (tasks_for w (open_tasks y))"
      using k(3) by (subst wrap_pred) simp_all
    then have "xf_waits y w = Some \<lparr>xw_pending = chunk_count (xc_size c) - k + size (tasks_for w (open_tasks y)), xw_failed = chunks_failed w y\<rparr>"
      using i(3) k(5) True failed by (auto simp: y)
    moreover have "tasks_for w (open_tasks y + done_tasks y) = first_chunks w c k" using k(4) opened by simp
    ultimately show ?thesis using k(1-3) by (auto simp: client_ok_def)
  qed
  moreover have "Exited \<in> set (xf_workers x)" if "Exited \<in> set (xf_workers y)"
    using that set_update_subset_insert [of "xf_workers x" i] by (auto simp: y)
  moreover have "dom (xf_waits y) = dom (xf_clients y)" using assms(1) i(3) by (auto simp: y xfer_inv_def)
  ultimately show "xfer_inv y"
    using assms(1) opened unfolding xfer_inv_def by (auto simp: y)
qed

lemma inv_return:
  assumes "xfer_inv x" "xfer_return w x = Some (ok, y)"
  obtains c where "xfer_inv y" "xf_clients x w = Some c" "xf_clients y = (xf_clients x)(w := None)" "open_tasks y = open_tasks x"
    "xf_io y = xf_io x" "xf_ring y = xf_ring x" "tasks_for w (done_tasks x) = first_chunks w c (chunk_count (xc_size c))"
    "tasks_for w (open_tasks x) = {#}" "ok \<longleftrightarrow> \<not> chunks_failed w x"
proof -
  obtain c wt where c: "xf_clients x w = Some c" "xf_waits x w = Some wt" "\<not> xc_done c < xc_size c" "xw_pending wt = 0" "ok = (\<not> xw_failed wt)"
    and y: "y = x\<lparr>xf_clients := (xf_clients x)(w := None), xf_waits := (xf_waits x)(w := None)\<rparr>"
    using assms(2) by (auto simp: xfer_return_def split: bind_splits if_splits)
  have "client_ok x w c" using assms(1) c by (simp add: xfer_inv_def)
  then obtain k where k: "xc_size c < 2 ^ 63" "xc_done c = k * XFER_FILE_CHUNK_SIZE" "k \<le> chunk_count (xc_size c)"
      "tasks_for w (open_tasks x + done_tasks x) = first_chunks w c k"
      "xf_waits x w = Some \<lparr>xw_pending = chunk_count (xc_size c) - k + size (tasks_for w (open_tasks x)), xw_failed = chunks_failed w x\<rparr>"
    by (auto simp: client_ok_def)
  have "k = chunk_count (xc_size c)" using chunk_count_less [OF k(1)] k(2,3) c(3) by (metis le_less)
  moreover have none: "tasks_for w (open_tasks x) = {#}" "ok \<longleftrightarrow> \<not> chunks_failed w x" using k(5) c by auto
  ultimately have all: "tasks_for w (done_tasks x) = first_chunks w c (chunk_count (xc_size c))" using k(4) by simp
  have same: "open_tasks y = open_tasks x" "done_tasks y = done_tasks x" "chunks_failed v y = chunks_failed v x" for v
    by (simp_all add: y open_tasks_def busy_tasks_def done_tasks_def chunks_failed_def)
  have "client_ok y v d" if "xf_clients x v = Some d" "v \<noteq> w" for v d
    by (rule client_ok_same [of x]) (use assms(1) that same in \<open>auto simp: xfer_inv_def y\<close>)
  then have "\<forall>v d. xf_clients y v = Some d \<longrightarrow> client_ok y v d" using y by auto
  moreover have "\<forall>t \<in># open_tasks y. xf_clients y (xt_wait t) \<noteq> None"
    using assms(1) none(1) same unfolding tasks_for_empty by (auto simp: xfer_inv_def y)
  ultimately have "xfer_inv y" using assms(1) unfolding xfer_inv_def by (auto simp: y)
  then show ?thesis using c(1) all none same by (intro that) (simp_all add: y)
qed

lemma inv_init: "xfer_inv pool_ready"
proof -
  have "mset (concat (map worker_tasks (replicate n Idle))) = {#}" for n by (induction n) (simp_all add: worker_tasks_def)
  then show ?thesis
    by (simp add: xfer_inv_def pool_ready_def ring_ok_def open_tasks_def busy_tasks_def ring_items_def worker_tasks_def)
qed

lemma inv_work: "xfer_inv x \<Longrightarrow> xwork x y \<Longrightarrow> xfer_inv y"
  by (erule xworkE) (auto intro: inv_push inv_take inv_settle elim: inv_return)

lemma inv_step:
  assumes "xfer_inv x" "xstep x y"
  shows "xfer_inv y"
  using assms(2)
proof cases
  case (begins w c)
  then show ?thesis using inv_begin [OF assms(1)] by blast
next
  case works
  then show ?thesis using inv_work [OF assms(1)] by blast
next
  case stops
  have "client_ok y w c \<longleftrightarrow> client_ok x w c" for w c
    by (simp add: stops xfer_cleanup_begin_def client_ok_def open_tasks_def busy_tasks_def done_tasks_def chunks_failed_def)
  then show ?thesis using assms(1) stops
    by (simp add: xfer_inv_def xfer_cleanup_begin_def open_tasks_def busy_tasks_def)
next
  case (exits i)
  then have i: "i < length (xf_workers x)" "xf_workers x ! i = Idle" "xf_stop x"
    and y: "y = x\<lparr>xf_workers := (xf_workers x)[i := Exited]\<rparr>"
    by (auto simp: xfer_worker_exit_def split: if_splits)
  have "open_tasks y = open_tasks x" using worker_update(3) [OF i(1,2)] by (simp add: y open_tasks_def busy_tasks_def)
  then show ?thesis using assms(1) i(3) by (auto simp: xfer_inv_def y)
qed

lemma inv_reachable: "xreachable x \<Longrightarrow> xfer_inv x"
  by (induction rule: xreachable.induct) (auto intro: inv_init inv_step)

subsection \<open>Every transfer returns\<close>

definition client_work :: "xfer_client \<Rightarrow> nat" where
  "client_work c = 3 * (chunk_count (xc_size c) - xc_done c div XFER_FILE_CHUNK_SIZE) + 1"

definition work_left :: "xfer \<Rightarrow> nat" where
  "work_left x = (\<Sum>w \<in> dom (xf_clients x). client_work (the (xf_clients x w))) + size (open_tasks x) + ring_count (xf_ring x)"

lemma clients_update:
  assumes "finite (dom m)" "m w = Some c"
  shows "(\<Sum>v \<in> dom m. f (the (m v))) = f c + (\<Sum>v \<in> dom m - {w}. f (the (m v)))"
    "(\<Sum>v \<in> dom (m(w \<mapsto> c')). f (the ((m(w \<mapsto> c')) v))) = f c' + (\<Sum>v \<in> dom m - {w}. f (the (m v)))"
    "(\<Sum>v \<in> dom (m(w := None)). f (the ((m(w := None)) v))) = (\<Sum>v \<in> dom m - {w}. f (the (m v)))"
proof -
  show "(\<Sum>v \<in> dom m. f (the (m v))) = f c + (\<Sum>v \<in> dom m - {w}. f (the (m v)))"
    using assms by (subst sum.remove [of _ w]) auto
  have "insert w (dom m) = insert w (dom m - {w})" by auto
  then show "(\<Sum>v \<in> dom (m(w \<mapsto> c')). f (the ((m(w \<mapsto> c')) v))) = f c' + (\<Sum>v \<in> dom m - {w}. f (the (m v)))"
    using assms(1) by (simp, subst sum.insert_remove) (auto intro: sum.cong)
  show "(\<Sum>v \<in> dom (m(w := None)). f (the ((m(w := None)) v))) = (\<Sum>v \<in> dom m - {w}. f (the (m v)))"
    by (rule sum.cong) auto
qed

lemma work_decreases:
  assumes "xfer_inv x" "xwork x y"
  shows "work_left y < work_left x"
  using assms(2)
proof cases
  case (push w)
  then obtain c where c: "xf_clients x w = Some c" "xc_done c < xc_size c" "ring_count (xf_ring x) < XFER_FILE_QUEUE_CAP"
    and y: "y = x\<lparr>xf_ring := ring_push (chunk_task w c (xc_done c)) (xf_ring x),
      xf_clients := (xf_clients x)(w \<mapsto> c\<lparr>xc_done := (xc_done c + XFER_FILE_CHUNK_SIZE) mod 2 ^ 64\<rparr>)\<rparr>"
    using assms(1) by (auto simp: xfer_push_def xfer_inv_def ring_ok_def split: bind_splits if_splits)
  have ring: "ring_ok (xf_ring x)" "length (ring_items (xf_ring x)) < XFER_FILE_QUEUE_CAP" "finite (dom (xf_clients x))"
    using assms(1) c by (simp_all add: xfer_inv_def)
  have "client_ok x w c" using assms(1) c by (simp add: xfer_inv_def)
  then obtain k where k: "xc_size c < 2 ^ 63" "xc_done c = k * XFER_FILE_CHUNK_SIZE" by (auto simp: client_ok_def)
  have "k < chunk_count (xc_size c)" using chunk_count_less [OF k(1)] k(2) c(2) by simp
  moreover have "(xc_done c + XFER_FILE_CHUNK_SIZE) mod 2 ^ 64 div XFER_FILE_CHUNK_SIZE = k + 1" "xc_done c div XFER_FILE_CHUNK_SIZE = k"
    using k c(2) by simp_all
  ultimately have "client_work (c\<lparr>xc_done := (xc_done c + XFER_FILE_CHUNK_SIZE) mod 2 ^ 64\<rparr>) + 3 = client_work c"
    by (simp add: client_work_def)
  moreover have "size (open_tasks y) = Suc (size (open_tasks x))" "ring_count (xf_ring y) = Suc (ring_count (xf_ring x))"
    using ring.push_items [OF ring(1,2)] by (simp_all add: y open_tasks_def busy_tasks_def ring_push_def)
  moreover have "xf_clients y = (xf_clients x)(w \<mapsto> c\<lparr>xc_done := (xc_done c + XFER_FILE_CHUNK_SIZE) mod 2 ^ 64\<rparr>)" by (simp add: y)
  ultimately show ?thesis
    unfolding work_left_def using clients_update(1,2) [OF ring(3) c(1), of client_work] by simp
next
  case (take_task i)
  then show ?thesis using inv_take [OF assms(1)] by (simp add: work_left_def) (metis lessI)
next
  case (settle i ok)
  then show ?thesis using inv_settle [OF assms(1)] by (simp add: work_left_def)
next
  case (leave w ok)
  from inv_return [OF assms(1) leave] obtain c where c: "xf_clients x w = Some c" "xf_clients y = (xf_clients x)(w := None)"
    "open_tasks y = open_tasks x" "xf_ring y = xf_ring x" by metis
  have "finite (dom (xf_clients x))" using assms(1) by (simp add: xfer_inv_def)
  then show ?thesis
    unfolding work_left_def c(2-4) using clients_update(1,3) [where m = "xf_clients x" and w = w and c = c and f = client_work] c(1)
    by (simp add: client_work_def)
qed

lemma work_possible:
  assumes "xfer_inv x" "xf_clients x w \<noteq> None"
  shows "\<exists>y. xwork x y"
proof -
  obtain c where c: "xf_clients x w = Some c" using assms(2) by blast
  have running: "\<not> xf_stop x" "length (xf_workers x) = 8" "Exited \<notin> set (xf_workers x)"
    using assms by (auto simp: xfer_inv_def)
  show ?thesis
  proof (cases "\<exists>i t. i < length (xf_workers x) \<and> xf_workers x ! i = Busy t")
    case True
    then obtain i t where i: "i < length (xf_workers x)" "xf_workers x ! i = Busy t" by blast
    have "Busy t \<in> set (xf_workers x)" using nth_mem [OF i(1)] i(2) by simp
    then have "t \<in># open_tasks x" by (force simp: open_tasks_def busy_tasks_def worker_tasks_def)
    then have "xf_waits x (xt_wait t) \<noteq> None" using assms(1) by (auto simp: xfer_inv_def)
    then show ?thesis using xwork.settle [of i True x] i by (auto simp: xfer_settle_def)
  next
    case False
    then have idle: "xf_workers x ! i = Idle" if "i < 8" for i
      using running that nth_mem [of i "xf_workers x"] by (cases "xf_workers x ! i") auto
    show ?thesis
    proof (cases "ring_count (xf_ring x) = 0")
      case False
      then have "\<exists>y. xfer_file_task_pop 0 x = Some y"
        using idle [of 0] running(2) by (simp add: xfer_file_task_pop_def case_prod_unfold Let_def)
      then show ?thesis using xwork.take_task by blast
    next
      case True
      have "concat (map worker_tasks (xf_workers x)) = []"
        using idle running(2) by (auto simp: worker_tasks_def in_set_conv_nth)
      then have none: "open_tasks x = {#}" using True by (simp add: open_tasks_def busy_tasks_def ring_items_def)
      have "client_ok x w c" using assms(1) c by (simp add: xfer_inv_def)
      then obtain k where k: "xc_size c < 2 ^ 63" "xc_done c = k * XFER_FILE_CHUNK_SIZE" "k \<le> chunk_count (xc_size c)"
          "xf_waits x w = Some \<lparr>xw_pending = chunk_count (xc_size c) - k + size (tasks_for w (open_tasks x)), xw_failed = chunks_failed w x\<rparr>"
        by (auto simp: client_ok_def)
      show ?thesis
      proof (cases "xc_done c < xc_size c")
        case True
        then show ?thesis using c \<open>ring_count (xf_ring x) = 0\<close> xwork.push [of w x] by (simp add: xfer_push_def) blast
      next
        case False
        then have "k = chunk_count (xc_size c)" using chunk_count_less [OF k(1)] k(2,3) by (metis le_less)
        then have "xfer_return w x = Some (\<not> chunks_failed w x,
            x\<lparr>xf_clients := (xf_clients x)(w := None), xf_waits := (xf_waits x)(w := None)\<rparr>)"
          using c k(4) False none by (simp add: xfer_return_def tasks_for_def)
        then show ?thesis using xwork.leave by blast
      qed
    qed
  qed
qed

text \<open>When a transfer returns, its chunks have all been done, once each, and no thread refers to its wait.\<close>

lemma return_exact:
  assumes "xreachable x" "xfer_return w x = Some (ok, y)"
  shows "\<exists>c. xf_clients x w = Some c \<and> tasks_for w (done_tasks x) = first_chunks w c (chunk_count (xc_size c)) \<and>
    (ok \<longleftrightarrow> (\<forall>(t, b) \<in> set (xf_io x). xt_wait t = w \<longrightarrow> b)) \<and> (\<forall>t \<in># open_tasks y. xt_wait t \<noteq> w)"
proof -
  from inv_return [OF inv_reachable [OF assms(1)] assms(2)] obtain c where c: "xf_clients x w = Some c"
    "open_tasks y = open_tasks x" "tasks_for w (done_tasks x) = first_chunks w c (chunk_count (xc_size c))"
    "tasks_for w (open_tasks x) = {#}" "ok \<longleftrightarrow> \<not> chunks_failed w x" by metis
  have "chunks_failed w x \<longleftrightarrow> \<not> (\<forall>(t, b) \<in> set (xf_io x). xt_wait t = w \<longrightarrow> b)"
    by (auto simp: chunks_failed_def)
  then show ?thesis using c tasks_for_empty [of w "open_tasks x"] by auto
qed

lemma work_reachable: "xwork\<^sup>*\<^sup>* x y \<Longrightarrow> xfer_inv x \<Longrightarrow> xfer_inv y"
  by (induction rule: rtranclp_induct) (auto intro: inv_work)

lemma no_endless_work:
  assumes "xfer_inv (f 0)"
  shows "\<not> (\<forall>n. xwork (f n) (f (Suc n)))"
proof
  assume run: "\<forall>n. xwork (f n) (f (Suc n))"
  have "xfer_inv (f n) \<and> work_left (f n) + n \<le> work_left (f 0)" for n
  proof (induction n)
    case (Suc n)
    then show ?case using inv_work work_decreases run by (metis Suc_leI add_Suc_right add_Suc le_trans nat_add_left_cancel_le add.commute)
  qed (use assms in simp)
  from this [of "Suc (work_left (f 0))"] show False by simp
qed

end
