(* ===== verification/XferPlat.thy ===== *)
theory XferPlat
  imports XferFile VmmRef
begin

text \<open>
  The transfer of one chunk (\<open>src-posix/xfer-file-plat.c\<close>, \<open>src-win/xfer-file-plat.c\<close>) and a whole
  transfer as its caller sees it. The system may move fewer bytes than asked for, so a chunk is a
  loop; on POSIX an interrupted call is repeated, so the loop ends only if interruptions do, and the
  model is a \<open>partial_function\<close>.

  \<open>FileIo\<close> answers the number of bytes moved in \<open>r_rc\<close> (negative for an error, whose number is in
  \<open>r_val\<close>). \<open>xfer_file_transfer\<close> is the schedule of the pool of \<open>XferFile\<close> in which the chunks are done
  in order; there every schedule is shown to do the same chunks and to give the same answer.
\<close>

abbreviation EINTR :: u64 where "EINTR \<equiv> 4"

text \<open>
  \<open>xfer_file_init\<close>: the pool with its workers, or none when something could not be created (the workers
  already started are stopped and joined by \<open>xfer_file_cleanup\<close>).
\<close>

definition start_worker :: "env \<Rightarrow> nat \<Rightarrow> xfer \<Rightarrow> 'z base_scheme \<Rightarrow> ((xfer + unit) \<times> 'z base_scheme) option" where
  "start_worker E i x s = do {
     (r, s) \<leftarrow> ask E ThreadCreate s;
     if r_rc r \<noteq> 0 then Some (Inr (), s) else Some (Inl (x\<lparr>xf_workers := xf_workers x @ [Idle]\<rparr>), s) }"

definition xfer_file_init :: "env \<Rightarrow> 'z base_scheme \<Rightarrow> (xfer option \<times> 'z base_scheme) option" where
  "xfer_file_init E s = do {
     (mutex, s) \<leftarrow> ask E SyncCreate s;
     (has_items, s) \<leftarrow> ask E SyncCreate s;
     (has_space, s) \<leftarrow> ask E SyncCreate s;
     if r_rc mutex \<noteq> 0 \<or> r_rc has_items \<noteq> 0 \<or> r_rc has_space \<noteq> 0 then Some (None, s)
     else do {
       (r, s) \<leftarrow> foreach (start_worker E) [0..<XFER_FILE_THREADS] (pool_ready\<lparr>xf_workers := []\<rparr>) s;
       Some (case r of Inl x \<Rightarrow> Some x | Inr _ \<Rightarrow> None, s) } }"

definition advise_cold :: "env \<Rightarrow> bool \<Rightarrow> u64 \<Rightarrow> u64 \<Rightarrow> u64 \<Rightarrow> 'z base_scheme \<Rightarrow> (unit \<times> 'z base_scheme) option" where
  "advise_cold E cold fd at n s =
     (if cold then do { (_, s) \<leftarrow> ask E (FileAdvise fd at n) s; Some ((), s) } else Some ((), s))"

partial_function (option) transfer_posix ::
  "env \<Rightarrow> bool \<Rightarrow> u64 \<Rightarrow> u64 \<Rightarrow> u64 \<Rightarrow> u64 \<Rightarrow> bool \<Rightarrow> u64 \<Rightarrow> 'z base_scheme \<Rightarrow> (bool \<times> 'z base_scheme) option" where
  "transfer_posix E wr fd offset buffer bytes cold sofar s =
     (if \<not> sofar < bytes then Some (True, s)
      else do {
        (r, s) \<leftarrow> ask E (FileIo wr fd (offset + sofar) (buffer + sofar) (bytes - sofar)) s;
        if r_rc r < 0 \<and> r_val r = EINTR then transfer_posix E wr fd offset buffer bytes cold sofar s
        else if r_rc r \<le> 0 then Some (False, s)
        else do {
          (_, s) \<leftarrow> advise_cold E cold fd (offset + sofar) (of_int (r_rc r)) s;
          transfer_posix E wr fd offset buffer bytes cold (sofar + of_int (r_rc r)) s } })"

partial_function (option) transfer_win ::
  "env \<Rightarrow> bool \<Rightarrow> u64 \<Rightarrow> u64 \<Rightarrow> u64 \<Rightarrow> u64 \<Rightarrow> u64 \<Rightarrow> 'z base_scheme \<Rightarrow> (bool \<times> 'z base_scheme) option" where
  "transfer_win E wr fd offset buffer bytes sofar s =
     (if \<not> sofar < bytes then Some (True, s)
      else do {
        (e, s) \<leftarrow> ask E SyncCreate s;
        if r_rc e \<noteq> 0 then Some (False, s)
        else do {
          (r, s) \<leftarrow> ask E (FileIo wr fd (offset + sofar) (buffer + sofar) (min 0x7ffff000 (bytes - sofar))) s;
          if r_rc r \<le> 0 then Some (False, s)
          else transfer_win E wr fd offset buffer bytes (sofar + of_int (r_rc r)) s } })"

definition xfer_file_transfer_at ::
  "env \<Rightarrow> bool \<Rightarrow> u64 \<Rightarrow> u64 \<Rightarrow> u64 \<Rightarrow> u64 \<Rightarrow> bool \<Rightarrow> 'z base_scheme \<Rightarrow> (bool \<times> 'z base_scheme) option" where
  "xfer_file_transfer_at E wr fd offset buffer bytes cold s =
     (if is_win E then transfer_win E wr fd offset buffer bytes 0 s
      else transfer_posix E wr fd offset buffer bytes (cold \<and> \<not> wr) 0 s)"

definition do_chunk :: "env \<Rightarrow> xfer_task \<Rightarrow> bool \<Rightarrow> 'z base_scheme \<Rightarrow> ((bool + unit) \<times> 'z base_scheme) option" where
  "do_chunk E t failed s = do {
     (ok, s) \<leftarrow> xfer_file_transfer_at E (xt_write t) (xt_file t) (xt_offset t) (xt_buffer t) (of_nat (xt_size t)) (xt_cold t) s;
     Some (Inl (\<not> ok \<or> failed), s) }"

definition xfer_file_transfer ::
  "env \<Rightarrow> u64 \<Rightarrow> u64 \<Rightarrow> u64 \<Rightarrow> u64 \<Rightarrow> bool \<Rightarrow> bool \<Rightarrow> 'z base_scheme \<Rightarrow> (bool \<times> 'z base_scheme) option" where
  "xfer_file_transfer E fd offset buffer bytes cold wr s = do {
     (mutex, s) \<leftarrow> ask E SyncCreate s;
     (condvar, s) \<leftarrow> ask E SyncCreate s;
     if r_rc mutex \<noteq> 0 \<or> r_rc condvar \<noteq> 0 then Some (False, s)
     else do {
       let c = \<lparr>xc_file = fd, xc_offset = offset, xc_buffer = buffer, xc_size = unat bytes, xc_cold = cold,
                xc_write = wr, xc_done = 0\<rparr>;
       (r, s) \<leftarrow> foreach (do_chunk E)
         (map (\<lambda>i. chunk_task 0 c (i * XFER_FILE_CHUNK_SIZE)) [0..<chunk_count (unat bytes)]) False s;
       Some (r = Inl False, s) } }"

definition xfer_file_read :: "env \<Rightarrow> u64 \<Rightarrow> u64 \<Rightarrow> u64 \<Rightarrow> u64 \<Rightarrow> bool \<Rightarrow> 'z base_scheme \<Rightarrow> (bool \<times> 'z base_scheme) option" where
  "xfer_file_read E fd offset buffer bytes cold s = xfer_file_transfer E fd offset buffer bytes cold False s"

definition xfer_file_write :: "env \<Rightarrow> u64 \<Rightarrow> u64 \<Rightarrow> u64 \<Rightarrow> u64 \<Rightarrow> 'z base_scheme \<Rightarrow> (bool \<times> 'z base_scheme) option" where
  "xfer_file_write E fd offset buffer bytes s = xfer_file_transfer E fd offset buffer bytes False True s"

subsection \<open>What a transfer does\<close>

text \<open>
  Documented behaviour of \<open>pread\<close>, \<open>pwrite\<close>, \<open>ReadFile\<close> and \<open>WriteFile\<close>: no more bytes than asked
  for. \<open>uninterrupted\<close> is a run without interrupted calls.
\<close>

definition io_bounded :: "env \<Rightarrow> bool" where
  "io_bounded E \<longleftrightarrow> (\<forall>h w fd at buf n. r_rc (drv E h (FileIo w fd at buf n)) \<le> int (unat n))"

definition uninterrupted :: "env \<Rightarrow> bool" where
  "uninterrupted E \<longleftrightarrow> (\<forall>h w fd at buf n. r_rc (drv E h (FileIo w fd at buf n)) < 0 \<longrightarrow>
     r_val (drv E h (FileIo w fd at buf n)) \<noteq> EINTR)"

fun is_file_io :: "call \<Rightarrow> bool" where
  "is_file_io (FileIo w fd at buf n) = True"
| "is_file_io (FileAdvise fd at n) = True"
| "is_file_io SyncCreate = True"
| "is_file_io _ = False"

text \<open>The state differs in the calls made only.\<close>

definition only_io :: "'z base_scheme \<Rightarrow> 'z base_scheme \<Rightarrow> bool" where
  "only_io s t \<longleftrightarrow> t = s\<lparr>hist := hist t\<rparr> \<and> asked_only is_file_io (hist s) (hist t)"

lemma only_io_refl [simp]: "only_io s s"
  by (simp add: only_io_def)

lemma only_io_ask [simp]: "is_file_io c \<Longrightarrow> only_io s (s\<lparr>hist := c # hist s\<rparr>)"
  by (simp add: only_io_def)

lemma only_io_trans: "only_io s t \<Longrightarrow> only_io t u \<Longrightarrow> only_io s u"
  unfolding only_io_def by (metis asked_only_trans base.surjective base.update_convs(1))

text \<open>
  \<open>covered E w fd at buf h cs = Some d\<close>: the calls \<open>cs\<close>, made after the history \<open>h\<close>, moved \<open>d\<close> bytes between
  the file from \<open>at\<close> on and memory from \<open>buf\<close> on, each call starting where the one before it stopped.
\<close>

fun covered :: "env \<Rightarrow> bool \<Rightarrow> u64 \<Rightarrow> u64 \<Rightarrow> u64 \<Rightarrow> call list \<Rightarrow> call list \<Rightarrow> nat option" where
  "covered E w fd at buf h [] = Some 0"
| "covered E w fd at buf h (c # cs) = do {
     d \<leftarrow> covered E w fd at buf h cs;
     case c of
       FileIo w' fd' at' buf' n \<Rightarrow>
         if w' = w \<and> fd' = fd \<and> at' = at + of_nat d \<and> buf' = buf + of_nat d then Some (d + nat (r_rc (drv E (cs @ h) c))) else None
     | _ \<Rightarrow> Some d }"

definition io_failed :: "env \<Rightarrow> call list \<Rightarrow> call \<Rightarrow> bool" where
  "io_failed E h c = (case c of FileIo w fd at buf n \<Rightarrow> r_rc (drv E h c) \<le> 0 | SyncCreate \<Rightarrow> r_rc (drv E h c) \<noteq> 0 | _ \<Rightarrow> False)"

fun some_failed :: "env \<Rightarrow> call list \<Rightarrow> call list \<Rightarrow> bool" where
  "some_failed E h [] = False"
| "some_failed E h (c # cs) \<longleftrightarrow> io_failed E (cs @ h) c \<or> some_failed E h cs"

lemma covered_append:
  "covered E w fd at buf h cs = Some d \<Longrightarrow>
   covered E w fd at buf h (cs' @ cs) = map_option (\<lambda>d'. d + d') (covered E w fd (at + of_nat d) (buf + of_nat d) (cs @ h) cs')"
proof (induction cs')
  case (Cons c cs')
  then show ?case
    by (cases "covered E w fd (at + of_nat d) (buf + of_nat d) (cs @ h) cs'") (auto simp: add.assoc split: call.splits)
qed simp

lemma some_failed_append: "some_failed E h (cs' @ cs) \<longleftrightarrow> some_failed E (cs @ h) cs' \<or> some_failed E h cs"
  by (induction cs') auto

lemma advance:
  assumes "io_bounded E" "(d :: u64) < n" "m \<le> n - d" "0 < r_rc (drv E h (FileIo w fd at buf m))"
    "k = r_rc (drv E h (FileIo w fd at buf m))"
  shows "d + of_int k \<le> n" "unat (d + of_int k) = unat d + nat k"
proof -
  have "k \<le> int (unat m)" using assms(1) unfolding assms(5) io_bounded_def by blast
  moreover have "unat m \<le> unat n - unat d" 
    using word_le_nat_alt [THEN iffD1, OF assms(3)] unat_sub [OF less_imp_le [OF assms(2)]] by simp
  ultimately have b: "nat k \<le> unat n - unat d" by linarith
  have i: "(of_int k :: u64) = of_nat (nat k)" using assms(4,5) by simp
  have n: "unat n < 2 ^ 64" using unsigned_less [of n] by simp
  then have "nat k < 2 ^ 64" using b by simp
  then have "unat (of_nat (nat k) :: u64) = nat k" by (simp add: unat_of_nat)
  then show u: "unat (d + of_int k) = unat d + nat k"
    unfolding i using b assms(2) n by (subst unat_add_lem [THEN iffD1]) (simp_all add: word_less_nat_alt)
  show "d + of_int k \<le> n" using u b assms(2) by (simp add: word_le_nat_alt word_less_nat_alt)
qed

text \<open>
  The outcome of transferring \<open>n\<close> bytes: success exactly when no call failed, and then the calls
  cover the range.
\<close>

definition transfers :: "env \<Rightarrow> bool \<Rightarrow> u64 \<Rightarrow> u64 \<Rightarrow> u64 \<Rightarrow> nat \<Rightarrow> 'z base_scheme \<Rightarrow> (bool \<times> 'z base_scheme) option \<Rightarrow> bool" where
  "transfers E w fd at buf n s r \<longleftrightarrow> (\<exists>ok cs. r = Some (ok, s\<lparr>hist := cs @ hist s\<rparr>) \<and> list_all is_file_io cs \<and>
     (ok \<longleftrightarrow> \<not> some_failed E (hist s) cs) \<and> (ok \<longrightarrow> covered E w fd at buf (hist s) cs = Some n))"

lemma transfers_nothing: "transfers E w fd at buf 0 s (Some (True, s))"
  unfolding transfers_def by (intro exI [of _ True] exI [of _ "[]"]) simp

lemma transfers_fail:
  "list_all is_file_io cs \<Longrightarrow> some_failed E (hist s) cs \<Longrightarrow> transfers E w fd at buf n s (Some (False, s\<lparr>hist := cs @ hist s\<rparr>))"
  unfolding transfers_def by (intro exI [of _ False] exI [of _ cs]) simp

lemma transfers_step:
  assumes "list_all is_file_io cs" "\<not> some_failed E (hist s) cs" "covered E w fd at buf (hist s) cs = Some d"
    "transfers E w fd (at + of_nat d) (buf + of_nat d) m (s\<lparr>hist := cs @ hist s\<rparr>) r"
  shows "transfers E w fd at buf (d + m) s r"
proof -
  obtain ok cs' where "r = Some (ok, s\<lparr>hist := cs' @ cs @ hist s\<rparr>)" "list_all is_file_io cs'"
    "ok \<longleftrightarrow> \<not> some_failed E (cs @ hist s) cs'"
    "ok \<longrightarrow> covered E w fd (at + of_nat d) (buf + of_nat d) (cs @ hist s) cs' = Some m"
    using assms(4) by (auto simp: transfers_def)
  then show ?thesis
    unfolding transfers_def using assms(1,2) covered_append [OF assms(3)]
    by (intro exI [of _ ok] exI [of _ "cs' @ cs"]) (auto simp: some_failed_append)
qed

lemma transfer_posix_transfers:
  assumes "io_bounded E" "uninterrupted E"
  shows "d \<le> n \<Longrightarrow> transfers E w fd (at + d) (buf + d) (unat n - unat d) s (transfer_posix E w fd at buf n cold d s)"
proof (induction "unat n - unat d" arbitrary: d s rule: less_induct)
  case less
  show ?case
  proof (cases "d < n")
    case False
    then have "d = n" using less.prems by simp
    then show ?thesis by (subst transfer_posix.simps) (simp add: transfers_nothing)
  next
    case True
    let ?c = "FileIo w fd (at + d) (buf + d) (n - d)"
    let ?k = "r_rc (drv E (hist s) ?c)"
    have retry: "\<not> (?k < 0 \<and> r_val (drv E (hist s) ?c) = EINTR)" using assms(2) by (auto simp: uninterrupted_def)
    show ?thesis
    proof (cases "?k \<le> 0")
      case fails: True
      then have "transfer_posix E w fd at buf n cold d s = Some (False, s\<lparr>hist := [?c] @ hist s\<rparr>)"
        using retry True by (subst transfer_posix.simps) (auto simp: ask_def)
      then show ?thesis using transfers_fail [of "[?c]"] fails by (simp add: io_failed_def)
    next
      case False
      let ?d = "d + of_int ?k"
      let ?cs = "(if cold then [FileAdvise fd (at + d) (of_int ?k)] else []) @ [?c]"
      have d: "?d \<le> n" "unat ?d = unat d + nat ?k"
        using advance [OF assms(1) True order_refl] False by simp_all
      have i: "(of_int ?k :: u64) = of_nat (nat ?k)" using False by simp
      have "unat n - unat ?d < unat n - unat d" using d(2) False True by (simp add: word_less_nat_alt)
      from less.hyps [OF this d(1), of "s\<lparr>hist := ?cs @ hist s\<rparr>"]
      have "transfers E w fd (at + d + of_nat (nat ?k)) (buf + d + of_nat (nat ?k)) (unat n - unat ?d) (s\<lparr>hist := ?cs @ hist s\<rparr>)
          (transfer_posix E w fd at buf n cold ?d (s\<lparr>hist := ?cs @ hist s\<rparr>))"
        unfolding i by (simp only: add.assoc)
      moreover have "transfer_posix E w fd at buf n cold d s = transfer_posix E w fd at buf n cold ?d (s\<lparr>hist := ?cs @ hist s\<rparr>)"
        using retry True False by (subst transfer_posix.simps) (auto simp: ask_def advise_cold_def)
      moreover have "unat n - unat d = nat ?k + (unat n - unat ?d)" using d by (simp add: word_le_nat_alt)
      ultimately show ?thesis
        using transfers_step [of ?cs E s w fd "at + d" "buf + d" "nat ?k"] False by (auto simp: io_failed_def)
    qed
  qed
qed

lemma transfer_win_transfers:
  assumes "io_bounded E"
  shows "d \<le> n \<Longrightarrow> transfers E w fd (at + d) (buf + d) (unat n - unat d) s (transfer_win E w fd at buf n d s)"
proof (induction "unat n - unat d" arbitrary: d s rule: less_induct)
  case less
  show ?case
  proof (cases "d < n")
    case False
    then have "d = n" using less.prems by simp
    then show ?thesis by (subst transfer_win.simps) (simp add: transfers_nothing)
  next
    case True
    let ?m = "min 0x7ffff000 (n - d)"
    let ?c = "FileIo w fd (at + d) (buf + d) ?m"
    let ?cs = "[?c, SyncCreate]"
    let ?k = "r_rc (drv E (SyncCreate # hist s) ?c)"
    show ?thesis
    proof (cases "r_rc (drv E (hist s) SyncCreate) \<noteq> 0")
      case fails: True
      then have "transfer_win E w fd at buf n d s = Some (False, s\<lparr>hist := [SyncCreate] @ hist s\<rparr>)"
        using True by (subst transfer_win.simps) (simp add: ask_def)
      then show ?thesis using transfers_fail [of "[SyncCreate]"] fails by (simp add: io_failed_def)
    next
      case event: False
      show ?thesis
      proof (cases "?k \<le> 0")
        case fails: True
        then have "transfer_win E w fd at buf n d s = Some (False, s\<lparr>hist := ?cs @ hist s\<rparr>)"
          using event True by (subst transfer_win.simps) (simp add: ask_def)
        then show ?thesis using transfers_fail [of ?cs E s] fails by (simp add: io_failed_def)
      next
        case False
        let ?d = "d + of_int ?k"
        have d: "?d \<le> n" "unat ?d = unat d + nat ?k"
          using advance [OF assms True min.cobounded2] False by simp_all
        have i: "(of_int ?k :: u64) = of_nat (nat ?k)" using False by simp
        have "unat n - unat ?d < unat n - unat d" using d(2) False True by (simp add: word_less_nat_alt)
        from less.hyps [OF this d(1), of "s\<lparr>hist := ?cs @ hist s\<rparr>"]
        have "transfers E w fd (at + d + of_nat (nat ?k)) (buf + d + of_nat (nat ?k)) (unat n - unat ?d) (s\<lparr>hist := ?cs @ hist s\<rparr>)
            (transfer_win E w fd at buf n ?d (s\<lparr>hist := ?cs @ hist s\<rparr>))"
          unfolding i by (simp only: add.assoc)
        moreover have "transfer_win E w fd at buf n d s = transfer_win E w fd at buf n ?d (s\<lparr>hist := ?cs @ hist s\<rparr>)"
          using event True False by (subst transfer_win.simps) (simp add: ask_def)
        moreover have "unat n - unat d = nat ?k + (unat n - unat ?d)" using d by (simp add: word_le_nat_alt)
        ultimately show ?thesis
          using transfers_step [of ?cs E s w fd "at + d" "buf + d" "nat ?k"] event False by (auto simp: io_failed_def)
      qed
    qed
  qed
qed

definition io_live :: "env \<Rightarrow> bool" where
  "io_live E \<longleftrightarrow> io_bounded E \<and> (is_win E \<or> uninterrupted E)"

lemma transfer_at_transfers:
  "io_live E \<Longrightarrow> transfers E w fd at buf (unat n) s (xfer_file_transfer_at E w fd at buf n cold s)"
  using transfer_win_transfers [of E 0 n w fd at buf s] transfer_posix_transfers [of E 0 n w fd at buf s "cold \<and> \<not> w"]
  by (auto simp add: xfer_file_transfer_at_def io_live_def)

text \<open>The chunks of a transfer, done in order, cover it.\<close>

definition chunks_from :: "xfer_client \<Rightarrow> nat \<Rightarrow> xfer_task list" where
  "chunks_from c k = map (\<lambda>i. chunk_task 0 c (i * XFER_FILE_CHUNK_SIZE)) [k..<chunk_count (xc_size c)]"

lemma chunks_transfer:
  assumes "io_live E" "xc_size c < 2 ^ 63" "k \<le> chunk_count (xc_size c)"
  shows "\<exists>r cs. foreach (do_chunk E) (chunks_from c k) f s = Some (Inl r :: bool + unit, s\<lparr>hist := cs @ hist s\<rparr>) \<and>
    list_all is_file_io cs \<and> (r \<longleftrightarrow> f \<or> some_failed E (hist s) cs) \<and>
    (\<not> some_failed E (hist s) cs \<longrightarrow>
      covered E (xc_write c) (xc_file c) (xc_offset c + of_nat (min (k * XFER_FILE_CHUNK_SIZE) (xc_size c)))
        (xc_buffer c + of_nat (min (k * XFER_FILE_CHUNK_SIZE) (xc_size c))) (hist s) cs = Some (xc_size c - k * XFER_FILE_CHUNK_SIZE))"
  using assms(3)
proof (induction k arbitrary: f s rule: inc_induct)
  case base
  have "xc_size c \<le> chunk_count (xc_size c) * XFER_FILE_CHUNK_SIZE" using chunk_count_less [OF assms(2)] by (metis not_less less_irrefl)
  then show ?case by (intro exI [of _ f] exI [of _ "[]"]) (simp add: chunks_from_def)
next
  case (step k)
  let ?w = "xc_write c" and ?fd = "xc_file c"
  let ?m = "min XFER_FILE_CHUNK_SIZE (xc_size c - k * XFER_FILE_CHUNK_SIZE)"
  have less: "k * XFER_FILE_CHUNK_SIZE < xc_size c" using chunk_count_less [OF assms(2)] step.hyps(2) by simp
  have "chunks_from c k = chunk_task 0 c (k * XFER_FILE_CHUNK_SIZE) # chunks_from c (Suc k)"
    using step.hyps(2) by (simp add: chunks_from_def upt_conv_Cons)
  moreover have "unat (of_nat ?m :: u64) = ?m" using assms(2) by (simp add: unat_of_nat)
  with transfer_at_transfers [OF assms(1), of ?w ?fd "xc_offset c + of_nat (k * XFER_FILE_CHUNK_SIZE)"
      "xc_buffer c + of_nat (k * XFER_FILE_CHUNK_SIZE)" "of_nat ?m" s "xc_cold c"]
  obtain ok cs where t: "xfer_file_transfer_at E ?w ?fd (xc_offset c + of_nat (k * XFER_FILE_CHUNK_SIZE))
      (xc_buffer c + of_nat (k * XFER_FILE_CHUNK_SIZE)) (of_nat ?m) (xc_cold c) s = Some (ok, s\<lparr>hist := cs @ hist s\<rparr>)"
    "list_all is_file_io cs" "ok \<longleftrightarrow> \<not> some_failed E (hist s) cs"
    "ok \<longrightarrow> covered E ?w ?fd (xc_offset c + of_nat (k * XFER_FILE_CHUNK_SIZE)) (xc_buffer c + of_nat (k * XFER_FILE_CHUNK_SIZE)) (hist s) cs = Some ?m"
    unfolding transfers_def by auto
  moreover obtain r cs' where n: "foreach (do_chunk E) (chunks_from c (Suc k)) (\<not> ok \<or> f) (s\<lparr>hist := cs @ hist s\<rparr>) =
      Some (Inl r :: bool + unit, s\<lparr>hist := cs' @ cs @ hist s\<rparr>)"
    "list_all is_file_io cs'" "r \<longleftrightarrow> (\<not> ok \<or> f) \<or> some_failed E (cs @ hist s) cs'"
    "\<not> some_failed E (cs @ hist s) cs' \<longrightarrow>
      covered E ?w ?fd (xc_offset c + of_nat (min (Suc k * XFER_FILE_CHUNK_SIZE) (xc_size c)))
        (xc_buffer c + of_nat (min (Suc k * XFER_FILE_CHUNK_SIZE) (xc_size c))) (cs @ hist s) cs' = Some (xc_size c - Suc k * XFER_FILE_CHUNK_SIZE)"
    using step.IH [of "\<not> ok \<or> f" "s\<lparr>hist := cs @ hist s\<rparr>"] by auto
  moreover have "do_chunk E (chunk_task 0 c (k * XFER_FILE_CHUNK_SIZE)) f s = Some (Inl (\<not> ok \<or> f), s\<lparr>hist := cs @ hist s\<rparr>)"
    using t(1) by (simp add: do_chunk_def chunk_task_def)
  ultimately have "foreach (do_chunk E) (chunks_from c k) f s = Some (Inl r, s\<lparr>hist := (cs' @ cs) @ hist s\<rparr>)"
    by (simp only: foreach.simps Option.bind.simps prod.case sum.case append.assoc)
  moreover have "covered E ?w ?fd (xc_offset c + of_nat (min (k * XFER_FILE_CHUNK_SIZE) (xc_size c)))
        (xc_buffer c + of_nat (min (k * XFER_FILE_CHUNK_SIZE) (xc_size c))) (hist s) (cs' @ cs) = Some (xc_size c - k * XFER_FILE_CHUNK_SIZE)"
    if "\<not> some_failed E (hist s) (cs' @ cs)"
  proof -
    have at: "min (k * XFER_FILE_CHUNK_SIZE) (xc_size c) = k * XFER_FILE_CHUNK_SIZE" using less by simp
    have then_at: "min (Suc k * XFER_FILE_CHUNK_SIZE) (xc_size c) = k * XFER_FILE_CHUNK_SIZE + ?m"
      and left: "xc_size c - k * XFER_FILE_CHUNK_SIZE = ?m + (xc_size c - Suc k * XFER_FILE_CHUNK_SIZE)"
      using less by (auto simp: min_def)
    let ?a = "xc_offset c + of_nat (k * XFER_FILE_CHUNK_SIZE)" and ?b = "xc_buffer c + of_nat (k * XFER_FILE_CHUNK_SIZE)"
    have "covered E ?w ?fd ?a ?b (hist s) cs = Some ?m"
      "covered E ?w ?fd (?a + of_nat ?m) (?b + of_nat ?m) (cs @ hist s) cs' = Some (xc_size c - Suc k * XFER_FILE_CHUNK_SIZE)"
      using t(3,4) n(4) that unfolding then_at some_failed_append of_nat_add add.assoc by blast+
    from covered_append [OF this(1), of cs', unfolded this(2)] show ?thesis
      unfolding at by (subst left) (simp only: option.map)
  qed
  ultimately show ?case
    using t(2,3) n(2,3) by (intro exI [of _ r] exI [of _ "cs' @ cs"]) (auto simp: some_failed_append)
qed

lemma xfer_file_transfer_transfers:
  assumes "io_live E" "unat n < 2 ^ 63"
  shows "transfers E w fd at buf (unat n) s (xfer_file_transfer E fd at buf n cold w s)"
proof -
  let ?c = "\<lparr>xc_file = fd, xc_offset = at, xc_buffer = buf, xc_size = unat n, xc_cold = cold, xc_write = w, xc_done = 0\<rparr>"
  let ?h = "[SyncCreate, SyncCreate]"
  have chunks: "map (\<lambda>i. chunk_task 0 ?c (i * XFER_FILE_CHUNK_SIZE)) [0..<chunk_count (unat n)] = chunks_from ?c 0"
    by (simp add: chunks_from_def)
  obtain r cs where c: "foreach (do_chunk E) (chunks_from ?c 0) False (s\<lparr>hist := ?h @ hist s\<rparr>) = Some (Inl r :: bool + unit, s\<lparr>hist := (cs @ ?h) @ hist s\<rparr>)"
    "list_all is_file_io cs" "r \<longleftrightarrow> some_failed E (?h @ hist s) cs"
    "\<not> some_failed E (?h @ hist s) cs \<longrightarrow> covered E w fd at buf (?h @ hist s) cs = Some (unat n)"
    using chunks_transfer [of E ?c 0 False "s\<lparr>hist := ?h @ hist s\<rparr>"] assms by auto
  show ?thesis
  proof (cases "some_failed E (hist s) ?h")
    case True
    then have "xfer_file_transfer E fd at buf n cold w s = Some (False, s\<lparr>hist := ?h @ hist s\<rparr>)"
      by (auto simp: xfer_file_transfer_def ask_def io_failed_def)
    then show ?thesis using transfers_fail [of ?h E s] True by simp
  next
    case False
    then have "xfer_file_transfer E fd at buf n cold w s = Some (\<not> r, s\<lparr>hist := (cs @ ?h) @ hist s\<rparr>)"
      using c(1) unfolding xfer_file_transfer_def Let_def xfer_client.simps chunks by (simp add: ask_def io_failed_def)
    then show ?thesis
      unfolding transfers_def using c(2-4) False covered_append [of E w fd at buf "hist s" ?h 0 cs]
      by (intro exI [of _ "\<not> r"] exI [of _ "cs @ ?h"]) (simp add: some_failed_append)
  qed
qed

lemma started_workers:
  "\<exists>r cs. foreach (start_worker E) ks x s = Some (r, s\<lparr>hist := cs @ hist s\<rparr>) \<and>
     (\<forall>y. r = Inl y \<longrightarrow> y = x\<lparr>xf_workers := xf_workers x @ replicate (length ks) Idle\<rparr>)"
proof (induction ks arbitrary: x s)
  case (Cons k ks)
  show ?case
  proof (cases "r_rc (drv E (hist s) ThreadCreate) = 0")
    case True
    with Cons [of "x\<lparr>xf_workers := xf_workers x @ [Idle]\<rparr>" "s\<lparr>hist := ThreadCreate # hist s\<rparr>"] show ?thesis
      by (auto simp: start_worker_def ask_def intro!: exI [of _ "_ @ [ThreadCreate]"])
  next
    case False
    then show ?thesis by (auto simp: start_worker_def ask_def intro!: exI [of _ "[ThreadCreate]"])
  qed
qed (auto intro!: exI [of _ "[]"])

text \<open>A pool that starts is the initial state of \<open>xreachable\<close>.\<close>

lemma init_ready:
  "\<exists>r cs. xfer_file_init E s = Some (r, s\<lparr>hist := cs @ hist s\<rparr>) \<and> (r = None \<or> r = Some pool_ready)"
proof (cases "r_rc (drv E (hist s) SyncCreate) \<noteq> 0 \<or> r_rc (drv E (SyncCreate # hist s) SyncCreate) \<noteq> 0 \<or>
    r_rc (drv E (SyncCreate # SyncCreate # hist s) SyncCreate) \<noteq> 0")
  case True
  then show ?thesis by (auto simp: xfer_file_init_def ask_def intro!: exI [of _ "[SyncCreate, SyncCreate, SyncCreate]"])
next
  case False
  obtain r cs where "foreach (start_worker E) [0..<XFER_FILE_THREADS] (pool_ready\<lparr>xf_workers := []\<rparr>)
      (s\<lparr>hist := SyncCreate # SyncCreate # SyncCreate # hist s\<rparr>) =
      Some (r, s\<lparr>hist := (cs @ [SyncCreate, SyncCreate, SyncCreate]) @ hist s\<rparr>)"
    "\<forall>y. r = Inl y \<longrightarrow> y = pool_ready"
    using started_workers [of E "[0..<XFER_FILE_THREADS]" "pool_ready\<lparr>xf_workers := []\<rparr>"
        "s\<lparr>hist := SyncCreate # SyncCreate # SyncCreate # hist s\<rparr>"]
    by (auto simp: pool_ready_def)
  then show ?thesis
    using False by (cases r) (auto simp: xfer_file_init_def ask_def simp del: upt_Suc intro!: exI [of _ "cs @ [SyncCreate, SyncCreate, SyncCreate]"])
qed

end
