(* ===== verification/HostWorker.thy ===== *)
theory HostWorker
  imports XferPlat VramBuf
begin

text \<open>
  The two services behind a host buffer: the thread that gives committed pages back
  (\<open>src/hostbuf-decommit.c\<close>, \<open>src/hostbuf-decommit.h\<close>) and the six threads that touch new pages so that
  they are backed before they are used (\<open>src/hostbuf-prewarm.c\<close>).

  A worker step is a whole job: it is what its critical sections let the callers see. A caller that
  waits on a condition variable runs worker steps until its condition holds, and is stuck (\<open>None\<close>) when
  no worker has anything to do; \<open>WorkerProgress\<close> lets the environment choose how many jobs the decommit
  thread has finished in the meantime, so that a theorem covers every relative speed. A mutex or
  condition variable that could not be created is \<open>NULL\<close>, and waiting on or signalling one is undefined.
\<close>

subsection \<open>State\<close>

record decommit_job =
  dj_state :: nat            \<comment> \<open>the buffer whose \<open>HostbufDecommitState\<close> it is\<close>
  dj_ptr :: u64
  dj_size :: u64
  dj_release :: bool

record host_buffer =
  hb_base_address :: u64
  hb_size :: u64
  hb_committed_size :: u64
  hb_reserved_size :: u64
  hb_last_chunk_size :: u64
  hb_prewarm :: u64
  hb_pending :: nat          \<comment> \<open>\<open>decommit.pending\<close>: each is a job in memory, so it does not reach 2^64\<close>
  hb_mark_cold :: bool

record prewarm_pool =
  pw_mutex :: bool
  pw_conds :: bool
  pw_threads :: nat          \<comment> \<open>workers started\<close>
  pw_due :: "nat list"       \<comment> \<open>those that have not run the current generation yet\<close>
  pw_ptr :: u64
  pw_generation :: u64
  pw_remaining :: nat
  pw_page_count :: u64
  pw_page_span :: u64
  pw_page_size :: u64

record hstate = astate +
  host_bufs :: "nat \<rightharpoonup> host_buffer"
  decommit_mutex :: bool
  decommit_conds :: bool
  decommit_started :: bool
  decommit_queue :: "decommit_job list"
  decommit_queued :: u64
  prewarm_state :: prewarm_pool

abbreviation HOSTBUF_DECOMMIT_QUEUE_LIMIT :: u64 where "HOSTBUF_DECOMMIT_QUEUE_LIMIT \<equiv> 402653184"
abbreviation HOSTBUF_PREWARM_THREADS :: nat where "HOSTBUF_PREWARM_THREADS \<equiv> 6"

definition hostbuf_page_size :: "env \<Rightarrow> u64" where
  "hostbuf_page_size E = page_size E"

definition hostbuf_reserve_granularity :: "env \<Rightarrow> u64" where
  "hostbuf_reserve_granularity E = (if is_win E then reserve_granularity E else hostbuf_page_size E)"

text \<open>The address space, \<open>hostbuf-plat.c\<close>: an address of 0 is a failure.\<close>

definition hostbuf_reserve_address_space :: "env \<Rightarrow> u64 \<Rightarrow> 'z base_scheme \<Rightarrow> (u64 \<times> 'z base_scheme) option" where
  "hostbuf_reserve_address_space E n s = do { (r, s) \<leftarrow> ask E (HostReserve n) s; Some (if r_rc r = 0 then r_val r else 0, s) }"

definition hostbuf_commit_address_space :: "env \<Rightarrow> u64 \<Rightarrow> u64 \<Rightarrow> 'z base_scheme \<Rightarrow> (bool \<times> 'z base_scheme) option" where
  "hostbuf_commit_address_space E ptr n s = do { (r, s) \<leftarrow> ask E (HostCommit ptr n) s; Some (r_rc r = 0, s) }"

definition hostbuf_decommit_address_space :: "env \<Rightarrow> u64 \<Rightarrow> u64 \<Rightarrow> 'z base_scheme \<Rightarrow> (bool \<times> 'z base_scheme) option" where
  "hostbuf_decommit_address_space E ptr n s = do { (r, s) \<leftarrow> ask E (HostDecommit ptr n) s; Some (r_rc r = 0, s) }"

definition hostbuf_release_address_space :: "env \<Rightarrow> u64 \<Rightarrow> u64 \<Rightarrow> 'z base_scheme \<Rightarrow> (unit \<times> 'z base_scheme) option" where
  "hostbuf_release_address_space E ptr n s =
     (if ptr \<noteq> 0 then do { (_, s) \<leftarrow> ask E (HostRelease ptr n) s; Some ((), s) } else Some ((), s))"

subsection \<open>The decommit thread\<close>

text \<open>The queue is empty as long as the thread has not been started, so resetting its tail is no step.\<close>

definition decommit_worker :: "env \<Rightarrow> 'z hstate_scheme \<Rightarrow> (unit \<times> 'z hstate_scheme) option" where
  "decommit_worker E s = (case decommit_queue s of
       [] \<Rightarrow> None
     | job # jobs \<Rightarrow> do {
         let s = s\<lparr>decommit_queue := jobs\<rparr>;
         (_, s) \<leftarrow> (if dj_release job then hostbuf_release_address_space E (dj_ptr job) (dj_size job) s
                   else do { (_, s) \<leftarrow> hostbuf_decommit_address_space E (dj_ptr job) (dj_size job) s; Some ((), s) });
         let s = (if dj_release job then s else s\<lparr>decommit_queued := decommit_queued s - dj_size job\<rparr>);
         hb \<leftarrow> host_bufs s (dj_state job);
         if hb_pending hb = 0 then None
         else Some ((), s\<lparr>host_bufs := (host_bufs s)(dj_state job \<mapsto> hb\<lparr>hb_pending := hb_pending hb - 1\<rparr>)\<rparr>) })"

text \<open>The jobs the thread has done by itself since the last call.\<close>

definition worker_progress :: "env \<Rightarrow> 'z hstate_scheme \<Rightarrow> (unit \<times> 'z hstate_scheme) option" where
  "worker_progress E s = do {
     (r, s) \<leftarrow> ask E WorkerProgress s;
     each (\<lambda>_. decommit_worker E) (take (unat (r_val r)) (decommit_queue s)) s }"

definition hostbuf_decommit_wait :: "env \<Rightarrow> nat \<Rightarrow> 'z hstate_scheme \<Rightarrow> (unit \<times> 'z hstate_scheme) option" where
  "hostbuf_decommit_wait E b s = loop (Suc (length (decommit_queue s))) (\<lambda>_ s. do {
     hb \<leftarrow> host_bufs s b;
     if hb_pending hb = 0 then Some (Inr (), s)
     else do { (_, s) \<leftarrow> decommit_worker E s; Some (Inl (), s) } }) () s"

definition hostbuf_decommit_init :: "env \<Rightarrow> 'z hstate_scheme \<Rightarrow> (bool \<times> 'z hstate_scheme) option" where
  "hostbuf_decommit_init E s =
     (if decommit_started s then Some (True, s)
      else do {
        (_, s) \<leftarrow> (if decommit_mutex s then Some ((), s)
          else do {
            (m, s) \<leftarrow> ask E SyncCreate s;
            (c1, s) \<leftarrow> ask E SyncCreate s;
            (c2, s) \<leftarrow> ask E SyncCreate s;
            Some ((), s\<lparr>decommit_mutex := r_rc m = 0, decommit_conds := r_rc c1 = 0 \<and> r_rc c2 = 0\<rparr>) });
        if \<not> (decommit_mutex s \<and> decommit_conds s) then Some (False, s)
        else do {
          (r, s) \<leftarrow> ask E ThreadCreate s;
          Some (r_rc r = 0, s\<lparr>decommit_started := r_rc r = 0\<rparr>) } })"

text \<open>Until the queue has space for the job.\<close>

definition decommit_space :: "env \<Rightarrow> u64 \<Rightarrow> bool \<Rightarrow> 'z hstate_scheme \<Rightarrow> (unit \<times> 'z hstate_scheme) option" where
  "decommit_space E n release s = loop (Suc (length (decommit_queue s))) (\<lambda>_ s.
     if \<not> release \<and> decommit_queued s + n > HOSTBUF_DECOMMIT_QUEUE_LIMIT
     then do { (_, s) \<leftarrow> decommit_worker E s; Some (Inl (), s) }
     else Some (Inr (), s)) () s"

definition hostbuf_decommit_async ::
  "env \<Rightarrow> nat \<Rightarrow> u64 \<Rightarrow> u64 \<Rightarrow> bool \<Rightarrow> 'z hstate_scheme \<Rightarrow> (bool \<times> 'z hstate_scheme) option" where
  "hostbuf_decommit_async E b ptr n release s = do {
     (ok, s) \<leftarrow> host_alloc E s;
     (ok, s) \<leftarrow> (if ok then hostbuf_decommit_init E s else Some (False, s));
     if \<not> ok then Some (False, s)
     else do {
       (_, s) \<leftarrow> worker_progress E s;
       (_, s) \<leftarrow> decommit_space E n release s;
       hb \<leftarrow> host_bufs s b;
       let s = s\<lparr>host_bufs := (host_bufs s)(b \<mapsto> hb\<lparr>hb_pending := hb_pending hb + 1\<rparr>),
                 decommit_queue := decommit_queue s @ [\<lparr>dj_state = b, dj_ptr = ptr, dj_size = n, dj_release = release\<rparr>]\<rparr>;
       Some (True, if release then s else s\<lparr>decommit_queued := decommit_queued s + n\<rparr>) } }"

subsection \<open>The prewarm pool\<close>

text \<open>Worker \<open>i\<close> touches its share of the pages.\<close>

definition prewarm_worker :: "env \<Rightarrow> nat \<Rightarrow> 'z hstate_scheme \<Rightarrow> (unit \<times> 'z hstate_scheme) option" where
  "prewarm_worker E i s = do {
     let p = prewarm_state s;
     let page_start = of_nat i * pw_page_span p;
     let page_end = min (page_start + pw_page_span p) (pw_page_count p);
     (_, s) \<leftarrow> (if page_start < page_end
       then do { (_, s) \<leftarrow> ask E (HostTouch (pw_ptr p + page_start * pw_page_size p) (page_end - page_start) (pw_page_size p)) s; Some ((), s) }
       else Some ((), s));
     Some ((), s\<lparr>prewarm_state := (prewarm_state s)\<lparr>pw_remaining := pw_remaining p - 1\<rparr>\<rparr>) }"

text \<open>\<open>while (remaining) condvar_wait(done_cond)\<close>.\<close>

definition prewarm_wait :: "env \<Rightarrow> 'z hstate_scheme \<Rightarrow> (unit \<times> 'z hstate_scheme) option" where
  "prewarm_wait E s = loop (Suc (length (pw_due (prewarm_state s)))) (\<lambda>_ s.
     if pw_remaining (prewarm_state s) = 0 then Some (Inr (), s)
     else (case pw_due (prewarm_state s) of
         [] \<Rightarrow> None
       | i # is \<Rightarrow> do {
           (_, s) \<leftarrow> prewarm_worker E i (s\<lparr>prewarm_state := (prewarm_state s)\<lparr>pw_due := is\<rparr>\<rparr>);
           Some (Inl (), s) })) () s"

definition start_prewarm_worker :: "env \<Rightarrow> nat \<Rightarrow> unit \<Rightarrow> 'z hstate_scheme \<Rightarrow> ((unit + unit) \<times> 'z hstate_scheme) option" where
  "start_prewarm_worker E i = (\<lambda>_ s. do {
     (r, s) \<leftarrow> ask E ThreadCreate s;
     if r_rc r \<noteq> 0 then Some (Inr (), s)
     else Some (Inl (), s\<lparr>prewarm_state := (prewarm_state s)\<lparr>pw_threads := Suc i\<rparr>\<rparr>) })"

definition hostbuf_prewarm_pool_init :: "env \<Rightarrow> 'z hstate_scheme \<Rightarrow> (bool \<times> 'z hstate_scheme) option" where
  "hostbuf_prewarm_pool_init E s = do {
     (m, s) \<leftarrow> ask E SyncCreate s;
     (c1, s) \<leftarrow> ask E SyncCreate s;
     (c2, s) \<leftarrow> ask E SyncCreate s;
     let s = s\<lparr>prewarm_state := (prewarm_state s)\<lparr>pw_mutex := r_rc m = 0, pw_conds := r_rc c1 = 0 \<and> r_rc c2 = 0\<rparr>\<rparr>;
     if r_rc m \<noteq> 0 \<or> r_rc c1 \<noteq> 0 \<or> r_rc c2 \<noteq> 0 then Some (False, s)
     else do {
       (r, s) \<leftarrow> foreach (start_prewarm_worker E) [0..<HOSTBUF_PREWARM_THREADS] () s;
       Some (r = Inl (), s) } }"

definition hostbuf_prewarm_join :: "env \<Rightarrow> 'z hstate_scheme \<Rightarrow> (bool \<times> 'z hstate_scheme) option" where
  "hostbuf_prewarm_join E s =
     (if \<not> pw_mutex (prewarm_state s) then Some (True, s) else do { (_, s) \<leftarrow> prewarm_wait E s; Some (True, s) })"

definition hostbuf_prewarm_start :: "env \<Rightarrow> u64 \<Rightarrow> u64 \<Rightarrow> 'z hstate_scheme \<Rightarrow> (bool \<times> 'z hstate_scheme) option" where
  "hostbuf_prewarm_start E ptr n s =
     (if n = 0 then hostbuf_prewarm_join E s
      else do {
        (ok, s) \<leftarrow> (if pw_mutex (prewarm_state s) then Some (True, s) else hostbuf_prewarm_pool_init E s);
        if \<not> ok then Some (False, s)
        else do {
          (_, s) \<leftarrow> prewarm_wait E s;
          if \<not> pw_conds (prewarm_state s) then None
          else do {
            let p = prewarm_state s;
            let count = (n + hostbuf_page_size E - 1) div hostbuf_page_size E;
            Some (True, s\<lparr>prewarm_state := p\<lparr>pw_ptr := ptr, pw_page_size := hostbuf_page_size E, pw_page_count := count,
              pw_page_span := (count + of_nat HOSTBUF_PREWARM_THREADS - 1) div of_nat HOSTBUF_PREWARM_THREADS,
              pw_remaining := HOSTBUF_PREWARM_THREADS, pw_generation := pw_generation p + 1,
              pw_due := [0..<pw_threads p]\<rparr>\<rparr>) } } })"

end
