(* ===== verification/HostBuf.thy ===== *)
theory HostBuf
  imports HostWorker
begin

text \<open>
  Host buffers (\<open>src/hostbuf.c\<close>): a reserved range of address space whose front part is committed and,
  on request, registered with the GPU driver. A buffer grows at its end, can replace its last chunk,
  and is truncated; what a grow commits beyond its size is touched in advance by the prewarm pool, and
  what a truncation gives up is decommitted by the thread of \<open>HostWorker\<close>.

  Buffers are addressed by natural numbers; an argument that may be \<open>NULL\<close> is an option.
\<close>

definition hb_update :: "nat \<Rightarrow> (host_buffer \<Rightarrow> host_buffer) \<Rightarrow> 'z hstate_scheme \<Rightarrow> 'z hstate_scheme option" where
  "hb_update b f s = do { hb \<leftarrow> host_bufs s b; Some (s\<lparr>host_bufs := (host_bufs s)(b \<mapsto> f hb)\<rparr>) }"

subsection \<open>Growing\<close>

text \<open>The base address, reserved on first use; 0 when that fails.\<close>

definition hostbuf_base :: "env \<Rightarrow> nat \<Rightarrow> 'z hstate_scheme \<Rightarrow> (u64 \<times> 'z hstate_scheme) option" where
  "hostbuf_base E b s = do {
     hb \<leftarrow> host_bufs s b;
     if hb_base_address hb \<noteq> 0 then Some (hb_base_address hb, s)
     else do {
       (base, s) \<leftarrow> hostbuf_reserve_address_space E (hb_reserved_size hb) s;
       s \<leftarrow> hb_update b (\<lambda>hb. hb\<lparr>hb_base_address := base\<rparr>) s;
       Some (base, s) } }"

definition host_grow_target :: "env \<Rightarrow> host_buffer \<Rightarrow> u64 \<Rightarrow> u64" where
  "host_grow_target E hb n = (let target = ALIGN_UP (n + hb_prewarm hb) (hostbuf_page_size E) in
     if target < hb_committed_size hb + hb_prewarm hb div 4 then hb_committed_size hb else target)"

definition commit_tail :: "env \<Rightarrow> u64 \<Rightarrow> host_buffer \<Rightarrow> u64 \<Rightarrow> 'z hstate_scheme \<Rightarrow> (bool \<times> 'z hstate_scheme) option" where
  "commit_tail E base hb tail_size s =
     (if tail_size \<noteq> 0 then hostbuf_commit_address_space E (base + hb_committed_size hb) tail_size s else Some (True, s))"

text \<open>What the caller is about to use is touched before the buffer grows.\<close>

definition warm_used :: "env \<Rightarrow> u64 \<Rightarrow> host_buffer \<Rightarrow> u64 \<Rightarrow> 'z hstate_scheme \<Rightarrow> (bool \<times> 'z hstate_scheme) option" where
  "warm_used E base hb n s =
     (if n > hb_committed_size hb then do {
        (ok, s) \<leftarrow> hostbuf_prewarm_start E (base + hb_committed_size hb) (n - hb_committed_size hb) s;
        if ok then hostbuf_prewarm_join E s else Some (False, s) }
      else Some (True, s))"

definition register_tail :: "env \<Rightarrow> bool \<Rightarrow> u64 \<Rightarrow> host_buffer \<Rightarrow> u64 \<Rightarrow> 'z hstate_scheme \<Rightarrow> (bool \<times> 'z hstate_scheme) option" where
  "register_tail E do_register base hb n s =
     (if do_register then check_cu E (MemHostRegister (base + hb_size hb) (n - hb_size hb)) s else Some (True, s))"

definition warm_ahead :: "env \<Rightarrow> u64 \<Rightarrow> host_buffer \<Rightarrow> u64 \<Rightarrow> u64 \<Rightarrow> 'z hstate_scheme \<Rightarrow> (bool \<times> 'z hstate_scheme) option" where
  "warm_ahead E base hb n target s =
     (let prewarm_start = max (hb_committed_size hb) n in
      if target > prewarm_start then hostbuf_prewarm_start E (base + prewarm_start) (target - prewarm_start) s
      else Some (True, s))"

text \<open>The labels \<open>fail_unregister\<close> and \<open>fail_decommit\<close>.\<close>

definition fail_decommit :: "env \<Rightarrow> u64 \<Rightarrow> host_buffer \<Rightarrow> u64 \<Rightarrow> 'z hstate_scheme \<Rightarrow> (bool \<times> 'z hstate_scheme) option" where
  "fail_decommit E base hb tail_size s =
     (if tail_size \<noteq> 0 then do {
        (_, s) \<leftarrow> hostbuf_decommit_address_space E (base + hb_committed_size hb) tail_size s;
        Some (False, s) }
      else Some (False, s))"

definition fail_unregister :: "env \<Rightarrow> bool \<Rightarrow> u64 \<Rightarrow> host_buffer \<Rightarrow> u64 \<Rightarrow> 'z hstate_scheme \<Rightarrow> (bool \<times> 'z hstate_scheme) option" where
  "fail_unregister E do_register base hb tail_size s =
     (if do_register then do {
        (_, s) \<leftarrow> check_cu E (MemHostUnregister (base + hb_size hb)) s;
        fail_decommit E base hb tail_size s }
      else fail_decommit E base hb tail_size s)"

text \<open>From the commit on.\<close>

definition grow_committed :: "env \<Rightarrow> nat \<Rightarrow> u64 \<Rightarrow> u64 \<Rightarrow> u64 \<Rightarrow> bool \<Rightarrow> 'z hstate_scheme \<Rightarrow> (bool \<times> 'z hstate_scheme) option" where
  "grow_committed E b base n target do_register s = do {
     hb \<leftarrow> host_bufs s b;
     let tail_size = target - hb_committed_size hb;
     (ok, s) \<leftarrow> commit_tail E base hb tail_size s;
     if \<not> ok then Some (False, s)
     else do {
       (ok, s) \<leftarrow> warm_used E base hb n s;
       if \<not> ok then fail_decommit E base hb tail_size s
       else do {
         (ok, s) \<leftarrow> register_tail E do_register base hb n s;
         if \<not> ok then fail_decommit E base hb tail_size s
         else do {
           (ok, s) \<leftarrow> warm_ahead E base hb n target s;
           if \<not> ok then fail_unregister E do_register base hb tail_size s
           else do {
             s \<leftarrow> hb_update b (\<lambda>hb. hb\<lparr>hb_committed_size := target, hb_size := n\<rparr>) s;
             Some (True, s) } } } } }"

definition hostbuf_grow :: "env \<Rightarrow> nat \<Rightarrow> u64 \<Rightarrow> bool \<Rightarrow> 'z hstate_scheme \<Rightarrow> (bool \<times> 'z hstate_scheme) option" where
  "hostbuf_grow E b n do_register s = do {
     hb \<leftarrow> host_bufs s b;
     if n \<le> hb_size hb then Some (True, s)
     else do {
       let target = host_grow_target E hb n;
       (base, s) \<leftarrow> hostbuf_base E b s;
       if base = 0 then Some (False, s)
       else if target > hb_reserved_size hb then Some (False, s)
       else do {
         (_, s) \<leftarrow> hostbuf_prewarm_join E s;
         grow_committed E b base n target do_register s } } }"

subsection \<open>Truncating\<close>

text \<open>The range between the two sizes is handed to the thread in jobs that fit its queue.\<close>

definition decommit_range :: "env \<Rightarrow> nat \<Rightarrow> u64 \<Rightarrow> u64 \<Rightarrow> u64 \<Rightarrow> 'z hstate_scheme \<Rightarrow> (bool \<times> 'z hstate_scheme) option" where
  "decommit_range E b base at old_committed s = loop (unat ((old_committed - at) div HOSTBUF_DECOMMIT_QUEUE_LIMIT) + 2) (\<lambda>at s.
     if \<not> at < old_committed then Some (Inr True, s)
     else do {
       let chunk = min HOSTBUF_DECOMMIT_QUEUE_LIMIT (old_committed - at);
       (ok, s) \<leftarrow> hostbuf_decommit_async E b (base + at) chunk False s;
       Some (if ok then Inl (at + chunk) else Inr False, s) }) at s"

definition release_base :: "env \<Rightarrow> nat \<Rightarrow> 'z hstate_scheme \<Rightarrow> (bool \<times> 'z hstate_scheme) option" where
  "release_base E b s = do {
     hb \<leftarrow> host_bufs s b;
     (ok, s) \<leftarrow> hostbuf_decommit_async E b (hb_base_address hb) (hb_reserved_size hb) True s;
     if \<not> ok then Some (False, s)
     else do {
       s \<leftarrow> hb_update b (\<lambda>hb. hb\<lparr>hb_base_address := 0, hb_committed_size := 0\<rparr>) s;
       Some (True, s) } }"

definition hostbuf_truncate_impl :: "env \<Rightarrow> nat \<Rightarrow> u64 \<Rightarrow> bool \<Rightarrow> 'z hstate_scheme \<Rightarrow> (bool \<times> 'z hstate_scheme) option" where
  "hostbuf_truncate_impl E b n do_unregister s = do {
     hb \<leftarrow> host_bufs s b;
     let base = hb_base_address hb;
     let old_committed = hb_committed_size hb;
     let new_committed = ALIGN_UP n (hostbuf_page_size E);
     if n \<ge> hb_size hb then Some (False, s)
     else do {
       (_, s) \<leftarrow> hostbuf_prewarm_join E s;
       (ok, s) \<leftarrow> (if do_unregister then check_cu E (MemHostUnregister (base + n)) s else Some (True, s));
       if \<not> ok then Some (False, s)
       else do {
         (ok, s) \<leftarrow> (if new_committed < old_committed then decommit_range E b base new_committed old_committed s else Some (True, s));
         if \<not> ok then Some (False, s)
         else do {
           s \<leftarrow> hb_update b (\<lambda>hb. hb\<lparr>hb_size := n, hb_committed_size := min new_committed old_committed\<rparr>) s;
           if n = 0 \<and> base \<noteq> 0 then release_base E b s else Some (True, s) } } } }"

subsection \<open>The exported operations\<close>

definition hostbuf_allocate :: "env \<Rightarrow> u64 \<Rightarrow> u64 \<Rightarrow> bool \<Rightarrow> 'z hstate_scheme \<Rightarrow> (nat option \<times> 'z hstate_scheme) option" where
  "hostbuf_allocate E prewarm reserved_size mark_cold s = do {
     (ok, s) \<leftarrow> host_alloc E s;
     if \<not> ok then Some (None, s)
     else do {
       (m, s) \<leftarrow> ask E SyncCreate s;
       (c, s) \<leftarrow> ask E SyncCreate s;
       if r_rc m \<noteq> 0 \<or> r_rc c \<noteq> 0 then Some (None, s)
       else Some (Some (mnext s), s\<lparr>host_bufs := (host_bufs s)(mnext s \<mapsto>
           \<lparr>hb_base_address = 0, hb_size = 0, hb_committed_size = 0,
            hb_reserved_size = ALIGN_UP (reserved_size + prewarm) (hostbuf_reserve_granularity E),
            hb_last_chunk_size = 0, hb_prewarm = prewarm, hb_pending = 0, hb_mark_cold = mark_cold\<rparr>),
         mnext := Suc (mnext s)\<rparr>) } }"

definition hostbuf_free :: "env \<Rightarrow> nat option \<Rightarrow> 'z hstate_scheme \<Rightarrow> (unit \<times> 'z hstate_scheme) option" where
  "hostbuf_free E p s = (case p of
       None \<Rightarrow> Some ((), s)
     | Some b \<Rightarrow> do {
         (_, s) \<leftarrow> hostbuf_truncate_impl E b 0 True s;
         (_, s) \<leftarrow> hostbuf_decommit_wait E b s;
         Some ((), s\<lparr>host_bufs := (host_bufs s)(b := None)\<rparr>) })"

definition hostbuf_get_raw_address :: "nat option \<Rightarrow> 'z hstate_scheme \<Rightarrow> u64 option" where
  "hostbuf_get_raw_address p s = (case p of None \<Rightarrow> Some 0 | Some b \<Rightarrow> map_option hb_base_address (host_bufs s b))"

text \<open>The last chunk is given up before it is replaced; the answer is the address, 0 for \<open>NULL\<close>, and the change of the size.\<close>

definition drop_last_chunk :: "env \<Rightarrow> nat \<Rightarrow> bool \<Rightarrow> bool \<Rightarrow> 'z hstate_scheme \<Rightarrow> (bool \<times> 'z hstate_scheme) option" where
  "drop_last_chunk E b reallocate do_register s = do {
     hb \<leftarrow> host_bufs s b;
     if reallocate \<and> hb_last_chunk_size hb \<noteq> 0 then do {
       let offset = hb_size hb - hb_last_chunk_size hb;
       (ok, s) \<leftarrow> (if do_register then check_cu E (MemHostUnregister (hb_base_address hb + offset)) s else Some (True, s));
       if \<not> ok then Some (False, s)
       else do { s \<leftarrow> hb_update b (\<lambda>hb. hb\<lparr>hb_size := offset\<rparr>) s; Some (True, s) } }
     else Some (True, s) }"

definition hostbuf_extend ::
  "env \<Rightarrow> nat option \<Rightarrow> u64 \<Rightarrow> bool \<Rightarrow> bool \<Rightarrow> 'z hstate_scheme \<Rightarrow> ((u64 \<times> int) \<times> 'z hstate_scheme) option" where
  "hostbuf_extend E p n reallocate do_register s = (case p of
       None \<Rightarrow> Some ((0, 0), s)
     | Some b \<Rightarrow> do {
         (_, s) \<leftarrow> hostbuf_decommit_wait E b s;
         hb \<leftarrow> host_bufs s b;
         let old_size = hb_size hb;
         (ok, s) \<leftarrow> drop_last_chunk E b reallocate do_register s;
         if \<not> ok then Some ((0, 0), s)
         else do {
           hb \<leftarrow> host_bufs s b;
           let offset = hb_size hb;
           (ok, s) \<leftarrow> hostbuf_grow E b (offset + n) do_register s;
           hb \<leftarrow> host_bufs s b;
           if \<not> ok then Some ((0, sint (hb_size hb - old_size)), s)
           else do {
             s \<leftarrow> hb_update b (\<lambda>hb. hb\<lparr>hb_last_chunk_size := hb_size hb - offset\<rparr>) s;
             Some ((hb_base_address hb + offset, sint (hb_size hb - old_size)), s) } } })"

text \<open>A file slice, streamed through the buffer to the device in windows of 64 MiB.\<close>

abbreviation HOSTBUF_STREAM_WINDOW :: u64 where "HOSTBUF_STREAM_WINDOW \<equiv> 67108864"

definition stream_window ::
  "env \<Rightarrow> host_buffer \<Rightarrow> u64 \<Rightarrow> u64 \<Rightarrow> u64 \<Rightarrow> u64 \<Rightarrow> u64 \<Rightarrow> u64 \<Rightarrow> u64 \<Rightarrow> 'z hstate_scheme \<Rightarrow> ((u64 + bool) \<times> 'z hstate_scheme) option" where
  "stream_window E hb fd file_offset n host stream device_ptr = (\<lambda>at s.
     if \<not> at < n then Some (Inr True, s)
     else do {
       let chunk = min HOSTBUF_STREAM_WINDOW (n - at);
       (ok, s) \<leftarrow> xfer_file_read E fd (file_offset + at) (host + at) chunk (hb_mark_cold hb) s;
       if \<not> ok then Some (Inr False, s)
       else do {
         (_, s) \<leftarrow> (if winxpu E then do {
             (deficit, s) \<leftarrow> budget_deficit E 0 s;
             Some ((), if deficit > 0 then vbars_request_reclaim deficit s else s) }
           else Some ((), s));
         (ok, s) \<leftarrow> check_cu E (MemcpyHtoD (device_ptr + at) (host + at) chunk stream) s;
         Some (if ok then Inl (at + HOSTBUF_STREAM_WINDOW) else Inr False, s) } })"

definition hostbuf_read_file_slice ::
  "env \<Rightarrow> nat option \<Rightarrow> int \<Rightarrow> u64 \<Rightarrow> u64 \<Rightarrow> u64 \<Rightarrow> u64 \<Rightarrow> u64 \<Rightarrow> u64 \<Rightarrow> 'z hstate_scheme \<Rightarrow> (bool \<times> 'z hstate_scheme) option" where
  "hostbuf_read_file_slice E p dev fd file_offset n offset stream device_ptr s =
     (if n = 0 then Some (True, s)
      else case p of None \<Rightarrow> Some (False, s)
      | Some b \<Rightarrow> do {
          hb \<leftarrow> host_bufs s b;
          if hb_base_address hb = 0 then Some (False, s)
          else do {
            let host = hb_base_address hb + offset;
            if device_ptr = 0 then xfer_file_read E fd file_offset host n (hb_mark_cold hb) s
            else if dev < 0 \<or> \<not> set_devctx_for_device dev s then Some (False, s)
            else loop (unat (n div HOSTBUF_STREAM_WINDOW) + 2)
              (stream_window E hb fd file_offset n host stream device_ptr) 0 s } })"

definition hostbuf_register :: "env \<Rightarrow> nat option \<Rightarrow> u64 \<Rightarrow> u64 \<Rightarrow> 'z hstate_scheme \<Rightarrow> (bool \<times> 'z hstate_scheme) option" where
  "hostbuf_register E p offset n s = (case p of None \<Rightarrow> Some (False, s)
     | Some b \<Rightarrow> do {
         hb \<leftarrow> host_bufs s b;
         if offset + n > hb_size hb then Some (False, s)
         else if n = 0 then Some (True, s)
         else check_cu E (MemHostRegister (hb_base_address hb + offset) n) s })"

definition hostbuf_unregister :: "env \<Rightarrow> nat option \<Rightarrow> u64 \<Rightarrow> 'z hstate_scheme \<Rightarrow> (bool \<times> 'z hstate_scheme) option" where
  "hostbuf_unregister E p offset s = (case p of None \<Rightarrow> Some (False, s)
     | Some b \<Rightarrow> do {
         hb \<leftarrow> host_bufs s b;
         if offset \<ge> hb_size hb then Some (False, s)
         else check_cu E (MemHostUnregister (hb_base_address hb + offset)) s })"

definition hostbuf_truncate :: "env \<Rightarrow> nat option \<Rightarrow> u64 \<Rightarrow> bool \<Rightarrow> 'z hstate_scheme \<Rightarrow> (bool \<times> 'z hstate_scheme) option" where
  "hostbuf_truncate E p n do_unregister s = (case p of None \<Rightarrow> Some (False, s)
     | Some b \<Rightarrow> hostbuf_truncate_impl E b n do_unregister s)"

end
