(* ===== verification/HostStream.thy ===== *)
theory HostStream
  imports HostBuf
begin

text \<open>
  What \<open>hostbuf_read_file_slice\<close> moves. \<open>streamed\<close> reads the calls of a history: the bytes read from the
  file so far, in pieces that follow each other, and the bytes copied to the device so far, where a copy
  counts only when all its bytes have been read before it.
\<close>

fun streamed :: "env \<Rightarrow> u64 \<Rightarrow> u64 \<Rightarrow> u64 \<Rightarrow> u64 \<Rightarrow> u64 \<Rightarrow> call list \<Rightarrow> call list \<Rightarrow> (nat \<times> nat) option" where
  "streamed E fd at host dst stream h [] = Some (0, 0)"
| "streamed E fd at host dst stream h (c # cs) = do {
     (r, d) \<leftarrow> streamed E fd at host dst stream h cs;
     case c of
       FileIo w fd' at' buf n \<Rightarrow>
         if \<not> w \<and> fd' = fd \<and> at' = at + of_nat r \<and> buf = host + of_nat r then Some (r + nat (r_rc (drv E (cs @ h) c)), d) else None
     | MemcpyHtoD dst' src n st \<Rightarrow>
         if dst' = dst + of_nat d \<and> src = host + of_nat d \<and> st = stream \<and> d + unat n \<le> r then Some (r, d + unat n) else None
     | _ \<Rightarrow> Some (r, d) }"

lemma streamed_covered:
  assumes "streamed E fd at host dst stream h cs = Some (r, d)"
  shows "list_all is_file_io cs' \<Longrightarrow> covered E False fd (at + of_nat r) (host + of_nat r) (cs @ h) cs' = Some k \<Longrightarrow>
    streamed E fd at host dst stream h (cs' @ cs) = Some (r + k, d)"
proof (induction cs' arbitrary: k)
  case Nil
  then show ?case using assms by simp
next
  case (Cons c cs')
  then obtain k' where k': "covered E False fd (at + of_nat r) (host + of_nat r) (cs @ h) cs' = Some k'"
    by (auto split: bind_splits)
  then have step: "streamed E fd at host dst stream h (cs' @ cs) = Some (r + k', d)" using Cons by simp
  have "is_file_io c" using Cons.prems(1) by simp
  then show ?case using Cons.prems(2) k' step by (cases c) (auto simp: add.assoc split: if_splits)
qed

lemma streamed_query:
  assumes "streamed E fd at host dst stream h cs = Some (r, d)"
  shows "list_all is_query cs' \<Longrightarrow> streamed E fd at host dst stream h (cs' @ cs) = Some (r, d)"
proof (induction cs')
  case (Cons c cs')
  then show ?case by (cases c) auto
qed (simp add: assms)

text \<open>\<open>at\<close> bytes have been read and \<open>d\<close> of them copied since the history \<open>h\<close>.\<close>

definition streamed_to :: "env \<Rightarrow> u64 \<Rightarrow> u64 \<Rightarrow> u64 \<Rightarrow> u64 \<Rightarrow> u64 \<Rightarrow> call list \<Rightarrow> nat \<Rightarrow> nat \<Rightarrow> call list \<Rightarrow> bool" where
  "streamed_to E fd at host dst stream h r d h' \<longleftrightarrow> (\<exists>cs. h' = cs @ h \<and> streamed E fd at host dst stream h cs = Some (r, d))"

lemma streamed_to_nothing [simp]: "streamed_to E fd at host dst stream h 0 0 h"
  by (simp add: streamed_to_def)

lemma wp_stream_read:
  assumes "io_live E" "unat n < 2 ^ 63" "streamed_to E fd at host dst stream h r d (hist s)"
  shows "wp (xfer_file_read E fd (at + of_nat r) (host + of_nat r) n cold s)
    (\<lambda>ok t. ok \<longrightarrow> streamed_to E fd at host dst stream h (r + unat n) d (hist t))"
proof -
  obtain ok cs where t: "xfer_file_read E fd (at + of_nat r) (host + of_nat r) n cold s = Some (ok, s\<lparr>hist := cs @ hist s\<rparr>)"
    "list_all is_file_io cs" "ok \<longrightarrow> covered E False fd (at + of_nat r) (host + of_nat r) (hist s) cs = Some (unat n)"
    using xfer_file_transfer_transfers [OF assms(1,2), of False fd "at + of_nat r" "host + of_nat r" s cold]
    by (auto simp: transfers_def xfer_file_read_def)
  obtain cs0 where c0: "hist s = cs0 @ h" "streamed E fd at host dst stream h cs0 = Some (r, d)"
    using assms(3) by (auto simp: streamed_to_def)
  show ?thesis
    using t streamed_covered [OF c0(2) t(2)] c0(1) by (auto simp: streamed_to_def)
qed

lemma wp_stream_copy:
  assumes "streamed_to E fd at host dst stream h r d (hist s)" "d + unat n \<le> r"
  shows "wp (check_cu E (MemcpyHtoD (dst + of_nat d) (host + of_nat d) n stream) s)
    (\<lambda>ok t. streamed_to E fd at host dst stream h r (d + unat n) (hist t))"
proof -
  obtain cs where "hist s = cs @ h" "streamed E fd at host dst stream h cs = Some (r, d)"
    using assms(1) by (auto simp: streamed_to_def)
  then show ?thesis
    using assms(2) by (auto simp: streamed_to_def intro!: exI [of _ "MemcpyHtoD (dst + of_nat d) (host + of_nat d) n stream # cs"])
qed

lemma wp_stream_pressure:
  assumes "streamed_to E fd at host dst stream h r d (hist s)"
  shows "wp (if winxpu E then do { (deficit, s) \<leftarrow> budget_deficit E 0 s;
        Some ((), if deficit > 0 then vbars_request_reclaim deficit s else s) } else Some ((), s))
    (\<lambda>_ t. streamed_to E fd at host dst stream h r d (hist t))"
proof -
  have "streamed_to E fd at host dst stream h r d h'" if q: "asked_only is_query (hist s) h'" for h'
  proof -
    obtain cs where "h' = cs @ hist s" "list_all is_query cs" using q by (auto simp: asked_only_def)
    then show ?thesis using assms streamed_query unfolding streamed_to_def by (metis append.assoc)
  qed
  then show ?thesis
    by (auto simp: vbars_request_reclaim_def sampled_def intro!: wp_conseq [OF wp_budget_deficit])
qed

text \<open>The stream loop.\<close>

lemma stream_step_word:
  assumes "(at :: u64) < n" "unat n < 2 ^ 63"
  shows "unat (min HOSTBUF_STREAM_WINDOW (n - at)) = min 67108864 (unat n - unat at)"
    "unat (at + HOSTBUF_STREAM_WINDOW) = unat at + 67108864"
proof -
  have "unat (n - at) = unat n - unat at" using unat_sub [OF less_imp_le [OF assms(1)]] .
  then show "unat (min HOSTBUF_STREAM_WINDOW (n - at)) = min 67108864 (unat n - unat at)" by (simp add: min_def word_le_nat_alt)
  show "unat (at + HOSTBUF_STREAM_WINDOW) = unat at + 67108864"
    using assms by (subst unat_add_lem [THEN iffD1]) (simp_all add: word_less_nat_alt)
qed

lemma wp_stream_loop:
  assumes "io_live E" "unat n < 2 ^ 63"
  shows "wp (loop (unat (n div HOSTBUF_STREAM_WINDOW) + 2) (stream_window E hb fd file_offset n host stream dst) 0 s)
    (\<lambda>ok t. ok \<longrightarrow> streamed_to E fd file_offset host dst stream (hist s) (unat n) (unat n) (hist t))"
proof (rule wp_loop [where I = "\<lambda>at t. streamed_to E fd file_offset host dst stream (hist s) (min (unat at) (unat n)) (min (unat at) (unat n)) (hist t)"
      and m = "\<lambda>at t. (unat n + 67108863 - unat at) div 67108864"])
  show "(unat n + 67108863 - unat 0) div 67108864 < unat (n div HOSTBUF_STREAM_WINDOW) + 2"
    by (simp add: unat_div)
  fix at :: u64 and t :: "'a hstate_scheme"
  assume t: "streamed_to E fd file_offset host dst stream (hist s) (min (unat at) (unat n)) (min (unat at) (unat n)) (hist t)"
  show "wp (stream_window E hb fd file_offset n host stream dst at t) (\<lambda>r t'. case r of
      Inl at' \<Rightarrow> streamed_to E fd file_offset host dst stream (hist s) (min (unat at') (unat n)) (min (unat at') (unat n)) (hist t') \<and>
        (unat n + 67108863 - unat at') div 67108864 < (unat n + 67108863 - unat at) div 67108864
    | Inr ok \<Rightarrow> ok \<longrightarrow> streamed_to E fd file_offset host dst stream (hist s) (unat n) (unat n) (hist t'))"
  proof (cases "at < n")
    case False
    then show ?thesis using t by (simp add: stream_window_def word_less_nat_alt not_less min_absorb2)
  next
    case True
    note w = stream_step_word [OF True assms(2)]
    have lt: "unat at < unat n" using True by (simp add: word_less_nat_alt)
    let ?chunk = "min HOSTBUF_STREAM_WINDOW (n - at)"
    have c: "unat ?chunk < 2 ^ 63" using w(1) assms(2) by simp
    have a: "(of_nat (unat at) :: u64) = at" by simp
    have t': "streamed_to E fd file_offset host dst stream (hist s) (unat at) (unat at) (hist t)" using t lt by (simp add: min_absorb1)
    have sum: "min (unat (at + HOSTBUF_STREAM_WINDOW)) (unat n) = unat at + unat ?chunk" unfolding w using lt by (simp add: min_def) arith
    have shorter: "(unat n + 67108863 - unat (at + HOSTBUF_STREAM_WINDOW)) div 67108864 < (unat n + 67108863 - unat at) div 67108864"
    proof -
      obtain k where k: "unat n = unat at + Suc k" using lt less_iff_Suc_add by auto
      have "unat n + 67108863 - unat at = k + 67108864" "unat n + 67108863 - (unat at + 67108864) = k" using k by simp_all
      then show ?thesis unfolding w(2) by simp
    qed
    have nn: "\<not> \<not> at < n" using True by simp
    show ?thesis
      unfolding stream_window_def Let_def if_not_P [OF nn]
    proof (rule wp_step [OF wp_stream_read [OF assms(1) c t', unfolded a]], rule wp_branch)
      fix ok and u :: "'a hstate_scheme"
      show "wp (Some (Inr False, u)) (\<lambda>r t'. case r of
          Inl at' \<Rightarrow> streamed_to E fd file_offset host dst stream (hist s) (min (unat at') (unat n)) (min (unat at') (unat n)) (hist t') \<and>
            (unat n + 67108863 - unat at') div 67108864 < (unat n + 67108863 - unat at) div 67108864
        | Inr ok \<Rightarrow> ok \<longrightarrow> streamed_to E fd file_offset host dst stream (hist s) (unat n) (unat n) (hist t'))" by simp
      assume "ok \<longrightarrow> streamed_to E fd file_offset host dst stream (hist s) (unat at + unat ?chunk) (unat at) (hist u)" "\<not> \<not> ok"
      then have u: "streamed_to E fd file_offset host dst stream (hist s) (unat at + unat ?chunk) (unat at) (hist u)" by simp
      show "wp (do {
          (_, s) \<leftarrow> (if winxpu E then do {
              (deficit, s) \<leftarrow> budget_deficit E 0 u;
              Some ((), if deficit > 0 then vbars_request_reclaim deficit s else s) }
            else Some ((), u));
          (ok, s) \<leftarrow> check_cu E (MemcpyHtoD (dst + at) (host + at) ?chunk stream) s;
          Some (if ok then Inl (at + HOSTBUF_STREAM_WINDOW) else Inr False, s) }) (\<lambda>r t'. case r of
          Inl at' \<Rightarrow> streamed_to E fd file_offset host dst stream (hist s) (min (unat at') (unat n)) (min (unat at') (unat n)) (hist t') \<and>
            (unat n + 67108863 - unat at') div 67108864 < (unat n + 67108863 - unat at) div 67108864
        | Inr ok \<Rightarrow> ok \<longrightarrow> streamed_to E fd file_offset host dst stream (hist s) (unat n) (unat n) (hist t'))"
      proof (rule wp_step [OF wp_stream_pressure [OF u]])
        fix x :: unit and v :: "'a hstate_scheme"
        assume "streamed_to E fd file_offset host dst stream (hist s) (unat at + unat ?chunk) (unat at) (hist v)"
        from wp_stream_copy [OF this order_refl, unfolded a]
        show "wp (do {
            (ok, s) \<leftarrow> check_cu E (MemcpyHtoD (dst + at) (host + at) ?chunk stream) v;
            Some (if ok then Inl (at + HOSTBUF_STREAM_WINDOW) else Inr False, s) }) (\<lambda>r t'. case r of
            Inl at' \<Rightarrow> streamed_to E fd file_offset host dst stream (hist s) (min (unat at') (unat n)) (min (unat at') (unat n)) (hist t') \<and>
              (unat n + 67108863 - unat at') div 67108864 < (unat n + 67108863 - unat at) div 67108864
          | Inr ok \<Rightarrow> ok \<longrightarrow> streamed_to E fd file_offset host dst stream (hist s) (unat n) (unat n) (hist t'))"
        proof (rule wp_step)
          fix ok and w :: "'a hstate_scheme"
          assume "streamed_to E fd file_offset host dst stream (hist s) (unat at + unat ?chunk) (unat at + unat ?chunk) (hist w)"
          then show "wp (Some (if ok then Inl (at + HOSTBUF_STREAM_WINDOW) else Inr False, w)) (\<lambda>r t'. case r of
              Inl at' \<Rightarrow> streamed_to E fd file_offset host dst stream (hist s) (min (unat at') (unat n)) (min (unat at') (unat n)) (hist t') \<and>
                (unat n + 67108863 - unat at') div 67108864 < (unat n + 67108863 - unat at) div 67108864
            | Inr ok \<Rightarrow> ok \<longrightarrow> streamed_to E fd file_offset host dst stream (hist s) (unat n) (unat n) (hist t'))"
            unfolding sum [symmetric] using shorter by (cases ok) simp_all
        qed
      qed
    qed
  qed
qed simp

text \<open>What a successful read of a slice has moved: the file range, and to the device when one is given.\<close>

lemma wp_read_file_slice:
  assumes "io_live E" "unat n < 2 ^ 63" "host_bufs s b = Some hb" "n \<noteq> 0"
  shows "wp (hostbuf_read_file_slice E (Some b) dev fd file_offset n offset stream dst s) (\<lambda>ok t. ok \<longrightarrow> hb_base_address hb \<noteq> 0 \<and>
    streamed_to E fd file_offset (hb_base_address hb + offset) dst stream (hist s) (unat n) (if dst = 0 then 0 else unat n) (hist t))"
proof -
  have read: "wp (xfer_file_read E fd file_offset (hb_base_address hb + offset) n (hb_mark_cold hb) s)
    (\<lambda>ok t. ok \<longrightarrow> streamed_to E fd file_offset (hb_base_address hb + offset) dst stream (hist s) (unat n) 0 (hist t))" for dst
    using wp_stream_read [where s = s and r = 0 and d = 0 and h = "hist s" and fd = fd and at = file_offset and
      host = "hb_base_address hb + offset" and cold = "hb_mark_cold hb" and dst = dst and stream = stream, OF assms(1,2)] by simp
  show ?thesis
    using assms(3,4) read [of 0] wp_stream_loop [OF assms(1,2), of hb fd file_offset "hb_base_address hb + offset" stream dst s]
    by (auto simp: hostbuf_read_file_slice_def Let_def simp del: loop.simps elim: wp_conseq)
qed

end
