(* ===== verification/HostBufInv.thy ===== *)
theory HostBufInv
  imports HostBuf VramBufInv
begin

text \<open>
  What the host buffers guarantee. \<open>host_wf\<close> is the invariant of the two services: the bytes queued for
  decommit are counted exactly and stay within the limit, every buffer knows how many jobs it has in the
  queue and every job's buffer exists, and the prewarm pool has all its workers and as many of them still
  to run as it waits for. \<open>hb_ok\<close> is the invariant of a buffer: used within committed within reserved.
\<close>

subsection \<open>Invariants\<close>

definition queued_bytes :: "decommit_job list \<Rightarrow> nat" where
  "queued_bytes q = sum_list (map (\<lambda>j. unat (dj_size j)) (filter (\<lambda>j. \<not> dj_release j) q))"

definition jobs_of :: "nat \<Rightarrow> decommit_job list \<Rightarrow> nat" where
  "jobs_of b q = count_if (\<lambda>j. dj_state j = b) q"

definition queue_ok :: "'z hstate_scheme \<Rightarrow> bool" where
  "queue_ok s \<longleftrightarrow> unat (decommit_queued s) = queued_bytes (decommit_queue s) \<and>
     queued_bytes (decommit_queue s) \<le> unat HOSTBUF_DECOMMIT_QUEUE_LIMIT \<and>
     (\<forall>b hb. host_bufs s b = Some hb \<longrightarrow> hb_pending hb = jobs_of b (decommit_queue s)) \<and>
     (\<forall>j \<in> set (decommit_queue s). host_bufs s (dj_state j) \<noteq> None)"

definition pool_ok :: "'z hstate_scheme \<Rightarrow> bool" where
  "pool_ok s \<longleftrightarrow> pw_remaining (prewarm_state s) = length (pw_due (prewarm_state s)) \<and>
     (if pw_mutex (prewarm_state s) then pw_conds (prewarm_state s) \<and> pw_threads (prewarm_state s) = HOSTBUF_PREWARM_THREADS
      else pw_due (prewarm_state s) = [])"

definition host_wf :: "'z hstate_scheme \<Rightarrow> bool" where
  "host_wf s \<longleftrightarrow> queue_ok s \<and> pool_ok s"

text \<open>The page size is a power of two.\<close>

definition pages_ok :: "env \<Rightarrow> bool" where
  "pages_ok E \<longleftrightarrow> (\<exists>k < 32. page_size E = 2 ^ k)"

definition hb_ok :: "env \<Rightarrow> host_buffer \<Rightarrow> bool" where
  "hb_ok E hb \<longleftrightarrow> hb_size hb \<le> hb_committed_size hb \<and> hb_committed_size hb \<le> hb_reserved_size hb \<and>
     (hb_base_address hb = 0 \<longrightarrow> hb_committed_size hb = 0)"

text \<open>The buffers of \<open>t\<close> are those of \<open>s\<close>, up to the jobs that are pending.\<close>

definition settled :: "host_buffer \<Rightarrow> host_buffer" where
  "settled hb = hb\<lparr>hb_pending := 0\<rparr>"

definition bufs_like :: "'z hstate_scheme \<Rightarrow> (nat \<rightharpoonup> host_buffer)" where
  "bufs_like s = (\<lambda>b. map_option settled (host_bufs s b))"

lemma settled_idem [simp]: "settled (settled hb) = settled hb" "settled (hb_pending_update f hb) = settled hb"
  by (simp_all add: settled_def)

lemma settled_eq: "settled h = settled h' \<longleftrightarrow> hb_base_address h = hb_base_address h' \<and> hb_size h = hb_size h' \<and>
    hb_committed_size h = hb_committed_size h' \<and> hb_reserved_size h = hb_reserved_size h' \<and>
    hb_last_chunk_size h = hb_last_chunk_size h' \<and> hb_prewarm h = hb_prewarm h' \<and> hb_mark_cold h = hb_mark_cold h'"
  by (cases h; cases h') (auto simp: settled_def)

lemma bufs_like_pending [simp]:
  "host_bufs s b = Some hb \<Longrightarrow> (bufs_like s)(b \<mapsto> settled hb) = bufs_like s"
  by (simp add: bufs_like_def fun_upd_idem)

lemma bufs_like_SomeD:
  assumes "bufs_like t = bufs_like s" "host_bufs s b = Some hb"
  obtains hb' where "host_bufs t b = Some hb'" "settled hb' = settled hb" "hb' = hb\<lparr>hb_pending := hb_pending hb'\<rparr>"
proof -
  have "map_option settled (host_bufs t b) = Some (settled hb)"
    using fun_cong [OF assms(1), of b] assms(2) by (simp add: bufs_like_def)
  then obtain hb' where h: "host_bufs t b = Some hb'" "settled hb' = settled hb" by auto
  moreover have "hb' = hb\<lparr>hb_pending := hb_pending hb'\<rparr>"
    using h(2) by (simp add: settled_def) (metis host_buffer.surjective host_buffer.update_convs(7))
  ultimately show ?thesis using that by blast
qed

subsection \<open>The decommit thread\<close>

lemma queued_bytes_simps [simp]:
  "queued_bytes [] = 0" "queued_bytes (j # q) = (if dj_release j then 0 else unat (dj_size j)) + queued_bytes q"
  "queued_bytes (q @ q') = queued_bytes q + queued_bytes q'"
  by (simp_all add: queued_bytes_def)

lemma jobs_of_simps [simp]:
  "jobs_of b [] = 0" "jobs_of b (j # q) = (if dj_state j = b then 1 else 0) + jobs_of b q"
  "jobs_of b (q @ q') = jobs_of b q + jobs_of b q'"
  by (simp_all add: jobs_of_def)

text \<open>One job: the queue gets shorter and nothing but the pending counts of the buffers changes.\<close>

definition queue_step :: "'z hstate_scheme \<Rightarrow> 'z hstate_scheme \<Rightarrow> bool" where
  "queue_step s t \<longleftrightarrow> queue_ok t \<and> bufs_like t = bufs_like s \<and> prewarm_state t = prewarm_state s \<and>
     decommit_mutex t = decommit_mutex s \<and> decommit_conds t = decommit_conds s \<and> decommit_started t = decommit_started s \<and>
     (\<exists>done_jobs. decommit_queue s = done_jobs @ decommit_queue t)"

lemma queue_step_refl: "queue_ok s \<Longrightarrow> queue_step s s"
  by (simp add: queue_step_def)

lemma queue_step_trans: "queue_step s t \<Longrightarrow> queue_step t u \<Longrightarrow> queue_step s u"
  unfolding queue_step_def by auto

lemma wp_decommit_worker:
  assumes "queue_ok s" "decommit_queue s \<noteq> []"
  shows "wp (decommit_worker E s) (\<lambda>_ t. queue_step s t \<and> length (decommit_queue s) = Suc (length (decommit_queue t)))"
proof -
  obtain j q where q: "decommit_queue s = j # q" using assms(2) by (cases "decommit_queue s") auto
  obtain hb where hb: "host_bufs s (dj_state j) = Some hb" using assms(1) q by (auto simp: queue_ok_def)
  have pend: "hb_pending hb = Suc (jobs_of (dj_state j) q)" using assms(1) q hb by (simp add: queue_ok_def)
  let ?bufs = "(host_bufs s)(dj_state j \<mapsto> hb\<lparr>hb_pending := jobs_of (dj_state j) q\<rparr>)"
  have bufs: "\<forall>b hb'. ?bufs b = Some hb' \<longrightarrow> hb_pending hb' = jobs_of b q"
    using assms(1) q by (auto simp: queue_ok_def)
  have like: "(\<lambda>b. map_option settled (?bufs b)) = bufs_like s"
    using hb by (auto simp: bufs_like_def)
  have sub: "unat (decommit_queued s - dj_size j) = queued_bytes q" if "\<not> dj_release j"
    using assms(1) q that by (subst unat_sub) (auto simp: queue_ok_def word_le_nat_alt)
  show ?thesis
    unfolding decommit_worker_def hostbuf_release_address_space_def hostbuf_decommit_address_space_def q
    using assms(1) q hb pend bufs like sub
    by (auto simp: queue_step_def queue_ok_def Let_def bufs_like_def)
qed

lemma queue_ok_hist [simp]: "queue_ok (s\<lparr>hist := h\<rparr>) = queue_ok s" "bufs_like (s\<lparr>hist := h\<rparr>) = bufs_like s"
  "queue_step (s\<lparr>hist := h\<rparr>) t = queue_step s t"
  by (simp_all add: queue_ok_def bufs_like_def queue_step_def)

lemma wp_worker_progress:
  assumes "queue_ok s"
  shows "wp (worker_progress E s) (\<lambda>_ t. queue_step s t)"
proof -
  have "wp (each (\<lambda>_. decommit_worker E) (take n (decommit_queue u)) u) (\<lambda>_ t. queue_step u t)"
    if "queue_ok u" for n and u :: "'a hstate_scheme"
    by (rule wp_each [where I = "\<lambda>q t. queue_step u t \<and> length q \<le> length (decommit_queue t)"])
      (use that in \<open>auto simp: queue_step_refl queue_step_def intro!: wp_conseq [OF wp_decommit_worker]\<close>)
  from this [of "s\<lparr>hist := WorkerProgress # hist s\<rparr>" "unat (r_val (drv E (hist s) WorkerProgress))"] assms
  show ?thesis by (simp add: worker_progress_def)
qed

lemma wp_worker_again:
  assumes "queue_step s t" "decommit_queue t \<noteq> []"
  shows "wp (decommit_worker E t) (\<lambda>_ u. queue_step s u \<and> length (decommit_queue u) < length (decommit_queue t))"
proof -
  have "queue_ok t" using assms(1) by (simp add: queue_step_def)
  then show ?thesis
    by (rule wp_conseq [OF wp_decommit_worker [OF _ assms(2)]]) (auto intro: queue_step_trans [OF assms(1)])
qed

text \<open>A wait ends with no job of the buffer left in the queue.\<close>

lemma wp_decommit_wait:
  assumes "queue_ok s" "host_bufs s b \<noteq> None"
  shows "wp (hostbuf_decommit_wait E b s) (\<lambda>_ t. queue_step s t \<and> (\<exists>hb. host_bufs t b = Some hb \<and> hb_pending hb = 0) \<and>
     jobs_of b (decommit_queue t) = 0)"
  unfolding hostbuf_decommit_wait_def
proof (rule wp_loop [where I = "\<lambda>_ t. queue_step s t" and m = "\<lambda>_ t. length (decommit_queue t)"])
  fix t :: "'a hstate_scheme"
  assume t: "queue_step s t"
  obtain hb0 where "host_bufs s b = Some hb0" using assms(2) by blast
  then obtain hb where hb: "host_bufs t b = Some hb" using t bufs_like_SomeD unfolding queue_step_def by metis
  have pend: "hb_pending hb = jobs_of b (decommit_queue t)" using t hb by (simp add: queue_step_def queue_ok_def)
  have ok: "queue_ok t" using t by (simp add: queue_step_def)
  show "wp (do { hb \<leftarrow> host_bufs t b; if hb_pending hb = 0 then Some (Inr (), t)
        else do { (_, s) \<leftarrow> decommit_worker E t; Some (Inl (), s) } })
      (\<lambda>r t'. case r of Inl a' \<Rightarrow> queue_step s t' \<and> length (decommit_queue t') < length (decommit_queue t)
        | Inr x \<Rightarrow> queue_step s t' \<and> (\<exists>hb. host_bufs t' b = Some hb \<and> hb_pending hb = 0) \<and> jobs_of b (decommit_queue t') = 0)"
  proof (cases "hb_pending hb = 0")
    case True
    then show ?thesis using t hb pend by simp
  next
    case False
    then have "decommit_queue t \<noteq> []" using pend by auto
    from wp_worker_again [OF t this] show ?thesis using hb False by simp
  qed
qed (use assms queue_step_refl in auto)

definition host_step :: "'z hstate_scheme \<Rightarrow> 'z hstate_scheme \<Rightarrow> bool" where
  "host_step s t \<longleftrightarrow> queue_ok t \<and> bufs_like t = bufs_like s \<and> prewarm_state t = prewarm_state s"

lemma host_step_queue: "queue_step s t \<Longrightarrow> host_step s t"
  by (simp add: queue_step_def host_step_def)

lemma host_step_trans: "host_step s t \<Longrightarrow> host_step t u \<Longrightarrow> host_step s u"
  by (simp add: host_step_def)

lemma host_step_refl: "queue_ok s \<Longrightarrow> host_step s s"
  by (simp add: host_step_def)

lemma wp_decommit_space:
  assumes "queue_ok s" "release \<or> n \<le> HOSTBUF_DECOMMIT_QUEUE_LIMIT"
  shows "wp (decommit_space E n release s) (\<lambda>_ t. queue_step s t \<and>
    (release \<or> queued_bytes (decommit_queue t) + unat n \<le> unat HOSTBUF_DECOMMIT_QUEUE_LIMIT))"
  unfolding decommit_space_def
proof (rule wp_loop [where I = "\<lambda>_ t. queue_step s t" and m = "\<lambda>_ t. length (decommit_queue t)"])
  fix t :: "'a hstate_scheme"
  assume t: "queue_step s t"
  have ok: "queue_ok t" using t by (simp add: queue_step_def)
  have sum: "unat (decommit_queued t + n) = queued_bytes (decommit_queue t) + unat n" if "\<not> release"
  proof -
    have "unat n \<le> 402653184" using that assms(2) by (simp add: word_le_nat_alt)
    then show ?thesis using ok by (subst unat_add_lem [THEN iffD1]) (simp_all add: queue_ok_def)
  qed
  let ?full = "\<not> release \<and> decommit_queued t + n > HOSTBUF_DECOMMIT_QUEUE_LIMIT"
  show "wp (if ?full then do { (_, s) \<leftarrow> decommit_worker E t; Some (Inl (), s) } else Some (Inr (), t))
      (\<lambda>r t'. case r of Inl a' \<Rightarrow> queue_step s t' \<and> length (decommit_queue t') < length (decommit_queue t)
        | Inr x \<Rightarrow> queue_step s t' \<and> (release \<or> queued_bytes (decommit_queue t') + unat n \<le> unat HOSTBUF_DECOMMIT_QUEUE_LIMIT))"
  proof (cases ?full)
    case True
    then have "unat n + queued_bytes (decommit_queue t) > 402653184" using sum by (simp add: word_less_nat_alt)
    moreover have "unat n \<le> 402653184" using True assms(2) by (simp add: word_le_nat_alt)
    ultimately have "decommit_queue t \<noteq> []" by auto
    from wp_worker_again [OF t this] show ?thesis using True by simp
  next
    case False
    then show ?thesis using t sum by (cases release) (simp_all add: word_less_nat_alt not_less)
  qed
qed (use assms queue_step_refl in auto)

lemma wp_decommit_init:
  assumes "queue_ok s"
  shows "wp (hostbuf_decommit_init E s) (\<lambda>_ t. host_step s t \<and> decommit_queue t = decommit_queue s)"
  using assms by (auto simp: hostbuf_decommit_init_def host_step_def queue_ok_def bufs_like_def)

lemma wp_enqueue:
  fixes s :: "'z hstate_scheme" and ptr :: u64
  assumes "queue_ok s" "host_bufs s b = Some hb" "release \<or> queued_bytes (decommit_queue s) + unat n \<le> unat HOSTBUF_DECOMMIT_QUEUE_LIMIT"
  defines "t \<equiv> s\<lparr>host_bufs := (host_bufs s)(b \<mapsto> hb\<lparr>hb_pending := hb_pending hb + 1\<rparr>),
    decommit_queue := decommit_queue s @ [\<lparr>dj_state = b, dj_ptr = ptr, dj_size = n, dj_release = release\<rparr>]\<rparr>"
  shows "host_step s (if release then t else t\<lparr>decommit_queued := decommit_queued t + n\<rparr>)"
proof -
  have "unat (decommit_queued s + n) = queued_bytes (decommit_queue s) + unat n" if "\<not> release"
    using that assms(1,3) by (subst unat_add_lem [THEN iffD1]) (simp_all add: queue_ok_def)
  then show ?thesis
    using assms(1-3) unfolding t_def by (auto simp: host_step_def queue_ok_def bufs_like_def fun_eq_iff)
qed

lemma wp_decommit_async:
  assumes "queue_ok s" "host_bufs s b \<noteq> None" "release \<or> n \<le> HOSTBUF_DECOMMIT_QUEUE_LIMIT"
  shows "wp (hostbuf_decommit_async E b ptr n release s) (\<lambda>_ t. host_step s t)"
proof -
  have last: "wp (do {
       (_, s) \<leftarrow> worker_progress E t;
       (_, s) \<leftarrow> decommit_space E n release s;
       hb \<leftarrow> host_bufs s b;
       let s = s\<lparr>host_bufs := (host_bufs s)(b \<mapsto> hb\<lparr>hb_pending := hb_pending hb + 1\<rparr>),
                 decommit_queue := decommit_queue s @ [\<lparr>dj_state = b, dj_ptr = ptr, dj_size = n, dj_release = release\<rparr>]\<rparr>;
       Some (True, if release then s else s\<lparr>decommit_queued := decommit_queued s + n\<rparr>) }) (\<lambda>_ u. host_step s u)"
    if t: "host_step s t" for t :: "'a hstate_scheme"
  proof -
    obtain hb0 where hb0: "host_bufs s b = Some hb0" using assms(2) by blast
    have "queue_ok t" using t by (simp add: host_step_def)
    show ?thesis
    proof (rule wp_step [OF wp_worker_progress [OF \<open>queue_ok t\<close>]])
      fix x :: unit and u :: "'a hstate_scheme"
      assume u: "queue_step t u"
      then have "queue_ok u" by (simp add: queue_step_def)
      show "wp (do {
           (_, s) \<leftarrow> decommit_space E n release u;
           hb \<leftarrow> host_bufs s b;
           let s = s\<lparr>host_bufs := (host_bufs s)(b \<mapsto> hb\<lparr>hb_pending := hb_pending hb + 1\<rparr>),
                     decommit_queue := decommit_queue s @ [\<lparr>dj_state = b, dj_ptr = ptr, dj_size = n, dj_release = release\<rparr>]\<rparr>;
           Some (True, if release then s else s\<lparr>decommit_queued := decommit_queued s + n\<rparr>) }) (\<lambda>_ v. host_step s v)"
      proof (rule wp_step [OF wp_decommit_space [OF \<open>queue_ok u\<close> assms(3)]])
        fix y :: unit and v :: "'a hstate_scheme"
        assume v: "queue_step u v \<and> (release \<or> queued_bytes (decommit_queue v) + unat n \<le> unat HOSTBUF_DECOMMIT_QUEUE_LIMIT)"
        have sv: "host_step s v" using t u v host_step_queue host_step_trans by metis
        then obtain hb where hb: "host_bufs v b = Some hb" using hb0 bufs_like_SomeD unfolding host_step_def by metis
        have "queue_ok v" using sv by (simp add: host_step_def)
        note enqueued = host_step_trans [OF sv wp_enqueue [OF this hb, of release n ptr]]
        show "wp (do {
           hb \<leftarrow> host_bufs v b;
           let s = v\<lparr>host_bufs := (host_bufs v)(b \<mapsto> hb\<lparr>hb_pending := hb_pending hb + 1\<rparr>),
                     decommit_queue := decommit_queue v @ [\<lparr>dj_state = b, dj_ptr = ptr, dj_size = n, dj_release = release\<rparr>]\<rparr>;
           Some (True, if release then s else s\<lparr>decommit_queued := decommit_queued s + n\<rparr>) }) (\<lambda>_ v. host_step s v)"
          unfolding hb Option.bind.simps Let_def by (rule wp_done, rule enqueued) (use v in simp)
      qed
    qed
  qed
  show ?thesis
  proof (cases "r_rc (drv E (hist s) HostAlloc) = 0")
    case False
    then show ?thesis using assms(1) by (simp add: hostbuf_decommit_async_def host_step_def)
  next
    case True
    have "queue_ok (s\<lparr>hist := HostAlloc # hist s\<rparr>)" using assms(1) by simp
    from wp_decommit_init [OF this, of E] show ?thesis
      unfolding hostbuf_decommit_async_def using True last
      by (auto simp: host_step_def elim!: wp_conseq)
  qed
qed

subsection \<open>The prewarm pool\<close>

text \<open>Only the pool has changed.\<close>

definition same_bufs :: "'z hstate_scheme \<Rightarrow> 'z hstate_scheme \<Rightarrow> bool" where
  "same_bufs s t \<longleftrightarrow> host_bufs t = host_bufs s \<and> decommit_queue t = decommit_queue s \<and> decommit_queued t = decommit_queued s"

lemma same_bufs_refl [simp]: "same_bufs s s"
  by (simp add: same_bufs_def)

lemma same_bufs_trans: "same_bufs s t \<Longrightarrow> same_bufs t u \<Longrightarrow> same_bufs s u"
  by (simp add: same_bufs_def)

lemma same_bufs_queue: "same_bufs s t \<Longrightarrow> queue_ok t = queue_ok s"
  by (simp add: same_bufs_def queue_ok_def)

lemma same_bufs_like: "same_bufs s t \<Longrightarrow> bufs_like t = bufs_like s"
  by (simp add: same_bufs_def bufs_like_def)

lemma same_bufs_hist [simp]: "same_bufs s (s\<lparr>hist := h\<rparr>)" "same_bufs (s\<lparr>hist := h\<rparr>) t = same_bufs s t"
  "pool_ok (s\<lparr>hist := h\<rparr>) = pool_ok s"
  by (simp_all add: same_bufs_def pool_ok_def)

definition pool_step :: "'z hstate_scheme \<Rightarrow> 'z hstate_scheme \<Rightarrow> bool" where
  "pool_step s t \<longleftrightarrow> same_bufs s t \<and> pool_ok t \<and> pw_mutex (prewarm_state t) = pw_mutex (prewarm_state s)"

lemma wp_prewarm_wait:
  assumes "pool_ok s"
  shows "wp (prewarm_wait E s) (\<lambda>_ t. pool_step s t \<and> pw_remaining (prewarm_state t) = 0)"
  unfolding prewarm_wait_def
proof (rule wp_loop [where I = "\<lambda>_ t. pool_step s t" and m = "\<lambda>_ t. length (pw_due (prewarm_state t))"])
  fix t :: "'a hstate_scheme"
  assume "pool_step s t"
  then show "wp (if pw_remaining (prewarm_state t) = 0 then Some (Inr (), t)
      else (case pw_due (prewarm_state t) of
         [] \<Rightarrow> None
       | i # is \<Rightarrow> do {
           (_, s) \<leftarrow> prewarm_worker E i (t\<lparr>prewarm_state := (prewarm_state t)\<lparr>pw_due := is\<rparr>\<rparr>);
           Some (Inl (), s) }))
      (\<lambda>r t'. case r of Inl a' \<Rightarrow> pool_step s t' \<and> length (pw_due (prewarm_state t')) < length (pw_due (prewarm_state t))
        | Inr x \<Rightarrow> pool_step s t' \<and> pw_remaining (prewarm_state t') = 0)"
    by (cases "pw_due (prewarm_state t)") (auto simp: prewarm_worker_def pool_step_def pool_ok_def same_bufs_def Let_def)
qed (use assms in \<open>auto simp: pool_step_def\<close>)

lemma wp_prewarm_join:
  assumes "pool_ok s"
  shows "wp (hostbuf_prewarm_join E s) (\<lambda>r t. r \<and> pool_step s t \<and> pw_remaining (prewarm_state t) = 0)"
proof (cases "pw_mutex (prewarm_state s)")
  case True
  then show ?thesis using wp_prewarm_wait [OF assms, of E] by (auto simp: hostbuf_prewarm_join_def elim!: wp_conseq)
next
  case False
  then show ?thesis using assms by (simp add: hostbuf_prewarm_join_def pool_step_def pool_ok_def)
qed

lemma wp_pool_init:
  assumes "pool_ok s" "\<not> pw_mutex (prewarm_state s)"
  shows "wp (hostbuf_prewarm_pool_init E s) (\<lambda>r t. same_bufs s t \<and> (r \<longrightarrow> pool_ok t \<and> pw_mutex (prewarm_state t)))"
proof -
  let ?ready = "\<lambda>t. same_bufs s t \<and> pw_mutex (prewarm_state t) \<and> pw_conds (prewarm_state t) \<and>
    pw_remaining (prewarm_state t) = 0 \<and> pw_due (prewarm_state t) = []"
  have workers: "wp (foreach (start_prewarm_worker E) [0..<HOSTBUF_PREWARM_THREADS] () t)
      (\<lambda>r t. same_bufs s t \<and> (r = Inl () \<longrightarrow> pool_ok t \<and> pw_mutex (prewarm_state t)))"
    if t: "?ready t" for t :: "'a hstate_scheme"
  proof (rule wp_foreach [where I = "\<lambda>xs _ t. ?ready t \<and> (\<exists>k \<le> 6. xs = [k..<6] \<and> (k = 0 \<or> pw_threads (prewarm_state t) = k))"])
    fix x xs and a :: unit and u :: "'a hstate_scheme"
    assume u: "?ready u \<and> (\<exists>k \<le> 6. x # xs = [k..<6] \<and> (k = 0 \<or> pw_threads (prewarm_state u) = k))"
    then have "x < 6" "xs = [Suc x..<6]" by (auto simp: upt_eq_Cons_conv dest: sym)
    then show "wp (start_prewarm_worker E x a u) (\<lambda>r t. case r of
        Inl a \<Rightarrow> ?ready t \<and> (\<exists>k \<le> 6. xs = [k..<6] \<and> (k = 0 \<or> pw_threads (prewarm_state t) = k))
      | Inr b \<Rightarrow> same_bufs s t \<and> (Inr b = Inl () \<longrightarrow> pool_ok t \<and> pw_mutex (prewarm_state t)))"
      using u by (auto simp: start_prewarm_worker_def same_bufs_def intro!: exI [of _ "Suc x"])
  next
    fix a :: unit and u :: "'a hstate_scheme"
    assume u: "?ready u \<and> (\<exists>k \<le> 6. [] = [k..<6] \<and> (k = 0 \<or> pw_threads (prewarm_state u) = k))"
    then obtain k where "k \<le> 6" "[] = [k..<6]" "k = 0 \<or> pw_threads (prewarm_state u) = k" by blast
    then have "pw_threads (prewarm_state u) = 6" by (cases "k = 6") (auto dest!: sym [of "[]"] simp: upt_eq_Nil_conv)
    then show "same_bufs s u \<and> (Inl a = Inl () \<longrightarrow> pool_ok u \<and> pw_mutex (prewarm_state u))"
      using u by (simp add: pool_ok_def)
  qed (use t in \<open>auto intro!: exI [of _ 0]\<close>)
  have none: "pw_remaining (prewarm_state s) = 0" "pw_due (prewarm_state s) = []"
    using assms by (simp_all add: pool_ok_def)
  show ?thesis
    unfolding hostbuf_prewarm_pool_init_def using none
    by (auto simp: Let_def same_bufs_def [of s] intro!: wp_conseq [OF workers])
qed

lemma wp_prewarm_start:
  assumes "pool_ok s"
  shows "wp (hostbuf_prewarm_start E ptr n s) (\<lambda>r t. same_bufs s t \<and> (r \<longrightarrow> pool_ok t))"
proof (cases "n = 0")
  case True
  then show ?thesis using wp_prewarm_join [OF assms, of E]
    by (auto simp: hostbuf_prewarm_start_def pool_step_def elim!: wp_conseq)
next
  case False
  have init: "wp (if pw_mutex (prewarm_state s) then Some (True, s) else hostbuf_prewarm_pool_init E s)
      (\<lambda>r t. same_bufs s t \<and> (r \<longrightarrow> pool_ok t \<and> pw_mutex (prewarm_state t)))"
    using assms wp_pool_init [OF assms, of E] by simp
  show ?thesis
    unfolding hostbuf_prewarm_start_def if_not_P [OF False]
    by (rule wp_step [OF init], rule wp_branch, simp, rule wp_step [OF wp_prewarm_wait], simp)
      (auto simp: Let_def pool_step_def pool_ok_def same_bufs_def)
qed

subsection \<open>Growing\<close>

text \<open>No sum of the sizes involved reaches 2^64.\<close>

definition roomy :: "host_buffer \<Rightarrow> u64 \<Rightarrow> bool" where
  "roomy hb n \<longleftrightarrow> unat (hb_reserved_size hb) < 2 ^ 62 \<and> unat (hb_prewarm hb) < 2 ^ 62 \<and> unat n < 2 ^ 62"

lemma align_page:
  assumes "pages_ok E" "unat x < 2 ^ 63"
  shows "x \<le> ALIGN_UP x (hostbuf_page_size E)" "unat (ALIGN_UP x (hostbuf_page_size E)) < 2 ^ 64"
proof -
  obtain k where k: "k < 32" "page_size E = 2 ^ k" using assms(1) by (auto simp: pages_ok_def)
  have "(2 :: nat) ^ k \<le> 2 ^ 32" using k(1) by (intro power_increasing) auto
  then have u: "unat (ALIGN_UP x (2 ^ k)) = (unat x + (2 ^ k - 1)) div 2 ^ k * 2 ^ k"
    using ALIGN_UP_nat [of x k] assms(2) k(1) by simp
  have "unat x \<le> (unat x + (2 ^ k - 1)) div 2 ^ k * 2 ^ k"
  proof -
    have "unat x + (2 ^ k - 1) < Suc ((unat x + (2 ^ k - 1)) div 2 ^ k) * 2 ^ k"
      by (simp add: dividend_less_div_times)
    then show ?thesis by simp
  qed
  then show "x \<le> ALIGN_UP x (hostbuf_page_size E)"
    using u k(2) by (simp add: word_le_nat_alt hostbuf_page_size_def)
  show "unat (ALIGN_UP x (hostbuf_page_size E)) < 2 ^ 64" using unsigned_less [of "ALIGN_UP x (hostbuf_page_size E)"] by simp
qed

lemma host_grow_target_ok:
  assumes "pages_ok E" "hb_ok E hb" "roomy hb n"
  shows "hb_committed_size hb \<le> host_grow_target E hb n" "n \<le> host_grow_target E hb n"
proof -
  let ?t = "ALIGN_UP (n + hb_prewarm hb) (hostbuf_page_size E)"
  have sum: "unat (n + hb_prewarm hb) = unat n + unat (hb_prewarm hb)"
    using assms(3) by (subst unat_add_lem [THEN iffD1]) (simp_all add: roomy_def)
  then have t: "unat n + unat (hb_prewarm hb) \<le> unat ?t"
    using align_page(1) [OF assms(1), of "n + hb_prewarm hb"] assms(3) by (simp add: word_le_nat_alt roomy_def)
  have c: "unat (hb_committed_size hb) \<le> unat (hb_reserved_size hb)" using assms(2) by (simp add: hb_ok_def word_le_nat_alt)
  have quarter: "unat (hb_committed_size hb + hb_prewarm hb div 4) = unat (hb_committed_size hb) + unat (hb_prewarm hb) div 4"
  proof -
    have "unat (hb_prewarm hb) div 4 \<le> unat (hb_prewarm hb)" by simp
    then have "unat (hb_committed_size hb) < 2 ^ 62" "unat (hb_prewarm hb) div 4 < 2 ^ 62"
      using assms(3) c unfolding roomy_def by linarith+
    then show ?thesis by (subst unat_add_lem [THEN iffD1]) (simp_all add: unat_div)
  qed
  show "hb_committed_size hb \<le> host_grow_target E hb n"
    using quarter by (auto simp: host_grow_target_def Let_def word_less_nat_alt word_le_nat_alt)
  show "n \<le> host_grow_target E hb n"
    using quarter t by (auto simp: host_grow_target_def Let_def word_less_nat_alt word_le_nat_alt)
qed

text \<open>A grow changes this buffer only, and its sizes only when it succeeds.\<close>

definition host_grown :: "env \<Rightarrow> nat \<Rightarrow> u64 \<Rightarrow> host_buffer \<Rightarrow> 'z hstate_scheme \<Rightarrow> bool \<Rightarrow> 'z hstate_scheme \<Rightarrow> bool" where
  "host_grown E b n hb s r t \<longleftrightarrow> decommit_queue t = decommit_queue s \<and> decommit_queued t = decommit_queued s \<and> (r \<longrightarrow> pool_ok t) \<and>
     (\<exists>base. (hb_base_address hb \<noteq> 0 \<longrightarrow> base = hb_base_address hb) \<and> host_bufs t = (host_bufs s)(b \<mapsto>
       (if \<not> r then hb\<lparr>hb_base_address := base\<rparr>
        else if n \<le> hb_size hb then hb
        else hb\<lparr>hb_base_address := base, hb_committed_size := host_grow_target E hb n, hb_size := n\<rparr>)) \<and>
       (r \<and> \<not> n \<le> hb_size hb \<longrightarrow> base \<noteq> 0 \<and> host_grow_target E hb n \<le> hb_reserved_size hb))"

lemma wp_fail_decommit: "wp (fail_decommit E base hb tail_size s) (\<lambda>r t. \<not> r \<and> same_bufs s t)"
  by (simp add: fail_decommit_def hostbuf_decommit_address_space_def)

lemma wp_fail_unregister: "wp (fail_unregister E do_register base hb tail_size s) (\<lambda>r t. \<not> r \<and> same_bufs s t)"
  by (auto simp: fail_unregister_def intro!: wp_conseq [OF wp_fail_decommit])

lemma wp_warm_used: "pool_ok s \<Longrightarrow> wp (warm_used E base hb n s) (\<lambda>r t. same_bufs s t \<and> (r \<longrightarrow> pool_ok t))"
  unfolding warm_used_def
  by (rule wp_branch, rule wp_step [OF wp_prewarm_start], assumption, rule wp_branch)
    (auto simp: pool_step_def intro!: wp_conseq [OF wp_prewarm_join] dest: same_bufs_trans)

lemma wp_warm_ahead: "pool_ok s \<Longrightarrow> wp (warm_ahead E base hb n target s) (\<lambda>r t. same_bufs s t \<and> (r \<longrightarrow> pool_ok t))"
  by (simp add: warm_ahead_def Let_def wp_prewarm_start)

lemma wp_commit_tail: "wp (commit_tail E base hb tail_size s) (\<lambda>r t. same_bufs s t \<and> pool_ok t = pool_ok s)"
  by (simp add: commit_tail_def hostbuf_commit_address_space_def)

lemma wp_register_tail: "wp (register_tail E do_register base hb n s) (\<lambda>r t. same_bufs s t \<and> pool_ok t = pool_ok s)"
  by (simp add: register_tail_def)

lemma wp_grow_committed:
  assumes "pool_ok s" "host_bufs s b = Some hb"
  shows "wp (grow_committed E b base n target do_register s) (\<lambda>r t.
    if r then pool_ok t \<and> same_bufs (s\<lparr>host_bufs := (host_bufs s)(b \<mapsto> hb\<lparr>hb_committed_size := target, hb_size := n\<rparr>)\<rparr>) t
    else same_bufs s t)"
proof -
  have fail: "wp m (\<lambda>r t. \<not> r \<and> same_bufs u t) \<Longrightarrow> same_bufs s u \<Longrightarrow> wp m (\<lambda>r t.
    if r then pool_ok t \<and> same_bufs (s\<lparr>host_bufs := (host_bufs s)(b \<mapsto> hb\<lparr>hb_committed_size := target, hb_size := n\<rparr>)\<rparr>) t
    else same_bufs s t)" for m and u :: "'a hstate_scheme"
    by (erule wp_conseq) (auto dest: same_bufs_trans)
  have last: "wp (do { s \<leftarrow> hb_update b (\<lambda>hb. hb\<lparr>hb_committed_size := target, hb_size := n\<rparr>) u; Some (True, s) }) (\<lambda>r t.
    if r then pool_ok t \<and> same_bufs (s\<lparr>host_bufs := (host_bufs s)(b \<mapsto> hb\<lparr>hb_committed_size := target, hb_size := n\<rparr>)\<rparr>) t
    else same_bufs s t)" if "same_bufs s u" "pool_ok u" for u
    using that assms(2) by (simp add: hb_update_def same_bufs_def pool_ok_def)
  show ?thesis
    unfolding grow_committed_def Let_def
    apply (rule wp_get [OF assms(2)])
    apply (rule wp_step [OF wp_commit_tail], rule wp_branch, simp)
    apply (rule wp_step [OF wp_warm_used], use assms(1) in simp, rule wp_branch, rule fail, rule wp_fail_decommit, blast dest: same_bufs_trans)
    apply (rule wp_step [OF wp_register_tail], rule wp_branch, rule fail, rule wp_fail_decommit, blast dest: same_bufs_trans)
    apply (rule wp_step [OF wp_warm_ahead], simp, rule wp_branch, rule fail, rule wp_fail_unregister, blast dest: same_bufs_trans)
    apply (rule last; blast dest: same_bufs_trans)
    done
qed

lemma wp_hostbuf_base:
  assumes "host_bufs s b = Some hb"
  shows "wp (hostbuf_base E b s) (\<lambda>base t. (hb_base_address hb \<noteq> 0 \<longrightarrow> base = hb_base_address hb) \<and>
    same_bufs (s\<lparr>host_bufs := (host_bufs s)(b \<mapsto> hb\<lparr>hb_base_address := base\<rparr>)\<rparr>) t \<and> pool_ok t = pool_ok s)"
  using assms by (auto simp: hostbuf_base_def hostbuf_reserve_address_space_def hb_update_def same_bufs_def pool_ok_def fun_upd_idem)

lemma wp_hostbuf_grow:
  assumes "pool_ok s" "host_bufs s b = Some hb"
  shows "wp (hostbuf_grow E b n do_register s) (host_grown E b n hb s)"
proof (cases "n \<le> hb_size hb")
  case True
  then show ?thesis using assms by (auto simp: hostbuf_grow_def host_grown_def fun_upd_idem)
next
  case False
  show ?thesis
    unfolding hostbuf_grow_def Let_def
  proof (rule wp_get [OF assms(2)], simp only: if_not_P [OF False], rule wp_step [OF wp_hostbuf_base [OF assms(2)]])
    fix base and t :: "'a hstate_scheme"
    assume t: "(hb_base_address hb \<noteq> 0 \<longrightarrow> base = hb_base_address hb) \<and>
      same_bufs (s\<lparr>host_bufs := (host_bufs s)(b \<mapsto> hb\<lparr>hb_base_address := base\<rparr>)\<rparr>) t \<and> pool_ok t = pool_ok s"
    have fails: "host_grown E b n hb s False u" if "same_bufs t u" for u
      using that t False by (auto simp: host_grown_def same_bufs_def)
    show "wp (if base = 0 then Some (False, t) else if host_grow_target E hb n > hb_reserved_size hb then Some (False, t)
        else do { (_, s) \<leftarrow> hostbuf_prewarm_join E t; grow_committed E b base n (host_grow_target E hb n) do_register s }) (host_grown E b n hb s)"
    proof (rule wp_branch, simp add: fails, rule wp_branch, simp add: fails)
      assume target: "base \<noteq> 0" "\<not> hb_reserved_size hb < host_grow_target E hb n"
      show "wp (do { (_, s) \<leftarrow> hostbuf_prewarm_join E t; grow_committed E b base n (host_grow_target E hb n) do_register s }) (host_grown E b n hb s)"
      proof (rule wp_step [OF wp_prewarm_join])
        show "pool_ok t" using t assms(1) by simp
        fix r and u :: "'a hstate_scheme"
        assume u: "r \<and> pool_step t u \<and> pw_remaining (prewarm_state u) = 0"
        then have p: "pool_ok u" and hu: "host_bufs u b = Some (hb\<lparr>hb_base_address := base\<rparr>)"
          using t by (auto simp: pool_step_def same_bufs_def)
        show "wp (grow_committed E b base n (host_grow_target E hb n) do_register u) (host_grown E b n hb s)"
        proof (rule wp_conseq [OF wp_grow_committed [OF p hu]])
          fix r and v :: "'a hstate_scheme"
          assume v: "if r then pool_ok v \<and> same_bufs (u\<lparr>host_bufs := (host_bufs u)(b \<mapsto>
              hb\<lparr>hb_base_address := base, hb_committed_size := host_grow_target E hb n, hb_size := n\<rparr>)\<rparr>) v else same_bufs u v"
          then show "host_grown E b n hb s r v"
            using t u target False by (cases r) (auto simp: host_grown_def same_bufs_def pool_step_def not_less)
        qed
      qed
    qed
  qed
qed

subsection \<open>Extending\<close>

text \<open>
  What an extension by \<open>n\<close> bytes answers and leaves: the new chunk at the offset where the buffer
  ended (or where its last chunk began), or \<open>NULL\<close> with nothing committed and at most that chunk given up.
\<close>

definition extend_offset :: "bool \<Rightarrow> host_buffer \<Rightarrow> u64" where
  "extend_offset reallocate hb = (if reallocate then hb_size hb - hb_last_chunk_size hb else hb_size hb)"

definition extended :: "env \<Rightarrow> host_buffer \<Rightarrow> u64 \<Rightarrow> bool \<Rightarrow> u64 \<times> int \<Rightarrow> host_buffer \<Rightarrow> bool" where
  "extended E hb n reallocate r hb' \<longleftrightarrow>
     hb_ok E hb' \<and> hb_reserved_size hb' = hb_reserved_size hb \<and> hb_prewarm hb' = hb_prewarm hb \<and>
     (hb_base_address hb \<noteq> 0 \<longrightarrow> hb_base_address hb' = hb_base_address hb) \<and>
     snd r = int (unat (hb_size hb')) - int (unat (hb_size hb)) \<and>
     (fst r = hb_base_address hb' + extend_offset reallocate hb \<and> hb_committed_size hb \<le> hb_committed_size hb' \<and>
        unat (hb_size hb') = unat (extend_offset reallocate hb) + unat n \<and> hb_last_chunk_size hb' = n \<or>
      fst r = 0 \<and> hb_size hb' \<in> {hb_size hb, extend_offset reallocate hb} \<and> hb_committed_size hb' = hb_committed_size hb \<and>
        hb_last_chunk_size hb' = hb_last_chunk_size hb)"

lemma sint_diff:
  assumes "unat x < 2 ^ 62" "unat y < 2 ^ 62"
  shows "sint (x - y :: u64) = int (unat x) - int (unat y)"
proof -
  have "x - y = of_int (int (unat x) - int (unat y))" by simp
  then have "sint (x - y) = signed_take_bit 63 (int (unat x) - int (unat y))"
    by (simp only: signed_of_int) simp
  also have "\<dots> = int (unat x) - int (unat y)"
  proof (rule signed_take_bit_int_eq_self)
    have p: "(2 :: int) ^ 63 = 9223372036854775808" "(2 :: nat) ^ 62 = 4611686018427387904" by simp_all
    show "- (2 ^ 63) \<le> int (unat x) - int (unat y)" "int (unat x) - int (unat y) < 2 ^ 63"
      using assms unfolding p by linarith+
  qed
  finally show ?thesis .
qed

lemma wp_drop_last_chunk:
  assumes "host_bufs s b = Some hb"
  shows "wp (drop_last_chunk E b reallocate do_register s) (\<lambda>r t.
    same_bufs (s\<lparr>host_bufs := (host_bufs s)(b \<mapsto> hb\<lparr>hb_size := if r then extend_offset reallocate hb else hb_size hb\<rparr>)\<rparr>) t \<and>
    pool_ok t = pool_ok s)"
  using assms
  by (auto simp: drop_last_chunk_def extend_offset_def hb_update_def same_bufs_def pool_ok_def Let_def fun_upd_idem)

lemma extend_offset_le:
  assumes "hb_last_chunk_size hb \<le> hb_size hb"
  shows "extend_offset reallocate hb \<le> hb_size hb"
proof -
  have "unat (hb_size hb - hb_last_chunk_size hb) \<le> unat (hb_size hb)" using unat_sub [OF assms] by simp
  then have "hb_size hb - hb_last_chunk_size hb \<le> hb_size hb" by (simp only: word_le_nat_alt)
  then show ?thesis by (cases reallocate) (simp_all only: extend_offset_def if_True if_False order_refl)
qed

lemma host_grown_extended:
  assumes "pages_ok E" "hb_ok E hb" "reallocate \<longrightarrow> hb_last_chunk_size hb \<le> hb_size hb" "roomy hb n"
    "unat (extend_offset reallocate hb) + unat n < 2 ^ 62"
    "hb0 = hb\<lparr>hb_pending := p, hb_size := extend_offset reallocate hb\<rparr>"
    "host_grown E b (extend_offset reallocate hb + n) hb0 s r t"
  shows "\<exists>hb'. host_bufs t b = Some hb' \<and> hb_pending hb' = p \<and>
    (if r then extended E hb n reallocate (hb_base_address hb' + extend_offset reallocate hb, sint (hb_size hb' - hb_size hb))
         (hb'\<lparr>hb_last_chunk_size := hb_size hb' - extend_offset reallocate hb\<rparr>)
     else extended E hb n reallocate (0, sint (hb_size hb' - hb_size hb)) hb')"
proof -
  let ?o = "extend_offset reallocate hb"
  have o: "?o \<le> hb_size hb" 
    using assms(3) extend_offset_le [of hb reallocate] by (cases reallocate) (blast, simp add: extend_offset_def)
  have sum: "unat (?o + n) = unat ?o + unat n" using assms(5) by (subst unat_add_lem [THEN iffD1]) simp_all
  have sz: "unat (hb_size hb) < 2 ^ 62" using assms(2,4) by (auto simp: hb_ok_def roomy_def word_le_nat_alt)
  have so: "unat ?o < 2 ^ 62" "unat (?o + n) < 2 ^ 62" using assms(5) sum by simp_all
  have ok0: "hb_ok E hb0" using assms(2) o by (auto simp: hb_ok_def assms(6) word_le_nat_alt)
  have "roomy hb0 (?o + n)" using assms(4,6) so(2) by (simp add: roomy_def)
  note target = host_grow_target_ok [OF assms(1) ok0 this]
  let ?hb' = "\<lambda>base. if \<not> r then hb0\<lparr>hb_base_address := base\<rparr> else if ?o + n \<le> hb_size hb0 then hb0
        else hb0\<lparr>hb_base_address := base, hb_committed_size := host_grow_target E hb0 (?o + n), hb_size := ?o + n\<rparr>"
  obtain base where b: "hb_base_address hb0 \<noteq> 0 \<longrightarrow> base = hb_base_address hb0" "host_bufs t = (host_bufs s)(b \<mapsto> ?hb' base)"
    "r \<and> \<not> ?o + n \<le> hb_size hb0 \<longrightarrow> base \<noteq> 0 \<and> host_grow_target E hb0 (?o + n) \<le> hb_reserved_size hb0"
    using assms(7) unfolding host_grown_def by blast
  have "host_bufs t b = Some (?hb' base)" by (simp only: b(2) fun_upd_same)
  note base = b(1) this b(3)
  have zero: "unat n = 0" if "?o + n \<le> hb_size hb0" using that sum by (simp add: assms(6) word_le_nat_alt)
  show ?thesis
  proof (cases "r \<and> \<not> ?o + n \<le> hb_size hb0")
    case True
    let ?hb' = "hb0\<lparr>hb_base_address := base, hb_committed_size := host_grow_target E hb0 (?o + n), hb_size := ?o + n\<rparr>"
    have "extended E hb n reallocate (base + ?o, sint (?o + n - hb_size hb)) (?hb'\<lparr>hb_last_chunk_size := ?o + n - ?o\<rparr>)"
      using True base(1,3) target sum sint_diff [OF so(2) sz] by (simp add: extended_def hb_ok_def assms(6))
    then show ?thesis using True base(2) by (simp add: assms(6))
  next
    case False
    then show ?thesis
      using base zero ok0 sint_diff [OF so(1) sz]
      by (cases r) (auto simp: extended_def hb_ok_def assms(6) unat_eq_zero)
  qed
qed

definition extend_post :: "env \<Rightarrow> nat \<Rightarrow> host_buffer \<Rightarrow> u64 \<Rightarrow> bool \<Rightarrow> 'z hstate_scheme \<Rightarrow> u64 \<times> int \<Rightarrow> 'z hstate_scheme \<Rightarrow> bool" where
  "extend_post E b hb n reallocate s r t \<longleftrightarrow> queue_ok t \<and> jobs_of b (decommit_queue t) = 0 \<and>
    (fst r \<noteq> 0 \<longrightarrow> pool_ok t) \<and> (\<forall>c. c \<noteq> b \<longrightarrow> bufs_like t c = bufs_like s c) \<and>
    (\<exists>hb'. host_bufs t b = Some hb' \<and> hb_pending hb' = 0 \<and> extended E hb n reallocate r hb')"

lemma wp_hostbuf_extend:
  assumes "pages_ok E" "host_wf s" "host_bufs s b = Some hb" "hb_ok E hb" "reallocate \<longrightarrow> hb_last_chunk_size hb \<le> hb_size hb"
    "roomy hb n" "unat (extend_offset reallocate hb) + unat n < 2 ^ 62"
  shows "wp (hostbuf_extend E (Some b) n reallocate do_register s) (extend_post E b hb n reallocate s)"
  unfolding hostbuf_extend_def option.case Let_def
proof (rule wp_step [OF wp_decommit_wait])
  show "queue_ok s" "host_bufs s b \<noteq> None" using assms(2,3) by (simp_all add: host_wf_def)
  fix x :: unit and u :: "'a hstate_scheme"
  assume u: "queue_step s u \<and> (\<exists>hb. host_bufs u b = Some hb \<and> hb_pending hb = 0) \<and> jobs_of b (decommit_queue u) = 0"
  let ?hb0 = "hb\<lparr>hb_pending := 0\<rparr>"
  let ?o = "extend_offset reallocate hb"
  have like: "bufs_like u = bufs_like s" and qu: "queue_ok u" using u by (simp_all add: queue_step_def)
  have hb0: "host_bufs u b = Some ?hb0" using bufs_like_SomeD [OF like assms(3)] u by (metis option.inject)
  have pu: "pool_ok u" using assms(2) u by (simp add: host_wf_def pool_ok_def queue_step_def)
  have o: "extend_offset reallocate ?hb0 = ?o" by (simp add: extend_offset_def)
  show "wp (do {
      hb \<leftarrow> host_bufs u b;
      (ok, s) \<leftarrow> drop_last_chunk E b reallocate do_register u;
      if \<not> ok then Some ((0, 0), s)
      else do {
        hb' \<leftarrow> host_bufs s b;
        (ok, s) \<leftarrow> hostbuf_grow E b (hb_size hb' + n) do_register s;
        hb'' \<leftarrow> host_bufs s b;
        if \<not> ok then Some ((0, sint (hb_size hb'' - hb_size hb)), s)
        else do {
          s \<leftarrow> hb_update b (\<lambda>hb. hb\<lparr>hb_last_chunk_size := hb_size hb - hb_size hb'\<rparr>) s;
          Some ((hb_base_address hb'' + hb_size hb', sint (hb_size hb'' - hb_size hb)), s) } } })
    (extend_post E b hb n reallocate s)"
  proof (rule wp_get [OF hb0], rule wp_step [OF wp_drop_last_chunk [OF hb0]], rule wp_branch)
    fix ok and v :: "'a hstate_scheme"
    assume v: "same_bufs (u\<lparr>host_bufs := (host_bufs u)(b \<mapsto> ?hb0\<lparr>hb_size := if ok then extend_offset reallocate ?hb0 else hb_size ?hb0\<rparr>)\<rparr>) v \<and>
      pool_ok v = pool_ok u"
    have others: "bufs_like v c = bufs_like s c" if "c \<noteq> b" for c
      using v that fun_cong [OF like, of c] by (simp add: same_bufs_def bufs_like_def)
    have queue: "queue_ok v" "jobs_of b (decommit_queue v) = 0"
      using v u qu hb0 by (auto simp: same_bufs_def queue_ok_def)
    {
      assume "\<not> ok"
      then show "wp (Some ((0, 0), v)) (extend_post E b hb n reallocate s)"
        using v others queue assms(4) by (auto simp: extend_post_def same_bufs_def extended_def hb_ok_def)
    }
    assume "\<not> \<not> ok"
    then have hb1: "host_bufs v b = Some (?hb0\<lparr>hb_size := ?o\<rparr>)" using v by (simp add: same_bufs_def o)
    have pv: "pool_ok v" using v pu by simp
    show "wp (do {
        hb' \<leftarrow> host_bufs v b;
        (ok, s) \<leftarrow> hostbuf_grow E b (hb_size hb' + n) do_register v;
        hb'' \<leftarrow> host_bufs s b;
        if \<not> ok then Some ((0, sint (hb_size hb'' - hb_size ?hb0)), s)
        else do {
          s \<leftarrow> hb_update b (\<lambda>hb. hb\<lparr>hb_last_chunk_size := hb_size hb - hb_size hb'\<rparr>) s;
          Some ((hb_base_address hb'' + hb_size hb', sint (hb_size hb'' - hb_size ?hb0)), s) } }) (extend_post E b hb n reallocate s)"
    proof (rule wp_get [OF hb1], rule wp_step [OF wp_hostbuf_grow [OF pv hb1]])
      fix r and w :: "'a hstate_scheme"
      assume w: "host_grown E b (hb_size (?hb0\<lparr>hb_size := ?o\<rparr>) + n) (?hb0\<lparr>hb_size := ?o\<rparr>) v r w"
      then have w': "host_grown E b (?o + n) (?hb0\<lparr>hb_size := ?o\<rparr>) v r w" by simp
      from host_grown_extended [OF assms(1,4-7) refl w'] obtain hb' where hb': "host_bufs w b = Some hb'" "hb_pending hb' = 0"
        "if r then extended E hb n reallocate (hb_base_address hb' + ?o, sint (hb_size hb' - hb_size hb)) (hb'\<lparr>hb_last_chunk_size := hb_size hb' - ?o\<rparr>)
         else extended E hb n reallocate (0, sint (hb_size hb' - hb_size hb)) hb'" by blast
      have others: "bufs_like w c = bufs_like s c" if "c \<noteq> b" for c
        using w others [OF that] that by (auto simp: host_grown_def bufs_like_def)
      have queue: "queue_ok w" "jobs_of b (decommit_queue w) = 0" "r \<longrightarrow> pool_ok w"
        using w queue hb1 by (auto simp: host_grown_def queue_ok_def split: if_splits)
      show "wp (do {
          hb'' \<leftarrow> host_bufs w b;
          if \<not> r then Some ((0, sint (hb_size hb'' - hb_size ?hb0)), w)
          else do {
            s \<leftarrow> hb_update b (\<lambda>hb. hb\<lparr>hb_last_chunk_size := hb_size hb - hb_size (?hb0\<lparr>hb_size := ?o\<rparr>)\<rparr>) w;
            Some ((hb_base_address hb'' + hb_size (?hb0\<lparr>hb_size := ?o\<rparr>), sint (hb_size hb'' - hb_size ?hb0)), s) } })
          (extend_post E b hb n reallocate s)"
      proof (rule wp_get [OF hb'(1)], rule wp_branch)
        assume "\<not> r"
        then show "wp (Some ((0, sint (hb_size hb' - hb_size ?hb0)), w)) (extend_post E b hb n reallocate s)"
          using hb' others queue by (simp add: extend_post_def)
      next
        assume "\<not> \<not> r"
        let ?t = "w\<lparr>host_bufs := (host_bufs w)(b \<mapsto> hb'\<lparr>hb_last_chunk_size := hb_size hb' - ?o\<rparr>)\<rparr>"
        have "queue_ok ?t" using queue(1) hb'(1) by (auto simp: queue_ok_def)
        moreover have "pool_ok ?t" using queue(3) \<open>\<not> \<not> r\<close> by (simp add: pool_ok_def)
        moreover have "bufs_like ?t c = bufs_like s c" if "c \<noteq> b" for c using others [OF that] that by (simp add: bufs_like_def)
        ultimately show "wp (do {
            s \<leftarrow> hb_update b (\<lambda>hb. hb\<lparr>hb_last_chunk_size := hb_size hb - hb_size (?hb0\<lparr>hb_size := ?o\<rparr>)\<rparr>) w;
            Some ((hb_base_address hb' + hb_size (?hb0\<lparr>hb_size := ?o\<rparr>), sint (hb_size hb' - hb_size ?hb0)), s) })
          (extend_post E b hb n reallocate s)"
          using hb' queue \<open>\<not> \<not> r\<close> by (simp add: hb_update_def extend_post_def)
      qed
    qed
  qed
qed

subsection \<open>Truncating and freeing\<close>

lemma wp_decommit_range:
  assumes "queue_ok s" "host_bufs s b \<noteq> None"
  shows "wp (decommit_range E b base at old_committed s) (\<lambda>_ t. host_step s t)"
  unfolding decommit_range_def
proof (rule wp_loop [where I = "\<lambda>at t. host_step s t" and
      m = "\<lambda>at t. if at < old_committed then unat ((old_committed - at) div HOSTBUF_DECOMMIT_QUEUE_LIMIT) + 1 else 0"])
  fix at and t :: "'a hstate_scheme"
  assume t: "host_step s t"
  let ?chunk = "min HOSTBUF_DECOMMIT_QUEUE_LIMIT (old_committed - at)"
  let ?m = "\<lambda>at. if at < old_committed then unat ((old_committed - at) div HOSTBUF_DECOMMIT_QUEUE_LIMIT) + 1 else 0"
  show "wp (if \<not> at < old_committed then Some (Inr True, t)
      else do {
        let chunk = ?chunk;
        (ok, s) \<leftarrow> hostbuf_decommit_async E b (base + at) chunk False t;
        Some (if ok then Inl (at + chunk) else Inr False, s) })
      (\<lambda>r t'. case r of Inl at' \<Rightarrow> host_step s t' \<and> ?m at' < ?m at | Inr b \<Rightarrow> host_step s t')"
  proof (cases "at < old_committed")
    case False
    then show ?thesis using t by simp
  next
    case True
    have shorter: "?m (at + ?chunk) < ?m at"
    proof -
      let ?o = "unat old_committed" and ?a = "unat at"
      have d: "unat (old_committed - at) = ?o - ?a" using unat_sub [OF less_imp_le [OF True]] .
      have c: "unat ?chunk = min 402653184 (?o - ?a)" using d by (simp add: min_def word_le_nat_alt)
      have below: "?o < 2 ^ 64" using unsigned_less [of old_committed] by simp
      have lt: "?a < ?o" using True by (simp add: word_less_nat_alt)
      have "min 402653184 (?o - ?a) \<le> ?o - ?a" by simp
      then have "?a + unat ?chunk < 2 ^ 64" unfolding c using lt below by linarith
      then have n: "unat (at + ?chunk) = ?a + min 402653184 (?o - ?a)"
        using c unat_add_lem [of at ?chunk, THEN iffD1] by (simp only: len_of_numeral_defs len_num1 len_bit0) simp
      show ?thesis
      proof (cases "at + ?chunk < old_committed")
        case False
        then show ?thesis using True by simp
      next
        case more: True
        then have "?a + 402653184 < ?o" using n by (simp add: word_less_nat_alt min_def split: if_splits)
        moreover have "unat (old_committed - (at + ?chunk)) = ?o - unat (at + ?chunk)" using unat_sub [OF less_imp_le [OF more]] .
        ultimately have "unat (old_committed - at) = unat (old_committed - (at + ?chunk)) + 402653184"
          using d n by (simp add: min_def)
        then show ?thesis using True more by (simp add: unat_div)
      qed
    qed
    have "queue_ok t" using t by (simp add: host_step_def)
    moreover have "host_bufs t b \<noteq> None" using assms(2) t bufs_like_SomeD unfolding host_step_def by (metis option.distinct(1) not_None_eq)
    ultimately have "wp (hostbuf_decommit_async E b (base + at) ?chunk False t) (\<lambda>_ t'. host_step t t')"
      by (rule wp_decommit_async) simp
    then show ?thesis
      using True shorter t by (auto simp: Let_def elim!: wp_conseq intro: host_step_trans)
  qed
qed (use assms host_step_refl in \<open>auto\<close>)

lemma host_step_pool: "host_step s t \<Longrightarrow> pool_ok t = pool_ok s"
  by (simp add: host_step_def pool_ok_def)

lemma host_step_buf: "host_step s t \<Longrightarrow> host_bufs s b \<noteq> None \<Longrightarrow> host_bufs t b \<noteq> None"
  unfolding host_step_def by (metis bufs_like_SomeD not_None_eq)

text \<open>An update of a buffer that keeps its pending count.\<close>

lemma update_buf:
  assumes "host_bufs t b = Some hb'" "settled hb' = settled hb" "\<And>h. hb_pending (f h) = hb_pending h"
    "\<And>h. settled (f h) = settled (f (settled h))" "queue_ok t"
  defines "u \<equiv> t\<lparr>host_bufs := (host_bufs t)(b \<mapsto> f hb')\<rparr>"
  shows "queue_ok u" "bufs_like u = (bufs_like t)(b \<mapsto> settled (f hb))" "prewarm_state u = prewarm_state t"
proof -
  show "queue_ok u" using assms(1,3,5) by (auto simp: u_def queue_ok_def)
  have "settled (f hb') = settled (f hb)" using assms(2,4) by metis
  then show "bufs_like u = (bufs_like t)(b \<mapsto> settled (f hb))" by (auto simp: u_def bufs_like_def)
qed (simp add: u_def)

lemma wp_release_base:
  assumes "queue_ok s" "host_bufs s b = Some hb"
  shows "wp (release_base E b s) (\<lambda>r t. queue_ok t \<and> prewarm_state t = prewarm_state s \<and>
    bufs_like t = (if r then (bufs_like s)(b \<mapsto> settled (hb\<lparr>hb_base_address := 0, hb_committed_size := 0\<rparr>)) else bufs_like s))"
  unfolding release_base_def
proof (rule wp_get [OF assms(2)], rule wp_step [OF wp_decommit_async])
  show "queue_ok s" "host_bufs s b \<noteq> None" using assms by simp_all
  fix ok and t :: "'a hstate_scheme"
  assume t: "host_step s t"
  then obtain hb' where hb': "host_bufs t b = Some hb'" "settled hb' = settled hb"
    using bufs_like_SomeD assms(2) unfolding host_step_def by metis
  show "wp (if \<not> ok then Some (False, t)
      else do { s \<leftarrow> hb_update b (\<lambda>hb. hb\<lparr>hb_base_address := 0, hb_committed_size := 0\<rparr>) t; Some (True, s) })
    (\<lambda>r t. queue_ok t \<and> prewarm_state t = prewarm_state s \<and>
      bufs_like t = (if r then (bufs_like s)(b \<mapsto> settled (hb\<lparr>hb_base_address := 0, hb_committed_size := 0\<rparr>)) else bufs_like s))"
    using t hb'(1) update_buf [OF hb', of "\<lambda>hb. hb\<lparr>hb_base_address := 0, hb_committed_size := 0\<rparr>"]
    by (simp add: hb_update_def host_step_def settled_def)
qed simp

definition cut_down :: "env \<Rightarrow> host_buffer \<Rightarrow> u64 \<Rightarrow> host_buffer" where
  "cut_down E hb n = hb\<lparr>hb_size := n, hb_committed_size := min (ALIGN_UP n (hostbuf_page_size E)) (hb_committed_size hb)\<rparr>"

definition released :: "host_buffer \<Rightarrow> host_buffer" where
  "released hb = hb\<lparr>hb_base_address := 0, hb_committed_size := 0\<rparr>"

text \<open>
  A truncation cuts the buffer, and gives its addresses back when nothing is left of it; it refuses, or
  stops before anything of the buffer's record has changed, or fails to give the addresses back.
\<close>

definition truncated :: "env \<Rightarrow> nat \<Rightarrow> host_buffer \<Rightarrow> u64 \<Rightarrow> 'z hstate_scheme \<Rightarrow> bool \<Rightarrow> 'z hstate_scheme \<Rightarrow> bool" where
  "truncated E b hb n s r t \<longleftrightarrow> host_wf t \<and>
     (if r then n < hb_size hb \<and> bufs_like t = (bufs_like s)(b \<mapsto> settled (if n = 0 then released (cut_down E hb n) else cut_down E hb n))
      else bufs_like t = bufs_like s \<or>
        n = 0 \<and> n < hb_size hb \<and> bufs_like t = (bufs_like s)(b \<mapsto> settled (cut_down E hb n)))"

lemma wp_hostbuf_truncate_impl:
  assumes "host_wf s" "host_bufs s b = Some hb" "hb_ok E hb"
  shows "wp (hostbuf_truncate_impl E b n do_unregister s) (truncated E b hb n s)"
proof (cases "n \<ge> hb_size hb")
  case True
  then show ?thesis using assms by (simp add: hostbuf_truncate_impl_def truncated_def Let_def)
next
  case False
  have less: "n < hb_size hb" using False by simp
  have base: "hb_base_address hb \<noteq> 0" using assms(3) False by (auto simp: hb_ok_def word_le_nat_alt)
  have stop: "truncated E b hb n s False t" if "host_step s t" "pool_ok t" for t
    using that by (simp add: truncated_def host_wf_def host_step_def)
  have wf: "queue_ok s" "pool_ok s" using assms(1) by (simp_all add: host_wf_def)
  show ?thesis
    unfolding hostbuf_truncate_impl_def Let_def
  proof (rule wp_get [OF assms(2)], simp only: if_not_P [OF False], rule wp_step [OF wp_prewarm_join [OF wf(2)]])
    fix r and t :: "'a hstate_scheme"
    assume "r \<and> pool_step s t \<and> pw_remaining (prewarm_state t) = 0"
    then have t: "bufs_like t = bufs_like s" "queue_ok t" "pool_ok t" "host_bufs t b = Some hb"
      using wf(1) assms(2) same_bufs_queue same_bufs_like by (auto simp: pool_step_def same_bufs_def)
    let ?unreg = "if do_unregister then check_cu E (MemHostUnregister (hb_base_address hb + n)) t else Some (True, t)"
    have unreg: "wp ?unreg (\<lambda>r u. bufs_like u = bufs_like s \<and> queue_ok u \<and> pool_ok u \<and> host_bufs u b = Some hb)"
      using t by simp
    show "wp (do {
        (ok, s) \<leftarrow> ?unreg;
        if \<not> ok then Some (False, s)
        else do {
          (ok, s) \<leftarrow> (if ALIGN_UP n (hostbuf_page_size E) < hb_committed_size hb
            then decommit_range E b (hb_base_address hb) (ALIGN_UP n (hostbuf_page_size E)) (hb_committed_size hb) s else Some (True, s));
          if \<not> ok then Some (False, s)
          else do {
            s \<leftarrow> hb_update b (\<lambda>h. h\<lparr>hb_size := n, hb_committed_size := min (ALIGN_UP n (hostbuf_page_size E)) (hb_committed_size hb)\<rparr>) s;
            if n = 0 \<and> hb_base_address hb \<noteq> 0 then release_base E b s else Some (True, s) } } }) (truncated E b hb n s)"
    proof (rule wp_step [OF unreg], rule wp_branch)
      fix ok and u :: "'a hstate_scheme"
      assume u: "bufs_like u = bufs_like s \<and> queue_ok u \<and> pool_ok u \<and> host_bufs u b = Some hb"
      then show "wp (Some (False, u)) (truncated E b hb n s)" using wf by (simp add: truncated_def host_wf_def)
      let ?range = "if ALIGN_UP n (hostbuf_page_size E) < hb_committed_size hb
          then decommit_range E b (hb_base_address hb) (ALIGN_UP n (hostbuf_page_size E)) (hb_committed_size hb) u else Some (True, u)"
      have range: "wp ?range (\<lambda>_ v. host_step u v)" using u by (simp add: wp_decommit_range host_step_refl)
      show "wp (do {
          (ok, s) \<leftarrow> ?range;
          if \<not> ok then Some (False, s)
          else do {
            s \<leftarrow> hb_update b (\<lambda>h. h\<lparr>hb_size := n, hb_committed_size := min (ALIGN_UP n (hostbuf_page_size E)) (hb_committed_size hb)\<rparr>) s;
            if n = 0 \<and> hb_base_address hb \<noteq> 0 then release_base E b s else Some (True, s) } }) (truncated E b hb n s)"
      proof (rule wp_step [OF range], rule wp_branch)
        fix ok and v :: "'a hstate_scheme"
        assume v: "host_step u v"
        then have wv: "queue_ok v" "pool_ok v" "bufs_like v = bufs_like s" using u host_step_pool [OF v] by (auto simp: host_step_def)
        then show "wp (Some (False, v)) (truncated E b hb n s)" by (simp add: truncated_def host_wf_def)
        obtain h where h: "host_bufs v b = Some h" "settled h = settled hb"
          using bufs_like_SomeD [OF wv(3) assms(2)] by metis
        let ?f = "\<lambda>h. h\<lparr>hb_size := n, hb_committed_size := min (ALIGN_UP n (hostbuf_page_size E)) (hb_committed_size hb)\<rparr>"
        let ?w = "v\<lparr>host_bufs := (host_bufs v)(b \<mapsto> ?f h)\<rparr>"
        have w: "queue_ok ?w" "bufs_like ?w = (bufs_like s)(b \<mapsto> settled (cut_down E hb n))" "pool_ok ?w"
          using update_buf(1,2) [OF h, of ?f] wv by (simp_all add: settled_def cut_down_def pool_ok_def)
        show "wp (do {
            s \<leftarrow> hb_update b ?f v;
            if n = 0 \<and> hb_base_address hb \<noteq> 0 then release_base E b s else Some (True, s) }) (truncated E b hb n s)"
        proof (cases "n = 0")
          case False
          then show ?thesis using h(1) w less by (simp add: hb_update_def truncated_def host_wf_def)
        next
          case True
          have s: "settled (?f h\<lparr>hb_base_address := 0, hb_committed_size := 0\<rparr>) = settled (released (cut_down E hb n))"
            using h(2) by (simp add: settled_eq cut_down_def released_def)
          have "wp (release_base E b ?w) (truncated E b hb n s)"
          proof (rule wp_conseq [OF wp_release_base [OF w(1)]])
            show "host_bufs ?w b = Some (?f h)" by simp
            fix r and x :: "'a hstate_scheme"
            assume x: "queue_ok x \<and> prewarm_state x = prewarm_state ?w \<and>
              bufs_like x = (if r then (bufs_like ?w)(b \<mapsto> settled (?f h\<lparr>hb_base_address := 0, hb_committed_size := 0\<rparr>)) else bufs_like ?w)"
            have "pool_ok x = pool_ok ?w" using x by (simp only: pool_ok_def)
            moreover have "bufs_like x = (if r then (bufs_like s)(b \<mapsto> settled (released (cut_down E hb n))) else (bufs_like s)(b \<mapsto> settled (cut_down E hb n)))"
              using x unfolding s w(2) by (cases r) simp_all
            ultimately show "truncated E b hb n s r x"
              using True w(3) x less by (cases r) (simp_all add: truncated_def host_wf_def)
          qed
          then show ?thesis using h(1) True base by (simp add: hb_update_def)
        qed
      qed
    qed
  qed
qed

lemma settled_ok: "settled h = settled h' \<Longrightarrow> hb_ok E h = hb_ok E h'"
  by (simp add: settled_eq hb_ok_def)

text \<open>A cut buffer is well formed.\<close>

lemma cut_down_ok:
  assumes "pages_ok E" "hb_ok E hb" "n < hb_size hb" "unat (hb_reserved_size hb) < 2 ^ 62"
  shows "hb_ok E (cut_down E hb n)" "n = 0 \<Longrightarrow> hb_ok E (released (cut_down E hb n))"
proof -
  have "unat n < 2 ^ 63" using assms by (simp add: hb_ok_def word_le_nat_alt word_less_nat_alt)
  then have "n \<le> ALIGN_UP n (hostbuf_page_size E)" by (rule align_page(1) [OF assms(1)])
  then show "hb_ok E (cut_down E hb n)" using assms(2,3) by (auto simp: hb_ok_def cut_down_def min_def)
  then show "n = 0 \<Longrightarrow> hb_ok E (released (cut_down E hb n))" by (simp add: hb_ok_def released_def cut_down_def)
qed

lemma truncated_ok:
  assumes "truncated E b hb n s r t" "host_bufs s b = Some hb" "pages_ok E" "hb_ok E hb" "unat (hb_reserved_size hb) < 2 ^ 62"
  shows "\<exists>hb'. host_bufs t b = Some hb' \<and> hb_ok E hb'"
proof -
  have "bufs_like s b = Some (settled hb)" using assms(2) by (simp add: bufs_like_def)
  then have "bufs_like t b \<in> {Some (settled hb)} \<union>
      (if n < hb_size hb then {Some (settled (cut_down E hb n))} \<union> (if n = 0 then {Some (settled (released (cut_down E hb n)))} else {}) else {})"
    using assms(1) by (auto simp: truncated_def split: if_splits)
  then obtain h where h: "bufs_like t b = Some (settled h)" "hb_ok E h"
    using assms(4) cut_down_ok [OF assms(3,4) _ assms(5)] by (auto split: if_splits)
  obtain hb' where hb': "host_bufs t b = Some hb'" "settled hb' = settled h" using h(1) by (auto simp: bufs_like_def)
  then show ?thesis using settled_ok [OF hb'(2)] h(2) by blast
qed

lemma wp_hostbuf_free:
  assumes "host_wf s" "host_bufs s b = Some hb" "hb_ok E hb"
  shows "wp (hostbuf_free E (Some b) s) (\<lambda>_ t. host_wf t \<and> host_bufs t b = None \<and> jobs_of b (decommit_queue t) = 0 \<and>
    (\<forall>c. c \<noteq> b \<longrightarrow> bufs_like t c = bufs_like s c))"
  unfolding hostbuf_free_def option.case
proof (rule wp_step [OF wp_hostbuf_truncate_impl [OF assms]])
  fix r and t :: "'a hstate_scheme"
  assume "truncated E b hb 0 s r t"
  then have t: "host_wf t" "\<forall>c. c \<noteq> b \<longrightarrow> bufs_like t c = bufs_like s c" "bufs_like t b \<noteq> None"
  proof -
    assume tr: "truncated E b hb 0 s r t"
    then show "host_wf t" by (simp add: truncated_def)
    have "bufs_like s b \<noteq> None" using assms(2) by (simp add: bufs_like_def)
    then show "\<forall>c. c \<noteq> b \<longrightarrow> bufs_like t c = bufs_like s c" "bufs_like t b \<noteq> None"
      using tr by (auto simp: truncated_def split: if_splits)
  qed
  then have "queue_ok t" "host_bufs t b \<noteq> None" by (auto simp: host_wf_def bufs_like_def)
  from wp_decommit_wait [OF this, of E]
  show "wp (do { (_, s) \<leftarrow> hostbuf_decommit_wait E b t; Some ((), s\<lparr>host_bufs := (host_bufs s)(b := None)\<rparr>) })
    (\<lambda>_ t. host_wf t \<and> host_bufs t b = None \<and> jobs_of b (decommit_queue t) = 0 \<and> (\<forall>c. c \<noteq> b \<longrightarrow> bufs_like t c = bufs_like s c))"
  proof (rule wp_step)
    fix x :: unit and u :: "'a hstate_scheme"
    assume u: "queue_step t u \<and> (\<exists>hb. host_bufs u b = Some hb \<and> hb_pending hb = 0) \<and> jobs_of b (decommit_queue u) = 0"
    let ?v = "u\<lparr>host_bufs := (host_bufs u)(b := None)\<rparr>"
    have none: "dj_state j \<noteq> b" if "j \<in> set q" "jobs_of b q = 0" for j and q
      using that by (induction q) (auto split: if_splits)
    have "queue_ok ?v" using u none by (auto simp: queue_step_def queue_ok_def)
    moreover have "pool_ok ?v" using u t(1) by (simp add: queue_step_def pool_ok_def host_wf_def)
    moreover have "bufs_like ?v c = bufs_like s c" if "c \<noteq> b" for c
      using u t(2) that by (auto simp: queue_step_def bufs_like_def fun_eq_iff)
    ultimately show "wp (Some ((), ?v))
      (\<lambda>_ t. host_wf t \<and> host_bufs t b = None \<and> jobs_of b (decommit_queue t) = 0 \<and> (\<forall>c. c \<noteq> b \<longrightarrow> bufs_like t c = bufs_like s c))"
      using u by (simp add: host_wf_def)
  qed
qed

end
