(* ===== verification/DemoHost.thy ===== *)
theory DemoHost
  imports XferPlat HostStream HostBufInv DemoAlloc
begin

text \<open>
  Concrete states for the witnesses about transfers and host buffers: a transfer of five bytes by one
  worker, step by step, and a host buffer of two pages with a decommit job of another buffer in the queue.
\<close>

definition demo_client :: xfer_client where
  "demo_client = \<lparr>xc_file = 3, xc_offset = 4096, xc_buffer = 65536, xc_size = 5, xc_cold = False, xc_write = False, xc_done = 0\<rparr>"

definition demo_task :: xfer_task where
  "demo_task = \<lparr>xt_file = 3, xt_offset = 4096, xt_buffer = 65536, xt_size = 5, xt_cold = False, xt_write = False, xt_wait = 1\<rparr>"

definition demo_queued :: xfer where
  "demo_queued = pool_ready\<lparr>xf_ring := ring_push demo_task (xf_ring pool_ready),
     xf_clients := [1 \<mapsto> demo_client\<lparr>xc_done := 2097152\<rparr>], xf_waits := [1 \<mapsto> \<lparr>xw_pending = 1, xw_failed = False\<rparr>]\<rparr>"

definition demo_finished :: xfer where
  "demo_finished = demo_queued\<lparr>xf_ring := snd (ring_pop (xf_ring demo_queued)), xf_io := [(demo_task, True)],
     xf_waits := [1 \<mapsto> \<lparr>xw_pending = 0, xw_failed = False\<rparr>]\<rparr>"

lemma demo_queued_reachable [simp]: "xreachable demo_queued"
proof -
  let ?x = "pool_ready\<lparr>xf_clients := [1 \<mapsto> demo_client\<lparr>xc_done := 0\<rparr>], xf_waits := [1 \<mapsto> \<lparr>xw_pending = 1, xw_failed = False\<rparr>]\<rparr>"
  have "xfer_begin 1 demo_client pool_ready = Some ?x"
    by (simp add: xfer_begin_def pool_ready_def demo_client_def chunk_count_def)
  then have "xstep pool_ready ?x" by (rule xstep.begins) (simp_all add: demo_client_def pool_ready_def)
  then have "xreachable ?x" by (rule xreachable.step [OF xreachable.initial])
  moreover have "xfer_push 1 ?x = Some demo_queued"
    by (simp add: xfer_push_def demo_queued_def demo_client_def demo_task_def chunk_task_def pool_ready_def)
  ultimately show ?thesis using xreachable.step xstep.works xwork.push by blast
qed

lemma demo_finished_reachable [simp]: "xreachable demo_finished"
proof -
  let ?x = "demo_queued\<lparr>xf_ring := snd (ring_pop (xf_ring demo_queued)), xf_workers := (xf_workers demo_queued)[0 := Busy demo_task]\<rparr>"
  have "xfer_file_task_pop 0 demo_queued = Some ?x"
    by (simp add: xfer_file_task_pop_def demo_queued_def pool_ready_def ring_pop_def ring_push_def)
  then have "xreachable ?x" using xreachable.step xstep.works xwork.take_task demo_queued_reachable by blast
  moreover have "replicate XFER_FILE_THREADS Idle = Idle # replicate 7 Idle" by (simp add: numeral_eq_Suc)
  then have "xfer_settle 0 True ?x = Some demo_finished"
    by (simp add: xfer_settle_def demo_finished_def demo_queued_def pool_ready_def demo_task_def)
  ultimately show ?thesis using xreachable.step xstep.works xwork.settle by blast
qed

lemma demo_returns [simp]: "xfer_return 1 demo_finished = Some (True, demo_finished\<lparr>xf_clients := Map.empty, xf_waits := Map.empty\<rparr>)"
  by (simp add: xfer_return_def demo_finished_def demo_queued_def demo_client_def)

text \<open>A system that moves every byte asked for.\<close>

definition io_env :: "bool \<Rightarrow> env" where
  "io_env win = \<lparr>is_xpu = True, is_win = win, is_cuda = False, is_hip = False, async_reclaim = True, stream_reclaim = True,
     page_size = 4096, reserve_granularity = 65536,
     drv = (\<lambda>h c. case c of FileIo w fd at buf n \<Rightarrow> Resp (int (unat n)) 0 0 [] | _ \<Rightarrow> Resp 0 0 0 [])\<rparr>"

lemma io_env_live [simp]: "io_live (io_env win)"
  by (simp add: io_live_def io_bounded_def uninterrupted_def io_env_def)

text \<open>Buffer 5 has two pages committed in 1 MiB, buffer 6 is waiting for the decommit of a page.\<close>

definition demo_hb :: host_buffer where
  "demo_hb = \<lparr>hb_base_address = 2 ^ 44, hb_size = 8192, hb_committed_size = 8192, hb_reserved_size = 1048576,
     hb_last_chunk_size = 8192, hb_prewarm = 0, hb_pending = 0, hb_mark_cold = True\<rparr>"

definition demo_pool :: prewarm_pool where
  "demo_pool = \<lparr>pw_mutex = True, pw_conds = True, pw_threads = 6, pw_due = [3, 5], pw_ptr = 2 ^ 44, pw_generation = 1,
     pw_remaining = 2, pw_page_count = 2, pw_page_span = 1, pw_page_size = 4096\<rparr>"

definition demo_hstate :: hstate where
  "demo_hstate = astate.extend demo_astate (hstate.fields
     [5 \<mapsto> demo_hb, 6 \<mapsto> demo_hb\<lparr>hb_base_address := 2 ^ 45, hb_pending := 1\<rparr>] True True True
     [\<lparr>dj_state = 6, dj_ptr = 2 ^ 45 + 8192, dj_size = 4096, dj_release = False\<rparr>] 4096 demo_pool)"

lemma demo_hstate_sel [simp]:
  "host_bufs demo_hstate = [5 \<mapsto> demo_hb, 6 \<mapsto> demo_hb\<lparr>hb_base_address := 2 ^ 45, hb_pending := 1\<rparr>]"
  "decommit_queue demo_hstate = [\<lparr>dj_state = 6, dj_ptr = 2 ^ 45 + 8192, dj_size = 4096, dj_release = False\<rparr>]"
  "decommit_queued demo_hstate = 4096" "prewarm_state demo_hstate = demo_pool" "hist demo_hstate = [MemCreate 2097152 0]"
  "device_id demo_hstate = 0"
  by (simp_all add: demo_hstate_def demo_astate_def demo_state_def demo_ctx_def hstate.defs astate.defs rstate.defs mstate.defs
      vstate.defs gstate.defs ctx.defs)

lemma demo_hstate_wf [simp]: "host_wf demo_hstate"
  by (simp add: host_wf_def queue_ok_def pool_ok_def demo_hb_def demo_pool_def)

lemma demo_hb_ok [simp]: "hb_ok E demo_hb" "hb_pending demo_hb = 0" "hb_last_chunk_size demo_hb = 8192" "hb_size demo_hb = 8192"
  by (simp_all add: hb_ok_def demo_hb_def)

lemma happy_pages [simp]: "pages_ok (happy_env x w)"
  unfolding pages_ok_def by (rule exI [of _ 12]) simp

text \<open>
  A reallocation that fails drops the last chunk but keeps its recorded size. The next one then starts
  from a wrapped offset, 8 KiB in front of the buffer, and answers with that address.
\<close>

lemma stale_chunk_wraps:
  "\<exists>s t. hostbuf_extend (happy_env False False) (Some 5) 2097152 True False demo_hstate = Some ((0, - 8192), s) \<and>
     hostbuf_extend (happy_env False False) (Some 5) 16384 True False s = Some ((2 ^ 44 - 8192, - 8192), t)"
  by (simp add: hostbuf_extend_def hostbuf_decommit_wait_def drop_last_chunk_def hostbuf_grow_def hostbuf_base_def hb_update_def
      demo_hb_def host_grow_target_def ALIGN_UP_def hostbuf_page_size_def Let_def)

end
