(* ===== verification/XpuStubs.thy ===== *)
theory XpuStubs
  imports VbarApi
begin

text \<open>
  What the allocation hooks of the XPU build call (\<open>src-xpu/stubs.c\<close>): sampling, reclaim before and
  after an allocation, and the accounting of bytes that PyTorch owns. On Windows they run inside the
  allocator's call stack, so they only record the shortage for the owner of the VBARs; elsewhere they
  evict at once. \<open>size_t\<close> arguments become \<open>ssize_t\<close> by a cast, which is \<open>sint\<close>.
\<close>

definition set_devctx :: "int \<Rightarrow> 'z ctx_scheme \<Rightarrow> bool" where
  "set_devctx dev s \<longleftrightarrow> dev = device_id s"

definition aimdo_xpu_current_device :: "'z ctx_scheme \<Rightarrow> int" where
  "aimdo_xpu_current_device s = device_id s"

definition aimdo_xpu_recorded_usage :: "'z ctx_scheme \<Rightarrow> u64" where
  "aimdo_xpu_recorded_usage s = total_vram_usage s"

definition aimdo_xpu_sample_pressure :: "env \<Rightarrow> int \<Rightarrow> u64 \<Rightarrow> 'z ctx_scheme \<Rightarrow> (bool \<times> 'z ctx_scheme) option" where
  "aimdo_xpu_sample_pressure E dev n s =
     (if \<not> set_devctx dev s then Some (False, s)
      else if is_win E then do {
        (_, s) \<leftarrow> (if n \<ge> 1073741824 then aimdo_wddm_force_poll E s else Some ((), s));
        (_, s) \<leftarrow> poll_budget_deficit_win E s;
        Some (True, s) }
      else Some (True, s))"

definition aimdo_xpu_prepare_allocation :: "env \<Rightarrow> int \<Rightarrow> u64 \<Rightarrow> 'z vstate_scheme \<Rightarrow> (bool \<times> 'z vstate_scheme) option" where
  "aimdo_xpu_prepare_allocation E dev n s =
     (if \<not> set_devctx dev s then Some (False, s)
      else do {
        (deficit, s) \<leftarrow> budget_deficit E n s;
        if is_win E then Some (True, if deficit > 0 then vbars_request_reclaim deficit s else s)
        else vbars_free_for_allocator E deficit s })"

definition aimdo_xpu_retry_allocation :: "env \<Rightarrow> int \<Rightarrow> u64 \<Rightarrow> 'z vstate_scheme \<Rightarrow> (bool \<times> 'z vstate_scheme) option" where
  "aimdo_xpu_retry_allocation E dev n s =
     (if \<not> set_devctx dev s then Some (False, s)
      else if is_win E then do {
        (_, s) \<leftarrow> aimdo_wddm_force_poll E s;
        Some (True, vbars_request_reclaim (sint n) s) }
      else vbars_free_for_allocator E (sint n) s)"

text \<open>\<open>None\<close> for no; else the deficit.\<close>

definition aimdo_xpu_allocation_deficit :: "env \<Rightarrow> int \<Rightarrow> u64 \<Rightarrow> 'z ctx_scheme \<Rightarrow> (int option \<times> 'z ctx_scheme) option" where
  "aimdo_xpu_allocation_deficit E dev n s =
     (if \<not> set_devctx dev s then Some (None, s)
      else do { (deficit, s) \<leftarrow> budget_deficit E n s; Some (Some deficit, s) })"

definition aimdo_xpu_evict_for_allocation :: "env \<Rightarrow> int \<Rightarrow> int \<Rightarrow> 'z vstate_scheme \<Rightarrow> (bool \<times> 'z vstate_scheme) option" where
  "aimdo_xpu_evict_for_allocation E dev deficit s =
     (if \<not> set_devctx dev s then Some (False, s)
      else if deficit > 0 then
        if is_win E then Some (True, vbars_request_reclaim deficit s) else vbars_free_for_allocator E deficit s
      else Some (True, s))"

definition aimdo_xpu_account_allocation :: "int \<Rightarrow> int \<Rightarrow> 'z ctx_scheme \<Rightarrow> bool \<times> 'z ctx_scheme" where
  "aimdo_xpu_account_allocation dev delta s =
     (if \<not> set_devctx dev s then (False, s)
      else if delta \<ge> 0 then (True, s\<lparr>total_vram_usage := total_vram_usage s + of_int delta\<rparr>)
      else let released = of_int (- delta) in
        (True, s\<lparr>total_vram_usage := if released < total_vram_usage s then total_vram_usage s - released else 0\<rparr>))"

end
