(* ===== verification/CopyResidency.thy ===== *)
theory CopyResidency
  imports XpuStubs
begin

text \<open>
  Copies that name VBARs (\<open>aimdo_vbar_copy_acquire\<close> in \<open>src/model-vbar.c\<close>, \<open>src-xpu/ur-copy-residency.c\<close>).
  A copy that the hooked Unified Runtime submits may touch every mapped page of the reservations it
  names, so each of them is held (\<open>copy_holds\<close>) until the copy's event, or its queue, has completed. An
  owner records the held identities of one copy; the pending owners are a list, the latest first.

  One state is the context of one device, so an acquire looks at its VBARs only. A null handle is 0.
\<close>

abbreviation UINT32_MAX :: nat where "UINT32_MAX \<equiv> 4294967295"
abbreviation UR_RESULT_ERROR_OUT_OF_HOST_MEMORY :: int where "UR_RESULT_ERROR_OUT_OF_HOST_MEMORY \<equiv> 38"

subsection \<open>Holds\<close>

definition vbar_copy_overlaps :: "model_vbar \<Rightarrow> u64 \<Rightarrow> u64 \<Rightarrow> bool" where
  "vbar_copy_overlaps mv address n = (let bytes = of_nat (nr_pages mv) * VBAR_PAGE_SIZE in
     if n = 0 \<or> bytes = 0 then False
     else if address \<ge> vbar mv then address - vbar mv < bytes else vbar mv - address < n)"

definition copy_names :: "model_vbar \<Rightarrow> u64 \<Rightarrow> u64 \<Rightarrow> u64 \<Rightarrow> u64 \<Rightarrow> bool" where
  "copy_names mv dst dst_size src src_size \<longleftrightarrow> vbar_copy_overlaps mv dst dst_size \<or> vbar_copy_overlaps mv src src_size"

text \<open>The scan: \<open>Inr\<close> the identities held so far when it has to be rolled back.\<close>

definition copy_acquire_one ::
  "u64 \<Rightarrow> u64 \<Rightarrow> u64 \<Rightarrow> u64 \<Rightarrow> nat \<Rightarrow> nat \<Rightarrow> u64 list \<Rightarrow> 'z vstate_scheme \<Rightarrow> ((u64 list + u64 list) \<times> 'z vstate_scheme) option" where
  "copy_acquire_one dst dst_size src src_size capacity v ids s = do {
     mv \<leftarrow> vheap s v;
     if \<not> copy_names mv dst dst_size src src_size then Some (Inl ids, s)
     else if closing mv \<or> copy_holds mv = UINT32_MAX \<or> length ids = capacity then Some (Inr ids, s)
     else Some (Inl (ids @ [identity mv]), upd_vbar v (\<lambda>mv. mv\<lparr>copy_holds := copy_holds mv + 1\<rparr>) s) }"

definition copy_rollback_one :: "u64 \<Rightarrow> 'z vstate_scheme \<Rightarrow> (unit \<times> 'z vstate_scheme) option" where
  "copy_rollback_one ident s = Some ((), case vbar_find_identity_locked ident s of
      None \<Rightarrow> s
    | Some v \<Rightarrow> upd_vbar v (\<lambda>mv. mv\<lparr>copy_holds := copy_holds mv - 1\<rparr>) s)"

text \<open>The identities held, or \<open>None\<close> for the answer -1.\<close>

definition aimdo_vbar_copy_acquire ::
  "env \<Rightarrow> u64 \<Rightarrow> u64 \<Rightarrow> u64 \<Rightarrow> u64 \<Rightarrow> nat \<Rightarrow> 'z vstate_scheme \<Rightarrow> (u64 list option \<times> 'z vstate_scheme) option" where
  "aimdo_vbar_copy_acquire E dst dst_size src src_size capacity s = do {
     (locked, s) \<leftarrow> vbar_state_try_lock E s;
     if \<not> locked then Some (None, s)
     else do {
       (r, s) \<leftarrow> foreach (copy_acquire_one dst dst_size src src_size capacity) (vorder s) [] s;
       (_, s) \<leftarrow> (case r of Inl _ \<Rightarrow> Some ((), s) | Inr ids \<Rightarrow> each copy_rollback_one ids s);
       (_, s) \<leftarrow> vbar_state_unlock E s;
       Some (case r of Inl ids \<Rightarrow> Some ids | Inr _ \<Rightarrow> None, s) } }"

subsection \<open>Owners\<close>

record copy_owner =
  co_reservations :: "u64 list"
  co_queue :: u64
  co_event :: u64
  co_complete :: bool
  co_require_queue_wait :: bool

datatype copy_stat = CopyTracked | CopyCompleted | CopyPending | CopyFailed | CopyPolls

record cstate = vstate +
  pending_copies :: "copy_owner list"
  copy_stats :: "copy_stat \<Rightarrow> u64"
  copy_hook_attached :: bool

definition copy_stat_add :: "copy_stat \<Rightarrow> u64 \<Rightarrow> 'z cstate_scheme \<Rightarrow> 'z cstate_scheme" where
  "copy_stat_add k n s = s\<lparr>copy_stats := (copy_stats s)(k := copy_stats s k + n)\<rparr>"

definition keep_copy :: "copy_owner \<Rightarrow> 'z cstate_scheme \<Rightarrow> 'z cstate_scheme" where
  "keep_copy owner s = s\<lparr>pending_copies := owner # pending_copies s\<rparr>"

definition release_copy :: "env \<Rightarrow> copy_owner \<Rightarrow> 'z cstate_scheme \<Rightarrow> (unit \<times> 'z cstate_scheme) option" where
  "release_copy E owner s = do {
     (_, s) \<leftarrow> aimdo_vbar_copy_release E (co_reservations owner) s;
     (_, s) \<leftarrow> (if co_event owner \<noteq> 0 then do { (_, s) \<leftarrow> ask E (UrEventRelease (co_event owner)) s; Some ((), s) } else Some ((), s));
     (_, s) \<leftarrow> (if co_queue owner \<noteq> 0 then do { (_, s) \<leftarrow> ask E (UrQueueRelease (co_queue owner)) s; Some ((), s) } else Some ((), s));
     Some ((), copy_stat_add CopyPending (- 1) (copy_stat_add CopyCompleted 1 s)) }"

text \<open>\<open>prepare_copy\<close>: refused, or not tracked, or the owner.\<close>

datatype prepared = Refused | Untracked | Tracked copy_owner

definition prepare_copy ::
  "env \<Rightarrow> u64 \<Rightarrow> u64 \<Rightarrow> u64 \<Rightarrow> u64 \<Rightarrow> u64 \<Rightarrow> 'z cstate_scheme \<Rightarrow> (prepared \<times> 'z cstate_scheme) option" where
  "prepare_copy E queue dst dst_size src src_size s = do {
     (r, s) \<leftarrow> ask E HostAlloc s;
     if r_rc r \<noteq> 0 then Some (Refused, s)
     else do {
       (ids, s) \<leftarrow> aimdo_vbar_copy_acquire E dst dst_size src src_size 2 s;
       case ids of
         None \<Rightarrow> Some (Refused, s)
       | Some [] \<Rightarrow> Some (Untracked, s)
       | Some ids \<Rightarrow> do {
           let owner = \<lparr>co_reservations = ids, co_queue = 0, co_event = 0, co_complete = False, co_require_queue_wait = False\<rparr>;
           let s = copy_stat_add CopyPending 1 (copy_stat_add CopyTracked 1 s);
           (r, s) \<leftarrow> ask E (UrQueueRetain queue) s;
           if r_rc r \<noteq> 0 then Some (Refused, keep_copy (owner\<lparr>co_complete := True\<rparr>) s)
           else Some (Tracked (owner\<lparr>co_queue := queue\<rparr>), s) } } }"

text \<open>\<open>wants\<close>: the caller asked for the event.\<close>

definition finish_copy :: "env \<Rightarrow> copy_owner \<Rightarrow> int \<Rightarrow> bool \<Rightarrow> u64 \<Rightarrow> bool \<Rightarrow> 'z cstate_scheme \<Rightarrow> (unit \<times> 'z cstate_scheme) option" where
  "finish_copy E owner result blocking submitted wants s = do {
     (own, s) \<leftarrow> (if submitted = 0 then Some (False, s)
       else if \<not> wants then Some (True, s)
       else do { (r, s) \<leftarrow> ask E (UrEventRetain submitted) s; Some (r_rc r = 0, s) });
     let owner = owner\<lparr>co_event := if own then submitted else co_event owner,
                       co_complete := (result = 0 \<and> blocking), co_require_queue_wait := (result \<noteq> 0)\<rparr>;
     let s = (if result \<noteq> 0 then copy_stat_add CopyFailed 1 s else s);
     Some ((), keep_copy owner s) }"

text \<open>
  A hooked submission: the copy or fill proper is \<open>UrEnqueue\<close>, whose answer is the result and the event.
\<close>

definition tracked_submit ::
  "env \<Rightarrow> u64 \<Rightarrow> bool \<Rightarrow> u64 \<Rightarrow> u64 \<Rightarrow> u64 \<Rightarrow> u64 \<Rightarrow> bool \<Rightarrow> 'z cstate_scheme \<Rightarrow> ((int \<times> u64) \<times> 'z cstate_scheme) option" where
  "tracked_submit E queue blocking dst dst_size src src_size wants s = do {
     (tracked, s) \<leftarrow> prepare_copy E queue dst dst_size src src_size s;
     case tracked of
       Refused \<Rightarrow> Some ((UR_RESULT_ERROR_OUT_OF_HOST_MEMORY, 0), s)
     | Untracked \<Rightarrow> do { (r, s) \<leftarrow> ask E (UrEnqueue queue blocking) s; Some ((r_rc r, r_val r), s) }
     | Tracked owner \<Rightarrow> do {
         (r, s) \<leftarrow> ask E (UrEnqueue queue blocking) s;
         (_, s) \<leftarrow> finish_copy E owner (r_rc r) blocking (r_val r) wants s;
         Some ((r_rc r, r_val r), s) } }"

definition tracked_copy ::
  "env \<Rightarrow> u64 \<Rightarrow> bool \<Rightarrow> u64 \<Rightarrow> u64 \<Rightarrow> u64 \<Rightarrow> bool \<Rightarrow> 'z cstate_scheme \<Rightarrow> ((int \<times> u64) \<times> 'z cstate_scheme) option" where
  "tracked_copy E queue blocking dst src n wants s = tracked_submit E queue blocking dst n src n wants s"

definition pitch_overflow :: "u64 \<Rightarrow> u64 \<Rightarrow> bool" where
  "pitch_overflow pitch height \<longleftrightarrow> height \<noteq> 0 \<and> pitch > (- 1) div height"

definition tracked_copy_2d ::
  "env \<Rightarrow> u64 \<Rightarrow> bool \<Rightarrow> u64 \<Rightarrow> u64 \<Rightarrow> u64 \<Rightarrow> u64 \<Rightarrow> u64 \<Rightarrow> bool \<Rightarrow> 'z cstate_scheme \<Rightarrow> ((int \<times> u64) \<times> 'z cstate_scheme) option" where
  "tracked_copy_2d E queue blocking dst dst_pitch src src_pitch height wants s =
     (if pitch_overflow dst_pitch height \<or> pitch_overflow src_pitch height
      then Some ((UR_RESULT_ERROR_OUT_OF_HOST_MEMORY, 0), s)
      else tracked_submit E queue blocking dst (dst_pitch * height) src (src_pitch * height) wants s)"

definition tracked_fill ::
  "env \<Rightarrow> u64 \<Rightarrow> u64 \<Rightarrow> u64 \<Rightarrow> bool \<Rightarrow> 'z cstate_scheme \<Rightarrow> ((int \<times> u64) \<times> 'z cstate_scheme) option" where
  "tracked_fill E queue dst n wants s = tracked_submit E queue False dst n 0 0 wants s"

definition tracked_fill_2d ::
  "env \<Rightarrow> u64 \<Rightarrow> u64 \<Rightarrow> u64 \<Rightarrow> u64 \<Rightarrow> bool \<Rightarrow> 'z cstate_scheme \<Rightarrow> ((int \<times> u64) \<times> 'z cstate_scheme) option" where
  "tracked_fill_2d E queue dst pitch height wants s =
     (if pitch_overflow pitch height then Some ((UR_RESULT_ERROR_OUT_OF_HOST_MEMORY, 0), s)
      else tracked_submit E queue False dst (pitch * height) 0 0 wants s)"

subsection \<open>The poll\<close>

text \<open>Whether the copy of an owner has completed, by waiting for it if asked to.\<close>

definition copy_completed :: "env \<Rightarrow> bool \<Rightarrow> copy_owner \<Rightarrow> 'z cstate_scheme \<Rightarrow> (bool \<times> 'z cstate_scheme) option" where
  "copy_completed E wait owner s =
     (if co_complete owner then Some (True, s)
      else if wait then do {
        (r, s) \<leftarrow> ask E (if co_event owner \<noteq> 0 \<and> \<not> co_require_queue_wait owner then UrEventWait (co_event owner)
                      else UrQueueFinish (co_queue owner)) s;
        Some (r_rc r = 0, s) }
      else if co_event owner \<noteq> 0 \<and> \<not> co_require_queue_wait owner then do {
        (r, s) \<leftarrow> ask E (UrEventStatus (co_event owner)) (copy_stat_add CopyPolls 1 s);
        Some (r_rc r = 0 \<and> r_val r = 0, s) }
      else Some (False, s))"

definition poll_one :: "env \<Rightarrow> bool \<Rightarrow> copy_owner \<Rightarrow> bool \<Rightarrow> 'z cstate_scheme \<Rightarrow> ((bool + unit) \<times> 'z cstate_scheme) option" where
  "poll_one E wait owner success s = do {
     (complete, s) \<leftarrow> copy_completed E wait owner s;
     (_, s) \<leftarrow> (if complete then release_copy E owner s else Some ((), keep_copy owner s));
     Some (Inl (success \<and> (complete \<or> \<not> wait)), s) }"

definition aimdo_xpu_copy_residency_poll :: "env \<Rightarrow> bool \<Rightarrow> 'z cstate_scheme \<Rightarrow> (bool \<times> 'z cstate_scheme) option" where
  "aimdo_xpu_copy_residency_poll E wait s = do {
     (r, s) \<leftarrow> foreach (poll_one E wait) (pending_copies s) True (s\<lparr>pending_copies := []\<rparr>);
     Some (r = Inl True, s) }"

definition xpu_copy_residency_get_stats :: "'z cstate_scheme \<Rightarrow> nat \<Rightarrow> u64 list option" where
  "xpu_copy_residency_get_stats s count = (if count < 5 then None
     else Some (map (copy_stats s) [CopyTracked, CopyCompleted, CopyPending, CopyFailed, CopyPolls]))"

subsection \<open>Installing and removing the hooks\<close>

text \<open>\<open>Detour\<close> steps: 0 begin (and the thread), 1 attach, 2 detach, 3 commit, 4 abort; the entry points are numbered.\<close>

definition detour_all :: "env \<Rightarrow> nat \<Rightarrow> nat list \<Rightarrow> 'z base_scheme \<Rightarrow> (bool \<times> 'z base_scheme) option" where
  "detour_all E step entries s = do {
     (r, s) \<leftarrow> foreach (\<lambda>k _ s. do {
       (r, s) \<leftarrow> ask E (Detour step k) s;
       Some (if r_rc r = 0 then Inl () else Inr (), s) }) entries () s;
     Some (r = Inl (), s) }"

definition detour_transaction :: "env \<Rightarrow> nat \<Rightarrow> nat list \<Rightarrow> 'z base_scheme \<Rightarrow> (bool \<times> 'z base_scheme) option" where
  "detour_transaction E step entries s = do {
     (_, s) \<leftarrow> ask E (Detour 0 0) s;
     (ok, s) \<leftarrow> detour_all E step entries s;
     if \<not> ok then do { (_, s) \<leftarrow> ask E (Detour 4 0) s; Some (False, s) }
     else do { (r, s) \<leftarrow> ask E (Detour 3 0) s; Some (r_rc r = 0, s) } }"

definition lookup_symbols :: "env \<Rightarrow> u64 \<Rightarrow> nat list \<Rightarrow> 'z base_scheme \<Rightarrow> ((bool + unit) \<times> 'z base_scheme) option" where
  "lookup_symbols E loader = (\<lambda>ks. foreach (\<lambda>k all s. do {
     (r, s) \<leftarrow> ask E (LookupSymbol loader k) s;
     Some (Inl (all \<and> r_val r \<noteq> 0), s) }) ks True)"

text \<open>\<open>FindModule\<close>: 0 the proxy loader, 1 \<open>ur_loader.dll\<close> by its name, 2 what the proxy preloaded.\<close>

definition resolve_ur_loader :: "env \<Rightarrow> 'z base_scheme \<Rightarrow> (u64 \<times> 'z base_scheme) option" where
  "resolve_ur_loader E s = do {
     (proxy, s) \<leftarrow> ask E (FindModule 0) s;
     (by_name, s) \<leftarrow> ask E (FindModule 1) s;
     (from_proxy, s) \<leftarrow> (if r_val proxy \<noteq> 0 then do {
         (get_lib, s) \<leftarrow> ask E (LookupSymbol (r_val proxy) 15) s;
         if r_val get_lib \<noteq> 0 then do { (r, s) \<leftarrow> ask E (FindModule 2) s; Some (r_val r, s) } else Some (0, s) }
       else Some (0, s));
     Some (if from_proxy \<noteq> 0 then from_proxy else r_val by_name, s) }"

definition aimdo_xpu_ur_loader :: "env \<Rightarrow> 'z base_scheme \<Rightarrow> (u64 \<times> 'z base_scheme) option" where
  "aimdo_xpu_ur_loader E s = resolve_ur_loader E s"

definition aimdo_xpu_copy_residency_install :: "env \<Rightarrow> 'z cstate_scheme \<Rightarrow> (bool \<times> 'z cstate_scheme) option" where
  "aimdo_xpu_copy_residency_install E s =
     (if copy_hook_attached s then Some (True, s)
      else do {
        (r, s) \<leftarrow> ask E (Getenv 0) s;
        if r_rc r = 0 then Some (True, s)
        else do {
          (loader, s) \<leftarrow> aimdo_xpu_ur_loader E s;
          if loader = 0 then Some (False, s)
          else do {
            (r, s) \<leftarrow> lookup_symbols E loader [0..<11] s;
            if r \<noteq> Inl True then Some (False, s)
            else do {
              (ok, s) \<leftarrow> detour_transaction E 1 [0, 1, 2, 3] s;
              Some (ok, if ok then s\<lparr>copy_hook_attached := True\<rparr> else s) } } } })"

definition aimdo_xpu_copy_residency_remove :: "env \<Rightarrow> 'z cstate_scheme \<Rightarrow> (unit \<times> 'z cstate_scheme) option" where
  "aimdo_xpu_copy_residency_remove E s =
     (if \<not> copy_hook_attached s then Some ((), s)
      else do {
        (ok, s) \<leftarrow> aimdo_xpu_copy_residency_poll E True s;
        if \<not> ok then Some ((), s)
        else do {
          (ok, s) \<leftarrow> detour_transaction E 2 [0, 1, 2, 3] s;
          Some ((), if ok then s\<lparr>copy_hook_attached := False\<rparr> else s) } })"

end
