(* ===== verification/CopyInv.thy ===== *)
theory CopyInv
  imports CopyResidency VbarApiInv "HOL-Library.Multiset"
begin

text \<open>
  What the holds of copies guarantee: an acquire is all or nothing, and the holds of a VBAR are at every
  moment exactly the reservations of the pending owners that name it, so that none is given back before
  its copy was seen to complete.
\<close>

definition reholds :: "(model_vbar \<Rightarrow> nat) \<Rightarrow> (nat \<rightharpoonup> model_vbar) \<Rightarrow> (nat \<rightharpoonup> model_vbar)" where
  "reholds g m = (\<lambda>v. map_option (\<lambda>mv. mv\<lparr>copy_holds := g mv\<rparr>) (m v))"

text \<open>Only holds have changed, as \<open>g\<close> says.\<close>

definition reheld :: "(model_vbar \<Rightarrow> nat) \<Rightarrow> 'z vstate_scheme \<Rightarrow> 'z vstate_scheme \<Rightarrow> bool" where
  "reheld g s t \<longleftrightarrow> vheap t = reholds g (vheap s) \<and> vorder t = vorder s \<and> vnext t = vnext s \<and>
     vbar_identity_counter t = vbar_identity_counter s \<and> vstate.more t = vstate.more s"

lemma reheld_refl [simp]: "reheld copy_holds s s"
  by (simp add: reheld_def reholds_def option.map_ident)

lemma reheld_trans:
  assumes "reheld g s t" "reheld h t u" "\<And>mv. h (mv\<lparr>copy_holds := g mv\<rparr>) = k mv"
  shows "reheld k s u"
  using assms by (simp add: reheld_def reholds_def option.map_comp comp_def fun_eq_iff)

lemma reheld_vinv: "reheld g s t \<Longrightarrow> vinv E s \<Longrightarrow> vinv E t"
  by (auto simp: reheld_def reholds_def vinv_def vbar_ok_def option.map_comp comp_def dom_def inj_on_def)

lemma reheld_base [simp]:
  "reheld g s (t\<lparr>hist := h\<rparr>) = reheld g s t" "reheld g s (t\<lparr>vbar_lock_depth := d\<rparr>) = reheld g s t"
  "reheld g (s\<lparr>hist := h\<rparr>) t = reheld g s t" "reheld g (s\<lparr>vbar_lock_depth := d\<rparr>) t = reheld g s t"
  by (simp_all add: reheld_def)

lemma find_identity:
  assumes "vinv E s" "vheap s v = Some mv"
  shows "vbar_find_identity_locked (identity mv) s = Some v"
proof -
  have "v \<in> set (vorder s)" using assms by (auto simp: vinv_def)
  then obtain w where w: "vbar_find_identity_locked (identity mv) s = Some w"
    using assms(2) by (cases "vbar_find_identity_locked (identity mv) s") (auto simp: vbar_find_identity_locked_def find_None_iff)
  then obtain mw where mw: "vheap s w = Some mw" "identity mw = identity mv" using vbar_find_identity_Some by blast
  then have "w = v" using assms unfolding vinv_def inj_on_def by (metis domI option.simps(9))
  then show ?thesis using w by simp
qed

lemma find_identity_None:
  "vbar_find_identity_locked ident s = None \<Longrightarrow> vinv E s \<Longrightarrow> vheap s v = Some mv \<Longrightarrow> identity mv \<noteq> ident"
  using find_identity by fastforce

text \<open>An update of the holds of the VBAR with an identity.\<close>

lemma rehold_identity:
  assumes "vinv E s"
  shows "reheld (\<lambda>mv. if identity mv = ident then g mv else copy_holds mv) s
    (case vbar_find_identity_locked ident s of None \<Rightarrow> s | Some v \<Rightarrow> upd_vbar v (\<lambda>mv. mv\<lparr>copy_holds := g mv\<rparr>) s)"
proof (cases "vbar_find_identity_locked ident s")
  case None
  have "vheap s w = reholds (\<lambda>mv. if identity mv = ident then g mv else copy_holds mv) (vheap s) w" for w
    using find_identity_None [OF None assms, of w] by (cases "vheap s w") (auto simp: reholds_def)
  then show ?thesis using None by (simp add: reheld_def fun_eq_iff)
next
  case (Some v)
  then obtain mv where mv: "vheap s v = Some mv" "identity mv = ident" using vbar_find_identity_Some by blast
  have other: "w \<noteq> v \<Longrightarrow> vheap s w = Some mw \<Longrightarrow> identity mw \<noteq> ident" for w mw
    using find_identity [OF assms, of w mw] Some by auto
  have "vheap (upd_vbar v (\<lambda>mv. mv\<lparr>copy_holds := g mv\<rparr>) s) w
      = reholds (\<lambda>mv. if identity mv = ident then g mv else copy_holds mv) (vheap s) w" for w
  proof (cases "w = v")
    case False
    then show ?thesis using other [of w] by (cases "vheap s w") (auto simp: upd_vbar_def reholds_def)
  qed (use mv in \<open>simp add: upd_vbar_def reholds_def\<close>)
  then show ?thesis using Some by (simp add: reheld_def upd_vbar_def fun_eq_iff)
qed

text \<open>The calls and the lock depth are not touched either.\<close>

definition calm :: "'z ctx_scheme \<Rightarrow> 'z ctx_scheme \<Rightarrow> bool" where
  "calm s t \<longleftrightarrow> hist t = hist s \<and> vbar_lock_depth t = vbar_lock_depth s"

lemma calm_refl [simp]: "calm s s"
  by (simp add: calm_def)

lemma calm_trans: "calm s t \<Longrightarrow> calm t u \<Longrightarrow> calm s u"
  by (simp add: calm_def)

lemma calm_vheap [simp]: "calm s (upd_vbar v f s)"
  by (simp add: calm_def upd_vbar_def)

subsection \<open>Release\<close>

abbreviation (input) given_back :: "u64 list \<Rightarrow> model_vbar \<Rightarrow> nat" where
  "given_back ids \<equiv> \<lambda>mv. copy_holds mv - count_list ids (identity mv)"

lemma rehold_one:
  assumes "vinv E s"
  shows "reheld (given_back [ident]) s (case vbar_find_identity_locked ident s of
    None \<Rightarrow> s | Some v \<Rightarrow> upd_vbar v (\<lambda>mv. mv\<lparr>copy_holds := copy_holds mv - 1\<rparr>) s)"
proof -
  have "(\<lambda>mv. if identity mv = ident then copy_holds mv - 1 else copy_holds mv) = given_back [ident]"
    by (auto simp: fun_eq_iff)
  then show ?thesis using rehold_identity [OF assms, of ident "\<lambda>mv. copy_holds mv - 1"] by metis
qed

lemma wp_copy_rollback_one:
  assumes "vinv E s"
  shows "wp (copy_rollback_one ident s) (\<lambda>_ t. reheld (given_back [ident]) s t \<and> calm s t)"
  unfolding copy_rollback_one_def wp_Some
  by (rule conjI, rule rehold_one [OF assms]) (simp split: option.split)

lemma copy_release_one_rollback: "copy_release_one ident s = copy_rollback_one ident s"
proof -
  have "(\<lambda>mv :: model_vbar. if copy_holds mv \<noteq> 0 then mv\<lparr>copy_holds := copy_holds mv - 1\<rparr> else mv)
      = (\<lambda>mv. mv\<lparr>copy_holds := copy_holds mv - 1\<rparr>)"
    by (auto simp: fun_eq_iff)
  then show ?thesis by (simp add: copy_release_one_def copy_rollback_one_def split: option.split)
qed

lemma wp_each_rollback:
  assumes "vinv E s"
  shows "wp (each copy_rollback_one ids s) (\<lambda>_ t. reheld (given_back ids) s t \<and> calm s t)"
  using assms
proof (induction ids arbitrary: s)
  case Nil
  then show ?case by simp
next
  case (Cons x xs)
  show ?case
    unfolding each.simps
  proof (rule wp_step [OF wp_copy_rollback_one [OF Cons.prems]])
    fix a t
    assume t: "reheld (given_back [x]) s t \<and> calm s t"
    show "wp (each copy_rollback_one xs t) (\<lambda>_ u. reheld (given_back (x # xs)) s u \<and> calm s u)"
    proof (rule wp_conseq [OF Cons.IH [OF reheld_vinv [OF conjunct1 [OF t] Cons.prems]]])
      fix b u
      assume u: "reheld (given_back xs) t u \<and> calm t u"
      have "reheld (given_back (x # xs)) s u"
        by (rule reheld_trans [OF conjunct1 [OF t] conjunct1 [OF u]]) simp
      then show "reheld (given_back (x # xs)) s u \<and> calm s u" using t u calm_trans by blast
    qed
  qed
qed

lemma wp_copy_release:
  assumes "vinv E s"
  shows "wp (aimdo_vbar_copy_release E ids s) (\<lambda>_ t. reheld (given_back ids) s t \<and> calm s t)"
proof -
  have r: "copy_release_one = (copy_rollback_one :: u64 \<Rightarrow> 'a vstate_scheme \<Rightarrow> _)"
    by (intro ext) (rule copy_release_one_rollback)
  have "vinv E (s\<lparr>vbar_lock_depth := d\<rparr>)" for d using assms by (simp add: vinv_def)
  note each = wp_each_rollback [OF this, of ids]
  show ?thesis
    unfolding aimdo_vbar_copy_release_def r
    by (cases "winxpu E") (auto simp: calm_def intro!: wp_conseq [OF each] wp_conseq [OF wp_each_rollback [OF assms]])
qed

subsection \<open>Acquire\<close>

abbreviation (input) added :: "u64 list \<Rightarrow> model_vbar \<Rightarrow> nat" where
  "added ids \<equiv> \<lambda>mv. copy_holds mv + count_list ids (identity mv)"

lemma copy_names_holds [simp]: "copy_names (mv\<lparr>copy_holds := n\<rparr>) d dn r rn = copy_names mv d dn r rn"
  by (simp add: copy_names_def vbar_copy_overlaps_def)

lemma vinv_identity:
  "vinv E s \<Longrightarrow> vheap s v = Some mv \<Longrightarrow> vheap s w = Some mw \<Longrightarrow> identity mv = identity mw \<Longrightarrow> v = w"
  using find_identity [of E s v mv] find_identity [of E s w mw] by simp

text \<open>The scan so far: \<open>xs\<close> are still to be seen and \<open>ids\<close> are held.\<close>

definition scanned :: "(model_vbar \<Rightarrow> bool) \<Rightarrow> nat \<Rightarrow> 'z vstate_scheme \<Rightarrow> nat list \<Rightarrow> u64 list \<Rightarrow> 'z vstate_scheme \<Rightarrow> bool" where
  "scanned N capacity s xs ids t \<longleftrightarrow> reheld (added ids) s t \<and> calm s t \<and> distinct xs \<and> set xs \<subseteq> dom (vheap s) \<and>
     distinct ids \<and> length ids \<le> capacity \<and>
     (\<forall>v mv. vheap s v = Some mv \<longrightarrow> (identity mv \<in> set ids \<longleftrightarrow> v \<notin> set xs \<and> N mv)) \<and>
     (\<forall>v mv. vheap s v = Some mv \<longrightarrow> identity mv \<in> set ids \<longrightarrow> \<not> closing mv)"

lemma wp_copy_acquire_one:
  assumes "vinv E s" "scanned (\<lambda>mv. copy_names mv d dn r rn) capacity s (v # xs) ids t"
  shows "wp (copy_acquire_one d dn r rn capacity v ids t) (\<lambda>res u. case res of
    Inl ids \<Rightarrow> scanned (\<lambda>mv. copy_names mv d dn r rn) capacity s xs ids u
  | Inr ids \<Rightarrow> reheld (added ids) s u \<and> calm s u)"
proof -
  let ?N = "\<lambda>mv. copy_names mv d dn r rn"
  from assms(2) have t: "reheld (added ids) s t" "calm s t" "distinct (v # xs)" "set (v # xs) \<subseteq> dom (vheap s)"
    "distinct ids" "length ids \<le> capacity"
    and who: "\<And>w mw. vheap s w = Some mw \<Longrightarrow> (identity mw \<in> set ids \<longleftrightarrow> w \<notin> set (v # xs) \<and> ?N mw)"
    and lively: "\<And>w mw. vheap s w = Some mw \<Longrightarrow> identity mw \<in> set ids \<Longrightarrow> \<not> closing mw"
    unfolding scanned_def by blast+
  from t(4) obtain mv where mv: "vheap s v = Some mv" by auto
  have tv: "vheap t v = Some (mv\<lparr>copy_holds := added ids mv\<rparr>)"
    using t(1) mv by (simp add: reheld_def reholds_def)
  have vt: "vinv E t" using reheld_vinv [OF t(1) assms(1)] .
  show ?thesis
    unfolding copy_acquire_one_def
  proof (rule wp_get [OF tv], rule wp_branch)
    assume "\<not> copy_names (mv\<lparr>copy_holds := added ids mv\<rparr>) d dn r rn"
    then have "?N mv = False" by simp
    then have "(identity mw \<in> set ids) = (w \<notin> set xs \<and> ?N mw)" if "vheap s w = Some mw" for w mw
      using who [OF that] mv that by (cases "w = v") auto
    then show "wp (Some (Inl ids, t)) (\<lambda>res u. case res of Inl ids \<Rightarrow> scanned ?N capacity s xs ids u
        | Inr ids \<Rightarrow> reheld (added ids) s u \<and> calm s u)"
      using t lively by (simp add: scanned_def)
  next
    assume "\<not> \<not> copy_names (mv\<lparr>copy_holds := added ids mv\<rparr>) d dn r rn"
    then have named: "?N mv" by simp
    show "wp (if closing (mv\<lparr>copy_holds := added ids mv\<rparr>) \<or> copy_holds (mv\<lparr>copy_holds := added ids mv\<rparr>) = UINT32_MAX \<or> length ids = capacity
          then Some (Inr ids, t)
          else Some (Inl (ids @ [identity (mv\<lparr>copy_holds := added ids mv\<rparr>)]), upd_vbar v (\<lambda>mv. mv\<lparr>copy_holds := copy_holds mv + 1\<rparr>) t))
        (\<lambda>res u. case res of Inl ids \<Rightarrow> scanned ?N capacity s xs ids u | Inr ids \<Rightarrow> reheld (added ids) s u \<and> calm s u)"
    proof (rule wp_branch, goal_cases)
      case 1
      then show ?case using t by simp
    next
      case 2
      have fv: "vbar_find_identity_locked (identity mv) t = Some v" using find_identity [OF vt tv] by simp
      have h: "reheld (\<lambda>mw. if identity mw = identity mv then copy_holds mw + 1 else copy_holds mw) t
          (upd_vbar v (\<lambda>mv. mv\<lparr>copy_holds := copy_holds mv + 1\<rparr>) t)"
        using rehold_identity [OF vt, of "identity mv" "\<lambda>mv. copy_holds mv + 1"] fv by simp
      have u: "reheld (added (ids @ [identity mv])) s (upd_vbar v (\<lambda>mv. mv\<lparr>copy_holds := copy_holds mv + 1\<rparr>) t)"
        by (rule reheld_trans [OF t(1) h]) simp
      have new: "identity mv \<notin> set ids" using who [OF mv] by simp
      have ids: "(identity mw \<in> set (ids @ [identity mv])) = (w \<notin> set xs \<and> ?N mw)" if w: "vheap s w = Some mw" for w mw
      proof (cases "w = v")
        case True
        then show ?thesis using w mv named t(3) by simp
      next
        case False
        then have "identity mw \<noteq> identity mv" using vinv_identity [OF assms(1) w mv] by blast
        then show ?thesis using who [OF w] False by simp
      qed
      have quiet: "\<not> closing mw" if w: "vheap s w = Some mw" "identity mw \<in> set (ids @ [identity mv])" for w mw
      proof (cases "identity mw = identity mv")
        case True
        then have "w = v" using vinv_identity [OF assms(1) w(1) mv] by blast
        then show ?thesis using w(1) mv 2 by simp
      qed (use lively [OF w(1)] w(2) in simp)
      have "calm s (upd_vbar v (\<lambda>mv. mv\<lparr>copy_holds := copy_holds mv + 1\<rparr>) t)"
        using calm_trans [OF t(2) calm_vheap] .
      then have "scanned ?N capacity s xs (ids @ [identity mv]) (upd_vbar v (\<lambda>mv. mv\<lparr>copy_holds := copy_holds mv + 1\<rparr>) t)"
        unfolding scanned_def using u t(3,4,5,6) new 2 ids quiet by (intro conjI) (auto simp del: set_append)
      then show ?case by simp
    qed
  qed
qed

text \<open>
  An acquire is all or nothing: it holds exactly the VBARs that the copy names, each once and none of
  them closing, or it leaves every hold as it was.
\<close>

definition acquired :: "(model_vbar \<Rightarrow> bool) \<Rightarrow> nat \<Rightarrow> u64 list option \<Rightarrow> 'z vstate_scheme \<Rightarrow> 'z vstate_scheme \<Rightarrow> bool" where
  "acquired N capacity r s t \<longleftrightarrow> vbar_lock_depth t = vbar_lock_depth s \<and> asked_only (\<lambda>c. c = TryLock 0) (hist s) (hist t) \<and>
     (case r of
        None \<Rightarrow> reheld copy_holds s t
      | Some ids \<Rightarrow> reheld (added ids) s t \<and> distinct ids \<and> length ids \<le> capacity \<and>
          (\<forall>v mv. vheap s v = Some mv \<longrightarrow> (identity mv \<in> set ids \<longleftrightarrow> N mv)) \<and>
          (\<forall>v mv. vheap s v = Some mv \<longrightarrow> identity mv \<in> set ids \<longrightarrow> \<not> closing mv))"

lemma wp_copy_scan:
  assumes "vinv E s"
  shows "wp (foreach (copy_acquire_one d dn r rn capacity) (vorder s) [] s) (\<lambda>res t. case res of
    Inl ids \<Rightarrow> scanned (\<lambda>mv. copy_names mv d dn r rn) capacity s [] ids t
  | Inr ids \<Rightarrow> reheld (added ids) s t \<and> calm s t)"
proof (rule wp_foreach [where I = "\<lambda>xs ids t. scanned (\<lambda>mv. copy_names mv d dn r rn) capacity s xs ids t"])
  show "scanned (\<lambda>mv. copy_names mv d dn r rn) capacity s (vorder s) [] s"
    using assms by (auto simp: scanned_def vinv_def)
next
  fix v xs ids t
  assume i: "scanned (\<lambda>mv. copy_names mv d dn r rn) capacity s (v # xs) ids t"
  show "wp (copy_acquire_one d dn r rn capacity v ids t) (\<lambda>res u. case res of
      Inl ids \<Rightarrow> scanned (\<lambda>mv. copy_names mv d dn r rn) capacity s xs ids u
    | Inr b \<Rightarrow> (case Inr b of Inl ids \<Rightarrow> scanned (\<lambda>mv. copy_names mv d dn r rn) capacity s [] ids u
        | Inr ids \<Rightarrow> reheld (added ids) s u \<and> calm s u))"
    by (rule wp_conseq [OF wp_copy_acquire_one [OF assms i]]) (simp split: sum.splits)
qed simp

lemma wp_copy_acquire:
  assumes "vinv E s"
  shows "wp (aimdo_vbar_copy_acquire E d dn r rn capacity s)
    (\<lambda>res t. acquired (\<lambda>mv. copy_names mv d dn r rn) capacity res s t)"
proof -
  let ?N = "\<lambda>mv. copy_names mv d dn r rn"
  have scan: "wp (foreach (copy_acquire_one d dn r rn capacity) (vorder t) [] t) (\<lambda>res u.
      wp (case res of Inl _ \<Rightarrow> Some ((), u) | Inr ids \<Rightarrow> each copy_rollback_one ids u)
        (\<lambda>_ w. calm t w \<and> (case res of Inl ids \<Rightarrow> scanned ?N capacity t [] ids w | Inr _ \<Rightarrow> reheld copy_holds t w)))"
    if t: "vinv E t" for t :: "'a vstate_scheme"
  proof (rule wp_conseq [OF wp_copy_scan [OF t]], rule wp_sum, goal_cases)
    case (1 res u ids)
    then show ?case by (simp add: scanned_def)
  next
    case (2 res u ids)
    then have u: "reheld (added ids) t u" "calm t u" by auto
    show ?case
    proof (rule wp_conseq [OF wp_each_rollback [OF reheld_vinv [OF u(1) t]]])
      fix a w
      assume w: "reheld (given_back ids) u w \<and> calm u w"
      have "reheld copy_holds t w" by (rule reheld_trans [OF u(1) conjunct1 [OF w]]) simp
      then show "calm t w \<and> (case res of Inl ids \<Rightarrow> scanned ?N capacity t [] ids w | Inr _ \<Rightarrow> reheld copy_holds t w)"
        using 2(2) calm_trans [OF u(2)] w by simp
    qed
  qed
  let ?l = "s\<lparr>hist := TryLock 0 # hist s, vbar_lock_depth := Suc (vbar_lock_depth s)\<rparr>"
  have v: "vinv E ?l" using assms by (simp add: vinv_def)
  show ?thesis
  proof (cases "winxpu E")
    case False
    then show ?thesis
      unfolding aimdo_vbar_copy_acquire_def
      by (auto simp: acquired_def calm_def scanned_def intro!: wp_conseq [OF scan [OF assms]] elim!: wp_conseq split: sum.splits)
  next
    case locks: True
    show ?thesis
    proof (cases "r_rc (drv E (hist s) (TryLock 0)) = 0")
      case True
      then show ?thesis using locks unfolding aimdo_vbar_copy_acquire_def by (simp add: acquired_def)
    next
      case False
      show ?thesis
        unfolding aimdo_vbar_copy_acquire_def
      proof (rule wp_run [of _ True ?l], goal_cases)
        case 1
        then show ?case using locks False by (simp add: vbar_state_try_lock_def ask_def)
      next
        case 2
        have "wp (foreach (copy_acquire_one d dn r rn capacity) (vorder ?l) [] ?l) (\<lambda>res u.
            wp (case res of Inl _ \<Rightarrow> Some ((), u) | Inr ids \<Rightarrow> each copy_rollback_one ids u)
              (\<lambda>_ w. wp (vbar_state_unlock E w) (\<lambda>_ w. acquired ?N capacity (case res of Inl ids \<Rightarrow> Some ids | Inr _ \<Rightarrow> None) s w)))"
          by (rule wp_conseq [OF scan [OF v]], erule wp_conseq)
            (use locks in \<open>auto simp: acquired_def calm_def scanned_def split: sum.splits\<close>)
        then show ?case by (simp only: wp_bind wp_prod not_True_eq_False if_False fst_conv snd_conv wp_Some)
      qed
    qed
  qed
qed

subsection \<open>Owners and their claims\<close>

definition claims :: "u64 \<Rightarrow> copy_owner list \<Rightarrow> nat" where
  "claims ident owners = sum_list (map (\<lambda>w. count_list (co_reservations w) ident) owners)"

definition held_for :: "copy_owner list \<Rightarrow> 'z vstate_scheme \<Rightarrow> bool" where
  "held_for owners s \<longleftrightarrow> (\<forall>v mv. vheap s v = Some mv \<longrightarrow> copy_holds mv = claims (identity mv) owners)"

text \<open>Every hold is claimed by a pending owner, and every claim is a hold.\<close>

definition copy_inv :: "env \<Rightarrow> 'z cstate_scheme \<Rightarrow> bool" where
  "copy_inv E s \<longleftrightarrow> vinv E s \<and> held_for (pending_copies s) s"

lemma claims_simps [simp]:
  "claims i [] = 0" "claims i (w # ws) = count_list (co_reservations w) i + claims i ws"
  by (simp_all add: claims_def)

lemma claims_mset: "mset a = mset b + mset c \<Longrightarrow> claims i a = claims i b + claims i c"
  unfolding claims_def sum_mset_sum_list [symmetric] mset_map by simp

lemma claims_concat: "claims i ws = count_list (concat (map co_reservations ws)) i"
  by (induction ws) simp_all

lemma held_for_reheld:
  assumes "held_for owners s" "vheap t = reholds g (vheap s)"
    "\<And>mv. copy_holds mv = claims (identity mv) owners \<Longrightarrow> g mv = claims (identity mv) owners'"
  shows "held_for owners' t"
  using assms by (auto simp: held_for_def reholds_def)

lemma calls_frame [simp]: "held_for ws (s\<lparr>hist := h\<rparr>) = held_for ws s" "vinv E (s\<lparr>hist := h\<rparr>) = vinv E s"
  by (simp_all add: held_for_def vinv_def)

lemma held_for_frame [simp]:
  "held_for ws (s\<lparr>pending_copies := ps\<rparr>) = held_for ws s"
  "held_for ws (s\<lparr>copy_stats := st\<rparr>) = held_for ws s" "held_for ws (copy_stat_add k n s) = held_for ws s"
  by (simp_all add: held_for_def copy_stat_add_def)

lemma vinv_frame [simp]:
  "vinv E (s\<lparr>pending_copies := ps\<rparr>) = vinv E s"
  "vinv E (s\<lparr>copy_stats := st\<rparr>) = vinv E s" "vinv E (copy_stat_add k n s) = vinv E s"
  by (simp_all add: vinv_def copy_stat_add_def)

lemma copy_stat_add_sel [simp]:
  "hist (copy_stat_add k n s) = hist s" "pending_copies (copy_stat_add k n s) = pending_copies s"
  "vheap (copy_stat_add k n s) = vheap s" "vbar_lock_depth (copy_stat_add k n s) = vbar_lock_depth s"
  by (simp_all add: copy_stat_add_def)

lemma keep_copy_sel [simp]:
  "hist (keep_copy w s) = hist s" "pending_copies (keep_copy w s) = w # pending_copies s"
  "vheap (keep_copy w s) = vheap s" "vinv E (keep_copy w s) = vinv E s" "held_for ws (keep_copy w s) = held_for ws s"
  by (simp_all add: keep_copy_def)

lemma same_owners: "vstate.more t = vstate.more s \<Longrightarrow> pending_copies t = pending_copies s"
  by (cases s, cases t) simp

text \<open>\<open>answered\<close>: a call of the history had a certain answer; \<open>finished\<close>: the copy was seen to complete.\<close>

definition answered :: "env \<Rightarrow> call \<Rightarrow> (resp \<Rightarrow> bool) \<Rightarrow> call list \<Rightarrow> bool" where
  "answered E c ok h \<longleftrightarrow> (\<exists>h1 h2. h = h2 @ c # h1 \<and> ok (drv E h1 c))"

lemma answered_now: "ok (drv E h c) \<Longrightarrow> answered E c ok (c # h)"
  unfolding answered_def by (rule exI [of _ h], rule exI [of _ "[]"]) simp

lemma answered_later: "answered E c ok h \<Longrightarrow> answered E c ok (cs @ h)"
  unfolding answered_def by (metis append.assoc)

definition finished :: "env \<Rightarrow> copy_owner \<Rightarrow> call list \<Rightarrow> bool" where
  "finished E w h \<longleftrightarrow> co_complete w \<or>
     (if co_event w \<noteq> 0 \<and> \<not> co_require_queue_wait w
      then answered E (UrEventWait (co_event w)) (\<lambda>r. r_rc r = 0) h \<or>
           answered E (UrEventStatus (co_event w)) (\<lambda>r. r_rc r = 0 \<and> r_val r = 0) h
      else answered E (UrQueueFinish (co_queue w)) (\<lambda>r. r_rc r = 0) h)"

lemma finished_later: "finished E w h \<Longrightarrow> finished E w (cs @ h)"
  unfolding finished_def by (auto intro: answered_later split: if_splits)

lemma finished_Cons: "finished E w h \<Longrightarrow> finished E w (c # h)"
  using finished_later [of E w h "[c]"] by simp

subsection \<open>The poll\<close>

lemma wp_copy_completed:
  "wp (copy_completed E wait w s) (\<lambda>r t. (r \<longrightarrow> finished E w (hist t)) \<and> vheap t = vheap s \<and>
     (vinv E s \<longrightarrow> vinv E t) \<and> pending_copies t = pending_copies s \<and> (\<exists>cs. hist t = cs @ hist s))"
  by (auto simp: copy_completed_def finished_def intro: answered_now)

lemma wp_release_copy:
  assumes "vinv E s"
  shows "wp (release_copy E w s) (\<lambda>_ t. vinv E t \<and> vheap t = reholds (given_back (co_reservations w)) (vheap s) \<and>
     pending_copies t = pending_copies s \<and> (\<exists>cs. hist t = cs @ hist s))"
  unfolding release_copy_def
proof (rule wp_step [OF wp_copy_release [OF assms]], goal_cases)
  case (1 a t)
  then have "vinv E t" "vheap t = reholds (given_back (co_reservations w)) (vheap s)" "pending_copies t = pending_copies s"
    "hist t = hist s"
    using reheld_vinv [OF _ assms] same_owners by (auto simp: reheld_def calm_def)
  then show ?case by auto
qed

text \<open>
  Which owners a poll has dealt with: those of \<open>gs\<close> were seen to complete, and the VBARs they named
  have their holds back; every other owner is still there.
\<close>

definition polled :: "env \<Rightarrow> 'z cstate_scheme \<Rightarrow> copy_owner list \<Rightarrow> copy_owner list \<Rightarrow> 'z cstate_scheme \<Rightarrow> bool" where
  "polled E s rest gs t \<longleftrightarrow> mset (pending_copies s) = mset (rest @ pending_copies t) + mset gs \<and>
     (\<forall>w \<in> set gs. finished E w (hist t)) \<and>
     vheap t = reholds (given_back (concat (map co_reservations gs))) (vheap s)"

lemma wp_poll_one:
  assumes "vinv E t" "polled E s (w # rest) gs t"
  shows "wp (poll_one E wait w success t) (\<lambda>r u. \<exists>complete. r = Inl (success \<and> (complete \<or> \<not> wait)) \<and> vinv E u \<and>
     (\<exists>gs. polled E s rest gs u) \<and> (complete \<longrightarrow> pending_copies u = pending_copies t))"
  unfolding poll_one_def
proof (rule wp_step [OF wp_copy_completed], goal_cases)
  case (1 complete a)
  then have a: "vinv E a" "vheap a = vheap t" "pending_copies a = pending_copies t" "complete \<Longrightarrow> finished E w (hist a)"
    using assms(1) by auto
  from 1 obtain cs where cs: "hist a = cs @ hist t" by blast
  have gone_a: "\<forall>x \<in> set gs. finished E x (hist a)"
    using assms(2) cs by (simp add: polled_def finished_later)
  show ?case
  proof (cases complete)
    case True
    show ?thesis
      unfolding if_P [OF True]
    proof (rule wp_step [OF wp_release_copy [OF a(1)]], rule wp_done, goal_cases)
      case (1 b u)
      from 1 obtain ds where "hist u = ds @ hist a" by blast
      then have fin: "\<forall>x \<in> set (w # gs). finished E x (hist u)"
        using gone_a a(4) [OF True] by (simp add: finished_later)
      have u: "vinv E u" "vheap u = reholds (given_back (co_reservations w)) (vheap t)" "pending_copies u = pending_copies t"
        using 1 a(2,3) by auto
      have "vheap u = reholds (given_back (concat (map co_reservations (w # gs)))) (vheap s)"
        using assms(2) unfolding u(2) polled_def
        by (auto simp: reholds_def option.map_comp comp_def fun_eq_iff diff_diff_left add.commute)
      moreover have "mset (pending_copies s) = mset (rest @ pending_copies u) + mset (w # gs)"
        using assms(2) unfolding u(3) polled_def by simp
      ultimately have "polled E s rest (w # gs) u" using fin by (simp only: polled_def)
      then show ?case using u(1,3) True by blast
    qed
  next
    case False
    then have "polled E s rest gs (keep_copy w a)"
      using assms(2) a gone_a by (auto simp: polled_def)
    then show ?thesis using False a(1) by auto
  qed
qed

lemma wp_poll:
  assumes "vinv E s"
  shows "wp (aimdo_xpu_copy_residency_poll E wait s) (\<lambda>r t. vinv E t \<and> (\<exists>gs. polled E s [] gs t) \<and>
     (r \<longrightarrow> wait \<longrightarrow> pending_copies t = []))"
  unfolding aimdo_xpu_copy_residency_poll_def
proof (rule wp_step [where P = "\<lambda>r t. \<exists>b. r = Inl b \<and> vinv E t \<and> (\<exists>gs. polled E s [] gs t) \<and>
     (b \<longrightarrow> wait \<longrightarrow> pending_copies t = [])"])
  let ?s = "s\<lparr>pending_copies := []\<rparr>"
  show "wp (foreach (poll_one E wait) (pending_copies s) True ?s) (\<lambda>r t. \<exists>b. r = Inl b \<and> vinv E t \<and>
     (\<exists>gs. polled E s [] gs t) \<and> (b \<longrightarrow> wait \<longrightarrow> pending_copies t = []))"
  proof (rule wp_foreach [where I = "\<lambda>xs b t. vinv E t \<and> (\<exists>gs. polled E s xs gs t) \<and> (b \<longrightarrow> wait \<longrightarrow> pending_copies t = [])"])
    have "polled E s (pending_copies s) [] ?s" by (simp add: polled_def reholds_def option.map_ident)
    then show "vinv E ?s \<and> (\<exists>gs. polled E s (pending_copies s) gs ?s) \<and> (True \<longrightarrow> wait \<longrightarrow> pending_copies ?s = [])"
      using assms by auto
  next
    fix w xs b and t :: "'a cstate_scheme"
    assume "vinv E t \<and> (\<exists>gs. polled E s (w # xs) gs t) \<and> (b \<longrightarrow> wait \<longrightarrow> pending_copies t = [])"
    then obtain gs where t: "vinv E t" "polled E s (w # xs) gs t" "b \<longrightarrow> wait \<longrightarrow> pending_copies t = []" by blast
    show "wp (poll_one E wait w b t) (\<lambda>r u. case r of
        Inl b \<Rightarrow> vinv E u \<and> (\<exists>gs. polled E s xs gs u) \<and> (b \<longrightarrow> wait \<longrightarrow> pending_copies u = [])
      | Inr b \<Rightarrow> \<exists>c. Inr b = Inl c \<and> vinv E u \<and> (\<exists>gs. polled E s [] gs u) \<and> (c \<longrightarrow> wait \<longrightarrow> pending_copies u = []))"
      by (rule wp_conseq [OF wp_poll_one [OF t(1,2)]]) (use t(3) in auto)
  qed auto
qed auto

lemma polled_holds:
  assumes "held_for (pending_copies s) s" "polled E s [] gs t"
  shows "held_for (pending_copies t) t"
proof (rule held_for_reheld [OF assms(1)])
  show "vheap t = reholds (given_back (concat (map co_reservations gs))) (vheap s)"
    using assms(2) by (simp add: polled_def)
  fix mv :: model_vbar
  assume "copy_holds mv = claims (identity mv) (pending_copies s)"
  then show "given_back (concat (map co_reservations gs)) mv = claims (identity mv) (pending_copies t)"
    using claims_mset [of "pending_copies s" "pending_copies t" gs] assms(2)
    by (simp add: polled_def claims_concat [symmetric])
qed

text \<open>What the reclaim layer asks of a poll: that some identities were released.\<close>

lemma vinv_drv [simp]: "vinv (E\<lparr>drv := d\<rparr>) s = vinv E s"
proof -
  have "vbar_page_is_mapped (E\<lparr>drv := d\<rparr>) = vbar_page_is_mapped E" "page_ok (E\<lparr>drv := d\<rparr>) = page_ok E"
    by (simp_all add: fun_eq_iff vbar_page_is_mapped_def page_ok_def winxpu_def)
  then show ?thesis by (simp add: vinv_def vbar_ok_def)
qed

lemma wp_reclaim_poll:
  assumes "vinv E s"
  shows "wp (copy_residency_poll E wait s) (\<lambda>_ t. vheap t = reholds (given_back
    (r_vals (drv E (hist s) (CopyResidencyPoll wait)))) (vheap s) \<and> vorder t = vorder s)"
  unfolding copy_residency_poll_def
proof (rule wp_step [of _ "\<lambda>r t. r = drv E (hist s) (CopyResidencyPoll wait) \<and> t = s\<lparr>hist := CopyResidencyPoll wait # hist s\<rparr>"], goal_cases)
  case (2 r t)
  then have "vinv E t" using assms by simp
  from wp_copy_release [OF this, of "r_vals r"] show ?case
    by (rule wp_conseq) (use 2 in \<open>simp add: reheld_def\<close>)
qed simp

subsection \<open>Submission\<close>

abbreviation (input) no_enqueue :: "call \<Rightarrow> bool" where
  "no_enqueue c \<equiv> \<forall>q b. c \<noteq> UrEnqueue q b"

text \<open>The VBARs that a copy names, by their state before it.\<close>

definition covers :: "(model_vbar \<Rightarrow> bool) \<Rightarrow> 'z vstate_scheme \<Rightarrow> u64 list \<Rightarrow> bool" where
  "covers N s ids \<longleftrightarrow> (\<forall>v mv. vheap s v = Some mv \<longrightarrow> N mv \<longrightarrow> identity mv \<in> set ids)"

lemma acquired_owners:
  assumes "acquired N capacity r s t" "vinv E s" "held_for (pending_copies s) s"
  shows "vinv E t" "pending_copies t = pending_copies s" "asked_only no_enqueue (hist s) (hist t)"
    "r = None \<Longrightarrow> held_for (pending_copies s) t"
    "r = Some ids \<Longrightarrow> covers N s ids \<and> (co_reservations w = ids \<longrightarrow> held_for (w # pending_copies s) t)"
proof -
  show "asked_only no_enqueue (hist s) (hist t)"
    using assms(1) asked_only_mono by (fastforce simp: acquired_def)
  show "vinv E t" using assms(1) reheld_vinv [OF _ assms(2)] by (auto simp: acquired_def split: option.splits)
  show "pending_copies t = pending_copies s"
    using assms(1) same_owners by (auto simp: acquired_def reheld_def split: option.splits)
  show "held_for (pending_copies s) t" if "r = None"
    using assms(1) that by (auto simp: acquired_def reheld_def intro: held_for_reheld [OF assms(3)])
  show "covers N s ids \<and> (co_reservations w = ids \<longrightarrow> held_for (w # pending_copies s) t)" if "r = Some ids"
    using assms(1) that by (auto simp: acquired_def reheld_def covers_def intro: held_for_reheld [OF assms(3)])
qed

definition prepared_post :: "env \<Rightarrow> (model_vbar \<Rightarrow> bool) \<Rightarrow> 'z cstate_scheme \<Rightarrow> prepared \<Rightarrow> 'z cstate_scheme \<Rightarrow> bool" where
  "prepared_post E N s r t \<longleftrightarrow> vinv E t \<and> asked_only no_enqueue (hist s) (hist t) \<and> (case r of
     Refused \<Rightarrow> held_for (pending_copies t) t \<and> (\<exists>new. pending_copies t = new @ pending_copies s)
   | Untracked \<Rightarrow> held_for (pending_copies t) t \<and> pending_copies t = pending_copies s \<and> covers N s []
   | Tracked w \<Rightarrow> held_for (w # pending_copies s) t \<and> pending_copies t = pending_copies s \<and> covers N s (co_reservations w))"

lemma wp_prepare_copy:
  assumes "copy_inv E s"
  shows "wp (prepare_copy E queue d dn r rn s) (prepared_post E (\<lambda>mv. copy_names mv d dn r rn) s)"
proof -
  let ?N = "\<lambda>mv. copy_names mv d dn r rn" and ?s = "s\<lparr>hist := HostAlloc # hist s\<rparr>"
  have s: "vinv E ?s" "held_for (pending_copies ?s) ?s" using assms by (simp_all add: copy_inv_def)
  have base: "asked_only no_enqueue (hist s) h" if "asked_only no_enqueue (hist ?s) h" for h
    using that by (auto intro: asked_only_uncons)
  have c: "covers ?N ?s ids = covers ?N s ids" for ids by (simp add: covers_def)
  show ?thesis
    unfolding prepare_copy_def
  proof (rule wp_run [of _ "drv E (hist s) HostAlloc" ?s], simp add: ask_def, rule wp_branch, goal_cases)
    case 1
    then show ?case using s by (simp add: prepared_post_def)
  next
    case 2
    show ?case
    proof (rule wp_step [OF wp_copy_acquire [OF s(1)]], goal_cases)
      case (1 ids t)
      note t = acquired_owners [OF 1 s]
      show ?case
      proof (cases ids)
        case None
        then show ?thesis using t(1,2,4) base [OF t(3)] by (simp add: prepared_post_def)
      next
        case (Some js)
        show ?thesis
        proof (cases js)
          case Nil
          then have "held_for (pending_copies s) t"
            using t(5) [of "[]" "undefined\<lparr>co_reservations := []\<rparr>"] Some by (simp add: held_for_def)
          then show ?thesis using t(1,2) t(5) [of "[]"] base [OF t(3)] Some Nil c by (simp add: prepared_post_def)
        next
          case (Cons i ks)
          have h: "co_reservations w = i # ks \<Longrightarrow> held_for (w # pending_copies s) t" "covers ?N s (i # ks)" for w
            using t(5) [of "i # ks" w] Some Cons c by auto
          show ?thesis using t(1,2) base [OF t(3)] h Some Cons by (simp add: prepared_post_def Let_def)
        qed
      qed
    qed
  qed
qed

text \<open>
  A submission: when the runtime was asked for the copy, its owner is pending, holds every VBAR that the
  copy names, and counts as complete only if the copy was blocking and succeeded.
\<close>

definition submitted :: "env \<Rightarrow> (model_vbar \<Rightarrow> bool) \<Rightarrow> bool \<Rightarrow> 'z cstate_scheme \<Rightarrow> int \<Rightarrow> 'z cstate_scheme \<Rightarrow> bool" where
  "submitted E N blocking s rc t \<longleftrightarrow> copy_inv E t \<and> (\<exists>new. pending_copies t = new @ pending_copies s \<and>
     (asked_only no_enqueue (hist s) (hist t) \<or> covers N s [] \<or>
      (\<exists>w. new = [w] \<and> covers N s (co_reservations w) \<and> (co_complete w \<longleftrightarrow> rc = 0 \<and> blocking))))"

lemma wp_finish_copy:
  "wp (finish_copy E w rc blocking ev wants s) (\<lambda>_ t. \<exists>x. pending_copies t = x # pending_copies s \<and>
     co_reservations x = co_reservations w \<and> (co_complete x \<longleftrightarrow> rc = 0 \<and> blocking) \<and> vheap t = vheap s \<and>
     (vinv E s \<longrightarrow> vinv E t))"
  by (auto simp: finish_copy_def Let_def)

lemma held_for_heap: "vheap t = vheap s \<Longrightarrow> held_for ws s \<Longrightarrow> held_for ws t"
  by (simp add: held_for_def)

lemma wp_tracked_submit:
  assumes "copy_inv E s"
  shows "wp (tracked_submit E queue blocking d dn r rn wants s) (\<lambda>(rc, _) t.
     submitted E (\<lambda>mv. copy_names mv d dn r rn) blocking s rc t)"
  unfolding tracked_submit_def
proof (rule wp_step [OF wp_prepare_copy [OF assms]], goal_cases)
  case (1 tracked t)
  let ?N = "\<lambda>mv. copy_names mv d dn r rn"
  show ?case
  proof (cases tracked)
    case Refused
    then show ?thesis using 1 by (auto simp: prepared_post_def submitted_def copy_inv_def)
  next
    case Untracked
    then show ?thesis using 1 by (auto simp: prepared_post_def submitted_def copy_inv_def)
  next
    case (Tracked w)
    let ?c = "UrEnqueue queue blocking"
    let ?r = "drv E (hist t) ?c" and ?t = "t\<lparr>hist := ?c # hist t\<rparr>"
    have t: "vinv E ?t" "pending_copies ?t = pending_copies s" "held_for (w # pending_copies s) ?t" "covers ?N s (co_reservations w)"
      using 1 Tracked by (simp_all add: prepared_post_def)
    have "wp (finish_copy E w (r_rc ?r) blocking (r_val ?r) wants ?t) (\<lambda>_ u. submitted E ?N blocking s (r_rc ?r) u)"
    proof (rule wp_conseq [OF wp_finish_copy])
      fix a :: unit and u :: "'a cstate_scheme"
      assume "\<exists>x. pending_copies u = x # pending_copies ?t \<and> co_reservations x = co_reservations w \<and>
          (co_complete x \<longleftrightarrow> r_rc ?r = 0 \<and> blocking) \<and> vheap u = vheap ?t \<and> (vinv E ?t \<longrightarrow> vinv E u)"
      then obtain x where x: "pending_copies u = x # pending_copies s" "co_reservations x = co_reservations w"
          "co_complete x \<longleftrightarrow> r_rc ?r = 0 \<and> blocking" "vheap u = vheap ?t" "vinv E u" using t(1,2) by auto
      have "held_for (pending_copies u) u"
        using held_for_heap [OF x(4) t(3)] x(1,2) by (simp add: held_for_def)
      then show "submitted E ?N blocking s (r_rc ?r) u"
        unfolding submitted_def copy_inv_def using x t(4) by auto
    qed
    then show ?thesis using Tracked by simp
  qed
qed

subsection \<open>The poll and what the reclaim layer sees of it\<close>

text \<open>The poll is one that the reclaim layer allows for: its answer are the reservations of the owners that finished.\<close>

lemma wp_poll_refines:
  assumes "copy_inv E s"
  shows "wp (aimdo_xpu_copy_residency_poll E wait s) (\<lambda>r t. copy_inv E t \<and> (r \<longrightarrow> wait \<longrightarrow> pending_copies t = []) \<and>
    (\<exists>gs. polled E s [] gs t \<and> (\<forall>d. r_vals (d (hist s) (CopyResidencyPoll wait)) = concat (map co_reservations gs) \<longrightarrow>
       wp (copy_residency_poll (E\<lparr>drv := d\<rparr>) wait s) (\<lambda>_ u. vheap u = vheap t))))"
proof (rule wp_conseq [OF wp_poll])
  show s: "vinv E s" using assms by (simp add: copy_inv_def)
  fix r t
  assume t: "vinv E t \<and> (\<exists>gs. polled E s [] gs t) \<and> (r \<longrightarrow> wait \<longrightarrow> pending_copies t = [])"
  then obtain gs where gs: "polled E s [] gs t" by blast
  have "wp (copy_residency_poll (E\<lparr>drv := d\<rparr>) wait s) (\<lambda>_ u. vheap u = vheap t)"
    if d: "r_vals (d (hist s) (CopyResidencyPoll wait)) = concat (map co_reservations gs)" for d
    by (rule wp_conseq [OF wp_reclaim_poll]) (use s d gs in \<open>simp_all add: polled_def\<close>)
  then show "copy_inv E t \<and> (r \<longrightarrow> wait \<longrightarrow> pending_copies t = []) \<and> (\<exists>gs. polled E s [] gs t \<and>
      (\<forall>d. r_vals (d (hist s) (CopyResidencyPoll wait)) = concat (map co_reservations gs) \<longrightarrow>
       wp (copy_residency_poll (E\<lparr>drv := d\<rparr>) wait s) (\<lambda>_ u. vheap u = vheap t)))"
    using t gs polled_holds [OF _ gs] assms unfolding copy_inv_def by blast
qed

end
