(* ===== verification/UrTable.thy ===== *)
theory UrTable
  imports Env
begin

unbundle bit_operations_syntax

text \<open>
  The table of live allocations of the Unified Runtime hook (\<open>src-xpu/ur-usm-detour.c\<close>): open addressing
  with linear probing; a removal leaves a tombstone, so that the probe chains behind it stay reachable.
\<close>

abbreviation POINTER_TABLE_SIZE :: nat where "POINTER_TABLE_SIZE \<equiv> 262144"
abbreviation POINTER_TOMBSTONE :: u64 where "POINTER_TOMBSTONE \<equiv> 1"

record tracked_allocation =
  ta_pointer :: u64
  ta_size :: u64
  ta_device :: int

type_synonym pointer_table = "nat \<Rightarrow> tracked_allocation"

definition pointer_slot :: "u64 \<Rightarrow> nat" where
  "pointer_slot pointer = (let value = (pointer XOR drop_bit 33 pointer) * 11400714819323198485
     in unat (drop_bit 44 value AND (of_nat POINTER_TABLE_SIZE - 1)))"

definition probe_index :: "u64 \<Rightarrow> nat \<Rightarrow> nat" where
  "probe_index pointer probe = (pointer_slot pointer + probe) mod POINTER_TABLE_SIZE"

text \<open>The loops over \<open>probe\<close>, from \<open>probe\<close> on: \<open>k\<close> is what is left of the table.\<close>

fun insert_from :: "tracked_allocation \<Rightarrow> pointer_table \<Rightarrow> nat \<Rightarrow> nat \<Rightarrow> pointer_table option" where
  "insert_from e T probe 0 = None"
| "insert_from e T probe (Suc k) = (let i = probe_index (ta_pointer e) probe in
     if ta_pointer (T i) = ta_pointer e then None
     else if ta_pointer (T i) = 0 \<or> ta_pointer (T i) = POINTER_TOMBSTONE then Some (T(i := e))
     else insert_from e T (Suc probe) k)"

definition allocation_insert :: "u64 \<Rightarrow> u64 \<Rightarrow> int \<Rightarrow> pointer_table \<Rightarrow> pointer_table option" where
  "allocation_insert pointer n dev T =
     insert_from \<lparr>ta_pointer = pointer, ta_size = n, ta_device = dev\<rparr> T 0 POINTER_TABLE_SIZE"

fun remove_from :: "u64 \<Rightarrow> pointer_table \<Rightarrow> nat \<Rightarrow> nat \<Rightarrow> ((u64 \<times> int) \<times> pointer_table) option" where
  "remove_from pointer T probe 0 = None"
| "remove_from pointer T probe (Suc k) = (let i = probe_index pointer probe in
     if ta_pointer (T i) = 0 then None
     else if ta_pointer (T i) = pointer
     then Some ((ta_size (T i), ta_device (T i)), T(i := (T i)\<lparr>ta_pointer := POINTER_TOMBSTONE, ta_size := 0\<rparr>))
     else remove_from pointer T (Suc probe) k)"

definition allocation_remove :: "u64 \<Rightarrow> pointer_table \<Rightarrow> ((u64 \<times> int) \<times> pointer_table) option" where
  "allocation_remove pointer T = remove_from pointer T 0 POINTER_TABLE_SIZE"

definition empty_table :: pointer_table where
  "empty_table = (\<lambda>_. \<lparr>ta_pointer = 0, ta_size = 0, ta_device = 0\<rparr>)"

subsection \<open>The map it stands for\<close>

definition live_entry :: "tracked_allocation \<Rightarrow> bool" where
  "live_entry e \<longleftrightarrow> ta_pointer e \<noteq> 0 \<and> ta_pointer e \<noteq> POINTER_TOMBSTONE"

definition table_map :: "pointer_table \<Rightarrow> u64 \<rightharpoonup> u64 \<times> int" where
  "table_map T p = map_option (\<lambda>i. (ta_size (T i), ta_device (T i)))
     (List.find (\<lambda>i. live_entry (T i) \<and> ta_pointer (T i) = p) [0..<POINTER_TABLE_SIZE])"

text \<open>Every live entry is reached by its probe sequence, before an empty slot and before a copy of itself.\<close>

definition table_ok :: "pointer_table \<Rightarrow> bool" where
  "table_ok T \<longleftrightarrow> (\<forall>p k. k < POINTER_TABLE_SIZE \<longrightarrow> live_entry (T (probe_index p k)) \<longrightarrow> ta_pointer (T (probe_index p k)) = p \<longrightarrow>
     (\<forall>j < k. ta_pointer (T (probe_index p j)) \<noteq> 0 \<and> ta_pointer (T (probe_index p j)) \<noteq> p))"

lemma probe_index_less [simp]: "probe_index p k < POINTER_TABLE_SIZE"
  by (simp add: probe_index_def)

lemma probe_index_if:
  assumes "k < POINTER_TABLE_SIZE"
  shows "probe_index p k = (if pointer_slot p mod POINTER_TABLE_SIZE + k < POINTER_TABLE_SIZE then pointer_slot p mod POINTER_TABLE_SIZE + k
    else pointer_slot p mod POINTER_TABLE_SIZE + k - POINTER_TABLE_SIZE)"
proof -
  have "probe_index p k = (pointer_slot p mod POINTER_TABLE_SIZE + k) mod POINTER_TABLE_SIZE"
    unfolding probe_index_def by (simp only: mod_add_left_eq)
  moreover have "pointer_slot p mod POINTER_TABLE_SIZE < POINTER_TABLE_SIZE" by simp
  ultimately show ?thesis using assms by (simp add: mod_if [of "_ + k"])
qed

lemma probe_index_inj:
  assumes "probe_index p j = probe_index p k" "j < POINTER_TABLE_SIZE" "k < POINTER_TABLE_SIZE"
  shows "j = k"
  using assms(1) probe_index_if [OF assms(2), of p] probe_index_if [OF assms(3), of p] assms(2,3)
  by (simp split: if_splits) linarith

lemma probe_index_onto:
  assumes "i < POINTER_TABLE_SIZE"
  shows "\<exists>k < POINTER_TABLE_SIZE. probe_index p k = i"
proof -
  let ?o = "pointer_slot p mod POINTER_TABLE_SIZE"
  let ?k = "if ?o \<le> i then i - ?o else i + POINTER_TABLE_SIZE - ?o"
  have o: "?o < POINTER_TABLE_SIZE" by simp
  have k: "?k < POINTER_TABLE_SIZE" using assms o by auto
  have "probe_index p ?k = i" using assms o unfolding probe_index_if [OF k] by auto
  then show ?thesis using k by blast
qed

text \<open>A pointer is at one place at most, and the map finds it.\<close>

lemma table_unique:
  assumes "table_ok T" "i < POINTER_TABLE_SIZE" "i' < POINTER_TABLE_SIZE" "live_entry (T i)" "ta_pointer (T i) = p" "ta_pointer (T i') = p"
  shows "i = i'"
proof -
  obtain k k' where k: "k < POINTER_TABLE_SIZE" "probe_index p k = i" "k' < POINTER_TABLE_SIZE" "probe_index p k' = i'"
    using probe_index_onto [OF assms(2), of p] probe_index_onto [OF assms(3), of p] by blast
  have "live_entry (T i')" using assms(4-6) by (simp add: live_entry_def)
  have "\<not> k < k'" using assms(1) k assms(5,6) \<open>live_entry (T i')\<close> unfolding table_ok_def by metis
  moreover have "\<not> k' < k" using assms(1) k assms(4,5,6) unfolding table_ok_def by metis
  ultimately show ?thesis using k by simp
qed

lemma table_map_Some:
  assumes "table_ok T" "i < POINTER_TABLE_SIZE" "live_entry (T i)" "ta_pointer (T i) = p"
  shows "table_map T p = Some (ta_size (T i), ta_device (T i))"
proof (cases "List.find (\<lambda>i. live_entry (T i) \<and> ta_pointer (T i) = p) [0..<POINTER_TABLE_SIZE]")
  case None
  then show ?thesis using assms by (auto simp: find_None_iff)
next
  case (Some j)
  then have "j < POINTER_TABLE_SIZE" "live_entry (T j)" "ta_pointer (T j) = p"
    by (auto simp: find_Some_iff simp del: upt_Suc)
  then have "j = i" using table_unique [OF assms(1)] assms by blast
  then show ?thesis using Some by (simp add: table_map_def)
qed

lemma table_map_None:
  "table_map T p = None \<longleftrightarrow> (\<forall>i < POINTER_TABLE_SIZE. live_entry (T i) \<longrightarrow> ta_pointer (T i) \<noteq> p)"
  by (auto simp: table_map_def find_None_iff)

subsection \<open>The operations refine the map\<close>

lemma insert_from_Some:
  assumes "insert_from e T m k = Some T'"
  shows "\<exists>j < k. T' = T(probe_index (ta_pointer e) (m + j) := e) \<and> \<not> live_entry (T (probe_index (ta_pointer e) (m + j))) \<and>
    (\<forall>i < j. live_entry (T (probe_index (ta_pointer e) (m + i))) \<and> ta_pointer (T (probe_index (ta_pointer e) (m + i))) \<noteq> ta_pointer e)"
  using assms
proof (induction k arbitrary: m)
  case (Suc k)
  let ?i = "probe_index (ta_pointer e) m"
  show ?case
  proof (cases "ta_pointer (T ?i) = 0 \<or> ta_pointer (T ?i) = POINTER_TOMBSTONE")
    case True
    then show ?thesis using Suc.prems by (intro exI [of _ 0]) (auto simp: Let_def live_entry_def split: if_splits)
  next
    case False
    then have ne: "ta_pointer (T ?i) \<noteq> ta_pointer e" "insert_from e T (Suc m) k = Some T'"
      using Suc.prems by (auto simp: Let_def split: if_splits)
    obtain j where "j < k" "T' = T(probe_index (ta_pointer e) (Suc m + j) := e)" "\<not> live_entry (T (probe_index (ta_pointer e) (Suc m + j)))"
      "\<forall>i < j. live_entry (T (probe_index (ta_pointer e) (Suc m + i))) \<and> ta_pointer (T (probe_index (ta_pointer e) (Suc m + i))) \<noteq> ta_pointer e"
      using Suc.IH [OF ne(2)] by blast
    then show ?thesis using False ne(1)
      by (intro exI [of _ "Suc j"]) (auto simp: live_entry_def less_Suc_eq_0_disj)
  qed
qed simp

lemma insert_from_None:
  "insert_from e T m k = None \<Longrightarrow> (\<exists>i < k. ta_pointer (T (probe_index (ta_pointer e) (m + i))) = ta_pointer e) \<or>
    (\<forall>i < k. live_entry (T (probe_index (ta_pointer e) (m + i))))"
proof (induction k arbitrary: m)
  case (Suc k)
  let ?P = "\<lambda>m i. ta_pointer (T (probe_index (ta_pointer e) (m + i)))"
  show ?case
  proof (cases "?P m 0 = ta_pointer e")
    case False
    then have "insert_from e T (Suc m) k = None" "live_entry (T (probe_index (ta_pointer e) m))"
      using Suc.prems by (auto simp: Let_def live_entry_def split: if_splits)
    from Suc.IH [OF this(1)] show ?thesis
    proof
      assume "\<exists>i < k. ?P (Suc m) i = ta_pointer e"
      then obtain i where "i < k" "?P m (Suc i) = ta_pointer e" by auto
      then show ?thesis by (intro disjI1 exI [of _ "Suc i"]) simp
    next
      assume all: "\<forall>i < k. live_entry (T (probe_index (ta_pointer e) (Suc m + i)))"
      have "live_entry (T (probe_index (ta_pointer e) (m + i)))" if "i < Suc k" for i
        using that all \<open>live_entry (T (probe_index (ta_pointer e) m))\<close> by (cases i) auto
      then show ?thesis by blast
    qed
  qed (use Suc.prems in \<open>auto intro!: exI [of _ 0]\<close>)
qed simp

lemma remove_from_eq:
  assumes "\<forall>i < j. ta_pointer (T (probe_index p (m + i))) \<noteq> 0 \<and> ta_pointer (T (probe_index p (m + i))) \<noteq> p"
    "j < k" "ta_pointer (T (probe_index p (m + j))) = p" "p \<noteq> 0"
  shows "remove_from p T m k = Some ((ta_size (T (probe_index p (m + j))), ta_device (T (probe_index p (m + j)))),
    T(probe_index p (m + j) := (T (probe_index p (m + j)))\<lparr>ta_pointer := POINTER_TOMBSTONE, ta_size := 0\<rparr>))"
  using assms
proof (induction j arbitrary: m k)
  case 0
  then show ?case by (cases k) (auto simp: Let_def)
next
  case (Suc j)
  obtain k' where k: "k = Suc k'" using Suc.prems(2) by (cases k) auto
  have "ta_pointer (T (probe_index p m)) \<noteq> 0 \<and> ta_pointer (T (probe_index p m)) \<noteq> p" using Suc.prems(1) by force
  moreover have "remove_from p T (Suc m) k' = Some ((ta_size (T (probe_index p (Suc m + j))), ta_device (T (probe_index p (Suc m + j)))),
    T(probe_index p (Suc m + j) := (T (probe_index p (Suc m + j)))\<lparr>ta_pointer := POINTER_TOMBSTONE, ta_size := 0\<rparr>))"
    using Suc.prems k by (intro Suc.IH) auto
  ultimately show ?case using k by (simp add: Let_def fun_upd_def)
qed

lemma remove_from_None:
  "(\<forall>i < k. ta_pointer (T (probe_index p (m + i))) \<noteq> p) \<Longrightarrow> remove_from p T m k = None"
proof (induction k arbitrary: m)
  case (Suc k)
  have "ta_pointer (T (probe_index p m)) \<noteq> p" using Suc.prems by force
  moreover have "remove_from p T (Suc m) k = None"
  proof (rule Suc.IH, intro allI impI)
    fix i assume "i < k"
    then show "ta_pointer (T (probe_index p (Suc m + i))) \<noteq> p" using Suc.prems [rule_format, of "Suc i"] by simp
  qed
  ultimately show ?case by (simp add: Let_def)
qed simp

definition usable :: "u64 \<Rightarrow> bool" where
  "usable p \<longleftrightarrow> p \<noteq> 0 \<and> p \<noteq> POINTER_TOMBSTONE"

lemma absent: "usable p \<Longrightarrow> table_map T p = None \<Longrightarrow> i < POINTER_TABLE_SIZE \<Longrightarrow> ta_pointer (T i) \<noteq> p"
  by (auto simp: table_map_None usable_def live_entry_def)

text \<open>An insert of a pointer that is not in the table.\<close>

lemma insert_ok:
  assumes "table_ok T" "usable p" "table_map T p = None" "allocation_insert p n d T = Some T'"
  shows "table_ok T'" "table_map T' = (table_map T)(p \<mapsto> (n, d))"
proof -
  let ?e = "\<lparr>ta_pointer = p, ta_size = n, ta_device = d\<rparr>"
  obtain j where j: "j < POINTER_TABLE_SIZE" "T' = T(probe_index p j := ?e)" "\<not> live_entry (T (probe_index p j))"
    "\<forall>i < j. live_entry (T (probe_index p i)) \<and> ta_pointer (T (probe_index p i)) \<noteq> p"
    using insert_from_Some [OF assms(4) [unfolded allocation_insert_def]] by auto
  have absent: "ta_pointer (T i) \<noteq> p" if "i < POINTER_TABLE_SIZE" for i
    using assms(2,3) that by (auto simp: table_map_None usable_def live_entry_def)
  show ok: "table_ok T'"
    unfolding table_ok_def
  proof (intro allI impI conjI)
    fix q k i
    assume k: "k < POINTER_TABLE_SIZE" "live_entry (T' (probe_index q k))" "ta_pointer (T' (probe_index q k)) = q" "i < k"
    show "ta_pointer (T' (probe_index q i)) \<noteq> 0" "ta_pointer (T' (probe_index q i)) \<noteq> q"
    proof -
      have "(ta_pointer (T' (probe_index q i)) \<noteq> 0) \<and> ta_pointer (T' (probe_index q i)) \<noteq> q"
      proof (cases "q = p")
        case True
        have "probe_index p k = probe_index p j" using k(3) True absent j(2) by (auto split: if_splits)
        then have "k = j" by (rule probe_index_inj [OF _ k(1) j(1)])
        moreover have "probe_index p i \<noteq> probe_index p j" using probe_index_inj [of p i j] k(1,4) \<open>k = j\<close> by auto
        ultimately show ?thesis using j(2,4) k(4) True by (auto simp: live_entry_def)
      next
        case False
        then have same: "T' (probe_index q k) = T (probe_index q k)" using k(3) j(2) by auto
        then have "ta_pointer (T (probe_index q i)) \<noteq> 0 \<and> ta_pointer (T (probe_index q i)) \<noteq> q"
          using assms(1) k unfolding table_ok_def by metis
        then show ?thesis using j(2) False assms(2) by (auto simp: usable_def)
      qed
      then show "ta_pointer (T' (probe_index q i)) \<noteq> 0" "ta_pointer (T' (probe_index q i)) \<noteq> q" by blast+
    qed
  qed
  show "table_map T' = (table_map T)(p \<mapsto> (n, d))"
  proof
    fix q
    show "table_map T' q = ((table_map T)(p \<mapsto> (n, d))) q"
    proof (cases "q = p")
      case True
      then show ?thesis using table_map_Some [OF ok probe_index_less, of p j p] j(2) assms(2) by (simp add: live_entry_def usable_def)
    next
      case False
      have "(\<lambda>i. live_entry (T' i) \<and> ta_pointer (T' i) = q) = (\<lambda>i. live_entry (T i) \<and> ta_pointer (T i) = q)"
        using False j(2,3) by (auto simp: fun_eq_iff)
      moreover have "T' i = T i" if "live_entry (T i)" for i using that j(2,3) by auto
      ultimately have "table_map T' q = table_map T q"
        unfolding table_map_def by (intro map_option_cong) (auto simp: find_Some_iff simp del: upt_Suc)
      then show ?thesis using False by simp
    qed
  qed
qed

text \<open>It fails only when the pointer is there already or the table is full.\<close>

lemma insert_fails:
  assumes "usable p" "table_map T p = None" "allocation_insert p n d T = None"
  shows "\<forall>i < POINTER_TABLE_SIZE. live_entry (T i)"
proof -
  let ?e = "\<lparr>ta_pointer = p, ta_size = n, ta_device = d\<rparr>"
  have "ta_pointer (T i) \<noteq> p" if "i < POINTER_TABLE_SIZE" for i
    using assms(1,2) that by (auto simp: table_map_None usable_def live_entry_def)
  then have "\<forall>k < POINTER_TABLE_SIZE. live_entry (T (probe_index p k))"
    using insert_from_None [OF assms(3) [unfolded allocation_insert_def]] by auto
  then show ?thesis using probe_index_onto [of _ p] by metis
qed

lemma remove_ok:
  assumes "table_ok T" "usable p"
  shows "case allocation_remove p T of
      None \<Rightarrow> table_map T p = None
    | Some (e, T') \<Rightarrow> table_map T p = Some e \<and> table_ok T' \<and> table_map T' = (table_map T)(p := None)"
proof (cases "table_map T p")
  case None
  then have "\<forall>k < POINTER_TABLE_SIZE. ta_pointer (T (probe_index p (0 + k))) \<noteq> p"
    using absent [OF assms(2)] by simp
  then show ?thesis using remove_from_None None by (simp add: allocation_remove_def)
next
  case (Some e)
  then obtain i where i: "i < POINTER_TABLE_SIZE" "live_entry (T i)" "ta_pointer (T i) = p"
    by (auto simp: table_map_def find_Some_iff simp del: upt_Suc)
  obtain k where k: "k < POINTER_TABLE_SIZE" "probe_index p k = i" using probe_index_onto [OF i(1)] by blast
  let ?T' = "T(i := (T i)\<lparr>ta_pointer := POINTER_TOMBSTONE, ta_size := 0\<rparr>)"
  have "\<forall>j < k. ta_pointer (T (probe_index p j)) \<noteq> 0 \<and> ta_pointer (T (probe_index p j)) \<noteq> p"
    using assms(1) k i unfolding table_ok_def by metis
  then have r: "allocation_remove p T = Some ((ta_size (T i), ta_device (T i)), ?T')"
    unfolding allocation_remove_def using remove_from_eq [of k T p 0 POINTER_TABLE_SIZE] k i assms(2) by (simp add: usable_def)
  have dead: "\<not> live_entry (?T' i)" by (simp add: live_entry_def)
  have ok: "table_ok ?T'"
    unfolding table_ok_def
  proof (intro allI impI)
    fix q m j
    assume m: "m < POINTER_TABLE_SIZE" "live_entry (?T' (probe_index q m))" "ta_pointer (?T' (probe_index q m)) = q" "j < m"
    then have ne: "probe_index q m \<noteq> i" using dead by metis
    then have "live_entry (T (probe_index q m))" "ta_pointer (T (probe_index q m)) = q" using m by simp_all
    then have "ta_pointer (T (probe_index q j)) \<noteq> 0 \<and> ta_pointer (T (probe_index q j)) \<noteq> q" "usable q"
      using assms(1) m(1,4) unfolding table_ok_def usable_def live_entry_def by blast+
    then show "ta_pointer (?T' (probe_index q j)) \<noteq> 0 \<and> ta_pointer (?T' (probe_index q j)) \<noteq> q"
      by (auto simp: usable_def)
  qed
  have "table_map ?T' q = ((table_map T)(p := None)) q" for q
  proof (cases "q = p")
    case True
    have "ta_pointer (T j) \<noteq> p" if "j < POINTER_TABLE_SIZE" "j \<noteq> i" for j
      using table_unique [OF assms(1) i(1) that(1) i(2,3)] that(2) by blast
    then show ?thesis using True dead by (auto simp: table_map_None)
  next
    case False
    have "(\<lambda>j. live_entry (?T' j) \<and> ta_pointer (?T' j) = q) = (\<lambda>j. live_entry (T j) \<and> ta_pointer (T j) = q)"
      using False i(3) dead by (auto simp: fun_eq_iff)
    then have "table_map ?T' q = table_map T q"
      unfolding table_map_def using False i(3) by (intro map_option_cong) (auto simp: find_Some_iff simp del: upt_Suc)
    then show ?thesis using False by simp
  qed
  then show ?thesis using r ok table_map_Some [OF assms(1) i] by auto
qed

lemma empty_table_ok [simp]: "table_ok empty_table" "table_map empty_table = Map.empty"
  by (auto simp: table_ok_def empty_table_def live_entry_def table_map_None fun_eq_iff)

text \<open>The interface of the table, as the hook uses it.\<close>

locale finite_table =
  fixes ok :: "'t \<Rightarrow> bool" and contents :: "'t \<Rightarrow> 'k \<rightharpoonup> 'v" and key :: "'k \<Rightarrow> bool"
    and insert_entry :: "'k \<Rightarrow> 'v \<Rightarrow> 't \<Rightarrow> 't option" and remove_entry :: "'k \<Rightarrow> 't \<Rightarrow> ('v \<times> 't) option"
  assumes inserted: "ok t \<Longrightarrow> key k \<Longrightarrow> contents t k = None \<Longrightarrow> insert_entry k v t = Some t' \<Longrightarrow> ok t' \<and> contents t' = (contents t)(k \<mapsto> v)"
    and removed: "ok t \<Longrightarrow> key k \<Longrightarrow> remove_entry k t = Some (v, t') \<Longrightarrow>
      contents t k = Some v \<and> ok t' \<and> contents t' = (contents t)(k := None)"
    and missing: "ok t \<Longrightarrow> key k \<Longrightarrow> remove_entry k t = None \<Longrightarrow> contents t k = None"
begin

lemma insert_remove:
  assumes "ok t" "key k" "contents t k = None" "insert_entry k v t = Some t'"
  shows "\<exists>t''. remove_entry k t' = Some (v, t'') \<and> ok t'' \<and> contents t'' = contents t"
proof -
  have t': "ok t'" "contents t' = (contents t)(k \<mapsto> v)" using inserted [OF assms] by simp_all
  obtain w t'' where r: "remove_entry k t' = Some (w, t'')"
    using missing [OF t'(1) assms(2)] t'(2) by (cases "remove_entry k t'") auto
  then have "w = v" "ok t''" "contents t'' = (contents t')(k := None)" using removed [OF t'(1) assms(2)] t'(2) by auto
  then show ?thesis using r t'(2) assms(3) by (auto simp: fun_eq_iff)
qed

end

interpretation pointers: finite_table table_ok table_map usable "\<lambda>p (n, d). allocation_insert p n d" allocation_remove
proof
  fix t t' :: pointer_table and k and v :: "u64 \<times> int"
  show "table_ok t \<Longrightarrow> usable k \<Longrightarrow> table_map t k = None \<Longrightarrow> (case v of (n, d) \<Rightarrow> allocation_insert k n d) t = Some t' \<Longrightarrow>
    table_ok t' \<and> table_map t' = (table_map t)(k \<mapsto> v)"
    using insert_ok [of t k "fst v" "snd v" t'] by (simp add: case_prod_unfold)
  show "table_ok t \<Longrightarrow> usable k \<Longrightarrow> allocation_remove k t = Some (v, t') \<Longrightarrow>
    table_map t k = Some v \<and> table_ok t' \<and> table_map t' = (table_map t)(k := None)"
    using remove_ok [of t k] by simp
  show "table_ok t \<Longrightarrow> usable k \<Longrightarrow> allocation_remove k t = None \<Longrightarrow> table_map t k = None"
    using remove_ok [of t k] by simp
qed

text \<open>
  A pointer that is in the table behind a tombstone is not recognised as a duplicate: the insert takes
  the tombstone, and the table then holds the pointer twice.
\<close>

lemma duplicate_not_seen:
  assumes "usable p" "ta_pointer (T (probe_index p 0)) = POINTER_TOMBSTONE"
  shows "allocation_insert p n d T = Some (T(probe_index p 0 := \<lparr>ta_pointer = p, ta_size = n, ta_device = d\<rparr>))"
proof -
  have "POINTER_TABLE_SIZE = Suc 262143" by simp
  then show ?thesis using assms unfolding allocation_insert_def by (simp only: insert_from.simps) (auto simp: Let_def usable_def)
qed

end
