(* ===== verification/UrHook.thy ===== *)
theory UrHook
  imports CopyResidency UrTable
begin

text \<open>
  The Unified Runtime allocation hook of Windows (\<open>src-xpu/ur-usm-detour.c\<close>): every device allocation of
  the process passes through it. It applies the budget before the request is placed, and asks PyTorch for
  its cache first: a request of PyTorch's allocator is refused once, which makes PyTorch release its
  cached blocks and retry, and the retry is let through. The bytes it has seen allocated are accounted
  to the device, in a table of live pointers.

  The retry record is local to a thread (\<open>th\<close>). A null entry point is 0. Calls run with the hook's
  critical section held, so each is one step. \<open>LONG64\<close> counters are words read with \<open>sint\<close>.
\<close>

abbreviation UR_RESULT_SUCCESS :: int where "UR_RESULT_SUCCESS \<equiv> 0"
abbreviation UR_RESULT_ERROR_UNINITIALIZED :: int where "UR_RESULT_ERROR_UNINITIALIZED \<equiv> 37"
abbreviation UR_RESULT_ERROR_OUT_OF_DEVICE_MEMORY :: int where "UR_RESULT_ERROR_OUT_OF_DEVICE_MEMORY \<equiv> 39"
abbreviation UR_RESULT_ERROR_OUT_OF_RESOURCES :: int where "UR_RESULT_ERROR_OUT_OF_RESOURCES \<equiv> 40"
abbreviation MAX_TRACKED_DEVICES :: int where "MAX_TRACKED_DEVICES \<equiv> 16"
abbreviation CLASSIFY_MAX_FRAMES :: nat where "CLASSIFY_MAX_FRAMES \<equiv> 32"

subsection \<open>State\<close>

datatype ur_stat =
    AllocCalls | FreeCalls | PassThroughAllocCalls | TrackedAllocCalls | TrackedAllocBytes | TrackedFreeCalls
  | TrackedFreeBytes | SyntheticOomCalls | RuntimeOomCalls | NativeReclaimFreeCalls | NativeReclaimFreeBytes
  | RetryEvictionCalls | RetryEvictionBytes | UnknownDeviceCalls | UnknownFreeCalls | DroppedMetadataCalls
  | DirectPressureCalls | DirectPressureBytes | DuplicatePointerCalls | PhysicalMemCreateCalls | CacheLeverSkippedCalls

definition ur_stat_order :: "ur_stat list" where
  "ur_stat_order = [AllocCalls, FreeCalls, PassThroughAllocCalls, TrackedAllocCalls, TrackedAllocBytes, TrackedFreeCalls,
     TrackedFreeBytes, SyntheticOomCalls, RuntimeOomCalls, NativeReclaimFreeCalls, NativeReclaimFreeBytes,
     RetryEvictionCalls, RetryEvictionBytes, UnknownDeviceCalls, UnknownFreeCalls, DroppedMetadataCalls,
     DirectPressureCalls, DirectPressureBytes, DuplicatePointerCalls, PhysicalMemCreateCalls, CacheLeverSkippedCalls]"

datatype retry_reason = RetryNone | RetryBudgetDeficit | RetryRuntimeOom

record ur_retry =
  rt_context :: u64
  rt_device :: u64
  rt_pool :: u64
  rt_size :: u64
  rt_reason :: retry_reason
  rt_generation :: u64
  rt_returned_bytes :: u64

record ustate = cstate +
  true_alloc :: u64
  true_free :: u64
  true_physical :: u64
  real_native :: u64
  ur_attached :: bool
  ur_enabled :: bool
  ur_lock_ready :: bool
  ur_generation :: u64
  ur_stats :: "ur_stat \<Rightarrow> u64"
  ur_retry :: "nat \<Rightarrow> ur_retry"
  torch_cached :: "int \<Rightarrow> u64"
  ur_allocations :: pointer_table
  ur_allocation_count :: u64
  torch_module :: "(u64 \<times> u64) option"
  classify_calls :: u64
  classify_ticks :: u64
  classify_torch_hits :: u64
  hook_calls :: u64
  hook_ticks :: u64

definition ur_stat_add :: "ur_stat \<Rightarrow> u64 \<Rightarrow> 'z ustate_scheme \<Rightarrow> 'z ustate_scheme" where
  "ur_stat_add k n s = s\<lparr>ur_stats := (ur_stats s)(k := ur_stats s k + n)\<rparr>"

subsection \<open>PyTorch's cache\<close>

definition torch_cached_bytes :: "int \<Rightarrow> 'z ustate_scheme \<Rightarrow> int" where
  "torch_cached_bytes dev s = (if dev < 0 \<or> dev \<ge> MAX_TRACKED_DEVICES then 0 else sint (torch_cached s dev))"

definition torch_cached_bytes_consume :: "int \<Rightarrow> u64 \<Rightarrow> 'z ustate_scheme \<Rightarrow> 'z ustate_scheme" where
  "torch_cached_bytes_consume dev returned s =
     (if dev < 0 \<or> dev \<ge> MAX_TRACKED_DEVICES then s
      else if sint returned \<le> 0 then s\<lparr>torch_cached := (torch_cached s)(dev := 0)\<rparr>
      else let current = torch_cached s dev in
        s\<lparr>torch_cached := (torch_cached s)(dev := if sint current > sint returned then current - returned else 0)\<rparr>)"

definition xpu_ur_hook_set_torch_cached_bytes :: "int \<Rightarrow> u64 \<Rightarrow> 'z ustate_scheme \<Rightarrow> 'z ustate_scheme" where
  "xpu_ur_hook_set_torch_cached_bytes dev bytes s =
     (if dev < 0 \<or> dev \<ge> MAX_TRACKED_DEVICES then s else s\<lparr>torch_cached := (torch_cached s)(dev := bytes)\<rparr>)"

subsection \<open>Who is calling\<close>

text \<open>The image of PyTorch's allocator, found once it is loaded: \<open>FindModule 3\<close> answers with its range.\<close>

definition ensure_torch_module :: "env \<Rightarrow> 'z ustate_scheme \<Rightarrow> ((u64 \<times> u64) option \<times> 'z ustate_scheme) option" where
  "ensure_torch_module E s = (case torch_module s of
      Some img \<Rightarrow> Some (Some img, s)
    | None \<Rightarrow> do {
        (r, s) \<leftarrow> ask E (FindModule 3) s;
        if r_rc r \<noteq> 0 then Some (None, s)
        else Some (Some (r_val r, r_val2 r), s\<lparr>torch_module := Some (r_val r, r_val2 r)\<rparr>) })"

definition is_torch_native_segment_request :: "env \<Rightarrow> 'z ustate_scheme \<Rightarrow> (bool \<times> 'z ustate_scheme) option" where
  "is_torch_native_segment_request E s = do {
     (img, s) \<leftarrow> ensure_torch_module E s;
     case img of
       None \<Rightarrow> Some (False, s)
     | Some (lo, hi) \<Rightarrow> do {
         (started, s) \<leftarrow> ask E GetTick s;
         (frames, s) \<leftarrow> ask E UrTorchCaller s;
         let found = list_ex (\<lambda>address. address \<ge> lo \<and> address < hi) (take CLASSIFY_MAX_FRAMES (r_vals frames));
         (finished, s) \<leftarrow> ask E GetTick s;
         let s = s\<lparr>classify_ticks := classify_ticks s + (r_val finished - r_val started), classify_calls := classify_calls s + 1\<rparr>;
         Some (found, if found then s\<lparr>classify_torch_hits := classify_torch_hits s + 1\<rparr> else s) } }"

definition resolve_device :: "env \<Rightarrow> u64 \<Rightarrow> 'z ustate_scheme \<Rightarrow> (int \<times> 'z ustate_scheme) option" where
  "resolve_device E dev s =
     (if real_native s = 0 then Some (- 1, s)
      else do {
        (r, s) \<leftarrow> ask E (UrDeviceIndex dev) s;
        Some (if r_rc r \<noteq> 0 then - 1 else sint (r_val r), s) })"

subsection \<open>The retry record\<close>

definition no_retry :: ur_retry where
  "no_retry = \<lparr>rt_context = 0, rt_device = 0, rt_pool = 0, rt_size = 0, rt_reason = RetryNone, rt_generation = 0, rt_returned_bytes = 0\<rparr>"

definition clear_retry :: "nat \<Rightarrow> 'z ustate_scheme \<Rightarrow> 'z ustate_scheme" where
  "clear_retry th s = s\<lparr>ur_retry := (ur_retry s)(th := no_retry)\<rparr>"

definition retry_matches :: "ur_retry \<Rightarrow> u64 \<Rightarrow> u64 \<Rightarrow> u64 \<Rightarrow> u64 \<Rightarrow> u64 \<Rightarrow> bool" where
  "retry_matches r context dev pool n generation \<longleftrightarrow> rt_reason r \<noteq> RetryNone \<and> rt_context r = context \<and>
     rt_device r = dev \<and> rt_pool r = pool \<and> rt_size r = n \<and> rt_generation r = generation"

definition arm_retry :: "nat \<Rightarrow> u64 \<Rightarrow> u64 \<Rightarrow> u64 \<Rightarrow> u64 \<Rightarrow> retry_reason \<Rightarrow> u64 \<Rightarrow> 'z ustate_scheme \<Rightarrow> 'z ustate_scheme" where
  "arm_retry th context dev pool n reason generation s = s\<lparr>ur_retry := (ur_retry s)(th :=
     \<lparr>rt_context = context, rt_device = dev, rt_pool = pool, rt_size = n, rt_reason = reason,
      rt_generation = generation, rt_returned_bytes = 0\<rparr>)\<rparr>"

definition is_oom :: "int \<Rightarrow> bool" where
  "is_oom result \<longleftrightarrow> result = UR_RESULT_ERROR_OUT_OF_DEVICE_MEMORY \<or> result = UR_RESULT_ERROR_OUT_OF_HOST_MEMORY \<or>
     result = UR_RESULT_ERROR_OUT_OF_RESOURCES"

subsection \<open>Allocation\<close>

text \<open>
  The results are the code and what \<open>*pointer\<close> holds; \<open>out\<close> is whether the caller gave a \<open>pointer\<close>.
\<close>

definition true_urUSMDeviceAlloc ::
  "env \<Rightarrow> u64 \<Rightarrow> u64 \<Rightarrow> u64 \<Rightarrow> u64 \<Rightarrow> bool \<Rightarrow> 'z ustate_scheme \<Rightarrow> ((int \<times> u64) \<times> 'z ustate_scheme) option" where
  "true_urUSMDeviceAlloc E context dev pool n out s = do {
     (r, s) \<leftarrow> ask E (UrDeviceAlloc context dev pool n) s;
     Some ((r_rc r, if out then r_val r else 0), s) }"

definition allocate_and_account ::
  "env \<Rightarrow> u64 \<Rightarrow> u64 \<Rightarrow> u64 \<Rightarrow> u64 \<Rightarrow> bool \<Rightarrow> int \<Rightarrow> 'z ustate_scheme \<Rightarrow> ((int \<times> u64) \<times> 'z ustate_scheme) option" where
  "allocate_and_account E context dev pool n out aimdo_device s = do {
     ((result, pointer), s) \<leftarrow> true_urUSMDeviceAlloc E context dev pool n out s;
     if is_oom result then
       Some ((if result = UR_RESULT_ERROR_OUT_OF_RESOURCES then UR_RESULT_ERROR_OUT_OF_DEVICE_MEMORY else result, pointer),
         ur_stat_add RuntimeOomCalls 1 s)
     else if result \<noteq> UR_RESULT_SUCCESS \<or> pointer = 0 then Some ((result, pointer), s)
     else case allocation_insert pointer n aimdo_device (ur_allocations s) of
       None \<Rightarrow> Some ((result, pointer), ur_stat_add DroppedMetadataCalls 1 (ur_stat_add DuplicatePointerCalls 1 s))
     | Some T \<Rightarrow> do {
         let s = s\<lparr>ur_allocations := T, ur_allocation_count := ur_allocation_count s + 1\<rparr>;
         let s = snd (aimdo_xpu_account_allocation aimdo_device (sint n) s);
         Some ((result, pointer), ur_stat_add TrackedAllocBytes n (ur_stat_add TrackedAllocCalls 1 s)) } }"

definition pass_through ::
  "env \<Rightarrow> u64 \<Rightarrow> u64 \<Rightarrow> u64 \<Rightarrow> u64 \<Rightarrow> bool \<Rightarrow> 'z ustate_scheme \<Rightarrow> ((int \<times> u64) \<times> 'z ustate_scheme) option" where
  "pass_through E context dev pool n out s = true_urUSMDeviceAlloc E context dev pool n out (ur_stat_add PassThroughAllocCalls 1 s)"

text \<open>PyTorch retries what was refused.\<close>

definition retry_request ::
  "env \<Rightarrow> nat \<Rightarrow> u64 \<Rightarrow> u64 \<Rightarrow> u64 \<Rightarrow> u64 \<Rightarrow> bool \<Rightarrow> int \<Rightarrow> int \<Rightarrow> 'z ustate_scheme \<Rightarrow> ((int \<times> u64) \<times> 'z ustate_scheme) option" where
  "retry_request E th context dev pool n out aimdo_device deficit s = do {
     let reason = rt_reason (ur_retry s th);
     let eviction = (if deficit > 0 then deficit else 0);
     let returned = rt_returned_bytes (ur_retry s th);
     let s = torch_cached_bytes_consume aimdo_device returned (clear_retry th s);
     let eviction = (if reason = RetryRuntimeOom \<and> eviction < sint n then sint n else eviction);
     (_, s) \<leftarrow> (if eviction > 0 then do {
         (_, s) \<leftarrow> aimdo_xpu_evict_for_allocation E aimdo_device eviction s;
         Some ((), ur_stat_add RetryEvictionBytes (of_int eviction) (ur_stat_add RetryEvictionCalls 1 s)) }
       else Some ((), s));
     allocate_and_account E context dev pool n out aimdo_device s }"

text \<open>The pressure of a request that is not a retry: \<open>Inr\<close> the refusal.\<close>

definition apply_pressure ::
  "env \<Rightarrow> nat \<Rightarrow> u64 \<Rightarrow> u64 \<Rightarrow> u64 \<Rightarrow> u64 \<Rightarrow> bool \<Rightarrow> int \<Rightarrow> int \<Rightarrow> u64 \<Rightarrow> 'z ustate_scheme
   \<Rightarrow> ((unit + int) \<times> 'z ustate_scheme) option" where
  "apply_pressure E th context dev pool n torch_native aimdo_device deficit generation s =
     (if deficit \<le> 0 then Some (Inl (), s)
      else if torch_native \<and> torch_cached_bytes aimdo_device s > 0 then
        Some (Inr UR_RESULT_ERROR_OUT_OF_DEVICE_MEMORY,
          ur_stat_add SyntheticOomCalls 1 (arm_retry th context dev pool n RetryBudgetDeficit generation s))
      else do {
        let s = (if torch_native then ur_stat_add CacheLeverSkippedCalls 1 s else s);
        (ok, s) \<leftarrow> aimdo_xpu_evict_for_allocation E aimdo_device deficit s;
        if \<not> ok then Some (Inr UR_RESULT_ERROR_OUT_OF_DEVICE_MEMORY, s)
        else Some (Inl (), ur_stat_add DirectPressureBytes (of_int deficit) (ur_stat_add DirectPressureCalls 1 s)) })"

definition fresh_request ::
  "env \<Rightarrow> nat \<Rightarrow> u64 \<Rightarrow> u64 \<Rightarrow> u64 \<Rightarrow> u64 \<Rightarrow> bool \<Rightarrow> int \<Rightarrow> int \<Rightarrow> u64 \<Rightarrow> bool \<Rightarrow> bool \<Rightarrow> 'z ustate_scheme
   \<Rightarrow> ((int \<times> u64) \<times> 'z ustate_scheme) option" where
  "fresh_request E th context dev pool n out aimdo_device deficit generation classified torch_native s = do {
     (r, s) \<leftarrow> apply_pressure E th context dev pool n torch_native aimdo_device deficit generation (clear_retry th s);
     case r of
       Inr refusal \<Rightarrow> Some ((refusal, 0), s)
     | Inl _ \<Rightarrow> do {
         ((result, pointer), s) \<leftarrow> allocate_and_account E context dev pool n out aimdo_device s;
         if is_oom result then do {
           (torch_native, s) \<leftarrow> (if classified then Some (torch_native, s) else is_torch_native_segment_request E s);
           Some ((result, pointer), if torch_native then arm_retry th context dev pool n RetryRuntimeOom generation s else s) }
         else Some ((result, pointer), s) } }"

definition decide_request ::
  "env \<Rightarrow> nat \<Rightarrow> u64 \<Rightarrow> u64 \<Rightarrow> u64 \<Rightarrow> u64 \<Rightarrow> bool \<Rightarrow> int \<Rightarrow> int \<Rightarrow> u64 \<Rightarrow> 'z ustate_scheme \<Rightarrow> ((int \<times> u64) \<times> 'z ustate_scheme) option" where
  "decide_request E th context dev pool n out aimdo_device deficit generation s = do {
     let classified = (deficit > 0 \<or> rt_reason (ur_retry s th) \<noteq> RetryNone);
     (torch_native, s) \<leftarrow> (if classified then is_torch_native_segment_request E s else Some (False, s));
     if torch_native \<and> retry_matches (ur_retry s th) context dev pool n generation
     then retry_request E th context dev pool n out aimdo_device deficit s
     else fresh_request E th context dev pool n out aimdo_device deficit generation classified torch_native s }"

definition aimdo_urUSMDeviceAlloc_body ::
  "env \<Rightarrow> nat \<Rightarrow> u64 \<Rightarrow> u64 \<Rightarrow> u64 \<Rightarrow> u64 \<Rightarrow> bool \<Rightarrow> 'z ustate_scheme \<Rightarrow> ((int \<times> u64) \<times> 'z ustate_scheme) option" where
  "aimdo_urUSMDeviceAlloc_body E th context dev pool n out s =
     (if true_alloc s = 0 then Some ((UR_RESULT_ERROR_UNINITIALIZED, 0), s)
      else if \<not> ur_enabled s then pass_through E context dev pool n out s
      else do {
        let generation = ur_generation s;
        (aimdo_device, s) \<leftarrow> resolve_device E dev s;
        if aimdo_device < 0
        then true_urUSMDeviceAlloc E context dev pool n out (ur_stat_add UnknownDeviceCalls 1 (clear_retry th s))
        else do {
          (deficit, s) \<leftarrow> aimdo_xpu_allocation_deficit E aimdo_device n s;
          case deficit of
            None \<Rightarrow> true_urUSMDeviceAlloc E context dev pool n out (clear_retry th s)
          | Some deficit \<Rightarrow> decide_request E th context dev pool n out aimdo_device deficit generation s } })"

definition aimdo_urUSMDeviceAlloc ::
  "env \<Rightarrow> nat \<Rightarrow> u64 \<Rightarrow> u64 \<Rightarrow> u64 \<Rightarrow> u64 \<Rightarrow> bool \<Rightarrow> 'z ustate_scheme \<Rightarrow> ((int \<times> u64) \<times> 'z ustate_scheme) option" where
  "aimdo_urUSMDeviceAlloc E th context dev pool n out s = do {
     (started, s) \<leftarrow> ask E GetTick s;
     (result, s) \<leftarrow> aimdo_urUSMDeviceAlloc_body E th context dev pool n out s;
     (finished, s) \<leftarrow> ask E GetTick s;
     let s = ur_stat_add AllocCalls 1 s;
     Some (result, s\<lparr>hook_ticks := hook_ticks s + (r_val finished - r_val started), hook_calls := hook_calls s + 1\<rparr>) }"

subsection \<open>Free\<close>

definition aimdo_urUSMFree :: "env \<Rightarrow> nat \<Rightarrow> u64 \<Rightarrow> u64 \<Rightarrow> 'z ustate_scheme \<Rightarrow> (int \<times> 'z ustate_scheme) option" where
  "aimdo_urUSMFree E th context pointer s =
     (if true_free s = 0 then Some (UR_RESULT_ERROR_UNINITIALIZED, s)
      else do {
        let s = ur_stat_add FreeCalls 1 s;
        let enabled = ur_enabled s;
        (r, s) \<leftarrow> ask E (UrFree context pointer) s;
        let result = r_rc r;
        if \<not> enabled \<or> result \<noteq> UR_RESULT_SUCCESS then Some (result, s)
        else case allocation_remove pointer (ur_allocations s) of
          None \<Rightarrow> Some (result, ur_stat_add UnknownFreeCalls 1 s)
        | Some ((n, dev), T) \<Rightarrow> do {
            let s = s\<lparr>ur_allocations := T, ur_allocation_count := ur_allocation_count s - 1\<rparr>;
            let s = snd (aimdo_xpu_account_allocation dev (- sint n) s);
            let retry = ur_retry s th;
            let s = (if rt_reason retry \<noteq> RetryNone \<and> rt_generation retry = ur_generation s
              then ur_stat_add NativeReclaimFreeBytes n (ur_stat_add NativeReclaimFreeCalls 1
                (s\<lparr>ur_retry := (ur_retry s)(th := retry\<lparr>rt_returned_bytes := rt_returned_bytes retry + n\<rparr>)\<rparr>))
              else s);
            Some (result, ur_stat_add TrackedFreeBytes n (ur_stat_add TrackedFreeCalls 1 s)) } })"

definition aimdo_urPhysicalMemCreate :: "env \<Rightarrow> u64 \<Rightarrow> u64 \<Rightarrow> u64 \<Rightarrow> 'z ustate_scheme \<Rightarrow> (int \<times> 'z ustate_scheme) option" where
  "aimdo_urPhysicalMemCreate E context dev n s =
     (if true_physical s = 0 then None
      else do {
        (r, s) \<leftarrow> ask E (UrPhysicalMemCreate context dev n) (ur_stat_add PhysicalMemCreateCalls 1 s);
        Some (r_rc r, s) })"

subsection \<open>Installing, enabling and removing\<close>

definition ur_hook_disabled_by_request :: "env \<Rightarrow> 'z base_scheme \<Rightarrow> (bool \<times> 'z base_scheme) option" where
  "ur_hook_disabled_by_request E s = do { (r, s) \<leftarrow> ask E (Getenv 1) s; Some (r_rc r \<noteq> 0, s) }"

definition ur_entries :: "'z ustate_scheme \<Rightarrow> nat list" where
  "ur_entries s = [4, 5] @ (if true_physical s \<noteq> 0 then [6] else [])"

definition drop_entries :: "'z ustate_scheme \<Rightarrow> 'z ustate_scheme" where
  "drop_entries s = s\<lparr>true_alloc := 0, true_free := 0, true_physical := 0\<rparr>"

definition attach_ur_hook :: "env \<Rightarrow> 'z ustate_scheme \<Rightarrow> (bool \<times> 'z ustate_scheme) option" where
  "attach_ur_hook E s = do {
     (_, s) \<leftarrow> ask E (Detour 0 0) s;
     (ok, s) \<leftarrow> detour_all E 1 (ur_entries s) s;
     if \<not> ok then do { (_, s) \<leftarrow> ask E (Detour 4 0) s; Some (False, drop_entries s) }
     else do {
       (r, s) \<leftarrow> ask E (Detour 3 0) s;
       if r_rc r \<noteq> 0 then Some (False, s) else Some (True, s\<lparr>ur_attached := True\<rparr>) } }"

definition aimdo_xpu_ur_hook_install :: "env \<Rightarrow> 'z ustate_scheme \<Rightarrow> (bool \<times> 'z ustate_scheme) option" where
  "aimdo_xpu_ur_hook_install E s =
     (if ur_attached s then Some (True, s)
      else do {
        (disabled, s) \<leftarrow> ur_hook_disabled_by_request E s;
        if disabled then Some (False, s)
        else do {
          (loader, s) \<leftarrow> resolve_ur_loader E (s\<lparr>ur_lock_ready := True\<rparr>);
          if loader = 0 then Some (False, s)
          else do {
            (a, s) \<leftarrow> ask E (LookupSymbol loader 11) s;
            (f, s) \<leftarrow> ask E (LookupSymbol loader 12) s;
            (p, s) \<leftarrow> ask E (LookupSymbol loader 13) s;
            (d, s) \<leftarrow> ask E (LookupSymbol loader 14) s;
            let s = s\<lparr>true_alloc := r_val a, true_free := r_val f, true_physical := r_val p, real_native := r_val d\<rparr>;
            if true_alloc s = 0 \<or> true_free s = 0 \<or> real_native s = 0 then Some (False, s)
            else attach_ur_hook E s } } })"

definition aimdo_xpu_ur_hook_remove :: "env \<Rightarrow> 'z ustate_scheme \<Rightarrow> (unit \<times> 'z ustate_scheme) option" where
  "aimdo_xpu_ur_hook_remove E s =
     (if \<not> ur_attached s then Some ((), s)
      else do {
        (_, s) \<leftarrow> ask E (Detour 0 0) (s\<lparr>ur_enabled := False\<rparr>);
        (_, s) \<leftarrow> each (\<lambda>k s. do { (_, s) \<leftarrow> ask E (Detour 2 k) s; Some ((), s) }) (ur_entries s) s;
        (r, s) \<leftarrow> ask E (Detour 3 0) s;
        if r_rc r \<noteq> 0 then Some ((), s) else Some ((), (drop_entries s)\<lparr>ur_attached := False\<rparr>) })"

definition xpu_ur_hook_is_interposed :: "env \<Rightarrow> 'z ustate_scheme \<Rightarrow> (bool \<times> 'z ustate_scheme) option" where
  "xpu_ur_hook_is_interposed E s = (if ur_attached s then Some (True, s) else aimdo_xpu_ur_hook_install E s)"

definition xpu_ur_hook_enable :: "env \<Rightarrow> nat \<Rightarrow> 'z ustate_scheme \<Rightarrow> (bool \<times> 'z ustate_scheme) option" where
  "xpu_ur_hook_enable E th s = do {
     (ok, s) \<leftarrow> xpu_ur_hook_is_interposed E s;
     Some (ok, if ok \<and> \<not> ur_enabled s
       then (clear_retry th (s\<lparr>ur_generation := ur_generation s + 1\<rparr>))\<lparr>ur_enabled := True\<rparr> else s) }"

definition xpu_ur_hook_disable :: "nat \<Rightarrow> 'z ustate_scheme \<Rightarrow> bool \<times> 'z ustate_scheme" where
  "xpu_ur_hook_disable th s =
     (if \<not> ur_lock_ready s then (True, s)
      else (True, (clear_retry th (s\<lparr>ur_enabled := False, ur_generation := ur_generation s + 1\<rparr>))
        \<lparr>ur_allocation_count := 0, ur_allocations := empty_table\<rparr>))"

definition xpu_ur_hook_get_stats :: "'z ustate_scheme \<Rightarrow> nat \<Rightarrow> u64 list option" where
  "xpu_ur_hook_get_stats s count =
     (if count < length ur_stat_order then None else Some (map (ur_stats s) ur_stat_order))"

end
