(* ===== verification/UrHookInv.thy ===== *)
theory UrHookInv
  imports UrHook
begin

text \<open>
  What the Unified Runtime hook guarantees: no request is refused twice in a row, the table is the map of
  the live pointers that it has seen, and the bytes accounted to the device are the bytes in the table.
\<close>

subsection \<open>Steps that leave the hook's records alone\<close>

abbreviation (input) no_ur :: "call \<Rightarrow> bool" where
  "no_ur c \<equiv> (\<forall>x d p n. c \<noteq> UrDeviceAlloc x d p n) \<and> (\<forall>x p. c \<noteq> UrFree x p)"

definition near :: "'z ustate_scheme \<Rightarrow> 'z ustate_scheme \<Rightarrow> bool" where
  "near s t \<longleftrightarrow> asked_only no_ur (hist s) (hist t) \<and> ur_allocations t = ur_allocations s \<and>
     total_vram_usage t = total_vram_usage s \<and> device_id t = device_id s \<and> true_alloc t = true_alloc s \<and>
     true_free t = true_free s \<and> ur_enabled t = ur_enabled s \<and> ur_generation t = ur_generation s"

lemma near_refl [simp]: "near s s"
  by (simp add: near_def)

lemma near_trans: "near s t \<Longrightarrow> near t u \<Longrightarrow> near s u"
  by (auto simp: near_def intro: asked_only_trans)

lemma near_upd [simp]:
  "near s (ur_stat_add k n t) = near s t" "near s (clear_retry th t) = near s t"
  "near s (arm_retry th x d p n r g t) = near s t" "near s (torch_cached_bytes_consume dev m t) = near s t"
  "near s (t\<lparr>ur_retry := q\<rparr>) = near s t" "near s (t\<lparr>torch_module := tm\<rparr>) = near s t"
  "near s (t\<lparr>classify_ticks := a\<rparr>) = near s t" "near s (t\<lparr>classify_calls := a\<rparr>) = near s t"
  "near s (t\<lparr>classify_torch_hits := a\<rparr>) = near s t"
  by (simp_all add: near_def ur_stat_add_def clear_retry_def arm_retry_def torch_cached_bytes_consume_def Let_def)

lemma near_ask: "near s t \<Longrightarrow> no_ur c \<Longrightarrow> near s (t\<lparr>hist := c # hist t\<rparr>)"
  by (simp add: near_def)

lemma near_fields:
  assumes "near s t"
  shows "true_alloc t = true_alloc s" "ur_enabled t = ur_enabled s" "ur_generation t = ur_generation s"
    "device_id t = device_id s" "ur_allocations t = ur_allocations s" "total_vram_usage t = total_vram_usage s"
  using assms by (simp_all add: near_def)

lemma same_hook:
  assumes "ctx.more t = ctx.more (s :: 'z ustate_scheme)"
  shows "ur_allocations t = ur_allocations s" "true_alloc t = true_alloc s" "true_free t = true_free s"
    "ur_enabled t = ur_enabled s" "ur_generation t = ur_generation s" "ur_retry t = ur_retry s"
  using assms by (cases s, cases t, simp)+

lemma sampled_near: "sampled s (t :: 'z ustate_scheme) \<Longrightarrow> near s t \<and> ur_retry t = ur_retry s"
proof -
  assume a: "sampled s t"
  have "asked_only no_ur (hist s) (hist t)"
    using a by (auto simp: sampled_def elim!: asked_only_mono) 
  then show ?thesis
    using sampled_fields [OF a] same_hook [of t s] by (simp add: near_def)
qed

subsection \<open>The operations of the decision\<close>

lemma wp_resolve_device: "wp (resolve_device E dev s) (\<lambda>_ t. near s t \<and> ur_retry t = ur_retry s)"
  by (simp add: resolve_device_def near_ask)

lemma wp_ensure_torch_module: "wp (ensure_torch_module E s) (\<lambda>_ t. near s t \<and> ur_retry t = ur_retry s)"
  by (auto simp: ensure_torch_module_def near_ask split: option.split)

lemma wp_is_torch_request: "wp (is_torch_native_segment_request E s) (\<lambda>_ t. near s t \<and> ur_retry t = ur_retry s)"
  unfolding is_torch_native_segment_request_def
proof (rule wp_step [OF wp_ensure_torch_module], goal_cases)
  case (1 img t)
  then show ?case by (auto simp: Let_def near_def split: option.split)
qed

lemma wp_allocation_deficit:
  "wp (aimdo_xpu_allocation_deficit E dev n s) (\<lambda>r t. near s t \<and> ur_retry t = ur_retry s \<and> (r \<noteq> None \<longleftrightarrow> dev = device_id s))"
proof (cases "dev = device_id s")
  case True
  show ?thesis
    unfolding aimdo_xpu_allocation_deficit_def set_devctx_def
    by (simp add: True) (rule wp_conseq [OF wp_budget_deficit], use sampled_near in blast)
qed (simp add: aimdo_xpu_allocation_deficit_def set_devctx_def)

lemma near_request_reclaim [simp]: "near s (vbars_request_reclaim d t) = near s t" "ur_retry (vbars_request_reclaim d t) = ur_retry t"
  by (simp_all add: near_def vbars_request_reclaim_def)

lemma wp_evict:
  "is_win E \<Longrightarrow> wp (aimdo_xpu_evict_for_allocation E dev d s) (\<lambda>ok t. near s t \<and> ur_retry t = ur_retry s \<and> (ok \<longleftrightarrow> dev = device_id s))"
  by (simp add: aimdo_xpu_evict_for_allocation_def set_devctx_def)

lemma wp_evict_near: "is_win E \<Longrightarrow> near s u \<Longrightarrow> wp (aimdo_xpu_evict_for_allocation E dev d u) (\<lambda>_ t. near s t)"
  by (rule wp_conseq [OF wp_evict]) (auto intro: near_trans)

subsection \<open>No request is refused twice\<close>

definition asked_for :: "call \<Rightarrow> 'z base_scheme \<Rightarrow> 'z base_scheme \<Rightarrow> bool" where
  "asked_for c s t \<longleftrightarrow> (\<exists>cs. hist t = cs @ hist s \<and> c \<in> set cs)"

lemma asked_for_after:
  assumes "asked_only P (hist s) (hist t)" "asked_for c t u"
  shows "asked_for c s u"
proof -
  from assms obtain cs ds where "hist t = cs @ hist s" "hist u = ds @ hist t" "c \<in> set ds"
    by (auto simp: asked_only_def asked_for_def)
  then show ?thesis unfolding asked_for_def by (intro exI [of _ "ds @ cs"]) simp
qed

lemma near_asked_for: "near s t \<Longrightarrow> asked_for c t u \<Longrightarrow> asked_for c s u"
  using asked_for_after unfolding near_def by blast

lemma asked_for_hist: "asked_for c s t \<Longrightarrow> hist u = hist t \<Longrightarrow> asked_for c s u"
  by (simp add: asked_for_def)

lemma asked_for_Cons [simp]: "asked_for c s (s\<lparr>hist := c # hist s\<rparr>)"
  unfolding asked_for_def by (rule exI [of _ "[c]"]) simp

lemma hook_hist [simp]:
  "hist (ur_stat_add k n t) = hist t" "hist (clear_retry th t) = hist t" "hist (arm_retry th x d p m r g t) = hist t"
  "hist (torch_cached_bytes_consume dev b t) = hist t" "hist (snd (aimdo_xpu_account_allocation dev delta c)) = hist c"
  by (simp_all add: ur_stat_add_def clear_retry_def arm_retry_def torch_cached_bytes_consume_def aimdo_xpu_account_allocation_def Let_def)

lemma wp_true_alloc_asks: "wp (true_urUSMDeviceAlloc E x d p n out s) (\<lambda>_ t. asked_for (UrDeviceAlloc x d p n) s t)"
  by (simp add: true_urUSMDeviceAlloc_def)

lemma wp_allocate_asks: "wp (allocate_and_account E x d p n out dev s) (\<lambda>_ t. asked_for (UrDeviceAlloc x d p n) s t)"
  unfolding allocate_and_account_def
  by (auto simp: true_urUSMDeviceAlloc_def asked_for_def Let_def intro!: exI [of _ "[UrDeviceAlloc x d p n]"] split: option.split)

lemma wp_retry_asks:
  assumes "is_win E"
  shows "wp (retry_request E th x d p n out dev deficit s) (\<lambda>_ t. asked_for (UrDeviceAlloc x d p n) s t)"
  unfolding retry_request_def Let_def
proof (rule wp_step [where P = "\<lambda>_ t. near s t"], goal_cases)
  case 1
  show ?case by (auto intro!: wp_conseq [OF wp_evict [OF assms]] elim: near_trans [rotated] simp: near_trans)
next
  case (2 _ t)
  show ?case by (rule wp_conseq [OF wp_allocate_asks]) (rule near_asked_for [OF 2])
qed

lemma wp_apply_pressure:
  assumes "is_win E" "dev = device_id s"
  shows "wp (apply_pressure E th x d p n torch dev deficit g s) (\<lambda>r t. near s t \<and>
    (\<forall>rc. r = Inr rc \<longrightarrow> rc = UR_RESULT_ERROR_OUT_OF_DEVICE_MEMORY \<and> torch \<and> retry_matches (ur_retry t th) x d p n g))"
proof -
  have "wp (aimdo_xpu_evict_for_allocation E dev deficit u) (\<lambda>ok t. near s t \<and> ok)" if "near s u" for u :: "'a ustate_scheme"
    by (rule wp_conseq [OF wp_evict [OF assms(1)]]) (use that assms(2) near_trans near_fields(4) [OF that] in auto)
  note evict = this
  show ?thesis
    unfolding apply_pressure_def Let_def
    by (auto simp: retry_matches_def arm_retry_def ur_stat_add_def [of SyntheticOomCalls] intro!: wp_conseq [OF evict])
      (auto simp: near_def)
qed

lemma asked_for_upd [simp]:
  "asked_for c s (ur_stat_add k m t) = asked_for c s t" "asked_for c s (clear_retry th t) = asked_for c s t"
  "asked_for c s (arm_retry th x d p n r g t) = asked_for c s t"
  by (simp_all add: asked_for_def)

lemma asked_for_near: "asked_for c s t \<Longrightarrow> near t u \<Longrightarrow> asked_for c s u"
  unfolding asked_for_def near_def asked_only_def by (metis Un_iff append.assoc set_append)

text \<open>
  What becomes of a request: it reaches the driver, or is refused, and a refusal leaves the record that
  its retry will match. \<open>first\<close> says that a refused request was not itself such a retry.
\<close>

definition decided :: "nat \<Rightarrow> u64 \<Rightarrow> u64 \<Rightarrow> u64 \<Rightarrow> u64 \<Rightarrow> u64 \<Rightarrow> bool \<Rightarrow> 'z ustate_scheme \<Rightarrow> int \<times> u64 \<Rightarrow> 'z ustate_scheme \<Rightarrow> bool" where
  "decided th x d p n g first s r t \<longleftrightarrow> asked_for (UrDeviceAlloc x d p n) s t \<or>
     (r = (UR_RESULT_ERROR_OUT_OF_DEVICE_MEMORY, 0) \<and> near s t \<and> first \<and> retry_matches (ur_retry t th) x d p n g)"

lemma decided_asked: "asked_for (UrDeviceAlloc x d p n) s t \<Longrightarrow> decided th x d p n g first s r t"
  by (simp add: decided_def)

lemma decided_after: "near s t \<Longrightarrow> decided th x d p n g first t r u \<Longrightarrow> decided th x d p n g first s r u"
  unfolding decided_def using near_asked_for near_trans by blast

lemma wp_fresh_request:
  assumes "is_win E" "dev = device_id s"
  shows "wp (fresh_request E th x d p n out dev deficit g cl torch s) (decided th x d p n g torch s)"
  unfolding fresh_request_def
proof (rule wp_step [OF wp_apply_pressure [OF assms(1)]], goal_cases)
  case 1
  then show ?case using assms(2) by (simp add: clear_retry_def)
next
  case (2 r t)
  have s: "near s u = near (clear_retry th s) u" for u by (simp add: near_def clear_retry_def)
  have t: "near s t" using 2 s by simp
  show ?case
  proof (cases r)
    case (Inr rc)
    then show ?thesis using 2 t by (simp add: decided_def)
  next
    case (Inl a)
    let ?A = "asked_for (UrDeviceAlloc x d p n) s"
    have asks: "wp (allocate_and_account E x d p n out dev t) (\<lambda>_ u. ?A u)"
      by (rule wp_conseq [OF wp_allocate_asks]) (rule near_asked_for [OF t])
    have torch: "wp (is_torch_native_segment_request E u) (\<lambda>_ w. ?A w)" if "?A u" for u
      by (rule wp_conseq [OF wp_is_torch_request]) (use asked_for_near [OF that] in blast)
    show ?thesis
      unfolding Inl
      by (auto simp: decided_asked intro!: wp_conseq [OF asks] wp_conseq [OF torch])
  qed
qed

lemma decided_mono: "decided th x d p n g a s r t \<Longrightarrow> (a \<Longrightarrow> b) \<Longrightarrow> decided th x d p n g b s r t"
  by (auto simp: decided_def)

lemma wp_decide_request:
  assumes "is_win E" "dev = device_id s"
  shows "wp (decide_request E th x d p n out dev deficit g s) (decided th x d p n g (\<not> retry_matches (ur_retry s th) x d p n g) s)"
proof -
  let ?cl = "deficit > 0 \<or> rt_reason (ur_retry s th) \<noteq> RetryNone"
  show ?thesis
    unfolding decide_request_def Let_def
  proof (rule wp_step [where P = "\<lambda>_ t. near s t \<and> ur_retry t = ur_retry s"], goal_cases)
    case 1
    show ?case by (simp add: wp_is_torch_request)
  next
    case (2 torch t)
    then have t: "near s t" "ur_retry t = ur_retry s" "dev = device_id t" using assms(2) near_fields(4) [of s t] by simp_all
    show ?case
    proof (rule wp_branch)
      show "wp (retry_request E th x d p n out dev deficit t) (decided th x d p n g (\<not> retry_matches (ur_retry s th) x d p n g) s)"
        by (rule wp_conseq [OF wp_retry_asks [OF assms(1)]]) (rule decided_asked, rule near_asked_for [OF t(1)])
      assume no: "\<not> (torch \<and> retry_matches (ur_retry t th) x d p n g)"
      show "wp (fresh_request E th x d p n out dev deficit g ?cl torch t) (decided th x d p n g (\<not> retry_matches (ur_retry s th) x d p n g) s)"
        by (rule wp_conseq [OF wp_fresh_request [OF assms(1) t(3)]])
          (use no t(2) in \<open>auto intro: decided_mono decided_after [OF t(1)]\<close>)
    qed
  qed
qed

text \<open>No request is refused twice.\<close>

lemma wp_alloc_body:
  assumes "is_win E" "true_alloc s \<noteq> 0"
  shows "wp (aimdo_urUSMDeviceAlloc_body E th x d p n out s)
    (decided th x d p n (ur_generation s) (ur_enabled s \<and> \<not> retry_matches (ur_retry s th) x d p n (ur_generation s)) s)"
    (is "wp _ (decided th x d p n ?g ?first s)")
proof (cases "ur_enabled s")
  case False
  have "near s (ur_stat_add PassThroughAllocCalls 1 s)" by simp
  from decided_asked [OF near_asked_for [OF this]] show ?thesis
    using assms(2) False by (auto simp: aimdo_urUSMDeviceAlloc_body_def pass_through_def intro: wp_conseq [OF wp_true_alloc_asks])
next
  case True
  have nn: "\<not> true_alloc s = 0" "\<not> \<not> ur_enabled s" using assms(2) True by simp_all
  have direct: "wp (true_urUSMDeviceAlloc E x d p n out u) (decided th x d p n ?g ?first s)" if "near s u" for u :: "'a ustate_scheme"
    by (rule wp_conseq [OF wp_true_alloc_asks]) (rule decided_asked, rule near_asked_for [OF that])
  show ?thesis
    unfolding aimdo_urUSMDeviceAlloc_body_def Let_def if_not_P [OF nn(1)] if_not_P [OF nn(2)]
  proof (rule wp_step [OF wp_resolve_device], rule wp_branch, goal_cases)
    case (1 dev t)
    then show ?case by (intro direct) simp
  next
    case (2 dev t)
    then have t: "near s t" "ur_retry t = ur_retry s" by simp_all
    show ?case
    proof (rule wp_step [OF wp_allocation_deficit], rule wp_opt, goal_cases)
      case (1 deficit u)
      then show ?case by (intro direct) (use near_trans [OF t(1)] in simp)
    next
      case (2 r u deficit)
      then have u: "near t u" "ur_retry u = ur_retry s" "dev = device_id u" using t(2) near_fields(4) [of t u] by auto
      show ?case
        by (rule wp_conseq [OF wp_decide_request [OF assms(1) u(3)]])
          (use True u(2) in \<open>auto intro: decided_mono decided_after [OF near_trans [OF t(1) u(1)]]\<close>)
    qed
  qed
qed

lemma decided_then:
  "decided th x d p n g first s r t \<Longrightarrow> near t u \<Longrightarrow> ur_retry u = ur_retry t \<Longrightarrow> decided th x d p n g first s r u"
  unfolding decided_def using asked_for_near near_trans by metis

lemma wp_alloc_decided:
  assumes "is_win E" "true_alloc s \<noteq> 0"
  shows "wp (aimdo_urUSMDeviceAlloc E th x d p n out s)
    (decided th x d p n (ur_generation s) (ur_enabled s \<and> \<not> retry_matches (ur_retry s th) x d p n (ur_generation s)) s)"
    (is "wp _ ?D")
proof -
  let ?s = "s\<lparr>hist := GetTick # hist s\<rparr>"
  have s: "near s ?s" by (simp add: near_def)
  have "wp (aimdo_urUSMDeviceAlloc_body E th x d p n out ?s) ?D"
    by (rule wp_conseq [OF wp_alloc_body [OF assms(1)]]) (use assms(2) decided_after [OF s] in simp_all)
  moreover have "near t ((ur_stat_add AllocCalls 1 (t\<lparr>hist := GetTick # hist t\<rparr>))\<lparr>hook_ticks := a, hook_calls := b\<rparr>)"
    "ur_retry ((ur_stat_add AllocCalls 1 (t\<lparr>hist := GetTick # hist t\<rparr>))\<lparr>hook_ticks := a, hook_calls := b\<rparr>) = ur_retry t"
    for a b and t :: "'a ustate_scheme"
    by (simp_all add: near_def ur_stat_add_def)
  ultimately show ?thesis
    unfolding aimdo_urUSMDeviceAlloc_def by (auto simp: Let_def elim!: wp_conseq intro: decided_then)
qed

subsection \<open>The table and the accounting\<close>

text \<open>The device pointers that are live by the calls of a history.\<close>

fun ur_live :: "env \<Rightarrow> call list \<Rightarrow> u64 set" where
  "ur_live E [] = {}"
| "ur_live E (UrDeviceAlloc x d p n # h) =
     (if r_rc (drv E h (UrDeviceAlloc x d p n)) = 0 then insert (r_val (drv E h (UrDeviceAlloc x d p n))) (ur_live E h) else ur_live E h)"
| "ur_live E (UrFree x p # h) = (if r_rc (drv E h (UrFree x p)) = 0 then ur_live E h - {p} else ur_live E h)"
| "ur_live E (c # h) = ur_live E h"

text \<open>Documented behaviour of \<open>urUSMDeviceAlloc\<close>: a new pointer is no live one, and is aligned.\<close>

definition ur_fresh :: "env \<Rightarrow> bool" where
  "ur_fresh E \<longleftrightarrow> (\<forall>h x d p n. r_rc (drv E h (UrDeviceAlloc x d p n)) = 0 \<longrightarrow>
     (let a = r_val (drv E h (UrDeviceAlloc x d p n)) in usable a \<and> a \<notin> ur_live E h))"

definition tracked_bytes :: "(u64 \<rightharpoonup> u64 \<times> int) \<Rightarrow> nat" where
  "tracked_bytes m = (\<Sum>p \<in> dom m. unat (fst (the (m p))))"

text \<open>
  The table holds live pointers of this device, and the bytes accounted to the device are those of the
  table and \<open>others\<close>, which the hook has nothing to do with.
\<close>

definition ur_inv :: "env \<Rightarrow> nat \<Rightarrow> 'z ustate_scheme \<Rightarrow> bool" where
  "ur_inv E others s \<longleftrightarrow> (let m = table_map (ur_allocations s) in
     table_ok (ur_allocations s) \<and> dom m \<subseteq> ur_live E (hist s) \<and>
     (\<forall>p n d. m p = Some (n, d) \<longrightarrow> d = device_id s \<and> unat n < 2 ^ 63) \<and>
     (\<not> ur_enabled s \<longrightarrow> m = Map.empty) \<and> unat (total_vram_usage s) = others + tracked_bytes m)"

lemma ur_live_quiet: "asked_only no_ur h h' \<Longrightarrow> ur_live E h' = ur_live E h"
proof -
  have "list_all no_ur cs \<Longrightarrow> ur_live E (cs @ h) = ur_live E h" for cs
  proof (induction cs)
    case (Cons c cs)
    then show ?case by (cases c) auto
  qed simp
  then show "asked_only no_ur h h' \<Longrightarrow> ?thesis" by (auto simp: asked_only_def)
qed

lemma near_inv: "near s t \<Longrightarrow> ur_inv E others s \<Longrightarrow> ur_inv E others t"
  using ur_live_quiet [of "hist s" "hist t" E] by (simp add: near_def ur_inv_def)

lemma finite_dom_table: "finite (dom (table_map T))"
proof (rule finite_subset)
  show "dom (table_map T) \<subseteq> (\<lambda>i. ta_pointer (T i)) ` {..<POINTER_TABLE_SIZE}"
  proof
    fix p
    assume "p \<in> dom (table_map T)"
    then have "table_map T p \<noteq> None" by auto
    then show "p \<in> (\<lambda>i. ta_pointer (T i)) ` {..<POINTER_TABLE_SIZE}" unfolding table_map_None by blast
  qed
qed simp

lemma tracked_bytes_insert:
  "finite (dom m) \<Longrightarrow> m p = None \<Longrightarrow> tracked_bytes (m(p \<mapsto> (n, d))) = tracked_bytes m + unat n"
proof -
  assume f: "finite (dom m)" "m p = None"
  then have "p \<notin> dom m" by auto
  moreover from this have "(\<Sum>q \<in> dom m. unat (fst (the ((m(p \<mapsto> (n, d))) q)))) = tracked_bytes m"
    unfolding tracked_bytes_def by (intro sum.cong) auto
  ultimately show ?thesis using f(1) unfolding tracked_bytes_def by simp
qed

lemma tracked_bytes_remove:
  assumes "finite (dom m)" "m p = Some (n, d)"
  shows "tracked_bytes m = tracked_bytes (m(p := None)) + unat n"
  using tracked_bytes_insert [of "m(p := None)" p n d] assms by (simp add: fun_upd_idem)

lemma sint_size: "unat (n :: u64) < 2 ^ 63 \<Longrightarrow> sint n = int (unat n)"
proof -
  assume "unat n < 2 ^ 63"
  then have "int (unat n) < 2 ^ 63" unfolding of_nat_less_iff [where 'a = int, symmetric] by (simp only: of_nat_power of_nat_numeral)
  moreover have "- (2 ^ 63) \<le> int (unat n)" by (rule order_trans [of _ 0]) (simp, rule of_nat_0_le_iff)
  ultimately have "signed_take_bit 63 (int (unat n)) = int (unat n)" by (intro signed_take_bit_int_eq_self)
  then show "sint n = int (unat n)" unfolding sint_uint uint_nat by simp
qed

text \<open>A passage of the request to the driver.\<close>

lemma ur_inv_call:
  assumes "ur_inv E others s" "ur_live E (c # hist s) \<supseteq> dom (table_map (ur_allocations s))"
  shows "ur_inv E others (s\<lparr>hist := c # hist s\<rparr>)"
  using assms by (simp add: ur_inv_def Let_def)

lemma wp_true_alloc_inv:
  assumes "ur_inv E others s"
  shows "wp (true_urUSMDeviceAlloc E x d p n out s) (\<lambda>_ t. ur_inv E others t \<and> ur_allocations t = ur_allocations s)"
proof -
  have "ur_live E (UrDeviceAlloc x d p n # hist s) \<supseteq> dom (table_map (ur_allocations s))"
    using assms by (auto simp: ur_inv_def Let_def)
  from ur_inv_call [OF assms this] show ?thesis by (simp add: true_urUSMDeviceAlloc_def)
qed

definition tracked :: "u64 \<Rightarrow> 'z ustate_scheme \<Rightarrow> int \<times> u64 \<Rightarrow> 'z ustate_scheme \<Rightarrow> bool" where
  "tracked n s r t \<longleftrightarrow> table_map (ur_allocations t) = table_map (ur_allocations s) \<or>
     (fst r = 0 \<and> usable (snd r) \<and> table_map (ur_allocations s) (snd r) = None \<and>
      table_map (ur_allocations t) = (table_map (ur_allocations s))(snd r \<mapsto> (n, device_id s)))"

lemma ur_inv_inserted:
  assumes "ur_inv E others s" "ur_enabled s" "unat (total_vram_usage s) + unat n < 2 ^ 63" "usable a"
    "table_map (ur_allocations s) a = None" "a \<in> ur_live E (hist t)" "ur_live E (hist t) \<supseteq> ur_live E (hist s)"
    "allocation_insert a n (device_id s) (ur_allocations s) = Some T" "ur_allocations t = T"
    "total_vram_usage t = total_vram_usage s + n" "device_id t = device_id s" "ur_enabled t = ur_enabled s"
  shows "ur_inv E others t" "table_map (ur_allocations t) = (table_map (ur_allocations s))(a \<mapsto> (n, device_id s))"
proof -
  let ?m = "table_map (ur_allocations s)"
  have s: "table_ok (ur_allocations s)" "dom ?m \<subseteq> ur_live E (hist s)" "\<forall>p n d. ?m p = Some (n, d) \<longrightarrow> d = device_id s \<and> unat n < 2 ^ 63"
    "unat (total_vram_usage s) = others + tracked_bytes ?m"
    using assms(1) by (simp_all add: ur_inv_def Let_def)
  note T = insert_ok [OF s(1) assms(4,5,8)]
  show m: "table_map (ur_allocations t) = ?m(a \<mapsto> (n, device_id s))" using T(2) assms(9) by simp
  have u: "unat (total_vram_usage t) = unat (total_vram_usage s) + unat n"
    using assms(3) unfolding assms(10) by (subst unat_add_lem [THEN iffD1]) simp_all
  have n: "unat n < 2 ^ 63" using assms(3) by simp
  show "ur_inv E others t"
    unfolding ur_inv_def Let_def m
  proof (intro conjI)
    show "table_ok (ur_allocations t)" using T(1) assms(9) by simp
    show "dom (?m(a \<mapsto> (n, device_id s))) \<subseteq> ur_live E (hist t)" using s(2) assms(6,7) by auto
    show "\<forall>p k d. (?m(a \<mapsto> (n, device_id s))) p = Some (k, d) \<longrightarrow> d = device_id t \<and> unat k < 2 ^ 63"
      using s(3) n unfolding assms(11) by (metis fun_upd_apply option.inject prod.inject)
    show "\<not> ur_enabled t \<longrightarrow> ?m(a \<mapsto> (n, device_id s)) = Map.empty" using assms(2,12) by simp
    show "unat (total_vram_usage t) = others + tracked_bytes (?m(a \<mapsto> (n, device_id s)))"
      unfolding u s(4) tracked_bytes_insert [OF finite_dom_table assms(5)] by simp
  qed
qed

lemma account_added:
  assumes "unat n < 2 ^ 63"
  shows "snd (aimdo_xpu_account_allocation (device_id s) (sint n) s) = s\<lparr>total_vram_usage := total_vram_usage s + n\<rparr>"
  using assms by (simp add: aimdo_xpu_account_allocation_def set_devctx_def sint_size)

lemma wp_allocate_inv:
  assumes "ur_fresh E" "ur_inv E others s" "dev = device_id s" "ur_enabled s" "unat (total_vram_usage s) + unat n < 2 ^ 63"
  shows "wp (allocate_and_account E x d p n out dev s) (\<lambda>r t. ur_inv E others t \<and> tracked n s r t)"
proof -
  let ?c = "UrDeviceAlloc x d p n"
  let ?r = "drv E (hist s) ?c" and ?t = "s\<lparr>hist := ?c # hist s\<rparr>"
  have live: "ur_live E (hist ?t) \<supseteq> dom (table_map (ur_allocations s))" using assms(2) by (auto simp: ur_inv_def Let_def)
  have t: "ur_inv E others ?t" using ur_inv_call [OF assms(2)] live by simp
  have stats: "ur_inv E others (ur_stat_add k m u) = ur_inv E others u" "ur_allocations (ur_stat_add k m u) = ur_allocations u" for k m and u :: "'a ustate_scheme"
    by (simp_all add: ur_stat_add_def ur_inv_def)
  have n: "unat n < 2 ^ 63" using assms(5) by simp
  show ?thesis
  proof (cases "r_rc ?r = 0 \<and> out")
    case False
    then show ?thesis using t by (auto simp: allocate_and_account_def true_urUSMDeviceAlloc_def tracked_def stats is_oom_def)
  next
    case True
    let ?a = "r_val ?r"
    have a: "usable ?a" "?a \<notin> ur_live E (hist s)" using assms(1) True unfolding ur_fresh_def Let_def by blast+
    have none: "table_map (ur_allocations s) ?a = None" using a(2) assms(2) by (auto simp: ur_inv_def Let_def)
    have nz: "?a \<noteq> 0" using a(1) by (simp add: usable_def)
    show ?thesis
    proof (cases "allocation_insert ?a n dev (ur_allocations s)")
      case None
      then show ?thesis using True nz t
        by (simp add: allocate_and_account_def true_urUSMDeviceAlloc_def tracked_def stats is_oom_def)
    next
      case (Some T)
      let ?u = "?t\<lparr>ur_allocations := T, ur_allocation_count := ur_allocation_count s + 1\<rparr>"
      let ?v = "?u\<lparr>total_vram_usage := total_vram_usage s + n\<rparr>"
      have v: "snd (aimdo_xpu_account_allocation dev (sint n) ?u) = ?v"
        using account_added [OF n, of ?u] assms(3) by simp
      have ins: "allocation_insert ?a n (device_id s) (ur_allocations s) = Some T" using Some assms(3) by simp
      have in_live: "?a \<in> ur_live E (hist ?v)" "ur_live E (hist ?v) \<supseteq> ur_live E (hist s)" using True by auto
      note w = ur_inv_inserted [where t = ?v, OF assms(2,4,5) a(1) none in_live ins]
      have "wp (allocate_and_account E x d p n out dev s) (\<lambda>r t. \<exists>k m. r = (0, ?a) \<and> t = ur_stat_add TrackedAllocBytes n (ur_stat_add TrackedAllocCalls 1 ?v))"
        using True nz Some v by (simp add: allocate_and_account_def true_urUSMDeviceAlloc_def is_oom_def)
      then show ?thesis
        by (rule wp_conseq) (use w a(1) none in \<open>auto simp: tracked_def stats\<close>)
    qed
  qed
qed

text \<open>\<open>kept\<close>: the invariant holds after a request, and the table is at most one entry richer.\<close>

definition kept :: "env \<Rightarrow> nat \<Rightarrow> u64 \<Rightarrow> 'z ustate_scheme \<Rightarrow> int \<times> u64 \<Rightarrow> 'z ustate_scheme \<Rightarrow> bool" where
  "kept E others n s r t \<longleftrightarrow> ur_inv E others t \<and> tracked n s r t"

lemma kept_after: "near s t \<Longrightarrow> kept E others n t r u \<Longrightarrow> kept E others n s r u"
  by (simp add: kept_def tracked_def near_def)

lemma kept_then: "kept E others n s r t \<Longrightarrow> near t u \<Longrightarrow> kept E others n s r u"
  using near_inv [of t u E others] by (simp add: kept_def tracked_def near_def)

lemma kept_near: "ur_inv E others s \<Longrightarrow> near s t \<Longrightarrow> kept E others n s r t"
  using near_inv [of s t E others] by (simp add: kept_def tracked_def near_def)

lemma wp_true_alloc_kept:
  assumes "ur_inv E others s" "near s u"
  shows "wp (true_urUSMDeviceAlloc E x d p n out u) (kept E others n s)"
  by (rule wp_conseq [OF wp_true_alloc_inv [OF near_inv [OF assms(2,1)]]])
    (use assms(2) in \<open>simp add: kept_def tracked_def near_def\<close>)

lemma wp_allocate_kept:
  assumes "ur_fresh E" "ur_inv E others s" "dev = device_id s" "ur_enabled s" "unat (total_vram_usage s) + unat n < 2 ^ 63" "near s t"
  shows "wp (allocate_and_account E x d p n out dev t) (kept E others n s)"
proof (rule wp_conseq [OF wp_allocate_inv [OF assms(1) near_inv [OF assms(6,2)]]])
  show "dev = device_id t" "ur_enabled t" "unat (total_vram_usage t) + unat n < 2 ^ 63"
    using assms(3-5) near_fields [OF assms(6)] by simp_all
  fix r u
  assume "ur_inv E others u \<and> tracked n t r u"
  then show "kept E others n s r u" using kept_after [OF assms(6)] by (simp add: kept_def)
qed

lemma wp_retry_kept:
  assumes "ur_fresh E" "ur_inv E others s" "dev = device_id s" "ur_enabled s" "unat (total_vram_usage s) + unat n < 2 ^ 63"
    "near s t" "is_win E"
  shows "wp (retry_request E th x d p n out dev deficit t) (kept E others n s)"
  unfolding retry_request_def Let_def
proof (rule wp_step [where P = "\<lambda>_ u. near s u"], goal_cases)
  case 1
  show ?case
    using assms(6) by (auto intro!: wp_conseq [OF wp_evict_near [OF assms(7), of s]])
next
  case (2 a u)
  then show ?case by (rule wp_allocate_kept [OF assms(1-5)])
qed

lemma wp_fresh_kept:
  assumes "ur_fresh E" "ur_inv E others s" "dev = device_id s" "ur_enabled s" "unat (total_vram_usage s) + unat n < 2 ^ 63"
    "near s t" "is_win E"
  shows "wp (fresh_request E th x d p n out dev deficit g cl torch t) (kept E others n s)"
  unfolding fresh_request_def
proof (rule wp_step [OF wp_apply_pressure [OF assms(7)]], goal_cases)
  case 1
  then show ?case using assms(3) near_fields(4) [OF assms(6)] by (simp add: clear_retry_def)
next
  case (2 r u)
  have "near s (clear_retry th t)" using assms(6) by simp
  then have u: "near s u" using 2 near_trans by blast
  show ?case
  proof (cases r)
    case (Inr rc)
    then show ?thesis using kept_near [OF assms(2) u] by simp
  next
    case (Inl a)
    show ?thesis
      unfolding Inl
      by (auto intro!: wp_conseq [OF wp_allocate_kept [OF assms(1-5) u]] wp_conseq [OF wp_is_torch_request])
        (metis kept_then near_upd(3) near_refl)+
  qed
qed

lemma wp_alloc_body_kept:
  assumes "ur_fresh E" "ur_inv E others s" "unat (total_vram_usage s) + unat n < 2 ^ 63" "is_win E"
  shows "wp (aimdo_urUSMDeviceAlloc_body E th x d p n out s) (kept E others n s)"
proof (cases "true_alloc s = 0 \<or> \<not> ur_enabled s")
  case True
  then show ?thesis
    using kept_near [OF assms(2) near_refl] wp_true_alloc_kept [OF assms(2)]
    by (auto simp: aimdo_urUSMDeviceAlloc_body_def pass_through_def)
next
  case False
  then have nn: "\<not> true_alloc s = 0" "\<not> \<not> ur_enabled s" by simp_all
  show ?thesis
    unfolding aimdo_urUSMDeviceAlloc_body_def Let_def if_not_P [OF nn(1)] if_not_P [OF nn(2)]
  proof (rule wp_step [OF wp_resolve_device], rule wp_branch, goal_cases)
    case (1 dev t)
    then show ?case by (intro wp_true_alloc_kept [OF assms(2)]) simp
  next
    case (2 dev t)
    then have t: "near s t" by simp
    show ?case
    proof (rule wp_step [OF wp_allocation_deficit], rule wp_opt, goal_cases)
      case (1 deficit u)
      then show ?case by (intro wp_true_alloc_kept [OF assms(2)]) (use near_trans [OF t] in simp)
    next
      case (2 r u deficit)
      then have u: "near s u" "dev = device_id s" using near_trans [OF t] near_fields(4) [OF t] by auto
      show ?case
        unfolding decide_request_def Let_def
      proof (rule wp_step [where P = "\<lambda>_ w. near s w"], goal_cases)
        case 1
        show ?case using u(1) near_trans [OF u(1)] by (auto intro!: wp_conseq [OF wp_is_torch_request])
      next
        case (2 torch w)
        then show ?case
          using wp_retry_kept [OF assms(1,2) u(2) _ assms(3) _ assms(4)] wp_fresh_kept [OF assms(1,2) u(2) _ assms(3) _ assms(4)] nn(2)
          by simp
      qed
    qed
  qed
qed

lemma wp_alloc_kept:
  assumes "ur_fresh E" "ur_inv E others s" "unat (total_vram_usage s) + unat n < 2 ^ 63" "is_win E"
  shows "wp (aimdo_urUSMDeviceAlloc E th x d p n out s) (kept E others n s)"
proof -
  let ?s = "s\<lparr>hist := GetTick # hist s\<rparr>"
  have s: "near s ?s" by (simp add: near_def)
  have "wp (aimdo_urUSMDeviceAlloc_body E th x d p n out ?s) (\<lambda>r t. kept E others n s r t)"
    by (rule wp_conseq [OF wp_alloc_body_kept [OF assms(1) near_inv [OF s assms(2)] _ assms(4)]])
      (use assms(3) kept_after [OF s] in simp_all)
  moreover have "near t ((ur_stat_add AllocCalls 1 (t\<lparr>hist := GetTick # hist t\<rparr>))\<lparr>hook_ticks := a, hook_calls := b\<rparr>)" for a b and t :: "'a ustate_scheme"
    by (simp add: near_def ur_stat_add_def)
  ultimately show ?thesis
    unfolding aimdo_urUSMDeviceAlloc_def by (auto simp: Let_def elim!: wp_conseq intro: kept_then)
qed

text \<open>A free takes the pointer out of the table, and its bytes off the account.\<close>

lemma account_removed:
  assumes "unat n < 2 ^ 63" "unat n \<le> unat (total_vram_usage s)"
  shows "snd (aimdo_xpu_account_allocation (device_id s) (- sint n) s) = s\<lparr>total_vram_usage := total_vram_usage s - n\<rparr>"
proof (cases "n = 0")
  case True
  then show ?thesis by (simp add: aimdo_xpu_account_allocation_def set_devctx_def)
next
  case False
  then have "0 < unat n" by (simp add: unat_gt_0)
  then have neg: "\<not> - sint n \<ge> 0" unfolding sint_size [OF assms(1)] by linarith
  have r: "of_int (- (- sint n)) = n" by simp
  show ?thesis
  proof (cases "n < total_vram_usage s")
    case True
    then show ?thesis using neg unfolding aimdo_xpu_account_allocation_def set_devctx_def Let_def r by simp
  next
    case False
    then have "n = total_vram_usage s" using assms(2) by (simp add: word_le_nat_alt [symmetric])
    then show ?thesis using neg unfolding aimdo_xpu_account_allocation_def set_devctx_def Let_def r by simp
  qed
qed

lemma ur_inv_removed:
  assumes "ur_inv E others s" "usable p" "allocation_remove p (ur_allocations s) = Some ((n, d), T)"
    "ur_live E (hist t) \<supseteq> ur_live E (hist s) - {p}" "ur_allocations t = T" "total_vram_usage t = total_vram_usage s - n"
    "device_id t = device_id s" "ur_enabled t = ur_enabled s"
  shows "ur_inv E others t" "table_map (ur_allocations t) = (table_map (ur_allocations s))(p := None)"
    "d = device_id s" "unat n < 2 ^ 63" "unat n \<le> unat (total_vram_usage s)"
proof -
  let ?m = "table_map (ur_allocations s)"
  have s: "table_ok (ur_allocations s)" "dom ?m \<subseteq> ur_live E (hist s)" "\<forall>p n d. ?m p = Some (n, d) \<longrightarrow> d = device_id s \<and> unat n < 2 ^ 63"
    "\<not> ur_enabled s \<longrightarrow> ?m = Map.empty" "unat (total_vram_usage s) = others + tracked_bytes ?m"
    using assms(1) by (simp_all add: ur_inv_def Let_def)
  have r: "?m p = Some (n, d)" "table_ok T" "table_map T = ?m(p := None)"
    using remove_ok [OF s(1) assms(2)] assms(3) by simp_all
  show "d = device_id s" "unat n < 2 ^ 63" using s(3) r(1) by blast+
  have b: "tracked_bytes ?m = tracked_bytes (?m(p := None)) + unat n" by (rule tracked_bytes_remove [OF finite_dom_table r(1)])
  then show le: "unat n \<le> unat (total_vram_usage s)" using s(5) by simp
  show m: "table_map (ur_allocations t) = ?m(p := None)" using r(3) assms(5) by simp
  have u: "unat (total_vram_usage t) = unat (total_vram_usage s) - unat n"
    using le unfolding assms(6) by (simp add: unat_sub word_le_nat_alt)
  show "ur_inv E others t"
    unfolding ur_inv_def Let_def m
  proof (intro conjI)
    show "table_ok (ur_allocations t)" using r(2) assms(5) by simp
    show "dom (?m(p := None)) \<subseteq> ur_live E (hist t)" using s(2) assms(4) by auto
    show "\<forall>q k e. (?m(p := None)) q = Some (k, e) \<longrightarrow> e = device_id t \<and> unat k < 2 ^ 63"
      using s(3) unfolding assms(7) by simp
    show "\<not> ur_enabled t \<longrightarrow> ?m(p := None) = Map.empty" using s(4) assms(8) by simp
    show "unat (total_vram_usage t) = others + tracked_bytes (?m(p := None))" using u s(5) b by simp
  qed
qed

definition still_armed :: "'z ustate_scheme \<Rightarrow> 'z ustate_scheme \<Rightarrow> bool" where
  "still_armed s t \<longleftrightarrow> ur_generation t = ur_generation s \<and> ur_enabled t = ur_enabled s \<and>
     (\<forall>th x d p n g. retry_matches (ur_retry t th) x d p n g = retry_matches (ur_retry s th) x d p n g)"

lemma ur_stat_add_sel [simp]:
  "ur_enabled (ur_stat_add k m s) = ur_enabled s" "ur_generation (ur_stat_add k m s) = ur_generation s"
  "ur_retry (ur_stat_add k m s) = ur_retry s" "true_free (ur_stat_add k m s) = true_free s"
  by (simp_all add: ur_stat_add_def)

lemma wp_free_inv:
  assumes "ur_inv E others s" "usable p"
  shows "wp (aimdo_urUSMFree E th x p s) (\<lambda>rc t. ur_inv E others t \<and> still_armed s t \<and>
    table_map (ur_allocations t) = (if ur_enabled s \<and> rc = 0 then (table_map (ur_allocations s))(p := None) else table_map (ur_allocations s)))"
proof (cases "true_free s = 0")
  case True
  then show ?thesis using assms(1) by (simp add: aimdo_urUSMFree_def still_armed_def)
next
  case False
  let ?m = "table_map (ur_allocations s)" and ?c = "UrFree x p"
  let ?r = "drv E (hist s) ?c" and ?t = "(ur_stat_add FreeCalls 1 s)\<lparr>hist := ?c # hist s\<rparr>"
  have stats: "ur_inv E others (ur_stat_add k v u) = ur_inv E others u" "ur_allocations (ur_stat_add k v u) = ur_allocations u"
    "still_armed s (ur_stat_add k v u) = still_armed s u" for k v and u :: "'a ustate_scheme"
    by (simp_all add: ur_stat_add_def ur_inv_def still_armed_def)
  have inv: "dom ?m \<subseteq> ur_live E (hist s)" "\<not> ur_enabled s \<longrightarrow> ?m = Map.empty" "table_ok (ur_allocations s)"
    using assms(1) by (simp_all add: ur_inv_def Let_def)
  have armed: "still_armed s ?t" by (simp add: still_armed_def ur_stat_add_def)
  have t: "ur_inv E others ?t" if "dom ?m \<subseteq> ur_live E (?c # hist s)"
    using ur_inv_call [OF assms(1) that] by (simp add: ur_inv_def ur_stat_add_def)
  have al: "ur_allocations ?t = ur_allocations s" by (simp add: ur_stat_add_def)
  show ?thesis
  proof (cases "ur_enabled s \<and> r_rc ?r = 0")
    case off: False
    have "dom ?m \<subseteq> ur_live E (?c # hist s)" using off inv(1,2) by auto
    then show ?thesis using off False t armed al by (auto simp: aimdo_urUSMFree_def ur_stat_add_def Let_def)
  next
    case on: True
    show ?thesis
    proof (cases "allocation_remove p (ur_allocations s)")
      case None
      then have "?m p = None" using remove_ok [OF inv(3) assms(2)] by simp
      moreover from this have "dom ?m \<subseteq> ur_live E (?c # hist s)" using inv(1) by auto
      ultimately show ?thesis
        using on False None t armed al stats by (simp add: aimdo_urUSMFree_def Let_def fun_upd_idem ur_stat_add_def [of FreeCalls])
    next
      case (Some r)
      then obtain n d T where r: "allocation_remove p (ur_allocations s) = Some ((n, d), T)" by (metis prod.exhaust)
      let ?u = "?t\<lparr>ur_allocations := T, ur_allocation_count := ur_allocation_count ?t - 1\<rparr>"
      let ?v = "?u\<lparr>total_vram_usage := total_vram_usage s - n\<rparr>"
      have live: "ur_live E (hist ?v) \<supseteq> ur_live E (hist s) - {p}" by auto
      note w = ur_inv_removed [where t = ?v, OF assms r live]
      have v: "ur_inv E others ?v" "table_map (ur_allocations ?v) = ?m(p := None)" "d = device_id s" "unat n < 2 ^ 63"
        "unat n \<le> unat (total_vram_usage s)"
        using w by (simp_all add: ur_stat_add_def)
      have acc: "snd (aimdo_xpu_account_allocation d (- sint n) ?u) = ?v"
        using account_removed [of n ?u] v(3-5) by (simp add: ur_stat_add_def)
      have arm: "still_armed s ?v" "still_armed s (?v\<lparr>ur_retry := (ur_retry ?v)(th := (ur_retry ?v th)\<lparr>rt_returned_bytes := b\<rparr>)\<rparr>)" for b
        by (simp_all add: still_armed_def ur_stat_add_def retry_matches_def)
      have inv_retry: "ur_inv E others (?v\<lparr>ur_retry := q\<rparr>)" for q using v(1) by (simp add: ur_inv_def)
      have "wp (aimdo_urUSMFree E th x p s) (\<lambda>rc t. rc = 0 \<and> (\<exists>k m. t = ur_stat_add TrackedFreeBytes n (ur_stat_add TrackedFreeCalls 1
          (if rt_reason (ur_retry ?v th) \<noteq> RetryNone \<and> rt_generation (ur_retry ?v th) = ur_generation ?v
           then ur_stat_add NativeReclaimFreeBytes n (ur_stat_add NativeReclaimFreeCalls 1
             (?v\<lparr>ur_retry := (ur_retry ?v)(th := (ur_retry ?v th)\<lparr>rt_returned_bytes := rt_returned_bytes (ur_retry ?v th) + n\<rparr>)\<rparr>))
           else ?v))))"
        using on False r acc by (simp add: aimdo_urUSMFree_def Let_def al)
      then show ?thesis
        by (rule wp_conseq) (use on v arm inv_retry stats in auto)
    qed
  qed
qed

text \<open>Disabling forgets the table: its bytes stay on the account, as bytes the hook has nothing to do with.\<close>

lemma disable_inv:
  assumes "ur_inv E others s" "ur_lock_ready s"
  shows "ur_inv E (others + tracked_bytes (table_map (ur_allocations s))) (snd (xpu_ur_hook_disable th s))"
  using assms by (simp add: xpu_ur_hook_disable_def ur_inv_def Let_def clear_retry_def tracked_bytes_def)

text \<open>Enabling starts a new generation: no record of before matches any more.\<close>

lemma enable_new_generation:
  assumes "ur_attached s" "\<not> ur_enabled s"
  shows "wp (xpu_ur_hook_enable E th s) (\<lambda>ok t. ok \<and> ur_enabled t \<and> ur_generation t = ur_generation s + 1 \<and>
    \<not> retry_matches (ur_retry t th) x d p n (ur_generation t) \<and> (ur_inv E others s \<longrightarrow> ur_inv E others t))"
  using assms by (auto simp: xpu_ur_hook_enable_def xpu_ur_hook_is_interposed_def clear_retry_def retry_matches_def no_retry_def ur_inv_def Let_def)

text \<open>Removing the hook stops it, but leaves its table as it is.\<close>

lemma remove_keeps_table:
  assumes "ur_attached s"
  shows "wp (aimdo_xpu_ur_hook_remove E s) (\<lambda>_ t. \<not> ur_enabled t \<and> ur_allocations t = ur_allocations s)"
proof -
  let ?Q = "\<lambda>t :: 'a ustate_scheme. \<not> ur_enabled t \<and> ur_allocations t = ur_allocations s"
  have "wp (each (\<lambda>k s. do { (_, s) \<leftarrow> ask E (Detour 2 k) s; Some ((), s) }) ks t) (\<lambda>_ u. ?Q u)" if "?Q t" for ks t
    by (rule wp_each [where I = "\<lambda>_. ?Q"]) (use that in auto)
  note detach = this
  have nn: "\<not> \<not> ur_attached s" using assms by simp
  show ?thesis
    unfolding aimdo_xpu_ur_hook_remove_def if_not_P [OF nn]
  proof (rule wp_step [where P = "\<lambda>_. ?Q"], simp, rule wp_step [OF detach], assumption)
    fix a b :: unit and r t
    assume "?Q t"
    then show "wp (do { (r, s) \<leftarrow> ask E (Detour 3 0) t;
        if r_rc r \<noteq> 0 then Some ((), s) else Some ((), (drop_entries s)\<lparr>ur_attached := False\<rparr>) }) (\<lambda>_. ?Q)"
      by (simp add: drop_entries_def)
  qed
qed

end
