(* ===== verification/DemoHook.thy ===== *)
theory DemoHook
  imports Demo CopyInv UrHookInv
begin

text \<open>
  Concrete states for the witnesses about the Unified Runtime hooks: the demonstration VBAR with no copy
  in flight, an enabled allocation hook with an empty table, and a runtime that gives out fresh pointers.
\<close>

definition demo_cstate :: cstate where
  "demo_cstate = vstate.extend demo_state (cstate.fields [] (\<lambda>_. 0) False)"

definition demo_ustate :: ustate where
  "demo_ustate = cstate.extend demo_cstate (ustate.fields 1 1 1 1 True True True 1 (\<lambda>_. 0) (\<lambda>_. no_retry) (\<lambda>_. 2 ^ 30)
     empty_table 0 None 0 0 0 0 0)"

lemma demo_cstate_sel [simp]:
  "hist demo_cstate = []" "vheap demo_cstate = [0 \<mapsto> demo_vbar]" "pending_copies demo_cstate = []"
  "vorder demo_cstate = [0]" "vnext demo_cstate = 1"
  by (simp_all add: demo_cstate_def demo_defs cstate.defs)

lemma demo_ustate_sel [simp]:
  "hist demo_ustate = []" "true_alloc demo_ustate = 1" "true_free demo_ustate = 1" "ur_enabled demo_ustate" "ur_generation demo_ustate = 1"
  "ur_allocations demo_ustate = empty_table" "total_vram_usage demo_ustate = 33554432" "ur_retry demo_ustate = (\<lambda>_. no_retry)"
  "device_id demo_ustate = 0"
  by (simp_all add: demo_ustate_def demo_cstate_def demo_defs cstate.defs ustate.defs)

lemma demo_copy_inv [simp]: "copy_inv E demo_cstate"
  by (simp add: copy_inv_def held_for_def vinv_def vbar_ok_def) (simp add: demo_vbar_def)

lemma demo_ur_inv [simp]: "ur_inv E 33554432 demo_ustate"
  by (simp add: ur_inv_def tracked_bytes_def)

definition hook_env :: env where
  "hook_env = (happy_env True True)\<lparr>drv := (\<lambda>h c. case c of
      UrDeviceAlloc x d p n \<Rightarrow> if length h < 2 ^ 32 then Resp 0 (of_nat (length h + 16)) 0 []
          else Resp UR_RESULT_ERROR_OUT_OF_DEVICE_MEMORY 0 0 []
    | _ \<Rightarrow> happy_drv h c)\<rparr>"

lemma hook_env_alloc [simp]:
  "drv hook_env h (UrDeviceAlloc x d p n) =
     (if length h < 2 ^ 32 then Resp 0 (of_nat (length h + 16)) 0 [] else Resp UR_RESULT_ERROR_OUT_OF_DEVICE_MEMORY 0 0 [])"
  "is_win hook_env"
  by (simp_all add: hook_env_def)

lemma hook_pointer: "n < 2 ^ 32 \<Longrightarrow> unat (of_nat (n + 16) :: u64) = n + 16"
  by (simp add: unat_of_nat del: of_nat_add)

lemma hook_live: "a \<in> ur_live hook_env h \<Longrightarrow> unat a < length h + 16"
proof (induction h)
  case (Cons c h)
  show ?case
  proof (cases "\<exists>x d p n. c = UrDeviceAlloc x d p n")
    case True
    then obtain x d p n where c: "c = UrDeviceAlloc x d p n" by blast
    show ?thesis
    proof (cases "a \<in> ur_live hook_env h")
      case True
      then show ?thesis using Cons.IH by simp
    next
      case False
      then have "length h < 2 ^ 32" "a = of_nat (length h + 16)" using Cons.prems c by (simp_all split: if_splits)
      then show ?thesis using hook_pointer [of "length h"] by simp
    qed
  next
    case False
    then have "ur_live hook_env (c # h) \<subseteq> ur_live hook_env h" by (cases c) auto
    then show ?thesis using Cons by fastforce
  qed
qed simp

lemma hook_env_fresh [simp]: "ur_fresh hook_env"
proof -
  have "usable (of_nat (length h + 16)) \<and> of_nat (length h + 16) \<notin> ur_live hook_env h" if "length h < 2 ^ 32" for h :: "call list"
    using hook_pointer [OF that] hook_live [of "of_nat (length h + 16)" h] unfolding usable_def
    by (metis add_lessD1 less_irrefl numeral_eq_one_iff one_less_numeral_iff semiring_norm(76) trans_less_add2 unat_0 unat_1 zero_less_numeral)
  then show ?thesis by (simp add: ur_fresh_def)
qed

end
