(* ===== verification/SizeTable.thy ===== *)
theory SizeTable
  imports VramBuf
begin

unbundle bit_operations_syntax

text \<open>
  The table of allocation sizes (\<open>src/pyt-cu-plug-alloc-async.c\<close>), and the interface it shares with
  the rogue candidates: a ledger, where an address may be entered several times and its latest
  entry is dropped first. The locale states what a client may rely on; both the hash table and the
  list of candidates provide it.
\<close>

subsection \<open>The table\<close>

definition size_hash :: "u64 \<Rightarrow> nat" where
  "size_hash ptr = unat ((drop_bit 10 ptr XOR drop_bit 21 ptr) mod 1024)"

definition accounted_alloc_size :: "u64 \<Rightarrow> u64" where
  "accounted_alloc_size n =
     (if n \<le> 1024 then 1024
      else if n > CUDA_PAGE_SIZE div 2 then ALIGN_UP n CUDA_PAGE_SIZE
      else n)"

definition table_add :: "u64 \<Rightarrow> u64 \<Rightarrow> (nat \<Rightarrow> size_entry list) \<Rightarrow> (nat \<Rightarrow> size_entry list)" where
  "table_add ptr n T = T(size_hash ptr := \<lparr>se_ptr = ptr, se_size = n\<rparr> # T (size_hash ptr))"

definition table_drop :: "u64 \<Rightarrow> (nat \<Rightarrow> size_entry list) \<Rightarrow> (nat \<Rightarrow> size_entry list)" where
  "table_drop ptr T = T(size_hash ptr := remove_first (\<lambda>e. se_ptr e = ptr) (T (size_hash ptr)))"

definition account_alloc :: "env \<Rightarrow> u64 \<Rightarrow> u64 \<Rightarrow> 'z astate_scheme \<Rightarrow> (unit \<times> 'z astate_scheme) option" where
  "account_alloc E ptr n s = do {
     (_, s) \<leftarrow> allocations_lock E s;
     (ok, s) \<leftarrow> host_alloc E (s\<lparr>total_vram_usage := total_vram_usage s + accounted_alloc_size n\<rparr>);
     allocations_unlock E (if ok then s\<lparr>size_table := table_add ptr n (size_table s)\<rparr> else s) }"

definition account_free :: "env \<Rightarrow> u64 \<Rightarrow> 'z astate_scheme \<Rightarrow> (unit \<times> 'z astate_scheme) option" where
  "account_free E ptr s = do {
     (_, s) \<leftarrow> allocations_lock E s;
     case List.find (\<lambda>e. se_ptr e = ptr) (size_table s (size_hash ptr)) of
       None \<Rightarrow> allocations_unlock E s
     | Some e \<Rightarrow> allocations_unlock E (s\<lparr>size_table := table_drop ptr (size_table s),
         total_vram_usage := total_vram_usage s - accounted_alloc_size (se_size e)\<rparr>) }"

subsection \<open>Ledgers\<close>

locale ledger =
  fixes entries :: "'t \<Rightarrow> u64 \<Rightarrow> 'v list"
    and add :: "u64 \<Rightarrow> 'v \<Rightarrow> 't \<Rightarrow> 't"
    and drop :: "u64 \<Rightarrow> 't \<Rightarrow> 't"
  assumes entries_add: "entries (add k v T) j = (if j = k then v # entries T k else entries T j)"
    and entries_drop: "entries (drop k T) j = (if j = k then tl (entries T k) else entries T j)"
begin

lemma drop_add: "entries (drop k (add k v T)) = entries T"
  by (rule ext) (simp add: entries_add entries_drop)

lemma add_same: "entries (add k v T) k = v # entries T k"
  by (simp add: entries_add)

lemma drop_other: "j \<noteq> k \<Longrightarrow> entries (drop k T) j = entries T j"
  by (simp add: entries_drop)

text \<open>What happens to other addresses between an entry and its drop does not matter.\<close>

lemma fold_other:
  assumes "\<And>op. op \<in> set ops \<Longrightarrow> fst op \<noteq> k"
  shows "entries (fold (\<lambda>(j, v). case v of None \<Rightarrow> drop j | Some v \<Rightarrow> add j v) ops T) k = entries T k"
  using assms
proof (induction ops arbitrary: T)
  case (Cons op ops)
  have "entries ((case op of (j, v) \<Rightarrow> case v of None \<Rightarrow> drop j | Some v \<Rightarrow> add j v) T) k = entries T k"
    using Cons.prems [of op] by (cases op) (auto simp: entries_add entries_drop split: option.split)
  then show ?case using Cons by simp
qed simp

end

lemma filter_remove_first: "filter P (remove_first P xs) = tl (filter P xs)"
  by (induction xs) auto

lemma filter_remove_first_other: "(\<And>x. P x \<Longrightarrow> \<not> Q x) \<Longrightarrow> filter Q (remove_first P xs) = filter Q xs"
  by (induction xs) auto

lemma find_filter: "List.find P xs = (case filter P xs of [] \<Rightarrow> None | x # _ \<Rightarrow> Some x)"
  by (induction xs) auto

definition sizes_of :: "(nat \<Rightarrow> size_entry list) \<Rightarrow> u64 \<Rightarrow> u64 list" where
  "sizes_of T ptr = map se_size (filter (\<lambda>e. se_ptr e = ptr) (T (size_hash ptr)))"

interpretation sizes: ledger sizes_of table_add table_drop
proof
  show "sizes_of (table_add k v T) j = (if j = k then v # sizes_of T k else sizes_of T j)" for k v T j
    by (auto simp: sizes_of_def table_add_def)
  show "sizes_of (table_drop k T) j = (if j = k then tl (sizes_of T k) else sizes_of T j)" for k T j
    by (auto simp: sizes_of_def table_drop_def filter_remove_first filter_remove_first_other map_tl)
qed

definition verdicts_of :: "rogue_candidate list \<Rightarrow> u64 \<Rightarrow> bool list" where
  "verdicts_of cs ptr = map rc_freed (filter (\<lambda>c. rc_ptr c = ptr) cs)"

interpretation candidates: ledger verdicts_of
  "\<lambda>ptr freed cs. \<lparr>rc_ptr = ptr, rc_freed = freed\<rparr> # cs" "\<lambda>ptr. remove_first (\<lambda>c. rc_ptr c = ptr)"
proof
  show "verdicts_of (\<lparr>rc_ptr = k, rc_freed = v\<rparr> # T) j = (if j = k then v # verdicts_of T k else verdicts_of T j)" for k v T j
    by (auto simp: verdicts_of_def)
  show "verdicts_of (remove_first (\<lambda>c. rc_ptr c = k) T) j = (if j = k then tl (verdicts_of T k) else verdicts_of T j)" for k T j
    by (auto simp: verdicts_of_def filter_remove_first filter_remove_first_other map_tl)
qed

subsection \<open>Accounting\<close>

lemma find_sizes:
  "map_option se_size (List.find (\<lambda>e. se_ptr e = ptr) (T (size_hash ptr))) =
     (case sizes_of T ptr of [] \<Rightarrow> None | n # _ \<Rightarrow> Some n)"
  by (simp add: find_filter sizes_of_def split: list.split)

lemma account_alloc_run:
  assumes "allocations_lock_depth s = 0"
  shows "account_alloc E ptr n s = Some ((), s\<lparr>hist := HostAlloc # hist s,
    total_vram_usage := total_vram_usage s + accounted_alloc_size n,
    size_table := (if r_rc (drv E (hist s) HostAlloc) = 0 then table_add ptr n (size_table s) else size_table s)\<rparr>)"
  using assms by (simp add: account_alloc_def allocations_lock_def allocations_unlock_def host_alloc_def ask_def)

lemma account_free_run:
  assumes "allocations_lock_depth s = 0"
  shows "account_free E ptr s = Some ((), case sizes_of (size_table s) ptr of
      [] \<Rightarrow> s
    | n # _ \<Rightarrow> s\<lparr>size_table := table_drop ptr (size_table s), total_vram_usage := total_vram_usage s - accounted_alloc_size n\<rparr>)"
  using assms find_sizes [of ptr "size_table s"]
  by (auto simp: account_free_def allocations_lock_def allocations_unlock_def split: list.splits option.splits)

text \<open>Accounting an allocation and its free gives the bytes back, when the entry could be recorded.\<close>

lemma account_roundtrip:
  assumes "allocations_lock_depth s = 0" "r_rc (drv E (hist s) HostAlloc) = 0"
  shows "\<exists>t. (do { (_, s) \<leftarrow> account_alloc E ptr n s; account_free E ptr s }) = Some ((), t) \<and>
    total_vram_usage t = total_vram_usage s \<and> sizes_of (size_table t) = sizes_of (size_table s)"
  using assms sizes.drop_add [of ptr n "size_table s"]
  by (simp add: account_alloc_run account_free_run sizes.add_same)

text \<open>A drop without an entry changes nothing.\<close>

lemma account_free_unknown:
  "allocations_lock_depth s = 0 \<Longrightarrow> sizes_of (size_table s) ptr = [] \<Longrightarrow> account_free E ptr s = Some ((), s)"
  by (simp add: account_free_run)

end
