(* ===== verification/AllocAsync.thy ===== *)
theory AllocAsync
  imports SizeTable GraphAlloc
begin

text \<open>
  The hooked allocator of PyTorch (\<open>src/pyt-cu-plug-alloc-async.c\<close>): making room by reclaiming
  VBARs, one retry after an out-of-memory error, accounting, and routing to the graphs and the
  rogues first.

  An allocation answers its status and what it stored in \<open>*devPtr\<close>. \<open>hook\<close> says whether the
  caller passed the true driver function (and a place for the address).
\<close>

definition CUDA_MALLOC_HEADROOM :: u64 where
  "CUDA_MALLOC_HEADROOM = 128 * 1048576"

text \<open>A call of the true allocator and, when it works, the entry in the accounts.\<close>

definition try_alloc :: "env \<Rightarrow> call \<Rightarrow> u64 \<Rightarrow> 'z astate_scheme \<Rightarrow> ((int + u64) \<times> 'z astate_scheme) option" where
  "try_alloc E c n s = do {
     (r, s) \<leftarrow> ask E c s;
     if r_rc r \<noteq> CUDA_SUCCESS then Some (Inl (r_rc r), s)
     else do { (_, s) \<leftarrow> account_alloc E (r_val r) n s; Some (Inr (r_val r), s) } }"

text \<open>The retry of both allocators: what is freed before each attempt.\<close>

definition alloc_with_reclaim ::
  "env \<Rightarrow> call \<Rightarrow> u64 \<Rightarrow> u64 \<Rightarrow> u64 \<Rightarrow> 'z astate_scheme \<Rightarrow> ((int \<times> u64) \<times> 'z astate_scheme) option" where
  "alloc_with_reclaim E c n first second s = do {
     (deficit, s) \<leftarrow> budget_deficit E first s;
     (ok, s) \<leftarrow> vbars_free E deficit s;
     if \<not> ok then Some ((CUDA_ERROR_UNKNOWN, 0), s)
     else do {
       (r, s) \<leftarrow> try_alloc E c n s;
       case r of
         Inr ptr \<Rightarrow> Some ((CUDA_SUCCESS, ptr), s)
       | Inl _ \<Rightarrow> do {
           (ok, s) \<leftarrow> vbars_free E (sint second) s;
           if \<not> ok then Some ((CUDA_ERROR_UNKNOWN, 0), s)
           else do {
             (r, s) \<leftarrow> try_alloc E c n s;
             Some (case r of Inr ptr \<Rightarrow> (CUDA_SUCCESS, ptr) | Inl e \<Rightarrow> (e, 0), s) } } } }"

definition pass_through :: "env \<Rightarrow> call \<Rightarrow> 'z astate_scheme \<Rightarrow> ((int \<times> u64) \<times> 'z astate_scheme) option" where
  "pass_through E c s = do { (r, s) \<leftarrow> ask E c s; Some ((r_rc r, r_val r), s) }"

definition aimdo_cuda_malloc :: "env \<Rightarrow> bool \<Rightarrow> u64 \<Rightarrow> 'z astate_scheme \<Rightarrow> ((int \<times> u64) \<times> 'z astate_scheme) option" where
  "aimdo_cuda_malloc E hook n s =
     (if \<not> hook then Some ((1, 0), s)
      else do {
        (ours, s) \<leftarrow> set_devctx_for_current_cuda_device E s;
        if \<not> ours then pass_through E (MemAlloc n) s
        else alloc_with_reclaim E (MemAlloc n) n (n + CUDA_MALLOC_HEADROOM) (n + CUDA_MALLOC_HEADROOM) s })"

definition aimdo_cuda_malloc_async ::
  "env \<Rightarrow> bool \<Rightarrow> u64 \<Rightarrow> u64 \<Rightarrow> 'z astate_scheme \<Rightarrow> ((int \<times> u64) \<times> 'z astate_scheme) option" where
  "aimdo_cuda_malloc_async E hook n stream s =
     (if \<not> hook then Some ((1, 0), s)
      else do {
        (ours, s) \<leftarrow> set_devctx_for_current_cuda_device E s;
        if \<not> ours then pass_through E (MemAllocAsync n stream) s
        else do {
          (routed, s) \<leftarrow> malloc_graph_alloc E (unat n) stream s;
          case routed of
            Some (ptr, status) \<Rightarrow> Some ((status, ptr), s)
          | None \<Rightarrow> alloc_with_reclaim E (MemAllocAsync n stream) n (min n (malloc_async_clamp s)) n s } })"

text \<open>A call of the true free and, when it works, the entry leaves the accounts.\<close>

definition true_free :: "env \<Rightarrow> call \<Rightarrow> u64 \<Rightarrow> 'z astate_scheme \<Rightarrow> (int \<times> 'z astate_scheme) option" where
  "true_free E c ptr s = do {
     (r, s) \<leftarrow> ask E c s;
     if r_rc r \<noteq> CUDA_SUCCESS then Some (r_rc r, s)
     else do { (_, s) \<leftarrow> account_free E ptr s; Some (r_rc r, s) } }"

definition aimdo_cuda_free :: "env \<Rightarrow> bool \<Rightarrow> u64 \<Rightarrow> 'z astate_scheme \<Rightarrow> (int \<times> 'z astate_scheme) option" where
  "aimdo_cuda_free E hook ptr s =
     (if ptr = 0 then Some (CUDA_SUCCESS, s)
      else if \<not> hook then Some (1, s)
      else do {
        (ours, s) \<leftarrow> set_devctx_for_current_cuda_device E s;
        if \<not> ours then do { (r, s) \<leftarrow> ask E (MemFree ptr) s; Some (r_rc r, s) }
        else do {
          (rogue, s) \<leftarrow> free_rogue E ptr s;
          case rogue of
            Some status \<Rightarrow> Some (status, s)
          | None \<Rightarrow> true_free E (MemFree ptr) ptr s } })"

definition aimdo_cuda_free_async :: "env \<Rightarrow> bool \<Rightarrow> u64 \<Rightarrow> u64 \<Rightarrow> 'z astate_scheme \<Rightarrow> (int \<times> 'z astate_scheme) option" where
  "aimdo_cuda_free_async E hook ptr stream s =
     (if ptr = 0 then Some (CUDA_SUCCESS, s)
      else if \<not> hook then Some (1, s)
      else do {
        (ours, s) \<leftarrow> set_devctx_for_current_cuda_device E s;
        if \<not> ours then do { (r, s) \<leftarrow> ask E (MemFreeAsync ptr stream) s; Some (r_rc r, s) }
        else do {
          (rogue, s) \<leftarrow> free_rogue E ptr s;
          case rogue of
            Some status \<Rightarrow> Some (status, s)
          | None \<Rightarrow> do {
              (routed, s) \<leftarrow> malloc_graph_free E ptr stream s;
              case routed of
                Some status \<Rightarrow> Some (status, s)
              | None \<Rightarrow> true_free E (MemFreeAsync ptr stream) ptr s } } })"

end
