(* ===== verification/AllocAsyncInv.thy ===== *)
theory AllocAsyncInv
  imports AllocAsync VramBufInv
begin

text \<open>
  The hooked allocator accounts for exactly what it hands out: an allocation that succeeds adds its
  accounted size and records it, one that fails changes no account, whatever had to be reclaimed.
\<close>

definition allocated :: "env \<Rightarrow> u64 \<Rightarrow> 'z astate_scheme \<Rightarrow> int \<times> u64 \<Rightarrow> 'z astate_scheme \<Rightarrow> bool" where
  "allocated E n s = (\<lambda>(status, ptr) t.
     beside E s (if status = CUDA_SUCCESS then accounted_alloc_size n else 0) (t\<lparr>size_table := size_table s\<rparr>) \<and>
     (if status = CUDA_SUCCESS then size_table t \<in> {size_table s, table_add ptr n (size_table s)}
      else ptr = 0 \<and> size_table t = size_table s))"

lemma more_table:
  "vstate.more t = vstate.more (s :: 'z astate_scheme) \<Longrightarrow> vstate.more (t\<lparr>size_table := T\<rparr>) = vstate.more (s\<lparr>size_table := T\<rparr>)"
  by (cases s; cases t; simp)

lemma table_upd [simp]:
  "vinv E (s\<lparr>size_table := T\<rparr>) = vinv E s" "graph_ok (s\<lparr>size_table := T\<rparr>) = graph_ok s"
  "other_bytes (s\<lparr>size_table := T\<rparr>) = other_bytes s"
  by (simp_all add: vinv_def graph_ok_def other_bytes_def owned_pages_def)

lemma beside_table: "beside E s n t \<Longrightarrow> beside E (s\<lparr>size_table := T\<rparr>) n (t\<lparr>size_table := T\<rparr>)"
  using more_table [of t s T] by (simp add: beside_def)

lemma beside_same_table: "beside E s n t \<Longrightarrow> size_table t = size_table s"
  by (rule more_astate(4)) (simp add: beside_def)

lemma beside_self_table: "beside E s n t \<Longrightarrow> beside E s n (t\<lparr>size_table := size_table s\<rparr>)"
  using beside_table [of E s n t "size_table s"] by simp

lemma allocated_beside:
  assumes "beside E s 0 t" "allocated E n t r u"
  shows "allocated E n s r u"
proof -
  have T: "size_table t = size_table s" by (rule beside_same_table [OF assms(1)])
  obtain status ptr where r: "r = (status, ptr)" by (cases r)
  have "beside E t (if status = CUDA_SUCCESS then accounted_alloc_size n else 0) (u\<lparr>size_table := size_table s\<rparr>)"
    using assms(2) by (simp add: allocated_def r T)
  from beside_trans [OF assms(1) this] show ?thesis using assms(2) T by (auto simp: allocated_def r split: if_splits)
qed

lemma wp_try_alloc:
  assumes "vinv E s" "graph_ok s" "allocations_lock_depth s = 0"
  shows "wp (try_alloc E c n s) (\<lambda>r t. (\<forall>e. r = Inl e \<longrightarrow> beside E s 0 t \<and> e \<noteq> CUDA_SUCCESS) \<and>
    (\<forall>ptr. r = Inr ptr \<longrightarrow> allocated E n s (CUDA_SUCCESS, ptr) t))"
  using assms
  by (simp add: try_alloc_def account_alloc_run)
    (auto simp: allocated_def beside_def vinv_def graph_ok_def other_bytes_def owned_pages_def)

lemma wp_alloc_with_reclaim:
  assumes "vinv E s" "graph_ok s" "allocations_lock_depth s = 0"
  shows "wp (alloc_with_reclaim E c n first second s) (allocated E n s)"
proof -
  have inv: "vinv E t" "graph_ok t" "allocations_lock_depth t = 0" if "beside E s 0 t" for t
    using that assms(3) by (simp_all add: beside_def)
  have fail: "allocated E n s (e, 0) t" if "beside E s 0 t" "e \<noteq> CUDA_SUCCESS" for t e
    using beside_self_table [OF that(1)] beside_same_table [OF that(1)] that(2) by (simp add: allocated_def)
  have last_try: "wp (try_alloc E c n t) (\<lambda>r u. allocated E n s (case r of Inr ptr \<Rightarrow> (CUDA_SUCCESS, ptr) | Inl e \<Rightarrow> (e, 0)) u)"
    if t: "beside E s 0 t" for t
  proof (rule wp_conseq [OF wp_try_alloc [OF inv [OF t]]], goal_cases)
    case (1 r u)
    then show ?case
      using fail beside_trans [OF t, of 0 u] allocated_beside [OF t] by (cases r) auto
  qed
  have retry: "wp (vbars_free E k t) (\<lambda>ok u. (\<not> ok \<longrightarrow> allocated E n s (CUDA_ERROR_UNKNOWN, 0) u) \<and>
      (ok \<longrightarrow> wp (try_alloc E c n u) (\<lambda>r u. allocated E n s (case r of Inr ptr \<Rightarrow> (CUDA_SUCCESS, ptr) | Inl e \<Rightarrow> (e, 0)) u)))"
    if t: "beside E s 0 t" for t k
    by (rule wp_conseq [OF wp_vbars_free_beside [OF inv(1,2) [OF t]]])
      (use beside_trans [OF t, of 0] last_try fail in fastforce)
  have first_try: "wp (try_alloc E c n t) (\<lambda>r u. (\<forall>ptr. r = Inr ptr \<longrightarrow> allocated E n s (CUDA_SUCCESS, ptr) u) \<and>
      (\<forall>e. r = Inl e \<longrightarrow> beside E s 0 u))"
    if t: "beside E s 0 t" for t
    by (rule wp_conseq [OF wp_try_alloc [OF inv [OF t]]])
      (use beside_trans [OF t, of 0] allocated_beside [OF t] in auto)
  have first_free: "wp (vbars_free E k t) (\<lambda>ok u. (\<not> ok \<longrightarrow> allocated E n s (CUDA_ERROR_UNKNOWN, 0) u) \<and>
      (ok \<longrightarrow> beside E s 0 u))"
    if t: "beside E s 0 t" for t k
    by (rule wp_conseq [OF wp_vbars_free_beside [OF inv(1,2) [OF t]]])
      (use beside_trans [OF t, of 0] fail in fastforce)
  show ?thesis
    unfolding alloc_with_reclaim_def wp_bind split_conv
  proof (rule wp_conseq [OF wp_budget_beside [OF assms(1,2)]], rule wp_conseq [OF first_free], assumption, goal_cases)
    case (1 d t ok u)
    show ?case
    proof (cases ok)
      case True
      then have "beside E s 0 u" using 1 by simp
      from first_try [OF this] True show ?thesis
        by (simp, elim wp_conseq) (use retry in \<open>auto split: sum.splits\<close>)
    qed (use 1 in simp)
  qed
qed

definition ours :: "env \<Rightarrow> 'z ctx_scheme \<Rightarrow> bool" where
  "ours E s \<longleftrightarrow> r_rc (drv E (hist s) GetCurrentDevice) = CUDA_SUCCESS \<and>
     sint (r_val (drv E (hist s) GetCurrentDevice)) = device_id s"

lemma wp_cuda_malloc:
  assumes "vinv E s" "graph_ok s" "allocations_lock_depth s = 0"
  shows "wp (aimdo_cuda_malloc E hook n s) (\<lambda>r t.
    if hook \<and> ours E s then allocated E n s r t else beside E s 0 t \<and> size_table t = size_table s)"
proof -
  let ?s = "s\<lparr>hist := GetCurrentDevice # hist s\<rparr>"
  have s: "vinv E ?s" "graph_ok ?s" "allocations_lock_depth ?s = 0"
    using assms by (simp_all add: vinv_def graph_ok_def)
  have b: "beside E s 0 (s\<lparr>hist := h\<rparr>)" for h
    using assms by (simp add: beside_def vinv_def graph_ok_def other_bytes_def owned_pages_def)
  have main: "wp (alloc_with_reclaim E c n x y ?s) (allocated E n s)" for c x y
    by (rule wp_conseq [OF wp_alloc_with_reclaim [OF s]]) (rule allocated_beside [OF b])
  show ?thesis
  proof (cases "hook \<and> ours E s")
    case True
    then show ?thesis using main
      by (simp add: aimdo_cuda_malloc_def set_devctx_for_current_cuda_device_def set_devctx_for_device_def ours_def)
  next
    case False
    then show ?thesis using b beside_refl [OF assms(1,2)]
      by (auto simp: aimdo_cuda_malloc_def set_devctx_for_current_cuda_device_def set_devctx_for_device_def ours_def pass_through_def)
  qed
qed

end
