(* ===== verification/FileReader.thy ===== *)
theory FileReader
  imports HostStream
begin

text \<open>
  The file reader (\<open>src/hostbuf-file-reader.c\<close>): file ranges go to the device, and device ranges to a file,
  through three pinned staging windows of 64 MiB that are filled one after the other. A window is left with
  an event recorded behind its copies, and waits for the event before it is filled again.
\<close>

abbreviation HOSTBUF_FILE_READER_SLOTS :: nat where "HOSTBUF_FILE_READER_SLOTS \<equiv> 3"
abbreviation HOSTBUF_FILE_READER_WINDOW :: u64 where "HOSTBUF_FILE_READER_WINDOW \<equiv> 67108864"
abbreviation LEAD_IN_THRESHOLD :: u64 where "LEAD_IN_THRESHOLD \<equiv> 50331648"

record reader_slot =
  rs_buffer :: u64
  rs_offset :: u64
  rs_stream :: u64
  rs_event :: u64

definition empty_slot :: reader_slot where
  "empty_slot = \<lparr>rs_buffer = 0, rs_offset = 0, rs_stream = 0, rs_event = 0\<rparr>"

text \<open>The slots, by index; no slot is active before the first transfer.\<close>

record fstate = hstate +
  reader_slots :: "nat \<Rightarrow> reader_slot"
  reader_active :: "nat option"

definition upd_slot :: "nat \<Rightarrow> (reader_slot \<Rightarrow> reader_slot) \<Rightarrow> 'z fstate_scheme \<Rightarrow> 'z fstate_scheme" where
  "upd_slot i f s = s\<lparr>reader_slots := (reader_slots s)(i := f (reader_slots s i))\<rparr>"

subsection \<open>Windows\<close>

definition hostbuf_file_reader_retire_active :: "env \<Rightarrow> 'z fstate_scheme \<Rightarrow> (bool \<times> 'z fstate_scheme) option" where
  "hostbuf_file_reader_retire_active E s = (case reader_active s of
      None \<Rightarrow> Some (True, s)
    | Some i \<Rightarrow> let slot = reader_slots s i in
        if rs_offset slot = 0 \<or> rs_event slot \<noteq> 0 then Some (True, s)
        else do {
          (r, s) \<leftarrow> ask E EventCreate s;
          if r_rc r \<noteq> CUDA_SUCCESS then Some (False, s)
          else do {
            let event = r_val r;
            (recorded, s) \<leftarrow> check_cu E (EventRecord event (if is_xpu E then rs_buffer slot else rs_stream slot)) s;
            if \<not> recorded then do { (_, s) \<leftarrow> ask E (EventDestroy event) s; Some (False, s) }
            else Some (True, upd_slot i (\<lambda>slot. slot\<lparr>rs_event := event\<rparr>) s) } })"

text \<open>Waiting for what a window still holds: the event is kept when the wait or its destruction fails.\<close>

definition drain_slot :: "env \<Rightarrow> nat \<Rightarrow> 'z fstate_scheme \<Rightarrow> (bool \<times> 'z fstate_scheme) option" where
  "drain_slot E i s = (let slot = reader_slots s i in
     if rs_buffer slot \<noteq> 0 \<and> rs_event slot \<noteq> 0 then do {
       (ok, s) \<leftarrow> check_cu E (EventSynchronize (rs_event slot)) s;
       if \<not> ok then Some (False, s)
       else do {
         (ok, s) \<leftarrow> check_cu E (EventDestroy (rs_event slot)) s;
         Some (ok, if ok then upd_slot i (\<lambda>slot. slot\<lparr>rs_event := 0\<rparr>) s else s) } }
     else Some (True, s))"

text \<open>The index of the next window, \<open>None\<close> for \<open>NULL\<close>.\<close>

definition hostbuf_file_reader_next :: "env \<Rightarrow> u64 \<Rightarrow> 'z fstate_scheme \<Rightarrow> (nat option \<times> 'z fstate_scheme) option" where
  "hostbuf_file_reader_next E stream s = do {
     let i = (case reader_active s of None \<Rightarrow> 0 | Some a \<Rightarrow> (a + 1) mod HOSTBUF_FILE_READER_SLOTS);
     (ok, s) \<leftarrow> drain_slot E i s;
     if \<not> ok then Some (None, s)
     else do {
       (ok, s) \<leftarrow> (if rs_buffer (reader_slots s i) = 0 then do {
           (r, s) \<leftarrow> ask E (MemAllocHost HOSTBUF_FILE_READER_WINDOW) s;
           Some (r_rc r = CUDA_SUCCESS, if r_rc r = CUDA_SUCCESS then upd_slot i (\<lambda>slot. slot\<lparr>rs_buffer := r_val r\<rparr>) s else s) }
         else Some (True, s));
       if \<not> ok then Some (None, s)
       else Some (Some i, (upd_slot i (\<lambda>slot. slot\<lparr>rs_offset := 0, rs_stream := stream\<rparr>) s)\<lparr>reader_active := Some i\<rparr>) } }"

text \<open>Whether the active window can take more of a transfer.\<close>

definition slot_serves :: "u64 \<Rightarrow> u64 \<Rightarrow> reader_slot \<Rightarrow> bool" where
  "slot_serves stream n slot \<longleftrightarrow> rs_event slot = 0 \<and> rs_stream slot = stream \<and>
     \<not> (rs_offset slot + n \<ge> HOSTBUF_FILE_READER_WINDOW \<and> rs_offset slot \<ge> LEAD_IN_THRESHOLD)"

definition active_window :: "env \<Rightarrow> u64 \<Rightarrow> u64 \<Rightarrow> 'z fstate_scheme \<Rightarrow> (nat option \<times> 'z fstate_scheme) option" where
  "active_window E stream n s = (case reader_active s of
      Some i \<Rightarrow> if slot_serves stream n (reader_slots s i) then Some (Some i, s)
        else do {
          (ok, s) \<leftarrow> hostbuf_file_reader_retire_active E s;
          if \<not> ok then Some (None, s) else hostbuf_file_reader_next E stream s }
    | None \<Rightarrow> do {
        (ok, s) \<leftarrow> hostbuf_file_reader_retire_active E s;
        if \<not> ok then Some (None, s) else hostbuf_file_reader_next E stream s })"

subsection \<open>Transfers\<close>

text \<open>\<open>aimdo_xpu_prepare_h2d\<close> (\<open>src/xpu-copy-pressure.h\<close>): reclaim for the live shortage before a copy.\<close>

definition aimdo_xpu_prepare_h2d :: "env \<Rightarrow> 'z vstate_scheme \<Rightarrow> ((int \<times> int \<times> nat) \<times> 'z vstate_scheme) option" where
  "aimdo_xpu_prepare_h2d E s = do {
     (fit, s) \<leftarrow> budget_deficit E 0 s;
     if fit > 0 then do {
       (_, s) \<leftarrow> copy_residency_poll E False s;
       (left, s) \<leftarrow> vbars_free_retired E fit s;
       (post, s) \<leftarrow> budget_deficit E 0 s;
       Some ((fit, post, left), if post > 0 then vbars_request_reclaim post s else s) }
     else Some ((fit, fit, 0), s) }"

definition reader_pressure :: "env \<Rightarrow> bool \<Rightarrow> 'z vstate_scheme \<Rightarrow> (unit \<times> 'z vstate_scheme) option" where
  "reader_pressure E wr s =
     (if winxpu E \<and> \<not> wr \<and> stream_reclaim E then do { (_, s) \<leftarrow> aimdo_xpu_prepare_h2d E s; Some ((), s) } else Some ((), s))"

text \<open>One chunk, at \<open>buffer\<close> in the window.\<close>

definition reader_chunk ::
  "env \<Rightarrow> bool \<Rightarrow> bool \<Rightarrow> u64 \<Rightarrow> u64 \<Rightarrow> u64 \<Rightarrow> u64 \<Rightarrow> u64 \<Rightarrow> u64 \<Rightarrow> 'z fstate_scheme \<Rightarrow> (bool \<times> 'z fstate_scheme) option" where
  "reader_chunk E wr cold fd file_offset buffer chunk stream device_ptr s = do {
     (ok, s) \<leftarrow> (if wr then Some (True, s) else xfer_file_read E fd file_offset buffer chunk cold s);
     if \<not> ok then Some (False, s)
     else do {
       (_, s) \<leftarrow> reader_pressure E wr s;
       (ok, s) \<leftarrow> check_cu E (if wr then MemcpyDtoH buffer device_ptr chunk stream else MemcpyHtoD device_ptr buffer chunk stream) s;
       if \<not> ok then Some (False, s)
       else if wr then do {
         (ok, s) \<leftarrow> check_cu E CtxSynchronize s;
         if \<not> ok then Some (False, s) else xfer_file_write E fd file_offset buffer chunk s }
       else Some (True, s) } }"

definition reader_step ::
  "env \<Rightarrow> bool \<Rightarrow> bool \<Rightarrow> u64 \<Rightarrow> u64 \<Rightarrow> u64 \<times> u64 \<times> u64 \<Rightarrow> 'z fstate_scheme \<Rightarrow> ((u64 \<times> u64 \<times> u64 + bool) \<times> 'z fstate_scheme) option" where
  "reader_step E wr cold fd stream = (\<lambda>(file_offset, n, device_ptr) s.
     if n = 0 then Some (Inr True, s)
     else do {
       (slot, s) \<leftarrow> active_window E stream n s;
       case slot of
         None \<Rightarrow> Some (Inr False, s)
       | Some i \<Rightarrow> do {
           let offset = rs_offset (reader_slots s i);
           let chunk = min n (HOSTBUF_FILE_READER_WINDOW - offset);
           let buffer = rs_buffer (reader_slots s i) + offset;
           let s = upd_slot i (\<lambda>slot. slot\<lparr>rs_offset := offset + chunk\<rparr>) s;
           (ok, s) \<leftarrow> reader_chunk E wr cold fd file_offset buffer chunk stream device_ptr s;
           Some (if ok then Inl (file_offset + chunk, n - chunk, device_ptr + chunk) else Inr False, s) } })"

text \<open>Each window but the first takes at least 16 MiB of what is left.\<close>

definition reader_fuel :: "u64 \<Rightarrow> nat" where
  "reader_fuel n = unat n div 16777216 + 3"

definition hostbuf_file_transfer ::
  "env \<Rightarrow> int \<Rightarrow> u64 \<Rightarrow> u64 \<Rightarrow> u64 \<Rightarrow> u64 \<Rightarrow> u64 \<Rightarrow> bool \<Rightarrow> bool \<Rightarrow> 'z fstate_scheme \<Rightarrow> (bool \<times> 'z fstate_scheme) option" where
  "hostbuf_file_transfer E dev fd file_offset n stream device_ptr cold wr s =
     (if n = 0 then Some (True, s)
      else if device_ptr = 0 \<or> dev < 0 \<or> \<not> set_devctx_for_device dev s then Some (False, s)
      else loop (reader_fuel n) (reader_step E wr cold fd stream) (file_offset, n, device_ptr) s)"

definition hostbuf_file_reader_read ::
  "env \<Rightarrow> int \<Rightarrow> u64 \<Rightarrow> u64 \<Rightarrow> u64 \<Rightarrow> u64 \<Rightarrow> u64 \<Rightarrow> bool \<Rightarrow> 'z fstate_scheme \<Rightarrow> (bool \<times> 'z fstate_scheme) option" where
  "hostbuf_file_reader_read E dev fd file_offset n stream device_ptr cold s =
     hostbuf_file_transfer E dev fd file_offset n stream device_ptr cold False s"

definition hostbuf_file_writer_write ::
  "env \<Rightarrow> int \<Rightarrow> u64 \<Rightarrow> u64 \<Rightarrow> u64 \<Rightarrow> u64 \<Rightarrow> u64 \<Rightarrow> 'z fstate_scheme \<Rightarrow> (bool \<times> 'z fstate_scheme) option" where
  "hostbuf_file_writer_write E dev fd file_offset n stream device_ptr s =
     hostbuf_file_transfer E dev fd file_offset n stream device_ptr False True s"

subsection \<open>Cleanup\<close>

definition cleanup_slot :: "env \<Rightarrow> nat \<Rightarrow> bool \<Rightarrow> 'z fstate_scheme \<Rightarrow> ((bool + unit) \<times> 'z fstate_scheme) option" where
  "cleanup_slot E i complete s = do {
     (ok, s) \<leftarrow> drain_slot E i s;
     if \<not> ok then Some (Inl False, s)
     else do {
       let slot = reader_slots s i;
       (ok, s) \<leftarrow> (if rs_buffer slot \<noteq> 0 then check_cu E (MemFreeHost (rs_buffer slot)) s else Some (True, s));
       if \<not> ok then Some (Inl False, s)
       else do {
         let s = upd_slot i (\<lambda>_. empty_slot) s;
         Some (Inl complete, if reader_active s = Some i then s\<lparr>reader_active := None\<rparr> else s) } } }"

definition hostbuf_file_reader_cleanup_checked :: "env \<Rightarrow> 'z fstate_scheme \<Rightarrow> (bool \<times> 'z fstate_scheme) option" where
  "hostbuf_file_reader_cleanup_checked E s = do {
     (ok, s) \<leftarrow> hostbuf_file_reader_retire_active E s;
     if \<not> ok then Some (False, s)
     else do {
       (r, s) \<leftarrow> foreach (cleanup_slot E) [0..<HOSTBUF_FILE_READER_SLOTS] True s;
       Some (r = Inl True, s) } }"

definition hostbuf_file_reader_cleanup :: "env \<Rightarrow> 'z fstate_scheme \<Rightarrow> (unit \<times> 'z fstate_scheme) option" where
  "hostbuf_file_reader_cleanup E s = do { (_, s) \<leftarrow> hostbuf_file_reader_cleanup_checked E s; Some ((), s) }"

end
