(* ===== verification/CallFrame.thy ===== *)
theory CallFrame
  imports VbarSync XferPlat
begin

text \<open>
  Which calls an operation can make. \<open>only P s m\<close> says that \<open>m\<close>, when it returns, has made calls that
  satisfy \<open>P\<close> only since \<open>s\<close>; the rules below follow the structure of a program, so that the claim for an
  operation is the claims for what it calls.
\<close>

definition only :: "(call \<Rightarrow> bool) \<Rightarrow> 'z base_scheme \<Rightarrow> ('a \<times> 'z base_scheme) option \<Rightarrow> bool" where
  "only P s m \<longleftrightarrow> (\<forall>a t. m = Some (a, t) \<longrightarrow> asked_only P (hist s) (hist t))"

named_theorems only_rules \<open>calls of the operations\<close>

lemma only_Some [simp]: "only P s (Some (a, t)) = asked_only P (hist s) (hist t)"
  by (simp add: only_def)

lemma only_None [simp]: "only P s None"
  by (simp add: only_def)

lemma only_bind:
  assumes "only P s m" "\<And>a t. only P t (g a t)"
  shows "only P s (Option.bind m (\<lambda>(a, t). g a t))"
  using assms unfolding only_def by (fastforce simp: bind_eq_Some_conv intro: asked_only_trans)

lemma only_read: "(\<And>x. only P s (g x)) \<Longrightarrow> only P s (Option.bind m g)"
  by (cases m) simp_all

lemma only_if: "(b \<Longrightarrow> only P s m) \<Longrightarrow> (\<not> b \<Longrightarrow> only P s n) \<Longrightarrow> only P s (if b then m else n)"
  by simp

lemma only_ask: "P c \<Longrightarrow> only P s (ask E c s)"
  by (simp add: ask_def)

lemma only_check_cu: "P c \<Longrightarrow> only P s (check_cu E c s)"
  by (simp add: check_cu_def ask_def)

lemma only_start: "only P s' m \<Longrightarrow> hist s' = hist s \<Longrightarrow> only P s m"
  by (simp add: only_def)

lemma only_foreach:
  assumes "\<And>x a s. x \<in> set xs \<Longrightarrow> only P s (body x a s)"
  shows "only P s (foreach body xs a s)"
  using assms
proof (induction xs arbitrary: a s)
  case (Cons x xs)
  show ?case
    unfolding foreach.simps
  proof (rule only_bind)
    show "only P s (body x a s)" using Cons.prems by simp
    show "only P t (case r of Inl a \<Rightarrow> foreach body xs a t | Inr b \<Rightarrow> Some (Inr b, t))" for r t
      using Cons.IH Cons.prems by (cases r) simp_all
  qed
qed simp

lemma only_each:
  assumes "\<And>x s. x \<in> set xs \<Longrightarrow> only P s (body x s)"
  shows "only P s (each body xs s)"
  using assms
proof (induction xs arbitrary: s)
  case (Cons x xs)
  show ?case
    unfolding each.simps by (rule only_bind) (use Cons in simp_all)
qed simp

lemma only_loop: "(\<And>a s. only P s (body a s)) \<Longrightarrow> only P s (loop n body a s)"
proof (induction n arbitrary: a s)
  case (Suc n)
  show ?case
    unfolding loop.simps
  proof (rule only_bind)
    show "only P t (case r of Inl a \<Rightarrow> loop n body a t | Inr b \<Rightarrow> Some (b, t))" for r t
      using Suc by (cases r) simp_all
  qed (rule Suc.prems)
qed simp

lemma wp_only: "wp m Q \<Longrightarrow> only P s m \<Longrightarrow> wp m (\<lambda>a t. Q a t \<and> asked_only P (hist s) (hist t))"
  by (auto simp: wp_def only_def split: option.splits)

subsection \<open>File transfers\<close>

text \<open>Calls that move file bytes from or to a range of memory.\<close>

definition io_in :: "u64 \<Rightarrow> nat \<Rightarrow> call \<Rightarrow> bool" where
  "io_in b n c = (case c of
      FileIo wr fd at buf k \<Rightarrow> unat b \<le> unat buf \<and> unat buf + unat k \<le> unat b + n
    | FileAdvise fd at k \<Rightarrow> True
    | SyncCreate \<Rightarrow> True
    | _ \<Rightarrow> False)"

lemma io_piece:
  assumes "unat (b :: u64) + unat n \<le> 2 ^ 64" "k < n" "unat m \<le> unat (n - k)"
  shows "io_in b (unat n) (FileIo wr fd at (b + k) m)"
proof -
  have k: "unat k < unat n" using assms(2) by (simp add: word_less_nat_alt)
  then have "unat b + unat k < 2 ^ 64" using assms(1) by simp
  then have "unat (b + k) = unat b + unat k" by (subst unat_add_lem [THEN iffD1]) simp_all
  moreover have "unat (n - k) = unat n - unat k" using unat_sub [OF less_imp_le [OF assms(2)]] .
  ultimately show ?thesis using assms(3) k by (simp add: io_in_def)
qed

lemma transfer_posix_io:
  assumes "unat buffer + unat bytes \<le> 2 ^ 64"
  shows "only (io_in buffer (unat bytes)) s (transfer_posix E wr fd offset buffer bytes cold sofar s)"
proof -
  have "unat buffer + unat bytes \<le> 2 ^ 64 \<longrightarrow> asked_only (io_in buffer (unat bytes)) (hist s) (hist (snd y))"
    if "transfer_posix E wr fd offset buffer bytes cold sofar s = Some y" for y
    using that
  proof (rule transfer_posix.raw_induct [where P = "\<lambda>E wr fd offset buffer bytes cold sofar s y. unat buffer + unat bytes \<le> 2 ^ 64 \<longrightarrow>
      asked_only (io_in buffer (unat bytes)) (hist s) (hist (snd y))", rotated], intro impI, goal_cases)
    case (1 go E wr fd offset buffer bytes cold sofar s y)
    let ?c = "FileIo wr fd (offset + sofar) (buffer + sofar) (bytes - sofar)"
    show ?case
    proof (cases "sofar < bytes")
      case False
      then show ?thesis using 1(2) by auto
    next
      case True
      then have c: "io_in buffer (unat bytes) ?c" using io_piece [OF 1(4)] by simp
      have a: "io_in buffer (unat bytes) (FileAdvise fd p q)" for p q by (simp add: io_in_def)
      have rec: "asked_only (io_in buffer (unat bytes)) (hist s) (hist (snd y))"
        if "go E wr fd offset buffer bytes cold sf t = Some y" "asked_only (io_in buffer (unat bytes)) (hist s) (hist t)" for sf t
        using 1(1) [OF that(1)] 1(4) asked_only_trans [OF that(2)] by blast
      show ?thesis
        using 1(2) True c a by (auto simp: ask_def advise_cold_def bind_eq_Some_conv split: if_splits intro: rec)
    qed
  qed
  then show ?thesis using assms by (fastforce simp: only_def)
qed

lemma transfer_win_io:
  assumes "unat buffer + unat bytes \<le> 2 ^ 64"
  shows "only (io_in buffer (unat bytes)) s (transfer_win E wr fd offset buffer bytes sofar s)"
proof -
  have "unat buffer + unat bytes \<le> 2 ^ 64 \<longrightarrow> asked_only (io_in buffer (unat bytes)) (hist s) (hist (snd y))"
    if "transfer_win E wr fd offset buffer bytes sofar s = Some y" for y
    using that
  proof (rule transfer_win.raw_induct [where P = "\<lambda>E wr fd offset buffer bytes sofar s y. unat buffer + unat bytes \<le> 2 ^ 64 \<longrightarrow>
      asked_only (io_in buffer (unat bytes)) (hist s) (hist (snd y))", rotated], intro impI, goal_cases)
    case (1 go E wr fd offset buffer bytes sofar s y)
    let ?c = "FileIo wr fd (offset + sofar) (buffer + sofar) (min 0x7ffff000 (bytes - sofar))"
    show ?case
    proof (cases "sofar < bytes")
      case False
      then show ?thesis using 1(2) by auto
    next
      case True
      have "unat (min 0x7ffff000 (bytes - sofar)) \<le> unat (bytes - sofar)" by (simp add: min_def word_le_nat_alt)
      then have c: "io_in buffer (unat bytes) ?c" using io_piece [OF 1(4) True] by simp
      have a: "io_in buffer (unat bytes) SyncCreate" by (simp add: io_in_def)
      have rec: "asked_only (io_in buffer (unat bytes)) (hist s) (hist (snd y))"
        if "go E wr fd offset buffer bytes sf t = Some y" "asked_only (io_in buffer (unat bytes)) (hist s) (hist t)" for sf t
        using 1(1) [OF that(1)] 1(4) asked_only_trans [OF that(2)] by blast
      show ?thesis
        using 1(2) True c a by (auto simp: ask_def bind_eq_Some_conv split: if_splits intro: rec)
    qed
  qed
  then show ?thesis using assms by (fastforce simp: only_def)
qed

lemma chunk_within:
  assumes "unat (b :: u64) + n \<le> 2 ^ 64" "at < n"
  shows "io_in (b + of_nat at) (min m (n - at)) c \<Longrightarrow> io_in b n c"
proof -
  have a: "unat (of_nat at :: u64) = at" "unat b + at < 2 ^ 64" using assms by (simp_all add: unat_of_nat)
  then have "unat (b + of_nat at) = unat b + at" by (subst unat_add_lem [THEN iffD1]) simp_all
  then show "io_in (b + of_nat at) (min m (n - at)) c \<Longrightarrow> io_in b n c"
    using assms by (auto simp: io_in_def split: call.splits)
qed

lemma only_mono: "only P s m \<Longrightarrow> (\<And>c. P c \<Longrightarrow> Q c) \<Longrightarrow> only Q s m"
  by (auto simp: only_def intro: asked_only_mono)

lemma do_chunk_io:
  assumes "unat (xc_buffer c) + xc_size c \<le> 2 ^ 64" "at < xc_size c" "xc_size c < 2 ^ 63"
  shows "only (io_in (xc_buffer c) (xc_size c)) s (do_chunk E (chunk_task w c at) failed s)"
proof -
  let ?t = "chunk_task w c at"
  have sz: "unat (of_nat (xt_size ?t) :: u64) = xt_size ?t" using assms(3) by (simp add: chunk_task_def unat_of_nat)
  have a: "unat (of_nat at :: u64) = at" "unat (xc_buffer c) + at < 2 ^ 64" using assms by (simp_all add: unat_of_nat)
  then have "unat (xc_buffer c + of_nat at) = unat (xc_buffer c) + at" by (subst unat_add_lem [THEN iffD1]) simp_all
  then have fits: "unat (xt_buffer ?t) + unat (of_nat (xt_size ?t) :: u64) \<le> 2 ^ 64"
    unfolding sz using assms(1,2) by (simp add: chunk_task_def)
  have "only (io_in (xt_buffer ?t) (xt_size ?t)) s (xfer_file_transfer_at E (xt_write ?t) (xt_file ?t) (xt_offset ?t) (xt_buffer ?t) (of_nat (xt_size ?t)) (xt_cold ?t) s)"
    unfolding xfer_file_transfer_at_def
    by (intro only_if transfer_win_io [OF fits, unfolded sz] transfer_posix_io [OF fits, unfolded sz])
  then have "only (io_in (xc_buffer c) (xc_size c)) s (xfer_file_transfer_at E (xt_write ?t) (xt_file ?t) (xt_offset ?t) (xt_buffer ?t) (of_nat (xt_size ?t)) (xt_cold ?t) s)"
    by (rule only_mono) (rule chunk_within [OF assms(1,2)], simp add: chunk_task_def)
  then show ?thesis unfolding do_chunk_def by (rule only_bind) simp
qed

text \<open>A file transfer reads or writes memory within its buffer only, also when it fails.\<close>

lemma xfer_file_transfer_io:
  assumes "unat buffer + unat n \<le> 2 ^ 64" "unat n < 2 ^ 63"
  shows "only (io_in buffer (unat n)) (s :: 'z base_scheme) (xfer_file_transfer E fd offset buffer n cold wr s)"
proof -
  let ?c = "\<lparr>xc_file = fd, xc_offset = offset, xc_buffer = buffer, xc_size = unat n, xc_cold = cold, xc_write = wr, xc_done = 0\<rparr>"
  have i: "i * XFER_FILE_CHUNK_SIZE < unat n" if "i < chunk_count (unat n)" for i
  proof -
    have "(unat n + XFER_FILE_CHUNK_SIZE - 1) mod 2 ^ 64 = unat n + XFER_FILE_CHUNK_SIZE - 1" using assms(2) by simp
    then have "Suc i \<le> (unat n + XFER_FILE_CHUNK_SIZE - 1) div XFER_FILE_CHUNK_SIZE" using that unfolding chunk_count_def by simp
    then have "Suc i * XFER_FILE_CHUNK_SIZE \<le> unat n + XFER_FILE_CHUNK_SIZE - 1" by (subst (asm) less_eq_div_iff_mult_less_eq) simp_all
    then show ?thesis by simp
  qed
  have piece: "at < unat n \<Longrightarrow> only (io_in buffer (unat n)) u (do_chunk E (chunk_task 0 ?c at) b u)" for at b and u :: "'z base_scheme"
    using do_chunk_io [of ?c at u E 0 b] assms by simp
  have chunks: "only (io_in buffer (unat n)) t (foreach (do_chunk E)
      (map (\<lambda>i. chunk_task 0 ?c (i * XFER_FILE_CHUNK_SIZE)) [0..<chunk_count (unat n)]) False t)" for t :: "'z base_scheme"
    by (rule only_foreach) (auto intro!: piece i)
  have sync: "only (io_in buffer (unat n)) t (ask E SyncCreate t)" for t by (rule only_ask) (simp add: io_in_def)
  show ?thesis
    unfolding xfer_file_transfer_def Let_def
    by (intro only_bind only_if sync chunks) simp_all
qed

subsection \<open>Reclaim\<close>

text \<open>Calls that neither use nor create staging memory or events.\<close>

fun no_staging :: "call \<Rightarrow> bool" where
  "no_staging (FileIo wr fd at buf n) = False"
| "no_staging (MemcpyHtoD d a n st) = False"
| "no_staging (MemcpyDtoH a d n st) = False"
| "no_staging (EventCreate) = False"
| "no_staging (EventRecord ev k) = False"
| "no_staging (EventDestroy ev) = False"
| "no_staging (MemAllocHost n) = False"
| "no_staging (MemFreeHost a) = False"
| "no_staging _ = True"

lemmas only_intros = only_bind only_read only_if only_ask only_check_cu

lemma upd_hist [simp]: "hist (upd_page v i f s) = hist s" "hist (upd_vbar v g s) = hist s"
  by (simp_all add: upd_page_def upd_vbar_def)

lemma only_locks [simp]:
  "only P s (vbar_state_lock E s)" "only P s (vbar_state_unlock E s)" "P (TryLock 0) \<Longrightarrow> only P s (vbar_state_try_lock E s)"
  by (auto simp: vbar_state_lock_def vbar_state_unlock_def vbar_state_try_lock_def ask_def)

lemma restore_quiet: "only no_staging s (vbar_restore_page_mapping E v i b s)"
  unfolding vbar_restore_page_mapping_def Let_def
  by (intro only_read only_if only_bind only_check_cu)
    (simp_all add: only_def check_cu_def ask_def asked_only_def list_all_iff bind_eq_Some_conv split: if_splits)

lemma writeback_quiet: "only no_staging s (mod1_writeback E v mv i s)"
  unfolding mod1_writeback_def Let_def by (intro only_bind only_if only_check_cu only_ask) simp_all

lemma only_from: "only P t m \<Longrightarrow> hist t = hist s \<Longrightarrow> only P s m"
  by (simp add: only_def)

lemma release_winxpu_quiet: "only no_staging s (mod1_release_winxpu E v i s)"
  unfolding mod1_release_winxpu_def Let_def
  by (intro only_read only_if only_bind only_check_cu only_from [OF only_bind] only_from [OF only_check_cu]
      only_from [OF restore_quiet]) simp_all

lemma mod1_quiet: "only no_staging s (mod1 E v i f u s)"
  unfolding mod1_def Let_def mod1_release_def unmap_workaround_def
  by (intro only_read only_if only_bind only_check_cu writeback_quiet release_winxpu_quiet only_ask) simp_all

lemma mod1_calls: "mod1 E v i f u t = Some (a, b) \<Longrightarrow> hist t = hist s \<Longrightarrow> asked_only no_staging (hist s) (hist b)"
  using mod1_quiet [of t E v i f u] by (simp add: only_def)

lemma commit_candidate_quiet: "only no_staging s (commit_candidate E c n s)"
  unfolding commit_candidate_def Let_def
  by (cases "vbar_find_identity_locked (cand_identity c) s")
    (auto simp: only_def split: bind_splits intro: mod1_calls)

lemma commit_quiet: "only no_staging s (vbar_commit_candidates E cs s)"
  unfolding vbar_commit_candidates_def by (intro only_bind only_foreach commit_candidate_quiet) simp_all

lemma freeze_scan_quiet: "only no_staging s (freeze_scan el v lo lim n cs s)"
proof (induction n arbitrary: cs s)
  case (Suc n)
  have "only no_staging s (freeze_scan el v lo lim n ds (snd (freeze_page v mv n s)))" for ds mv
    by (rule only_from [OF Suc.IH]) (simp add: freeze_page_def Let_def)
  then show ?case
    by (auto simp: case_prod_unfold Let_def intro!: only_read only_if Suc.IH)
qed simp

lemma freeze_order_quiet: "only no_staging s (freeze_order skip lo el lim s)"
  unfolding freeze_order_def
  by (intro only_bind only_foreach only_read only_if freeze_scan_quiet) simp_all

lemma freeze_retired_quiet: "only no_staging s (vbar_freeze_retired_candidates E n completed preserved cap s)"
  unfolding vbar_freeze_retired_candidates_def
  by (intro only_bind only_if only_from [OF only_bind] only_from [OF freeze_order_quiet]) simp_all

lemma free_retired_quiet: "only no_staging s (vbars_free_retired_except E bytes preserved s)"
  unfolding vbars_free_retired_except_def retired_round_def retire_snapshot_def Let_def
  by (intro only_if only_bind only_loop only_ask freeze_retired_quiet commit_quiet) simp_all

lemma poll_quiet: "only no_staging s (copy_residency_poll E wait s)"
proof -
  have "only no_staging s (copy_release_one i s)" for i s
    by (simp add: copy_release_one_def split: option.split)
  then show ?thesis
    unfolding copy_residency_poll_def aimdo_vbar_copy_release_def
    by (intro only_bind only_ask only_each) simp_all
qed

lemma budget_quiet: "only no_staging s (budget_deficit E n s)"
proof -
  have "is_query c \<Longrightarrow> no_staging c" for c by (cases c) simp_all
  then have "asked_only no_staging (hist s) (hist t)" if "sampled s t" for t
    using that asked_only_mono unfolding sampled_def by blast
  then show ?thesis using wp_budget_deficit [of E n s] by (auto simp: only_def wp_def split: option.splits)
qed

end
