(* ===== verification/ReaderInv.thy ===== *)
theory ReaderInv
  imports FileReader CallFrame
begin

text \<open>
  Staging memory is never overwritten, read by a file write, or freed while the device may still access it.
  \<open>inflight\<close> reads off a history which accesses of host memory the device has not finished: copies start
  them (whatever they answer), an event recorded behind them or a synchronization of the context ends them.
\<close>

subsection \<open>Accesses in flight\<close>

record flight =
  fl_at :: u64
  fl_bytes :: u64
  fl_stream :: u64
  fl_events :: "u64 list"

definition touches :: "flight \<Rightarrow> u64 \<Rightarrow> nat \<Rightarrow> bool" where
  "touches f b n \<longleftrightarrow> unat (fl_at f) < unat b + n \<and> unat b < unat (fl_at f) + unat (fl_bytes f)"

abbreviation window_bytes :: nat where "window_bytes \<equiv> 67108864"

text \<open>What an event is recorded behind: a window on XPU, a stream elsewhere.\<close>

definition behind :: "env \<Rightarrow> u64 \<Rightarrow> flight \<Rightarrow> bool" where
  "behind E k f \<longleftrightarrow> (if is_xpu E then touches f k window_bytes else fl_stream f = k)"

definition tag :: "env \<Rightarrow> u64 \<Rightarrow> u64 \<Rightarrow> flight \<Rightarrow> flight" where
  "tag E ev k f = (if behind E k f then f\<lparr>fl_events := ev # fl_events f\<rparr> else f)"

definition untag :: "u64 \<Rightarrow> flight \<Rightarrow> flight" where
  "untag ev f = f\<lparr>fl_events := filter (\<lambda>x. x \<noteq> ev) (fl_events f)\<rparr>"

fun inflight :: "env \<Rightarrow> call list \<Rightarrow> flight list" where
  "inflight E [] = []"
| "inflight E (MemcpyHtoD d a n st # h) = \<lparr>fl_at = a, fl_bytes = n, fl_stream = st, fl_events = []\<rparr> # inflight E h"
| "inflight E (MemcpyDtoH a d n st # h) = \<lparr>fl_at = a, fl_bytes = n, fl_stream = st, fl_events = []\<rparr> # inflight E h"
| "inflight E (EventRecord ev k # h) =
     (if r_rc (drv E h (EventRecord ev k)) = 0 then map (tag E ev k) (inflight E h) else inflight E h)"
| "inflight E (EventDestroy ev # h) = map (untag ev) (inflight E h)"
| "inflight E (EventSynchronize ev # h) =
     (if r_rc (drv E h (EventSynchronize ev)) = 0 then filter (\<lambda>f. ev \<notin> set (fl_events f)) (inflight E h) else inflight E h)"
| "inflight E (CtxSynchronize # h) = (if r_rc (drv E h CtxSynchronize) = 0 then [] else inflight E h)"
| "inflight E (c # h) = inflight E h"

fun live_events :: "env \<Rightarrow> call list \<Rightarrow> u64 set" where
  "live_events E [] = {}"
| "live_events E (EventCreate # h) =
     (if r_rc (drv E h EventCreate) = 0 then insert (r_val (drv E h EventCreate)) (live_events E h) else live_events E h)"
| "live_events E (EventDestroy ev # h) =
     (if r_rc (drv E h (EventDestroy ev)) = 0 then live_events E h - {ev} else live_events E h)"
| "live_events E (c # h) = live_events E h"

fun host_live :: "env \<Rightarrow> call list \<Rightarrow> (u64 \<times> u64) set" where
  "host_live E [] = {}"
| "host_live E (MemAllocHost n # h) =
     (if r_rc (drv E h (MemAllocHost n)) = 0 then insert (r_val (drv E h (MemAllocHost n)), n) (host_live E h) else host_live E h)"
| "host_live E (MemFreeHost a # h) =
     (if r_rc (drv E h (MemFreeHost a)) = 0 then {p \<in> host_live E h. fst p \<noteq> a} else host_live E h)"
| "host_live E (c # h) = host_live E h"

text \<open>
  Documented behaviour of \<open>cuEventCreate\<close> and \<open>cuMemAllocHost\<close>: a new handle is no live one, and new
  memory is neither memory that is allocated nor memory that the device still accesses.
\<close>

definition reader_driver :: "env \<Rightarrow> bool" where
  "reader_driver E \<longleftrightarrow>
     (\<forall>h. r_rc (drv E h EventCreate) = 0 \<longrightarrow> r_val (drv E h EventCreate) \<noteq> 0 \<and> r_val (drv E h EventCreate) \<notin> live_events E h) \<and>
     (\<forall>h n. r_rc (drv E h (MemAllocHost n)) = 0 \<longrightarrow> (let a = r_val (drv E h (MemAllocHost n)) in
        a \<noteq> 0 \<and> unat a + unat n \<le> 2 ^ 64 \<and>
        (\<forall>(b, m) \<in> host_live E h. unat a + unat n \<le> unat b \<or> unat b + unat m \<le> unat a) \<and>
        (\<forall>f \<in> set (inflight E h). \<not> touches f a (unat n))))"

lemma new_host_memory:
  assumes "reader_driver E" "r_rc (drv E h (MemAllocHost n)) = 0"
  shows "r_val (drv E h (MemAllocHost n)) \<noteq> 0" "unat (r_val (drv E h (MemAllocHost n))) + unat n \<le> 2 ^ 64"
    "(b, m) \<in> host_live E h \<Longrightarrow> unat (r_val (drv E h (MemAllocHost n))) + unat n \<le> unat b \<or> unat b + unat m \<le> unat (r_val (drv E h (MemAllocHost n)))"
    "f \<in> set (inflight E h) \<Longrightarrow> \<not> touches f (r_val (drv E h (MemAllocHost n))) (unat n)"
  using assms unfolding reader_driver_def Let_def by blast+

text \<open>A call that is safe: file bytes move and memory is freed only where nothing is in flight.\<close>

definition safe_call :: "env \<Rightarrow> call list \<Rightarrow> call \<Rightarrow> bool" where
  "safe_call E h c = (case c of
      FileIo wr fd at buf n \<Rightarrow> \<forall>f \<in> set (inflight E h). \<not> touches f buf (unat n)
    | MemFreeHost a \<Rightarrow> \<forall>n. (a, n) \<in> host_live E h \<longrightarrow> (\<forall>f \<in> set (inflight E h). \<not> touches f a (unat n))
    | _ \<Rightarrow> True)"

fun safe :: "env \<Rightarrow> call list \<Rightarrow> call list \<Rightarrow> bool" where
  "safe E h [] = True"
| "safe E h (c # cs) \<longleftrightarrow> safe E h cs \<and> safe_call E (cs @ h) c"

definition safe_since :: "env \<Rightarrow> call list \<Rightarrow> call list \<Rightarrow> bool" where
  "safe_since E h h' \<longleftrightarrow> (\<exists>cs. h' = cs @ h \<and> safe E h cs)"

lemma safe_append: "safe E h (ds @ cs) \<longleftrightarrow> safe E h cs \<and> safe E (cs @ h) ds"
  by (induction ds) auto

lemma safe_since_refl [simp]: "safe_since E h h"
  by (simp add: safe_since_def)

lemma safe_since_trans: "safe_since E h h' \<Longrightarrow> safe_since E h' h'' \<Longrightarrow> safe_since E h h''"
  unfolding safe_since_def by (metis append.assoc safe_append)

lemma safe_since_Cons: "safe_since E h h' \<Longrightarrow> safe_call E h' c \<Longrightarrow> safe_since E h (c # h')"
  unfolding safe_since_def by (metis append_Cons safe.simps(2))

subsection \<open>The windows\<close>

definition idle :: "flight list \<Rightarrow> u64 \<Rightarrow> bool" where
  "idle fs b \<longleftrightarrow> (\<forall>f \<in> set fs. \<not> touches f b window_bytes)"

text \<open>What is in flight in a window lies below its offset, behind its event or on its stream.\<close>

definition window_ok :: "flight list \<Rightarrow> (u64 \<times> u64) set \<Rightarrow> reader_slot \<Rightarrow> bool" where
  "window_ok fs hl slot \<longleftrightarrow> (rs_buffer slot = 0 \<longrightarrow> rs_event slot = 0) \<and>
     (rs_buffer slot \<noteq> 0 \<longrightarrow> (rs_buffer slot, HOSTBUF_FILE_READER_WINDOW) \<in> hl \<and>
        unat (rs_buffer slot) + window_bytes \<le> 2 ^ 64 \<and> unat (rs_offset slot) \<le> window_bytes \<and>
        (\<forall>f \<in> set fs. touches f (rs_buffer slot) window_bytes \<longrightarrow>
           unat (fl_at f) + unat (fl_bytes f) \<le> unat (rs_buffer slot) + unat (rs_offset slot) \<and>
           (if rs_event slot \<noteq> 0 then rs_event slot \<in> set (fl_events f) else fl_stream f = rs_stream slot)))"

definition apart :: "reader_slot \<Rightarrow> reader_slot \<Rightarrow> bool" where
  "apart x y \<longleftrightarrow> (rs_buffer x \<noteq> 0 \<longrightarrow> rs_buffer y \<noteq> 0 \<longrightarrow>
     unat (rs_buffer x) + window_bytes \<le> unat (rs_buffer y) \<or> unat (rs_buffer y) + window_bytes \<le> unat (rs_buffer x)) \<and>
     (rs_event x \<noteq> 0 \<longrightarrow> rs_event y \<noteq> rs_event x)"

definition windows_ok ::
  "flight list \<Rightarrow> u64 set \<Rightarrow> (u64 \<times> u64) set \<Rightarrow> (nat \<Rightarrow> reader_slot) \<Rightarrow> nat option \<Rightarrow> bool" where
  "windows_ok fs lev hl sl act \<longleftrightarrow>
     (\<forall>i < 3. window_ok fs hl (sl i)) \<and>
     (\<forall>i < 3. \<forall>j < 3. i \<noteq> j \<longrightarrow> apart (sl i) (sl j)) \<and>
     (\<forall>i < 3. rs_event (sl i) \<noteq> 0 \<longrightarrow> rs_event (sl i) \<in> lev) \<and>
     (\<forall>i < 3. act \<noteq> Some i \<longrightarrow> rs_buffer (sl i) \<noteq> 0 \<longrightarrow> rs_event (sl i) = 0 \<longrightarrow> idle fs (rs_buffer (sl i))) \<and>
     (\<forall>i. act = Some i \<longrightarrow> i < 3 \<and> rs_buffer (sl i) \<noteq> 0)"

definition reader_ok :: "env \<Rightarrow> 'z fstate_scheme \<Rightarrow> bool" where
  "reader_ok E s \<longleftrightarrow> windows_ok (inflight E (hist s)) (live_events E (hist s)) (host_live E (hist s)) (reader_slots s) (reader_active s)"

lemma touches_tag [simp]: "touches (tag E ev k f) b n = touches f b n" "touches (untag ev f) b n = touches f b n"
  by (simp_all add: touches_def tag_def untag_def)

lemma tag_sel [simp]:
  "fl_at (tag E ev k f) = fl_at f" "fl_bytes (tag E ev k f) = fl_bytes f" "fl_stream (tag E ev k f) = fl_stream f"
  "fl_at (untag ev f) = fl_at f" "fl_bytes (untag ev f) = fl_bytes f" "fl_stream (untag ev f) = fl_stream f"
  "set (fl_events (untag ev f)) = set (fl_events f) - {ev}"
  by (auto simp: tag_def untag_def)

lemma tag_events: "x \<in> set (fl_events f) \<Longrightarrow> x \<in> set (fl_events (tag E ev k f))" "behind E k f \<Longrightarrow> ev \<in> set (fl_events (tag E ev k f))"
  by (simp_all add: tag_def)

lemma idle_simps [simp]: "idle (map (tag E ev k) fs) b = idle fs b" "idle (map (untag ev) fs) b = idle fs b"
  by (simp_all add: idle_def)

lemma idle_mono: "idle fs b \<Longrightarrow> set fs' \<subseteq> set fs \<Longrightarrow> idle fs' b"
  by (auto simp: idle_def)

lemma window_mono: "window_ok fs hl x \<Longrightarrow> set fs' \<subseteq> set fs \<Longrightarrow> window_ok fs' hl x"
  by (auto simp: window_ok_def)

lemma window_empty: "window_ok fs hl x \<Longrightarrow> rs_buffer x \<noteq> 0 \<Longrightarrow> rs_offset x = 0 \<Longrightarrow> idle fs (rs_buffer x)"
  by (fastforce simp: window_ok_def idle_def touches_def)

text \<open>Nothing but a decrease of what is in flight and new events.\<close>

lemma windows_mono:
  assumes "windows_ok fs lev hl sl act" "set fs' \<subseteq> set fs" "lev \<subseteq> lev'"
  shows "windows_ok fs' lev' hl sl act"
  using assms window_mono [OF _ assms(2)] idle_mono [OF _ assms(2)] unfolding windows_ok_def by blast

lemma windows_record:
  assumes "windows_ok fs lev hl sl (Some i)" "rs_event (sl i) = 0" "ev \<noteq> 0" "ev \<in> lev" "\<forall>j < 3. rs_event (sl j) \<noteq> ev"
    "k = (if is_xpu E then rs_buffer (sl i) else rs_stream (sl i))"
  shows "windows_ok (map (tag E ev k) fs) lev hl (sl(i := (sl i)\<lparr>rs_event := ev\<rparr>)) (Some i)"
proof -
  have w: "window_ok fs hl (sl j)" if "j < 3" for j using assms(1) that by (simp add: windows_ok_def)
  have i: "i < 3" "rs_buffer (sl i) \<noteq> 0" using assms(1) by (simp_all add: windows_ok_def)
  have others: "window_ok (map (tag E ev k) fs) hl (sl j)" if "j < 3" for j
    using w [OF that] tag_events(1) by (auto simp: window_ok_def)
  have "window_ok (map (tag E ev k) fs) hl ((sl i)\<lparr>rs_event := ev\<rparr>)"
    using w [OF i(1)] i(2) assms(2,3,6) by (auto simp: window_ok_def behind_def intro!: tag_events(2))
  then show ?thesis
    using others assms(1,3-5) i by (auto simp: windows_ok_def apart_def)
qed

lemma windows_untag:
  assumes "windows_ok fs lev hl sl act" "\<forall>j < 3. rs_event (sl j) \<noteq> ev"
  shows "windows_ok (map (untag ev) fs) (lev - {ev}) hl sl act"
proof -
  have "window_ok (map (untag ev) fs) hl (sl j)" if "j < 3" for j
    using assms that by (auto simp: windows_ok_def window_ok_def)
  then show ?thesis using assms by (auto simp: windows_ok_def)
qed

subsection \<open>What the steps do to the windows\<close>

text \<open>A window that is left is one that can be waited for.\<close>

lemma windows_leave:
  assumes "windows_ok fs lev hl sl act" "\<forall>i. act = Some i \<longrightarrow> rs_event (sl i) \<noteq> 0 \<or> rs_offset (sl i) = 0"
  shows "windows_ok fs lev hl sl None"
proof -
  have "idle fs (rs_buffer (sl i))" if "i < 3" "rs_buffer (sl i) \<noteq> 0" "rs_event (sl i) = 0" for i
    using assms that window_empty [of fs hl "sl i"] by (cases "act = Some i") (simp_all add: windows_ok_def)
  then show ?thesis using assms(1) by (simp add: windows_ok_def)
qed

lemma windows_return:
  "windows_ok fs lev hl sl None \<Longrightarrow> (\<forall>i. act = Some i \<longrightarrow> i < 3 \<and> rs_buffer (sl i) \<noteq> 0) \<Longrightarrow> windows_ok fs lev hl sl act"
  unfolding windows_ok_def by blast

lemma window_idle:
  "idle fs (rs_buffer x) \<Longrightarrow> window_ok fs' hl x \<Longrightarrow> rs_event y = e \<Longrightarrow> rs_buffer y = rs_buffer x \<Longrightarrow> rs_offset y = rs_offset x \<Longrightarrow>
    (rs_buffer x = 0 \<longrightarrow> e = 0) \<Longrightarrow> window_ok fs hl y"
  by (auto simp: window_ok_def idle_def)

lemma windows_synced:
  assumes "windows_ok fs lev hl sl None" "j < 3" "rs_event (sl j) = ev" "ev \<noteq> 0"
  shows "windows_ok (filter (\<lambda>f. ev \<notin> set (fl_events f)) fs) lev hl sl None"
    and "idle (filter (\<lambda>f. ev \<notin> set (fl_events f)) fs) (rs_buffer (sl j))"
proof -
  show "windows_ok (filter (\<lambda>f. ev \<notin> set (fl_events f)) fs) lev hl sl None" by (rule windows_mono [OF assms(1)]) auto
  have "window_ok fs hl (sl j)" using assms(1,2) by (simp add: windows_ok_def)
  then show "idle (filter (\<lambda>f. ev \<notin> set (fl_events f)) fs) (rs_buffer (sl j))"
    using assms(3,4) by (auto simp: window_ok_def idle_def)
qed

text \<open>The event of an idle window is destroyed; \<open>keep\<close> says that the slot still names it.\<close>

lemma windows_settle:
  assumes "windows_ok fs lev hl sl None" "j < 3" "idle fs (rs_buffer (sl j))" "rs_event (sl j) = ev" "ev \<noteq> 0"
  shows "windows_ok (map (untag ev) fs) (lev - {ev}) hl (sl(j := (sl j)\<lparr>rs_event := 0\<rparr>)) None"
    and "windows_ok (map (untag ev) fs) lev hl sl None"
proof -
  have w: "window_ok fs hl (sl i)" if "i < 3" for i using assms(1) that by (simp add: windows_ok_def)
  have apart: "rs_event (sl i) \<noteq> ev" if "i < 3" "i \<noteq> j" for i
    using assms(1,2,4,5) that by (auto simp: windows_ok_def apart_def)
  have others: "window_ok (map (untag ev) fs) hl (sl i)" if "i < 3" "i \<noteq> j" for i
    using w [OF that(1)] apart [OF that] by (auto simp: window_ok_def)
  have mine: "window_ok (map (untag ev) fs) hl (sl j)" "window_ok (map (untag ev) fs) hl ((sl j)\<lparr>rs_event := 0\<rparr>)"
    by (rule window_idle [OF _ w [OF assms(2)], of _ _ ev] window_idle [OF _ w [OF assms(2)], of _ _ 0];
        use assms(3,4) w [OF assms(2)] in \<open>simp add: window_ok_def\<close>)+
  show "windows_ok (map (untag ev) fs) lev hl sl None"
    using assms(1) others mine(1) by (auto simp: windows_ok_def)
  show "windows_ok (map (untag ev) fs) (lev - {ev}) hl (sl(j := (sl j)\<lparr>rs_event := 0\<rparr>)) None"
    using assms(1,3) others mine(2) apart by (auto simp: windows_ok_def apart_def)
qed

text \<open>An idle window becomes the active one; its memory may be new.\<close>

lemma windows_activate:
  assumes "windows_ok fs lev hl sl None" "j < 3" "idle fs b" "b \<noteq> 0" "(b, HOSTBUF_FILE_READER_WINDOW) \<in> hl'"
    "unat b + window_bytes \<le> 2 ^ 64" "hl \<subseteq> hl'" "rs_event (sl j) = 0" "rs_buffer x = b" "rs_event x = 0" "rs_offset x = 0"
    "\<forall>i < 3. i \<noteq> j \<longrightarrow> rs_buffer (sl i) \<noteq> 0 \<longrightarrow>
       unat b + window_bytes \<le> unat (rs_buffer (sl i)) \<or> unat (rs_buffer (sl i)) + window_bytes \<le> unat b"
  shows "windows_ok fs lev hl' (sl(j := x)) (Some j)"
proof -
  have "window_ok fs hl' (sl i)" if "i < 3" for i
    using assms(1,7) that by (auto simp: windows_ok_def window_ok_def)
  moreover have "window_ok fs hl' x" using assms by (auto simp: window_ok_def idle_def)
  ultimately show ?thesis using assms(1,2,4,8-12) by (auto simp: windows_ok_def apart_def)
qed

text \<open>The active window is filled up to a further offset, and the bytes up to it are copied.\<close>

lemma windows_fill:
  assumes "windows_ok fs lev hl sl (Some i)" "unat (rs_offset (sl i)) \<le> unat k" "unat k \<le> window_bytes"
  shows "windows_ok fs lev hl (sl(i := (sl i)\<lparr>rs_offset := k\<rparr>)) (Some i)"
proof -
  have "window_ok fs hl (sl i)" using assms(1) by (simp add: windows_ok_def)
  then have "window_ok fs hl ((sl i)\<lparr>rs_offset := k\<rparr>)" using assms(2,3) by (fastforce simp: window_ok_def)
  then show ?thesis using assms(1) by (auto simp: windows_ok_def apart_def)
qed

lemma windows_copy:
  assumes "windows_ok fs lev hl sl (Some i)" "rs_event (sl i) = 0" "fl_stream f = rs_stream (sl i)"
    "unat (rs_buffer (sl i)) \<le> unat (fl_at f)" "unat (fl_at f) + unat (fl_bytes f) \<le> unat (rs_buffer (sl i)) + unat (rs_offset (sl i))"
  shows "windows_ok (f # fs) lev hl sl (Some i)"
proof -
  have w: "window_ok fs hl (sl j)" if "j < 3" for j using assms(1) that by (simp add: windows_ok_def)
  have i: "i < 3" "rs_buffer (sl i) \<noteq> 0" using assms(1) by (simp_all add: windows_ok_def)
  then have off: "unat (rs_offset (sl i)) \<le> window_bytes" using w by (simp add: window_ok_def)
  have far: "\<not> touches f (rs_buffer (sl j)) window_bytes" if "j < 3" "j \<noteq> i" "rs_buffer (sl j) \<noteq> 0" for j
  proof -
    have "apart (sl i) (sl j)" using assms(1) that i(1) by (auto simp: windows_ok_def)
    then show ?thesis using that(3) i(2) off assms(4,5) by (auto simp: apart_def touches_def)
  qed
  have "window_ok (f # fs) hl (sl j)" if "j < 3" for j
  proof (cases "j = i")
    case True
    then show ?thesis using w [OF i(1)] i(2) assms(2,3,5) by (auto simp: window_ok_def)
  next
    case False
    then show ?thesis using w [OF that] far [OF that False] by (auto simp: window_ok_def)
  qed
  then show ?thesis using assms(1) far by (auto simp: windows_ok_def idle_def)
qed

text \<open>What lies above the offset of the active window is free for the next chunk.\<close>

lemma window_above:
  assumes "window_ok fs hl x" "rs_buffer x \<noteq> 0" "f \<in> set fs" "unat (rs_buffer x) + unat (rs_offset x) \<le> unat b"
    "unat b + n \<le> unat (rs_buffer x) + window_bytes"
  shows "\<not> touches f b n"
proof
  assume o: "touches f b n"
  then have "touches f (rs_buffer x) window_bytes" using assms(4,5) by (simp add: touches_def)
  then have "unat (fl_at f) + unat (fl_bytes f) \<le> unat (rs_buffer x) + unat (rs_offset x)"
    using assms(1-3) by (simp add: window_ok_def)
  then show False using o assms(4) by (simp add: touches_def)
qed

text \<open>An idle window is freed.\<close>

lemma windows_free:
  assumes "windows_ok fs lev hl sl None" "j < 3" "rs_event (sl j) = 0"
  shows "windows_ok fs lev {p \<in> hl. fst p \<noteq> rs_buffer (sl j)} (sl(j := empty_slot)) None"
proof -
  let ?hl = "{p \<in> hl. fst p \<noteq> rs_buffer (sl j)}"
  have "window_ok fs ?hl (sl i)" if "i < 3" "i \<noteq> j" for i
  proof -
    have "apart (sl i) (sl j)" "window_ok fs hl (sl i)" "window_ok fs hl (sl j)" using assms(1,2) that by (auto simp: windows_ok_def)
    then show ?thesis by (fastforce simp: window_ok_def apart_def)
  qed
  moreover have "window_ok fs ?hl empty_slot" by (simp add: window_ok_def empty_slot_def)
  ultimately show ?thesis using assms(1) by (auto simp: windows_ok_def apart_def empty_slot_def)
qed

lemma windows_drop:
  "windows_ok fs lev hl sl None \<Longrightarrow> j < 3 \<Longrightarrow> rs_buffer (sl j) = 0 \<Longrightarrow> windows_ok fs lev hl (sl(j := empty_slot)) None"
  by (auto simp: windows_ok_def apart_def empty_slot_def window_ok_def)

lemma host_live_unique:
  assumes "reader_driver E"
  shows "(a, n) \<in> host_live E h \<Longrightarrow> (a, m) \<in> host_live E h \<Longrightarrow> n \<noteq> m \<Longrightarrow> n = 0 \<or> m = 0"
proof (induction h)
  case (Cons c h)
  show ?case
  proof (cases "\<exists>k. c = MemAllocHost k \<and> r_rc (drv E h (MemAllocHost k)) = 0")
    case True
    then obtain k where c: "c = MemAllocHost k" "r_rc (drv E h (MemAllocHost k)) = 0" by blast
    have "unat k = 0 \<or> unat l = 0" if "(r_val (drv E h (MemAllocHost k)), l) \<in> host_live E h" for l
      using new_host_memory(3) [OF assms c(2) that] by auto
    then show ?thesis using Cons c by (auto simp: unat_eq_0)
  next
    case False
    then have "host_live E (c # h) \<subseteq> host_live E h" by (cases c) auto
    then show ?thesis using Cons by blast
  qed
qed simp

end
