(* ===== verification/ReaderSafe.thy ===== *)
theory ReaderSafe
  imports ReaderInv
begin

text \<open>
  The operations of the file reader keep the windows well formed and never make an unsafe call: the
  steps of \<open>ReaderInv\<close> along the code, a calculus of calls for what the reader hands to other components
  (\<open>CallFrame\<close>), and the bound on the number of windows that a transfer fills.
\<close>

subsection \<open>Calls that leave the windows alone\<close>

definition windows_alone :: "env \<Rightarrow> call list \<Rightarrow> call list \<Rightarrow> bool" where
  "windows_alone E h h' \<longleftrightarrow> set (inflight E h') \<subseteq> set (inflight E h) \<and> live_events E h' = live_events E h \<and>
     host_live E h' = host_live E h \<and> safe_since E h h'"

lemma windows_alone_refl [simp]: "windows_alone E h h"
  by (simp add: windows_alone_def)

lemma windows_alone_trans: "windows_alone E h h' \<Longrightarrow> windows_alone E h' h'' \<Longrightarrow> windows_alone E h h''"
  by (auto simp: windows_alone_def intro: safe_since_trans)

lemma windows_alone_Cons:
  assumes "windows_alone E h h'" "no_staging c \<or> (io_in b n c \<and> (\<forall>f \<in> set (inflight E h). \<not> touches f b n))"
  shows "windows_alone E h (c # h')"
proof -
  have safe: "safe_call E h' c"
    using assms unfolding windows_alone_def by (cases c) (fastforce simp: safe_call_def io_in_def touches_def)+
  have "set (inflight E (c # h')) \<subseteq> set (inflight E h')" "live_events E (c # h') = live_events E h'" "host_live E (c # h') = host_live E h'"
    using assms(2) by (cases c; simp add: io_in_def)+
  then show ?thesis using assms(1) safe by (auto simp: windows_alone_def intro: safe_since_Cons)
qed

lemma windows_alone_no_staging: "asked_only no_staging h h' \<Longrightarrow> windows_alone E h h'"
proof -
  have "list_all no_staging cs \<Longrightarrow> windows_alone E h (cs @ h)" for cs
    by (induction cs) (auto intro: windows_alone_Cons)
  then show "asked_only no_staging h h' \<Longrightarrow> windows_alone E h h'" by (auto simp: asked_only_def)
qed

lemma windows_alone_io: "asked_only (io_in b n) h h' \<Longrightarrow> \<forall>f \<in> set (inflight E h). \<not> touches f b n \<Longrightarrow> windows_alone E h h'"
proof -
  assume free: "\<forall>f \<in> set (inflight E h). \<not> touches f b n"
  then have "list_all (io_in b n) cs \<Longrightarrow> windows_alone E h (cs @ h)" for cs
    by (induction cs) (auto intro: windows_alone_Cons)
  then show "asked_only (io_in b n) h h' \<Longrightarrow> windows_alone E h h'" by (auto simp: asked_only_def)
qed

definition stays :: "env \<Rightarrow> 'z fstate_scheme \<Rightarrow> 'z fstate_scheme \<Rightarrow> bool" where
  "stays E s t \<longleftrightarrow> (vinv E s \<longrightarrow> vinv E t) \<and> reader_slots t = reader_slots s \<and> reader_active t = reader_active s \<and>
     windows_alone E (hist s) (hist t)"

lemma stays_refl [simp]: "stays E s s"
  by (simp add: stays_def)

lemma stays_trans: "stays E s t \<Longrightarrow> stays E t u \<Longrightarrow> stays E s u"
  by (auto simp: stays_def intro: windows_alone_trans)

text \<open>What an operation of the reader establishes.\<close>

definition staged :: "env \<Rightarrow> 'z fstate_scheme \<Rightarrow> 'z fstate_scheme \<Rightarrow> bool" where
  "staged E s t \<longleftrightarrow> vinv E t \<and> reader_ok E t \<and> safe_since E (hist s) (hist t)"

lemma staged_refl: "vinv E s \<Longrightarrow> reader_ok E s \<Longrightarrow> staged E s s"
  by (simp add: staged_def)

lemma staged_trans: "staged E s t \<Longrightarrow> staged E t u \<Longrightarrow> staged E s u"
  by (auto simp: staged_def intro: safe_since_trans)

lemma staged_stays:
  assumes "staged E s t" "stays E t u"
  shows "staged E s u"
  using assms windows_mono unfolding staged_def stays_def windows_alone_def reader_ok_def
  by (metis order_refl safe_since_trans)

lemma reader_fields_erase:
  assumes "erase t = erase (s :: 'z fstate_scheme)"
  shows "reader_slots t = reader_slots s" "reader_active t = reader_active s"
  using assms by (cases s; cases t; simp add: erase_def)+

lemma stays_vsteps: "vsteps E P W s t \<Longrightarrow> asked_only no_staging (hist s) (hist t) \<Longrightarrow> stays E s (t :: 'z fstate_scheme)"
  unfolding stays_def
  by (intro conjI impI vinv_vsteps [of E P W s t] reader_fields_erase vsteps_erase [of E P W s t] windows_alone_no_staging)

lemma vinv_calls: "vinv E s \<Longrightarrow> list_all harmless cs \<Longrightarrow> vinv E (s\<lparr>hist := cs @ hist s\<rparr>)"
  by (rule vinv_vsteps [OF vsteps_quiet [OF quiet_hist]]) (auto simp: asked_only_def)

lemma vinv_call: "vinv E s \<Longrightarrow> harmless c \<Longrightarrow> vinv E (s\<lparr>hist := c # hist s\<rparr>)"
  using vinv_calls [of E s "[c]"] by simp

lemma vinv_reader [simp]:
  "vinv E (upd_slot i f s) = vinv E s" "vinv E (s\<lparr>reader_active := a\<rparr>) = vinv E s"
  by (simp_all add: vinv_def upd_slot_def)

lemma upd_slot_sel [simp]:
  "hist (upd_slot i f s) = hist s" "reader_slots (upd_slot i f s) = (reader_slots s)(i := f (reader_slots s i))"
  "reader_active (upd_slot i f s) = reader_active s"
  by (simp_all add: upd_slot_def)

subsection \<open>Files and reclaim\<close>

lemma wp_file_stays:
  fixes s :: "'z fstate_scheme"
  assumes "io_live E" "unat n < 2 ^ 63" "unat buffer + unat n \<le> 2 ^ 64"
    "\<forall>f \<in> set (inflight E (hist s)). \<not> touches f buffer (unat n)"
  shows "wp (xfer_file_transfer E fd offset buffer n cold wr s) (\<lambda>_ t. stays E s t)"
proof -
  obtain ok cs where t: "xfer_file_transfer E fd offset buffer n cold wr s = Some (ok, s\<lparr>hist := cs @ hist s\<rparr>)" "list_all is_file_io cs"
    using xfer_file_transfer_transfers [OF assms(1,2), of wr fd offset buffer s cold] unfolding transfers_def by blast
  have "is_file_io c \<Longrightarrow> harmless c" for c by (cases c) simp_all
  then have "vinv E s \<Longrightarrow> vinv E (s\<lparr>hist := cs @ hist s\<rparr>)" using vinv_calls t(2) by (metis list.pred_mono_strong)
  moreover have "asked_only (io_in buffer (unat n)) (hist s) (cs @ hist s)"
    using xfer_file_transfer_io [OF assms(3,2), of s E fd offset cold wr] by (simp add: t(1))
  ultimately show ?thesis using windows_alone_io [OF _ assms(4)] by (simp add: t(1) stays_def)
qed

lemma wp_pressure_stays:
  fixes s :: "'z fstate_scheme"
  assumes "vinv E s"
  shows "wp (reader_pressure E wr s) (\<lambda>_ t. stays E s t)"
proof -
  have budget: "wp (budget_deficit E 0 t) (\<lambda>_ u. stays E t u)" for t :: "'z fstate_scheme"
    by (rule wp_conseq [OF wp_only [OF wp_budget_deficit budget_quiet]])
      (auto intro: stays_vsteps [OF vsteps_quiet [OF sampled_quiet]])
  have poll: "wp (copy_residency_poll E False t) (\<lambda>_ u. stays E t u)" for t :: "'z fstate_scheme"
    by (rule wp_conseq [OF wp_only [OF wp_copy_residency_poll poll_quiet]]) (auto intro: stays_vsteps)
  have free: "wp (vbars_free_retired E n t) (\<lambda>_ u. stays E t u)" if "vinv E t" "winxpu E" for n and t :: "'z fstate_scheme"
    unfolding vbars_free_retired_def
    by (rule wp_conseq [OF wp_only [OF wp_vbars_free_retired_except [OF that] free_retired_quiet]])
      (auto simp: reclaim_bounded_def intro: stays_vsteps)
  have request: "stays E s (vbars_request_reclaim n t) = stays E s t" for n t
    by (simp add: vbars_request_reclaim_def stays_def vinv_def)
  show ?thesis
    unfolding reader_pressure_def aimdo_xpu_prepare_h2d_def
  proof (simp, intro impI, rule wp_conseq [OF budget], goal_cases)
    case (1 fit t)
    then have t: "vinv E t" using assms by (simp add: stays_def)
    show ?case
    proof (cases "0 < fit")
      case True
      have "wp (copy_residency_poll E False t) (\<lambda>_ u. wp (vbars_free_retired E fit u) (\<lambda>_ u. wp (budget_deficit E 0 u) (\<lambda>_ u. stays E s u)))"
      proof (rule wp_conseq [OF poll], goal_cases)
        case (1 a u)
        then have u: "vinv E u" "stays E s u" using t stays_trans [OF \<open>stays E s t\<close>] by (auto simp: stays_def [of E t u])
        show ?case
        proof (rule wp_conseq [OF free [OF u(1)]], goal_cases)
          case (2 a w)
          then show ?case by (intro wp_conseq [OF budget]) (blast intro: stays_trans u(2))
        qed (use \<open>winxpu E \<and> \<not> wr \<and> stream_reclaim E\<close> in simp)
      qed
      then show ?thesis using True request by (auto elim!: wp_conseq)
    qed (use 1 in simp)
  qed
qed

subsection \<open>Windows\<close>

text \<open>Every window that holds bytes in flight can be waited for.\<close>

definition waitable :: "env \<Rightarrow> 'z fstate_scheme \<Rightarrow> bool" where
  "waitable E s \<longleftrightarrow> windows_ok (inflight E (hist s)) (live_events E (hist s)) (host_live E (hist s)) (reader_slots s) None"

lemma waitable_reader_ok:
  "waitable E s \<Longrightarrow> (\<forall>i. reader_active s = Some i \<longrightarrow> i < 3 \<and> rs_buffer (reader_slots s i) \<noteq> 0) \<Longrightarrow> reader_ok E s"
  unfolding waitable_def reader_ok_def by (rule windows_return)

lemma reader_ok_waitable:
  "reader_ok E s \<Longrightarrow> (\<forall>i. reader_active s = Some i \<longrightarrow> rs_event (reader_slots s i) \<noteq> 0 \<or> rs_offset (reader_slots s i) = 0) \<Longrightarrow> waitable E s"
  unfolding waitable_def reader_ok_def by (rule windows_leave)

lemma active_ok: "reader_ok E s \<Longrightarrow> reader_active s = Some i \<Longrightarrow> i < 3 \<and> rs_buffer (reader_slots s i) \<noteq> 0"
  by (simp add: reader_ok_def windows_ok_def)

lemma wp_retire_active:
  fixes s :: "'z fstate_scheme"
  assumes "reader_driver E" "vinv E s" "reader_ok E s"
  shows "wp (hostbuf_file_reader_retire_active E s) (\<lambda>ok t. staged E s t \<and> reader_active t = reader_active s \<and> (ok \<longrightarrow> waitable E t))"
proof (cases "\<exists>i. reader_active s = Some i \<and> rs_offset (reader_slots s i) \<noteq> 0 \<and> rs_event (reader_slots s i) = 0")
  case False
  then show ?thesis
    using assms reader_ok_waitable [OF assms(3)] unfolding hostbuf_file_reader_retire_active_def
    by (auto simp: Let_def staged_refl split: option.split)
next
  case True
  then obtain i where i: "reader_active s = Some i" "rs_offset (reader_slots s i) \<noteq> 0" "rs_event (reader_slots s i) = 0" by blast
  let ?ev = "r_val (drv E (hist s) EventCreate)"
  let ?k = "if is_xpu E then rs_buffer (reader_slots s i) else rs_stream (reader_slots s i)"
  let ?fs = "inflight E (hist s)" and ?lev = "live_events E (hist s)" and ?hl = "host_live E (hist s)"
  let ?h = "EventRecord ?ev ?k # EventCreate # hist s"
  have ok: "windows_ok ?fs ?lev ?hl (reader_slots s) (Some i)" using assms(3) i(1) by (simp add: reader_ok_def)
  have vi: "vinv E (s\<lparr>hist := EventCreate # hist s\<rparr>)" "vinv E (s\<lparr>hist := ?h\<rparr>)" "vinv E (s\<lparr>hist := EventDestroy ?ev # ?h\<rparr>)"
    using vinv_calls [OF assms(2), of "[EventCreate]"] vinv_calls [OF assms(2), of "[EventRecord ?ev ?k, EventCreate]"]
      vinv_calls [OF assms(2), of "[EventDestroy ?ev, EventRecord ?ev ?k, EventCreate]"] by simp_all
  have safe: "safe_since E (hist s) (EventCreate # hist s)" "safe_since E (hist s) ?h" "safe_since E (hist s) (EventDestroy ?ev # ?h)"
    by (simp_all add: safe_since_Cons safe_call_def)
  show ?thesis
  proof (cases "r_rc (drv E (hist s) EventCreate) = 0")
    case False
    then show ?thesis
      using i vi(1) safe(1) ok
      by (simp add: hostbuf_file_reader_retire_active_def Let_def staged_def reader_ok_def)
  next
    case created: True
    then have ev: "?ev \<noteq> 0" "?ev \<notin> ?lev" using assms(1) by (simp_all add: reader_driver_def)
    then have new: "\<forall>j < 3. rs_event (reader_slots s j) \<noteq> ?ev" using ok by (auto simp: windows_ok_def)
    have more: "windows_ok ?fs (insert ?ev ?lev) ?hl (reader_slots s) (Some i)" by (rule windows_mono [OF ok]) auto
    show ?thesis
    proof (cases "r_rc (drv E (EventCreate # hist s) (EventRecord ?ev ?k)) = 0")
      case True
      let ?sl = "(reader_slots s)(i := (reader_slots s i)\<lparr>rs_event := ?ev\<rparr>)"
      have rec: "windows_ok (map (tag E ?ev ?k) ?fs) (insert ?ev ?lev) ?hl ?sl (Some i)"
        by (rule windows_record [OF more i(3) ev(1) _ new]) simp_all
      have "windows_ok (map (tag E ?ev ?k) ?fs) (insert ?ev ?lev) ?hl ?sl None"
        by (rule windows_leave [OF rec]) (simp add: ev(1))
      then show ?thesis
        using i vi(2) safe(2) rec created True
        by (simp add: hostbuf_file_reader_retire_active_def Let_def staged_def reader_ok_def waitable_def cong: if_cong)
    next
      case False
      have "windows_ok (map (untag ?ev) ?fs) (insert ?ev ?lev - {?ev}) ?hl (reader_slots s) (Some i)"
        by (rule windows_untag [OF more new])
      then have "windows_ok (map (untag ?ev) ?fs) lev ?hl (reader_slots s) (Some i)" if "?lev \<subseteq> lev" for lev
        by (rule windows_mono) (use that in auto)
      then have "windows_ok (map (untag ?ev) ?fs) (?lev - {?ev}) ?hl (reader_slots s) (Some i)"
        "windows_ok (map (untag ?ev) ?fs) (insert ?ev ?lev) ?hl (reader_slots s) (Some i)"
        using ev(2) by auto
      then show ?thesis
        using i vi(3) safe(3) created False
        by (simp add: hostbuf_file_reader_retire_active_def Let_def staged_def reader_ok_def cong: if_cong)
    qed
  qed
qed

lemma wp_drain_slot:
  fixes s :: "'z fstate_scheme"
  assumes "vinv E s" "waitable E s" "j < 3"
  shows "wp (drain_slot E j s) (\<lambda>ok t. vinv E t \<and> waitable E t \<and> safe_since E (hist s) (hist t) \<and> reader_active t = reader_active s \<and>
    (\<forall>i. rs_buffer (reader_slots t i) = rs_buffer (reader_slots s i)) \<and>
    (ok \<longrightarrow> rs_event (reader_slots t j) = 0))"
proof (cases "rs_buffer (reader_slots s j) \<noteq> 0 \<and> rs_event (reader_slots s j) \<noteq> 0")
  case False
  moreover have "window_ok (inflight E (hist s)) (host_live E (hist s)) (reader_slots s j)"
    using assms(2,3) by (simp add: waitable_def windows_ok_def)
  ultimately show ?thesis using assms by (auto simp: drain_slot_def window_ok_def)
next
  case True
  let ?ev = "rs_event (reader_slots s j)"
  let ?h = "EventSynchronize ?ev # hist s"
  let ?fs = "filter (\<lambda>f. ?ev \<notin> set (fl_events f)) (inflight E (hist s))"
  have vi: "vinv E (s\<lparr>hist := ?h\<rparr>)" "vinv E (s\<lparr>hist := EventDestroy ?ev # ?h\<rparr>)"
    using vinv_calls [OF assms(1), of "[EventSynchronize ?ev]"] vinv_calls [OF assms(1), of "[EventDestroy ?ev, EventSynchronize ?ev]"] by simp_all
  have safe: "safe_since E (hist s) ?h" "safe_since E (hist s) (EventDestroy ?ev # ?h)"
    by (simp_all add: safe_since_Cons safe_call_def)
  have ok: "windows_ok (inflight E (hist s)) (live_events E (hist s)) (host_live E (hist s)) (reader_slots s) None"
    using assms(2) by (simp add: waitable_def)
  note synced = windows_synced [OF ok assms(3) refl, of]
  show ?thesis
  proof (cases "r_rc (drv E (hist s) (EventSynchronize ?ev)) = 0")
    case False
    then show ?thesis using True vi(1) safe(1) ok by (simp add: drain_slot_def Let_def waitable_def)
  next
    case sync: True
    have idle: "windows_ok ?fs (live_events E (hist s)) (host_live E (hist s)) (reader_slots s) None" "idle ?fs (rs_buffer (reader_slots s j))"
      using synced True by simp_all
    note settle = windows_settle [OF idle(1) assms(3) idle(2) refl]
    show ?thesis
      using True sync vi(2) safe(2) settle by (auto simp: drain_slot_def Let_def waitable_def)
  qed
qed

lemma wp_next:
  fixes s :: "'z fstate_scheme"
  assumes "reader_driver E" "vinv E s" "waitable E s" "reader_ok E s"
  shows "wp (hostbuf_file_reader_next E stream s) (\<lambda>r t. staged E s t \<and> (\<forall>i. r = Some i \<longrightarrow> reader_active t = Some i \<and>
    rs_event (reader_slots t i) = 0 \<and> rs_stream (reader_slots t i) = stream \<and> rs_offset (reader_slots t i) = 0))"
proof -
  obtain j where j: "(case reader_active s of None \<Rightarrow> 0 | Some a \<Rightarrow> (a + 1) mod HOSTBUF_FILE_READER_SLOTS) = j" "j < 3"
    by (cases "reader_active s") auto
  show ?thesis
    unfolding hostbuf_file_reader_next_def Let_def j(1)
  proof (rule wp_step [OF wp_drain_slot [OF assms(2,3) j(2)]], rule wp_branch, goal_cases)
    case (1 ok t)
    then have "reader_ok E t" using active_ok [OF assms(4)] by (intro waitable_reader_ok) auto
    then show ?case using 1 by (simp add: staged_def)
  next
    case (2 ok t)
    let ?x = "reader_slots t j" and ?c = "MemAllocHost HOSTBUF_FILE_READER_WINDOW"
    let ?fs = "inflight E (hist t)" and ?lev = "live_events E (hist t)" and ?hl = "host_live E (hist t)"
    from 2 have t: "vinv E t" "safe_since E (hist s) (hist t)" "rs_event ?x = 0" by auto
    from 2 have "waitable E t" by simp
    then have ok: "windows_ok ?fs ?lev ?hl (reader_slots t) None" by (simp add: waitable_def)
    then have w: "window_ok ?fs ?hl (reader_slots t i)" if "i < 3" for i using that by (simp add: windows_ok_def)
    show ?case
    proof (cases "rs_buffer ?x = 0")
      case False
      have "windows_ok ?fs ?lev ?hl ((reader_slots t)(j := ?x\<lparr>rs_offset := 0, rs_stream := stream\<rparr>)) (Some j)"
        by (rule windows_activate [OF ok j(2) _ False]) (use ok j(2) w [OF j(2)] False t(3) in \<open>auto simp: windows_ok_def apart_def window_ok_def\<close>)
      then show ?thesis using 2(2) t False by (simp add: staged_def reader_ok_def)
    next
      case empty: True
      have vi: "vinv E (t\<lparr>hist := ?c # hist t\<rparr>)" and safe: "safe_since E (hist s) (?c # hist t)"
        using vinv_call [OF t(1)] t(2) by (simp_all add: safe_since_Cons safe_call_def)
      show ?thesis
      proof (cases "r_rc (drv E (hist t) ?c) = 0")
        case False
        have "waitable E (t\<lparr>hist := ?c # hist t\<rparr>)" using ok False by (simp add: waitable_def)
        then have "reader_ok E (t\<lparr>hist := ?c # hist t\<rparr>)"
          using 2 active_ok [OF assms(4)] by (intro waitable_reader_ok) auto
        then show ?thesis using 2(2) empty False vi safe by (simp add: staged_def)
      next
        case True
        let ?b = "r_val (drv E (hist t) ?c)"
        have b: "?b \<noteq> 0" "unat ?b + window_bytes \<le> 2 ^ 64" "idle ?fs ?b"
          "\<forall>(c, m) \<in> ?hl. unat ?b + window_bytes \<le> unat c \<or> unat c + unat m \<le> unat ?b"
          using new_host_memory [OF assms(1) True] by (auto simp: idle_def)
        have far: "unat ?b + window_bytes \<le> unat c \<or> unat c + window_bytes \<le> unat ?b" if "(c, HOSTBUF_FILE_READER_WINDOW) \<in> ?hl" for c
          using b(4) that by auto
        have "windows_ok ?fs ?lev (insert (?b, HOSTBUF_FILE_READER_WINDOW) ?hl)
            ((reader_slots t)(j := ?x\<lparr>rs_buffer := ?b, rs_offset := 0, rs_stream := stream\<rparr>)) (Some j)"
          by (rule windows_activate [OF ok j(2) b(3,1)]) (use b(1,2) far w t(3) in \<open>auto simp: window_ok_def\<close>)
        then show ?thesis using 2(2) t(3) empty True vi safe by (simp add: staged_def reader_ok_def)
      qed
    qed
  qed
qed

lemma wp_active_window:
  fixes s :: "'z fstate_scheme"
  assumes "reader_driver E" "vinv E s" "reader_ok E s" "n \<noteq> 0" "unat n < 2 ^ 63"
  shows "wp (active_window E stream n s) (\<lambda>r t. staged E s t \<and> (\<forall>i. r = Some i \<longrightarrow> reader_active t = Some i \<and>
    rs_event (reader_slots t i) = 0 \<and> rs_stream (reader_slots t i) = stream \<and>
    (unat (rs_offset (reader_slots t i)) < 50331648 \<or> unat (rs_offset (reader_slots t i)) + unat n < window_bytes)))"
proof -
  have change: "wp (do { (ok, s) \<leftarrow> hostbuf_file_reader_retire_active E s;
        if \<not> ok then Some (None, s) else hostbuf_file_reader_next E stream s })
      (\<lambda>r t. staged E s t \<and> (\<forall>i. r = Some i \<longrightarrow> reader_active t = Some i \<and>
        rs_event (reader_slots t i) = 0 \<and> rs_stream (reader_slots t i) = stream \<and> rs_offset (reader_slots t i) = 0))"
  proof (rule wp_step [OF wp_retire_active [OF assms(1-3)]], rule wp_branch, goal_cases)
    case (2 ok t)
    then have t: "vinv E t" "reader_ok E t" "waitable E t" "staged E s t" by (auto simp: staged_def)
    show ?case
      by (rule wp_conseq [OF wp_next [OF assms(1) t(1,3,2)]]) (auto intro: staged_trans [OF t(4)])
  qed simp
  have serves: "unat (rs_offset x) < 50331648 \<or> unat (rs_offset x) + unat n < window_bytes"
    if "slot_serves stream n x" "unat (rs_offset x) \<le> window_bytes" for x
  proof -
    have "unat (rs_offset x + n) = unat (rs_offset x) + unat n"
      using that(2) assms(5) by (subst unat_add_lem [THEN iffD1]) simp_all
    then show ?thesis using that(1) by (auto simp: slot_serves_def word_le_nat_alt)
  qed
  show ?thesis
  proof (cases "\<exists>i. reader_active s = Some i \<and> slot_serves stream n (reader_slots s i)")
    case True
    then obtain i where i: "reader_active s = Some i" "slot_serves stream n (reader_slots s i)" by blast
    then have "unat (rs_offset (reader_slots s i)) \<le> window_bytes"
      using assms(3) by (auto simp: reader_ok_def windows_ok_def window_ok_def)
    then show ?thesis
      using serves [OF i(2)] i assms(2,3) by (simp add: active_window_def staged_refl) (simp add: slot_serves_def)
  next
    case False
    have eq: "active_window E stream n s = (do { (ok, s) \<leftarrow> hostbuf_file_reader_retire_active E s;
        if \<not> ok then Some (None, s) else hostbuf_file_reader_next E stream s })"
      using False by (simp add: active_window_def split: option.split)
    show ?thesis unfolding eq by (rule wp_conseq [OF change]) auto
  qed
qed

subsection \<open>Transfers\<close>

lemma wp_reader_chunk:
  fixes s :: "'z fstate_scheme"
  assumes "io_live E" "vinv E s" "reader_ok E s" "reader_active s = Some i" "rs_event (reader_slots s i) = 0"
    "rs_stream (reader_slots s i) = stream" "unat (rs_buffer (reader_slots s i)) \<le> unat b"
    "unat b + unat n \<le> unat (rs_buffer (reader_slots s i)) + unat (rs_offset (reader_slots s i))"
    "\<forall>f \<in> set (inflight E (hist s)). \<not> touches f b (unat n)"
  shows "wp (reader_chunk E wr cold fd at b n stream d s) (\<lambda>_ t. staged E s t)"
proof -
  have w: "unat (rs_buffer (reader_slots s i)) + window_bytes \<le> 2 ^ 64" "unat (rs_offset (reader_slots s i)) \<le> window_bytes"
    using assms(3,4) by (auto simp: reader_ok_def windows_ok_def window_ok_def)
  have n: "unat n < 2 ^ 63" "unat b + unat n \<le> 2 ^ 64" using w assms(7,8) by simp_all
  have start: "staged E s s" using assms(2,3) by (rule staged_refl)
  have read: "wp (if wr then Some (True, s) else xfer_file_read E fd at b n cold s) (\<lambda>_ t. stays E s t)"
    unfolding xfer_file_read_def using wp_file_stays [OF assms(1) n assms(9)] by simp
  have copied: "staged E s (u\<lparr>hist := c # hist u\<rparr>)"
    if u: "stays E s u" and c: "c = (if wr then MemcpyDtoH b d n stream else MemcpyHtoD d b n stream)" for u c
  proof -
    have "windows_ok (inflight E (hist u)) (live_events E (hist u)) (host_live E (hist u)) (reader_slots s) (Some i)"
      using staged_stays [OF start u] u assms(4) by (simp add: staged_def reader_ok_def stays_def)
    from windows_copy [OF this assms(5), of "\<lparr>fl_at = b, fl_bytes = n, fl_stream = stream, fl_events = []\<rparr>"]
    have "reader_ok E (u\<lparr>hist := c # hist u\<rparr>)" using assms(4,6-8) u c by (simp add: reader_ok_def stays_def)
    moreover have "safe_since E (hist s) (c # hist u)"
      using u c by (auto simp: stays_def windows_alone_def safe_call_def intro!: safe_since_Cons)
    ultimately show ?thesis using vinv_call [of E u c] u assms(2) c by (simp add: staged_def stays_def)
  qed
  have flushed: "wp (xfer_file_write E fd at b n v) (\<lambda>_ t. staged E s t)"
    if v: "v = u\<lparr>hist := CtxSynchronize # hist u\<rparr>" "staged E s u" "r_rc (drv E (hist u) CtxSynchronize) = 0" for u v :: "'z fstate_scheme"
  proof -
    have "stays E u v"
      using v by (simp add: stays_def vinv_call windows_alone_no_staging)
    then have "staged E s v" by (rule staged_stays [OF v(2)])
    moreover have "inflight E (hist v) = []" using v by simp
    ultimately show ?thesis
      unfolding xfer_file_write_def by (intro wp_conseq [OF wp_file_stays [OF assms(1) n]]) (auto intro: staged_stays)
  qed
  have sync: "staged E s (u\<lparr>hist := CtxSynchronize # hist u\<rparr>)" if "staged E s u" for u
    by (rule staged_stays [OF that]) (simp add: stays_def vinv_call windows_alone_no_staging)
  show ?thesis
    unfolding reader_chunk_def
  proof (rule wp_step [OF read], rule wp_branch, goal_cases)
    case (1 ok t)
    then show ?case using staged_stays [OF start] by simp
  next
    case (2 ok t)
    then have t: "vinv E t" using assms(2) by (simp add: stays_def)
    show ?case
    proof (rule wp_step [OF wp_pressure_stays [OF t]], goal_cases)
      case (1 x u)
      then have u: "stays E s u" using 2(1) stays_trans by blast
      show ?case
        using copied [OF u refl] flushed [OF refl copied [OF u refl]] sync [OF copied [OF u refl]] by (cases wr) simp_all
    qed
  qed
qed

lemma wp_reader_step:
  fixes s :: "'z fstate_scheme"
  assumes "reader_driver E" "io_live E" "vinv E s" "reader_ok E s" "unat n < 2 ^ 63"
  shows "wp (reader_step E wr cold fd stream (at, n, d) s) (\<lambda>r t. staged E s t \<and>
    (\<forall>at' n' d'. r = Inl (at', n', d') \<longrightarrow> n \<noteq> 0 \<and> (n' = 0 \<or> unat n' + 16777216 \<le> unat n)))"
proof (cases "n = 0")
  case True
  then show ?thesis using assms(3,4) by (simp add: reader_step_def staged_refl)
next
  case False
  show ?thesis
    unfolding reader_step_def
  proof (simp only: prod.case False if_False, rule wp_step [OF wp_active_window [OF assms(1,3,4) False assms(5)]], rule wp_opt, goal_cases)
    case (1 r t)
    then show ?case by simp
  next
    case (2 r t i)
    let ?x = "reader_slots t i"
    let ?n = "min n (HOSTBUF_FILE_READER_WINDOW - rs_offset ?x)"
    let ?t = "upd_slot i (\<lambda>slot. slot\<lparr>rs_offset := rs_offset ?x + ?n\<rparr>) t"
    from 2 have t: "staged E s t" "reader_active t = Some i" "rs_event ?x = 0" "rs_stream ?x = stream"
      "unat (rs_offset ?x) < 50331648 \<or> unat (rs_offset ?x) + unat n < window_bytes" by auto
    from t(1) have vt: "vinv E t" and ok: "windows_ok (inflight E (hist t)) (live_events E (hist t)) (host_live E (hist t)) (reader_slots t) (Some i)"
      using t(2) by (simp_all add: staged_def reader_ok_def)
    then have w: "window_ok (inflight E (hist t)) (host_live E (hist t)) ?x" "rs_buffer ?x \<noteq> 0" by (simp_all add: windows_ok_def)
    then have b: "unat (rs_buffer ?x) + window_bytes \<le> 2 ^ 64" "unat (rs_offset ?x) \<le> window_bytes" by (simp_all add: window_ok_def)
    then have "rs_offset ?x \<le> HOSTBUF_FILE_READER_WINDOW" by (simp add: word_le_nat_alt)
    from unat_sub [OF this] have left: "unat (HOSTBUF_FILE_READER_WINDOW - rs_offset ?x) = window_bytes - unat (rs_offset ?x)" by simp
    then have n: "unat ?n = min (unat n) (window_bytes - unat (rs_offset ?x))" by (simp add: min_def word_le_nat_alt)
    then have k: "unat (rs_offset ?x + ?n) = unat (rs_offset ?x) + unat ?n"
      using b(2) by (subst unat_add_lem [THEN iffD1]) simp_all
    have a: "unat (rs_buffer ?x + rs_offset ?x) = unat (rs_buffer ?x) + unat (rs_offset ?x)" if "unat (rs_offset ?x) < window_bytes"
      using b(1) that by (subst unat_add_lem [THEN iffD1]) simp_all
    have lt: "unat (rs_offset ?x) < window_bytes" using t(5) by auto
    have chunk: "wp (reader_chunk E wr cold fd at (rs_buffer ?x + rs_offset ?x) ?n stream d ?t) (\<lambda>_ u. staged E ?t u)"
    proof (rule wp_reader_chunk [OF assms(2), of _ i], goal_cases)
      case 2
      show ?case using windows_fill [OF ok, of "rs_offset ?x + ?n"] t(2) k n b(2) by (simp add: reader_ok_def)
    next
      case 8
      show ?case using window_above [OF w] a [OF lt] n b(2) by simp
    qed (use vt t(2-4) a [OF lt] k in simp_all)
    have "?n \<le> n" by simp
    from unat_sub [OF this] have "unat (n - ?n) = unat n - unat ?n" .
    then have rest: "n - ?n = 0 \<or> unat (n - ?n) + 16777216 \<le> unat n"
      using n t(5) by (auto simp: unat_eq_0 [symmetric] min_def)
    have "staged E s u" if "staged E ?t u" for u using staged_trans [OF t(1)] that by (simp add: staged_def)
    then show ?case
      unfolding Let_def by (intro wp_step [OF chunk] wp_done conjI allI impI) (use rest False in \<open>auto split: if_splits\<close>)
  qed
qed

lemma wp_file_transfer:
  fixes s :: "'z fstate_scheme"
  assumes "reader_driver E" "io_live E" "vinv E s" "reader_ok E s" "unat n < 2 ^ 63"
  shows "wp (hostbuf_file_transfer E dev fd at n stream d cold wr s) (\<lambda>_ t. staged E s t)"
proof -
  let ?m = "\<lambda>(at, n, d) s. if n = 0 then 0 else Suc (unat (n :: u64) div 16777216)"
  have "wp (loop (reader_fuel n) (reader_step E wr cold fd stream) (at, n, d) s) (\<lambda>_ t. staged E s t)"
  proof (rule wp_loop [where I = "\<lambda>(at, n, d) t. staged E s t \<and> unat n < 2 ^ 63" and m = ?m], goal_cases)
    case (3 a t)
    obtain at k d where a: "a = (at, k, d)" by (cases a)
    from 3 have t: "staged E s t" "vinv E t" "reader_ok E t" "unat k < 2 ^ 63" by (simp_all add: a staged_def)
    have less: "?m (at', n', d') u < ?m (at, k, d) t" "unat n' < 2 ^ 63" if "k \<noteq> 0 \<and> (n' = 0 \<or> unat n' + 16777216 \<le> unat k)" for at' n' d' u
    proof -
      show "unat n' < 2 ^ 63" using that t(4) by auto
      show "?m (at', n', d') u < ?m (at, k, d) t"
      proof (cases "n' = 0")
        case False
        then have "(unat n' + 16777216) div 16777216 \<le> unat k div 16777216" using that by (intro div_le_mono) simp
        then show ?thesis using that False by simp
      qed (use that in simp)
    qed
    show ?case
      unfolding a
      by (rule wp_conseq [OF wp_reader_step [OF assms(1,2) t(2-4)]])
        (use less staged_trans [OF t(1)] in \<open>fastforce split: sum.split\<close>)
  qed (use assms(3-5) in \<open>simp_all add: staged_refl reader_fuel_def\<close>)
  then show ?thesis using assms(3,4) by (simp add: hostbuf_file_transfer_def staged_refl)
qed

subsection \<open>Cleanup\<close>

definition clearing :: "env \<Rightarrow> 'z fstate_scheme \<Rightarrow> 'z fstate_scheme \<Rightarrow> bool" where
  "clearing E s t \<longleftrightarrow> vinv E t \<and> waitable E t \<and> safe_since E (hist s) (hist t) \<and>
     (\<forall>i. reader_active t = Some i \<longrightarrow> i < 3 \<and> rs_buffer (reader_slots t i) \<noteq> 0)"

lemma clearing_staged: "clearing E s t \<Longrightarrow> staged E s t"
  by (auto simp: clearing_def staged_def intro: waitable_reader_ok)

lemma wp_cleanup_slot:
  fixes s :: "'z fstate_scheme"
  assumes "reader_driver E" "clearing E s t" "j < 3"
  shows "wp (cleanup_slot E j complete t) (\<lambda>r u. clearing E s u \<and> (\<exists>b. r = Inl b))"
proof -
  from assms(2) have t: "vinv E t" "waitable E t" by (simp_all add: clearing_def)
  show ?thesis
    unfolding cleanup_slot_def Let_def
  proof (rule wp_step [OF wp_drain_slot [OF t assms(3)]], goal_cases)
    case (1 ok u)
    let ?b = "rs_buffer (reader_slots u j)"
    let ?fs = "inflight E (hist u)" and ?lev = "live_events E (hist u)" and ?hl = "host_live E (hist u)"
    from 1 have u: "vinv E u" "waitable E u" "clearing E s u" "ok \<longrightarrow> rs_event (reader_slots u j) = 0"
      using assms(2) by (auto simp: clearing_def intro: safe_since_trans)
    then have ok: "windows_ok ?fs ?lev ?hl (reader_slots u) None" by (simp add: waitable_def)
    then have w: "window_ok ?fs ?hl (reader_slots u j)" using assms(3) by (simp add: windows_ok_def)
    have act: "i \<noteq> j \<longrightarrow> i < 3 \<and> rs_buffer (reader_slots u i) \<noteq> 0" if "reader_active u = Some i" for i
      using u(3) that by (simp add: clearing_def)
    have freed: "clearing E s (if reader_active v = Some j then v\<lparr>reader_active := None\<rparr> else v)"
      if v: "v = upd_slot j (\<lambda>_. empty_slot) (u\<lparr>hist := cs @ hist u\<rparr>)" "list_all harmless cs" "safe_since E (hist s) (cs @ hist u)"
        "windows_ok (inflight E (cs @ hist u)) (live_events E (cs @ hist u)) (host_live E (cs @ hist u)) ((reader_slots u)(j := empty_slot)) None"
      for v cs
      using v vinv_calls [OF u(1) v(2)] act by (auto simp: clearing_def waitable_def)
    show ?case
    proof (cases "ok \<and> ?b \<noteq> 0")
      case False
      then show ?thesis
        using u freed [OF refl, of "[]"] windows_drop [OF ok assms(3)] ok by (auto simp: clearing_def)
    next
      case True
      let ?c = "MemFreeHost ?b"
      have idle: "idle ?fs ?b" using ok u(4) True assms(3) by (auto simp: windows_ok_def)
      have in_hl: "(?b, HOSTBUF_FILE_READER_WINDOW) \<in> ?hl" using w True by (simp add: window_ok_def)
      have "\<not> touches f ?b (unat n)" if "(?b, n) \<in> ?hl" "f \<in> set ?fs" for n f
      proof (cases "n = 0")
        case True
        then show ?thesis using idle that(2) by (fastforce simp: idle_def touches_def)
      next
        case False
        then have "n = HOSTBUF_FILE_READER_WINDOW" using host_live_unique [OF assms(1) that(1) in_hl] by auto
        then show ?thesis using idle that(2) by (simp add: idle_def)
      qed
      then have safe: "safe_since E (hist s) (?c # hist u)"
        using u(3) by (auto simp: clearing_def safe_call_def intro!: safe_since_Cons)
      show ?thesis
      proof (cases "r_rc (drv E (hist u) ?c) = 0")
        case rc: True
        have "windows_ok (inflight E (?c # hist u)) (live_events E (?c # hist u)) (host_live E (?c # hist u)) ((reader_slots u)(j := empty_slot)) None"
          using windows_free [OF ok assms(3)] u(4) True rc by simp
        then show ?thesis using freed [OF refl, of "[?c]"] safe True rc by (auto split: if_splits)
      next
        case False
        then show ?thesis
          using True u safe vinv_call [OF u(1)] by (auto simp: clearing_def waitable_def)
      qed
    qed
  qed
qed

lemma wp_cleanup:
  fixes s :: "'z fstate_scheme"
  assumes "reader_driver E" "vinv E s" "reader_ok E s"
  shows "wp (hostbuf_file_reader_cleanup_checked E s) (\<lambda>_ t. staged E s t)"
  unfolding hostbuf_file_reader_cleanup_checked_def
proof (rule wp_step [OF wp_retire_active [OF assms]], rule wp_branch, goal_cases)
  case (2 ok t)
  then have t: "clearing E s t" using active_ok [of E t] by (auto simp: clearing_def staged_def)
  have "wp (foreach (cleanup_slot E) [0..<HOSTBUF_FILE_READER_SLOTS] True t) (\<lambda>_ u. staged E s u)"
  proof (rule wp_foreach [where I = "\<lambda>xs _ u. clearing E s u \<and> set xs \<subseteq> {..<3}"], goal_cases)
    case (2 x xs a u)
    then show ?case by (intro wp_conseq [OF wp_cleanup_slot [OF assms(1), of s u x a]]) auto
  qed (use t in \<open>auto intro: clearing_staged\<close>)
  then show ?case by simp
qed simp

end
