(* ===== verification/DemoReader.thy ===== *)
theory DemoReader
  imports DemoHost ReaderSafe
begin

text \<open>
  A concrete file reader for the witnesses: no window yet, and a device with fresh events, that hands out
  memory in steps of 4 GiB where nothing is in flight.
\<close>

definition ready_env :: env where
  "ready_env = io_env True"

definition window_drv :: "call list \<Rightarrow> call \<Rightarrow> resp" where
  "window_drv h c = (case c of
     EventCreate \<Rightarrow> if length h < 1048576 then Resp 0 (of_nat (length h + 1)) 0 [] else Resp 2 0 0 []
   | MemAllocHost n \<Rightarrow>
       if length h < 1048576 \<and> unat n \<le> 1073741824 \<and>
          list_all (\<lambda>f. \<not> touches f (of_nat ((length h + 1) * 4294967296)) (unat n)) (inflight ready_env h)
       then Resp 0 (of_nat ((length h + 1) * 4294967296)) 0 [] else Resp 2 0 0 []
   | _ \<Rightarrow> drv ready_env h c)"

definition window_env :: env where
  "window_env = ready_env\<lparr>drv := window_drv\<rparr>"

definition demo_fstate :: fstate where
  "demo_fstate = hstate.extend demo_hstate (fstate.fields (\<lambda>_. empty_slot) None)"

lemma window_env_inflight: "inflight window_env h = inflight ready_env h"
proof -
  have tag: "tag window_env = tag ready_env"
    by (intro ext) (simp add: tag_def behind_def window_env_def)
  show ?thesis
  proof (induction h)
    case (Cons c h)
    then show ?case by (cases c; simp add: tag; simp add: window_env_def window_drv_def)
  qed simp
qed

lemma window_address: "k < 1048576 \<Longrightarrow> unat (of_nat ((k + 1) * 4294967296) :: u64) = (k + 1) * 4294967296"
  by (simp add: unat_of_nat del: of_nat_mult of_nat_add of_nat_Suc)

lemma window_env_alloc:
  assumes "r_rc (drv window_env h (MemAllocHost n)) = 0"
  shows "length h < 1048576" "unat n \<le> 1073741824" "r_val (drv window_env h (MemAllocHost n)) = of_nat ((length h + 1) * 4294967296)"
    "f \<in> set (inflight ready_env h) \<Longrightarrow> \<not> touches f (of_nat ((length h + 1) * 4294967296)) (unat n)"
  using assms by (auto simp: window_env_def window_drv_def list_all_iff split: if_splits)

lemma window_env_host: "(b, m) \<in> host_live window_env h \<Longrightarrow> unat b + unat m \<le> length h * 4294967296 + 1073741824"
proof (induction h)
  case (Cons c h)
  show ?case
  proof (cases "\<exists>n. c = MemAllocHost n \<and> r_rc (drv window_env h (MemAllocHost n)) = 0")
    case True
    then obtain n where n: "c = MemAllocHost n" "r_rc (drv window_env h (MemAllocHost n)) = 0" by blast
    note a = window_env_alloc [OF n(2)]
    have "(b, m) = (of_nat ((length h + 1) * 4294967296), n) \<or> (b, m) \<in> host_live window_env h"
      using Cons.prems n a(3) by simp
    then show ?thesis using Cons.IH a(2) window_address [OF a(1)] by auto
  next
    case False
    then have "(b, m) \<in> host_live window_env h" using Cons.prems by (cases c) (auto split: if_splits)
    then show ?thesis using Cons.IH by simp
  qed
qed simp

lemma window_env_event:
  assumes "r_rc (drv window_env h EventCreate) = 0"
  shows "length h < 1048576" "r_val (drv window_env h EventCreate) = of_nat (length h + 1)"
  using assms by (auto simp: window_env_def window_drv_def split: if_splits)

lemma event_number: "k < 1048576 \<Longrightarrow> unat (of_nat (k + 1) :: u64) = k + 1"
  by (simp add: unat_of_nat del: of_nat_add of_nat_Suc)

lemma window_env_events: "x \<in> live_events window_env h \<Longrightarrow> unat x \<le> length h"
proof (induction h)
  case (Cons c h)
  show ?case
  proof (cases "c = EventCreate \<and> r_rc (drv window_env h EventCreate) = 0")
    case True
    note e = window_env_event [of h]
    have "x = of_nat (length h + 1) \<or> x \<in> live_events window_env h" using Cons.prems True e(2) by simp
    then show ?thesis using Cons.IH e(1) True event_number [of "length h"] by auto
  next
    case False
    then have "x \<in> live_events window_env h" using Cons.prems by (cases c) (auto split: if_splits)
    then show ?thesis using Cons.IH by simp
  qed
qed simp

lemma window_env_driver [simp]: "reader_driver window_env"
  unfolding reader_driver_def Let_def
proof (intro conjI allI impI, goal_cases)
  case (1 h)
  show ?case using window_env_event [OF 1] event_number [of "length h"] by (auto simp: unat_eq_0 [symmetric])
next
  case (2 h)
  show ?case using window_env_events [of _ h] window_env_event [OF 2] event_number [of "length h"] by force
next
  case (3 h n)
  note a = window_env_alloc [OF 3]
  show ?case using a(3) window_address [OF a(1)] by (auto simp: unat_eq_0 [symmetric])
next
  case (4 h n)
  note a = window_env_alloc [OF 4]
  show ?case using a(1,2) unfolding a(3) window_address [OF a(1)] by simp
next
  case (5 h n)
  note a = window_env_alloc [OF 5]
  show ?case unfolding a(3) window_address [OF a(1)] using window_env_host [of _ _ h] by fastforce
next
  case (6 h n)
  show ?case using window_env_alloc(3,4) [OF 6] by (simp add: window_env_inflight)
qed

lemma window_env_live [simp]: "io_live window_env"
  using io_env_live [of True] by (simp add: io_live_def io_bounded_def uninterrupted_def window_env_def window_drv_def ready_env_def)

lemma demo_fstate_sel [simp]:
  "hist demo_fstate = [MemCreate 2097152 0]" "vheap demo_fstate = vheap demo_astate" "vorder demo_fstate = vorder demo_astate"
  "vnext demo_fstate = vnext demo_astate" "reader_slots demo_fstate = (\<lambda>_. empty_slot)" "reader_active demo_fstate = None"
  "vbar_identity_counter demo_fstate = vbar_identity_counter demo_astate" "total_vram_usage demo_fstate = total_vram_usage demo_astate"
  by (simp_all add: demo_fstate_def demo_hstate_def demo_astate_def demo_state_def demo_ctx_def fstate.defs hstate.defs astate.defs
      rstate.defs mstate.defs vstate.defs gstate.defs ctx.defs)

lemma demo_fstate_ok [simp]: "vinv E demo_fstate" "reader_ok E demo_fstate"
  using demo_astate_vinv [of E]
  by (simp_all add: vinv_def reader_ok_def windows_ok_def window_ok_def apart_def empty_slot_def)

end
