(* ===== verification/Vmm.thy ===== *)
theory Vmm
  imports Prelude
begin

unbundle bit_operations_syntax

text \<open>
  The owner of the device's virtual memory on XPU (\<open>src-xpu/vmm-manager.h\<close>): reserved ranges, physical
  allocations and the mappings between them, each with the context and device that asked for it. The
  driver is the class's own parameter \<open>VmmApi\<close>: here a function \<open>D\<close> from the calls made so far and a call
  to its answer. A method holds the mutex from its first look at the lists to its end, so a method is one
  step of the state.
\<close>

subsection \<open>Data\<close>

datatype ze_result =
    ZE_RESULT_SUCCESS
  | ZE_RESULT_ERROR_INVALID_ARGUMENT
  | ZE_RESULT_ERROR_INVALID_SIZE
  | ZE_RESULT_ERROR_OUT_OF_HOST_MEMORY
  | ZE_RESULT_ERROR_HANDLE_OBJECT_IN_USE
  | ZeResult int                \<comment> \<open>any other answer of the driver\<close>

datatype ze_call =
    ZePageSize u64 u64 u64      \<comment> \<open>context, device, bytes; answers the page size\<close>
  | ZeReserve u64 u64           \<comment> \<open>context, bytes; answers the address\<close>
  | ZeFree u64 u64 u64          \<comment> \<open>context, address, bytes\<close>
  | ZeCreate u64 u64 u64        \<comment> \<open>context, device, bytes; answers the handle\<close>
  | ZeDestroy u64 u64           \<comment> \<open>context, handle\<close>
  | ZeMap u64 u64 u64 u64 u64   \<comment> \<open>context, address, bytes, handle, offset\<close>
  | ZeUnmap u64 u64 u64
  | ZeAccess u64 u64 u64
  | ListNode                    \<comment> \<open>memory for a list node: not \<open>std::bad_alloc\<close>\<close>

type_synonym ze_api = "ze_call list \<Rightarrow> ze_call \<Rightarrow> ze_result \<times> u64"

record vmm_owner =
  vo_id :: int
  vo_context :: u64
  vo_device :: u64

record vmm_reservation =
  rsv_owner :: vmm_owner
  rsv_address :: u64
  rsv_bytes :: u64
  rsv_outer :: u64
  rsv_outer_bytes :: u64
  rsv_page :: u64

record vmm_physical =
  phy_owner :: vmm_owner
  phy_handle :: u64
  phy_bytes :: u64
  phy_page :: u64

record vmm_mapping =
  mpg_owner :: vmm_owner
  mpg_address :: u64
  mpg_bytes :: u64
  mpg_handle :: u64
  mpg_offset :: u64
  mpg_cleanup_address :: u64
  mpg_cleanup_bytes :: u64

record vmm =
  ze_hist :: "ze_call list"
  reservations :: "vmm_reservation list"
  physical :: "vmm_physical list"
  mappings_of :: "vmm_mapping list"

definition ze_ask :: "ze_api \<Rightarrow> ze_call \<Rightarrow> vmm \<Rightarrow> (ze_result \<times> u64) \<times> vmm" where
  "ze_ask D c s = (D (ze_hist s) c, s\<lparr>ze_hist := c # ze_hist s\<rparr>)"

subsection \<open>Ranges\<close>

definition power_of_two :: "u64 \<Rightarrow> bool" where
  "power_of_two n \<longleftrightarrow> n \<noteq> 0 \<and> n AND (n - 1) = 0"

definition valid_range :: "u64 \<Rightarrow> u64 \<Rightarrow> bool" where
  "valid_range p n \<longleftrightarrow> n \<noteq> 0 \<and> n \<le> - 1 - p"

definition range_contains :: "u64 \<Rightarrow> u64 \<Rightarrow> u64 \<Rightarrow> u64 \<Rightarrow> bool" where
  "range_contains p n q m \<longleftrightarrow> valid_range p n \<and> valid_range q m \<and> q \<ge> p \<and> m \<le> n \<and> q - p \<le> n - m"

definition range_overlaps :: "u64 \<Rightarrow> u64 \<Rightarrow> u64 \<Rightarrow> u64 \<Rightarrow> bool" where
  "range_overlaps p n q m \<longleftrightarrow> p < q + m \<and> q < p + n"

definition vmm_reservation_at :: "vmm_owner \<Rightarrow> u64 \<Rightarrow> u64 \<Rightarrow> vmm \<Rightarrow> vmm_reservation option" where
  "vmm_reservation_at owner address bytes s =
     find (\<lambda>r. rsv_owner r = owner \<and> range_contains (rsv_address r) (rsv_bytes r) address bytes) (reservations s)"

definition vmm_physical_of :: "vmm_owner \<Rightarrow> u64 \<Rightarrow> vmm \<Rightarrow> vmm_physical option" where
  "vmm_physical_of owner h s = find (\<lambda>p. phy_handle p = h \<and> phy_owner p = owner) (physical s)"

text \<open>The sum of the mapped parts is the range; \<open>None\<close> when a mapping sticks out or is being cleaned up.\<close>

fun covered_bytes :: "vmm_owner \<Rightarrow> u64 \<Rightarrow> u64 \<Rightarrow> vmm_mapping list \<Rightarrow> u64 option" where
  "covered_bytes owner address bytes [] = Some 0"
| "covered_bytes owner address bytes (m # ms) =
     (if mpg_owner m \<noteq> owner \<or> \<not> range_overlaps address bytes (mpg_address m) (mpg_bytes m) then covered_bytes owner address bytes ms
      else if \<not> range_contains address bytes (mpg_address m) (mpg_bytes m) \<or> mpg_cleanup_bytes m \<noteq> 0 then None
      else map_option (\<lambda>total. mpg_bytes m + total) (covered_bytes owner address bytes ms))"

definition vmm_covered :: "vmm_owner \<Rightarrow> u64 \<Rightarrow> u64 \<Rightarrow> vmm \<Rightarrow> bool" where
  "vmm_covered owner address bytes s \<longleftrightarrow> covered_bytes owner address bytes (mappings_of s) = Some bytes"

subsection \<open>Operations\<close>

text \<open>The second component is what is written to \<open>*out\<close>.\<close>

definition vmm_reserve :: "ze_api \<Rightarrow> vmm_owner \<Rightarrow> bool \<Rightarrow> u64 \<Rightarrow> u64 \<Rightarrow> u64 \<Rightarrow> u64 \<Rightarrow> vmm \<Rightarrow> (ze_result \<times> u64 option) \<times> vmm" where
  "vmm_reserve D owner out bytes alignment requested flags s =
     (if \<not> out \<or> bytes = 0 \<or> requested \<noteq> 0 \<or> flags \<noteq> 0 \<or> (alignment \<noteq> 0 \<and> \<not> power_of_two alignment)
      then ((ZE_RESULT_ERROR_INVALID_ARGUMENT, None), s)
      else let ((result, page), s) = ze_ask D (ZePageSize (vo_context owner) (vo_device owner) bytes) s in
        if result \<noteq> ZE_RESULT_SUCCESS then ((result, None), s)
        else if \<not> power_of_two page \<or> bytes mod page \<noteq> 0 then ((ZE_RESULT_ERROR_INVALID_SIZE, None), s)
        else let alignment = max alignment page; padding = alignment - page in
          if bytes > - 1 - padding then ((ZE_RESULT_ERROR_INVALID_SIZE, None), s)
          else let ((node, _), s) = ze_ask D ListNode s in
            if node \<noteq> ZE_RESULT_SUCCESS then ((ZE_RESULT_ERROR_OUT_OF_HOST_MEMORY, None), s)
            else let ((result, outer), s) = ze_ask D (ZeReserve (vo_context owner) (bytes + padding)) s in
              if result \<noteq> ZE_RESULT_SUCCESS then ((result, None), s)
              else let address = (outer + alignment - 1) AND NOT (alignment - 1) in
                ((ZE_RESULT_SUCCESS, Some address),
                 s\<lparr>reservations := reservations s @ [\<lparr>rsv_owner = owner, rsv_address = address, rsv_bytes = bytes,
                     rsv_outer = outer, rsv_outer_bytes = bytes + padding, rsv_page = page\<rparr>]\<rparr>))"

definition vmm_free :: "ze_api \<Rightarrow> vmm_owner \<Rightarrow> u64 \<Rightarrow> u64 \<Rightarrow> vmm \<Rightarrow> ze_result \<times> vmm" where
  "vmm_free D owner address bytes s = (case vmm_reservation_at owner address bytes s of
      None \<Rightarrow> (ZE_RESULT_ERROR_INVALID_ARGUMENT, s)
    | Some r \<Rightarrow>
        if rsv_address r \<noteq> address \<or> rsv_bytes r \<noteq> bytes then (ZE_RESULT_ERROR_INVALID_ARGUMENT, s)
        else if \<exists>m \<in> set (mappings_of s). vo_context (mpg_owner m) = vo_context owner \<and>
            range_overlaps address bytes (mpg_address m) (mpg_bytes m)
        then (ZE_RESULT_ERROR_HANDLE_OBJECT_IN_USE, s)
        else let ((result, _), s) = ze_ask D (ZeFree (vo_context owner) (rsv_outer r) (rsv_outer_bytes r)) s in
          (result, if result = ZE_RESULT_SUCCESS then s\<lparr>reservations := remove1 r (reservations s)\<rparr> else s))"

definition vmm_create :: "ze_api \<Rightarrow> vmm_owner \<Rightarrow> bool \<Rightarrow> u64 \<Rightarrow> vmm \<Rightarrow> (ze_result \<times> u64 option) \<times> vmm" where
  "vmm_create D owner out bytes s =
     (if \<not> out \<or> bytes = 0 then ((ZE_RESULT_ERROR_INVALID_ARGUMENT, None), s)
      else let ((result, page), s) = ze_ask D (ZePageSize (vo_context owner) (vo_device owner) bytes) s in
        if result \<noteq> ZE_RESULT_SUCCESS then ((result, None), s)
        else if \<not> power_of_two page \<or> bytes mod page \<noteq> 0 then ((ZE_RESULT_ERROR_INVALID_SIZE, None), s)
        else let ((node, _), s) = ze_ask D ListNode s in
          if node \<noteq> ZE_RESULT_SUCCESS then ((ZE_RESULT_ERROR_OUT_OF_HOST_MEMORY, None), s)
          else let ((result, h), s) = ze_ask D (ZeCreate (vo_context owner) (vo_device owner) bytes) s in
            if result \<noteq> ZE_RESULT_SUCCESS then ((result, None), s)
            else ((ZE_RESULT_SUCCESS, Some h),
              s\<lparr>physical := physical s @ [\<lparr>phy_owner = owner, phy_handle = h, phy_bytes = bytes, phy_page = page\<rparr>]\<rparr>))"

definition map_conflict :: "vmm_owner \<Rightarrow> u64 \<Rightarrow> u64 \<Rightarrow> vmm_mapping \<Rightarrow> bool" where
  "map_conflict owner address bytes m \<longleftrightarrow> vo_context (mpg_owner m) = vo_context owner \<and>
     (range_overlaps address bytes (mpg_address m) (mpg_bytes m) \<or>
      (mpg_cleanup_bytes m \<noteq> 0 \<and> range_overlaps address bytes (mpg_cleanup_address m) (mpg_cleanup_bytes m)))"

definition vmm_map :: "ze_api \<Rightarrow> vmm_owner \<Rightarrow> u64 \<Rightarrow> u64 \<Rightarrow> u64 \<Rightarrow> u64 \<Rightarrow> u64 \<Rightarrow> vmm \<Rightarrow> ze_result \<times> vmm" where
  "vmm_map D owner address bytes h offset flags s =
     (if flags \<noteq> 0 \<or> \<not> valid_range address bytes then (ZE_RESULT_ERROR_INVALID_ARGUMENT, s)
      else case (vmm_reservation_at owner address bytes s, vmm_physical_of owner h s) of
        (Some r, Some p) \<Rightarrow>
          if bytes > phy_bytes p \<or> offset > phy_bytes p - bytes \<or> address mod phy_page p \<noteq> 0 \<or> bytes mod phy_page p \<noteq> 0 \<or>
            offset mod phy_page p \<noteq> 0
          then (ZE_RESULT_ERROR_INVALID_ARGUMENT, s)
          else if \<exists>m \<in> set (mappings_of s). map_conflict owner address bytes m then (ZE_RESULT_ERROR_HANDLE_OBJECT_IN_USE, s)
          else let ((node, _), s) = ze_ask D ListNode s in
            if node \<noteq> ZE_RESULT_SUCCESS then (ZE_RESULT_ERROR_OUT_OF_HOST_MEMORY, s)
            else let ((result, _), s) = ze_ask D (ZeMap (vo_context owner) address bytes h offset) s in
              (result, if result = ZE_RESULT_SUCCESS then s\<lparr>mappings_of := mappings_of s @ [\<lparr>mpg_owner = owner, mpg_address = address,
                  mpg_bytes = bytes, mpg_handle = h, mpg_offset = offset, mpg_cleanup_address = 0, mpg_cleanup_bytes = 0\<rparr>]\<rparr> else s)
      | _ \<Rightarrow> (ZE_RESULT_ERROR_INVALID_ARGUMENT, s))"

definition vmm_access :: "ze_api \<Rightarrow> vmm_owner \<Rightarrow> u64 \<Rightarrow> u64 \<Rightarrow> vmm \<Rightarrow> ze_result \<times> vmm" where
  "vmm_access D owner address bytes s =
     (if \<not> valid_range address bytes then (ZE_RESULT_ERROR_INVALID_ARGUMENT, s)
      else if \<not> vmm_covered owner address bytes s then (ZE_RESULT_ERROR_INVALID_ARGUMENT, s)
      else let ((result, _), s) = ze_ask D (ZeAccess (vo_context owner) address bytes) s in (result, s))"

text \<open>A mapping that a range to unmap must not meet.\<close>

definition unmap_conflict :: "vmm_owner \<Rightarrow> u64 \<Rightarrow> u64 \<Rightarrow> vmm_mapping \<Rightarrow> bool" where
  "unmap_conflict owner address bytes m \<longleftrightarrow> vo_context (mpg_owner m) = vo_context owner \<and>
     range_overlaps address bytes (mpg_address m) (mpg_bytes m) \<and>
     (mpg_owner m \<noteq> owner \<or> \<not> range_contains address bytes (mpg_address m) (mpg_bytes m) \<or>
      (mpg_cleanup_bytes m \<noteq> 0 \<and> (mpg_cleanup_address m \<noteq> address \<or> mpg_cleanup_bytes m \<noteq> bytes)))"

definition unmap_marked :: "vmm_owner \<Rightarrow> u64 \<Rightarrow> u64 \<Rightarrow> vmm_mapping \<Rightarrow> bool" where
  "unmap_marked owner address bytes m \<longleftrightarrow> mpg_owner m = owner \<and> mpg_cleanup_address m = address \<and> mpg_cleanup_bytes m = bytes"

definition unmap_mark :: "vmm_owner \<Rightarrow> u64 \<Rightarrow> u64 \<Rightarrow> vmm_mapping \<Rightarrow> vmm_mapping" where
  "unmap_mark owner address bytes m =
     (if mpg_owner m = owner \<and> range_contains address bytes (mpg_address m) (mpg_bytes m)
      then m\<lparr>mpg_cleanup_address := address, mpg_cleanup_bytes := bytes\<rparr> else m)"

fun unmap_all :: "ze_api \<Rightarrow> vmm_owner \<Rightarrow> u64 \<Rightarrow> u64 \<Rightarrow> vmm_mapping list \<Rightarrow> ze_call list \<Rightarrow> ze_result \<times> vmm_mapping list \<times> ze_call list" where
  "unmap_all D owner address bytes [] h = (ZE_RESULT_SUCCESS, [], h)"
| "unmap_all D owner address bytes (m # ms) h =
     (if \<not> unmap_marked owner address bytes m
      then let (result, ms, h) = unmap_all D owner address bytes ms h in (result, m # ms, h)
      else let c = ZeUnmap (vo_context owner) (mpg_address m) (mpg_bytes m); result = fst (D h c) in
        if result \<noteq> ZE_RESULT_SUCCESS then (result, m # ms, c # h) else unmap_all D owner address bytes ms (c # h))"

definition vmm_unmap :: "ze_api \<Rightarrow> vmm_owner \<Rightarrow> u64 \<Rightarrow> u64 \<Rightarrow> vmm \<Rightarrow> ze_result \<times> vmm" where
  "vmm_unmap D owner address bytes s =
     (if \<not> valid_range address bytes then (ZE_RESULT_ERROR_INVALID_ARGUMENT, s)
      else if vmm_reservation_at owner address bytes s = None then (ZE_RESULT_ERROR_INVALID_ARGUMENT, s)
      else if \<exists>m \<in> set (mappings_of s). unmap_conflict owner address bytes m then (ZE_RESULT_ERROR_INVALID_ARGUMENT, s)
      else if \<not> (\<exists>m \<in> set (mappings_of s). unmap_marked owner address bytes m) \<and> \<not> vmm_covered owner address bytes s
      then (ZE_RESULT_ERROR_INVALID_ARGUMENT, s)
      else let (result, ms, h) = unmap_all D owner address bytes (map (unmap_mark owner address bytes) (mappings_of s)) (ze_hist s) in
        (result, s\<lparr>mappings_of := ms, ze_hist := h\<rparr>))"

definition vmm_destroy :: "ze_api \<Rightarrow> vmm_owner \<Rightarrow> u64 \<Rightarrow> vmm \<Rightarrow> ze_result \<times> vmm" where
  "vmm_destroy D owner h s = (case vmm_physical_of owner h s of
      None \<Rightarrow> (ZE_RESULT_ERROR_INVALID_ARGUMENT, s)
    | Some p \<Rightarrow>
        if \<exists>m \<in> set (mappings_of s). vo_context (mpg_owner m) = vo_context owner \<and> mpg_handle m = h
        then (ZE_RESULT_ERROR_HANDLE_OBJECT_IN_USE, s)
        else let ((result, _), s) = ze_ask D (ZeDestroy (vo_context owner) h) s in
          (result, if result = ZE_RESULT_SUCCESS then s\<lparr>physical := remove1 p (physical s)\<rparr> else s))"

text \<open>The counters, for seven slots: \<open>None\<close> for a refusal.\<close>

definition vmm_snapshot :: "bool \<Rightarrow> nat \<Rightarrow> vmm \<Rightarrow> u64 list option" where
  "vmm_snapshot out n s =
     (if \<not> out \<or> n \<noteq> 7 then None
      else Some [of_nat (length (reservations s)), of_nat (length (physical s)), of_nat (length (mappings_of s)),
        sum_list (map rsv_bytes (reservations s)), sum_list (map rsv_outer_bytes (reservations s)),
        sum_list (map phy_bytes (physical s)), sum_list (map mpg_bytes (mappings_of s))])"

text \<open>A program that uses the manager: any sequence of requests.\<close>

inductive vmm_step :: "ze_api \<Rightarrow> vmm \<Rightarrow> vmm \<Rightarrow> bool" for D where
  reserve: "vmm_reserve D owner out bytes alignment requested flags s = (r, t) \<Longrightarrow> vmm_step D s t"
| free: "vmm_free D owner address bytes s = (r, t) \<Longrightarrow> vmm_step D s t"
| create: "vmm_create D owner out bytes s = (r, t) \<Longrightarrow> vmm_step D s t"
| map: "vmm_map D owner address bytes h offset flags s = (r, t) \<Longrightarrow> vmm_step D s t"
| access: "vmm_access D owner address bytes s = (r, t) \<Longrightarrow> vmm_step D s t"
| unmap: "vmm_unmap D owner address bytes s = (r, t) \<Longrightarrow> vmm_step D s t"
| destroy: "vmm_destroy D owner h s = (r, t) \<Longrightarrow> vmm_step D s t"

definition vmm_empty :: vmm where
  "vmm_empty = \<lparr>ze_hist = [], reservations = [], physical = [], mappings_of = []\<rparr>"

inductive vmm_reachable :: "ze_api \<Rightarrow> vmm \<Rightarrow> bool" for D where
  start: "vmm_reachable D vmm_empty"
| step: "vmm_reachable D s \<Longrightarrow> vmm_step D s t \<Longrightarrow> vmm_reachable D t"

end
