(* ===== verification/VmmInv.thy ===== *)
theory VmmInv
  imports Vmm VramBufInv
begin

unbundle bit_operations_syntax

text \<open>
  The manager as a refinement of the device. \<open>dev_reserved\<close>, \<open>dev_physical\<close> and \<open>dev_mapped\<close> read off the
  calls made so far what the device has reserved, allocated and mapped; \<open>ze_legal\<close> says which calls it admits
  in such a state. The lists of the manager mirror the device, and every call it makes is legal, whatever is
  asked of it and whatever the driver answers.
\<close>

subsection \<open>The device\<close>

fun dev_reserved :: "ze_api \<Rightarrow> ze_call list \<Rightarrow> (u64 \<times> u64 \<times> u64) set" where
  "dev_reserved D [] = {}"
| "dev_reserved D (ZeReserve x n # h) =
     (case D h (ZeReserve x n) of (r, a) \<Rightarrow> if r = ZE_RESULT_SUCCESS then insert (x, a, n) (dev_reserved D h) else dev_reserved D h)"
| "dev_reserved D (ZeFree x a n # h) =
     (if fst (D h (ZeFree x a n)) = ZE_RESULT_SUCCESS then dev_reserved D h - {(x, a, n)} else dev_reserved D h)"
| "dev_reserved D (c # h) = dev_reserved D h"

fun dev_physical :: "ze_api \<Rightarrow> ze_call list \<Rightarrow> (u64 \<times> u64 \<times> u64) set" where
  "dev_physical D [] = {}"
| "dev_physical D (ZeCreate x d n # h) =
     (case D h (ZeCreate x d n) of (r, p) \<Rightarrow> if r = ZE_RESULT_SUCCESS then insert (x, p, n) (dev_physical D h) else dev_physical D h)"
| "dev_physical D (ZeDestroy x p # h) =
     (if fst (D h (ZeDestroy x p)) = ZE_RESULT_SUCCESS then {q \<in> dev_physical D h. \<not> (fst q = x \<and> fst (snd q) = p)} else dev_physical D h)"
| "dev_physical D (c # h) = dev_physical D h"

fun dev_mapped :: "ze_api \<Rightarrow> ze_call list \<Rightarrow> (u64 \<times> u64 \<times> u64 \<times> u64 \<times> u64) set" where
  "dev_mapped D [] = {}"
| "dev_mapped D (ZeMap x a n p off # h) =
     (if fst (D h (ZeMap x a n p off)) = ZE_RESULT_SUCCESS then insert (x, a, n, p, off) (dev_mapped D h) else dev_mapped D h)"
| "dev_mapped D (ZeUnmap x a n # h) =
     (if fst (D h (ZeUnmap x a n)) = ZE_RESULT_SUCCESS
      then {q \<in> dev_mapped D h. \<not> (fst q = x \<and> fst (snd q) = a \<and> fst (snd (snd q)) = n)} else dev_mapped D h)"
| "dev_mapped D (c # h) = dev_mapped D h"

definition cells :: "u64 \<Rightarrow> u64 \<Rightarrow> nat set" where
  "cells a n = {unat a ..< unat a + unat n}"

text \<open>
  What Level Zero asks of a caller: a range is freed when nothing in it is mapped, physical memory is
  destroyed when it is mapped nowhere, a mapping lies in one reservation, in the physical memory, and over
  no other mapping, exactly what was mapped is unmapped, and access is set for mapped bytes only.
\<close>

fun ze_legal :: "ze_api \<Rightarrow> ze_call list \<Rightarrow> ze_call \<Rightarrow> bool" where
  "ze_legal D h (ZeFree x a n) \<longleftrightarrow> (x, a, n) \<in> dev_reserved D h \<and>
     (\<forall>b m p off. (x, b, m, p, off) \<in> dev_mapped D h \<longrightarrow> cells a n \<inter> cells b m = {})"
| "ze_legal D h (ZeDestroy x p) \<longleftrightarrow> (\<exists>n. (x, p, n) \<in> dev_physical D h) \<and> (\<forall>b m off. (x, b, m, p, off) \<notin> dev_mapped D h)"
| "ze_legal D h (ZeMap x a n p off) \<longleftrightarrow> n \<noteq> 0 \<and> (\<exists>b m. (x, b, m) \<in> dev_reserved D h \<and> cells a n \<subseteq> cells b m) \<and>
     (\<exists>k. (x, p, k) \<in> dev_physical D h \<and> unat off + unat n \<le> unat k) \<and>
     (\<forall>b m q off'. (x, b, m, q, off') \<in> dev_mapped D h \<longrightarrow> cells a n \<inter> cells b m = {})"
| "ze_legal D h (ZeUnmap x a n) \<longleftrightarrow> (\<exists>p off. (x, a, n, p, off) \<in> dev_mapped D h)"
| "ze_legal D h (ZeAccess x a n) \<longleftrightarrow> cells a n \<subseteq> (\<Union>(y, b, m, p, off) \<in> dev_mapped D h. if y = x then cells b m else {})"
| "ze_legal D h _ \<longleftrightarrow> True"

fun legal_history :: "ze_api \<Rightarrow> ze_call list \<Rightarrow> bool" where
  "legal_history D [] \<longleftrightarrow> True"
| "legal_history D (c # h) \<longleftrightarrow> legal_history D h \<and> ze_legal D h c"

text \<open>
  Documented behaviour of \<open>zeVirtualMemReserve\<close> and \<open>zePhysicalMemCreate\<close>: a reserved range does not wrap and
  meets no other reserved range of the context, a new handle is none that is live; and a range is aligned to
  the page size that was answered for a size it can hold.
\<close>

definition ze_contract :: "ze_api \<Rightarrow> bool" where
  "ze_contract D \<longleftrightarrow>
     (\<forall>h x n a. D h (ZeReserve x n) = (ZE_RESULT_SUCCESS, a) \<longrightarrow> unat a + unat n \<le> 2 ^ 64 \<and>
        (\<forall>b m. (x, b, m) \<in> dev_reserved D h \<longrightarrow> cells a n \<inter> cells b m = {})) \<and>
     (\<forall>h x d n p. D h (ZeCreate x d n) = (ZE_RESULT_SUCCESS, p) \<longrightarrow> (\<forall>m. (x, p, m) \<notin> dev_physical D h)) \<and>
     (\<forall>h h' x d k page n a. D h (ZePageSize x d k) = (ZE_RESULT_SUCCESS, page) \<longrightarrow> k \<le> n \<longrightarrow>
        D h' (ZeReserve x n) = (ZE_RESULT_SUCCESS, a) \<longrightarrow> unat page dvd unat a)"

subsection \<open>Ranges\<close>

lemma valid_range_iff: "valid_range p n \<longleftrightarrow> n \<noteq> 0 \<and> unat p + unat n < 2 ^ 64"
proof -
  have "unat (- 1 - p) = 2 ^ 64 - 1 - unat p"
    by (subst unat_sub) (simp_all add: unsigned_minus_1_eq_mask mask_eq_exp_minus_1)
  then have "n \<le> - 1 - p \<longleftrightarrow> unat n \<le> 2 ^ 64 - 1 - unat p" by (simp add: word_le_nat_alt)
  moreover have "unat p < 2 ^ 64" using unsigned_less [of p] by simp
  ultimately show ?thesis by (auto simp: valid_range_def)
qed

lemma unat_end: "unat (p :: u64) + unat (n :: u64) < 2 ^ 64 \<Longrightarrow> unat (p + n) = unat p + unat n"
  by (subst unat_add_lem [THEN iffD1]) simp_all

lemma range_contains_iff:
  "range_contains p n q m \<longleftrightarrow> valid_range p n \<and> valid_range q m \<and> unat p \<le> unat q \<and> unat q + unat m \<le> unat p + unat n"
proof -
  have "q - p \<le> n - m \<longleftrightarrow> unat q - unat p \<le> unat n - unat m" if "p \<le> q" "m \<le> n"
    using that by (simp add: word_le_nat_alt unat_sub)
  then show ?thesis
    unfolding range_contains_def word_le_nat_alt by (auto simp: valid_range_iff word_le_nat_alt)
qed

lemma range_contains_cells: "range_contains p n q m \<Longrightarrow> cells q m \<subseteq> cells p n"
  by (auto simp: range_contains_iff cells_def)

lemma range_overlaps_iff:
  "valid_range p n \<Longrightarrow> valid_range q m \<Longrightarrow> range_overlaps p n q m \<longleftrightarrow> cells p n \<inter> cells q m \<noteq> {}"
proof -
  assume v: "valid_range p n" "valid_range q m"
  have "range_overlaps p n q m \<longleftrightarrow> unat p < unat q + unat m \<and> unat q < unat p + unat n"
    using v by (simp add: range_overlaps_def valid_range_iff word_less_nat_alt unat_end)
  also have "\<dots> \<longleftrightarrow> max (unat p) (unat q) \<in> cells p n \<inter> cells q m"
    using v by (auto simp: cells_def valid_range_iff unat_gt_0)
  also have "\<dots> \<longleftrightarrow> cells p n \<inter> cells q m \<noteq> {}" by (auto simp: cells_def)
  finally show ?thesis .
qed

lemma cells_nonempty: "valid_range p n \<Longrightarrow> cells p n \<noteq> {}"
  by (simp add: cells_def valid_range_iff unat_gt_0)

subsection \<open>Lists\<close>

lemma sorted_wrt_in:
  assumes "sorted_wrt R xs" "x \<in> set xs" "y \<in> set xs" "x \<noteq> y" "\<And>x y. R x y \<Longrightarrow> R y x"
  shows "R x y"
  using assms(1-4) by (induction xs) (auto intro: assms(5))

lemma sorted_wrt_remove1: "sorted_wrt R xs \<Longrightarrow> sorted_wrt R (remove1 x xs)"
  by (induction xs) (auto dest: notin_set_remove1 [rotated])

lemma sorted_wrt_distinct: "sorted_wrt R xs \<Longrightarrow> (\<And>x. x \<in> set xs \<Longrightarrow> \<not> R x x) \<Longrightarrow> distinct xs"
  by (induction xs) auto

subsection \<open>The invariant\<close>

definition res_entry :: "vmm_reservation \<Rightarrow> u64 \<times> u64 \<times> u64" where
  "res_entry r = (vo_context (rsv_owner r), rsv_outer r, rsv_outer_bytes r)"

definition phys_entry :: "vmm_physical \<Rightarrow> u64 \<times> u64 \<times> u64" where
  "phys_entry p = (vo_context (phy_owner p), phy_handle p, phy_bytes p)"

definition map_entry :: "vmm_mapping \<Rightarrow> u64 \<times> u64 \<times> u64 \<times> u64 \<times> u64" where
  "map_entry m = (vo_context (mpg_owner m), mpg_address m, mpg_bytes m, mpg_handle m, mpg_offset m)"

definition outer_apart :: "vmm_reservation \<Rightarrow> vmm_reservation \<Rightarrow> bool" where
  "outer_apart r q \<longleftrightarrow> (vo_context (rsv_owner r) = vo_context (rsv_owner q) \<longrightarrow>
     cells (rsv_outer r) (rsv_outer_bytes r) \<inter> cells (rsv_outer q) (rsv_outer_bytes q) = {})"

definition handle_apart :: "vmm_physical \<Rightarrow> vmm_physical \<Rightarrow> bool" where
  "handle_apart p q \<longleftrightarrow> (vo_context (phy_owner p) = vo_context (phy_owner q) \<longrightarrow> phy_handle p \<noteq> phy_handle q)"

definition map_apart :: "vmm_mapping \<Rightarrow> vmm_mapping \<Rightarrow> bool" where
  "map_apart m k \<longleftrightarrow> (vo_context (mpg_owner m) = vo_context (mpg_owner k) \<longrightarrow>
     cells (mpg_address m) (mpg_bytes m) \<inter> cells (mpg_address k) (mpg_bytes k) = {})"

text \<open>What is exposed of a reservation lies in what the device reserved.\<close>

definition res_ok :: "vmm_reservation \<Rightarrow> bool" where
  "res_ok r \<longleftrightarrow> rsv_bytes r \<noteq> 0 \<and> unat (rsv_outer r) \<le> unat (rsv_address r) \<and>
     unat (rsv_address r) + unat (rsv_bytes r) \<le> unat (rsv_outer r) + unat (rsv_outer_bytes r)"

text \<open>A mapping lies in a reservation and in physical memory of its owner; one that is being cleaned up, in that range.\<close>

definition map_ok :: "vmm_reservation list \<Rightarrow> vmm_physical list \<Rightarrow> vmm_mapping \<Rightarrow> bool" where
  "map_ok rs ps m \<longleftrightarrow>
     (\<exists>r \<in> set rs. rsv_owner r = mpg_owner m \<and> range_contains (rsv_address r) (rsv_bytes r) (mpg_address m) (mpg_bytes m)) \<and>
     (\<exists>p \<in> set ps. phy_owner p = mpg_owner m \<and> phy_handle p = mpg_handle m \<and> unat (mpg_offset m) + unat (mpg_bytes m) \<le> unat (phy_bytes p)) \<and>
     (mpg_cleanup_bytes m \<noteq> 0 \<longrightarrow> range_contains (mpg_cleanup_address m) (mpg_cleanup_bytes m) (mpg_address m) (mpg_bytes m))"

definition mirrors :: "ze_api \<Rightarrow> vmm \<Rightarrow> bool" where
  "mirrors D s \<longleftrightarrow> dev_reserved D (ze_hist s) = res_entry ` set (reservations s) \<and>
     dev_physical D (ze_hist s) = phys_entry ` set (physical s) \<and>
     dev_mapped D (ze_hist s) = map_entry ` set (mappings_of s)"

definition vmm_ok :: "ze_api \<Rightarrow> vmm \<Rightarrow> bool" where
  "vmm_ok D s \<longleftrightarrow> mirrors D s \<and> legal_history D (ze_hist s) \<and>
     sorted_wrt outer_apart (reservations s) \<and> sorted_wrt handle_apart (physical s) \<and> sorted_wrt map_apart (mappings_of s) \<and>
     (\<forall>r \<in> set (reservations s). res_ok r) \<and> (\<forall>m \<in> set (mappings_of s). map_ok (reservations s) (physical s) m)"

lemma apart_sym: "outer_apart r q \<Longrightarrow> outer_apart q r" "handle_apart p p' \<Longrightarrow> handle_apart p' p" "map_apart m k \<Longrightarrow> map_apart k m"
  by (auto simp: outer_apart_def handle_apart_def map_apart_def)

lemma map_ok_valid: "map_ok rs ps m \<Longrightarrow> valid_range (mpg_address m) (mpg_bytes m)"
  by (auto simp: map_ok_def range_contains_def)

text \<open>Calls that change nothing on the device.\<close>

lemma vmm_ok_call:
  assumes "vmm_ok D s" "ze_legal D (ze_hist s) c" "dev_reserved D (c # ze_hist s) = dev_reserved D (ze_hist s)"
    "dev_physical D (c # ze_hist s) = dev_physical D (ze_hist s)" "dev_mapped D (c # ze_hist s) = dev_mapped D (ze_hist s)"
  shows "vmm_ok D (s\<lparr>ze_hist := c # ze_hist s\<rparr>)"
  using assms by (simp add: vmm_ok_def mirrors_def del: dev_reserved.simps dev_physical.simps dev_mapped.simps)

lemma ze_ask_eq: "ze_ask D c s = (D (ze_hist s) c, s\<lparr>ze_hist := c # ze_hist s\<rparr>)"
  by (simp add: ze_ask_def)

lemma vmm_ok_query:
  "vmm_ok D s \<Longrightarrow> vmm_ok D (s\<lparr>ze_hist := ZePageSize x d n # ze_hist s\<rparr>)" "vmm_ok D s \<Longrightarrow> vmm_ok D (s\<lparr>ze_hist := ListNode # ze_hist s\<rparr>)"
  by (rule vmm_ok_call; simp)+

text \<open>A call that fails.\<close>

lemma vmm_ok_failed:
  "vmm_ok D s \<Longrightarrow> ze_legal D (ze_hist s) c \<Longrightarrow> fst (D (ze_hist s) c) \<noteq> ZE_RESULT_SUCCESS \<Longrightarrow> vmm_ok D (s\<lparr>ze_hist := c # ze_hist s\<rparr>)"
  by (rule vmm_ok_call) (cases c; auto split: prod.split)+

subsection \<open>Reservations\<close>

lemma and_pred_zero: "(n :: nat) AND (n - 1) = 0 \<Longrightarrow> 0 < n \<Longrightarrow> \<exists>k. n = 2 ^ k"
proof (induction n rule: less_induct)
  case (less n)
  show ?case
  proof (cases "even n")
    case True
    then obtain m where m: "n = 2 * m" by blast
    with less.prems have "0 < m" by simp
    then have "n - 1 = 1 + 2 * (m - 1)" using m by simp
    then have "n AND (n - 1) = 2 * (m AND (m - 1))" using m by (subst and_rec) simp
    then have "m AND (m - 1) = 0" using less.prems(1) by simp
    then obtain k where "m = 2 ^ k" using less.IH [of m] m \<open>0 < m\<close> by auto
    then show ?thesis using m by (intro exI [of _ "Suc k"]) simp
  next
    case False
    then obtain m where m: "n = 1 + 2 * m" by (metis oddE add.commute)
    then have "n AND (n - 1) = 2 * m" by (subst and_rec) simp
    then have "n = 2 ^ 0" using m less.prems(1) by simp
    then show ?thesis by blast
  qed
qed

lemma power_of_two_exp: "power_of_two n \<Longrightarrow> \<exists>k < 64. n = 2 ^ k \<and> unat n = 2 ^ k"
proof -
  assume n: "power_of_two n"
  then have "0 < unat n" by (simp add: power_of_two_def unat_gt_0)
  moreover have "unat n AND (unat n - 1) = 0"
  proof -
    have "unat (n - 1) = unat n - 1" using n by (simp add: power_of_two_def unat_minus_one)
    then show ?thesis using n by (metis power_of_two_def unsigned_0 unsigned_and_eq)
  qed
  ultimately obtain k where k: "unat n = 2 ^ k" using and_pred_zero by blast
  have "unat n < 2 ^ 64" using unsigned_less [of n] by simp
  then have "k < 64" unfolding k by (simp only: power_strict_increasing_iff)
  moreover have "n = 2 ^ k"
    using arg_cong [OF k, of "\<lambda>m. of_nat m :: u64"] by simp
  ultimately show ?thesis using k by blast
qed

text \<open>The aligned interior of a reservation: padding of the alignment less a page is enough.\<close>

lemma aligned_interior:
  assumes "power_of_two page" "power_of_two a" "page \<le> a" "unat page dvd unat x" "unat x + unat a \<le> 2 ^ 64"
  shows "unat x \<le> unat ((x + a - 1) AND NOT (a - 1))" "unat ((x + a - 1) AND NOT (a - 1)) \<le> unat x + (unat a - unat page)"
proof -
  obtain j where j: "unat page = 2 ^ j" using power_of_two_exp [OF assms(1)] by blast
  obtain k where k: "k < 64" "a = 2 ^ k" "unat a = 2 ^ k" using power_of_two_exp [OF assms(2)] by blast
  let ?y = "unat ((x + a - 1) AND NOT (a - 1))"
  have y: "?y = (unat x + (2 ^ k - 1)) div 2 ^ k * 2 ^ k"
    using ALIGN_UP_nat [of x k] assms(5) k by (simp add: ALIGN_UP_def)
  have jk: "j \<le> k" using assms(3) j k(3) by (simp add: word_le_nat_alt)
  have sum: "?y + (unat x + (2 ^ k - 1)) mod 2 ^ k = unat x + (2 ^ k - 1)" unfolding y by (rule div_mult_mod_eq)
  have "(unat x + (2 ^ k - 1)) mod 2 ^ k < 2 ^ k" by simp
  then show le: "unat x \<le> ?y" using sum by linarith
  have "(2 :: nat) ^ j dvd 2 ^ k" using jk by (simp add: le_imp_power_dvd)
  then have "2 ^ j dvd ?y" unfolding y by simp
  moreover have "2 ^ j dvd unat x" using assms(4) j by simp
  ultimately have "2 ^ j dvd 2 ^ k - (?y - unat x)" using \<open>2 ^ j dvd 2 ^ k\<close> by (simp add: dvd_diff_nat)
  moreover have "?y \<le> unat x + (2 ^ k - 1)" "(0 :: nat) < 2 ^ k" using sum by simp_all
  then have "0 < 2 ^ k - (?y - unat x)" by linarith
  ultimately have "2 ^ j \<le> 2 ^ k - (?y - unat x)" by (rule dvd_imp_le)
  then show "?y \<le> unat x + (unat a - unat page)" 
    using le j k(3) zero_less_power [of "2 :: nat" j] by linarith
qed

subsection \<open>Changes of the device\<close>

lemma map_ok_mono: "map_ok rs ps m \<Longrightarrow> set rs \<subseteq> set rs' \<Longrightarrow> set ps \<subseteq> set ps' \<Longrightarrow> map_ok rs' ps' m"
  by (fastforce simp: map_ok_def)

lemma contract_reserve:
  "ze_contract D \<Longrightarrow> D h (ZeReserve x n) = (ZE_RESULT_SUCCESS, a) \<Longrightarrow>
    unat a + unat n \<le> 2 ^ 64 \<and> (\<forall>b m. (x, b, m) \<in> dev_reserved D h \<longrightarrow> cells a n \<inter> cells b m = {})"
  unfolding ze_contract_def by (elim conjE) blast

lemma contract_create:
  "ze_contract D \<Longrightarrow> D h (ZeCreate x d n) = (ZE_RESULT_SUCCESS, p) \<Longrightarrow> (x, p, m) \<notin> dev_physical D h"
  unfolding ze_contract_def by (elim conjE) blast

lemma contract_page:
  "ze_contract D \<Longrightarrow> D h (ZePageSize x d k) = (ZE_RESULT_SUCCESS, page) \<Longrightarrow> k \<le> n \<Longrightarrow>
    D h' (ZeReserve x n) = (ZE_RESULT_SUCCESS, a) \<Longrightarrow> unat page dvd unat a"
  unfolding ze_contract_def by (elim conjE) metis

lemma vmm_ok_reserved:
  assumes "ze_contract D" "vmm_ok D s" "D (ze_hist s) (ZeReserve x n) = (ZE_RESULT_SUCCESS, a)" "res_ok r" "res_entry r = (x, a, n)"
  shows "vmm_ok D (s\<lparr>ze_hist := ZeReserve x n # ze_hist s, reservations := reservations s @ [r]\<rparr>)"
proof -
  have "outer_apart q r" if "q \<in> set (reservations s)" for q
  proof -
    have "res_entry q \<in> dev_reserved D (ze_hist s)" using assms(2) that by (simp add: vmm_ok_def mirrors_def)
    then have "cells a n \<inter> cells (rsv_outer q) (rsv_outer_bytes q) = {}" if "vo_context (rsv_owner q) = x"
      using contract_reserve [OF assms(1,3)] that by (simp add: res_entry_def)
    then show ?thesis using assms(5) by (auto simp: outer_apart_def res_entry_def)
  qed
  then show ?thesis
    using assms(2-5) by (auto simp: vmm_ok_def mirrors_def sorted_wrt_append intro: map_ok_mono)
qed

lemma vmm_ok_created:
  assumes "ze_contract D" "vmm_ok D s" "D (ze_hist s) (ZeCreate x d n) = (ZE_RESULT_SUCCESS, h)" "phys_entry p = (x, h, n)"
  shows "vmm_ok D (s\<lparr>ze_hist := ZeCreate x d n # ze_hist s, physical := physical s @ [p]\<rparr>)"
proof -
  have "handle_apart q p" if "q \<in> set (physical s)" for q
  proof -
    have "phys_entry q \<in> dev_physical D (ze_hist s)" using assms(2) that by (simp add: vmm_ok_def mirrors_def)
    then show ?thesis
      using contract_create [OF assms(1,3)] assms(4) by (auto simp: handle_apart_def phys_entry_def)
  qed
  then show ?thesis
    using assms(2-4) by (auto simp: vmm_ok_def mirrors_def sorted_wrt_append intro: map_ok_mono)
qed

lemma vmm_ok_mapped:
  assumes "vmm_ok D s" "fst (D (ze_hist s) (ZeMap x a n h off)) = ZE_RESULT_SUCCESS" "ze_legal D (ze_hist s) (ZeMap x a n h off)"
    "map_entry m = (x, a, n, h, off)" "map_ok (reservations s) (physical s) m"
  shows "vmm_ok D (s\<lparr>ze_hist := ZeMap x a n h off # ze_hist s, mappings_of := mappings_of s @ [m]\<rparr>)"
proof -
  have "map_apart k m" if "k \<in> set (mappings_of s)" for k
  proof -
    have "map_entry k \<in> dev_mapped D (ze_hist s)" using assms(1) that by (simp add: vmm_ok_def mirrors_def)
    then show ?thesis using assms(3,4) by (cases "vo_context (mpg_owner k) = x") (fastforce simp: map_apart_def map_entry_def)+
  qed
  then show ?thesis
    using assms by (auto simp: vmm_ok_def mirrors_def sorted_wrt_append)
qed

lemma in_remove1: "distinct xs \<Longrightarrow> set (remove1 x xs) = set xs - {x}"
  by (rule set_remove1_eq)

lemma vmm_ok_freed:
  assumes "vmm_ok D s" "fst (D (ze_hist s) (ZeFree x a n)) = ZE_RESULT_SUCCESS" "ze_legal D (ze_hist s) (ZeFree x a n)"
    "r \<in> set (reservations s)" "res_entry r = (x, a, n)"
    "\<forall>m \<in> set (mappings_of s). vo_context (mpg_owner m) = x \<longrightarrow>
       cells (rsv_address r) (rsv_bytes r) \<inter> cells (mpg_address m) (mpg_bytes m) = {}"
  shows "vmm_ok D (s\<lparr>ze_hist := ZeFree x a n # ze_hist s, reservations := remove1 r (reservations s)\<rparr>)"
proof -
  have ok: "sorted_wrt outer_apart (reservations s)" "\<forall>r \<in> set (reservations s). res_ok r"
    using assms(1) by (simp_all add: vmm_ok_def)
  have self: "\<not> outer_apart q q" if "q \<in> set (reservations s)" for q
  proof -
    have "res_ok q" using ok(2) that by blast
    then have "0 < unat (rsv_bytes q)" "unat (rsv_outer q) \<le> unat (rsv_address q)"
      "unat (rsv_address q) + unat (rsv_bytes q) \<le> unat (rsv_outer q) + unat (rsv_outer_bytes q)" by (simp_all add: res_ok_def unat_gt_0)
    then have "unat (rsv_outer q) \<in> cells (rsv_outer q) (rsv_outer_bytes q)" unfolding cells_def atLeastLessThan_iff by linarith
    then show ?thesis by (auto simp: outer_apart_def)
  qed
  have dist: "distinct (reservations s)" by (rule sorted_wrt_distinct [OF ok(1) self])
  have once: "res_entry q \<noteq> res_entry r" if "q \<in> set (reservations s)" "q \<noteq> r" for q
  proof
    assume e: "res_entry q = res_entry r"
    have "outer_apart q r" by (rule sorted_wrt_in [OF ok(1) that(1) assms(4) that(2)]) (rule apart_sym(1))
    then have "outer_apart r r" using e by (simp add: outer_apart_def res_entry_def)
    then show False using self [OF assms(4)] by blast
  qed
  have image: "res_entry ` (set (reservations s) - {r}) = res_entry ` set (reservations s) - {(x, a, n)}"
    using once assms(4,5) by force
  have "map_ok (remove1 r (reservations s)) (physical s) m" if m: "m \<in> set (mappings_of s)" for m
  proof -
    have mok: "map_ok (reservations s) (physical s) m" using assms(1) m by (simp add: vmm_ok_def)
    then obtain q where q: "q \<in> set (reservations s)" "rsv_owner q = mpg_owner m"
      "range_contains (rsv_address q) (rsv_bytes q) (mpg_address m) (mpg_bytes m)" by (auto simp: map_ok_def)
    have "q \<noteq> r"
    proof
      assume "q = r"
      then have "vo_context (mpg_owner m) = x" using assms(5) q(2) by (simp add: res_entry_def)
      then have "cells (mpg_address m) (mpg_bytes m) = {}"
        using assms(6) m range_contains_cells [OF q(3)] \<open>q = r\<close> by blast
      then show False using cells_nonempty [OF map_ok_valid [OF mok]] by simp
    qed
    then show ?thesis using mok q in_remove1 [OF dist, of r] by (auto simp: map_ok_def)
  qed
  then show ?thesis
    using assms(1-3) sorted_wrt_remove1 [OF ok(1)] in_remove1 [OF dist, of r] image
    by (simp add: vmm_ok_def mirrors_def)
qed

lemma vmm_ok_destroyed:
  assumes "vmm_ok D s" "fst (D (ze_hist s) (ZeDestroy x h)) = ZE_RESULT_SUCCESS" "ze_legal D (ze_hist s) (ZeDestroy x h)"
    "p \<in> set (physical s)" "vo_context (phy_owner p) = x" "phy_handle p = h"
  shows "vmm_ok D (s\<lparr>ze_hist := ZeDestroy x h # ze_hist s, physical := remove1 p (physical s)\<rparr>)"
proof -
  have sorted: "sorted_wrt handle_apart (physical s)" using assms(1) by (simp add: vmm_ok_def)
  have dist: "distinct (physical s)" by (rule sorted_wrt_distinct [OF sorted]) (simp add: handle_apart_def)
  have once: "vo_context (phy_owner q) \<noteq> x \<or> phy_handle q \<noteq> h" if "q \<in> set (physical s)" "q \<noteq> p" for q
    using sorted_wrt_in [OF sorted that(1) assms(4) that(2) apart_sym(2)] assms(5,6) by (auto simp: handle_apart_def)
  have image: "phys_entry ` (set (physical s) - {p}) = {q \<in> phys_entry ` set (physical s). \<not> (fst q = x \<and> fst (snd q) = h)}"
    using once assms(5,6) by (auto simp: phys_entry_def image_iff)
  have "map_ok (reservations s) (remove1 p (physical s)) m" if m: "m \<in> set (mappings_of s)" for m
  proof -
    have mok: "map_ok (reservations s) (physical s) m" "map_entry m \<in> dev_mapped D (ze_hist s)"
      using assms(1) m by (simp_all add: vmm_ok_def mirrors_def)
    then have "\<not> (vo_context (mpg_owner m) = x \<and> mpg_handle m = h)"
      using assms(3) by (auto simp: map_entry_def)
    then show ?thesis
      using mok(1) assms(5,6) in_remove1 [OF dist, of p] unfolding map_ok_def by (metis DiffI singletonD)
  qed
  then show ?thesis
    using assms(1-3) sorted_wrt_remove1 [OF sorted] in_remove1 [OF dist, of p] image
    by (simp add: vmm_ok_def mirrors_def)
qed

subsection \<open>The operations\<close>

lemma reservation_at:
  "vmm_reservation_at owner a n s = Some r \<Longrightarrow> r \<in> set (reservations s) \<and> rsv_owner r = owner \<and> range_contains (rsv_address r) (rsv_bytes r) a n"
  by (auto simp: vmm_reservation_at_def find_Some_iff)

lemma physical_of: "vmm_physical_of owner h s = Some p \<Longrightarrow> p \<in> set (physical s) \<and> phy_owner p = owner \<and> phy_handle p = h"
  by (auto simp: vmm_physical_of_def find_Some_iff)

lemma find_none: "find P xs = None \<longleftrightarrow> (\<forall>x \<in> set xs. \<not> P x)"
  by (auto simp: find_None_iff)

lemma reserve_ok:
  assumes "ze_contract D" "vmm_ok D s"
  shows "vmm_ok D (snd (vmm_reserve D owner out bytes alignment requested flags s))"
proof (cases "out \<and> bytes \<noteq> 0 \<and> requested = 0 \<and> flags = 0 \<and> (alignment \<noteq> 0 \<longrightarrow> power_of_two alignment)")
  case False
  then show ?thesis using assms(2) by (auto simp: vmm_reserve_def)
next
  case args: True
  let ?x = "vo_context owner" and ?p = "ZePageSize (vo_context owner) (vo_device owner) bytes"
  obtain r1 page where page: "D (ze_hist s) ?p = (r1, page)" by (cases "D (ze_hist s) ?p")
  let ?s1 = "s\<lparr>ze_hist := ?p # ze_hist s\<rparr>"
  let ?s2 = "?s1\<lparr>ze_hist := ListNode # ze_hist ?s1\<rparr>"
  let ?a = "max alignment page"
  have s1: "vmm_ok D ?s1" by (rule vmm_ok_query(1) [OF assms(2)])
  have s2: "vmm_ok D ?s2" by (rule vmm_ok_query(2) [OF s1])
  obtain r2 y where node: "D (ze_hist ?s1) ListNode = (r2, y)" by (cases "D (ze_hist ?s1) ListNode")
  let ?c = "ZeReserve ?x (bytes + (?a - page))"
  obtain r3 outer where res: "D (ze_hist ?s2) ?c = (r3, outer)" by (cases "D (ze_hist ?s2) ?c")
  show ?thesis
  proof (cases "r1 = ZE_RESULT_SUCCESS \<and> power_of_two page \<and> bytes mod page = 0 \<and> bytes \<le> - 1 - (?a - page) \<and>
      r2 = ZE_RESULT_SUCCESS \<and> r3 = ZE_RESULT_SUCCESS")
    case False
    have "vmm_ok D (?s2\<lparr>ze_hist := ?c # ze_hist ?s2\<rparr>)" if "r3 \<noteq> ZE_RESULT_SUCCESS"
      by (rule vmm_ok_failed [OF s2]) (use that res in simp_all)
    then show ?thesis
      using False args page node res assms(2) s1 s2
      by (auto simp: vmm_reserve_def ze_ask_def Let_def not_less split: if_splits)
  next
    case True
    then have a: "power_of_two ?a" using args by (auto simp: max_def)
    have le: "page \<le> ?a" by simp
    from unat_sub [OF le] have pad: "unat (?a - page) = unat ?a - unat page" .
    have "valid_range (?a - page) bytes" using True args by (simp add: valid_range_def)
    then have fits: "unat (?a - page) + unat bytes < 2 ^ 64" by (simp add: valid_range_iff)
    then have n: "unat (bytes + (?a - page)) = unat bytes + (unat ?a - unat page)"
      unfolding pad [symmetric] by (subst unat_end) (simp_all add: add.commute)
    have "unat page dvd unat bytes" using True by (metis dvd_eq_mod_eq_0 unat_mod unsigned_0)
    then have pb: "unat page \<le> unat bytes" using args by (intro dvd_imp_le) (simp_all add: unat_gt_0)
    have kn: "bytes \<le> bytes + (?a - page)" by (simp add: word_le_nat_alt n)
    have out: "unat outer + unat (bytes + (?a - page)) \<le> 2 ^ 64" "unat page dvd unat outer"
      using contract_reserve [OF assms(1)] contract_page [OF assms(1) _ kn] page res True by simp_all
    then have "unat outer + unat ?a \<le> 2 ^ 64" using n pb le by (simp add: word_le_nat_alt)
    note interior = aligned_interior [OF _ a le out(2) this]
    let ?r = "\<lparr>rsv_owner = owner, rsv_address = (outer + ?a - 1) AND NOT (?a - 1), rsv_bytes = bytes,
      rsv_outer = outer, rsv_outer_bytes = bytes + (?a - page), rsv_page = page\<rparr>"
    have "res_ok ?r" using interior True args n by (simp add: res_ok_def)
    then have "vmm_ok D (?s2\<lparr>ze_hist := ?c # ze_hist ?s2, reservations := reservations ?s2 @ [?r]\<rparr>)"
      by (intro vmm_ok_reserved [OF assms(1) s2]) (use res True in \<open>simp_all add: res_entry_def\<close>)
    moreover have "\<not> - 1 - (?a - page) < bytes" using True by (simp only: not_less)
    ultimately show ?thesis
      using True args page node res by (auto simp: vmm_reserve_def ze_ask_def Let_def)
  qed
qed

lemma reservations_apart: "vmm_ok D s \<Longrightarrow> q \<in> set (reservations s) \<Longrightarrow> r \<in> set (reservations s) \<Longrightarrow> q \<noteq> r \<Longrightarrow> outer_apart q r"
  by (rule sorted_wrt_in [of outer_apart "reservations s"]) (auto simp: vmm_ok_def intro: apart_sym)

lemma mappings_apart: "vmm_ok D s \<Longrightarrow> m \<in> set (mappings_of s) \<Longrightarrow> k \<in> set (mappings_of s) \<Longrightarrow> m \<noteq> k \<Longrightarrow> map_apart m k"
  by (rule sorted_wrt_in [of map_apart "mappings_of s"]) (auto simp: vmm_ok_def intro: apart_sym)

lemma mapped_disjoint:
  assumes "vmm_ok D s" "(x, b, k, p, off) \<in> dev_mapped D (ze_hist s)"
    "\<And>m. m \<in> set (mappings_of s) \<Longrightarrow> vo_context (mpg_owner m) = x \<Longrightarrow> C \<inter> cells (mpg_address m) (mpg_bytes m) = {}"
  shows "C \<inter> cells b k = {}"
proof -
  obtain m where "m \<in> set (mappings_of s)" "map_entry m = (x, b, k, p, off)"
    using assms(1,2) by (auto simp: vmm_ok_def mirrors_def)
  then show ?thesis using assms(3) [of m] by (simp add: map_entry_def)
qed

lemma free_ok:
  assumes "vmm_ok D s"
  shows "vmm_ok D (snd (vmm_free D owner a n s))"
proof (cases "vmm_reservation_at owner a n s")
  case None
  then show ?thesis using assms by (simp add: vmm_free_def)
next
  case (Some r)
  note r = reservation_at [OF Some]
  let ?x = "vo_context owner"
  let ?c = "ZeFree ?x (rsv_outer r) (rsv_outer_bytes r)"
  show ?thesis
  proof (cases "rsv_address r = a \<and> rsv_bytes r = n \<and>
      \<not> (\<exists>m \<in> set (mappings_of s). vo_context (mpg_owner m) = ?x \<and> range_overlaps a n (mpg_address m) (mpg_bytes m))")
    case False
    then show ?thesis using assms Some by (auto simp: vmm_free_def)
  next
    case True
    have v: "valid_range a n" using r by (simp add: range_contains_def)
    have mok: "map_ok (reservations s) (physical s) m" if "m \<in> set (mappings_of s)" for m
      using assms that by (simp add: vmm_ok_def)
    have free: "cells a n \<inter> cells (mpg_address m) (mpg_bytes m) = {}"
      if "m \<in> set (mappings_of s)" "vo_context (mpg_owner m) = ?x" for m
      using True that range_overlaps_iff [OF v map_ok_valid [OF mok]] by blast
    have outer: "cells (rsv_outer r) (rsv_outer_bytes r) \<inter> cells (mpg_address m) (mpg_bytes m) = {}"
      if m: "m \<in> set (mappings_of s)" "vo_context (mpg_owner m) = ?x" for m
    proof -
      obtain q where q: "q \<in> set (reservations s)" "rsv_owner q = mpg_owner m"
        "range_contains (rsv_address q) (rsv_bytes q) (mpg_address m) (mpg_bytes m)"
        using mok [OF m(1)] by (auto simp: map_ok_def)
      have "q \<noteq> r"
        using free [OF m] True range_contains_cells [OF q(3)] cells_nonempty [OF map_ok_valid [OF mok [OF m(1)]]] by blast
      then have "outer_apart q r" using reservations_apart [OF assms q(1)] r by blast
      then have "cells (rsv_outer q) (rsv_outer_bytes q) \<inter> cells (rsv_outer r) (rsv_outer_bytes r) = {}"
        using q(2) m(2) r by (simp add: outer_apart_def)
      moreover have "cells (rsv_address q) (rsv_bytes q) \<subseteq> cells (rsv_outer q) (rsv_outer_bytes q)"
        using assms q(1) by (auto simp: vmm_ok_def res_ok_def cells_def)
      ultimately show ?thesis using range_contains_cells [OF q(3)] by blast
    qed
    have "res_entry r \<in> dev_reserved D (ze_hist s)" using assms r by (simp add: vmm_ok_def mirrors_def)
    moreover have "\<forall>b k q off'. (?x, b, k, q, off') \<in> dev_mapped D (ze_hist s) \<longrightarrow> cells (rsv_outer r) (rsv_outer_bytes r) \<inter> cells b k = {}"
      using outer by (intro allI impI) (rule mapped_disjoint [OF assms], assumption, simp)
    ultimately have legal: "ze_legal D (ze_hist s) ?c"
      unfolding ze_legal.simps using r by (simp add: res_entry_def)
    have "vmm_ok D (s\<lparr>ze_hist := ?c # ze_hist s, reservations := remove1 r (reservations s)\<rparr>)" if "fst (D (ze_hist s) ?c) = ZE_RESULT_SUCCESS"
      by (rule vmm_ok_freed [OF assms that legal]) (use r free True in \<open>simp_all add: res_entry_def\<close>)
    moreover have "vmm_ok D (s\<lparr>ze_hist := ?c # ze_hist s\<rparr>)" if "fst (D (ze_hist s) ?c) \<noteq> ZE_RESULT_SUCCESS"
      by (rule vmm_ok_failed [OF assms legal that])
    ultimately show ?thesis
      using Some True by (auto simp: vmm_free_def ze_ask_def Let_def case_prod_unfold)
  qed
qed

lemma create_ok:
  assumes "ze_contract D" "vmm_ok D s"
  shows "vmm_ok D (snd (vmm_create D owner out bytes s))"
proof (cases "out \<and> bytes \<noteq> 0")
  case False
  then show ?thesis using assms(2) by (auto simp: vmm_create_def)
next
  case args: True
  let ?x = "vo_context owner" and ?p = "ZePageSize (vo_context owner) (vo_device owner) bytes"
  let ?s1 = "s\<lparr>ze_hist := ?p # ze_hist s\<rparr>"
  let ?s2 = "?s1\<lparr>ze_hist := ListNode # ze_hist ?s1\<rparr>"
  let ?c = "ZeCreate ?x (vo_device owner) bytes"
  have s1: "vmm_ok D ?s1" by (rule vmm_ok_query(1) [OF assms(2)])
  have s2: "vmm_ok D ?s2" by (rule vmm_ok_query(2) [OF s1])
  obtain r1 page where page: "D (ze_hist s) ?p = (r1, page)" by (cases "D (ze_hist s) ?p")
  obtain r2 y where node: "D (ze_hist ?s1) ListNode = (r2, y)" by (cases "D (ze_hist ?s1) ListNode")
  obtain r3 h where res: "D (ze_hist ?s2) ?c = (r3, h)" by (cases "D (ze_hist ?s2) ?c")
  have "vmm_ok D (?s2\<lparr>ze_hist := ?c # ze_hist ?s2\<rparr>)" if "r3 \<noteq> ZE_RESULT_SUCCESS"
    by (rule vmm_ok_failed [OF s2]) (use that res in simp_all)
  moreover have "vmm_ok D (?s2\<lparr>ze_hist := ?c # ze_hist ?s2, physical := physical ?s2 @ [\<lparr>phy_owner = owner, phy_handle = h, phy_bytes = bytes, phy_page = page\<rparr>]\<rparr>)"
    if "r3 = ZE_RESULT_SUCCESS"
    by (rule vmm_ok_created [OF assms(1) s2]) (use that res in \<open>simp_all add: phys_entry_def\<close>)
  ultimately show ?thesis
    using args page node res assms(2) s1 s2 by (auto simp: vmm_create_def ze_ask_def Let_def)
qed

lemma destroy_ok:
  assumes "vmm_ok D s"
  shows "vmm_ok D (snd (vmm_destroy D owner h s))"
proof (cases "vmm_physical_of owner h s")
  case None
  then show ?thesis using assms by (simp add: vmm_destroy_def)
next
  case (Some p)
  note p = physical_of [OF Some]
  let ?x = "vo_context owner" and ?c = "ZeDestroy (vo_context owner) h"
  show ?thesis
  proof (cases "\<exists>m \<in> set (mappings_of s). vo_context (mpg_owner m) = ?x \<and> mpg_handle m = h")
    case True
    then show ?thesis using assms Some by (simp add: vmm_destroy_def)
  next
    case False
    have "phys_entry p \<in> dev_physical D (ze_hist s)" "dev_mapped D (ze_hist s) = map_entry ` set (mappings_of s)"
      using assms p by (simp_all add: vmm_ok_def mirrors_def)
    then have legal: "ze_legal D (ze_hist s) ?c"
      using p False by (auto simp: phys_entry_def map_entry_def)
    have "vmm_ok D (s\<lparr>ze_hist := ?c # ze_hist s, physical := remove1 p (physical s)\<rparr>)" if "fst (D (ze_hist s) ?c) = ZE_RESULT_SUCCESS"
      by (rule vmm_ok_destroyed [OF assms that legal]) (use p in simp_all)
    moreover have "vmm_ok D (s\<lparr>ze_hist := ?c # ze_hist s\<rparr>)" if "fst (D (ze_hist s) ?c) \<noteq> ZE_RESULT_SUCCESS"
      by (rule vmm_ok_failed [OF assms legal that])
    ultimately show ?thesis
      using Some False by (auto simp: vmm_destroy_def ze_ask_def Let_def case_prod_unfold)
  qed
qed

lemma map_step_ok:
  assumes "vmm_ok D s"
  shows "vmm_ok D (snd (vmm_map D owner a n h off flags s))"
proof (cases "flags = 0 \<and> valid_range a n \<and> vmm_reservation_at owner a n s \<noteq> None \<and> vmm_physical_of owner h s \<noteq> None")
  case False
  then show ?thesis using assms by (auto simp: vmm_map_def split: option.splits)
next
  case True
  then obtain r p where f: "vmm_reservation_at owner a n s = Some r" "vmm_physical_of owner h s = Some p" by blast
  note r = reservation_at [OF f(1)] and p = physical_of [OF f(2)]
  let ?x = "vo_context owner"
  let ?s1 = "s\<lparr>ze_hist := ListNode # ze_hist s\<rparr>" and ?c = "ZeMap (vo_context owner) a n h off"
  let ?m = "\<lparr>mpg_owner = owner, mpg_address = a, mpg_bytes = n, mpg_handle = h, mpg_offset = off, mpg_cleanup_address = 0, mpg_cleanup_bytes = 0\<rparr>"
  have s1: "vmm_ok D ?s1" by (rule vmm_ok_query(2) [OF assms])
  show ?thesis
  proof (cases "n \<le> phy_bytes p \<and> off \<le> phy_bytes p - n \<and> (\<forall>m \<in> set (mappings_of s). \<not> map_conflict owner a n m)")
    case False
    then show ?thesis using True f assms by (auto simp: vmm_map_def not_less)
  next
    case ok: True
    then have le: "n \<le> phy_bytes p" by simp
    from unat_sub [OF le] have "unat off \<le> unat (phy_bytes p) - unat n" using ok by (simp add: word_le_nat_alt)
    then have fits: "unat off + unat n \<le> unat (phy_bytes p)" using le by (simp add: word_le_nat_alt)
    have mok: "map_ok (reservations s) (physical s) ?m" using r p fits by (auto simp: map_ok_def)
    have free: "cells a n \<inter> cells (mpg_address m) (mpg_bytes m) = {}"
      if "m \<in> set (mappings_of s)" "vo_context (mpg_owner m) = ?x" for m
    proof -
      have "map_ok (reservations s) (physical s) m" using assms that(1) by (simp add: vmm_ok_def)
      then have "range_overlaps a n (mpg_address m) (mpg_bytes m) \<longleftrightarrow> cells a n \<inter> cells (mpg_address m) (mpg_bytes m) \<noteq> {}"
        using True by (intro range_overlaps_iff map_ok_valid) auto
      then show ?thesis using ok that by (auto simp: map_conflict_def)
    qed
    have "cells a n \<subseteq> cells (rsv_outer r) (rsv_outer_bytes r)"
    proof -
      have "cells (rsv_address r) (rsv_bytes r) \<subseteq> cells (rsv_outer r) (rsv_outer_bytes r)"
        using assms r by (auto simp: vmm_ok_def res_ok_def cells_def)
      then show ?thesis using r range_contains_cells by blast
    qed
    moreover have "res_entry r \<in> dev_reserved D (ze_hist ?s1)" "phys_entry p \<in> dev_physical D (ze_hist ?s1)"
      using assms r p by (simp_all add: vmm_ok_def mirrors_def)
    then have "(?x, rsv_outer r, rsv_outer_bytes r) \<in> dev_reserved D (ze_hist ?s1)" "(?x, h, phy_bytes p) \<in> dev_physical D (ze_hist ?s1)"
      using r p by (simp_all add: res_entry_def phys_entry_def)
    moreover have "\<forall>b k q off'. (?x, b, k, q, off') \<in> dev_mapped D (ze_hist ?s1) \<longrightarrow> cells a n \<inter> cells b k = {}"
      using free by (intro allI impI) (rule mapped_disjoint [OF s1], assumption, simp)
    moreover have "n \<noteq> 0" using True by (simp add: valid_range_def)
    ultimately have legal: "ze_legal D (ze_hist ?s1) ?c"
      using fits unfolding ze_legal.simps by blast
    have "vmm_ok D (?s1\<lparr>ze_hist := ?c # ze_hist ?s1, mappings_of := mappings_of ?s1 @ [?m]\<rparr>)" if "fst (D (ze_hist ?s1) ?c) = ZE_RESULT_SUCCESS"
      by (rule vmm_ok_mapped [OF s1 that legal]) (use mok in \<open>simp_all add: map_entry_def\<close>)
    moreover have "vmm_ok D (?s1\<lparr>ze_hist := ?c # ze_hist ?s1\<rparr>)" if "fst (D (ze_hist ?s1) ?c) \<noteq> ZE_RESULT_SUCCESS"
      by (rule vmm_ok_failed [OF s1 legal that])
    ultimately show ?thesis
      using True f assms s1 by (auto simp: vmm_map_def ze_ask_def Let_def case_prod_unfold)
  qed
qed

subsection \<open>Access\<close>

definition parts :: "vmm_owner \<Rightarrow> u64 \<Rightarrow> u64 \<Rightarrow> vmm_mapping list \<Rightarrow> vmm_mapping list" where
  "parts owner a n ms = filter (\<lambda>m. mpg_owner m = owner \<and> range_overlaps a n (mpg_address m) (mpg_bytes m)) ms"

abbreviation area :: "vmm_mapping \<Rightarrow> nat set" where "area m \<equiv> cells (mpg_address m) (mpg_bytes m)"

text \<open>The parts are disjoint, so their bytes add up to the size of what they cover.\<close>

lemma covered_parts:
  assumes "sorted_wrt map_apart ms" "covered_bytes owner a n ms = Some t"
  shows "(\<forall>m \<in> set (parts owner a n ms). range_contains a n (mpg_address m) (mpg_bytes m)) \<and>
    t = of_nat (card (\<Union>(area ` set (parts owner a n ms))))"
  using assms
proof (induction ms arbitrary: t)
  case (Cons m ms)
  show ?case
  proof (cases "mpg_owner m = owner \<and> range_overlaps a n (mpg_address m) (mpg_bytes m)")
    case False
    then show ?thesis using Cons by (auto simp: parts_def split: if_splits)
  next
    case True
    then obtain k where k: "covered_bytes owner a n ms = Some k" "t = mpg_bytes m + k"
      "range_contains a n (mpg_address m) (mpg_bytes m)"
      using Cons.prems(2) by (auto split: if_splits)
    let ?U = "\<Union>(area ` set (parts owner a n ms))"
    have IH: "\<forall>m \<in> set (parts owner a n ms). range_contains a n (mpg_address m) (mpg_bytes m)" "k = of_nat (card ?U)"
      using Cons.IH [OF _ k(1)] Cons.prems(1) by simp_all
    have p: "parts owner a n (m # ms) = m # parts owner a n ms" using True by (simp add: parts_def)
    have "area m \<inter> area x = {}" if "x \<in> set (parts owner a n ms)" for x
      using Cons.prems(1) that True by (auto simp: parts_def map_apart_def)
    then have disj: "area m \<inter> ?U = {}" by blast
    have fin: "finite (area m)" "finite ?U" by (simp_all add: cells_def)
    have "card (area m \<union> ?U) = card (area m) + card ?U" by (rule card_Un_disjoint [OF fin disj])
    moreover have "card (area m) = unat (mpg_bytes m)" by (simp add: cells_def)
    ultimately have "of_nat (card (area m \<union> ?U)) = t" using IH(2) k(2) by simp
    then show ?thesis unfolding p using IH(1) k(3) by simp
  qed
qed (simp add: parts_def)

lemma covered_cells:
  assumes "sorted_wrt map_apart (mappings_of s)" "vmm_covered owner a n s"
  shows "cells a n = \<Union>(area ` set (parts owner a n (mappings_of s)))"
proof -
  let ?U = "\<Union>(area ` set (parts owner a n (mappings_of s)))"
  note c = covered_parts [OF assms(1) assms(2) [unfolded vmm_covered_def]]
  have sub: "?U \<subseteq> cells a n" using c range_contains_cells by blast
  have fin: "finite (cells a n)" "card (cells a n) = unat n" by (simp_all add: cells_def)
  then have "card ?U \<le> unat n" using card_mono [OF fin(1) sub] by simp
  moreover have "unat n < 2 ^ 64" using unsigned_less [of n] by simp
  ultimately have "unat (of_nat (card ?U) :: u64) = card ?U" by (simp add: unat_of_nat)
  then have "card ?U = card (cells a n)" using c fin(2) by simp
  then show ?thesis using card_subset_eq [OF fin(1) sub] by simp
qed

lemma access_ok:
  assumes "vmm_ok D s"
  shows "vmm_ok D (snd (vmm_access D owner a n s))"
proof (cases "valid_range a n \<and> vmm_covered owner a n s")
  case False
  then show ?thesis using assms by (auto simp: vmm_access_def)
next
  case True
  let ?x = "vo_context owner"
  have "cells a n = \<Union>(area ` set (parts owner a n (mappings_of s)))"
    using covered_cells assms True by (simp add: vmm_ok_def)
  moreover have "area m \<subseteq> (\<Union>(y, b, k, p, off) \<in> dev_mapped D (ze_hist s). if y = ?x then cells b k else {})"
    if "m \<in> set (parts owner a n (mappings_of s))" for m
  proof -
    have "map_entry m \<in> dev_mapped D (ze_hist s)" using assms that by (auto simp: parts_def vmm_ok_def mirrors_def)
    then have "(?x, mpg_address m, mpg_bytes m, mpg_handle m, mpg_offset m) \<in> dev_mapped D (ze_hist s)"
      using that by (simp add: parts_def map_entry_def)
    then show ?thesis by (intro UN_upper [THEN subset_trans [rotated]]) auto
  qed
  ultimately have "ze_legal D (ze_hist s) (ZeAccess ?x a n)" by auto
  then have "vmm_ok D (s\<lparr>ze_hist := ZeAccess ?x a n # ze_hist s\<rparr>)" by (intro vmm_ok_call [OF assms]) simp_all
  then show ?thesis using True by (simp add: vmm_access_def ze_ask_def Let_def case_prod_unfold)
qed

subsection \<open>Unmapping\<close>

lemma mark_sel [simp]:
  "mpg_owner (unmap_mark owner a n m) = mpg_owner m" "mpg_address (unmap_mark owner a n m) = mpg_address m"
  "mpg_bytes (unmap_mark owner a n m) = mpg_bytes m" "map_entry (unmap_mark owner a n m) = map_entry m"
  by (simp_all add: unmap_mark_def map_entry_def)

lemma vmm_ok_marked:
  assumes "vmm_ok D s"
  shows "vmm_ok D (s\<lparr>mappings_of := map (unmap_mark owner a n) (mappings_of s)\<rparr>)"
proof -
  have "map_ok rs ps (unmap_mark owner a n m)" if "map_ok rs ps m" for rs ps m
    using that by (auto simp: map_ok_def unmap_mark_def)
  moreover have "map_apart (unmap_mark owner a n m) (unmap_mark owner a n k) = map_apart m k" for m k
    by (simp add: map_apart_def)
  ultimately show ?thesis
    using assms by (auto simp: vmm_ok_def mirrors_def sorted_wrt_map image_image)
qed

lemma vmm_ok_unmapped:
  assumes "vmm_ok D s" "mappings_of s = pre @ m # ms" "vo_context (mpg_owner m) = x"
    "fst (D (ze_hist s) (ZeUnmap x (mpg_address m) (mpg_bytes m))) = ZE_RESULT_SUCCESS"
  shows "vmm_ok D (s\<lparr>ze_hist := ZeUnmap x (mpg_address m) (mpg_bytes m) # ze_hist s, mappings_of := pre @ ms\<rparr>)"
proof -
  have sorted: "sorted_wrt map_apart (pre @ m # ms)" using assms(1,2) by (simp add: vmm_ok_def)
  have mok: "map_ok (reservations s) (physical s) k" if "k \<in> set (pre @ m # ms)" for k
    using assms(1,2) that by (auto simp: vmm_ok_def)
  have others: "\<not> (vo_context (mpg_owner k) = x \<and> mpg_address k = mpg_address m \<and> mpg_bytes k = mpg_bytes m)"
    if "k \<in> set (pre @ ms)" for k
  proof -
    have "map_apart k m" using sorted that apart_sym(3) by (auto simp: sorted_wrt_append)
    moreover have "area m \<noteq> {}" using cells_nonempty [OF map_ok_valid [OF mok]] by simp
    ultimately show ?thesis using assms(3) by (auto simp: map_apart_def)
  qed
  have "{q \<in> map_entry ` set (pre @ m # ms). \<not> (fst q = x \<and> fst (snd q) = mpg_address m \<and> fst (snd (snd q)) = mpg_bytes m)} =
      map_entry ` set (pre @ ms)"
    using others assms(3) by (auto simp: map_entry_def)
  moreover have "map_entry m \<in> dev_mapped D (ze_hist s)" using assms(1,2) by (simp add: vmm_ok_def mirrors_def)
  then have "ze_legal D (ze_hist s) (ZeUnmap x (mpg_address m) (mpg_bytes m))" using assms(3) by (auto simp: map_entry_def)
  moreover have "sorted_wrt map_apart (pre @ ms)" using sorted by (auto simp: sorted_wrt_append)
  ultimately show ?thesis
    using assms(1,2,4) mok by (simp add: vmm_ok_def mirrors_def)
qed

lemma upd_swap: "s\<lparr>mappings_of := ms, ze_hist := h\<rparr> = s\<lparr>ze_hist := h, mappings_of := ms\<rparr>"
  by simp

lemma unmap_all_ok:
  assumes "vmm_ok D (s\<lparr>ze_hist := h, mappings_of := pre @ ms\<rparr>)" "unmap_all D owner a n ms h = (r, ms', h')"
  shows "vmm_ok D (s\<lparr>ze_hist := h', mappings_of := pre @ ms'\<rparr>)"
  using assms
proof (induction ms arbitrary: pre h ms' h' r)
  case (Cons m ms)
  let ?c = "ZeUnmap (vo_context owner) (mpg_address m) (mpg_bytes m)"
  let ?s = "s\<lparr>ze_hist := h, mappings_of := pre @ m # ms\<rparr>"
  show ?case
  proof (cases "unmap_marked owner a n m")
    case False
    then obtain ms'' where "unmap_all D owner a n ms h = (r, ms'', h')" "ms' = m # ms''"
      using Cons.prems(2) by (auto split: prod.splits)
    then show ?thesis using Cons.IH [of "pre @ [m]" h r ms'' h'] Cons.prems(1) by simp
  next
    case True
    then have owner: "mpg_owner m = owner" by (simp add: unmap_marked_def)
    show ?thesis
    proof (cases "fst (D h ?c) = ZE_RESULT_SUCCESS")
      case ok: True
      have "vmm_ok D (s\<lparr>ze_hist := ?c # h, mappings_of := pre @ ms\<rparr>)"
        using vmm_ok_unmapped [OF Cons.prems(1), of pre m ms "vo_context owner"] owner ok by simp
      then show ?thesis using Cons.IH Cons.prems(2) True ok by (simp add: Let_def)
    next
      case False
      have "map_entry m \<in> dev_mapped D h" using Cons.prems(1) by (simp add: vmm_ok_def mirrors_def)
      then have "ze_legal D h ?c" using owner by (auto simp: map_entry_def)
      then have "vmm_ok D (?s\<lparr>ze_hist := ?c # h\<rparr>)" using vmm_ok_failed [OF Cons.prems(1), of ?c] False by simp
      then show ?thesis using Cons.prems(2) True False by (auto simp: Let_def upd_swap)
    qed
  qed
qed simp

lemma unmap_ok:
  assumes "vmm_ok D s"
  shows "vmm_ok D (snd (vmm_unmap D owner a n s))"
proof -
  let ?ms = "map (unmap_mark owner a n) (mappings_of s)"
  obtain r ms' h' where u: "unmap_all D owner a n ?ms (ze_hist s) = (r, ms', h')" by (metis prod_cases3)
  have "vmm_ok D (s\<lparr>ze_hist := h', mappings_of := [] @ ms'\<rparr>)"
    by (rule unmap_all_ok [OF _ u]) (use vmm_ok_marked [OF assms, of owner a n] in simp)
  then show ?thesis using assms u by (auto simp: vmm_unmap_def upd_swap)
qed

lemma vmm_step_ok: "ze_contract D \<Longrightarrow> vmm_step D s t \<Longrightarrow> vmm_ok D s \<Longrightarrow> vmm_ok D t"
  by (erule vmm_step.cases)
    (metis reserve_ok free_ok create_ok map_step_ok access_ok unmap_ok destroy_ok snd_conv)+

lemma vmm_reachable_ok: "vmm_reachable D s \<Longrightarrow> ze_contract D \<Longrightarrow> vmm_ok D s"
  by (induction rule: vmm_reachable.induct)
    (simp add: vmm_ok_def mirrors_def vmm_empty_def, blast intro: vmm_step_ok)

subsection \<open>Retrying\<close>

definition inside :: "vmm_owner \<Rightarrow> u64 \<Rightarrow> u64 \<Rightarrow> vmm_mapping \<Rightarrow> bool" where
  "inside owner a n m \<longleftrightarrow> mpg_owner m = owner \<and> range_contains a n (mpg_address m) (mpg_bytes m)"

lemma unmap_all_done:
  "(\<And>h b k. fst (D h (ZeUnmap (vo_context owner) b k)) = ZE_RESULT_SUCCESS) \<Longrightarrow>
    \<exists>h'. unmap_all D owner a n ms h = (ZE_RESULT_SUCCESS, filter (\<lambda>m. \<not> unmap_marked owner a n m) ms, h')"
proof (induction ms arbitrary: h)
  case (Cons m ms)
  then obtain h' where "unmap_all D owner a n ms (if unmap_marked owner a n m then ZeUnmap (vo_context owner) (mpg_address m) (mpg_bytes m) # h else h) =
      (ZE_RESULT_SUCCESS, filter (\<lambda>m. \<not> unmap_marked owner a n m) ms, h')" by metis
  then show ?case using Cons.prems by (auto simp: Let_def)
qed simp

lemma unmap_all_result:
  assumes "unmap_all D owner a n ms h = (r, ms', h')"
  shows "set ms' \<subseteq> set ms" "filter (\<lambda>m. \<not> unmap_marked owner a n m) ms' = filter (\<lambda>m. \<not> unmap_marked owner a n m) ms"
    "r = ZE_RESULT_SUCCESS \<longleftrightarrow> \<not> (\<exists>m \<in> set ms'. unmap_marked owner a n m)"
proof -
  have "set ms' \<subseteq> set ms \<and> filter (\<lambda>m. \<not> unmap_marked owner a n m) ms' = filter (\<lambda>m. \<not> unmap_marked owner a n m) ms \<and>
      (r = ZE_RESULT_SUCCESS \<longleftrightarrow> \<not> (\<exists>m \<in> set ms'. unmap_marked owner a n m))"
    using assms
    by (induction ms arbitrary: h r ms' h') (simp, fastforce simp: Let_def split: if_splits prod.splits)
  then show "set ms' \<subseteq> set ms" "filter (\<lambda>m. \<not> unmap_marked owner a n m) ms' = filter (\<lambda>m. \<not> unmap_marked owner a n m) ms"
    "r = ZE_RESULT_SUCCESS \<longleftrightarrow> \<not> (\<exists>m \<in> set ms'. unmap_marked owner a n m)" by blast+
qed

lemma mark_again: "unmap_mark owner a n (unmap_mark owner a n m) = unmap_mark owner a n m"
  by (simp add: unmap_mark_def)

text \<open>After the marking, exactly the mappings inside the range are marked.\<close>

lemma marked_inside:
  assumes "map_ok rs ps m" "n \<noteq> 0"
  shows "unmap_marked owner a n (unmap_mark owner a n m) \<longleftrightarrow> inside owner a n m"
  using assms by (auto simp: unmap_marked_def unmap_mark_def inside_def map_ok_def)

lemma marked_within: "map_ok rs ps m \<Longrightarrow> n \<noteq> 0 \<Longrightarrow> unmap_marked owner a n m \<Longrightarrow> inside owner a n m"
  by (auto simp: unmap_marked_def inside_def map_ok_def)

lemma mark_outside: "\<not> inside owner a n m \<Longrightarrow> unmap_mark owner a n m = m"
  by (auto simp: unmap_mark_def inside_def)

lemma outside_kept:
  assumes "vmm_ok D s" "n \<noteq> 0"
  shows "filter (\<lambda>m. \<not> unmap_marked owner a n m) (map (unmap_mark owner a n) (mappings_of s)) = filter (\<lambda>m. \<not> inside owner a n m) (mappings_of s)"
proof -
  have "\<forall>m \<in> set ms. map_ok (reservations s) (physical s) m \<Longrightarrow>
      filter (\<lambda>m. \<not> unmap_marked owner a n m) (map (unmap_mark owner a n) ms) = filter (\<lambda>m. \<not> inside owner a n m) ms" for ms
    by (induction ms) (auto simp: marked_inside [OF _ assms(2)] mark_outside dest: marked_within [OF _ assms(2)])
  then show ?thesis using assms(1) by (simp add: vmm_ok_def)
qed

text \<open>An unmap that has reached the driver has passed every check.\<close>

lemma unmap_entered:
  assumes "vmm_unmap D owner a n s = (r, t)" "r = ZE_RESULT_SUCCESS \<or> ze_hist t \<noteq> ze_hist s"
  obtains ms' h' where "valid_range a n" "vmm_reservation_at owner a n s \<noteq> None" "\<forall>m \<in> set (mappings_of s). \<not> unmap_conflict owner a n m"
    "unmap_all D owner a n (map (unmap_mark owner a n) (mappings_of s)) (ze_hist s) = (r, ms', h')" "t = s\<lparr>ze_hist := h', mappings_of := ms'\<rparr>"
proof -
  obtain r' ms' h' where u: "unmap_all D owner a n (map (unmap_mark owner a n) (mappings_of s)) (ze_hist s) = (r', ms', h')"
    by (metis prod_cases3)
  let ?ok = "valid_range a n \<and> vmm_reservation_at owner a n s \<noteq> None \<and> (\<forall>m \<in> set (mappings_of s). \<not> unmap_conflict owner a n m) \<and>
    ((\<exists>m \<in> set (mappings_of s). unmap_marked owner a n m) \<or> vmm_covered owner a n s)"
  have eq: "vmm_unmap D owner a n s =
      (if ?ok then (r', s\<lparr>ze_hist := h', mappings_of := ms'\<rparr>) else (ZE_RESULT_ERROR_INVALID_ARGUMENT, s))"
    unfolding vmm_unmap_def u by (simp add: upd_swap)
  have ok: ?ok using assms unfolding eq by (auto split: if_splits)
  then have "r = r'" "t = s\<lparr>ze_hist := h', mappings_of := ms'\<rparr>" using assms(1) unfolding eq by simp_all
  then show thesis using that [of ms' h'] ok u by simp
qed

lemma unmap_done:
  assumes "vmm_ok D s" "vmm_unmap D owner a n s = (ZE_RESULT_SUCCESS, t)"
  shows "mappings_of t = filter (\<lambda>m. \<not> inside owner a n m) (mappings_of s)"
proof -
  obtain ms' h' where u: "valid_range a n"
    "unmap_all D owner a n (map (unmap_mark owner a n) (mappings_of s)) (ze_hist s) = (ZE_RESULT_SUCCESS, ms', h')"
    "t = s\<lparr>ze_hist := h', mappings_of := ms'\<rparr>"
    by (rule unmap_entered [OF assms(2)]) simp_all
  note res = unmap_all_result [OF u(2)]
  have "ms' = filter (\<lambda>m. \<not> unmap_marked owner a n m) ms'" using res(3) by (simp add: filter_id_conv)
  also have "\<dots> = filter (\<lambda>m. \<not> inside owner a n m) (mappings_of s)"
    unfolding res(2) by (rule outside_kept [OF assms(1)]) (use u(1) in \<open>simp add: valid_range_def\<close>)
  finally show ?thesis using u(3) by simp
qed

lemma unmap_again:
  assumes "vmm_ok D s" "vmm_unmap D owner a n s = (r, t)" "r \<noteq> ZE_RESULT_SUCCESS" "ze_hist t \<noteq> ze_hist s"
    "\<And>h b k. fst (D' h (ZeUnmap (vo_context owner) b k)) = ZE_RESULT_SUCCESS"
  shows "\<exists>u. vmm_unmap D' owner a n t = (ZE_RESULT_SUCCESS, u) \<and> mappings_of u = filter (\<lambda>m. \<not> inside owner a n m) (mappings_of s)"
proof -
  obtain ms' h' where u: "valid_range a n" "vmm_reservation_at owner a n s \<noteq> None" "\<forall>m \<in> set (mappings_of s). \<not> unmap_conflict owner a n m"
    "unmap_all D owner a n (map (unmap_mark owner a n) (mappings_of s)) (ze_hist s) = (r, ms', h')"
    "t = s\<lparr>ze_hist := h', mappings_of := ms'\<rparr>"
    by (rule unmap_entered [OF assms(2)]) (use assms(4) in simp_all)
  note res = unmap_all_result [OF u(4)]
  have n: "n \<noteq> 0" using u(1) by (simp add: valid_range_def)
  have calm: "\<not> unmap_conflict owner a n (unmap_mark owner a n m)" if "\<not> unmap_conflict owner a n m" for m
    using that by (auto simp: unmap_conflict_def unmap_mark_def)
  have from_s: "\<exists>k \<in> set (mappings_of s). m = unmap_mark owner a n k" if "m \<in> set ms'" for m
    using res(1) that by (simp only: set_map) blast
  have again: "map (unmap_mark owner a n) ms' = ms'"
  proof (rule map_idI)
    show "unmap_mark owner a n m = m" if "m \<in> set ms'" for m using from_s [OF that] mark_again by metis
  qed
  have "\<forall>m \<in> set ms'. \<not> unmap_conflict owner a n m" using from_s u(3) calm by metis
  moreover have "vmm_reservation_at owner a n t \<noteq> None" using u(2,5) by (simp add: vmm_reservation_at_def)
  moreover have "\<exists>m \<in> set ms'. unmap_marked owner a n m" using res(3) assms(3) by blast
  moreover obtain h'' where "unmap_all D' owner a n ms' h' = (ZE_RESULT_SUCCESS, filter (\<lambda>m. \<not> unmap_marked owner a n m) ms', h'')"
    using unmap_all_done [of D' owner, OF assms(5)] by metis
  ultimately show ?thesis
    using u(1,5) again outside_kept [OF assms(1) n, of owner a] unfolding res(2) by (simp add: vmm_unmap_def)
qed

text \<open>Meanwhile nothing is mapped over the range.\<close>

lemma map_refused:
  assumes "vmm_unmap D owner a n s = (r, t)" "r \<noteq> ZE_RESULT_SUCCESS" "ze_hist t \<noteq> ze_hist s"
    "vo_context owner' = vo_context owner" "range_overlaps b k a n"
  shows "fst (vmm_map D' owner' b k h off flags t) \<noteq> ZE_RESULT_SUCCESS"
proof -
  obtain ms' h' where u: "valid_range a n"
    "unmap_all D owner a n (map (unmap_mark owner a n) (mappings_of s)) (ze_hist s) = (r, ms', h')"
    "t = s\<lparr>ze_hist := h', mappings_of := ms'\<rparr>"
    by (rule unmap_entered [OF assms(1)]) (use assms(3) in simp_all)
  then obtain m where m: "m \<in> set (mappings_of t)" "unmap_marked owner a n m"
    using unmap_all_result(3) [OF u(2)] assms(2) by auto
  then have "map_conflict owner' b k m"
    using assms(4,5) u(1) by (auto simp: map_conflict_def unmap_marked_def valid_range_def)
  then have "\<exists>m \<in> set (mappings_of t). map_conflict owner' b k m" using m(1) by blast
  then show ?thesis by (simp add: vmm_map_def split: option.split)
qed

end
