(* ===== verification/DemoVmm.thy ===== *)
theory DemoVmm
  imports VmmInv
begin

unbundle bit_operations_syntax

text \<open>
  Concrete states of the memory manager for the witnesses: a driver that gives out ranges in steps of
  2^40 bytes and numbered handles, and may be unable to unmap; one page mapped in a reservation of two.
\<close>

definition page_drv :: "bool \<Rightarrow> ze_api" where
  "page_drv stuck h c = (case c of
     ZePageSize x d n \<Rightarrow> (ZE_RESULT_SUCCESS, 65536)
   | ZeReserve x n \<Rightarrow> if length h < 1024 \<and> n \<le> 1099511627776 then (ZE_RESULT_SUCCESS, of_nat ((length h + 1) * 1099511627776)) else (ZeResult 1, 0)
   | ZeCreate x d n \<Rightarrow> if length h < 1024 then (ZE_RESULT_SUCCESS, of_nat (length h + 1)) else (ZeResult 1, 0)
   | ZeUnmap x a n \<Rightarrow> (if stuck then ZeResult 1 else ZE_RESULT_SUCCESS, 0)
   | _ \<Rightarrow> (ZE_RESULT_SUCCESS, 0))"

lemma page_address: "k < 1024 \<Longrightarrow> unat (of_nat ((k + 1) * 1099511627776) :: u64) = (k + 1) * 1099511627776"
  by (simp add: unat_of_nat del: of_nat_mult of_nat_add of_nat_Suc)

lemma page_handle: "k < 1024 \<Longrightarrow> unat (of_nat (k + 1) :: u64) = k + 1"
  by (simp add: unat_of_nat del: of_nat_add of_nat_Suc)

lemma page_reserve:
  assumes "page_drv b h (ZeReserve x n) = (ZE_RESULT_SUCCESS, a)"
  shows "length h < 1024" "unat n \<le> 1099511627776" "unat a = (length h + 1) * 1099511627776"
  using assms page_address [of "length h"] by (auto simp: page_drv_def word_le_nat_alt split: if_splits)

lemma page_reserved: "(x, a, n) \<in> dev_reserved (page_drv b) h \<Longrightarrow> unat a + unat n \<le> (length h + 1) * 1099511627776"
proof (induction h)
  case (Cons c h)
  show ?case
  proof (cases "\<exists>y k. c = ZeReserve y k \<and> fst (page_drv b h c) = ZE_RESULT_SUCCESS")
    case True
    then obtain y k v where c: "c = ZeReserve y k" "page_drv b h (ZeReserve y k) = (ZE_RESULT_SUCCESS, v)" by (metis prod.collapse)
    then have "(x, a, n) = (y, v, k) \<or> (x, a, n) \<in> dev_reserved (page_drv b) h" using Cons.prems by simp
    then show ?thesis using Cons.IH page_reserve [OF c(2)] by auto
  next
    case False
    then have "(x, a, n) \<in> dev_reserved (page_drv b) h" using Cons.prems by (cases c) (auto split: if_splits prod.splits)
    then show ?thesis using Cons.IH by simp
  qed
qed simp

lemma page_create:
  assumes "page_drv b h (ZeCreate x d n) = (ZE_RESULT_SUCCESS, p)"
  shows "length h < 1024" "unat p = length h + 1"
  using assms page_handle [of "length h"] by (auto simp: page_drv_def split: if_splits)

lemma page_physical: "(x, p, n) \<in> dev_physical (page_drv b) h \<Longrightarrow> unat p \<le> length h"
proof (induction h)
  case (Cons c h)
  show ?case
  proof (cases "\<exists>y d k. c = ZeCreate y d k \<and> fst (page_drv b h c) = ZE_RESULT_SUCCESS")
    case True
    then obtain y d k v where c: "c = ZeCreate y d k" "page_drv b h (ZeCreate y d k) = (ZE_RESULT_SUCCESS, v)" by (metis prod.collapse)
    then have "(x, p, n) = (y, v, k) \<or> (x, p, n) \<in> dev_physical (page_drv b) h" using Cons.prems by simp
    then show ?thesis using Cons.IH page_create [OF c(2)] by auto
  next
    case False
    then have "(x, p, n) \<in> dev_physical (page_drv b) h" using Cons.prems by (cases c) (auto split: if_splits prod.splits)
    then show ?thesis using Cons.IH by simp
  qed
qed simp

lemma page_contract [simp]: "ze_contract (page_drv b)"
  unfolding ze_contract_def
proof (intro conjI allI impI, goal_cases)
  case (1 h x n a)
  show ?case using page_reserve [OF 1] by simp
next
  case (2 h x n a c m)
  show ?case using page_reserve [OF 2(1)] page_reserved [OF 2(2)] by (auto simp: cells_def)
next
  case (3 h x d n p m)
  show ?case using page_create [OF 3] page_physical [of x p m b h] by auto
next
  case (4 h h' x d k page n a)
  have "unat page = 65536" using 4(1) by (auto simp: page_drv_def)
  then show ?case using page_reserve(3) [OF 4(3)] by simp
qed

definition demo_owner :: vmm_owner where
  "demo_owner = \<lparr>vo_id = 0, vo_context = 1, vo_device = 2\<rparr>"

definition demo_reserved :: vmm where
  "demo_reserved = \<lparr>ze_hist = [ZeReserve 1 131072, ListNode, ZePageSize 1 2 131072],
     reservations = [\<lparr>rsv_owner = demo_owner, rsv_address = 3298534883328, rsv_bytes = 131072, rsv_outer = 3298534883328,
       rsv_outer_bytes = 131072, rsv_page = 65536\<rparr>], physical = [], mappings_of = []\<rparr>"

definition demo_created :: vmm where
  "demo_created = demo_reserved\<lparr>ze_hist := [ZeCreate 1 2 65536, ListNode, ZePageSize 1 2 65536] @ ze_hist demo_reserved,
     physical := [\<lparr>phy_owner = demo_owner, phy_handle = 6, phy_bytes = 65536, phy_page = 65536\<rparr>]\<rparr>"

definition demo_mapping :: vmm_mapping where
  "demo_mapping = \<lparr>mpg_owner = demo_owner, mpg_address = 3298534883328, mpg_bytes = 65536, mpg_handle = 6, mpg_offset = 0,
     mpg_cleanup_address = 0, mpg_cleanup_bytes = 0\<rparr>"

definition demo_vmm :: vmm where
  "demo_vmm = demo_created\<lparr>ze_hist := [ZeMap 1 3298534883328 65536 6 0, ListNode] @ ze_hist demo_created, mappings_of := [demo_mapping]\<rparr>"

lemma demo_reserve: "vmm_reserve (page_drv b) demo_owner True 131072 0 0 0 vmm_empty = ((ZE_RESULT_SUCCESS, Some 3298534883328), demo_reserved)"
  by (simp add: vmm_reserve_def ze_ask_def page_drv_def vmm_empty_def Let_def demo_owner_def demo_reserved_def power_of_two_def)

lemma demo_create: "vmm_create (page_drv b) demo_owner True 65536 demo_reserved = ((ZE_RESULT_SUCCESS, Some 6), demo_created)"
  by (simp add: vmm_create_def ze_ask_def page_drv_def Let_def demo_owner_def demo_reserved_def demo_created_def power_of_two_def)

lemma demo_map: "vmm_map (page_drv b) demo_owner 3298534883328 65536 6 0 0 demo_created = (ZE_RESULT_SUCCESS, demo_vmm)"
  by (simp add: vmm_map_def ze_ask_def page_drv_def Let_def demo_owner_def demo_reserved_def demo_created_def demo_vmm_def demo_mapping_def
      vmm_reservation_at_def vmm_physical_of_def range_contains_def valid_range_def)

lemma demo_vmm_reachable [simp]: "vmm_reachable (page_drv b) demo_vmm"
proof -
  have "vmm_reachable (page_drv b) demo_reserved"
    by (rule vmm_reachable.step [OF vmm_reachable.start vmm_step.reserve [OF demo_reserve]])
  then have "vmm_reachable (page_drv b) demo_created" by (rule vmm_reachable.step [OF _ vmm_step.create [OF demo_create]])
  then show ?thesis by (rule vmm_reachable.step [OF _ vmm_step.map [OF demo_map]])
qed

lemma demo_vmm_ok [simp]: "vmm_ok (page_drv b) demo_vmm"
  by (rule vmm_reachable_ok) simp_all

definition demo_stuck :: vmm where
  "demo_stuck = demo_vmm\<lparr>ze_hist := ZeUnmap 1 3298534883328 65536 # ze_hist demo_vmm,
     mappings_of := [demo_mapping\<lparr>mpg_cleanup_address := 3298534883328, mpg_cleanup_bytes := 65536\<rparr>]\<rparr>"

lemma demo_unmap_fails: "vmm_unmap (page_drv True) demo_owner 3298534883328 65536 demo_vmm = (ZeResult 1, demo_stuck)"
  by (simp add: vmm_unmap_def page_drv_def Let_def demo_owner_def demo_reserved_def demo_created_def demo_vmm_def demo_mapping_def demo_stuck_def
      vmm_reservation_at_def range_contains_def valid_range_def range_overlaps_def vmm_covered_def unmap_conflict_def unmap_marked_def unmap_mark_def)

end
