(* ===== verification/RetireQueue.thy ===== *)
theory RetireQueue
  imports Prelude
begin

unbundle bit_operations_syntax

text \<open>
  The registry of consumer queues on XPU (\<open>src-xpu/dispatch.cpp\<close>), which gives out the retirement tokens
  that pages record and reports which of them have completed. A queue is registered in one of 64 slots; uses
  are batched, and a batch is closed by a barrier on the queue, its fence. The fences of a slot complete
  independently.

  SYCL is the parameter \<open>D\<close>: an answer to a call after the calls made so far, or an exception. A queue pointer
  names an underlying queue (\<open>==\<close> of SYCL queues), which is a number. Every operation runs with
  \<open>g_retire_mutex\<close> held except the waits of the reset. Statistics are not modelled.
\<close>

subsection \<open>Data\<close>

datatype rq_call =
    RqQueue u64      \<comment> \<open>of a queue pointer: 1 for Level Zero, native context, native device, underlying queue\<close>
  | RqDevice int     \<comment> \<open>\<open>find_device\<close>: its context and device, nothing when there is none\<close>
  | RqCopy u64       \<comment> \<open>a copy of the queue\<close>
  | RqFence u64      \<comment> \<open>a barrier submitted to the queue: its event\<close>
  | RqStatus u64     \<comment> \<open>of an event: 1 when it is complete\<close>
  | RqWait u64

datatype rq_answer = RqThrows | RqAnswer "u64 list"

type_synonym rq_api = "rq_call list \<Rightarrow> rq_call \<Rightarrow> rq_answer"

abbreviation kMaxTrackedQueues :: nat where "kMaxTrackedQueues \<equiv> 64"
abbreviation kRetireFenceSlots :: nat where "kRetireFenceSlots \<equiv> 8"
abbreviation kRetireBatchUses :: nat where "kRetireBatchUses \<equiv> 64"
abbreviation RETIRE_GENERATION_MASK :: u64 where "RETIRE_GENERATION_MASK \<equiv> 0x1FFFFFFFF"
abbreviation RETIRE_INCARNATION_MASK :: u64 where "RETIRE_INCARNATION_MASK \<equiv> 0xFFFFFF"

record retire_fence =
  fe_event :: u64
  fe_generation :: u64
  fe_valid :: bool

definition no_fence :: retire_fence where
  "no_fence = \<lparr>fe_event = 0, fe_generation = 0, fe_valid = False\<rparr>"

record retire_queue =
  rq_source :: u64
  rq_queue :: "u64 option"
  rq_device :: int
  rq_incarnation :: u64
  rq_context :: u64
  rq_native :: u64
  rq_open :: u64
  rq_retired :: u64
  rq_pending :: nat
  rq_fences :: "retire_fence list"

definition free_queue :: retire_queue where
  "free_queue = \<lparr>rq_source = 0, rq_queue = None, rq_device = - 1, rq_incarnation = 0, rq_context = 0, rq_native = 0,
     rq_open = 1, rq_retired = 0, rq_pending = 0, rq_fences = replicate kRetireFenceSlots no_fence\<rparr>"

record retire_registry =
  rq_hist :: "rq_call list"
  rq_slots :: "nat \<Rightarrow> retire_queue"
  rq_count :: nat
  rq_overflow :: bool
  rq_accepting :: bool
  rq_counter :: u64

definition rq_ask :: "rq_api \<Rightarrow> rq_call \<Rightarrow> retire_registry \<Rightarrow> rq_answer \<times> retire_registry" where
  "rq_ask D c s = (D (rq_hist s) c, s\<lparr>rq_hist := c # rq_hist s\<rparr>)"

definition upd_queue :: "nat \<Rightarrow> (retire_queue \<Rightarrow> retire_queue) \<Rightarrow> retire_registry \<Rightarrow> retire_registry" where
  "upd_queue i f s = s\<lparr>rq_slots := (rq_slots s)(i := f (rq_slots s i))\<rparr>"

subsection \<open>Registration\<close>

definition same_queue :: "int \<Rightarrow> u64 \<Rightarrow> u64 \<Rightarrow> u64 \<Rightarrow> retire_queue \<Rightarrow> bool" where
  "same_queue dev context native q x \<longleftrightarrow> rq_queue x = Some q \<and> rq_device x = dev \<and> rq_context x = context \<and> rq_native x = native"

definition register_slot :: "rq_api \<Rightarrow> u64 \<Rightarrow> int \<Rightarrow> u64 \<Rightarrow> u64 \<Rightarrow> u64 \<Rightarrow> retire_registry \<Rightarrow> nat option \<times> retire_registry" where
  "register_slot D pointer dev context native q s =
     (let i = rq_count s in
      if i \<ge> kMaxTrackedQueues then (None, s\<lparr>rq_overflow := True\<rparr>)
      else if rq_counter s \<ge> RETIRE_INCARNATION_MASK then (None, s)
      else let s = upd_queue i (\<lambda>x. x\<lparr>rq_source := pointer\<rparr>) (s\<lparr>rq_count := i + 1\<rparr>); (r, s) = rq_ask D (RqCopy pointer) s in
        case r of
          RqThrows \<Rightarrow> (None, s)
        | RqAnswer _ \<Rightarrow> let k = rq_counter s + 1 in
            (Some i, upd_queue i (\<lambda>x. x\<lparr>rq_queue := Some q, rq_device := dev, rq_context := context, rq_native := native, rq_incarnation := k\<rparr>)
              (s\<lparr>rq_counter := k\<rparr>)))"

text \<open>The slot of a queue, \<open>None\<close> for \<open>kMaxTrackedQueues\<close>.\<close>

definition aimdo_xpu_note_queue_locked :: "rq_api \<Rightarrow> u64 \<Rightarrow> int \<Rightarrow> retire_registry \<Rightarrow> nat option \<times> retire_registry" where
  "aimdo_xpu_note_queue_locked D pointer dev s =
     (if pointer = 0 \<or> \<not> rq_accepting s then (None, s)
      else let (r, s) = rq_ask D (RqQueue pointer) s in
        case r of
          RqAnswer [backend, context, native, q] \<Rightarrow>
            if backend \<noteq> 1 then (None, s)
            else let (d, s) = rq_ask D (RqDevice dev) s in
              if d \<noteq> RqAnswer [context, native] then (None, s)
              else (case find (\<lambda>i. same_queue dev context native q (rq_slots s i)) [0..<rq_count s] of
                  Some i \<Rightarrow> (Some i, s)
                | None \<Rightarrow> register_slot D pointer dev context native q s)
        | _ \<Rightarrow> (None, s))"

definition aimdo_xpu_register_consumer_queue :: "rq_api \<Rightarrow> u64 \<Rightarrow> int \<Rightarrow> retire_registry \<Rightarrow> bool \<times> retire_registry" where
  "aimdo_xpu_register_consumer_queue D pointer dev s =
     (if pointer = 0 then (False, s)
      else let (i, s) = aimdo_xpu_note_queue_locked D pointer dev s in (i \<noteq> None, s))"

subsection \<open>Fences\<close>

text \<open>The fences that are complete are retired.\<close>

fun poll_fences :: "rq_api \<Rightarrow> retire_fence list \<Rightarrow> u64 \<Rightarrow> rq_call list \<Rightarrow> retire_fence list \<times> u64 \<times> rq_call list" where
  "poll_fences D [] retired h = ([], retired, h)"
| "poll_fences D (f # fs) retired h =
     (if \<not> fe_valid f then let (fs, retired, h) = poll_fences D fs retired h in (f # fs, retired, h)
      else let c = RqStatus (fe_event f); finished = (D h c = RqAnswer [1]);
        (fs, retired, h) = poll_fences D fs (if finished then max retired (fe_generation f) else retired) (c # h)
        in ((if finished then no_fence else f) # fs, retired, h))"

definition poll_retire_queue_locked :: "rq_api \<Rightarrow> nat \<Rightarrow> retire_registry \<Rightarrow> retire_registry" where
  "poll_retire_queue_locked D i s =
     (let (fs, retired, h) = poll_fences D (rq_fences (rq_slots s i)) (rq_retired (rq_slots s i)) (rq_hist s) in
      upd_queue i (\<lambda>x. x\<lparr>rq_fences := fs, rq_retired := retired\<rparr>) (s\<lparr>rq_hist := h\<rparr>))"

definition free_fence :: "retire_fence list \<Rightarrow> nat option" where
  "free_fence fs = find (\<lambda>k. \<not> fe_valid (fs ! k)) [0..<length fs]"

definition submit_retire_fence_locked :: "rq_api \<Rightarrow> nat \<Rightarrow> retire_registry \<Rightarrow> bool \<times> retire_registry" where
  "submit_retire_fence_locked D i s = (let x = rq_slots s i in
     case rq_queue x of
       None \<Rightarrow> (True, s)
     | Some q \<Rightarrow>
         if rq_pending x = 0 then (True, s)
         else case free_fence (rq_fences x) of
           None \<Rightarrow> (False, s)
         | Some k \<Rightarrow> (let (r, s) = rq_ask D (RqFence q) s in
             case r of
               RqAnswer [event] \<Rightarrow> (True, upd_queue i (\<lambda>x. x\<lparr>
                   rq_fences := (rq_fences x)[k := \<lparr>fe_event = event, fe_generation = rq_open x, fe_valid = True\<rparr>],
                   rq_open := rq_open x + 1, rq_pending := 0\<rparr>) s)
             | _ \<Rightarrow> (False, s)))"

subsection \<open>Tokens\<close>

definition aimdo_xpu_retire_token_current :: "rq_api \<Rightarrow> u64 \<Rightarrow> int \<Rightarrow> retire_registry \<Rightarrow> u64 \<times> retire_registry" where
  "aimdo_xpu_retire_token_current D pointer dev s =
     (if pointer = 0 then (0, s)
      else let (i, s) = aimdo_xpu_note_queue_locked D pointer dev s in
        case i of
          None \<Rightarrow> (0, s)
        | Some i \<Rightarrow>
            let s = poll_retire_queue_locked D i s; x = rq_slots s i in
            if rq_open x > RETIRE_GENERATION_MASK then (0, s)
            else let stamp = push_bit 33 (rq_incarnation x) OR (rq_open x AND RETIRE_GENERATION_MASK);
              token = push_bit 7 stamp OR (of_nat i + 1);
              s = upd_queue i (\<lambda>x. x\<lparr>rq_pending := if rq_pending x < kRetireBatchUses then rq_pending x + 1 else rq_pending x\<rparr>) s
              in (token, if rq_pending (rq_slots s i) \<ge> kRetireBatchUses then snd (submit_retire_fence_locked D i s) else s))"

definition slot_stamp :: "retire_queue \<Rightarrow> u64" where
  "slot_stamp x = push_bit 33 (rq_incarnation x) OR (rq_retired x AND RETIRE_GENERATION_MASK)"

fun snapshot_slots :: "rq_api \<Rightarrow> bool \<Rightarrow> nat list \<Rightarrow> retire_registry \<Rightarrow> u64 list \<times> retire_registry" where
  "snapshot_slots D force [] s = ([], s)"
| "snapshot_slots D force (i # is) s =
     (let s = poll_retire_queue_locked D i s;
        s = (if force \<and> rq_pending (rq_slots s i) \<noteq> 0 then snd (submit_retire_fence_locked D i s) else s);
        (stamps, t) = snapshot_slots D force is s in
      (slot_stamp (rq_slots s i) # stamps, t))"

text \<open>The number of slots copied, and the array \<open>completed\<close> of \<open>n\<close> entries.\<close>

definition aimdo_xpu_retire_snapshot :: "rq_api \<Rightarrow> bool \<Rightarrow> nat \<Rightarrow> bool \<Rightarrow> retire_registry \<Rightarrow> (nat \<times> u64 list) \<times> retire_registry" where
  "aimdo_xpu_retire_snapshot D out n force s =
     (if \<not> out \<or> n = 0 then ((0, []), s)
      else let copied = min n (rq_count s); (stamps, s) = snapshot_slots D force [0..<rq_count s] s in
        ((copied, take copied stamps @ replicate (n - copied) 0), s))"

subsection \<open>Reset\<close>

fun wait_queues :: "rq_api \<Rightarrow> u64 list \<Rightarrow> rq_call list \<Rightarrow> bool \<times> rq_call list" where
  "wait_queues D [] h = (True, h)"
| "wait_queues D (q # qs) h = (let (ok, h') = wait_queues D qs (RqWait q # h) in (D h (RqWait q) \<noteq> RqThrows \<and> ok, h'))"

definition aimdo_xpu_retire_reset :: "rq_api \<Rightarrow> retire_registry \<Rightarrow> bool \<times> retire_registry" where
  "aimdo_xpu_retire_reset D s =
     (let s = s\<lparr>rq_accepting := False\<rparr>;
        queues = map the (filter (\<lambda>q. q \<noteq> None) (map (\<lambda>i. rq_queue (rq_slots s i)) [0..<rq_count s]));
        (drained, h) = wait_queues D queues (rq_hist s); s = s\<lparr>rq_hist := h\<rparr> in
      if \<not> drained then (False, s)
      else (True, s\<lparr>rq_slots := (\<lambda>_. free_queue), rq_count := 0, rq_overflow := False\<rparr>))"

subsection \<open>Synchronizing\<close>

text \<open>
  The waits of a synchronization stop at the first that throws. The device is given by its number and the queue
  bound to it; on Windows the code also polls the pending copies afterwards (\<open>CopyResidency\<close>), which is not done here.
\<close>

fun wait_in_turn :: "rq_api \<Rightarrow> u64 list \<Rightarrow> rq_call list \<Rightarrow> bool \<times> rq_call list" where
  "wait_in_turn D [] h = (True, h)"
| "wait_in_turn D (q # qs) h = (if D h (RqWait q) = RqThrows then (False, RqWait q # h) else wait_in_turn D qs (RqWait q # h))"

definition queues_of_device :: "int \<Rightarrow> u64 \<Rightarrow> retire_registry \<Rightarrow> u64 list" where
  "queues_of_device dev bound s = bound # map (\<lambda>i. the (rq_queue (rq_slots s i)))
     (filter (\<lambda>i. rq_queue (rq_slots s i) \<noteq> None \<and> rq_device (rq_slots s i) = dev \<and> rq_queue (rq_slots s i) \<noteq> Some bound) [0..<rq_count s])"

definition xpu_synchronize_device_queues :: "rq_api \<Rightarrow> int \<Rightarrow> u64 \<Rightarrow> retire_registry \<Rightarrow> bool \<times> retire_registry" where
  "xpu_synchronize_device_queues D dev bound s =
     (let (ok, h) = wait_in_turn D (queues_of_device dev bound s) (rq_hist s) in (ok, s\<lparr>rq_hist := h\<rparr>))"

text \<open>\<open>state\<close> is the bound queue of the device that \<open>find_device\<close> finds.\<close>

definition xpu_synchronize_queues :: "rq_api \<Rightarrow> u64 option \<Rightarrow> int \<Rightarrow> u64 \<Rightarrow> retire_registry \<Rightarrow> bool \<times> retire_registry" where
  "xpu_synchronize_queues D state dev pointer s =
     (case state of
       None \<Rightarrow> (False, s)
     | Some bound \<Rightarrow>
         if pointer = 0 then (False, s)
         else let (registered, s) = aimdo_xpu_register_consumer_queue D pointer dev s in
           if \<not> registered then (False, s) else xpu_synchronize_device_queues D dev bound s)"

text \<open>\<open>aimdo_cuda_runtime_init\<close> opens the registry.\<close>

definition retire_accept :: "retire_registry \<Rightarrow> retire_registry" where
  "retire_accept s = s\<lparr>rq_accepting := True\<rparr>"

definition empty_registry :: retire_registry where
  "empty_registry = \<lparr>rq_hist = [], rq_slots = (\<lambda>_. free_queue), rq_count = 0, rq_overflow = False, rq_accepting = False, rq_counter = 0\<rparr>"

inductive rq_step :: "rq_api \<Rightarrow> retire_registry \<Rightarrow> retire_registry \<Rightarrow> bool" for D where
  accept: "rq_step D s (retire_accept s)"
| register: "aimdo_xpu_register_consumer_queue D pointer dev s = (ok, t) \<Longrightarrow> rq_step D s t"
| token: "aimdo_xpu_retire_token_current D pointer dev s = (token, t) \<Longrightarrow> rq_step D s t"
| snapshot: "aimdo_xpu_retire_snapshot D out n force s = (r, t) \<Longrightarrow> rq_step D s t"
| synchronize: "xpu_synchronize_queues D state dev pointer s = (ok, t) \<Longrightarrow> rq_step D s t"
| reset: "aimdo_xpu_retire_reset D s = (ok, t) \<Longrightarrow> rq_step D s t"

definition rq_steps :: "rq_api \<Rightarrow> retire_registry \<Rightarrow> retire_registry \<Rightarrow> bool" where
  "rq_steps D = (rq_step D)\<^sup>*\<^sup>*"

end
