(* ===== verification/RetireInv.thy ===== *)
theory RetireInv
  imports RetireQueue VbarRetire "HOL-Library.Sublist"
begin

unbundle bit_operations_syntax

text \<open>
  A token that the registry gave out and that a page finds complete in a later snapshot (\<open>token_complete\<close>,
  \<open>src/model-vbar.c\<close>) stands for a barrier that was submitted to the queue after the token was given out
  and that has been seen complete. The proof follows one slot from the token on: \<open>since\<close> says that what the
  slot holds of the token's generation or later was submitted after it.
\<close>

subsection \<open>The registry is well formed\<close>

definition slot_ok :: "u64 \<Rightarrow> retire_queue \<Rightarrow> bool" where
  "slot_ok counter x \<longleftrightarrow> rq_incarnation x \<le> counter \<and> length (rq_fences x) = kRetireFenceSlots \<and>
     rq_open x \<noteq> 0 \<and> rq_open x \<le> RETIRE_GENERATION_MASK + 1 \<and> rq_retired x < rq_open x \<and>
     (rq_pending x \<noteq> 0 \<longrightarrow> rq_open x \<le> RETIRE_GENERATION_MASK) \<and>
     (rq_queue x \<noteq> None \<longrightarrow> rq_incarnation x \<noteq> 0) \<and>
     (\<forall>f \<in> set (rq_fences x). fe_valid f \<longrightarrow> fe_generation f < rq_open x)"

definition registry_ok :: "retire_registry \<Rightarrow> bool" where
  "registry_ok s \<longleftrightarrow> rq_counter s \<le> RETIRE_INCARNATION_MASK \<and> rq_count s \<le> kMaxTrackedQueues \<and>
     (\<forall>i. slot_ok (rq_counter s) (rq_slots s i))"

text \<open>A barrier of the queue \<open>q\<close> submitted since \<open>h\<close>, and one that has been seen complete.\<close>

definition fence_submitted :: "rq_api \<Rightarrow> u64 \<Rightarrow> rq_call list \<Rightarrow> rq_call list \<Rightarrow> u64 \<Rightarrow> bool" where
  "fence_submitted D q h h' event \<longleftrightarrow> (\<exists>k. suffix h k \<and> D k (RqFence q) = RqAnswer [event] \<and> suffix (RqFence q # k) h')"

definition passed :: "rq_api \<Rightarrow> u64 \<Rightarrow> rq_call list \<Rightarrow> rq_call list \<Rightarrow> bool" where
  "passed D q h h' \<longleftrightarrow> (\<exists>event k. fence_submitted D q h k event \<and> D k (RqStatus event) = RqAnswer [1] \<and> suffix (RqStatus event # k) h')"

definition since :: "rq_api \<Rightarrow> rq_call list \<Rightarrow> u64 \<Rightarrow> nat \<Rightarrow> u64 \<Rightarrow> u64 \<Rightarrow> retire_registry \<Rightarrow> bool" where
  "since D h q i inc g s \<longleftrightarrow> suffix h (rq_hist s) \<and> inc \<noteq> 0 \<and> inc \<le> rq_counter s \<and>
     (let x = rq_slots s i in rq_incarnation x = inc \<longrightarrow> rq_queue x = Some q \<and> g \<le> rq_open x \<and>
        (\<forall>f \<in> set (rq_fences x). fe_valid f \<and> g \<le> fe_generation f \<longrightarrow> fence_submitted D q h (rq_hist s) (fe_event f)) \<and>
        (g \<le> rq_retired x \<longrightarrow> passed D q h (rq_hist s)))"

lemma fence_submitted_mono: "fence_submitted D q h k e \<Longrightarrow> suffix k k' \<Longrightarrow> fence_submitted D q h k' e"
  unfolding fence_submitted_def using suffix_order.trans by blast

lemma passed_mono: "passed D q h k \<Longrightarrow> suffix k k' \<Longrightarrow> passed D q h k'"
  unfolding passed_def using suffix_order.trans by blast

lemma suffix_more: "suffix h k \<Longrightarrow> suffix h (c # k)"
  by (simp add: suffix_ConsI)

text \<open>More calls, and changes of other slots or of nothing that matters.\<close>

lemma since_more:
  assumes "since D h q i inc g s" "suffix (rq_hist s) (rq_hist t)" "rq_counter s \<le> rq_counter t"
    "rq_incarnation (rq_slots t i) = inc \<Longrightarrow> rq_incarnation (rq_slots s i) = inc \<and> rq_queue (rq_slots t i) = rq_queue (rq_slots s i) \<and>
      rq_open (rq_slots t i) = rq_open (rq_slots s i) \<and> rq_fences (rq_slots t i) = rq_fences (rq_slots s i) \<and>
      rq_retired (rq_slots t i) = rq_retired (rq_slots s i)"
  shows "since D h q i inc g t"
proof (cases "rq_incarnation (rq_slots t i) = inc")
  case True
  note eq = assms(4) [OF True]
  have s: "suffix h (rq_hist s)" "inc \<noteq> 0" "inc \<le> rq_counter s" "rq_queue (rq_slots s i) = Some q" "g \<le> rq_open (rq_slots s i)"
      "\<forall>f \<in> set (rq_fences (rq_slots s i)). fe_valid f \<and> g \<le> fe_generation f \<longrightarrow> fence_submitted D q h (rq_hist s) (fe_event f)"
      "g \<le> rq_retired (rq_slots s i) \<longrightarrow> passed D q h (rq_hist s)"
    using assms(1) eq by (auto simp: since_def Let_def)
  show ?thesis
    using s eq order_trans [OF s(3) assms(3)] suffix_order.trans [OF s(1) assms(2)] fence_submitted_mono [OF _ assms(2)] passed_mono [OF _ assms(2)]
    by (auto simp: since_def Let_def)
next
  case False
  then show ?thesis
    using assms(1) order_trans [OF _ assms(3)] suffix_order.trans [OF _ assms(2)] by (simp add: since_def Let_def)
qed

subsection \<open>Polling\<close>

lemma poll_fences_hist: "poll_fences D fs r h = (fs', r', h') \<Longrightarrow> suffix h h'"
proof (induction fs arbitrary: r h fs' r' h')
  case (Cons f fs)
  then show ?case
    by (auto simp: Let_def split: if_splits prod.splits dest!: Cons.IH dest: suffix_ConsD)
qed simp

lemma poll_fences_ok:
  assumes "poll_fences D fs r h = (fs', r', h')"
  shows "length fs' = length fs" "r \<le> r'" "r' = r \<or> (\<exists>f \<in> set fs. fe_valid f \<and> r' = fe_generation f)"
    "\<forall>f \<in> set fs'. fe_valid f \<longrightarrow> f \<in> set fs"
proof -
  have "length fs' = length fs \<and> r \<le> r' \<and> (r' = r \<or> (\<exists>f \<in> set fs. fe_valid f \<and> r' = fe_generation f)) \<and>
      (\<forall>f \<in> set fs'. fe_valid f \<longrightarrow> f \<in> set fs)"
    using assms
  proof (induction fs arbitrary: r h fs' r' h')
    case (Cons f fs)
    obtain gs k l where rec: "poll_fences D fs (if fe_valid f \<and> D h (RqStatus (fe_event f)) = RqAnswer [1] then max r (fe_generation f) else r)
        (if fe_valid f then RqStatus (fe_event f) # h else h) = (gs, k, l)" by (metis prod_cases3)
    from Cons.IH [OF this] Cons.prems rec show ?case
      by (auto simp: Let_def no_fence_def max_def split: if_splits)
  qed simp
  then show "length fs' = length fs" "r \<le> r'" "r' = r \<or> (\<exists>f \<in> set fs. fe_valid f \<and> r' = fe_generation f)"
    "\<forall>f \<in> set fs'. fe_valid f \<longrightarrow> f \<in> set fs" by blast+
qed

lemma poll_fences_passed:
  assumes "poll_fences D fs r k = (fs', r', k')" "suffix h k"
    "\<forall>f \<in> set fs. fe_valid f \<and> g \<le> fe_generation f \<longrightarrow> fence_submitted D q h k (fe_event f)" "g \<le> r \<longrightarrow> passed D q h k"
  shows "g \<le> r' \<longrightarrow> passed D q h k'"
  using assms
proof (induction fs arbitrary: r k fs' r' k')
  case (Cons f fs)
  show ?case
  proof (cases "fe_valid f")
    case False
    then obtain gs where "poll_fences D fs r k = (gs, r', k')" using Cons.prems(1) by (auto split: prod.splits)
    then show ?thesis using Cons.IH Cons.prems(2-4) by simp
  next
    case valid: True
    let ?k = "RqStatus (fe_event f) # k"
    let ?done = "D k (RqStatus (fe_event f)) = RqAnswer [1]"
    let ?r = "if ?done then max r (fe_generation f) else r"
    obtain gs where rec: "poll_fences D fs ?r ?k = (gs, r', k')"
      using Cons.prems(1) valid by (auto simp: Let_def split: prod.splits)
    have sub: "suffix k ?k" by (simp add: suffix_ConsI)
    have "\<forall>f \<in> set fs. fe_valid f \<and> g \<le> fe_generation f \<longrightarrow> fence_submitted D q h ?k (fe_event f)"
      using Cons.prems(3) fence_submitted_mono [OF _ sub] by simp
    moreover have "g \<le> ?r \<longrightarrow> passed D q h ?k"
    proof
      assume "g \<le> ?r"
      then consider "g \<le> r" | "?done" "g \<le> fe_generation f" by (auto simp: max_def split: if_splits)
      then show "passed D q h ?k"
      proof cases
        case 1
        then show ?thesis using Cons.prems(4) passed_mono [OF _ sub] by simp
      next
        case 2
        then have "fence_submitted D q h k (fe_event f)" using Cons.prems(3) valid by simp
        then show ?thesis unfolding passed_def using 2(1) by blast
      qed
    qed
    ultimately show ?thesis using Cons.IH [OF rec] suffix_order.trans [OF Cons.prems(2) sub] by blast
  qed
qed simp

lemma upd_queue_sel [simp]:
  "rq_hist (upd_queue i f s) = rq_hist s" "rq_count (upd_queue i f s) = rq_count s" "rq_counter (upd_queue i f s) = rq_counter s"
  "rq_slots (upd_queue i f s) = (rq_slots s)(i := f (rq_slots s i))" "rq_accepting (upd_queue i f s) = rq_accepting s"
  by (simp_all add: upd_queue_def)

lemma poll_sel:
  "rq_count (poll_retire_queue_locked D j s) = rq_count s" "rq_counter (poll_retire_queue_locked D j s) = rq_counter s"
  "suffix (rq_hist s) (rq_hist (poll_retire_queue_locked D j s))"
  "i \<noteq> j \<Longrightarrow> rq_slots (poll_retire_queue_locked D j s) i = rq_slots s i"
  "rq_incarnation (rq_slots (poll_retire_queue_locked D j s) i) = rq_incarnation (rq_slots s i)"
  "rq_queue (rq_slots (poll_retire_queue_locked D j s) i) = rq_queue (rq_slots s i)"
  "rq_open (rq_slots (poll_retire_queue_locked D j s) i) = rq_open (rq_slots s i)"
  "rq_pending (rq_slots (poll_retire_queue_locked D j s) i) = rq_pending (rq_slots s i)"
  by (auto simp: poll_retire_queue_locked_def split: prod.splits dest: poll_fences_hist)

lemma poll_ok: "registry_ok s \<Longrightarrow> registry_ok (poll_retire_queue_locked D j s)"
proof -
  assume ok: "registry_ok s"
  obtain fs r h where p: "poll_fences D (rq_fences (rq_slots s j)) (rq_retired (rq_slots s j)) (rq_hist s) = (fs, r, h)" by (metis prod_cases3)
  note f = poll_fences_ok [OF p]
  have "slot_ok (rq_counter s) (rq_slots s j)" using ok by (simp add: registry_ok_def)
  then have "slot_ok (rq_counter s) ((rq_slots s j)\<lparr>rq_fences := fs, rq_retired := r\<rparr>)"
    using f by (auto simp: slot_ok_def)
  then show ?thesis using ok by (simp add: registry_ok_def poll_retire_queue_locked_def p)
qed

lemma poll_since: "since D h q i inc g s \<Longrightarrow> since D h q i inc g (poll_retire_queue_locked D j s)"
proof -
  assume since: "since D h q i inc g s"
  obtain fs r k where p: "poll_fences D (rq_fences (rq_slots s j)) (rq_retired (rq_slots s j)) (rq_hist s) = (fs, r, k)" by (metis prod_cases3)
  have k: "suffix (rq_hist s) k" by (rule poll_fences_hist [OF p])
  show ?thesis
  proof (cases "i = j \<and> rq_incarnation (rq_slots s i) = inc")
    case False
    show ?thesis by (rule since_more [OF since poll_sel(3)]) (use False in \<open>auto simp: poll_sel\<close>)
  next
    case True
    then have s: "suffix h (rq_hist s)" "inc \<noteq> 0" "inc \<le> rq_counter s" "rq_queue (rq_slots s i) = Some q" "g \<le> rq_open (rq_slots s i)"
      "\<forall>f \<in> set (rq_fences (rq_slots s i)). fe_valid f \<and> g \<le> fe_generation f \<longrightarrow> fence_submitted D q h (rq_hist s) (fe_event f)"
      "g \<le> rq_retired (rq_slots s i) \<longrightarrow> passed D q h (rq_hist s)"
      using since by (auto simp: since_def Let_def)
    have "g \<le> r \<longrightarrow> passed D q h k"
      using poll_fences_passed [OF p, of h g q] s True by simp
    moreover have "\<forall>f \<in> set fs. fe_valid f \<and> g \<le> fe_generation f \<longrightarrow> fence_submitted D q h k (fe_event f)"
      using poll_fences_ok(4) [OF p] s(6) True fence_submitted_mono [OF _ k] by auto
    ultimately show ?thesis
      using s True suffix_order.trans [OF s(1) k] by (simp add: since_def poll_retire_queue_locked_def p)
  qed
qed

subsection \<open>Submitting\<close>

lemma free_fence_Some: "free_fence fs = Some k \<Longrightarrow> k < length fs"
  by (auto simp: free_fence_def find_Some_iff)

text \<open>A submission that changes the slot has put in a fence of the open generation.\<close>

lemma submit_cases:
  obtains (kept) r c where "submit_retire_fence_locked D j s = (r, s\<lparr>rq_hist := c @ rq_hist s\<rparr>)"
  | (fence) q k event where "rq_queue (rq_slots s j) = Some q" "rq_pending (rq_slots s j) \<noteq> 0" "k < length (rq_fences (rq_slots s j))"
      "D (rq_hist s) (RqFence q) = RqAnswer [event]"
      "submit_retire_fence_locked D j s = (True, upd_queue j (\<lambda>x. x\<lparr>
         rq_fences := (rq_fences x)[k := \<lparr>fe_event = event, fe_generation = rq_open x, fe_valid = True\<rparr>],
         rq_open := rq_open x + 1, rq_pending := 0\<rparr>) (s\<lparr>rq_hist := RqFence q # rq_hist s\<rparr>))"
proof (cases "\<exists>q k event. rq_queue (rq_slots s j) = Some q \<and> rq_pending (rq_slots s j) \<noteq> 0 \<and> free_fence (rq_fences (rq_slots s j)) = Some k \<and>
    D (rq_hist s) (RqFence q) = RqAnswer [event]")
  case True
  then obtain q k event where f: "rq_queue (rq_slots s j) = Some q" "rq_pending (rq_slots s j) \<noteq> 0"
    "free_fence (rq_fences (rq_slots s j)) = Some k" "D (rq_hist s) (RqFence q) = RqAnswer [event]" by blast
  show thesis
    by (rule fence [OF f(1,2) free_fence_Some [OF f(3)] f(4)])
      (simp add: submit_retire_fence_locked_def Let_def f rq_ask_def)
next
  case False
  have "\<exists>r c. submit_retire_fence_locked D j s = (r, s\<lparr>rq_hist := c @ rq_hist s\<rparr>)"
  proof (cases "rq_queue (rq_slots s j) = None \<or> rq_pending (rq_slots s j) = 0 \<or> free_fence (rq_fences (rq_slots s j)) = None")
    case True
    then show ?thesis
      by (auto simp: submit_retire_fence_locked_def Let_def split: option.split intro: exI [of _ "[]"])
  next
    case reached: False
    then obtain q k where f: "rq_queue (rq_slots s j) = Some q" "free_fence (rq_fences (rq_slots s j)) = Some k" by auto
    then have "\<nexists>event. D (rq_hist s) (RqFence q) = RqAnswer [event]" using False reached by blast
    then have "submit_retire_fence_locked D j s = (False, s\<lparr>rq_hist := [RqFence q] @ rq_hist s\<rparr>)"
      using f reached by (auto simp: submit_retire_fence_locked_def Let_def rq_ask_def split: rq_answer.split list.split)
    then show ?thesis by blast
  qed
  then obtain r c where "submit_retire_fence_locked D j s = (r, s\<lparr>rq_hist := c @ rq_hist s\<rparr>)" by blast
  then show thesis by (rule kept)
qed

lemma registry_ok_hist [simp]: "registry_ok (s\<lparr>rq_hist := h\<rparr>) = registry_ok s"
  by (simp add: registry_ok_def)

lemma since_hist: "since D h q i inc g s \<Longrightarrow> suffix (rq_hist s) k \<Longrightarrow> since D h q i inc g (s\<lparr>rq_hist := k\<rparr>)"
  by (rule since_more) simp_all

lemma open_next: "rq_open x \<le> RETIRE_GENERATION_MASK \<Longrightarrow> unat (rq_open x + 1) = unat (rq_open x) + 1"
  by (subst unat_add_lem [THEN iffD1]) (simp_all add: word_le_nat_alt)

lemma submit_ok:
  assumes "registry_ok s"
  shows "registry_ok (snd (submit_retire_fence_locked D j s))"
proof (cases rule: submit_cases [of D j s])
  case (fence q k event)
  let ?x = "rq_slots s j"
  have x: "slot_ok (rq_counter s) ?x" using assms by (simp add: registry_ok_def)
  then have m: "rq_open ?x \<le> RETIRE_GENERATION_MASK" using fence(2) by (simp add: slot_ok_def)
  have next_open: "rq_open ?x < rq_open ?x + 1" "rq_open ?x + 1 \<le> RETIRE_GENERATION_MASK + 1"
    using open_next [OF m] m by (simp_all add: word_less_nat_alt word_le_nat_alt)
  then have "slot_ok (rq_counter s) (?x\<lparr>rq_fences := (rq_fences ?x)[k := \<lparr>fe_event = event, fe_generation = rq_open ?x, fe_valid = True\<rparr>],
      rq_open := rq_open ?x + 1, rq_pending := 0\<rparr>)"
    using x by (auto simp: slot_ok_def dest!: set_update_subset_insert [THEN subsetD] dest: less_trans)
  then show ?thesis using assms by (simp add: fence(5) registry_ok_def)
qed (simp add: assms)

lemma submit_sel:
  shows "rq_count (snd (submit_retire_fence_locked D j s)) = rq_count s" (is ?A)
    and "rq_counter (snd (submit_retire_fence_locked D j s)) = rq_counter s" (is ?B)
    and "suffix (rq_hist s) (rq_hist (snd (submit_retire_fence_locked D j s)))" (is ?C)
    and "i \<noteq> j \<Longrightarrow> rq_slots (snd (submit_retire_fence_locked D j s)) i = rq_slots s i" (is "_ \<Longrightarrow> ?D")
    and "rq_incarnation (rq_slots (snd (submit_retire_fence_locked D j s)) i) = rq_incarnation (rq_slots s i)" (is ?E)
proof -
  have "?A \<and> ?B \<and> ?C \<and> (i \<noteq> j \<longrightarrow> ?D) \<and> ?E"
  proof (cases rule: submit_cases [of D j s])
    case (kept r c)
    then show ?thesis by (simp add: suffix_def)
  next
    case (fence q k event)
    then show ?thesis by (simp add: suffix_ConsI)
  qed
  then show ?A ?B ?C "i \<noteq> j \<Longrightarrow> ?D" ?E by blast+
qed

lemma submit_since:
  assumes "registry_ok s" "since D h q i inc g s"
  shows "since D h q i inc g (snd (submit_retire_fence_locked D j s))"
proof (cases rule: submit_cases [of D j s])
  case (kept r c)
  then show ?thesis using since_hist [OF assms(2), of "c @ rq_hist s"] by (simp add: suffix_def)
next
  case (fence q' k event)
  let ?x = "rq_slots s j"
  show ?thesis
  proof (cases "i = j \<and> rq_incarnation ?x = inc")
    case False
    show ?thesis
    proof (cases "i = j")
      case True
      then show ?thesis using False by (intro since_more [OF assms(2) submit_sel(3)]) (simp_all add: submit_sel(2,5))
    next
      case other: False
      then show ?thesis by (intro since_more [OF assms(2) submit_sel(3)]) (simp_all add: submit_sel(2,4))
    qed
  next
    case True
    have s: "suffix h (rq_hist s)" "inc \<noteq> 0" "inc \<le> rq_counter s" "rq_queue ?x = Some q" "g \<le> rq_open ?x"
      "\<forall>f \<in> set (rq_fences ?x). fe_valid f \<and> g \<le> fe_generation f \<longrightarrow> fence_submitted D q h (rq_hist s) (fe_event f)"
      "g \<le> rq_retired ?x \<longrightarrow> passed D q h (rq_hist s)"
      using assms(2) True by (auto simp: since_def Let_def)
    have more: "suffix (rq_hist s) (RqFence q # rq_hist s)" by (simp add: suffix_ConsI)
    have new: "fence_submitted D q h (RqFence q # rq_hist s) event"
      using s(1,4) fence(1,4) by (auto simp: fence_submitted_def)
    have "rq_open ?x \<le> RETIRE_GENERATION_MASK" using assms(1) fence(2) by (simp add: registry_ok_def slot_ok_def)
    then have "g \<le> rq_open ?x + 1" using s(5) open_next [of ?x] by (simp add: word_le_nat_alt)
    then show ?thesis
      using s True fence(1) new fence_submitted_mono [OF _ more] passed_mono [OF _ more] suffix_order.trans [OF s(1) more]
      by (auto simp: fence(5) since_def Let_def dest!: set_update_subset_insert [THEN subsetD])
  qed
qed

subsection \<open>Registering\<close>

lemma slot_ok_counter: "slot_ok k x \<Longrightarrow> k \<le> k' \<Longrightarrow> slot_ok k' x"
  by (auto simp: slot_ok_def)

lemma counter_next: "(k::u64) < RETIRE_INCARNATION_MASK \<Longrightarrow> k < k + 1 \<and> k + 1 \<noteq> 0 \<and> k + 1 \<le> RETIRE_INCARNATION_MASK"
proof -
  assume k: "k < RETIRE_INCARNATION_MASK"
  then have "unat (k + 1) = unat k + 1"
    by (subst unat_add_lem [THEN iffD1]) (simp_all add: word_less_nat_alt)
  then show ?thesis using k by (auto simp: word_less_nat_alt word_le_nat_alt simp flip: unat_eq_zero)
qed

text \<open>A slot is taken for the queue, or only its pointer is filled in.\<close>

lemma register_cases:
  obtains (kept) "rq_hist (snd (register_slot D p dev c n q s)) = rq_hist s" "rq_slots (snd (register_slot D p dev c n q s)) = rq_slots s"
      "rq_count (snd (register_slot D p dev c n q s)) = rq_count s" "rq_counter (snd (register_slot D p dev c n q s)) = rq_counter s"
      "fst (register_slot D p dev c n q s) = None"
  | (dead) "rq_count s < kMaxTrackedQueues"
      "register_slot D p dev c n q s = (None, upd_queue (rq_count s) (\<lambda>x. x\<lparr>rq_source := p\<rparr>) (s\<lparr>rq_count := rq_count s + 1, rq_hist := RqCopy p # rq_hist s\<rparr>))"
  | (taken) "rq_count s < kMaxTrackedQueues" "rq_counter s < RETIRE_INCARNATION_MASK"
      "register_slot D p dev c n q s = (Some (rq_count s), upd_queue (rq_count s) (\<lambda>x. x\<lparr>rq_source := p, rq_queue := Some q, rq_device := dev,
         rq_context := c, rq_native := n, rq_incarnation := rq_counter s + 1\<rparr>)
         (s\<lparr>rq_count := rq_count s + 1, rq_hist := RqCopy p # rq_hist s, rq_counter := rq_counter s + 1\<rparr>))"
proof (cases "rq_count s \<ge> kMaxTrackedQueues \<or> rq_counter s \<ge> RETIRE_INCARNATION_MASK")
  case True
  show thesis by (rule kept) (use True in \<open>auto simp: register_slot_def Let_def\<close>)
next
  case False
  show thesis
  proof (cases "D (rq_hist s) (RqCopy p)")
    case RqThrows
    with False show thesis
      by (intro dead) (auto simp: register_slot_def Let_def rq_ask_def upd_queue_def not_le)
  next
    case (RqAnswer a)
    with False show thesis
      by (intro taken) (auto simp: register_slot_def Let_def rq_ask_def upd_queue_def not_le)
  qed
qed

lemma register_ok:
  assumes "registry_ok s"
  shows "registry_ok (snd (register_slot D p dev c n q s))"
proof (cases rule: register_cases [of D p dev c n q s])
  case kept
  then show ?thesis using assms by (simp add: registry_ok_def)
next
  case dead
  then show ?thesis using assms by (simp add: registry_ok_def slot_ok_def)
next
  case taken
  note k = counter_next [OF taken(2)]
  have "slot_ok (rq_counter s) (rq_slots s i)" for i using assms by (simp add: registry_ok_def)
  then have "slot_ok (rq_counter s + 1) (rq_slots s i)" for i by (rule slot_ok_counter) (simp add: k less_imp_le)
  then show ?thesis using assms k taken(1) by (simp add: taken(3) registry_ok_def) (simp add: slot_ok_def)
qed

lemma register_since:
  assumes "since D h q' i inc g s"
  shows "since D h q' i inc g (snd (register_slot D p dev c n q s))"
proof (cases rule: register_cases [of D p dev c n q s])
  case kept
  show ?thesis by (rule since_more [OF assms]) (simp_all add: kept)
next
  case dead
  show ?thesis by (rule since_more [OF assms]) (auto simp: dead(2) suffix_ConsI split: if_splits)
next
  case taken
  note k = counter_next [OF taken(2)]
  have "inc \<le> rq_counter s" using assms by (simp add: since_def)
  then have "rq_counter s + 1 \<noteq> inc" using k by auto
  then show ?thesis
    by (intro since_more [OF assms]) (use k in \<open>auto simp: taken(3) suffix_ConsI\<close>)
qed

lemma register_result:
  assumes "register_slot D p dev c n q s = (Some i, t)"
  shows "rq_queue (rq_slots t i) = Some q \<and> suffix (rq_hist s) (rq_hist t) \<and> i < rq_count t"
  using register_cases [of D p dev c n q s] by cases (use assms in \<open>auto simp: suffix_ConsI\<close>)

text \<open>The queue a pointer names, as SYCL answers it.\<close>

definition names :: "rq_api \<Rightarrow> rq_call list \<Rightarrow> u64 \<Rightarrow> u64 \<Rightarrow> bool" where
  "names D h pointer q \<longleftrightarrow> (\<exists>context native. D h (RqQueue pointer) = RqAnswer [1, context, native, q])"

lemma note_cases:
  obtains (kept) c where "aimdo_xpu_note_queue_locked D p dev s = (None, s\<lparr>rq_hist := c @ rq_hist s\<rparr>)"
  | (found) q i c where "names D (rq_hist s) p q" "i < rq_count s" "rq_queue (rq_slots s i) = Some q"
      "aimdo_xpu_note_queue_locked D p dev s = (Some i, s\<lparr>rq_hist := c @ rq_hist s\<rparr>)"
  | (fresh) q c n l where "names D (rq_hist s) p q"
      "aimdo_xpu_note_queue_locked D p dev s = register_slot D p dev c n q (s\<lparr>rq_hist := l @ rq_hist s\<rparr>)"
proof (cases "p = 0 \<or> \<not> rq_accepting s")
  case True
  show thesis by (rule kept [of "[]"]) (use True in \<open>auto simp: aimdo_xpu_note_queue_locked_def\<close>)
next
  case go: False
  let ?c = "[RqQueue p]"
  show thesis
  proof (cases "\<exists>c n q. D (rq_hist s) (RqQueue p) = RqAnswer [1, c, n, q]")
    case False
    with go show thesis
      by (intro kept [of ?c])
        (auto simp: aimdo_xpu_note_queue_locked_def rq_ask_def split: rq_answer.split list.split)
  next
    case True
    then obtain c n q where a: "D (rq_hist s) (RqQueue p) = RqAnswer [1, c, n, q]" by blast
    then have names: "names D (rq_hist s) p q" by (auto simp: names_def)
    let ?l = "[RqDevice dev, RqQueue p]"
    show thesis
    proof (cases "D (RqQueue p # rq_hist s) (RqDevice dev) = RqAnswer [c, n]")
      case False
      with go a show thesis by (intro kept [of ?l]) (simp add: aimdo_xpu_note_queue_locked_def rq_ask_def)
    next
      case dev: True
      show thesis
      proof (cases "find (\<lambda>i. same_queue dev c n q (rq_slots s i)) [0..<rq_count s]")
        case None
        with go a dev show thesis
          by (intro fresh [OF names, of c n ?l]) (simp add: aimdo_xpu_note_queue_locked_def rq_ask_def)
      next
        case (Some i)
        then have "i < rq_count s" "rq_queue (rq_slots s i) = Some q"
          by (auto simp: find_Some_iff same_queue_def)
        with go a dev Some show thesis
          by (intro found [OF names, of i ?l]) (simp_all add: aimdo_xpu_note_queue_locked_def rq_ask_def)
      qed
    qed
  qed
qed

lemma suffix_app: "suffix h (c @ h)"
  by (simp add: suffix_def)

lemma note_ok: "registry_ok s \<Longrightarrow> registry_ok (snd (aimdo_xpu_note_queue_locked D p dev s))"
  by (cases rule: note_cases [of D p dev s]) (simp_all add: register_ok)

lemma note_since:
  assumes "since D h q i inc g s"
  shows "since D h q i inc g (snd (aimdo_xpu_note_queue_locked D p dev s))"
  by (cases rule: note_cases [of D p dev s]) (simp_all add: register_since since_hist [OF assms suffix_app])

lemma note_result:
  assumes "aimdo_xpu_note_queue_locked D p dev s = (Some i, t)"
  shows "\<exists>q. names D (rq_hist s) p q \<and> rq_queue (rq_slots t i) = Some q \<and> suffix (rq_hist s) (rq_hist t) \<and> i < rq_count t"
proof (cases rule: note_cases [of D p dev s])
  case (kept c)
  then show ?thesis using assms by simp
next
  case (found q j c)
  then show ?thesis using assms by (auto simp: suffix_app)
next
  case (fresh q c n l)
  then have "register_slot D p dev c n q (s\<lparr>rq_hist := l @ rq_hist s\<rparr>) = (Some i, t)" using assms by simp
  from register_result [OF this] fresh(1) show ?thesis
    using suffix_order.trans [OF suffix_app [of "rq_hist s" l]] by auto
qed

subsection \<open>Tokens and stamps\<close>

lemma small_bit:
  assumes "unat (x::u64) < 2 ^ k" "bit x n"
  shows "n < k"
proof (rule ccontr)
  assume "\<not> n < k"
  then have "(2::nat) ^ k \<le> 2 ^ n" by (intro power_increasing) simp_all
  with assms(1) have "unat x < 2 ^ n" by (rule less_le_trans)
  then have "unat x div 2 ^ n = 0" by (rule div_less)
  moreover have "bit (unat x) n" using assms(2) by (simp add: bit_unsigned_iff)
  ultimately show False by (simp add: bit_iff_odd)
qed

text \<open>A field of \<open>k\<close> bits under another.\<close>

lemma bits_or:
  assumes "\<And>n. bit (x::u64) n \<Longrightarrow> n + k < 64" "\<And>n. bit t n \<Longrightarrow> n < k"
  shows "drop_bit k (push_bit k x OR t) = x" "(push_bit k x OR t) AND mask k = t"
proof -
  show "drop_bit k (push_bit k x OR t) = x"
  proof (rule bit_word_eqI)
    fix n assume "n < LENGTH(64)"
    then show "bit (drop_bit k (push_bit k x OR t)) n = bit x n"
      using assms(1) [of n] assms(2) [of "k + n"] by (auto simp: bit_drop_bit_eq bit_or_iff bit_push_bit_iff)
  qed
  show "(push_bit k x OR t) AND mask k = t"
  proof (rule bit_word_eqI)
    fix n assume "n < LENGTH(64)"
    then show "bit ((push_bit k x OR t) AND mask k) n = bit t n"
      using assms(2) [of n] by (auto simp: bit_and_iff bit_or_iff bit_push_bit_iff bit_mask_iff)
  qed
qed

definition make_stamp :: "u64 \<Rightarrow> u64 \<Rightarrow> u64" where
  "make_stamp inc g = push_bit 33 inc OR (g AND RETIRE_GENERATION_MASK)"

lemma generation_mask: "RETIRE_GENERATION_MASK = mask 33"
  by (simp add: mask_eq_exp_minus_1)

lemma masked_bit: "bit (g AND RETIRE_GENERATION_MASK) n \<Longrightarrow> n < 33"
  by (simp only: generation_mask bit_and_iff bit_mask_iff)

lemma incarnation_bit: "inc \<le> RETIRE_INCARNATION_MASK \<Longrightarrow> bit inc n \<Longrightarrow> n < 24"
  by (rule small_bit [of inc]) (simp_all add: word_less_nat_alt word_le_nat_alt)

lemma masked_generation: "g \<le> RETIRE_GENERATION_MASK \<Longrightarrow> g AND RETIRE_GENERATION_MASK = g"
  using less_mask_eq [of g 33] by (simp add: word_less_nat_alt word_le_nat_alt mask_eq_exp_minus_1)

lemma stamp_fields:
  assumes "inc \<le> RETIRE_INCARNATION_MASK" "g \<le> RETIRE_GENERATION_MASK"
  shows "retire_incarnation (make_stamp inc g) = inc" "retire_generation (make_stamp inc g) = g"
    "bit (make_stamp inc g) n \<Longrightarrow> n + 7 < 64"
proof -
  have inc: "bit inc n \<Longrightarrow> n + 33 < 64" for n using incarnation_bit [OF assms(1), of n] by simp
  have gen: "bit (g AND RETIRE_GENERATION_MASK) n \<Longrightarrow> n < 33" for n by (rule masked_bit)
  note b = bits_or [of inc 33 "g AND RETIRE_GENERATION_MASK", OF inc gen]
  show "retire_incarnation (make_stamp inc g) = inc" unfolding retire_incarnation_def make_stamp_def by (rule b(1))
  show "retire_generation (make_stamp inc g) = g"
    using b(2) masked_generation [OF assms(2)] by (simp add: retire_generation_def make_stamp_def)
  assume "bit (make_stamp inc g) n"
  then consider "bit inc (n - 33)" "33 \<le> n" | "bit (g AND RETIRE_GENERATION_MASK) n"
    unfolding make_stamp_def bit_or_iff bit_push_bit_iff by blast
  then show "n + 7 < 64"
  proof cases
    case 1
    then show ?thesis using incarnation_bit [OF assms(1)] by fastforce
  next
    case 2
    then have "n < 33" by (rule masked_bit)
    then show ?thesis by simp
  qed
qed

definition make_token :: "nat \<Rightarrow> u64 \<Rightarrow> u64 \<Rightarrow> u64" where
  "make_token i inc g = push_bit 7 (make_stamp inc g) OR (of_nat i + 1)"

lemma token_fields:
  assumes "inc \<le> RETIRE_INCARNATION_MASK" "g \<le> RETIRE_GENERATION_MASK" "i < kMaxTrackedQueues"
  shows "unat (queue_tag (make_token i inc g) - 1) = i" "queue_tag (make_token i inc g) \<noteq> 0"
    "retire_stamp (make_token i inc g) = make_stamp inc g"
proof -
  obtain t :: u64 where t: "t = of_nat i + 1" by blast
  have i: "unat (of_nat i :: u64) = i" unfolding unat_of_nat using assms(3) by (intro mod_less) simp
  then have unat: "unat t = i + 1" unfolding t using assms(3) by (subst unat_add_lem [THEN iffD1]) simp_all
  have tag: "bit t n \<Longrightarrow> n < 7" for n
    by (rule small_bit [of t]) (use assms(3) unat in simp_all)
  note b = bits_or [of "make_stamp inc g" 7, OF stamp_fields(3) [OF assms(1,2)] tag]
  have q: "queue_tag (make_token i inc g) = t"
    unfolding queue_tag_mask make_token_def t [symmetric] by (rule b(2))
  show "unat (queue_tag (make_token i inc g) - 1) = i" using i by (simp add: q t)
  show "queue_tag (make_token i inc g) \<noteq> 0" using unat by (auto simp: q)
  show "retire_stamp (make_token i inc g) = make_stamp inc g"
    unfolding retire_stamp_def make_token_def t [symmetric] by (rule b(1))
qed

subsection \<open>Giving out a token\<close>

lemma registry_ok_pending:
  assumes "registry_ok s" "rq_open (rq_slots s i) \<le> RETIRE_GENERATION_MASK"
  shows "registry_ok (upd_queue i (\<lambda>x. x\<lparr>rq_pending := n x\<rparr>) s)"
  using assms by (simp add: registry_ok_def slot_ok_def)

lemma batch_since: "since D h q j inc g s \<Longrightarrow> since D h q j inc g (upd_queue i (\<lambda>x. x\<lparr>rq_pending := n x\<rparr>) s)"
  by (rule since_more) (auto split: if_splits)

lemma token_cases:
  obtains (zero) t where "aimdo_xpu_retire_token_current D p dev s = (0, t)"
      "t = s \<or> t = snd (aimdo_xpu_note_queue_locked D p dev s) \<or>
       (\<exists>i. t = poll_retire_queue_locked D i (snd (aimdo_xpu_note_queue_locked D p dev s)))"
  | (given) i u t x where "aimdo_xpu_note_queue_locked D p dev s = (Some i, u)" "x = rq_slots (poll_retire_queue_locked D i u) i"
      "rq_open x \<le> RETIRE_GENERATION_MASK"
      "t = upd_queue i (\<lambda>x. x\<lparr>rq_pending := if rq_pending x < kRetireBatchUses then rq_pending x + 1 else rq_pending x\<rparr>)
        (poll_retire_queue_locked D i u)"
      "aimdo_xpu_retire_token_current D p dev s = (make_token i (rq_incarnation x) (rq_open x), t) \<or>
       aimdo_xpu_retire_token_current D p dev s = (make_token i (rq_incarnation x) (rq_open x), snd (submit_retire_fence_locked D i t))"
proof (cases "p = 0")
  case True
  then show thesis by (intro zero [of s]) (simp_all add: aimdo_xpu_retire_token_current_def)
next
  case p: False
  obtain r u where n: "aimdo_xpu_note_queue_locked D p dev s = (r, u)" by (metis surj_pair)
  show thesis
  proof (cases r)
    case None
    with p n show thesis by (intro zero [of u]) (simp_all add: aimdo_xpu_retire_token_current_def)
  next
    case (Some i)
    let ?u = "poll_retire_queue_locked D i u"
    show thesis
    proof (cases "rq_open (rq_slots ?u i) > RETIRE_GENERATION_MASK")
      case True
      with p n Some show thesis by (intro zero [of ?u]) (auto simp: aimdo_xpu_retire_token_current_def Let_def)
    next
      case False
      with p n Some show thesis
        by (intro given [of i u]) (auto simp: aimdo_xpu_retire_token_current_def Let_def make_token_def make_stamp_def)
    qed
  qed
qed

lemma token_ok:
  assumes "registry_ok s"
  shows "registry_ok (snd (aimdo_xpu_retire_token_current D p dev s))"
proof (cases rule: token_cases [of D p dev s])
  case (zero t)
  then show ?thesis using assms note_ok [OF assms, of D p dev] poll_ok by auto
next
  case (given i u t x)
  have "registry_ok u" using note_ok [OF assms, of D p dev] given(1) by simp
  then have "registry_ok t" using given(2,3) by (auto simp: given(4) intro!: poll_ok registry_ok_pending)
  then show ?thesis using given(5) submit_ok [of t D i] by auto
qed

lemma token_since:
  assumes "registry_ok s" "since D h q j inc g s"
  shows "since D h q j inc g (snd (aimdo_xpu_retire_token_current D p dev s))"
proof (cases rule: token_cases [of D p dev s])
  case (zero t)
  then show ?thesis using assms note_since [OF assms(2), of p dev] poll_since by auto
next
  case (given i u t x)
  have "since D h q j inc g u" "registry_ok u" using note_since [OF assms(2), of p dev] note_ok [OF assms(1), of D p dev] given(1) by simp_all
  then have "since D h q j inc g t" "registry_ok t"
    using given(2,3) by (auto simp: given(4) intro!: poll_ok registry_ok_pending batch_since poll_since)
  then show ?thesis using given(5) submit_since [of t D h q j inc g i] by auto
qed

text \<open>A token stands for the open generation of its slot: nothing of it has been submitted before.\<close>

lemma open_since:
  assumes "registry_ok s" "suffix h (rq_hist s)" "rq_queue (rq_slots s i) = Some q"
  shows "since D h q i (rq_incarnation (rq_slots s i)) (rq_open (rq_slots s i)) s"
proof -
  have "slot_ok (rq_counter s) (rq_slots s i)" using assms(1) by (simp add: registry_ok_def)
  then show ?thesis using assms(2,3) by (auto simp: since_def slot_ok_def Let_def not_le)
qed

lemma token_issued:
  assumes "registry_ok s" "aimdo_xpu_retire_token_current D p dev s = (token, t)" "token \<noteq> 0"
  obtains i q inc g where "token = make_token i inc g" "i < kMaxTrackedQueues" "inc \<le> RETIRE_INCARNATION_MASK"
    "g \<le> RETIRE_GENERATION_MASK" "names D (rq_hist s) p q" "since D (rq_hist s) q i inc g t"
proof (cases rule: token_cases [of D p dev s])
  case (zero t)
  then show thesis using assms(2,3) by simp
next
  case (given i u t' x)
  let ?u = "poll_retire_queue_locked D i u"
  have u: "registry_ok u" "registry_ok ?u" using note_ok [OF assms(1), of D p dev] given(1) poll_ok [of u D i] by simp_all
  obtain q where q: "names D (rq_hist s) p q" "rq_queue (rq_slots u i) = Some q" "suffix (rq_hist s) (rq_hist u)" "i < rq_count u"
    using note_result [OF given(1)] by blast
  have "since D (rq_hist s) q i (rq_incarnation x) (rq_open x) ?u"
    unfolding given(2) by (rule open_since [OF u(2) suffix_order.trans [OF q(3) poll_sel(3)]]) (simp add: poll_sel(6) q(2))
  then have "since D (rq_hist s) q i (rq_incarnation x) (rq_open x) t'" unfolding given(4) by (rule batch_since)
  moreover have "registry_ok t'" using u(2) given(2,3) by (auto simp: given(4) intro!: registry_ok_pending)
  ultimately have "since D (rq_hist s) q i (rq_incarnation x) (rq_open x) t"
    using given(5) assms(2) submit_since [of t' D "rq_hist s" q i "rq_incarnation x" "rq_open x" i] by auto
  moreover have "rq_incarnation x \<le> RETIRE_INCARNATION_MASK"
  proof -
    have "rq_incarnation x \<le> rq_counter ?u" "rq_counter ?u \<le> RETIRE_INCARNATION_MASK"
      using u(2) given(2) by (simp_all add: registry_ok_def slot_ok_def)
    then show ?thesis by (rule order_trans)
  qed
  moreover have "i < kMaxTrackedQueues" using u(1) q(4) by (simp add: registry_ok_def)
  moreover have "token = make_token i (rq_incarnation x) (rq_open x)" using given(5) assms(2) by auto
  ultimately show thesis using given(3) q(1) by (intro that) simp_all
qed

subsection \<open>Snapshots\<close>

definition snap_one :: "rq_api \<Rightarrow> bool \<Rightarrow> nat \<Rightarrow> retire_registry \<Rightarrow> retire_registry" where
  "snap_one D force i s = (let s = poll_retire_queue_locked D i s in
     if force \<and> rq_pending (rq_slots s i) \<noteq> 0 then snd (submit_retire_fence_locked D i s) else s)"

lemma snap_one_ok: "registry_ok s \<Longrightarrow> registry_ok (snap_one D force i s)"
  by (simp add: snap_one_def Let_def poll_ok submit_ok)

lemma snap_one_since: "registry_ok s \<Longrightarrow> since D h q j inc g s \<Longrightarrow> since D h q j inc g (snap_one D force i s)"
  by (simp add: snap_one_def Let_def poll_ok poll_since submit_since)

lemma snap_one_sel:
  "rq_count (snap_one D force i s) = rq_count s" "j \<noteq> i \<Longrightarrow> rq_slots (snap_one D force i s) j = rq_slots s j"
  by (simp_all add: snap_one_def Let_def submit_sel poll_sel)

lemma snapshot_step:
  assumes "snapshot_slots D force (i # is) s = (st, t)"
  obtains stamps where "st = slot_stamp (rq_slots (snap_one D force i s) i) # stamps"
    "snapshot_slots D force is (snap_one D force i s) = (stamps, t)"
  using assms by (auto simp: snap_one_def Let_def split: prod.splits if_splits)

declare snapshot_slots.simps(2) [simp del]

lemma snapshot_slots_ok:
  "snapshot_slots D force is s = (st, t) \<Longrightarrow> registry_ok s \<Longrightarrow> registry_ok t \<and> (since D h q j inc g s \<longrightarrow> since D h q j inc g t)"
proof (induction "is" arbitrary: s st)
  case (Cons i "is")
  from snapshot_step [OF Cons.prems(1)] show ?case
    using Cons.IH [of "snap_one D force i s"] snap_one_ok [OF Cons.prems(2)] snap_one_since [OF Cons.prems(2)] by metis
qed simp

lemma snapshot_slots_sel:
  "snapshot_slots D force is s = (st, t) \<Longrightarrow> rq_count t = rq_count s \<and> length st = length is \<and> (\<forall>j. j \<notin> set is \<longrightarrow> rq_slots t j = rq_slots s j)"
proof (induction "is" arbitrary: s st)
  case (Cons i "is")
  obtain stamps where st: "st = slot_stamp (rq_slots (snap_one D force i s) i) # stamps"
    "snapshot_slots D force is (snap_one D force i s) = (stamps, t)" by (rule snapshot_step [OF Cons.prems])
  show ?case using Cons.IH [OF st(2)] by (simp add: st(1) snap_one_sel)
qed simp

lemma snapshot_stamps:
  "snapshot_slots D force is s = (st, t) \<Longrightarrow> distinct is \<Longrightarrow> k < length is \<Longrightarrow> st ! k = slot_stamp (rq_slots t (is ! k))"
proof (induction "is" arbitrary: s st k)
  case (Cons i "is")
  obtain stamps where st: "st = slot_stamp (rq_slots (snap_one D force i s) i) # stamps"
    "snapshot_slots D force is (snap_one D force i s) = (stamps, t)" by (rule snapshot_step [OF Cons.prems(1)])
  show ?case
  proof (cases k)
    case 0
    then show ?thesis using snapshot_slots_sel [OF st(2)] Cons.prems(2) by (simp add: st(1))
  next
    case (Suc m)
    then show ?thesis using Cons.IH [OF st(2)] Cons.prems(2,3) by (simp add: st(1))
  qed
qed simp

lemma snapshot_ok:
  assumes "aimdo_xpu_retire_snapshot D out n force s = (r, t)" "registry_ok s"
  shows "registry_ok t \<and> (since D h q j inc g s \<longrightarrow> since D h q j inc g t)"
proof (cases "\<not> out \<or> n = 0")
  case True
  then show ?thesis using assms by (simp add: aimdo_xpu_retire_snapshot_def)
next
  case False
  obtain st v where v: "snapshot_slots D force [0..<rq_count s] s = (st, v)" by (metis surj_pair)
  then have "v = t" using assms(1) False by (simp add: aimdo_xpu_retire_snapshot_def Let_def)
  then show ?thesis using snapshot_slots_ok [OF v assms(2)] by blast
qed

text \<open>An entry of the array is the stamp of its slot as the snapshot leaves it, or zero.\<close>

lemma snapshot_entry:
  assumes "aimdo_xpu_retire_snapshot D out n force s = ((copied, completed), t)" "i < length completed"
  shows "completed ! i = slot_stamp (rq_slots t i) \<or> completed ! i = 0"
proof (cases "\<not> out \<or> n = 0")
  case True
  then show ?thesis using assms by (auto simp: aimdo_xpu_retire_snapshot_def)
next
  case False
  obtain st v where v: "snapshot_slots D force [0..<rq_count s] s = (st, v)" by (metis surj_pair)
  have len: "length st = rq_count s" using snapshot_slots_sel [OF v] by simp
  have r: "v = t" "completed = take (min n (rq_count s)) st @ replicate (n - min n (rq_count s)) 0"
    using assms(1) False v by (auto simp: aimdo_xpu_retire_snapshot_def Let_def)
  show ?thesis
  proof (cases "i < min n (rq_count s)")
    case True
    then have "completed ! i = st ! i" using len by (simp add: r(2) nth_append)
    also have "st ! i = slot_stamp (rq_slots t i)" using snapshot_stamps [OF v, of i] True r(1) by simp
    finally show ?thesis by simp
  next
    case False
    then show ?thesis using assms(2) len by (simp add: r(2) nth_append)
  qed
qed

text \<open>A token found complete stands for a barrier that has passed.\<close>

lemma complete_passed:
  assumes "registry_ok t" "since D h q i inc g t" "i < kMaxTrackedQueues" "inc \<le> RETIRE_INCARNATION_MASK" "g \<le> RETIRE_GENERATION_MASK"
    "aimdo_xpu_retire_snapshot D out n force s = ((copied, completed), t)" "token_complete completed (make_token i inc g)"
  shows "passed D q h (rq_hist t)"
proof -
  note tok = token_fields [OF assms(4,5,3)]
  let ?x = "rq_slots t i"
  have i: "i < length completed" and inc: "retire_incarnation (completed ! i) = inc" and g: "g \<le> retire_generation (completed ! i)"
    using assms(7) stamp_fields(1,2) [OF assms(4,5)] by (simp_all add: token_complete_def tok Let_def not_less split: if_splits)
  have "inc \<noteq> 0" using assms(2) by (simp add: since_def)
  then have "completed ! i \<noteq> 0" using inc by (auto simp: retire_incarnation_def)
  then have st: "completed ! i = make_stamp (rq_incarnation ?x) (rq_retired ?x)"
    using snapshot_entry [OF assms(6) i] by (simp add: slot_stamp_def make_stamp_def)
  have x: "slot_ok (rq_counter t) ?x" "rq_counter t \<le> RETIRE_INCARNATION_MASK" using assms(1) by (simp_all add: registry_ok_def)
  have "rq_incarnation ?x \<le> RETIRE_INCARNATION_MASK" using x by (auto simp: slot_ok_def intro: order_trans)
  moreover have "rq_retired ?x \<le> RETIRE_GENERATION_MASK"
  proof -
    have "rq_retired ?x < RETIRE_GENERATION_MASK + 1" using x(1) by (auto simp: slot_ok_def intro: less_le_trans)
    then show ?thesis by (simp add: word_less_nat_alt word_le_nat_alt)
  qed
  ultimately have "rq_incarnation ?x = inc" "g \<le> rq_retired ?x"
    using inc g stamp_fields(1,2) [of "rq_incarnation ?x" "rq_retired ?x"] by (simp_all add: st)
  then show ?thesis using assms(2) by (simp add: since_def Let_def)
qed

subsection \<open>Runs\<close>

lemma reset_ok: "registry_ok s \<Longrightarrow> registry_ok (snd (aimdo_xpu_retire_reset D s))"
  by (auto simp: aimdo_xpu_retire_reset_def Let_def registry_ok_def slot_ok_def free_queue_def no_fence_def split: prod.splits)

lemma wait_hist: "wait_queues D qs h = (r, k) \<Longrightarrow> suffix h k"
  by (induction qs arbitrary: h r k) (auto simp: Let_def split: prod.splits dest: suffix_ConsD)

lemma reset_since:
  assumes "since D h q i inc g s"
  shows "since D h q i inc g (snd (aimdo_xpu_retire_reset D s))"
proof -
  have inc: "inc \<noteq> 0" using assms by (simp add: since_def)
  obtain r k where w: "wait_queues D (map the (filter (\<lambda>q. q \<noteq> None) (map (\<lambda>i. rq_queue (rq_slots s i)) [0..<rq_count s]))) (rq_hist s) = (r, k)"
    by (metis surj_pair)
  show ?thesis
    by (rule since_more [OF assms]) (use w wait_hist [OF w] inc in \<open>auto simp: aimdo_xpu_retire_reset_def Let_def free_queue_def\<close>)
qed

lemma register_queue_ok: "registry_ok s \<Longrightarrow> registry_ok (snd (aimdo_xpu_register_consumer_queue D p dev s))"
  using note_ok [of s D p dev] by (auto simp: aimdo_xpu_register_consumer_queue_def split: prod.splits)

lemma register_queue_since: "since D h q i inc g s \<Longrightarrow> since D h q i inc g (snd (aimdo_xpu_register_consumer_queue D p dev s))"
  using note_since [of D h q i inc g s p dev] by (auto simp: aimdo_xpu_register_consumer_queue_def split: prod.splits)

lemma wait_in_turn_hist: "wait_in_turn D qs h = (r, k) \<Longrightarrow> suffix h k"
  by (induction qs arbitrary: h) (auto split: if_splits intro: suffix_ConsI dest: suffix_ConsD)

lemma synchronize_cases:
  obtains "snd (xpu_synchronize_queues D state dev p s) = s"
  | k where "snd (xpu_synchronize_queues D state dev p s) = (snd (aimdo_xpu_register_consumer_queue D p dev s))\<lparr>rq_hist := k\<rparr>"
      "suffix (rq_hist (snd (aimdo_xpu_register_consumer_queue D p dev s))) k"
proof (cases "state = None \<or> p = 0")
  case True
  then have "snd (xpu_synchronize_queues D state dev p s) = s" by (auto simp: xpu_synchronize_queues_def split: option.split)
  then show thesis by (rule that(1))
next
  case False
  then obtain bound where b: "state = Some bound" "p \<noteq> 0" by auto
  obtain ok u where u: "aimdo_xpu_register_consumer_queue D p dev s = (ok, u)" by (metis surj_pair)
  obtain r k where k: "wait_in_turn D (queues_of_device dev bound u) (rq_hist u) = (r, k)" by (metis surj_pair)
  show thesis
  proof (cases ok)
    case True
    then show thesis by (intro that(2) [of k])
      (simp_all add: xpu_synchronize_queues_def b u xpu_synchronize_device_queues_def k wait_in_turn_hist [OF k])
  next
    case False
    then show thesis by (intro that(2) [of "rq_hist u"]) (simp_all add: xpu_synchronize_queues_def b u)
  qed
qed

lemma synchronize_ok: "registry_ok s \<Longrightarrow> registry_ok (snd (xpu_synchronize_queues D state dev p s))"
  by (cases rule: synchronize_cases [of D state dev p s]) (simp_all add: register_queue_ok)

lemma synchronize_since: "since D h q i inc g s \<Longrightarrow> since D h q i inc g (snd (xpu_synchronize_queues D state dev p s))"
  by (cases rule: synchronize_cases [of D state dev p s]) (simp_all add: register_queue_since since_hist)

text \<open>A synchronization that succeeds has waited for every registered queue of the device.\<close>

lemma wait_in_turn_all: "wait_in_turn D qs h = (True, k) \<Longrightarrow> \<forall>q \<in> set qs. \<exists>l. suffix h l \<and> suffix (RqWait q # l) k \<and> D l (RqWait q) \<noteq> RqThrows"
proof (induction qs arbitrary: h)
  case (Cons q qs)
  then have go: "D h (RqWait q) \<noteq> RqThrows" "wait_in_turn D qs (RqWait q # h) = (True, k)" by (auto split: if_splits)
  have "suffix (RqWait q # h) k" by (rule wait_in_turn_hist [OF go(2)])
  moreover have "\<forall>q \<in> set qs. \<exists>l. suffix h l \<and> suffix (RqWait q # l) k \<and> D l (RqWait q) \<noteq> RqThrows"
    using Cons.IH [OF go(2)] by (meson suffix_ConsD)
  ultimately show ?case using go(1) by auto
qed simp

lemma synchronized_all:
  assumes "xpu_synchronize_device_queues D dev bound s = (True, t)" "i < rq_count s" "rq_device (rq_slots s i) = dev" "rq_queue (rq_slots s i) = Some q"
  shows "\<exists>l. suffix (rq_hist s) l \<and> suffix (RqWait q # l) (rq_hist t) \<and> D l (RqWait q) \<noteq> RqThrows"
proof -
  obtain k where k: "wait_in_turn D (queues_of_device dev bound s) (rq_hist s) = (True, k)" "rq_hist t = k"
    using assms(1) by (auto simp: xpu_synchronize_device_queues_def split: prod.splits)
  have "q \<in> set (queues_of_device dev bound s)"
    using assms(2-4) by (cases "q = bound") (force simp: queues_of_device_def)+
  then show ?thesis using wait_in_turn_all [OF k(1)] k(2) by blast
qed

lemma step_ok: "rq_step D s t \<Longrightarrow> registry_ok s \<Longrightarrow> registry_ok t \<and> (since D h q i inc g s \<longrightarrow> since D h q i inc g t)"
proof (induction rule: rq_step.induct)
  case (accept s)
  then show ?case by (simp add: retire_accept_def registry_ok_def since_def)
next
  case (register pointer dev s ok t)
  then show ?case using register_queue_ok [OF register(2)] register_queue_since by (metis snd_conv)
next
  case (token pointer dev s token t)
  then show ?case using token_ok [OF token(2)] token_since [OF token(2)] by (metis snd_conv)
next
  case (snapshot out n force s r t)
  then show ?case using snapshot_ok by blast
next
  case (synchronize state dev pointer s ok t)
  then show ?case using synchronize_ok [OF synchronize(2)] synchronize_since by (metis snd_conv)
next
  case (reset s ok t)
  then show ?case using reset_ok [of s D] reset_since by (metis snd_conv)
qed

lemma steps_ok: "rq_steps D s t \<Longrightarrow> registry_ok s \<Longrightarrow> registry_ok t \<and> (since D h q i inc g s \<longrightarrow> since D h q i inc g t)"
  unfolding rq_steps_def by (induction rule: rtranclp_induct) (use step_ok in blast)+

lemma empty_ok: "registry_ok empty_registry"
  by (simp add: empty_registry_def registry_ok_def slot_ok_def free_queue_def no_fence_def)

lemma completed_token_passed:
  assumes "rq_steps D empty_registry s" "aimdo_xpu_retire_token_current D pointer dev s = (token, t)" "token \<noteq> 0" "rq_steps D t u"
    "aimdo_xpu_retire_snapshot D out n force u = ((copied, completed), v)" "token_complete completed token"
  shows "\<exists>q. names D (rq_hist s) pointer q \<and> passed D q (rq_hist s) (rq_hist v)"
proof -
  have s: "registry_ok s" using steps_ok [OF assms(1)] empty_ok by blast
  then have t: "registry_ok t" using token_ok [of s D pointer dev] assms(2) by simp
  obtain i q inc g where tok: "token = make_token i inc g" "i < kMaxTrackedQueues" "inc \<le> RETIRE_INCARNATION_MASK"
    "g \<le> RETIRE_GENERATION_MASK" "names D (rq_hist s) pointer q" "since D (rq_hist s) q i inc g t"
    by (rule token_issued [OF s assms(2,3)])
  have u: "registry_ok u" "since D (rq_hist s) q i inc g u" using steps_ok [OF assms(4) t] tok(6) by blast+
  then have "registry_ok v" "since D (rq_hist s) q i inc g v" using snapshot_ok [OF assms(5) u(1)] by blast+
  then have "passed D q (rq_hist s) (rq_hist v)"
    using complete_passed [OF _ _ tok(2,3,4) assms(5)] assms(6) tok(1) by blast
  then show ?thesis using tok(5) by blast
qed

end
