(* ===== verification/DemoRetire.thy ===== *)
theory DemoRetire
  imports RetireInv
begin

text \<open>
  A run of the queue registry: one queue, a token, a forced snapshot that submits its barrier, and a snapshot
  that sees it complete.
\<close>

definition demo_rq :: rq_api where
  "demo_rq h c = (case c of RqQueue p \<Rightarrow> RqAnswer [1, 5, 6, 9] | RqDevice d \<Rightarrow> RqAnswer [5, 6] | RqCopy p \<Rightarrow> RqAnswer []
     | RqFence q \<Rightarrow> RqAnswer [3] | RqStatus e \<Rightarrow> RqAnswer [1] | RqWait q \<Rightarrow> RqAnswer [])"

definition demo_slot :: retire_queue where
  "demo_slot = free_queue\<lparr>rq_source := 7, rq_queue := Some 9, rq_device := 0, rq_context := 5, rq_native := 6, rq_incarnation := 1\<rparr>"

definition demo_rq_given :: retire_registry where
  "demo_rq_given = \<lparr>rq_hist = [RqCopy 7, RqDevice 0, RqQueue 7], rq_slots = (\<lambda>_. free_queue)(0 := demo_slot\<lparr>rq_pending := 1\<rparr>),
     rq_count = 1, rq_overflow = False, rq_accepting = True, rq_counter = 1\<rparr>"

definition demo_rq_fenced :: retire_registry where
  "demo_rq_fenced = demo_rq_given\<lparr>rq_hist := [RqFence 9, RqCopy 7, RqDevice 0, RqQueue 7],
     rq_slots := (\<lambda>_. free_queue)(0 := demo_slot\<lparr>rq_open := 2, rq_fences :=
       (replicate kRetireFenceSlots no_fence)[0 := \<lparr>fe_event = 3, fe_generation = 1, fe_valid = True\<rparr>]\<rparr>)\<rparr>"

definition demo_rq_done :: retire_registry where
  "demo_rq_done = demo_rq_given\<lparr>rq_hist := [RqStatus 3, RqFence 9, RqCopy 7, RqDevice 0, RqQueue 7],
     rq_slots := (\<lambda>_. free_queue)(0 := demo_slot\<lparr>rq_open := 2, rq_retired := 1\<rparr>)\<rparr>"

lemma demo_eight: "replicate kRetireFenceSlots f = [f, f, f, f, f, f, f, f]"
  by (simp add: numeral_eq_Suc)

lemmas demo_rq_defs = demo_rq_def demo_slot_def demo_rq_given_def demo_rq_fenced_def demo_rq_done_def demo_eight
  free_queue_def no_fence_def rq_ask_def poll_retire_queue_locked_def upd_queue_def

lemma demo_open_run: "rq_steps demo_rq empty_registry (retire_accept empty_registry)"
  unfolding rq_steps_def by (rule r_into_rtranclp, rule accept)

lemma demo_token_run:
  "aimdo_xpu_retire_token_current demo_rq 7 0 (retire_accept empty_registry) = (1099511627905, demo_rq_given)"
  by (simp add: aimdo_xpu_retire_token_current_def aimdo_xpu_note_queue_locked_def register_slot_def
    retire_accept_def empty_registry_def demo_rq_defs Let_def push_bit_eq_mult)

lemma demo_snapshot_run: "aimdo_xpu_retire_snapshot demo_rq True 64 True demo_rq_given = ((1, 8589934592 # replicate 63 0), demo_rq_fenced)"
  by (simp add: aimdo_xpu_retire_snapshot_def snapshot_slots.simps submit_retire_fence_locked_def slot_stamp_def free_fence_def
    upt_conv_Cons demo_rq_defs Let_def push_bit_eq_mult)

lemma demo_complete_run: "aimdo_xpu_retire_snapshot demo_rq True 64 False demo_rq_fenced = ((1, 8589934593 # replicate 63 0), demo_rq_done)"
  by (simp add: aimdo_xpu_retire_snapshot_def snapshot_slots.simps slot_stamp_def demo_rq_defs Let_def push_bit_eq_mult)

lemma demo_steps_run: "rq_steps demo_rq demo_rq_given demo_rq_fenced"
  unfolding rq_steps_def by (rule r_into_rtranclp, rule snapshot [OF demo_snapshot_run])

lemma demo_token_complete: "token_complete (8589934593 # replicate 63 0) 1099511627905"
  by (simp add: token_complete_def queue_tag_def retire_stamp_def retire_incarnation_def retire_generation_def
    drop_bit_eq_div mask_eq_exp_minus_1)

end
