(* ===== verification/Spec2Isabelle.thy ===== *)
theory Spec2Isabelle
  imports Demo DemoGraph DemoHost DemoHook AllocAsyncInv DemoReader DemoVmm DemoRetire
begin

text \<open>
  A verification library for \<open>comfy-aimdo\<close>, a C library that keeps the weights of large models in
  GPU memory and moves them out again under memory pressure.

  \<^bold>\<open>The program.\<close> The weights of a model are the pages of a \<^emph>\<open>VBAR\<close>, a reserved address range of
  32 MiB pages (\<open>src/model-vbar.c\<close>). A \<^emph>\<open>fault\<close> makes a range of pages resident and pins it, an
  \<^emph>\<open>unpin\<close> publishes who still reads it, and \<^emph>\<open>reclaim\<close> frees pages of the lowest priority when
  an allocation needs memory: on Windows/XPU by freezing candidates, waiting for their consumers and
  committing those that did not change. How much is missing is sampled from the driver
  (\<open>src/control.c\<close>, \<open>src-win/shmem-detect.c\<close>). Around it are the allocators that cause the
  pressure: growing VRAM buffers and the PyTorch plug-in (\<open>src/vrambuf.c\<close>,
  \<open>src/pyt-cu-plug-alloc.c\<close>), the hooked \<open>cuMemAlloc\<close> family (\<open>src/pyt-cu-plug-alloc-async.c\<close>)
  and the allocation graphs (\<open>src/malloc-graph.c\<close>), which record the allocations of a compiled
  region as a tree of events and replay them at the same addresses. Graphs share reference-counted
  physical pages (\<open>src/vmm-ref.c\<close>), and an allocation that outlives its region is handed over to a
  \<^emph>\<open>rogue\<close> (\<open>src/malloc-rogue.c\<close>). The weights come from files: a pool of threads moves file ranges in
  chunks (\<open>src/xfer-file.c\<close>) into host buffers that grow in place (\<open>src/hostbuf.c\<close>, with a thread that
  decommits and a pool that prewarms pages) or through three pinned staging windows
  (\<open>src/hostbuf-file-reader.c\<close>) to the device. On Windows/XPU, hooks of the Unified Runtime see every
  device allocation (\<open>src-xpu/ur-usm-detour.c\<close>) and every copy and fill
  (\<open>src-xpu/ur-copy-residency.c\<close>): the first apply the budget and ask PyTorch for its cache, the second
  hold the VBARs that a copy names until it has completed. There the virtual memory of the device has an
  owner of its own (\<open>src-xpu/vmm-manager.h\<close>).

  \<^bold>\<open>The model.\<close> A C function that touches state is a HOL function from the state to an optional pair
  of its value and the new state; \<open>None\<close> is undefined behaviour, a self-deadlock or a loop that does
  not end, so that \<open>wp m Q\<close> (\<open>Prelude\<close>) is total correctness. What is not under \<open>src/\<close> (the GPU
  driver, the operating system, \<open>malloc\<close>, the Python callbacks) is one parameter \<open>E\<close> (\<open>Env\<close>): an
  arbitrary function of the history of calls, so that a theorem holds for every behaviour of it,
  failures included. The build configuration is part of \<open>E\<close>: each \<open>#if\<close> of the source is an \<open>if\<close>.
  The state is a record that each layer extends: \<open>base\<close> (the history), \<open>ctx\<close> (the fields of
  \<open>AimdoContext\<close>), \<open>gstate\<close> (graphs), \<open>vstate\<close> (VBARs), \<open>mstate\<close> (ranges and physical pages), \<open>rstate\<close>
  (rogues), \<open>astate\<close> (buffers and the size table), \<open>hstate\<close> (host buffers, the decommit queue, the prewarm
  pool), \<open>fstate\<close> (staging windows); and from \<open>vstate\<close>, for the hooks, \<open>cstate\<close> (owners of copies) and \<open>ustate\<close>
  (the allocation hook). The transfer pool has a state of its own, \<open>xfer\<close>, with an inductive step relation
  of clients and workers. Pointers are natural numbers into heaps of the
  state, intrusive linked lists are lists of addresses. Sizes are 64-bit words where they can wrap
  (in the graphs natural numbers with the modulus written out), \<open>ssize_t\<close> values are integers read
  with \<open>sint\<close>. One state is the context of one device as one thread sees it; the locks are counters,
  and a lock that would deadlock its own thread is \<open>None\<close>.

  \<^bold>\<open>The theories.\<close>
  \<^item> \<open>Prelude\<close>, \<open>Env\<close>: the state monad, loops, arrays; calls, answers, what a history has created and mapped.
  \<^item> \<open>Budget\<close>: locks, memory pressure, \<open>three_stooges\<close> (\<open>src/plat.h\<close>, \<open>src/control.c\<close>, \<open>src-win/shmem-detect.c\<close>).
  \<^item> \<open>GraphState\<close>, \<open>VbarState\<close>: the data of \<open>src/malloc-graph.c\<close> and \<open>src/model-vbar.c\<close>.
  \<^item> \<open>VbarStep\<close>, \<open>VbarInv\<close>: the abstract machine of a page, an inductive step relation that every
    operation refines, and the invariant \<open>vinv\<close> with the bytes of everything but VBARs (\<open>other_bytes\<close>).
  \<^item> \<open>VbarRetire\<close>, \<open>VbarPage\<close>, \<open>VbarReclaim\<close>, \<open>VbarEvict\<close>, \<open>VbarSync\<close>, \<open>VbarFault\<close>, \<open>VbarApi\<close>, \<open>VbarApiInv\<close>:
    consumer tokens; mapping and freeing one page; eviction by priority; freezing and committing
    candidates; synchronized reclaim and the flush; the fault; the exported operations and what they do.
  \<^item> \<open>VmmRef\<close>, \<open>Rogue\<close>, \<open>RogueInv\<close>: reference counts with the invariant \<open>pinv\<close>; the handoff of rogues.
  \<^item> \<open>VramBuf\<close>, \<open>VramBufInv\<close>: growing buffers, the PyTorch plug-in; \<open>buffer_ok\<close> and the frame \<open>beside\<close>.
  \<^item> \<open>GraphMap\<close>, \<open>GraphEvent\<close>, \<open>GraphReplay\<close>, \<open>GraphAlloc\<close>, \<open>GraphApi\<close>: every operation of the graphs;
    \<open>GraphSmall\<close> proves the placement of small allocations, \<open>GraphFrame\<close>, \<open>GraphMapInv\<close>, \<open>GraphRoute\<close> and
    \<open>GraphSmallInv\<close> that creating, mapping and placing are all or nothing.
  \<^item> \<open>SizeTable\<close>, \<open>AllocAsync\<close>, \<open>AllocAsyncInv\<close>: the hooked allocator; the locale \<open>ledger\<close> is the interface that
    the size table and the rogue candidates share.
  \<^item> \<open>XferFile\<close>, \<open>XferPlat\<close>: the pool as a step relation and its ring as a queue; the transfer of a chunk on
    both platforms and what a whole transfer moves.
  \<^item> \<open>HostWorker\<close>, \<open>HostBuf\<close>, \<open>HostBufInv\<close>, \<open>HostStream\<close>: the worker threads, the buffers, their invariant and
    what the operations do to it, and what a streamed read moves.
  \<^item> \<open>FileReader\<close>: the staging windows and the pressure before a copy (\<open>src/xpu-copy-pressure.h\<close>).
    \<open>CallFrame\<close> derives which calls an operation can make from the structure of its program. \<open>ReaderInv\<close>
    reads off a history what the device has not finished and states when the windows are well formed
    (\<open>reader_ok\<close>); \<open>ReaderSafe\<close> shows that every operation of the reader keeps that.
  \<^item> \<open>XpuStubs\<close>, \<open>CopyResidency\<close>, \<open>CopyInv\<close>: what the hooks ask of the budget (\<open>src-xpu/stubs.c\<close>); owners,
    submission and poll; every hold is claimed by a pending owner. The reclaim layer asks its
    environment which identities a poll released; the poll is shown to refine this.
  \<^item> \<open>UrTable\<close>, \<open>UrHook\<close>, \<open>UrHookInv\<close>: the table of live pointers with the locale \<open>finite_table\<close>, the hook,
    and its retry protocol and accounting.
  \<^item> \<open>Vmm\<close>, \<open>VmmInv\<close>: the owner of the device's virtual memory (\<open>src-xpu/vmm-manager.h\<close>) with a driver of its own, and
    its refinement of the device (\<open>mirrors\<close>, \<open>legal_history\<close>).
  \<^item> \<open>RetireQueue\<close>, \<open>RetireInv\<close>: the registry of consumer queues that gives out the tokens of
    \<open>VbarRetire\<close> (\<open>src-xpu/dispatch.cpp\<close>); a step relation over all its operations, and what follows one slot
    from a token on (\<open>since\<close>).
  \<^item> \<open>Demo\<close>, \<open>DemoAlloc\<close>, \<open>DemoGraph\<close>, \<open>DemoHost\<close>, \<open>DemoHook\<close>, \<open>DemoReader\<close>, \<open>DemoVmm\<close>, \<open>DemoRetire\<close>: concrete states for the witnesses.

  \<^bold>\<open>What is shown.\<close> Every operation of the VBARs refines the page machine and keeps \<open>vinv\<close>; faults
  and reclaims end and are all or nothing; bytes are accounted exactly; candidates are taken only
  unchanged; physical pages are released exactly with their last reference; a rogue handoff and a
  hooked allocation are atomic; a buffer never outgrows its handle array; a small graph allocation
  never overlaps a live one. Every transfer returns under every schedule and moves exactly what it was
  asked for; the records of a host buffer bound what is committed; a copy never outlives the holds on its
  VBARs; a page is complete only after barriers on the queues that used it; staging memory is not touched while the device uses it; the memory manager makes only calls that the
  device admits; no allocation request is refused twice, and the bytes accounted are those of live pointers. The
  properties C1 to C40 below state this over the definitions.

  \<^bold>\<open>Fuel.\<close> A loop that the code bounds by data runs with that bound: the number of VBARs plus one for a
  scan of the list, the pages of a VBAR for a cursor, the free-memory rounds of the flush by the
  resident pages, the chunks that are missing for a grow, the pages of the graph for its search, and for a transfer of the
  file reader one window per 16 MiB, since a window with less room is only taken for the end of a transfer.
  \<open>wp\<close> of these loops, which is proved, says that the fuel is enough. \<open>materialize\<close> and
  \<open>scrub_rogue_snapshots\<close> are \<open>partial_function\<close>s: they need not end on a malformed tree.

  \<^bold>\<open>Not modelled.\<close> The C++ glue to SYCL, Unified Runtime and Level Zero and the dispatch tables (but for the
  queue registry and the memory manager) are the driver boundary, and so is the Linux twin of the allocation hook (\<open>src-xpu/ur-usm-hook.cpp\<close>), which is
  C++. \<open>src-xpu/ze-detour.c\<close> makes the calls of \<open>XpuStubs\<close> around calls of the driver. Logging, the discovery
  of adapters, the walk over the modules of a process and thin wrappers of threads, modules and file
  mapping are input and output only.
\<close>

section \<open>The residency state machine of the VBARs\<close>

text \<open>
  C1: a fault on any range of any live VBAR returns, whatever the driver answers and however much
  memory has to be reclaimed. On success exactly the pages of the range gained one pin each and
  are mapped, the signature lists their serial numbers, and every pin of every other page is as
  before; on an error no pin at all has changed. The invariant and the bytes of the other
  components are kept.
\<close>

theorem fault_all_or_nothing:
  assumes "vinv E s" "graph_ok s" "create_fresh E" "vheap s v = Some mv"
  shows "wp (vbar_fault E v offset bytes s) (\<lambda>r t. fault_result E v offset bytes s r t \<and>
    vinv E t \<and> other_bytes t = other_bytes s)"
  by (rule wp_conseq [OF wp_vbar_fault [OF assms]])
    (use assms(1) in \<open>auto simp: fault_result_def intro: vinv_vsteps other_bytes_vsteps\<close>)

theorem fault_all_or_nothing_witness:
  "wp (vbar_fault (happy_env True True) 0 33554432 33554432 demo_state)
     (\<lambda>r t. fault_result (happy_env True True) 0 33554432 33554432 demo_state r t \<and>
       vinv (happy_env True True) t \<and> other_bytes t = other_bytes demo_state)"
  by (rule fault_all_or_nothing) (simp_all add: create_fresh_happy)

text \<open>
  C2: a reclaim frees whole pages from the lowest priority VBAR up, never a pinned or held page,
  never below a watermark limit, and frees all it was asked for unless every VBAR it may touch is
  down to its limit.
\<close>

theorem reclaim_lowest_first:
  assumes "vinv E s" "graph_ok s"
  shows "wp (vbars_free_internal E bytes preserved allow s) (\<lambda>r t.
    reclaim_result E preserved allow (if bytes \<le> 0 then 0 else VBAR_GET_PAGE_NR_UP (word_of_int bytes)) r s t \<and>
    vinv E t \<and> other_bytes t = other_bytes s)"
  by (rule wp_conseq [OF wp_vbars_free_internal [OF assms]])
    (use assms(1) in \<open>auto simp: reclaim_result_def reclaim_steps_def intro: vinv_vsteps other_bytes_vsteps\<close>)

theorem reclaim_lowest_first_witness:
  "wp (vbars_free_internal (happy_env False False) 40000000 None True demo_state) (\<lambda>r t.
    reclaim_result (happy_env False False) None True
      (if (40000000::int) \<le> 0 then 0 else VBAR_GET_PAGE_NR_UP (word_of_int 40000000)) r demo_state t \<and>
    vinv (happy_env False False) t \<and> other_bytes t = other_bytes demo_state)"
  by (rule reclaim_lowest_first) simp_all

text \<open>
  C3: committing frozen candidates takes only pages that still are what was frozen (same VBAR
  identity, page, handle, serial and generation) and that are mapped, unpinned, not held and of
  known retirement; every other page keeps its mapping, and the accounted bytes fall by exactly
  the pages reported freed.
\<close>

theorem commit_takes_only_what_was_frozen:
  assumes "vinv E s" "winxpu E"
  shows "wp (vbar_commit_candidates E cs s) (\<lambda>freed t.
    vsteps E (gone E (matched s cs)) no_field s t \<and> vbar_lock_depth t = vbar_lock_depth s \<and>
    freed \<le> length cs \<and> total_vram_usage t = total_vram_usage s - of_nat freed * VBAR_PAGE_SIZE)"
  by (rule wp_vbar_commit_candidates [OF assms])

theorem commit_takes_only_what_was_frozen_witness:
  "wp (vbar_commit_candidates (happy_env True True)
       [\<lparr>cand_identity = 1, cand_page_nr = 0, cand_handle = 7, cand_serial = 1, cand_generation = 0\<rparr>] demo_state)
     (\<lambda>freed t. vsteps (happy_env True True) (gone (happy_env True True) (matched demo_state
       [\<lparr>cand_identity = 1, cand_page_nr = 0, cand_handle = 7, cand_serial = 1, cand_generation = 0\<rparr>]))
         no_field demo_state t \<and>
       vbar_lock_depth t = vbar_lock_depth demo_state \<and>
       freed \<le> length [\<lparr>cand_identity = 1, cand_page_nr = 0, cand_handle = 7, cand_serial = 1, cand_generation = 0\<rparr>] \<and>
       total_vram_usage t = total_vram_usage demo_state - of_nat freed * VBAR_PAGE_SIZE)"
  by (rule commit_takes_only_what_was_frozen) simp_all

text \<open>
  C4: the asynchronous reclaim ends and takes only pages the device is provably done with: every
  consumer token of the page is complete in the snapshot the reclaim took, the VBAR is not the
  preserved one, has no copy in flight and no writeback callback, and the page lies at or above
  both its watermark and its limit.
\<close>

theorem retired_reclaim_takes_completed_pages:
  assumes "vinv E s" "winxpu E"
  shows "wp (vbars_free_retired_except E bytes preserved s) (\<lambda>left t. reclaim_bounded E
    (retired_just s (take RETIRE_MAX_QUEUES (r_vals (drv E (hist s) RetireSnapshot))) preserved)
    (if bytes \<le> 0 then 0 else VBAR_GET_PAGE_NR_UP (word_of_int bytes)) s left t \<and> vinv E t)"
  by (rule wp_conseq [OF wp_vbars_free_retired_except [OF assms]])
    (use assms(1) in \<open>auto simp: reclaim_bounded_def intro: vinv_vsteps\<close>)

theorem retired_reclaim_takes_completed_pages_witness:
  "wp (vbars_free_retired_except (happy_env True True) 33554432 None demo_state) (\<lambda>left t.
    reclaim_bounded (happy_env True True)
    (retired_just demo_state (take RETIRE_MAX_QUEUES (r_vals (drv (happy_env True True) (hist demo_state) RetireSnapshot))) None)
    (if (33554432::int) \<le> 0 then 0 else VBAR_GET_PAGE_NR_UP (word_of_int 33554432)) demo_state left t \<and>
    vinv (happy_env True True) t)"
  by (rule retired_reclaim_takes_completed_pages) simp_all

text \<open>
  C5: the synchronized reclaim ends, frees no more pages than asked and only at or above the
  watermark limit of VBARs other than the preserved one.
\<close>

theorem synchronized_reclaim_bounded:
  assumes "vinv E s" "winxpu E"
  shows "wp (vbars_free_synchronized_except E bytes preserved s) (\<lambda>left t.
    reclaim_bounded E (reference_just s preserved)
      (if bytes \<le> 0 then 0 else VBAR_GET_PAGE_NR_UP (word_of_int bytes)) s left t \<and> vinv E t)"
  by (rule wp_conseq [OF wp_vbars_free_synchronized [OF assms]])
    (use assms(1) in \<open>auto simp: reclaim_bounded_def intro: vinv_vsteps\<close>)

theorem synchronized_reclaim_bounded_witness:
  "wp (vbars_free_synchronized_except (happy_env True True) 1 (Some 5) demo_state) (\<lambda>left t.
    reclaim_bounded (happy_env True True) (reference_just demo_state (Some 5))
      (if (1::int) \<le> 0 then 0 else VBAR_GET_PAGE_NR_UP (word_of_int 1)) demo_state left t \<and>
    vinv (happy_env True True) t)"
  by (rule synchronized_reclaim_bounded) simp_all

text \<open>
  C6: freeing a page range of one model touches only pages of that range of the VBAR with that
  identity, and only while it is not being closed.
\<close>

theorem model_range_reclaim_confined:
  assumes "vinv E s" "winxpu E"
  shows "wp (vbar_free_model_range_synchronized E ident lo hi n s) (\<lambda>freed t.
    vsteps E (gone E (model_just s ident lo hi)) no_field s t \<and> vbar_lock_depth t = vbar_lock_depth s \<and>
    freed \<le> n \<and> total_vram_usage t = total_vram_usage s - of_nat freed * VBAR_PAGE_SIZE)"
  by (rule wp_free_model_range [OF assms])

theorem model_range_reclaim_confined_witness:
  "wp (vbar_free_model_range_synchronized (happy_env True True) 1 0 2 5 demo_state) (\<lambda>freed t.
    vsteps (happy_env True True) (gone (happy_env True True) (model_just demo_state 1 0 2)) no_field demo_state t \<and>
    vbar_lock_depth t = vbar_lock_depth demo_state \<and>
    freed \<le> 5 \<and> total_vram_usage t = total_vram_usage demo_state - of_nat freed * VBAR_PAGE_SIZE)"
  by (rule model_range_reclaim_confined) simp_all

text \<open>
  C7: the flush of all retired pages ends, although its loop has no bound of its own: a round that
  frees something leaves fewer physical pages. It takes only pages whose consumers are complete,
  and does nothing at all where asynchronous reclaim is off.
\<close>

theorem flush_ends:
  assumes "vinv E s" "winxpu E"
  shows "wp (vbars_free_all_retired E s) (\<lambda>freed t. vsteps E (flush_page E) released_hold s t \<and>
    vbar_lock_depth t = vbar_lock_depth s \<and> (\<not> async_reclaim E \<longrightarrow> freed = 0 \<and> t = s))"
  by (rule wp_vbars_free_all_retired [OF assms])

theorem flush_ends_witness:
  "wp (vbars_free_all_retired (happy_env True True) demo_state) (\<lambda>freed t.
    vsteps (happy_env True True) (flush_page (happy_env True True)) released_hold demo_state t \<and>
    vbar_lock_depth t = vbar_lock_depth demo_state \<and>
    (\<not> async_reclaim (happy_env True True) \<longrightarrow> freed = 0 \<and> t = demo_state))"
  by (rule flush_ends) simp_all

section \<open>Consumers\<close>



text \<open>
  C9: a page whose consumers are complete in a snapshot of the queue registry was last used before a
  barrier: for each of its tokens that the registry gave out, a barrier was submitted to the queue that the
  consumer's pointer named, after the token was asked for, and has been seen complete. This holds across
  any later operations, resets and reuse of slots included.
\<close>

theorem page_complete_after_barrier:
  assumes "rq_steps D empty_registry s" "aimdo_xpu_retire_token_current D pointer dev s = (token, t)" "token \<noteq> 0"
    and "rq_steps D t u" "aimdo_xpu_retire_snapshot D out n force u = ((copied, completed), v)"
    and "token \<in> set (retire_tokens rp)" "vbar_retire_complete rp completed"
  shows "\<exists>q. names D (rq_hist s) pointer q \<and> passed D q (rq_hist s) (rq_hist v)"
  by (rule completed_token_passed [OF assms(1-5)])
    (use assms(6,7) in \<open>auto simp: vbar_retire_complete_def list_all_iff split: if_splits\<close>)

theorem page_complete_after_barrier_witness:
  "\<exists>q. names demo_rq (rq_hist (retire_accept empty_registry)) 7 q \<and>
     passed demo_rq q (rq_hist (retire_accept empty_registry)) (rq_hist demo_rq_done)"
  by (rule page_complete_after_barrier [OF demo_open_run demo_token_run _ demo_steps_run demo_complete_run,
      where rp = "fresh_page\<lparr>retire_tokens := [1099511627905]\<rparr>"])
    (use demo_token_complete in \<open>simp_all add: fresh_page_def vbar_retire_complete_def vbar_consumer_held_def\<close>)



section \<open>Creating and ordering VBARs\<close>

text \<open>
  C11: a new VBAR has the highest priority, all its pages empty and its watermark at the top; when
  the size cannot be rounded, the metadata overflows, memory runs out or the reservation fails,
  nothing has changed.
\<close>

theorem allocate_creates_an_empty_vbar:
  assumes "vinv E s" "identity_fresh s"
  shows "wp (vbar_allocate E header page bytes dev callback s) (\<lambda>r t. vinv E t \<and> other_bytes t = other_bytes s \<and>
    total_vram_usage t = total_vram_usage s \<and> vbar_lock_depth t = vbar_lock_depth s \<and>
    (case r of
       None \<Rightarrow> vheap t = vheap s \<and> vorder t = vorder s
     | Some v \<Rightarrow> \<exists>mv n. created s v mv t \<and> vbar_page_count bytes = Some n \<and> nr_pages mv = vbar_clamped_pages E s n \<and>
         watermark mv = nr_pages mv \<and> resident_count mv = 0 \<and> pageout_size mv = bytes \<and>
         (\<forall>rp \<in> set (residency_map mv). rp = fresh_page)))"
  by (rule wp_vbar_allocate [OF assms])

theorem allocate_creates_an_empty_vbar_witness:
  "wp (vbar_allocate (happy_env False True) 128 640 100000000 0 False demo_state) (\<lambda>r t.
    vinv (happy_env False True) t \<and> other_bytes t = other_bytes demo_state \<and>
    total_vram_usage t = total_vram_usage demo_state \<and> vbar_lock_depth t = vbar_lock_depth demo_state \<and>
    (case r of
       None \<Rightarrow> vheap t = vheap demo_state \<and> vorder t = vorder demo_state
     | Some v \<Rightarrow> \<exists>mv n. created demo_state v mv t \<and> vbar_page_count 100000000 = Some n \<and>
         nr_pages mv = vbar_clamped_pages (happy_env False True) demo_state n \<and>
         watermark mv = nr_pages mv \<and> resident_count mv = 0 \<and> pageout_size mv = 100000000 \<and>
         (\<forall>rp \<in> set (residency_map mv). rp = fresh_page)))"
  by (rule allocate_creates_an_empty_vbar) (simp_all add: identity_fresh_def)

text \<open>
  Prioritizing moves the VBAR to the top, raises its watermark to its size and keeps the
  relative order of the others.
\<close>

theorem prioritize_moves_to_top:
  assumes "vinv E s" "vheap s v = Some mv"
  shows "wp (vbar_prioritize E v clamp s) (\<lambda>_ t. vorder t = filter (\<lambda>w. w \<noteq> v) (vorder s) @ [v] \<and>
    vheap t = (vheap s)(v \<mapsto> mv\<lparr>watermark := nr_pages mv\<rparr>) \<and> malloc_async_clamp t = clamp \<and>
    vinv E t \<and> other_bytes t = other_bytes s \<and> hist t = hist s \<and> vbar_lock_depth t = vbar_lock_depth s)"
  by (rule wp_vbar_prioritize [OF assms])

theorem prioritize_moves_to_top_witness:
  "wp (vbar_prioritize (happy_env False True) 0 5 demo_state) (\<lambda>_ t. vorder t = filter (\<lambda>w. w \<noteq> 0) (vorder demo_state) @ [0] \<and>
    vheap t = (vheap demo_state)(0 \<mapsto> demo_vbar\<lparr>watermark := nr_pages demo_vbar\<rparr>) \<and> malloc_async_clamp t = 5 \<and>
    vinv (happy_env False True) t \<and> other_bytes t = other_bytes demo_state \<and> hist t = hist demo_state \<and>
    vbar_lock_depth t = vbar_lock_depth demo_state)"
  by (rule prioritize_moves_to_top) simp_all

text \<open>Deprioritizing moves the VBAR to the bottom and changes nothing else.\<close>

theorem deprioritize_moves_to_bottom:
  assumes "vinv E s" "vheap s v = Some mv"
  shows "wp (vbar_deprioritize E v s) (\<lambda>_ t. vorder t = v # filter (\<lambda>w. w \<noteq> v) (vorder s) \<and> vheap t = vheap s \<and>
    vinv E t \<and> other_bytes t = other_bytes s \<and> hist t = hist s \<and> vbar_lock_depth t = vbar_lock_depth s)"
  by (rule wp_vbar_deprioritize [OF assms])

theorem deprioritize_moves_to_bottom_witness:
  "wp (vbar_deprioritize (happy_env False False) 0 demo_state) (\<lambda>_ t.
    vorder t = 0 # filter (\<lambda>w. w \<noteq> 0) (vorder demo_state) \<and> vheap t = vheap demo_state \<and>
    vinv (happy_env False False) t \<and> other_bytes t = other_bytes demo_state \<and> hist t = hist demo_state \<and>
    vbar_lock_depth t = vbar_lock_depth demo_state)"
  by (rule deprioritize_moves_to_bottom) simp_all

section \<open>Pages and their bounds\<close>

text \<open>
  C12: the page range of a fault is the exact set of pages that the bytes touch, computed without
  wrap-around, and there is none exactly when the bytes do not lie in the reservation.
\<close>

theorem fault_range_exact:
  "vbar_fault_page_range mv offset b = Some (lo, hi) \<longleftrightarrow>
     nr_pages mv < 2 ^ 39 \<and> unat offset + unat b \<le> nr_pages mv * 33554432 \<and>
     lo = unat offset div 33554432 \<and> hi = (unat offset + unat b + 33554431) div 33554432"
  by (simp add: vbar_fault_page_range_Some)

text \<open>The page count of a size rounds up over the integers and refuses the sizes that would wrap.\<close>

theorem page_count_exact:
  "vbar_page_count b = (if unat b + 33554431 < 2 ^ 64 then Some ((unat b + 33554431) div 33554432) else None)"
  using vbar_page_count_Some [of b] by (cases "vbar_page_count b") (auto split: if_splits)





section \<open>Memory pressure\<close>

text \<open>
  C15: creating, mapping and opening an allocation either leaves it mapped at its address under a
  fresh handle with its bytes accounted, or fails with no bytes accounted and every earlier
  allocation still live; mappings elsewhere are never touched.
\<close>

theorem three_stooges_accounts:
  "wp (three_stooges E a n d s) (\<lambda>r t.
     t = s\<lparr>hist := hist t, total_vram_usage := total_vram_usage s + (case r of Inl _ \<Rightarrow> 0 | Inr _ \<Rightarrow> n)\<rparr> \<and>
     (\<forall>x. n \<le> x - a \<longrightarrow> x \<noteq> a \<longrightarrow> mappings E (hist t) x = mappings E (hist s) x) \<and>
     (case r of
        Inl e \<Rightarrow> e \<noteq> CUDA_SUCCESS \<and> (create_fresh E \<longrightarrow> live_handles E (hist s) \<subseteq> live_handles E (hist t))
      | Inr hn \<Rightarrow> mappings E (hist t) a = Some (n, hn) \<and>
          (create_fresh E \<longrightarrow> hn \<noteq> 0 \<and> hn \<notin> live_handles E (hist s)) \<and>
          live_handles E (hist t) = insert hn (live_handles E (hist s))))"
  by (rule wp_three_stooges)

theorem three_stooges_accounts_witness:
  "wp (three_stooges (happy_env False False) 0 33554432 0 demo_state) (\<lambda>r t.
     total_vram_usage t = 33554432 + (case r of Inl _ \<Rightarrow> 0 | Inr _ \<Rightarrow> 33554432) \<and>
     (case r of Inl _ \<Rightarrow> live_handles (happy_env False False) (hist demo_state) \<subseteq> live_handles (happy_env False False) (hist t)
      | Inr hn \<Rightarrow> mappings (happy_env False False) (hist t) 0 = Some (33554432, hn) \<and> hn \<noteq> 0))"
proof (rule wp_conseq [OF three_stooges_accounts], elim conjE, goal_cases)
  case (1 r t)
  from arg_cong [OF 1(1), of total_vram_usage] 1(3) show ?case
    by (cases r) (simp_all add: create_fresh_happy)
qed

text \<open>
  The deficit is the larger of the static and the sampled one plus the extra headroom, and
  computing it only queries the system: no counter of the context but the samples changes.
\<close>

theorem budget_deficit_only_samples:
  "wp (budget_deficit E n s) (\<lambda>d t. sampled s t \<and>
     d = max (deficit_simple t n) (deficit_delta t n) + sint (extra_vram_headroom t))"
  by (rule wp_budget_deficit)

text \<open>The headroom of an integrated device is a sixteenth of its memory, kept between 2 and 8 GiB.\<close>

theorem integrated_headroom_clamped:
  "unat (calculate_integrated_ram_headroom total_bytes) = max (2 ^ 31) (min (2 ^ 33) (unat total_bytes div 16))"
  by (simp add: calculate_integrated_ram_headroom_def Let_def word_less_nat_alt unat_div)

section \<open>Physical pages, rogue allocations and VRAM buffers\<close>





text \<open>
  A free that reaches the allocator before the handoff only marks the candidate: the handoff
  that follows will find it freed, other candidates and all the memory are as before.
\<close>

theorem early_free_marks_candidate:
  assumes "allocations_lock_depth s = 0" "find_rogue ptr s = None" "find_candidate ptr s = Some c"
  shows "\<exists>t. free_rogue E ptr s = Some (Some 0, t) \<and> candidate_verdict ptr t = ROGUE_HANDOFF_FREED \<and>
    (\<forall>q. q \<noteq> ptr \<longrightarrow> candidate_verdict q t = candidate_verdict q s) \<and> untouched s t \<and> hist t = hist s"
  by (rule free_candidate [OF assms])

theorem early_free_marks_candidate_witness:
  "\<exists>t. free_rogue (happy_env True True) (2 ^ 41) demo_astate = Some (Some 0, t) \<and>
    candidate_verdict (2 ^ 41) t = ROGUE_HANDOFF_FREED \<and>
    (\<forall>q. q \<noteq> 2 ^ 41 \<longrightarrow> candidate_verdict q t = candidate_verdict q demo_astate) \<and> untouched demo_astate t \<and>
    hist t = hist demo_astate"
  by (rule early_free_marks_candidate) (simp_all add: find_rogue_def find_candidate_def)

text \<open>
  C18: growing a VRAM buffer ends. Whatever the driver answers, the buffer stays well formed (one
  handle per chunk, never past its handle array or its reservation), keeps the chunks it had, and
  the bytes it gained are exactly the bytes accounted; when the answer is yes it has at least the
  size asked for. Reclaimed VBARs apart nothing else changes.
\<close>

theorem vram_buffer_grow_accounts:
  assumes "vinv E s" "graph_ok s" "vram_bufs s b = Some buf" "buffer_ok E buf"
  shows "wp (vrambuf_grow E (Some b) required s) (\<lambda>ok t. grown E b s t \<and>
    (ok \<longrightarrow> (\<exists>buf. vram_bufs t b = Some buf \<and> required \<le> vb_allocated buf)))"
  by (rule wp_conseq [OF wp_vrambuf_grow [OF assms]]) (simp add: grow_result_def)

theorem vram_buffer_grow_accounts_witness:
  "wp (vrambuf_grow (happy_env True True) (Some 3) 20000000 demo_astate) (\<lambda>ok t. grown (happy_env True True) 3 demo_astate t \<and>
    (ok \<longrightarrow> (\<exists>buf. vram_bufs t 3 = Some buf \<and> 20000000 \<le> vb_allocated buf)))"
  by (rule vram_buffer_grow_accounts [of _ _ _ demo_buffer]) (simp_all only: demo_astate_sel demo_astate_vinv demo_astate_graph_ok demo_buffer_ok fun_upd_same)

section \<open>The hooked allocator\<close>





section \<open>Allocation graphs\<close>

text \<open>
  C21: the offset that a graph picks for a small allocation is either inside the region, in a hole
  that no interval in use overlaps, or at or after its end; so it never overlaps a range that ends
  within the region, as every live range does. The search ends for every list of intervals.
\<close>

theorem small_offset_free:
  assumes "starts_below (set intervals) limit" "0 < bytes" "i \<in> set intervals" "fst i + snd i \<le> limit"
  shows "\<not> overlaps (small_offset intervals limit bytes) bytes i"
  using small_offset_ok(2) [OF assms(1-3)] assms(4) by auto

theorem small_offset_free_witness:
  "\<not> overlaps (small_offset [(0, 4096), (8192, 4096)] 12288 4096) 4096 (8192, 4096)"
  by (rule small_offset_free) (simp_all add: starts_below_def)


text \<open>
  C23: a small request to the active graph while it records. When it is not routed to the graph
  (another stream, paused, failed, a candidate freed early) the answer is that the graph does not
  take it, and only the failure mark can change. Else the graph either places it, in mapped pages of
  the small region, over none of the live ranges, with its bytes accounted and a new event that the
  frame tracks, or fails; the graph stays well formed and everything outside it is kept.
\<close>

theorem graph_places_small_alloc:
  assumes "ready E s" "active_graph s = Some g" "graphs s g = Some mg" "graph_wf s mg"
    "fr_recording (hd (mg_state mg))" "0 < n" "n < MG_SMALL_LIMIT"
  shows "wp (malloc_graph_alloc E n stream s) (\<lambda>r t. if routed s mg stream
    then \<exists>a. r = Some a \<and> small_allocated E g (align_up n MG_SMALL_ALIGN) s mg a t
    else r = None \<and> gstep E g s t \<and> graphs t g = Some (mg\<lparr>mg_failed := mg_failed mg \<or> freed_candidates s mg\<rparr>))"
  by (rule wp_graph_alloc_small [OF assms])

theorem graph_places_small_alloc_witness:
  "wp (malloc_graph_alloc (happy_env True False) 3000 0 demo_gstate) (\<lambda>r t. if routed demo_gstate demo_graph 0
    then \<exists>a. r = Some a \<and> small_allocated (happy_env True False) 9 (align_up 3000 MG_SMALL_ALIGN) demo_gstate demo_graph a t
    else r = None \<and> gstep (happy_env True False) 9 demo_gstate t \<and>
      graphs t 9 = Some (demo_graph\<lparr>mg_failed := mg_failed demo_graph \<or> freed_candidates demo_gstate demo_graph\<rparr>))"
  by (rule graph_places_small_alloc) (simp_all, simp add: demo_graph_def demo_frame_def)





text \<open>
  C26: the task ring of the transfer pool refines a bounded FIFO queue: a push into a ring that is
  not full appends to the list of its items and overwrites none of them, a pop of one that is not
  empty takes the first, and both keep the indices consistent, round the end of the array too.
\<close>

theorem ring_refines_queue:
  assumes "ring_ok r"
  shows "(ring_count r < XFER_FILE_QUEUE_CAP \<longrightarrow> ring_ok (ring_push x r) \<and> ring_items (ring_push x r) = ring_items r @ [x]) \<and>
    (ring_count r \<noteq> 0 \<longrightarrow> ring_ok (snd (ring_pop r)) \<and> ring_items r = fst (ring_pop r) # ring_items (snd (ring_pop r)))"
  using ring.push_ok [OF assms] ring.push_items [OF assms] ring.pop_ok [OF assms] ring.pop_items [OF assms]
  by (simp flip: length_greater_0_conv)

theorem ring_refines_queue_witness:
  "ring_ok \<lparr>ring_slots = (\<lambda>k. k), ring_head = 254, ring_tail = 1, ring_count = 3\<rparr> \<and>
   ring_items (ring_push (7 :: nat) \<lparr>ring_slots = (\<lambda>k. k), ring_head = 254, ring_tail = 1, ring_count = 3\<rparr>) = [254, 255, 0, 7]"
proof -
  have "ring_ok \<lparr>ring_slots = (\<lambda>k. k :: nat), ring_head = 254, ring_tail = 1, ring_count = 3\<rparr>" by (simp add: ring_ok_def)
  with ring_refines_queue [OF this, of 7] show ?thesis by (simp add: ring_items_def numeral_3_eq_3)
qed

text \<open>
  C27: in every interleaving of clients and workers, when a file transfer returns, each of its chunks
  has been transferred exactly once, the answer is yes exactly when none of them failed, and no queued
  or running task refers to its stack any more.
\<close>

theorem transfer_returns_exact:
  assumes "xreachable x" "xfer_return w x = Some (ok, y)"
  shows "\<exists>c. xf_clients x w = Some c \<and> tasks_for w (done_tasks x) = first_chunks w c (chunk_count (xc_size c)) \<and>
    (ok \<longleftrightarrow> (\<forall>(t, b) \<in> set (xf_io x). xt_wait t = w \<longrightarrow> b)) \<and> (\<forall>t \<in># open_tasks y. xt_wait t \<noteq> w)"
  by (rule return_exact [OF assms])

theorem transfer_returns_exact_witness:
  "\<exists>c. xf_clients demo_finished 1 = Some c \<and> tasks_for 1 (done_tasks demo_finished) = first_chunks 1 c (chunk_count (xc_size c)) \<and>
    (True \<longleftrightarrow> (\<forall>(t, b) \<in> set (xf_io demo_finished). xt_wait t = 1 \<longrightarrow> b)) \<and>
    (\<forall>t \<in># open_tasks (demo_finished\<lparr>xf_clients := Map.empty, xf_waits := Map.empty\<rparr>). xt_wait t \<noteq> 1)"
  by (rule transfer_returns_exact [OF demo_finished_reachable demo_returns])







text \<open>
  C31: giving host memory back. A truncation ends and either cuts the buffer to the size asked for,
  handing what lies above to the decommit thread (and the whole reservation when nothing is left), or
  says no with the record of the buffer unchanged (or cut to nothing but still reserved); the queue
  never holds more than its limit and counts every buffer's jobs exactly. A free ends and leaves no job
  behind that refers to the freed buffer. The other buffers are untouched.
\<close>

theorem host_truncate_and_free:
  assumes "pages_ok E" "host_wf s" "host_bufs s b = Some hb" "hb_ok E hb" "unat (hb_reserved_size hb) < 2 ^ 62"
  shows "wp (hostbuf_truncate E (Some b) n do_unregister s) (\<lambda>r t. truncated E b hb n s r t \<and>
      (\<exists>hb'. host_bufs t b = Some hb' \<and> hb_ok E hb')) \<and>
    wp (hostbuf_free E (Some b) s) (\<lambda>_ t. host_wf t \<and> host_bufs t b = None \<and> jobs_of b (decommit_queue t) = 0 \<and>
      (\<forall>c. c \<noteq> b \<longrightarrow> bufs_like t c = bufs_like s c))"
  using wp_conseq [OF wp_hostbuf_truncate_impl [OF assms(2-4), of n do_unregister]] truncated_ok [OF _ assms(3,1,4,5)]
    wp_hostbuf_free [OF assms(2-4)]
  by (simp add: hostbuf_truncate_def)

theorem host_truncate_and_free_witness:
  "wp (hostbuf_truncate (happy_env False False) (Some 5) 4096 False demo_hstate)
      (\<lambda>r t. truncated (happy_env False False) 5 demo_hb 4096 demo_hstate r t \<and>
        (\<exists>hb'. host_bufs t 5 = Some hb' \<and> hb_ok (happy_env False False) hb')) \<and>
    wp (hostbuf_free (happy_env False False) (Some 5) demo_hstate) (\<lambda>_ t. host_wf t \<and> host_bufs t 5 = None \<and>
      jobs_of 5 (decommit_queue t) = 0 \<and> (\<forall>c. c \<noteq> 5 \<longrightarrow> bufs_like t c = bufs_like demo_hstate c))"
  by (rule host_truncate_and_free) (simp_all, simp add: demo_hb_def)

text \<open>
  C32: reading a slice of a file through a host buffer ends, and when it says yes it has read exactly
  the file range into the buffer at the offset, in contiguous pieces, and when a device address is given
  copied exactly those bytes to the device, each of them after it was read; the pressure samples in
  between move nothing.
\<close>

theorem read_file_slice_streams:
  assumes "io_live E" "unat n < 2 ^ 63" "host_bufs s b = Some hb" "n \<noteq> 0"
  shows "wp (hostbuf_read_file_slice E (Some b) dev fd file_offset n offset stream dst s) (\<lambda>ok t. ok \<longrightarrow> hb_base_address hb \<noteq> 0 \<and>
    streamed_to E fd file_offset (hb_base_address hb + offset) dst stream (hist s) (unat n) (if dst = 0 then 0 else unat n) (hist t))"
  by (rule wp_read_file_slice [OF assms])

theorem read_file_slice_streams_witness:
  "\<exists>ok t. hostbuf_read_file_slice (io_env True) (Some 5) 0 3 4096 8192 0 1 (2 ^ 40) demo_hstate = Some (ok, t) \<and>
    (ok \<longrightarrow> streamed_to (io_env True) 3 4096 (2 ^ 44) (2 ^ 40) 1 [MemCreate 2097152 0] 8192 8192 (hist t))"
  using read_file_slice_streams [of "io_env True" 8192 demo_hstate 5 demo_hb 0 3 4096 0 1 "2 ^ 40"]
  by (simp add: wp_def demo_hb_def split: option.splits prod.splits)

section \<open>The hooks of the Unified Runtime\<close>





text \<open>
  C35: an allocation request that the hook sees reaches the runtime, or is refused with the error that
  makes PyTorch release its cache, and a refusal leaves the record that the retry of the request will
  match; a request that matches such a record always reaches the runtime, so none is refused twice.
\<close>

theorem no_request_refused_twice:
  assumes "is_win E" "true_alloc s \<noteq> 0"
  shows "wp (aimdo_urUSMDeviceAlloc E th context dev pool n out s) (decided th context dev pool n (ur_generation s)
    (ur_enabled s \<and> \<not> retry_matches (ur_retry s th) context dev pool n (ur_generation s)) s)"
  by (rule wp_alloc_decided [OF assms])

theorem no_request_refused_twice_witness:
  "wp (aimdo_urUSMDeviceAlloc hook_env 0 5 6 7 4096 True demo_ustate) (decided 0 5 6 7 4096 (ur_generation demo_ustate)
    (ur_enabled demo_ustate \<and> \<not> retry_matches (ur_retry demo_ustate 0) 5 6 7 4096 (ur_generation demo_ustate)) demo_ustate)"
  by (rule no_request_refused_twice) simp_all

text \<open>
  C36: the bytes that the hook accounts to the device are exactly the bytes in its table, and the table
  holds live pointers only: an allocation adds at most the pointer that the runtime returned, with its
  size, and a free takes out exactly the freed pointer and does not disarm a pending retry.
\<close>

theorem hook_bytes_accounted:
  assumes "ur_fresh E" "is_win E" "ur_inv E others s" "unat (total_vram_usage s) + unat n < 2 ^ 63" "usable pointer"
  shows "wp (aimdo_urUSMDeviceAlloc E th context dev pool n out s) (kept E others n s) \<and>
    wp (aimdo_urUSMFree E th context pointer s) (\<lambda>rc t. ur_inv E others t \<and> still_armed s t \<and>
      table_map (ur_allocations t) =
        (if ur_enabled s \<and> rc = 0 then (table_map (ur_allocations s))(pointer := None) else table_map (ur_allocations s)))"
  using wp_alloc_kept [OF assms(1,3,4,2)] wp_free_inv [OF assms(3,5)] by blast

theorem hook_bytes_accounted_witness:
  "wp (aimdo_urUSMDeviceAlloc hook_env 0 5 6 7 4096 True demo_ustate) (kept hook_env 33554432 4096 demo_ustate) \<and>
    wp (aimdo_urUSMFree hook_env 0 5 1048576 demo_ustate) (\<lambda>rc t. ur_inv hook_env 33554432 t \<and> still_armed demo_ustate t \<and>
      table_map (ur_allocations t) = (if ur_enabled demo_ustate \<and> rc = 0
        then (table_map (ur_allocations demo_ustate))(1048576 := None) else table_map (ur_allocations demo_ustate)))"
  by (rule hook_bytes_accounted) (simp_all add: usable_def)



section \<open>Staging memory of the file reader\<close>

text \<open>
  C40: a transfer through the staging windows returns, for any size up to 2^63 and whatever fails on the
  way, and so does the cleanup. From a state where what is in flight in a window lies below its offset
  and behind its event or on its stream, every file read, every file write and every release of staging
  memory is made only where the device has no copy in flight, and the state is again of that form.
\<close>

theorem staging_never_in_flight:
  assumes "reader_driver E" "io_live E" "vinv E s" "reader_ok E s" "unat n < 2 ^ 63"
  shows "wp (hostbuf_file_transfer E dev fd file_offset n stream device_ptr cold wr s)
      (\<lambda>_ t. vinv E t \<and> reader_ok E t \<and> safe_since E (hist s) (hist t)) \<and>
    wp (hostbuf_file_reader_cleanup_checked E s) (\<lambda>_ t. vinv E t \<and> reader_ok E t \<and> safe_since E (hist s) (hist t))"
  using wp_file_transfer [OF assms] wp_cleanup [OF assms(1,3,4)] by (simp add: staged_def)

theorem staging_never_in_flight_witness:
  "wp (hostbuf_file_transfer window_env 0 3 4096 200000000 9 1099511627776 True False demo_fstate)
      (\<lambda>_ t. vinv window_env t \<and> reader_ok window_env t \<and> safe_since window_env (hist demo_fstate) (hist t)) \<and>
    wp (hostbuf_file_reader_cleanup_checked window_env demo_fstate)
      (\<lambda>_ t. vinv window_env t \<and> reader_ok window_env t \<and> safe_since window_env (hist demo_fstate) (hist t))"
  by (rule staging_never_in_flight) simp_all

section \<open>The device's virtual memory on XPU\<close>

text \<open>
  C38: the lists of the memory manager refine the state of the device. After any sequence of requests,
  and whatever the driver answered, they hold exactly what the device has reserved, allocated and mapped,
  and every call was one that the device admits: no range is freed under a mapping, no physical memory is
  destroyed while it is mapped, no mapping leaves its reservation or its physical memory or meets another
  one, only what was mapped is unmapped, and access is set only where every byte is mapped.
\<close>

theorem manager_refines_device:
  assumes "ze_contract D" "vmm_reachable D s"
  shows "mirrors D s \<and> legal_history D (ze_hist s)"
  using vmm_reachable_ok [OF assms(2,1)] by (simp add: vmm_ok_def)

theorem manager_refines_device_witness:
  "mirrors (page_drv True) demo_vmm \<and> legal_history (page_drv True) (ze_hist demo_vmm)"
  by (rule manager_refines_device) simp_all

text \<open>
  C39: an unmap that succeeds takes out exactly the mappings inside its range. One that fails in the
  driver can be repeated: the same request with a driver that unmaps succeeds and then the same mappings
  are gone, and until then nothing is mapped over the range, whoever asks in the same context.
\<close>

theorem failed_unmap_can_be_repeated:
  assumes "vmm_ok D s" "vmm_unmap D owner a n s = (r, t)" "r = ZE_RESULT_SUCCESS \<or> ze_hist t \<noteq> ze_hist s"
    "\<forall>h b k. fst (D' h (ZeUnmap (vo_context owner) b k)) = ZE_RESULT_SUCCESS"
  shows "if r = ZE_RESULT_SUCCESS then mappings_of t = filter (\<lambda>m. \<not> inside owner a n m) (mappings_of s)
    else (\<exists>u. vmm_unmap D' owner a n t = (ZE_RESULT_SUCCESS, u) \<and> mappings_of u = filter (\<lambda>m. \<not> inside owner a n m) (mappings_of s)) \<and>
      (\<forall>owner' b k h off flags. vo_context owner' = vo_context owner \<and> range_overlaps b k a n \<longrightarrow>
        fst (vmm_map D' owner' b k h off flags t) \<noteq> ZE_RESULT_SUCCESS)"
  using unmap_done [OF assms(1)] unmap_again [OF assms(1,2)] map_refused [OF assms(2)] assms(2-4) by auto

theorem failed_unmap_can_be_repeated_witness:
  "if ZeResult 1 = ZE_RESULT_SUCCESS then mappings_of demo_stuck = filter (\<lambda>m. \<not> inside demo_owner 3298534883328 65536 m) (mappings_of demo_vmm)
    else (\<exists>u. vmm_unmap (page_drv False) demo_owner 3298534883328 65536 demo_stuck = (ZE_RESULT_SUCCESS, u) \<and>
        mappings_of u = filter (\<lambda>m. \<not> inside demo_owner 3298534883328 65536 m) (mappings_of demo_vmm)) \<and>
      (\<forall>owner' b k h off flags. vo_context owner' = vo_context demo_owner \<and> range_overlaps b k 3298534883328 65536 \<longrightarrow>
        fst (vmm_map (page_drv False) owner' b k h off flags demo_stuck) \<noteq> ZE_RESULT_SUCCESS)"
  by (rule failed_unmap_can_be_repeated [of "page_drv True", OF _ demo_unmap_fails])
    (simp_all add: demo_stuck_def page_drv_def)

end
